(* ===== verification/Py_Prelude.thy ===== *)
theory Py_Prelude
  imports Complex_Main "HOL-Library.AList" "HOL-Library.Sublist"
begin

text \<open>
  The vocabulary the component theories share.

  \<^item> Python strings. A string is a list of characters whose codes are read as the code
    points below 256; \<open>py_space\<close> is \<open>str.isspace\<close> (and the \<open>\s\<close> of \<open>re\<close>) on that range.
    \<open>clean_text\<close> is the function of that name in \<open>evelyn_core/text.py\<close>.
  \<^item> Python dictionaries whose order matters are association lists (\<open>AList.update\<close>
    overwrites in place and appends a new key at the end, as a \<open>dict\<close> does); the others
    are maps.
  \<^item> Clock readings and durations are real numbers (floating-point rounding is not
    modelled).
  \<^item> Interface locales for components that are driven by a sequence of operations: an
    invariant kept by every operation, a latch that is never reset, a view that is frozen.
\<close>

named_theorems dict_simps "lookup facts on association lists used as dictionaries"

type_synonym 'v dict = "(string \<times> 'v) list"

section \<open>Strings\<close>

definition py_space :: "char \<Rightarrow> bool" where
  "py_space c = (let n = (of_char c :: nat) in
     (9 \<le> n \<and> n \<le> 13) \<or> (28 \<le> n \<and> n \<le> 32) \<or> n = 133 \<or> n = 160)"

definition py_strip :: "string \<Rightarrow> string" where
  "py_strip s = rev (dropWhile py_space (rev (dropWhile py_space s)))"

fun collapse_spaces :: "string \<Rightarrow> string" where
  "collapse_spaces [] = []"
| "collapse_spaces [c] = (if py_space c then '' '' else [c])"
| "collapse_spaces (c # d # cs) =
     (if py_space c \<and> py_space d then collapse_spaces (d # cs)
      else (if py_space c then CHR '' '' else c) # collapse_spaces (d # cs))"

definition clean_text :: "string \<Rightarrow> string" where
  "clean_text s = collapse_spaces (py_strip s)"

text \<open>The normal form that \<open>clean_text\<close> produces: blanks are single, inner, and spaces.\<close>

fun single_spaced :: "string \<Rightarrow> bool" where
  "single_spaced [] = True"
| "single_spaced [c] = (py_space c \<longrightarrow> c = CHR '' '')"
| "single_spaced (c # d # cs) =
     ((py_space c \<longrightarrow> c = CHR '' '' \<and> \<not> py_space d) \<and> single_spaced (d # cs))"

lemma py_space_blank [simp]: "py_space (CHR '' '')"
  by (simp add: py_space_def)

lemma collapse_eq_Nil [simp]: "collapse_spaces s = [] \<longleftrightarrow> s = []"
  by (induction s rule: collapse_spaces.induct) auto

lemma collapse_hd: "s \<noteq> [] \<Longrightarrow> py_space (hd (collapse_spaces s)) = py_space (hd s)"
  by (induction s rule: collapse_spaces.induct) auto

lemma collapse_last: "s \<noteq> [] \<Longrightarrow> py_space (last (collapse_spaces s)) = py_space (last s)"
  by (induction s rule: collapse_spaces.induct) auto

lemma single_spaced_collapse: "single_spaced (collapse_spaces s)"
proof (induction s rule: collapse_spaces.induct)
  case (3 c d cs)
  obtain x xs where x: "collapse_spaces (d # cs) = x # xs"
    by (cases "collapse_spaces (d # cs)") auto
  then have "py_space x = py_space d"
    using collapse_hd [of "d # cs"] by simp
  with 3 x show ?case by auto
qed auto

lemma collapse_single_spaced: "single_spaced s \<Longrightarrow> collapse_spaces s = s"
  by (induction s rule: single_spaced.induct) auto

lemma dropWhile_hd_keep: "xs = [] \<or> \<not> P (hd xs) \<Longrightarrow> dropWhile P xs = xs"
  by (cases xs) auto

lemma dropWhile_hd_stop: "dropWhile P xs \<noteq> [] \<Longrightarrow> \<not> P (hd (dropWhile P xs))"
  by (induction xs) (auto split: if_splits)

lemma hd_rstrip: "rev (dropWhile P (rev xs)) \<noteq> [] \<Longrightarrow> hd (rev (dropWhile P (rev xs))) = hd xs"
proof (induction xs rule: rev_induct)
  case (snoc x xs)
  then show ?case by (cases xs) (auto simp: dropWhile_append hd_append split: if_splits)
qed simp

lemma strip_ends:
  assumes "py_strip s \<noteq> []"
  shows "\<not> py_space (hd (py_strip s))" and "\<not> py_space (last (py_strip s))"
proof -
  let ?a = "dropWhile py_space s"
  have "?a \<noteq> []" using assms unfolding py_strip_def by force
  then show "\<not> py_space (hd (py_strip s))"
    using assms by (simp add: py_strip_def hd_rstrip [unfolded rev_is_Nil_conv] dropWhile_hd_stop
        del: dropWhile_eq_Nil_conv)
  show "\<not> py_space (last (py_strip s))"
    using assms by (simp add: py_strip_def last_rev dropWhile_hd_stop del: dropWhile_eq_Nil_conv)
qed

lemma strip_fix:
  assumes "s = [] \<or> \<not> py_space (hd s) \<and> \<not> py_space (last s)"
  shows "py_strip s = s"
proof -
  have "dropWhile py_space s = s" using assms by (intro dropWhile_hd_keep) auto
  moreover have "dropWhile py_space (rev s) = rev s"
    using assms by (intro dropWhile_hd_keep) (auto simp: hd_rev)
  ultimately show ?thesis by (simp add: py_strip_def)
qed

lemma py_strip_Nil [simp]: "py_strip [] = []"
  by (simp add: py_strip_def)

lemma py_strip_idem [simp]: "py_strip (py_strip s) = py_strip s"
  by (rule strip_fix) (use strip_ends in blast)

lemma clean_text_Nil [simp]: "clean_text [] = []"
  by (simp add: clean_text_def py_strip_def)

lemma clean_text_idem [simp]: "clean_text (clean_text s) = clean_text s"
proof -
  have "py_strip (clean_text s) = clean_text s"
    using strip_ends [of s] collapse_hd [of "py_strip s"] collapse_last [of "py_strip s"]
    by (intro strip_fix) (auto simp: clean_text_def)
  then show ?thesis
    by (simp add: clean_text_def collapse_single_spaced single_spaced_collapse)
qed

text \<open>Decimal notation: \<open>str(i)\<close> of an integer, and \<open>str.isdigit\<close> with \<open>isascii\<close>.\<close>

fun nat_str :: "nat \<Rightarrow> string" where
  "nat_str n = (if n < 10 then [char_of (48 + n)] else nat_str (n div 10) @ [char_of (48 + n mod 10)])"

declare nat_str.simps [simp del]

definition int_str :: "int \<Rightarrow> string" where
  "int_str i = (if i < 0 then CHR ''-'' # nat_str (nat (- i)) else nat_str (nat i))"

definition digit_char :: "char \<Rightarrow> bool" where
  "digit_char c = (48 \<le> (of_char c :: nat) \<and> (of_char c :: nat) \<le> 57)"

definition nat_of_str :: "string \<Rightarrow> nat" where
  "nat_of_str s = foldl (\<lambda>n c. 10 * n + (of_char c - 48)) 0 s"

lemma of_char_digit [simp]: "n < 10 \<Longrightarrow> (of_char (char_of (48 + n :: nat)) :: nat) = 48 + n"
  by simp

lemma nat_str_digits: "c \<in> set (nat_str n) \<Longrightarrow> digit_char c"
proof (induction n rule: nat_str.induct)
  case (1 n)
  then show ?case
    by (cases "n < 10") (auto simp: nat_str.simps [of n] digit_char_def)
qed

lemma nat_str_not_Nil [simp]: "nat_str n \<noteq> []"
  by (simp add: nat_str.simps [of n])

lemma nat_of_nat_str [simp]: "nat_of_str (nat_str n) = n"
proof (induction n rule: nat_str.induct)
  case (1 n)
  then show ?case
    by (cases "n < 10") (simp_all add: nat_str.simps [of n] nat_of_str_def)
qed

fun split_on :: "char \<Rightarrow> string \<Rightarrow> string list" where
  "split_on d [] = [[]]"
| "split_on d (c # cs) =
     (if c = d then [] # split_on d cs
      else (case split_on d cs of [] \<Rightarrow> [[c]] | w # ws \<Rightarrow> (c # w) # ws))"

fun join_on :: "char \<Rightarrow> string list \<Rightarrow> string" where
  "join_on d [] = []"
| "join_on d [s] = s"
| "join_on d (s # t # ss) = s @ d # join_on d (t # ss)"

lemma split_on_not_Nil [simp]: "split_on d s \<noteq> []"
  by (cases s) (auto split: list.splits)

lemma split_on_single: "d \<notin> set s \<Longrightarrow> split_on d s = [s]"
  by (induction s) auto

lemma split_on_append: "d \<notin> set s \<Longrightarrow> split_on d (s @ d # t) = s # split_on d t"
  by (induction s) auto

lemma join_split: "join_on d (split_on d s) = s"
proof (induction s)
  case (Cons c cs)
  obtain x xs where "split_on d cs = x # xs" by (cases "split_on d cs") auto
  with Cons show ?case by (cases xs) auto
qed simp

section \<open>Floating-point values that may not be finite\<close>

datatype pyfloat = Fin real | PosInf | NegInf | NaN

fun is_finite :: "pyfloat \<Rightarrow> bool" where
  "is_finite (Fin x) = True"
| "is_finite _ = False"

fun fin_val :: "pyfloat \<Rightarrow> real" where
  "fin_val (Fin x) = x"
| "fin_val _ = 0"

text \<open>Python's comparisons: every one with NaN is false.\<close>

fun pf_lt :: "pyfloat \<Rightarrow> pyfloat \<Rightarrow> bool" where
  "pf_lt (Fin x) (Fin y) = (x < y)"
| "pf_lt NegInf (Fin _) = True"
| "pf_lt NegInf PosInf = True"
| "pf_lt (Fin _) PosInf = True"
| "pf_lt _ _ = False"

definition pf_le :: "pyfloat \<Rightarrow> pyfloat \<Rightarrow> bool" where
  "pf_le a b \<longleftrightarrow> pf_lt a b \<or> a = b \<and> a \<noteq> NaN"

text \<open>\<open>max(a, b)\<close> and \<open>min(a, b)\<close> keep the first value unless the second one is beyond it.\<close>

definition pf_max :: "pyfloat \<Rightarrow> pyfloat \<Rightarrow> pyfloat" where
  "pf_max a b = (if pf_lt a b then b else a)"

definition pf_min :: "pyfloat \<Rightarrow> pyfloat \<Rightarrow> pyfloat" where
  "pf_min a b = (if pf_lt b a then b else a)"

section \<open>Dictionaries kept in insertion order\<close>

definition dict_get :: "'v dict \<Rightarrow> string \<Rightarrow> 'v option" where
  "dict_get d k = map_of d k"

definition dict_set :: "string \<Rightarrow> 'v \<Rightarrow> 'v dict \<Rightarrow> 'v dict" where
  "dict_set k v d = AList.update k v d"

definition dict_pop :: "string \<Rightarrow> 'v dict \<Rightarrow> 'v dict" where
  "dict_pop k d = AList.delete k d"

lemma dict_get_set [simp, dict_simps]:
  "dict_get (dict_set k v d) k' = (if k' = k then Some v else dict_get d k')"
  by (simp add: dict_get_def dict_set_def update_conv')

lemma dict_get_pop [simp, dict_simps]:
  "dict_get (dict_pop k d) k' = (if k' = k then None else dict_get d k')"
  by (simp add: dict_get_def dict_pop_def delete_conv')

lemma dict_get_Nil [simp, dict_simps]: "dict_get [] k = None"
  by (simp add: dict_get_def)

lemma dict_get_Cons [dict_simps]:
  "dict_get ((k, v) # d) k' = (if k' = k then Some v else dict_get d k')"
  by (simp add: dict_get_def)

lemma distinct_dict_set [simp]:
  "distinct (map fst d) \<Longrightarrow> distinct (map fst (dict_set k v d))"
  by (simp add: dict_set_def distinct_update)

lemma distinct_dict_pop [simp]:
  "distinct (map fst d) \<Longrightarrow> distinct (map fst (dict_pop k d))"
  by (simp add: dict_pop_def distinct_delete)

lemma dict_get_mem: "dict_get d k = Some v \<Longrightarrow> (k, v) \<in> set d"
  by (simp add: dict_get_def map_of_SomeD)

lemma dict_get_filter:
  "distinct (map fst d) \<Longrightarrow>
   dict_get (filter (\<lambda>p. Q (fst p) (snd p)) d) k =
     (case dict_get d k of Some v \<Rightarrow> if Q k v then Some v else None | None \<Rightarrow> None)"
proof (induction d)
  case (Cons p d)
  moreover have "k \<notin> fst ` set d \<Longrightarrow> dict_get d k = None"
    by (auto simp: dict_get_def map_of_eq_None_iff)
  ultimately show ?case
    by (cases p) (auto simp: dict_get_def split: option.splits)
qed (simp add: dict_get_def)

section \<open>Operations that may raise\<close>

text \<open>
  An operation takes the state and returns a value or an exception, and the state it leaves:
  what was changed before a \<open>raise\<close> stays changed. \<open>keeps\<close> says that an operation preserves
  a property of the state on every path, exceptions included.
\<close>

type_synonym ('s, 'e, 'a) prog = "'s \<Rightarrow> ('e + 'a) \<times> 's"

definition ret :: "'a \<Rightarrow> ('s, 'e, 'a) prog" where
  "ret x s = (Inr x, s)"

definition throw :: "'e \<Rightarrow> ('s, 'e, 'a) prog" where
  "throw e s = (Inl e, s)"

definition bind :: "('s, 'e, 'a) prog \<Rightarrow> ('a \<Rightarrow> ('s, 'e, 'b) prog) \<Rightarrow> ('s, 'e, 'b) prog" where
  "bind m f s = (case m s of (Inl e, s1) \<Rightarrow> (Inl e, s1) | (Inr x, s1) \<Rightarrow> f x s1)"

definition seq_ops :: "('s, 'e, unit) prog \<Rightarrow> ('s, 'e, 'b) prog \<Rightarrow> ('s, 'e, 'b) prog" where
  "seq_ops m k = bind m (\<lambda>_. k)"

definition keeps :: "('s \<Rightarrow> bool) \<Rightarrow> ('s, 'e, 'a) prog \<Rightarrow> bool" where
  "keeps I m \<longleftrightarrow> (\<forall>s. I s \<longrightarrow> I (snd (m s)))"

named_theorems keep_rules "operations that preserve a property of the state"

lemma keeps_ret [keep_rules]: "keeps I (ret x)"
  by (simp add: keeps_def ret_def)

lemma keeps_throw [keep_rules]: "keeps I (throw e)"
  by (simp add: keeps_def throw_def)

lemma keeps_bind [keep_rules]: "keeps I m \<Longrightarrow> (\<And>x. keeps I (f x)) \<Longrightarrow> keeps I (bind m f)"
  by (fastforce simp: keeps_def bind_def split: prod.split sum.split)

lemma keeps_seq [keep_rules]: "keeps I m \<Longrightarrow> keeps I k \<Longrightarrow> keeps I (seq_ops m k)"
  by (simp add: seq_ops_def keeps_bind)

lemma keeps_if [keep_rules]: "keeps I m \<Longrightarrow> keeps I k \<Longrightarrow> keeps I (if b then m else k)"
  by simp

lemma keeps_state: "(\<And>s. I s \<Longrightarrow> keeps I (m s)) \<Longrightarrow> keeps I (\<lambda>s. m s s)"
  by (simp add: keeps_def)

lemma keepsD: "keeps I m \<Longrightarrow> I s \<Longrightarrow> I (snd (m s))"
  by (simp add: keeps_def)

lemma bind_ret: "bind (ret x) f = f x"
  by (simp add: fun_eq_iff bind_def ret_def)

lemma bind_Inr: "bind m f s = (Inr y, s') \<longleftrightarrow> (\<exists>x s1. m s = (Inr x, s1) \<and> f x s1 = (Inr y, s'))"
  by (auto simp: bind_def split: prod.split sum.split)

lemma seq_Inr: "seq_ops m k s = (Inr y, s') \<longleftrightarrow> (\<exists>s1. m s = (Inr (), s1) \<and> k s1 = (Inr y, s'))"
  by (auto simp: seq_ops_def bind_Inr)

section \<open>Components driven by operations\<close>

text \<open>Every operation keeps the invariant; then every run of operations does.\<close>

locale op_machine =
  fixes step :: "'s \<Rightarrow> 'op \<Rightarrow> 's"
    and inv :: "'s \<Rightarrow> bool"
  assumes inv_step: "inv s \<Longrightarrow> inv (step s x)"
begin

lemma inv_run: "inv s \<Longrightarrow> inv (foldl step s xs)"
  by (induction xs arbitrary: s) (auto intro: inv_step)

end

text \<open>A flag that no operation clears.\<close>

locale latched_machine = op_machine +
  fixes latch :: "'s \<Rightarrow> bool"
  assumes latch_step: "latch s \<Longrightarrow> latch (step s x)"
begin

lemma latch_run: "latch s \<Longrightarrow> latch (foldl step s xs)"
  by (induction xs arbitrary: s) (auto intro: latch_step)

end

text \<open>Once latched, an observation of the state never changes again.\<close>

locale frozen_machine = latched_machine +
  fixes view :: "'s \<Rightarrow> 'v"
  assumes view_step: "latch s \<Longrightarrow> view (step s x) = view s"
begin

lemma view_run: "latch s \<Longrightarrow> view (foldl step s xs) = view s"
proof (induction xs arbitrary: s)
  case (Cons x xs)
  then have "view (foldl step (step s x) xs) = view (step s x)"
    by (intro Cons.IH latch_step)
  with Cons.prems show ?case by (simp add: view_step)
qed simp

end

end
