(* ===== verification/Turn_Lifecycle.thy ===== *)
theory Turn_Lifecycle
  imports Py_Prelude
begin

text \<open>
  \<open>evelyn_core/turn_lifecycle.py\<close>: the scope of one conversational turn (its state, its
  transition log, the asyncio tasks registered with it) and the registry that holds the
  scope of each room.

  Scopes are shared objects: \<open>registry.scopes\<close> is the store from scope identities to scopes
  and \<open>room_turn_scopes\<close> maps a room to an identity, so two rooms may hold the same scope.
  A task is a number; \<open>dn t\<close> is \<open>t.done()\<close> at the time of the call, and the tasks on which
  \<open>cancel()\<close> was called are collected in \<open>cancel_requests\<close>. \<open>now\<close> is the reading of
  \<open>time.monotonic()\<close>.
\<close>

section \<open>One turn scope\<close>

datatype turn_state =
  CREATED | RECEIVING_AUDIO | STT_RUNNING | ROUTING | CONTEXT_ASSEMBLING | LLM_RUNNING
| TTS_RUNNING | PLAYING | CANCELLED | DONE | FAILED

fun turn_state_value :: "turn_state \<Rightarrow> string" where
  "turn_state_value CREATED = ''created''"
| "turn_state_value RECEIVING_AUDIO = ''receiving_audio''"
| "turn_state_value STT_RUNNING = ''stt_running''"
| "turn_state_value ROUTING = ''routing''"
| "turn_state_value CONTEXT_ASSEMBLING = ''context_assembling''"
| "turn_state_value LLM_RUNNING = ''llm_running''"
| "turn_state_value TTS_RUNNING = ''tts_running''"
| "turn_state_value PLAYING = ''playing''"
| "turn_state_value CANCELLED = ''cancelled''"
| "turn_state_value DONE = ''done''"
| "turn_state_value FAILED = ''failed''"

definition turn_states :: "turn_state list" where
  "turn_states = [CREATED, RECEIVING_AUDIO, STT_RUNNING, ROUTING, CONTEXT_ASSEMBLING,
     LLM_RUNNING, TTS_RUNNING, PLAYING, CANCELLED, DONE, FAILED]"

text \<open>\<open>TurnState(value)\<close>: the member with that value, \<open>None\<close> for the ValueError.\<close>

definition turn_state_of :: "string \<Rightarrow> turn_state option" where
  "turn_state_of v = find (\<lambda>st. turn_state_value st = v) turn_states"

record turn_transition =
  previous_state :: turn_state
  to_state :: turn_state
  reason :: "string option"
  at_monotonic :: real

record turn_scope =
  turn_id :: string
  cancelled :: bool
  scope_tasks :: "nat set"
  registration_counts :: "nat \<rightharpoonup> nat"
  scope_state :: turn_state
  transition_log :: "turn_transition list"
  cancel_reason :: "string option"

definition new_scope :: "string \<Rightarrow> turn_scope" where
  "new_scope i = \<lparr>turn_id = i, cancelled = False, scope_tasks = {},
     registration_counts = Map.empty, scope_state = CREATED, transition_log = [],
     cancel_reason = None\<rparr>"

definition transition :: "real \<Rightarrow> turn_state \<Rightarrow> string option \<Rightarrow> turn_scope \<Rightarrow> turn_scope" where
  "transition now st r sc = sc\<lparr>scope_state := st,
     transition_log := transition_log sc @
       [\<lparr>previous_state = scope_state sc, to_state = st, reason = r, at_monotonic = now\<rparr>]\<rparr>"

text \<open>\<open>transition\<close> called with a string: an unknown value raises before anything changes.\<close>

definition transition_value ::
  "real \<Rightarrow> string \<Rightarrow> string option \<Rightarrow> turn_scope \<Rightarrow> turn_scope option" where
  "transition_value now v r sc =
     (case turn_state_of v of None \<Rightarrow> None | Some st \<Rightarrow> Some (transition now st r sc))"

text \<open>Python's \<open>a or b\<close> on optional strings: the empty string is false as well.\<close>

definition str_or :: "string option \<Rightarrow> string option \<Rightarrow> string option" where
  "str_or a b = (case a of Some (c # cs) \<Rightarrow> a | _ \<Rightarrow> b)"

definition cancel ::
  "real \<Rightarrow> (nat \<Rightarrow> bool) \<Rightarrow> string option \<Rightarrow> turn_scope \<Rightarrow> nat set \<times> turn_scope" where
  "cancel now dn r sc =
     (let why = str_or r (str_or (cancel_reason sc) (Some ''cancelled''));
          sc1 = sc\<lparr>cancelled := True, cancel_reason := why\<rparr>;
          sc2 = (if scope_state sc1 \<noteq> CANCELLED then transition now CANCELLED why sc1 else sc1)
      in ({t \<in> scope_tasks sc2. \<not> dn t}, sc2))"

definition is_current :: "turn_scope \<Rightarrow> string option \<Rightarrow> bool" where
  "is_current sc expected =
     (case expected of None \<Rightarrow> False
      | Some e \<Rightarrow> e \<noteq> [] \<and> turn_id sc = e \<and> \<not> cancelled sc)"

definition is_stale :: "turn_scope \<Rightarrow> string option \<Rightarrow> bool" where
  "is_stale sc expected = (\<not> is_current sc expected)"

definition reg_count :: "turn_scope \<Rightarrow> nat \<Rightarrow> nat" where
  "reg_count sc t = (case registration_counts sc t of None \<Rightarrow> 0 | Some n \<Rightarrow> n)"

text \<open>
  \<open>register_task(task)\<close>: \<open>None\<close> stands for the running task \<open>cur\<close> (which is \<open>None\<close>
  outside a task). The first component is the set of tasks that get \<open>cancel()\<close>.
\<close>

definition register_task ::
  "nat option \<Rightarrow> nat option \<Rightarrow> turn_scope \<Rightarrow> nat set \<times> turn_scope" where
  "register_task cur task sc =
     (case (case task of None \<Rightarrow> cur | Some t \<Rightarrow> Some t) of
        None \<Rightarrow> ({}, sc)
      | Some t \<Rightarrow>
          if cancelled sc then ({t}, sc)
          else ({}, sc\<lparr>registration_counts := (registration_counts sc)(t \<mapsto> reg_count sc t + 1),
                       scope_tasks := insert t (scope_tasks sc)\<rparr>))"

definition unregister_task :: "nat option \<Rightarrow> nat option \<Rightarrow> turn_scope \<Rightarrow> turn_scope" where
  "unregister_task cur task sc =
     (case (case task of None \<Rightarrow> cur | Some t \<Rightarrow> Some t) of
        None \<Rightarrow> sc
      | Some t \<Rightarrow>
          if reg_count sc t > 1
          then sc\<lparr>registration_counts := (registration_counts sc)(t \<mapsto> reg_count sc t - 1)\<rparr>
          else sc\<lparr>registration_counts := (registration_counts sc)(t := None),
                  scope_tasks := scope_tasks sc - {t}\<rparr>)"

section \<open>The room registry\<close>

record registry =
  scopes :: "nat \<Rightarrow> turn_scope"
  room_turn_scopes :: "nat dict"
  cancelled_stale_turn_count :: nat
  cancel_requests :: "nat set"
  done_callbacks :: "(nat \<times> nat) list"

definition init_registry :: "(nat \<Rightarrow> string) \<Rightarrow> registry" where
  "init_registry ids = \<lparr>scopes = (\<lambda>i. new_scope (ids i)), room_turn_scopes = [],
     cancelled_stale_turn_count = 0, cancel_requests = {}, done_callbacks = []\<rparr>"

definition cancel_scope ::
  "real \<Rightarrow> (nat \<Rightarrow> bool) \<Rightarrow> string option \<Rightarrow> nat \<Rightarrow> registry \<Rightarrow> registry" where
  "cancel_scope now dn r i g =
     (let (ts, sc) = cancel now dn r (scopes g i)
      in g\<lparr>scopes := (scopes g)(i := sc), cancel_requests := cancel_requests g \<union> ts\<rparr>)"

definition replace_room_scope ::
  "real \<Rightarrow> (nat \<Rightarrow> bool) \<Rightarrow> string \<Rightarrow> nat \<Rightarrow> bool \<Rightarrow> registry \<Rightarrow> nat option \<times> registry" where
  "replace_room_scope now dn room new cancel_old g =
     (let old = dict_get (room_turn_scopes g) room;
          g1 = g\<lparr>room_turn_scopes := dict_set room new (room_turn_scopes g)\<rparr>
      in (old,
          case old of
            None \<Rightarrow> g1
          | Some o' \<Rightarrow>
              if cancel_old \<and> o' \<noteq> new
              then (cancel_scope now dn (Some ''replaced_by_new_turn'') o' g1)
                     \<lparr>cancelled_stale_turn_count := cancelled_stale_turn_count g1 + 1\<rparr>
              else g1))"

definition get_room_scope :: "string option \<Rightarrow> registry \<Rightarrow> nat option" where
  "get_room_scope room g =
     (case room of None \<Rightarrow> None
      | Some k \<Rightarrow> if k = [] then None else dict_get (room_turn_scopes g) k)"

datatype turn_error = CancelledError

definition attach_current_task ::
  "nat option \<Rightarrow> nat option \<Rightarrow> registry \<Rightarrow> turn_error + registry" where
  "attach_current_task cur i g =
     (case i of None \<Rightarrow> Inr g
      | Some i' \<Rightarrow>
          if cancelled (scopes g i') then Inl CancelledError
          else (let (ts, sc) = register_task cur cur (scopes g i')
                in Inr (g\<lparr>scopes := (scopes g)(i' := sc),
                          cancel_requests := cancel_requests g \<union> ts\<rparr>)))"

definition detach_task :: "nat option \<Rightarrow> nat option \<Rightarrow> nat option \<Rightarrow> registry \<Rightarrow> registry" where
  "detach_task cur i task g =
     (case i of None \<Rightarrow> g
      | Some i' \<Rightarrow>
          g\<lparr>scopes := (scopes g)(i' := unregister_task cur task (scopes g i'))\<rparr>)"

text \<open>
  \<open>create_scoped_task\<close>: \<open>t\<close> is the task that \<open>asyncio.create_task\<close> made. The callback it
  leaves behind runs when the task ends (\<open>task_finished\<close>).
\<close>

definition create_scoped_task :: "nat \<Rightarrow> nat option \<Rightarrow> registry \<Rightarrow> registry" where
  "create_scoped_task t i g =
     (case i of None \<Rightarrow> g
      | Some i' \<Rightarrow>
          let (ts, sc) = register_task None (Some t) (scopes g i')
          in g\<lparr>scopes := (scopes g)(i' := sc), cancel_requests := cancel_requests g \<union> ts,
               done_callbacks := done_callbacks g @ [(t, i')]\<rparr>)"

definition run_callback :: "registry \<Rightarrow> nat \<times> nat \<Rightarrow> registry" where
  "run_callback g c =
     g\<lparr>scopes := (scopes g)(snd c := unregister_task None (Some (fst c)) (scopes g (snd c)))\<rparr>"

definition task_finished :: "nat \<Rightarrow> registry \<Rightarrow> registry" where
  "task_finished t g =
     (let g' = foldl run_callback g (filter (\<lambda>c. fst c = t) (done_callbacks g))
      in g'\<lparr>done_callbacks := filter (\<lambda>c. fst c \<noteq> t) (done_callbacks g)\<rparr>)"

definition clear_room_scope :: "string option \<Rightarrow> nat option \<Rightarrow> registry \<Rightarrow> registry" where
  "clear_room_scope room i g =
     (case room of None \<Rightarrow> g
      | Some k \<Rightarrow>
          if k = [] then g
          else (case dict_get (room_turn_scopes g) k of
                  None \<Rightarrow> g
                | Some cur \<Rightarrow>
                    if i \<noteq> None \<and> i \<noteq> Some cur then g
                    else g\<lparr>room_turn_scopes := dict_pop k (room_turn_scopes g)\<rparr>))"

text \<open>The loop of \<open>cancel_matching_prefix\<close>; \<open>clk n\<close> is the clock at the n-th cancellation.\<close>

fun cancel_rooms ::
  "(nat \<Rightarrow> real) \<Rightarrow> (nat \<Rightarrow> bool) \<Rightarrow> string \<Rightarrow> nat dict \<Rightarrow> nat \<Rightarrow> registry \<Rightarrow> nat \<times> registry" where
  "cancel_rooms clk dn p [] n g = (n, g)"
| "cancel_rooms clk dn p ((k, i) # rs) n g =
     (if \<not> prefix p k then cancel_rooms clk dn p rs n g
      else (let g1 = cancel_scope (clk n) dn None i g
            in cancel_rooms clk dn p rs (n + 1)
                 (g1\<lparr>room_turn_scopes := dict_pop k (room_turn_scopes g1)\<rparr>)))"

definition cancel_matching_prefix ::
  "(nat \<Rightarrow> real) \<Rightarrow> (nat \<Rightarrow> bool) \<Rightarrow> string \<Rightarrow> registry \<Rightarrow> nat \<times> registry" where
  "cancel_matching_prefix clk dn p g = cancel_rooms clk dn p (room_turn_scopes g) 0 g"

section \<open>Operations as events\<close>

datatype turn_event =
  Ev_transition real nat turn_state "string option"
| Ev_cancel real "nat \<Rightarrow> bool" nat "string option"
| Ev_attach "nat option" "nat option"
| Ev_register "nat option" "nat option" nat
| Ev_detach "nat option" "nat option" "nat option"
| Ev_create_task nat "nat option"
| Ev_task_finished nat
| Ev_replace real "nat \<Rightarrow> bool" string nat bool
| Ev_clear "string option" "nat option"
| Ev_cancel_prefix "nat \<Rightarrow> real" "nat \<Rightarrow> bool" string

fun turn_step :: "registry \<Rightarrow> turn_event \<Rightarrow> registry" where
  "turn_step g (Ev_transition now i st r) =
     g\<lparr>scopes := (scopes g)(i := transition now st r (scopes g i))\<rparr>"
| "turn_step g (Ev_cancel now dn i r) = cancel_scope now dn r i g"
| "turn_step g (Ev_attach cur i) =
     (case attach_current_task cur i g of Inl _ \<Rightarrow> g | Inr g' \<Rightarrow> g')"
| "turn_step g (Ev_register cur t i) =
     (let (ts, sc) = register_task cur t (scopes g i)
      in g\<lparr>scopes := (scopes g)(i := sc), cancel_requests := cancel_requests g \<union> ts\<rparr>)"
| "turn_step g (Ev_detach cur i t) = detach_task cur i t g"
| "turn_step g (Ev_create_task t i) = create_scoped_task t i g"
| "turn_step g (Ev_task_finished t) = task_finished t g"
| "turn_step g (Ev_replace now dn room new co) = snd (replace_room_scope now dn room new co g)"
| "turn_step g (Ev_clear room i) = clear_room_scope room i g"
| "turn_step g (Ev_cancel_prefix clk dn p) = snd (cancel_matching_prefix clk dn p g)"

section \<open>The invariant\<close>

fun log_path :: "turn_state \<Rightarrow> turn_transition list \<Rightarrow> turn_state \<Rightarrow> bool" where
  "log_path a [] b = (a = b)"
| "log_path a (t # ts) b = (previous_state t = a \<and> log_path (to_state t) ts b)"

definition scope_wf :: "turn_scope \<Rightarrow> bool" where
  "scope_wf sc \<longleftrightarrow>
     scope_tasks sc = dom (registration_counts sc) \<and>
     (\<forall>t n. registration_counts sc t = Some n \<longrightarrow> 0 < n) \<and>
     log_path CREATED (transition_log sc) (scope_state sc) \<and>
     (cancelled sc \<longrightarrow> cancel_reason sc \<noteq> None)"

definition registry_wf :: "registry \<Rightarrow> bool" where
  "registry_wf g \<longleftrightarrow> (\<forall>i. scope_wf (scopes g i)) \<and> distinct (map fst (room_turn_scopes g))"

lemma log_path_snoc [simp]:
  "log_path a (ts @ [t]) b \<longleftrightarrow> log_path a ts (previous_state t) \<and> to_state t = b"
  by (induction a ts b rule: log_path.induct) auto

text \<open>What every operation on one scope keeps, in one relation.\<close>

definition scope_keeps :: "turn_scope \<Rightarrow> turn_scope \<Rightarrow> bool" where
  "scope_keeps sc sc' \<longleftrightarrow>
     (scope_wf sc \<longrightarrow> scope_wf sc') \<and> turn_id sc' = turn_id sc \<and>
     (cancelled sc \<longrightarrow> cancelled sc' \<and> scope_tasks sc' \<subseteq> scope_tasks sc)"

lemma scope_keeps_refl [simp, intro]: "scope_keeps sc sc"
  by (simp add: scope_keeps_def)

lemma scope_keeps_trans: "scope_keeps a b \<Longrightarrow> scope_keeps b c \<Longrightarrow> scope_keeps a c"
  by (auto simp: scope_keeps_def)

lemma str_or_default [simp]: "\<exists>v. str_or a (str_or b (Some c)) = Some v"
  by (auto simp: str_or_def split: option.splits list.splits)

lemma keeps_transition [simp, intro]: "scope_keeps sc (transition now st r sc)"
  by (auto simp: scope_keeps_def transition_def scope_wf_def)

lemma keeps_cancel [simp, intro]: "scope_keeps sc (snd (cancel now dn r sc))"
  by (auto simp: scope_keeps_def cancel_def transition_def scope_wf_def Let_def)

lemma keeps_register [simp, intro]: "scope_keeps sc (snd (register_task cur t sc))"
  by (auto simp: scope_keeps_def register_task_def scope_wf_def split: option.splits)

lemma keeps_unregister [simp, intro]: "scope_keeps sc (unregister_task cur t sc)"
  by (auto simp: scope_keeps_def unregister_task_def scope_wf_def reg_count_def
      split: option.splits if_splits)

lemma cancel_cancels [simp]: "cancelled (snd (cancel now dn r sc))"
  by (simp add: cancel_def transition_def Let_def)

definition registry_keeps :: "registry \<Rightarrow> registry \<Rightarrow> bool" where
  "registry_keeps g g' \<longleftrightarrow>
     (\<forall>i. scope_keeps (scopes g i) (scopes g' i)) \<and>
     (distinct (map fst (room_turn_scopes g)) \<longrightarrow> distinct (map fst (room_turn_scopes g')))"

lemma registry_keeps_refl [simp, intro]: "registry_keeps g g"
  by (simp add: registry_keeps_def)

lemma registry_keeps_trans [trans]:
  "registry_keeps a b \<Longrightarrow> registry_keeps b c \<Longrightarrow> registry_keeps a c"
  by (auto simp: registry_keeps_def intro: scope_keeps_trans)

lemma keeps_cancel_scope [simp, intro]: "registry_keeps g (cancel_scope now dn r i g)"
  using keeps_cancel [of "scopes g i" now dn r]
  by (cases "cancel now dn r (scopes g i)") (auto simp: registry_keeps_def cancel_scope_def)

lemma keeps_store [simp, intro]:
  "scope_keeps (scopes g i) sc \<Longrightarrow>
   registry_keeps g (g\<lparr>scopes := (scopes g)(i := sc), cancel_requests := c\<rparr>)"
  "scope_keeps (scopes g i) sc \<Longrightarrow> registry_keeps g (g\<lparr>scopes := (scopes g)(i := sc)\<rparr>)"
  "scope_keeps (scopes g i) sc \<Longrightarrow>
   registry_keeps g (g\<lparr>scopes := (scopes g)(i := sc), cancel_requests := c, done_callbacks := d\<rparr>)"
  by (auto simp: registry_keeps_def)

lemma keeps_fields [simp, intro]:
  "registry_keeps g (g\<lparr>cancelled_stale_turn_count := c\<rparr>)"
  "registry_keeps g (g\<lparr>done_callbacks := d\<rparr>)"
  "registry_keeps g (g\<lparr>room_turn_scopes := dict_set k v (room_turn_scopes g)\<rparr>)"
  "registry_keeps g (g\<lparr>room_turn_scopes := dict_pop k (room_turn_scopes g)\<rparr>)"
  by (auto simp: registry_keeps_def)

lemma keeps_cancel_rooms: "registry_keeps g (snd (cancel_rooms clk dn p rs n g))"
proof (induction clk dn p rs n g rule: cancel_rooms.induct)
  case (2 clk dn p k i rs n g)
  show ?case
  proof (cases "prefix p k")
    case True
    let ?g1 = "cancel_scope (clk n) dn None i g"
    have "registry_keeps g (?g1\<lparr>room_turn_scopes := dict_pop k (room_turn_scopes ?g1)\<rparr>)"
      by (rule registry_keeps_trans [OF keeps_cancel_scope keeps_fields(4)])
    from registry_keeps_trans [OF this "2.IH"(2) [OF _ refl]] True show ?thesis
      by (simp add: Let_def)
  qed (use 2 in simp)
qed simp

lemma keeps_callbacks: "registry_keeps g (foldl run_callback g cs)"
proof (induction cs arbitrary: g)
  case (Cons c cs)
  have "registry_keeps g (run_callback g c)" by (auto simp: run_callback_def)
  then show ?case using Cons [of "run_callback g c"] by (auto intro: registry_keeps_trans)
qed simp

lemma snd_let_pair: "snd p = b \<Longrightarrow> (case p of (a, c) \<Rightarrow> f a c) = f (fst p) b"
  by (cases p) auto

lemma keeps_replace: "registry_keeps g (snd (replace_room_scope now dn room new co g))"
  by (auto simp: replace_room_scope_def Let_def split: option.splits
      intro: registry_keeps_trans [OF keeps_fields(3) registry_keeps_trans [OF keeps_cancel_scope keeps_fields(1)]])

lemma turn_step_keeps: "registry_keeps g (turn_step g e)"
proof (cases e)
  case (Ev_attach cur i)
  then show ?thesis
    by (auto simp: attach_current_task_def Let_def case_prod_beta split: option.splits)
next
  case (Ev_task_finished t)
  then show ?thesis
    by (auto simp: task_finished_def Let_def intro: registry_keeps_trans [OF keeps_callbacks])
next
  case (Ev_create_task t i)
  then show ?thesis
    by (auto simp: create_scoped_task_def Let_def case_prod_beta split: option.splits)
qed (auto simp: detach_task_def clear_room_scope_def keeps_replace keeps_cancel_rooms
      cancel_matching_prefix_def Let_def case_prod_beta split: option.splits)

interpretation turn: latched_machine turn_step registry_wf "\<lambda>g. cancelled (scopes g i)" for i
proof
  show "registry_wf (turn_step g e)" if "registry_wf g" for g e
    using that turn_step_keeps [of g e] by (auto simp: registry_wf_def registry_keeps_def scope_keeps_def)
  show "cancelled (scopes (turn_step g e) i)" if "cancelled (scopes g i)" for g e
    using that turn_step_keeps [of g e] by (auto simp: registry_keeps_def scope_keeps_def)
qed

lemma run_keeps: "registry_keeps g (foldl turn_step g es)"
proof (induction es arbitrary: g)
  case (Cons e es)
  then show ?case using registry_keeps_trans [OF turn_step_keeps [of g e] Cons] by simp
qed simp

lemma init_registry_wf: "registry_wf (init_registry ids)"
  by (auto simp: registry_wf_def init_registry_def new_scope_def scope_wf_def)

section \<open>Properties\<close>

text \<open>
  In every state the registry can reach, each scope's task set is exactly the set of
  tasks with a positive registration count, its transition log is a connected path from
  \<open>created\<close> to its current state, and a cancelled scope carries a cancel reason.
\<close>

theorem turn_registry_invariant: "registry_wf (foldl turn_step (init_registry ids) es)"
  by (rule turn.inv_run) (rule init_registry_wf)

text \<open>
  C21. Cancellation is final: after any further operations a cancelled scope is still
  cancelled, is current for no turn id, has admitted no task it did not hold, and refuses the
  running task. Its recorded reason is not final: a second cancel overwrites it; and neither is
  the state of its log, which a later transition moves on.
\<close>

theorem cancelled_turn_is_final:
  assumes "cancelled (scopes g i)"
  shows "cancelled (scopes (foldl turn_step g es) i) \<and>
         is_stale (scopes (foldl turn_step g es) i) expected \<and>
         scope_tasks (scopes (foldl turn_step g es) i) \<subseteq> scope_tasks (scopes g i) \<and>
         attach_current_task cur (Some i) (foldl turn_step g es) = Inl CancelledError"
proof -
  have "cancelled (scopes (foldl turn_step g es) i)" using assms by (rule turn.latch_run)
  moreover have "scope_tasks (scopes (foldl turn_step g es) i) \<subseteq> scope_tasks (scopes g i)"
    using run_keeps [of g es] assms by (auto simp: registry_keeps_def scope_keeps_def)
  ultimately show ?thesis
    by (auto simp: is_stale_def is_current_def attach_current_task_def split: option.splits)
qed

theorem cancelled_turn_is_final_witness:
  "is_stale (scopes (foldl turn_step
      (turn_step (init_registry (\<lambda>_. ''t'')) (Ev_cancel 0 (\<lambda>_. False) 0 None))
      [Ev_transition 1 0 PLAYING None, Ev_register (Some 4) None 0]) 0) (Some ''t'')"
proof -
  let ?g = "turn_step (init_registry (\<lambda>_. ''t'')) (Ev_cancel 0 (\<lambda>_. False) 0 None)"
  have "cancelled (scopes ?g 0)" by (simp add: cancel_scope_def case_prod_beta)
  from cancelled_turn_is_final [OF this, of "[Ev_transition 1 0 PLAYING None, Ev_register (Some 4) None 0]"
      "Some ''t''"]
  show ?thesis by blast
qed

lemma register_live:
  "\<not> cancelled sc \<Longrightarrow> snd (register_task cur (Some t) sc) =
     sc\<lparr>registration_counts := (registration_counts sc)(t \<mapsto> reg_count sc t + 1),
        scope_tasks := insert t (scope_tasks sc)\<rparr>"
  by (simp add: register_task_def)

lemma unregister_register:
  assumes "scope_wf sc" and "\<not> cancelled sc"
  shows "unregister_task cur' (Some t) (snd (register_task cur (Some t) sc)) = sc"
proof (cases "registration_counts sc t")
  case None
  then have "t \<notin> scope_tasks sc" using assms by (auto simp: scope_wf_def)
  with None show ?thesis using assms
    by (simp add: register_live unregister_task_def reg_count_def fun_upd_idem)
next
  case (Some n)
  then have "t \<in> scope_tasks sc" and "0 < n" using assms by (auto simp: scope_wf_def)
  with Some show ?thesis using assms
    by (simp add: register_live unregister_task_def reg_count_def fun_upd_idem insert_absorb)
qed

lemma register_n_live:
  "scope_wf sc \<Longrightarrow> \<not> cancelled sc \<Longrightarrow>
   scope_wf (((\<lambda>s. snd (register_task cur (Some t) s)) ^^ n) sc) \<and>
   \<not> cancelled (((\<lambda>s. snd (register_task cur (Some t) s)) ^^ n) sc) \<and>
   reg_count (((\<lambda>s. snd (register_task cur (Some t) s)) ^^ n) sc) t = reg_count sc t + n"
proof (induction n)
  case (Suc n)
  let ?s = "((\<lambda>s. snd (register_task cur (Some t) s)) ^^ n) sc"
  have "scope_wf (snd (register_task cur (Some t) ?s))"
    using keeps_register [of ?s cur "Some t"] Suc by (auto simp: scope_keeps_def)
  with Suc show ?case by (simp add: register_live reg_count_def)
qed simp

text \<open>
  Registrations nest: a task registered \<open>n\<close> times with a live scope stays registered
  until its \<open>n\<close>-th unregistration, which gives back exactly the scope before them.
\<close>

theorem registrations_nest:
  assumes "scope_wf sc" and "\<not> cancelled sc"
  shows "(unregister_task cur' (Some t) ^^ n)
           (((\<lambda>s. snd (register_task cur (Some t) s)) ^^ n) sc) = sc \<and>
         (\<forall>m < n. t \<in> scope_tasks ((unregister_task cur' (Some t) ^^ m)
           (((\<lambda>s. snd (register_task cur (Some t) s)) ^^ n) sc)))"
proof -
  let ?reg = "\<lambda>k. ((\<lambda>s. snd (register_task cur (Some t) s)) ^^ k) sc"
  have undo_n: "(unregister_task cur' (Some t) ^^ m) (?reg (m + k)) = ?reg k" for m k
  proof (induction m)
    case (Suc m)
    have "unregister_task cur' (Some t) (?reg (Suc m + k)) = ?reg (m + k)"
      using unregister_register [of "?reg (m + k)"] register_n_live [OF assms, where cur = cur and t = t and n = "m + k"]
      by simp
    then show ?case using Suc by (simp add: funpow_Suc_right del: funpow.simps)
  qed simp
  have "t \<in> scope_tasks (?reg k)" if "0 < k" for k
  proof -
    from that obtain j where "k = Suc j" by (cases k) auto
    then show ?thesis using register_n_live [OF assms, where cur = cur and t = t and n = j] by (simp add: register_live)
  qed
  then have "t \<in> scope_tasks ((unregister_task cur' (Some t) ^^ m) (?reg n))" if "m < n" for m
    using undo_n [of m "n - m"] that by simp
  with undo_n [of n 0] show ?thesis by simp
qed

theorem registrations_nest_witness:
  "(unregister_task None (Some 7) ^^ 2)
     (((\<lambda>s. snd (register_task None (Some 7) s)) ^^ 2) (new_scope ''a'')) = new_scope ''a''"
  using registrations_nest [where sc = "new_scope ''a''" and t = 7 and n = 2 and cur = None and cur' = None]
  by (simp add: new_scope_def scope_wf_def)

text \<open>
  \<open>replace_room_scope\<close> installs the new scope, leaves every other room alone, and
  cancels the displaced scope (with its live tasks) exactly when it was asked to and the
  displaced scope is another object; then, and only then, the stale-turn counter grows.
\<close>

theorem replace_room_scope_spec:
  assumes "replace_room_scope now dn room new co g = (old, g')"
  shows "old = dict_get (room_turn_scopes g) room \<and>
         dict_get (room_turn_scopes g') room = Some new \<and>
         (\<forall>r. r \<noteq> room \<longrightarrow> dict_get (room_turn_scopes g') r = dict_get (room_turn_scopes g) r) \<and>
         (if co \<and> old \<noteq> None \<and> old \<noteq> Some new
          then cancelled (scopes g' (the old)) \<and>
               {t \<in> scope_tasks (scopes g (the old)). \<not> dn t} \<subseteq> cancel_requests g' \<and>
               (\<forall>i. i \<noteq> the old \<longrightarrow> scopes g' i = scopes g i) \<and>
               cancelled_stale_turn_count g' = cancelled_stale_turn_count g + 1
          else scopes g' = scopes g \<and> cancel_requests g' = cancel_requests g \<and>
               cancelled_stale_turn_count g' = cancelled_stale_turn_count g)"
  using assms
  by (auto simp: replace_room_scope_def cancel_scope_def cancel_def transition_def Let_def
      split: option.splits if_splits)

theorem replace_room_scope_spec_witness:
  "cancelled (scopes (snd (replace_room_scope 1 (\<lambda>_. False) ''r'' 1 True
     (snd (replace_room_scope 0 (\<lambda>_. False) ''r'' 0 True (init_registry (\<lambda>_. ''t'')))))) 0)"
proof -
  let ?g = "snd (replace_room_scope 0 (\<lambda>_. False) ''r'' 0 True (init_registry (\<lambda>_. ''t'')))"
  have g: "dict_get (room_turn_scopes ?g) ''r'' = Some 0"
    by (simp add: replace_room_scope_def init_registry_def)
  obtain old g' where r: "replace_room_scope 1 (\<lambda>_. False) ''r'' 1 True ?g = (old, g')"
    by fastforce
  from replace_room_scope_spec [OF r] g have "cancelled (scopes g' 0)" by auto
  with r show ?thesis by simp
qed

lemma cancel_scope_rooms [simp]:
  "room_turn_scopes (cancel_scope now dn r i g) = room_turn_scopes g"
  by (simp add: cancel_scope_def case_prod_beta)

lemma cancel_scope_other [simp]:
  "j \<noteq> i \<Longrightarrow> scopes (cancel_scope now dn r i g) j = scopes g j"
  by (simp add: cancel_scope_def case_prod_beta)

lemma cancel_scope_cancelled [simp]: "cancelled (scopes (cancel_scope now dn r i g) i)"
  by (simp add: cancel_scope_def case_prod_beta)

lemma cancel_rooms_spec:
  "fst (cancel_rooms clk dn p rs n g) = n + length (filter (\<lambda>q. prefix p (fst q)) rs) \<and>
   (\<forall>k. dict_get (room_turn_scopes (snd (cancel_rooms clk dn p rs n g))) k =
     (if prefix p k \<and> k \<in> fst ` set rs then None else dict_get (room_turn_scopes g) k)) \<and>
   (\<forall>q \<in> set rs. prefix p (fst q) \<longrightarrow>
     cancelled (scopes (snd (cancel_rooms clk dn p rs n g)) (snd q))) \<and>
   (\<forall>i. (\<forall>q \<in> set rs. prefix p (fst q) \<longrightarrow> snd q \<noteq> i) \<longrightarrow>
     scopes (snd (cancel_rooms clk dn p rs n g)) i = scopes g i)"
proof (induction clk dn p rs n g rule: cancel_rooms.induct)
  case (2 clk dn p k i rs n g)
  show ?case
  proof (cases "prefix p k")
    case True
    let ?g1 = "cancel_scope (clk n) dn None i g"
    let ?g2 = "?g1\<lparr>room_turn_scopes := dict_pop k (room_turn_scopes ?g1)\<rparr>"
    have "cancelled (scopes ?g2 i)" by simp
    then have "cancelled (scopes (snd (cancel_rooms clk dn p rs (n + 1) ?g2)) i)"
      using keeps_cancel_rooms [of ?g2 clk dn p rs "n + 1"]
      by (auto simp: registry_keeps_def scope_keeps_def)
    with "2.IH"(2) [OF _ refl] True show ?thesis by (auto simp: Let_def)
  qed (use 2 in auto)
qed simp

text \<open>
  \<open>cancel_matching_prefix\<close> removes exactly the rooms whose key has the prefix, cancels
  the scope of each of them, changes no scope that none of them held, and returns their
  number.
\<close>

theorem cancel_matching_prefix_spec:
  "cancel_matching_prefix clk dn p g = (n, g') \<Longrightarrow>
   n = length (filter (\<lambda>q. prefix p (fst q)) (room_turn_scopes g)) \<and>
   (\<forall>k. dict_get (room_turn_scopes g') k =
      (if prefix p k then None else dict_get (room_turn_scopes g) k)) \<and>
   (\<forall>k i. prefix p k \<longrightarrow> dict_get (room_turn_scopes g) k = Some i \<longrightarrow> cancelled (scopes g' i)) \<and>
   (\<forall>i. (\<forall>(k, j) \<in> set (room_turn_scopes g). prefix p k \<longrightarrow> j \<noteq> i) \<longrightarrow>
      scopes g' i = scopes g i)"
  using cancel_rooms_spec [of clk dn p "room_turn_scopes g" 0 g]
  by (force simp: cancel_matching_prefix_def dict_get_def map_of_eq_None_iff dest: map_of_SomeD)

theorem cancel_matching_prefix_spec_witness:
  "\<exists>g'. cancel_matching_prefix (\<lambda>_. 0) (\<lambda>_. False) ''guild:1''
     ((init_registry (\<lambda>_. ''t''))\<lparr>room_turn_scopes := [(''guild:1:a'', 0), (''guild:2:b'', 1)]\<rparr>)
       = (1, g') \<and> dict_get (room_turn_scopes g') ''guild:2:b'' = Some 1"
proof -
  let ?g = "(init_registry (\<lambda>_. ''t''))\<lparr>room_turn_scopes := [(''guild:1:a'', 0), (''guild:2:b'', 1)]\<rparr>"
  obtain n g' where r: "cancel_matching_prefix (\<lambda>_. 0) (\<lambda>_. False) ''guild:1'' ?g = (n, g')"
    by fastforce
  from cancel_matching_prefix_spec [OF r] have "n = 1"
    and "dict_get (room_turn_scopes g') ''guild:2:b'' = Some 1"
    by (simp_all add: dict_simps)
  with r show ?thesis by blast
qed

end
