(* ===== verification/Session_State.thy ===== *)
theory Session_State
  imports Py_Prelude
begin

text \<open>
  \<open>evelyn_core/session_memory_state.py\<close>: \<open>SessionStateStore\<close>, the per-session dictionaries
  of a conversation (history, activity window, turn and topic ids, counters).

  A dictionary is a map. A history row is a dictionary with the keys \<open>role\<close> and \<open>content\<close>
  and, on assistant rows, \<open>memoryReceiptRef\<close>: \<open>memory_ref = None\<close> says that the row has the
  first two keys only. Code of other modules and of the library is an argument: the record
  \<open>session_env\<close> holds the SHA-1 digest, the receipt functions of
  \<open>conversation_memory_receipt.py\<close> (on values of type \<open>'r\<close>) and, for one call, a fresh turn
  id and the readings of the monotonic clock. A ValueError is \<open>Inl\<close>; the store next to it
  is the state the exception leaves behind.
\<close>

section \<open>Helpers of the module\<close>

definition runtime_session_key :: "string option \<Rightarrow> int option \<Rightarrow> string option" where
  "runtime_session_key session_key guild_id =
     (case session_key of
        Some (c # cs) \<Rightarrow> Some (c # cs)
      | _ \<Rightarrow> (case guild_id of None \<Rightarrow> None
              | Some g \<Rightarrow> Some (''guild:'' @ int_str g @ '':default'')))"

record 'r history_row =
  role :: string
  content :: string
  memory_ref :: "'r option"

definition system_row :: "string \<Rightarrow> 'r history_row" where
  "system_row p = \<lparr>role = ''system'', content = p, memory_ref = None\<rparr>"

definition new_conversation_history :: "string \<Rightarrow> 'r history_row list" where
  "new_conversation_history p = [system_row p]"

record 'r session_env =
  sha1_hex :: "string \<Rightarrow> string"
  receipt_ref :: "'r \<Rightarrow> 'r"
  unattributed_ref :: 'r
  not_used_ref :: 'r
  fresh_turn_id :: string
  clk :: "nat \<Rightarrow> real"

fun join_lines :: "string list \<Rightarrow> string" where
  "join_lines [] = []"
| "join_lines [s] = s"
| "join_lines (s # t # ss) = s @ CHR 0x0A # join_lines (t # ss)"

definition build_topic_id :: "'r session_env \<Rightarrow> string list \<Rightarrow> string" where
  "build_topic_id e texts =
     (let material = join_lines (map clean_text (filter (\<lambda>t. clean_text t \<noteq> []) texts));
          material' = (if material = [] then ''idle'' else material)
      in take 12 (sha1_hex e material'))"

text \<open>Python's slice bounds, for \<open>del xs[a:b]\<close> and \<open>xs[a:]\<close> with any integers.\<close>

definition slice_bound :: "nat \<Rightarrow> int \<Rightarrow> nat" where
  "slice_bound n i = (if i < 0 then nat (max 0 (i + int n)) else nat (min i (int n)))"

definition del_slice :: "int \<Rightarrow> int \<Rightarrow> 'a list \<Rightarrow> 'a list" where
  "del_slice a b xs =
     (let i = slice_bound (length xs) a; j = slice_bound (length xs) b
      in if j \<le> i then xs else take i xs @ drop j xs)"

definition slice_from :: "int \<Rightarrow> 'a list \<Rightarrow> 'a list" where
  "slice_from a xs = drop (slice_bound (length xs) a) xs"

section \<open>The store\<close>

record followup_target =
  channel_id :: "int option"
  message_id :: "int option"

record 'r session_store =
  histories :: "string \<rightharpoonup> 'r history_row list"
  followup_targets :: "string \<rightharpoonup> followup_target"
  active_until :: "string \<rightharpoonup> real"
  active_user_ids :: "string \<rightharpoonup> int"
  last_active_at :: "string \<rightharpoonup> real"
  awaiting_user_reply :: "string \<rightharpoonup> bool"
  last_speaker :: "string \<rightharpoonup> string"
  topic_ids :: "string \<rightharpoonup> string"
  turn_ids :: "string \<rightharpoonup> string"
  segment_counters :: "string \<rightharpoonup> int"
  last_turn_accepted_at :: "string \<rightharpoonup> real"
  last_stt_text :: "string \<rightharpoonup> string"
  partial_stt_text :: "string \<rightharpoonup> string"
  committed_stt_text :: "string \<rightharpoonup> string"
  bad_audio_counts :: "string \<rightharpoonup> int"

definition create_empty :: "'r session_store" where
  "create_empty = \<lparr>histories = Map.empty, followup_targets = Map.empty,
     active_until = Map.empty, active_user_ids = Map.empty, last_active_at = Map.empty,
     awaiting_user_reply = Map.empty, last_speaker = Map.empty, topic_ids = Map.empty,
     turn_ids = Map.empty, segment_counters = Map.empty, last_turn_accepted_at = Map.empty,
     last_stt_text = Map.empty, partial_stt_text = Map.empty, committed_stt_text = Map.empty,
     bad_audio_counts = Map.empty\<rparr>"

definition truthy_str :: "string option \<Rightarrow> bool" where
  "truthy_str s = (s \<noteq> None \<and> s \<noteq> Some [])"

definition map_get :: "('k \<rightharpoonup> 'v) \<Rightarrow> 'k \<Rightarrow> 'v \<Rightarrow> 'v" where
  "map_get m k d = (case m k of None \<Rightarrow> d | Some v \<Rightarrow> v)"

definition remember_followup_target ::
  "string \<Rightarrow> int option \<Rightarrow> int option \<Rightarrow> 'r session_store \<Rightarrow> 'r session_store" where
  "remember_followup_target k chan msg s =
     (if chan = None \<and> msg = None then s
      else (let existing = map_get (followup_targets s) k \<lparr>channel_id = None, message_id = None\<rparr>;
                e1 = (if chan \<noteq> None then existing\<lparr>channel_id := chan\<rparr> else existing);
                e2 = (if msg \<noteq> None then e1\<lparr>message_id := msg\<rparr> else e1)
            in s\<lparr>followup_targets := (followup_targets s)(k \<mapsto> e2)\<rparr>))"

definition current_turn_id :: "string option \<Rightarrow> 'r session_store \<Rightarrow> string option" where
  "current_turn_id k s = (if \<not> truthy_str k then None else turn_ids s (the k))"

definition next_segment_id :: "string option \<Rightarrow> 'r session_store \<Rightarrow> int \<times> 'r session_store" where
  "next_segment_id k s =
     (if \<not> truthy_str k then (1, s)
      else (let v = map_get (segment_counters s) (the k) 0 + 1
            in (v, s\<lparr>segment_counters := (segment_counters s)(the k \<mapsto> v)\<rparr>)))"

definition start_new_turn ::
  "'r session_env \<Rightarrow> string option \<Rightarrow> string option \<Rightarrow> real option \<Rightarrow> nat \<Rightarrow>
   'r session_store \<Rightarrow> string \<times> 'r session_store" where
  "start_new_turn e k tid now i s =
     (let t = (if truthy_str tid then the tid else fresh_turn_id e)
      in (t, if truthy_str k
             then s\<lparr>turn_ids := (turn_ids s)(the k \<mapsto> t),
                    last_turn_accepted_at := (last_turn_accepted_at s)
                      (the k \<mapsto> (case now of None \<Rightarrow> clk e i | Some n \<Rightarrow> n))\<rparr>
             else s))"

definition increment_bad_audio :: "string option \<Rightarrow> 'r session_store \<Rightarrow> int \<times> 'r session_store" where
  "increment_bad_audio k s =
     (if \<not> truthy_str k then (0, s)
      else (let v = map_get (bad_audio_counts s) (the k) 0 + 1
            in (v, s\<lparr>bad_audio_counts := (bad_audio_counts s)(the k \<mapsto> v)\<rparr>)))"

definition reset_bad_audio :: "string option \<Rightarrow> 'r session_store \<Rightarrow> 'r session_store" where
  "reset_bad_audio k s =
     (if \<not> truthy_str k then s
      else s\<lparr>bad_audio_counts := (bad_audio_counts s)(the k \<mapsto> 0)\<rparr>)"

text \<open>The keyword arguments of \<open>update_session_state\<close>.\<close>

record update_args =
  u_user_id :: "int option"
  u_speaker :: "string option"
  u_ttl_sec :: "real option"
  u_awaiting :: "bool option"
  u_topic_id :: "string option"
  u_answer_text :: "string option"
  u_user_text :: "string option"
  u_awaiting_sec :: real
  u_now :: "real option"

definition upd_opt :: "('k \<rightharpoonup> 'v) \<Rightarrow> 'k \<Rightarrow> 'v option \<Rightarrow> ('k \<rightharpoonup> 'v)" where
  "upd_opt m k v = (case v of None \<Rightarrow> m | Some x \<Rightarrow> m(k \<mapsto> x))"

definition text_or_empty :: "string option \<Rightarrow> string" where
  "text_or_empty t = (case t of None \<Rightarrow> [] | Some x \<Rightarrow> x)"

definition update_session_state ::
  "'r session_env \<Rightarrow> nat \<Rightarrow> string option \<Rightarrow> update_args \<Rightarrow> 'r session_store \<Rightarrow> 'r session_store" where
  "update_session_state e i sk a s =
     (if \<not> truthy_str sk then s
      else
        let k = the sk;
            now = (case u_now a of None \<Rightarrow> clk e i | Some n \<Rightarrow> n);
            s1 = s\<lparr>active_until := upd_opt (active_until s) k (map_option (\<lambda>t. now + t) (u_ttl_sec a)),
                   last_active_at := (last_active_at s)(k \<mapsto> now),
                   active_user_ids := upd_opt (active_user_ids s) k (u_user_id a),
                   last_speaker := upd_opt (last_speaker s) k (u_speaker a),
                   awaiting_user_reply := upd_opt (awaiting_user_reply s) k (u_awaiting a)\<rparr>;
            s2 = (if u_awaiting a = Some True \<and> u_ttl_sec a = None
                  then s1\<lparr>active_until := (active_until s1)(k \<mapsto> now + u_awaiting_sec a)\<rparr> else s1);
            s3 = (if truthy_str (u_topic_id a)
                  then s2\<lparr>topic_ids := (topic_ids s2)(k \<mapsto> the (u_topic_id a))\<rparr>
                  else if truthy_str (u_user_text a) \<or> truthy_str (u_answer_text a)
                  then s2\<lparr>topic_ids := (topic_ids s2)
                         (k \<mapsto> build_topic_id e [text_or_empty (u_user_text a), text_or_empty (u_answer_text a)])\<rparr>
                  else s2)
        in if turn_ids s3 k = None then s3\<lparr>turn_ids := (turn_ids s3)(k \<mapsto> fresh_turn_id e)\<rparr> else s3)"

definition snapshot_active ::
  "string option \<Rightarrow> 'r session_store \<Rightarrow>
   (real \<times> bool \<times> string \<times> string \<times> string \<times> real \<times> string \<times> string \<times> string \<times> int) option" where
  "snapshot_active sk s =
     (if \<not> truthy_str sk then None
      else (let k = the sk in
        Some (map_get (active_until s) k 0, map_get (awaiting_user_reply s) k False,
              map_get (last_speaker s) k [], map_get (topic_ids s) k [], map_get (turn_ids s) k [],
              map_get (last_turn_accepted_at s) k 0, map_get (last_stt_text s) k [],
              map_get (partial_stt_text s) k [], map_get (committed_stt_text s) k [],
              map_get (bad_audio_counts s) k 0)))"

definition is_active_for_user ::
  "'r session_env \<Rightarrow> string \<Rightarrow> int option \<Rightarrow> real option \<Rightarrow> 'r session_store \<Rightarrow> bool" where
  "is_active_for_user e k uid now s =
     (let expires = map_get (active_until s) k 0;
          t = (case now of None \<Rightarrow> clk e 0 | Some n \<Rightarrow> n)
      in if expires \<le> t then False
         else (case active_user_ids s k of
                 None \<Rightarrow> True
               | Some r \<Rightarrow> (case uid of None \<Rightarrow> True | Some u \<Rightarrow> r = u)))"

section \<open>Histories\<close>

definition get_conversation_history ::
  "string \<Rightarrow> string option \<Rightarrow> int option \<Rightarrow> 'r session_store \<Rightarrow>
   'r history_row list \<times> 'r session_store" where
  "get_conversation_history p sk g s =
     (case runtime_session_key sk g of
        None \<Rightarrow> (new_conversation_history p, s)
      | Some k \<Rightarrow>
          (case histories s k of
             Some h \<Rightarrow> (h, s)
           | None \<Rightarrow> (new_conversation_history p,
                      s\<lparr>histories := (histories s)(k \<mapsto> new_conversation_history p)\<rparr>)))"

definition trimmed :: "int \<Rightarrow> 'r history_row list \<Rightarrow> 'r history_row list" where
  "trimmed m h = (if int (length h) > 1 + m then del_slice 1 (- m) h else h)"

text \<open>
  The list that \<open>get_conversation_history\<close> returns is the one in the store (or a fresh one
  when no key resolves), so a change of it in place is a change of the store.
\<close>

definition set_history ::
  "string option \<Rightarrow> int option \<Rightarrow> 'r history_row list \<Rightarrow> 'r session_store \<Rightarrow> 'r session_store" where
  "set_history sk g h s =
     (case runtime_session_key sk g of None \<Rightarrow> s
      | Some k \<Rightarrow> s\<lparr>histories := (histories s)(k \<mapsto> h)\<rparr>)"

definition trim_history ::
  "string \<Rightarrow> int \<Rightarrow> string option \<Rightarrow> int option \<Rightarrow> 'r session_store \<Rightarrow> 'r session_store" where
  "trim_history p m sk g s =
     (let (h, s1) = get_conversation_history p sk g s in set_history sk g (trimmed m h) s1)"

datatype history_error = Turn_Mismatch

definition exact_user_row :: "'r history_row \<Rightarrow> string \<Rightarrow> bool" where
  "exact_user_row r text \<longleftrightarrow>
     memory_ref r = None \<and> role r = ''user'' \<and> clean_text (content r) = clean_text text"

definition exact_user_tail :: "'r history_row list \<Rightarrow> string \<Rightarrow> bool" where
  "exact_user_tail h text = (case rev h of [] \<Rightarrow> False | r # _ \<Rightarrow> exact_user_row r text)"

definition exact_pair_tail ::
  "'r history_row list \<Rightarrow> string \<Rightarrow> string \<Rightarrow> 'r \<Rightarrow> bool" where
  "exact_pair_tail h text answer ref =
     (case rev h of
        a # u # _ \<Rightarrow> exact_user_row u text \<and> role a = ''assistant'' \<and>
           clean_text (content a) = clean_text answer \<and> memory_ref a = Some ref
      | _ \<Rightarrow> False)"

definition reply_ref :: "'r session_env \<Rightarrow> 'r option \<Rightarrow> 'r" where
  "reply_ref e receipt = (case receipt of None \<Rightarrow> unattributed_ref e | Some r \<Rightarrow> receipt_ref e r)"

definition append_history ::
  "'r session_env \<Rightarrow> string \<Rightarrow> int \<Rightarrow> string option \<Rightarrow> string \<Rightarrow> string option \<Rightarrow> int option \<Rightarrow>
   'r option \<Rightarrow> string option \<Rightarrow> 'r session_store \<Rightarrow> (history_error + unit) \<times> 'r session_store" where
  "append_history e p m sk user answer g receipt complete_tid s =
     (let resolved = runtime_session_key sk g;
          (h, s1) = get_conversation_history p sk g s;
          answer_rows = (case answer of None \<Rightarrow> []
             | Some a \<Rightarrow> [\<lparr>role = ''assistant'', content = clean_text a,
                          memory_ref = Some (reply_ref e receipt)\<rparr>]);
          finish = (\<lambda>rows. (Inr (), trim_history p m sk g (set_history sk g (h @ rows) s1)))
      in case complete_tid of
           None \<Rightarrow> finish (\<lparr>role = ''user'', content = clean_text user, memory_ref = None\<rparr> # answer_rows)
         | Some tid \<Rightarrow>
             if answer = None \<or> resolved = None then (Inl Turn_Mismatch, s1)
             else if turn_ids s1 (the resolved) \<noteq> Some tid then (Inl Turn_Mismatch, s1)
             else if exact_pair_tail h user (the answer) (reply_ref e receipt) then (Inr (), s1)
             else if \<not> exact_user_tail h user then (Inl Turn_Mismatch, s1)
             else finish answer_rows)"

definition recent_history_for_router ::
  "string \<Rightarrow> string option \<Rightarrow> int option \<Rightarrow> int \<Rightarrow> int \<Rightarrow> 'r session_store \<Rightarrow>
   string \<times> 'r session_store" where
  "recent_history_for_router p sk g limit max_chars s =
     (let (h, s1) = get_conversation_history p sk g s;
          upto = (\<lambda>t. take (slice_bound (length t) max_chars) t);
          lines = map (\<lambda>r. clean_text (role r) @ '': '' @ upto (clean_text (content r)))
            (filter (\<lambda>r. clean_text (role r) \<noteq> [] \<and> clean_text (content r) \<noteq> [])
               (slice_from (- limit) h))
      in (join_lines lines, s1))"

section \<open>Turns\<close>

definition no_update :: "real \<Rightarrow> real option \<Rightarrow> update_args" where
  "no_update sec now = \<lparr>u_user_id = None, u_speaker = None, u_ttl_sec = None, u_awaiting = None,
     u_topic_id = None, u_answer_text = None, u_user_text = None, u_awaiting_sec = sec, u_now = now\<rparr>"

definition begin_user_only_turn ::
  "'r session_env \<Rightarrow> string \<Rightarrow> int \<Rightarrow> string \<Rightarrow> string \<Rightarrow> string \<Rightarrow> int option \<Rightarrow> real \<Rightarrow> string \<Rightarrow> real \<Rightarrow>
   real option \<Rightarrow> 'r session_store \<Rightarrow> (history_error + string) \<times> 'r session_store" where
  "begin_user_only_turn e p m k user tid uid ttl topic sec now s =
     (let (h, s1) = get_conversation_history p (Some k) None s
      in if current_turn_id (Some k) s1 = Some tid
         then (if exact_user_tail h user then (Inr tid, s1) else (Inl Turn_Mismatch, s1))
         else
           let (_, s2) = start_new_turn e (Some k) (Some tid) now 0 s1;
               s3 = update_session_state e 1 (Some k)
                      ((no_update sec now)\<lparr>u_user_id := uid, u_speaker := Some ''user'',
                         u_ttl_sec := Some ttl, u_awaiting := Some False,
                         u_topic_id := Some topic, u_user_text := Some user\<rparr>) s2;
               (_, s4) = append_history e p m (Some k) user None None None None s3
           in (Inr tid, s4))"

definition begin_user_text_turn ::
  "'r session_env \<Rightarrow> string \<Rightarrow> int \<Rightarrow> string \<Rightarrow> string \<Rightarrow> real \<Rightarrow> int option \<Rightarrow> int option \<Rightarrow> string \<Rightarrow>
   string option \<Rightarrow> real option \<Rightarrow> 'r session_store \<Rightarrow>
   (string \<times> string \<times> 'r history_row list) \<times> 'r session_store" where
  "begin_user_text_turn e p m k user sec g uid prev tid now s =
     (let topic = build_topic_id e [user, prev];
          (t, s1) = start_new_turn e (Some k) tid now 0 s;
          s2 = update_session_state e 1 (Some k)
                 ((no_update sec now)\<lparr>u_user_id := uid, u_speaker := Some ''user'',
                    u_awaiting := Some False, u_topic_id := Some topic, u_user_text := Some user\<rparr>) s1;
          (h, s3) = get_conversation_history p (Some k) g s2;
          s4 = trim_history p m (Some k) g s3
      in ((t, topic, case runtime_session_key (Some k) g of None \<Rightarrow> h | Some r \<Rightarrow> the (histories s4 r)), s4))"

definition finish_assistant_text_turn ::
  "'r session_env \<Rightarrow> string \<Rightarrow> int \<Rightarrow> string \<Rightarrow> string \<Rightarrow> string \<Rightarrow> int option \<Rightarrow> int option \<Rightarrow> bool \<Rightarrow>
   real \<Rightarrow> real \<Rightarrow> string option \<Rightarrow> real option \<Rightarrow> 'r option \<Rightarrow> string option \<Rightarrow> 'r session_store \<Rightarrow>
   (history_error + bool \<times> real) \<times> 'r session_store" where
  "finish_assistant_text_turn e p m k user answer g uid awaiting normal_ttl question_ttl topic now
      receipt complete_tid s =
     (let ttl = (if awaiting then question_ttl else normal_ttl);
          (r, s1) = append_history e p m (Some k) user (Some answer) g receipt complete_tid s
      in case r of
           Inl err \<Rightarrow> (Inl err, s1)
         | Inr _ \<Rightarrow>
             (Inr (awaiting, ttl),
              update_session_state e 0 (Some k)
                ((no_update question_ttl now)\<lparr>u_user_id := uid, u_speaker := Some ''assistant'',
                   u_ttl_sec := Some ttl, u_awaiting := Some awaiting, u_topic_id := topic,
                   u_answer_text := Some answer, u_user_text := Some user\<rparr>) s1))"

definition record_command_assistant_turn ::
  "'r session_env \<Rightarrow> string \<Rightarrow> int \<Rightarrow> string \<Rightarrow> string \<Rightarrow> string \<Rightarrow> int option \<Rightarrow> int option \<Rightarrow>
   int option \<Rightarrow> int option \<Rightarrow> bool \<Rightarrow> real \<Rightarrow> real \<Rightarrow> real option \<Rightarrow> 'r session_store \<Rightarrow>
   (history_error + bool \<times> real) \<times> 'r session_store" where
  "record_command_assistant_turn e p m k user answer g uid chan msg awaiting normal_ttl question_ttl now s =
     finish_assistant_text_turn e p m k user answer g uid awaiting normal_ttl question_ttl
       (Some (build_topic_id e [user, answer])) now (Some (not_used_ref e)) None
       (remember_followup_target k chan msg s)"

section \<open>Operations as events\<close>

datatype 'r session_event =
  Ev_followup string "int option" "int option"
| Ev_segment "string option"
| Ev_start "string option" "string option" "real option"
| Ev_bad_audio "string option"
| Ev_reset_audio "string option"
| Ev_update "string option" update_args
| Ev_history "string option" "int option"
| Ev_trim "string option" "int option"
| Ev_append "string option" string "string option" "int option" "'r option" "string option"
| Ev_begin_only string string string "int option" real string real "real option"
| Ev_begin_text string string real "int option" "int option" string "string option" "real option"
| Ev_finish string string string "int option" "int option" bool real real "string option"
    "real option" "'r option" "string option"
| Ev_command string string string "int option" "int option" "int option" "int option" bool
    real real "real option"

fun session_step ::
  "string \<Rightarrow> int \<Rightarrow> 'r session_store \<Rightarrow> 'r session_env \<times> 'r session_event \<Rightarrow> 'r session_store" where
  "session_step p m s (e, Ev_followup k c ms) = remember_followup_target k c ms s"
| "session_step p m s (e, Ev_segment k) = snd (next_segment_id k s)"
| "session_step p m s (e, Ev_start k t now) = snd (start_new_turn e k t now 0 s)"
| "session_step p m s (e, Ev_bad_audio k) = snd (increment_bad_audio k s)"
| "session_step p m s (e, Ev_reset_audio k) = reset_bad_audio k s"
| "session_step p m s (e, Ev_update k a) = update_session_state e 0 k a s"
| "session_step p m s (e, Ev_history k g) = snd (get_conversation_history p k g s)"
| "session_step p m s (e, Ev_trim k g) = trim_history p m k g s"
| "session_step p m s (e, Ev_append k u a g r c) = snd (append_history e p m k u a g r c s)"
| "session_step p m s (e, Ev_begin_only k u t uid ttl topic sec now) =
     snd (begin_user_only_turn e p m k u t uid ttl topic sec now s)"
| "session_step p m s (e, Ev_begin_text k u sec g uid prev t now) =
     snd (begin_user_text_turn e p m k u sec g uid prev t now s)"
| "session_step p m s (e, Ev_finish k u a g uid aw n q topic now r c) =
     snd (finish_assistant_text_turn e p m k u a g uid aw n q topic now r c s)"
| "session_step p m s (e, Ev_command k u a g uid ch ms aw n q now) =
     snd (record_command_assistant_turn e p m k u a g uid ch ms aw n q now s)"

section \<open>History invariant\<close>

definition row_ok :: "'r history_row \<Rightarrow> bool" where
  "row_ok r \<longleftrightarrow> clean_text (content r) = content r \<and>
     (role r = ''user'' \<and> memory_ref r = None \<or> role r = ''assistant'' \<and> memory_ref r \<noteq> None)"

definition history_ok :: "string \<Rightarrow> int \<Rightarrow> 'r history_row list \<Rightarrow> bool" where
  "history_ok p m h \<longleftrightarrow> h \<noteq> [] \<and> hd h = system_row p \<and> (\<forall>r \<in> set (tl h). row_ok r) \<and>
     (1 \<le> m \<longrightarrow> int (length h) \<le> 1 + m)"

definition session_ok :: "string \<Rightarrow> int \<Rightarrow> 'r session_store \<Rightarrow> bool" where
  "session_ok p m s \<longleftrightarrow> (\<forall>k h. histories s k = Some h \<longrightarrow> history_ok p m h)"

lemma session_ok_same: "session_ok p m s \<Longrightarrow> histories s' = histories s \<Longrightarrow> session_ok p m s'"
  by (simp add: session_ok_def)

lemma hist_followup [simp]: "histories (remember_followup_target k c ms s) = histories s"
  by (simp add: remember_followup_target_def Let_def)

lemma hist_segment [simp]: "histories (snd (next_segment_id k s)) = histories s"
  by (simp add: next_segment_id_def Let_def)

lemma hist_start [simp]: "histories (snd (start_new_turn e k t now i s)) = histories s"
  by (simp add: start_new_turn_def Let_def)

lemma hist_audio [simp]:
  "histories (snd (increment_bad_audio k s)) = histories s"
  "histories (reset_bad_audio k s) = histories s"
  by (simp_all add: increment_bad_audio_def reset_bad_audio_def Let_def)

lemma hist_update [simp]: "histories (update_session_state e i k a s) = histories s"
  by (simp add: update_session_state_def Let_def)

text \<open>The kept rows of a trimmed history, for every limit.\<close>

lemma trimmed_pos:
  assumes "1 \<le> m" and "h \<noteq> []"
  shows "trimmed m h = (if int (length h) > 1 + m
           then hd h # drop (length h - nat m) h else h)"
proof (cases "int (length h) > 1 + m")
  case True
  then have "slice_bound (length h) 1 = 1" "slice_bound (length h) (- m) = length h - nat m"
    using assms by (auto simp: slice_bound_def nat_diff_distrib)
  moreover have "1 < length h - nat m" using True assms by linarith
  moreover have "take 1 h = [hd h]" using assms by (cases h) auto
  ultimately show ?thesis using True by (simp add: trimmed_def del_slice_def Let_def)
qed (simp add: trimmed_def)

lemma trimmed_rows: "set (tl (trimmed m h)) \<subseteq> set (tl h) \<and> (h \<noteq> [] \<longrightarrow> trimmed m h \<noteq> [] \<and> hd (trimmed m h) = hd h)"
proof (cases h)
  case (Cons x xs)
  let ?j = "slice_bound (length h) (- m)"
  have one: "slice_bound (length h) 1 = 1" using Cons by (simp add: slice_bound_def)
  show ?thesis
  proof (cases "int (length h) > 1 + m \<and> 1 < ?j")
    case True
    then have "trimmed m h = x # drop ?j h"
      using Cons one by (simp add: trimmed_def del_slice_def Let_def)
    moreover obtain j' where "?j = Suc j'" using True by (cases ?j) auto
    ultimately show ?thesis using Cons set_drop_subset [of j' xs] by auto
  qed (auto simp: trimmed_def del_slice_def Let_def one)
qed (simp add: trimmed_def del_slice_def slice_bound_def)

lemma trimmed_length: "1 \<le> m \<Longrightarrow> h \<noteq> [] \<Longrightarrow> int (length (trimmed m h)) \<le> 1 + m"
  by (auto simp: trimmed_pos)

lemma trimmed_ok:
  assumes "h \<noteq> []" "hd h = system_row p" "\<forall>r \<in> set (tl h). row_ok r"
  shows "history_ok p m (trimmed m h)"
  using assms trimmed_rows [of m h] trimmed_length [of m h] by (auto simp: history_ok_def)

lemma get_ok:
  assumes "session_ok p m s" and "get_conversation_history p k g s = (h, s')"
  shows "history_ok p m h \<and> session_ok p m s'"
proof -
  have new: "history_ok p m (new_conversation_history p)"
    by (simp add: history_ok_def new_conversation_history_def)
  show ?thesis
    using assms new
    by (auto simp: get_conversation_history_def session_ok_def split: option.splits if_splits)
qed

lemma set_history_ok: "session_ok p m s \<Longrightarrow> history_ok p m h \<Longrightarrow> session_ok p m (set_history k g h s)"
  by (auto simp: set_history_def session_ok_def split: option.splits)

text \<open>Writing a longer list back and trimming it in the store is writing the trimmed list.\<close>

lemma trim_set_history:
  "trim_history p m k g (set_history k g h s) = set_history k g (trimmed m h) s"
  by (simp add: trim_history_def get_conversation_history_def set_history_def split: option.splits)

lemma trim_ok: "session_ok p m s \<Longrightarrow> session_ok p m (trim_history p m k g s)"
proof -
  assume s: "session_ok p m s"
  obtain h s' where g: "get_conversation_history p k g s = (h, s')" by fastforce
  from get_ok [OF s g] have h: "history_ok p m h" and s': "session_ok p m s'" by auto
  then show ?thesis using g
    by (auto simp: trim_history_def history_ok_def intro!: set_history_ok trimmed_ok)
qed

definition appended_rows ::
  "'r session_env \<Rightarrow> string \<Rightarrow> string option \<Rightarrow> 'r option \<Rightarrow> string option \<Rightarrow> 'r history_row list" where
  "appended_rows e user answer receipt tid =
     (if tid = None then [\<lparr>role = ''user'', content = clean_text user, memory_ref = None\<rparr>] else []) @
     (case answer of None \<Rightarrow> []
      | Some a \<Rightarrow> [\<lparr>role = ''assistant'', content = clean_text a,
                   memory_ref = Some (reply_ref e receipt)\<rparr>])"

lemma appended_rows_ok: "r \<in> set (appended_rows e u a rc t) \<Longrightarrow> row_ok r"
  by (auto simp: appended_rows_def row_ok_def split: option.splits if_splits)

text \<open>An append either leaves the histories as the lookup left them or adds the rows and trims.\<close>

lemma append_history_cases:
  assumes "get_conversation_history p k g s = (h, s1)"
  shows "(\<exists>r. append_history e p m k u a g rc t s = (r, s1) \<and> t \<noteq> None) \<or>
    append_history e p m k u a g rc t s =
       (Inr (), set_history k g (trimmed m (h @ appended_rows e u a rc t)) s1)"
  using assms
  by (cases t; cases a)
     (auto simp: append_history_def appended_rows_def trim_set_history Let_def)

lemma append_ok:
  assumes "session_ok p m s"
  shows "session_ok p m (snd (append_history e p m k u a g rc t s))"
proof -
  obtain h s1 where g: "get_conversation_history p k g s = (h, s1)" by fastforce
  from get_ok [OF assms g] have h: "history_ok p m h" and s1: "session_ok p m s1" by auto
  have "history_ok p m (trimmed m (h @ appended_rows e u a rc t))"
    using h by (intro trimmed_ok) (auto simp: history_ok_def dest: appended_rows_ok)
  then show ?thesis
    using append_history_cases [OF g, of e m u a rc t] s1 by (auto simp: set_history_ok)
qed

lemma begin_only_ok:
  assumes "session_ok p m s"
  shows "session_ok p m (snd (begin_user_only_turn e p m k u t uid ttl topic sec now s))"
proof -
  obtain h s1 where g: "get_conversation_history p (Some k) None s = (h, s1)" by fastforce
  from get_ok [OF assms g] have "session_ok p m s1" by auto
  then show ?thesis using g
    by (auto simp: begin_user_only_turn_def Let_def case_prod_beta
        intro!: append_ok session_ok_same [of p m s1])
qed

lemma begin_text_ok:
  assumes "session_ok p m s"
  shows "session_ok p m (snd (begin_user_text_turn e p m k u sec g uid prev t now s))"
proof -
  have *: "session_ok p m (snd (get_conversation_history p (Some k) g s'))" if "session_ok p m s'" for s'
    using get_ok [OF that, of "Some k" g "fst (get_conversation_history p (Some k) g s')"] by simp
  show ?thesis
    by (simp add: begin_user_text_turn_def Let_def case_prod_beta)
       (rule trim_ok, rule *, rule session_ok_same [OF assms], simp)
qed

lemma finish_ok:
  assumes "session_ok p m s"
  shows "session_ok p m (snd (finish_assistant_text_turn e p m k u a g uid aw n q topic now r c s))"
  using append_ok [OF assms, of e "Some k" u "Some a" g r c]
  by (auto simp: finish_assistant_text_turn_def Let_def case_prod_beta split: sum.splits
      intro: session_ok_same)

lemma session_step_ok: "session_ok p m s \<Longrightarrow> session_ok p m (session_step p m s ev)"
proof (induction p m s ev rule: session_step.induct)
  case (7 p m s e k g)
  then show ?case using get_ok [of p m s k g] by (cases "get_conversation_history p k g s") auto
next
  case (13 p m s e k u a g uid ch ms aw n q now)
  then show ?case
    by (auto simp: record_command_assistant_turn_def intro!: finish_ok intro: session_ok_same)
qed (auto simp: trim_ok append_ok begin_only_ok begin_text_ok finish_ok intro: session_ok_same)

interpretation session: op_machine "session_step p m" "session_ok p m" for p m
  by unfold_locales (rule session_step_ok)

section \<open>Properties\<close>

lemma truthy_Some [simp]: "truthy_str (Some k) \<longleftrightarrow> k \<noteq> []"
  by (simp add: truthy_str_def)

lemma resolved_key [simp]: "k \<noteq> [] \<Longrightarrow> runtime_session_key (Some k) g = Some k"
  by (cases k) (simp_all add: runtime_session_key_def)

lemma get_stored: "histories s k = Some h \<Longrightarrow> k \<noteq> [] \<Longrightarrow>
  get_conversation_history p (Some k) g s = (h, s)"
  by (simp add: get_conversation_history_def)

lemma get_then_stored:
  "k \<noteq> [] \<Longrightarrow> get_conversation_history p (Some k) g s = (h, s1) \<Longrightarrow>
   histories s1 k = Some h \<and> turn_ids s1 = turn_ids s"
  by (auto simp: get_conversation_history_def split: option.splits)

text \<open>The last rows of a history survive trimming to a limit that has room for them.\<close>

lemma trimmed_suffix:
  assumes "h \<noteq> []" and "length rows \<le> nat m" and "1 \<le> m"
  shows "\<exists>h'. h' \<noteq> [] \<and> trimmed m (h @ rows) = h' @ rows"
proof (cases "int (length (h @ rows)) > 1 + m")
  case True
  then have "drop (length (h @ rows) - nat m) (h @ rows)
      = drop (length h + length rows - nat m) h @ rows"
    using assms by simp
  with True show ?thesis using assms
    by (auto simp: trimmed_pos intro!: exI [of _ "hd h # drop (length h + length rows - nat m) h"])
qed (use assms in \<open>auto simp: trimmed_pos\<close>)

lemma set_history_fields [simp]:
  "turn_ids (set_history k g h s) = turn_ids s"
  "k' \<noteq> [] \<Longrightarrow> histories (set_history (Some k') g h s) k' = Some h"
  by (auto simp: set_history_def split: option.splits)

lemma exact_user_tail_snoc [simp]: "exact_user_tail (h @ [r]) u = exact_user_row r u"
  by (simp add: exact_user_tail_def)

lemma exact_user_tailD: "exact_user_tail h u \<Longrightarrow> \<exists>h' r. h = h' @ [r] \<and> exact_user_row r u"
  by (cases h rule: rev_cases) (auto simp: exact_user_tail_def)

lemma append_user_only:
  assumes "k \<noteq> []" and "1 \<le> m" and "append_history e p m (Some k) u None None None None s = (r, s')"
    and h0: "\<And>h. histories s k = Some h \<Longrightarrow> h \<noteq> []"
  shows "\<exists>h. histories s' k = Some h \<and> exact_user_tail h u \<and> turn_ids s' = turn_ids s"
proof -
  obtain h s1 where g: "get_conversation_history p (Some k) None s = (h, s1)" by fastforce
  have "h \<noteq> []" using g h0 assms(1)
    by (auto simp: get_conversation_history_def new_conversation_history_def split: option.splits)
  moreover have "length (appended_rows e u None None None) \<le> nat m"
    using assms(2) by (simp add: appended_rows_def)
  ultimately obtain h' where "trimmed m (h @ appended_rows e u None None None)
      = h' @ appended_rows e u None None None"
    using trimmed_suffix [of h "appended_rows e u None None None" m] assms(2) by blast
  then show ?thesis
    using append_history_cases [OF g, of e m u None None None] get_then_stored [OF assms(1) g] assms
    by (auto simp: appended_rows_def exact_user_row_def)
qed

definition demo_env :: "string session_env" where
  "demo_env = \<lparr>sha1_hex = (\<lambda>s. s), receipt_ref = (\<lambda>r. r), unattributed_ref = ''u'',
     not_used_ref = ''n'', fresh_turn_id = ''t9'', clk = (\<lambda>_. 0)\<rparr>"

text \<open>
  C23. Every conversation history the store can reach from empty starts with the system
  prompt, holds only well-shaped normalised user and assistant rows after it (an assistant
  row carries a memory receipt, a user row none), and has at most one row more than the
  limit, for every limit of at least one.
\<close>

theorem session_history_bounded:
  assumes "1 \<le> m"
    and "histories (foldl (session_step p m) create_empty evs) k = Some h"
  shows "hd h = system_row p \<and> (\<forall>r \<in> set (tl h). row_ok r) \<and> h \<noteq> [] \<and> int (length h) \<le> 1 + m"
proof -
  have "session_ok p m (create_empty :: 'r session_store)"
    by (simp add: session_ok_def create_empty_def)
  from session.inv_run [OF this, of evs] assms show ?thesis
    by (auto simp: session_ok_def history_ok_def)
qed

theorem session_history_bounded_witness:
  "int (length [system_row ''p'' :: string history_row]) \<le> 1 + 4"
proof -
  let ?e = "demo_env"
  have "histories (foldl (session_step ''p'' 4) create_empty [(?e, Ev_history (Some ''s'') None)]) ''s''
      = Some [system_row ''p'']"
    by (simp add: get_conversation_history_def create_empty_def runtime_session_key_def
        new_conversation_history_def)
  from session_history_bounded [OF _ this] show ?thesis by simp
qed

text \<open>
  Beginning a user turn again with the same turn id and the same text (a redelivery) is
  accepted and changes nothing: no second row, no new activity window, whatever the other
  arguments, clocks and fresh ids of the second call are.
\<close>

theorem begin_user_only_turn_replay:
  assumes "k \<noteq> []" and "tid \<noteq> []" and "1 \<le> m" and "session_ok p m s"
    and "begin_user_only_turn e p m k user tid uid ttl topic sec now s = (Inr t, s')"
  shows "begin_user_only_turn e' p m k user tid uid' ttl' topic' sec' now' s' = (Inr tid, s')"
proof -
  obtain h s1 where g: "get_conversation_history p (Some k) None s = (h, s1)" by fastforce
  note stored = get_then_stored [OF assms(1) g]
  have "\<exists>h'. histories s' k = Some h' \<and> exact_user_tail h' user \<and> turn_ids s' k = Some tid"
  proof (cases "current_turn_id (Some k) s1 = Some tid")
    case True
    then show ?thesis using assms g stored
      by (auto simp: begin_user_only_turn_def current_turn_id_def Let_def split: if_splits)
  next
    case False
    let ?s3 = "update_session_state e 1 (Some k)
                 ((no_update sec now)\<lparr>u_user_id := uid, u_speaker := Some ''user'',
                    u_ttl_sec := Some ttl, u_awaiting := Some False,
                    u_topic_id := Some topic, u_user_text := Some user\<rparr>)
                 (snd (start_new_turn e (Some k) (Some tid) now 0 s1))"
    let ?a = "append_history e p m (Some k) user None None None None ?s3"
    have "snd ?a = s'"
      using False assms g by (auto simp: begin_user_only_turn_def Let_def case_prod_beta)
    then have a: "?a = (fst ?a, s')" by (simp add: prod_eq_iff)
    have "turn_ids ?s3 k = Some tid" using assms
      by (simp add: update_session_state_def start_new_turn_def Let_def)
    moreover have "h \<noteq> []" using get_ok [OF assms(4) g] by (simp add: history_ok_def)
    ultimately show ?thesis using append_user_only [OF assms(1,3) a] stored by auto
  qed
  then show ?thesis using assms(1)
    by (auto simp: begin_user_only_turn_def get_stored current_turn_id_def)
qed

theorem begin_user_only_turn_replay_witness:
  "begin_user_only_turn demo_env ''p'' 8 ''s1'' ''hi'' ''t1'' (Some 3) 90 ''topic'' 5 (Some 50)
     (snd (begin_user_only_turn demo_env ''p'' 8 ''s1'' ''hi'' ''t1'' None 90 ''topic'' 5 (Some 10) create_empty))
   = (Inr ''t1'',
      snd (begin_user_only_turn demo_env ''p'' 8 ''s1'' ''hi'' ''t1'' None 90 ''topic'' 5 (Some 10) create_empty))"
proof -
  let ?b = "begin_user_only_turn demo_env ''p'' 8 ''s1'' ''hi'' ''t1'' None 90 ''topic'' 5 (Some 10) create_empty"
  have b: "?b = (Inr ''t1'', snd ?b)"
    by (simp add: prod_eq_iff) (simp add: begin_user_only_turn_def Let_def case_prod_beta
        get_conversation_history_def create_empty_def current_turn_id_def runtime_session_key_def)
  show ?thesis
    by (rule begin_user_only_turn_replay [OF _ _ _ _ b]) (simp_all add: session_ok_def create_empty_def)
qed

text \<open>
  C22. A completion is written exactly once: when completing turn \<open>tid\<close> succeeds, repeating
  the same completion succeeds and changes nothing (the limit leaves room for the pair).
\<close>

theorem completion_exactly_once:
  assumes "k \<noteq> []" and "2 \<le> m" and "session_ok p m s"
    and "append_history e p m (Some k) user (Some answer) g rc (Some tid) s = (Inr (), s')"
  shows "append_history e p m (Some k) user (Some answer) g rc (Some tid) s' = (Inr (), s')"
proof -
  obtain h s1 where gh: "get_conversation_history p (Some k) g s = (h, s1)" by fastforce
  note stored = get_then_stored [OF assms(1) gh]
  let ?a = "\<lparr>role = ''assistant'', content = clean_text answer, memory_ref = Some (reply_ref e rc)\<rparr>"
  have "\<exists>h'. histories s' k = Some h' \<and> exact_pair_tail h' user answer (reply_ref e rc) \<and>
      turn_ids s' k = Some tid"
  proof (cases "exact_pair_tail h user answer (reply_ref e rc)")
    case True
    then show ?thesis using assms gh stored
      by (auto simp: append_history_def Let_def split: if_splits)
  next
    case False
    then have u: "exact_user_tail h user" and t: "turn_ids s1 k = Some tid"
      and s': "s' = set_history (Some k) g (trimmed m (h @ [?a])) s1"
      using assms gh by (auto simp: append_history_def trim_set_history Let_def split: if_splits)
    obtain h0 r where h: "h = h0 @ [r]" and r: "exact_user_row r user"
      using exact_user_tailD [OF u] by blast
    have "h0 \<noteq> []"
      using get_ok [OF assms(3) gh] h r
      by (auto simp: history_ok_def exact_user_row_def system_row_def)
    moreover have "length [r, ?a] \<le> nat m" "1 \<le> m" using assms(2) by simp_all
    ultimately obtain h' where "trimmed m (h0 @ [r, ?a]) = h' @ [r, ?a]"
      using trimmed_suffix [of h0 "[r, ?a]" m] by blast
    then show ?thesis using h r s' t assms(1) by (simp add: exact_pair_tail_def)
  qed
  then show ?thesis using assms(1) by (auto simp: append_history_def get_stored)
qed

theorem completion_exactly_once_witness:
  "\<exists>s'. append_history demo_env ''p'' 4 (Some ''s'') ''q'' (Some ''a'') None None (Some ''t'')
     ((create_empty :: string session_store)\<lparr>histories := [''s'' \<mapsto> [system_row ''p'',
        \<lparr>role = ''user'', content = ''q'', memory_ref = None\<rparr>]], turn_ids := [''s'' \<mapsto> ''t'']\<rparr>) = (Inr (), s')
   \<and> append_history demo_env ''p'' 4 (Some ''s'') ''q'' (Some ''a'') None None (Some ''t'') s' = (Inr (), s')"
proof -
  let ?s = "(create_empty :: string session_store)\<lparr>histories := [''s'' \<mapsto> [system_row ''p'',
        \<lparr>role = ''user'', content = ''q'', memory_ref = None\<rparr>]], turn_ids := [''s'' \<mapsto> ''t'']\<rparr>"
  let ?r = "append_history demo_env ''p'' 4 (Some ''s'') ''q'' (Some ''a'') None None (Some ''t'') ?s"
  have q: "clean_text ''q'' = ''q''" by (simp add: clean_text_def py_strip_def py_space_def)
  have r: "?r = (Inr (), snd ?r)"
    by (simp add: prod_eq_iff)
       (simp add: append_history_def get_conversation_history_def runtime_session_key_def
          exact_user_tail_def exact_pair_tail_def exact_user_row_def system_row_def Let_def)
  have ok: "session_ok ''p'' 4 ?s"
    using q by (simp add: session_ok_def history_ok_def row_ok_def)
  from completion_exactly_once [OF _ _ ok r] r show ?thesis by auto
qed

text \<open>
  A completion for a turn that is no longer the session's current one is refused, and
  the refusal writes nothing: every dictionary but the history of the key is unchanged, and
  that history is the stored one (a missing one is created with the system prompt only).
\<close>

theorem stale_completion_refused:
  assumes "k \<noteq> []" and "turn_ids s k \<noteq> Some tid"
  shows "append_history e p m (Some k) user answer g rc (Some tid) s =
    (Inl Turn_Mismatch,
     case histories s k of Some _ \<Rightarrow> s
     | None \<Rightarrow> s\<lparr>histories := (histories s)(k \<mapsto> [system_row p])\<rparr>)"
  using assms
  by (auto simp: append_history_def get_conversation_history_def new_conversation_history_def
      Let_def split: option.splits)

theorem stale_completion_refused_witness:
  "append_history demo_env ''p'' 4 (Some ''s'') ''q'' (Some ''a'') None None (Some ''old'')
     ((create_empty :: string session_store)\<lparr>histories := [''s'' \<mapsto> [system_row ''p'']],
        turn_ids := [''s'' \<mapsto> ''new'']\<rparr>) =
   (Inl Turn_Mismatch, create_empty\<lparr>histories := [''s'' \<mapsto> [system_row ''p'']],
        turn_ids := [''s'' \<mapsto> ''new'']\<rparr>)"
proof -
  let ?s = "(create_empty :: string session_store)\<lparr>histories := [''s'' \<mapsto> [system_row ''p'']],
        turn_ids := [''s'' \<mapsto> ''new'']\<rparr>"
  have "turn_ids ?s ''s'' \<noteq> Some ''old''" by simp
  from stale_completion_refused [OF _ this, of demo_env "''p''" 4 "''q''" "Some ''a''" None None]
  show ?thesis by simp
qed

text \<open>
  With a limit of zero the slice \<open>history[1:-0]\<close> is empty, so trimming removes nothing
  and every append of a question and its answer makes the history two rows longer: the
  limit that asks for the shortest history gives an unbounded one.
\<close>

theorem zero_limit_never_trims:
  "histories s k = Some h \<Longrightarrow> k \<noteq> [] \<Longrightarrow>
   map_option length (histories (snd (append_history e p 0 (Some k) user (Some answer) g rc None s)) k)
     = Some (length h + 2)"
  by (simp add: append_history_def get_stored trim_set_history trimmed_def del_slice_def
      slice_bound_def Let_def)

theorem zero_limit_never_trims_witness:
  "map_option length (histories (snd (append_history demo_env ''p'' 0 (Some ''s'') ''q'' (Some ''a'')
      None None None ((create_empty :: string session_store)\<lparr>histories := [''s'' \<mapsto> [system_row ''p'']]\<rparr>))) ''s'')
   = Some 3"
  using zero_limit_never_trims [of "(create_empty :: string session_store)\<lparr>histories := [''s'' \<mapsto> [system_row ''p'']]\<rparr>"
      "''s''" "[system_row ''p'']" demo_env "''p''" "''q''" "''a''" None None]
  by (simp add: eval_nat_numeral)

end
