(* ===== verification/Py_Value.thy ===== *)
theory Py_Value
  imports Py_Prelude
begin

text \<open>
  Python values as \<open>json.loads\<close> produces them, for code that checks untyped dictionaries:
  truth, \<open>==\<close>, \<open>dict.get\<close>, the conversions \<open>int\<close>, \<open>float\<close> and \<open>str\<close> with the exceptions
  they raise, and \<open>hmac.compare_digest\<close>. \<open>json\<close> accepts \<open>NaN\<close> and \<open>Infinity\<close>, so a float may
  be any \<open>pyfloat\<close>. A finite float is an exact real number (no rounding), but the overflow of
  the 64-bit format is kept: from \<open>float_limit\<close> on, an int does not convert and a decimal text
  converts to infinity. The \<open>repr\<close> of floats, lists and dictionaries is a parameter.
\<close>

datatype pyval =
  PNone
| PBool bool
| PInt int
| PFloat pyfloat
| PStr string
| PList "pyval list"
| PDict "(string \<times> pyval) list"

datatype py_exn = Type_Error | Value_Error | Overflow_Error | Unicode_Error

definition bind_r :: "'e + 'a \<Rightarrow> ('a \<Rightarrow> 'e + 'b) \<Rightarrow> 'e + 'b" where
  "bind_r r f = (case r of Inl x \<Rightarrow> Inl x | Inr v \<Rightarrow> f v)"

lemma bind_r_simps [simp]: "bind_r (Inl x) f = Inl x" "bind_r (Inr v) f = f v"
  by (simp_all add: bind_r_def)

lemma bind_r_Inr: "bind_r r f = Inr w \<longleftrightarrow> (\<exists>v. r = Inr v \<and> f v = Inr w)"
  by (cases r) auto

section \<open>Truth, lookup, equality\<close>

fun truthy :: "pyval \<Rightarrow> bool" where
  "truthy PNone = False"
| "truthy (PBool b) = b"
| "truthy (PInt i) = (i \<noteq> 0)"
| "truthy (PFloat f) = (f \<noteq> Fin 0)"
| "truthy (PStr s) = (s \<noteq> [])"
| "truthy (PList l) = (l \<noteq> [])"
| "truthy (PDict d) = (d \<noteq> [])"

definition py_get :: "(string \<times> pyval) list \<Rightarrow> string \<Rightarrow> pyval" where
  "py_get d k = (case map_of d k of None \<Rightarrow> PNone | Some v \<Rightarrow> v)"

fun py_num :: "pyval \<Rightarrow> pyfloat option" where
  "py_num (PBool b) = Some (Fin (if b then 1 else 0))"
| "py_num (PInt i) = Some (Fin (real_of_int i))"
| "py_num (PFloat f) = Some f"
| "py_num _ = None"

fun py_eq :: "pyval \<Rightarrow> pyval \<Rightarrow> bool"
  and eq_list :: "pyval list \<Rightarrow> pyval list \<Rightarrow> bool"
  and eq_dict :: "(string \<times> pyval) list \<Rightarrow> (string \<times> pyval) list \<Rightarrow> bool" where
  "py_eq PNone v = (v = PNone)"
| "py_eq (PStr s) v = (v = PStr s)"
| "py_eq (PList l) v = (case v of PList m \<Rightarrow> eq_list l m | _ \<Rightarrow> False)"
| "py_eq (PDict d) v = (case v of PDict d' \<Rightarrow> length d = length d' \<and> eq_dict d d' | _ \<Rightarrow> False)"
| "py_eq (PBool b) v = (py_num v = Some (Fin (if b then 1 else 0)))"
| "py_eq (PInt i) v = (py_num v = Some (Fin (real_of_int i)))"
| "py_eq (PFloat f) v = (f \<noteq> NaN \<and> py_num v = Some f)"
| "eq_list [] m = (m = [])"
| "eq_list (x # l) m = (case m of [] \<Rightarrow> False | y # m' \<Rightarrow> py_eq x y \<and> eq_list l m')"
| "eq_dict [] d = True"
| "eq_dict ((k, x) # r) d = ((case map_of d k of None \<Rightarrow> False | Some y \<Rightarrow> py_eq x y) \<and> eq_dict r d)"

lemma py_eq_Str_right [simp]: "py_eq v (PStr s) \<longleftrightarrow> v = PStr s"
  by (cases v) auto

lemma py_eq_None_right [simp]: "py_eq v PNone \<longleftrightarrow> v = PNone"
  by (cases v) auto

section \<open>Conversions\<close>

definition float_limit :: real where
  "float_limit = 2 ^ 1024 - 2 ^ 970"

definition sign_split :: "string \<Rightarrow> int \<times> string" where
  "sign_split s = (case s of [] \<Rightarrow> (1, [])
     | c # r \<Rightarrow> if c = CHR ''-'' then (-1, r) else if c = CHR ''+'' then (1, r) else (1, s))"

text \<open>Digits with single underscores between them.\<close>

definition digit_groups :: "string \<Rightarrow> string option" where
  "digit_groups s =
     (let gs = split_on (CHR ''_'') s
      in if list_all (\<lambda>g. g \<noteq> [] \<and> list_all digit_char g) gs then Some (concat gs) else None)"

definition int_of_text :: "string \<Rightarrow> py_exn + int" where
  "int_of_text s =
     (let (sg, r) = sign_split (py_strip s)
      in case digit_groups r of
           None \<Rightarrow> Inl Value_Error
         | Some ds \<Rightarrow> if length ds > 4300 then Inl Value_Error else Inr (sg * int (nat_of_str ds)))"

definition trunc :: "real \<Rightarrow> int" where
  "trunc x = (if x < 0 then \<lceil>x\<rceil> else \<lfloor>x\<rfloor>)"

fun py_int :: "pyval \<Rightarrow> py_exn + int" where
  "py_int (PBool b) = Inr (if b then 1 else 0)"
| "py_int (PInt i) = Inr i"
| "py_int (PFloat (Fin x)) = Inr (trunc x)"
| "py_int (PFloat NaN) = Inl Value_Error"
| "py_int (PFloat _) = Inl Overflow_Error"
| "py_int (PStr s) = int_of_text s"
| "py_int _ = Inl Type_Error"

definition low :: "char \<Rightarrow> char" where
  "low c = (let n = (of_char c :: nat) in if 65 \<le> n \<and> n \<le> 90 then char_of (n + 32) else c)"

definition pack_float :: "real \<Rightarrow> pyfloat" where
  "pack_float x = (if x \<ge> float_limit then PosInf else if x \<le> - float_limit then NegInf else Fin x)"

definition exponent_of :: "string \<Rightarrow> int option" where
  "exponent_of s = (let (sg, r) = sign_split s
     in map_option (\<lambda>ds. sg * int (nat_of_str ds)) (digit_groups r))"

definition digits_or_none :: "string \<Rightarrow> string option" where
  "digits_or_none s = (if s = [] then Some [] else digit_groups s)"

definition mantissa_of :: "string \<Rightarrow> real option" where
  "mantissa_of s =
     (case split_on (CHR ''.'') s of
        [a] \<Rightarrow> map_option (\<lambda>ds. real (nat_of_str ds)) (digit_groups a)
      | [a, b] \<Rightarrow>
          if a = [] \<and> b = [] then None
          else (case (digits_or_none a, digits_or_none b) of
                  (Some da, Some db) \<Rightarrow> Some (real (nat_of_str (da @ db)) / 10 ^ length db)
                | _ \<Rightarrow> None)
      | _ \<Rightarrow> None)"

definition unsigned_float :: "string \<Rightarrow> real option" where
  "unsigned_float s =
     (case split_on (CHR ''e'') s of
        [m] \<Rightarrow> mantissa_of m
      | [m, x] \<Rightarrow> (case (mantissa_of m, exponent_of x) of
            (Some v, Some k) \<Rightarrow> Some (if k \<ge> 0 then v * 10 ^ nat k else v / 10 ^ nat (- k))
          | _ \<Rightarrow> None)
      | _ \<Rightarrow> None)"

definition float_of_text :: "string \<Rightarrow> py_exn + pyfloat" where
  "float_of_text t =
     (let (sg, r) = sign_split (map low (py_strip t))
      in if r = ''inf'' \<or> r = ''infinity'' then Inr (if sg < 0 then NegInf else PosInf)
         else if r = ''nan'' then Inr NaN
         else (case unsigned_float r of None \<Rightarrow> Inl Value_Error
               | Some v \<Rightarrow> Inr (pack_float (real_of_int sg * v))))"

fun py_float :: "pyval \<Rightarrow> py_exn + pyfloat" where
  "py_float (PBool b) = Inr (Fin (if b then 1 else 0))"
| "py_float (PInt i) = (if \<bar>real_of_int i\<bar> \<ge> float_limit then Inl Overflow_Error
                        else Inr (Fin (real_of_int i)))"
| "py_float (PFloat f) = Inr f"
| "py_float (PStr s) = float_of_text s"
| "py_float _ = Inl Type_Error"

fun py_str :: "(pyval \<Rightarrow> string) \<Rightarrow> pyval \<Rightarrow> string" where
  "py_str repr PNone = ''None''"
| "py_str repr (PBool b) = (if b then ''True'' else ''False'')"
| "py_str repr (PInt i) = int_str i"
| "py_str repr (PStr s) = s"
| "py_str repr v = repr v"

definition str_or_empty :: "(pyval \<Rightarrow> string) \<Rightarrow> pyval \<Rightarrow> string" where
  "str_or_empty repr v = (if truthy v then py_str repr v else [])"

lemma str_or_empty_Str [simp]: "str_or_empty repr (PStr s) = s"
  by (simp add: str_or_empty_def)

section \<open>Comparing secrets\<close>

definition ascii_text :: "string \<Rightarrow> bool" where
  "ascii_text s = list_all (\<lambda>c. (of_char c :: nat) < 128) s"

definition compare_digest :: "string \<Rightarrow> string \<Rightarrow> py_exn + bool" where
  "compare_digest a b = (if ascii_text a \<and> ascii_text b then Inr (a = b) else Inl Type_Error)"

lemma compare_digest_True [simp]: "compare_digest a b = Inr True \<longleftrightarrow> a = b \<and> ascii_text a"
  by (auto simp: compare_digest_def)

end
