(* ===== verification/Room_State.thy ===== *)
theory Room_State
  imports Py_Value "HOL-Library.Product_Lexorder"
begin

text \<open>
  Who may speak in a voice room: \<open>evelyn_core/room_session_state.py\<close> (the owner of a room and
  the reply-in-progress flag) and \<open>evelyn_core/room_speaker_activity.py\<close>
  (\<open>RoomSpeakerActivityStore\<close>: recent speaker statistics, the choice of the active speaker,
  and the rebuilding of owners from the session store after a restart).

  The two modules work on the same dictionaries, kept here in one record. The statistics of
  a room are an association list from user ids; an absent statistic reads as 0, as
  \<open>float(data.get(k) or 0.0)\<close> does. \<open>room_log\<close> collects the calls of \<open>log_event\<close>. \<open>now\<close> is
  the clock reading that the functions take or make.
\<close>

section \<open>State\<close>

record speaker_stat =
  last_packet_at :: real
  recent_voiced_ms :: real
  recent_raw_ms :: real
  body_rms :: real
  wake_priority :: real

definition empty_stat :: speaker_stat where
  "empty_stat = \<lparr>last_packet_at = 0, recent_voiced_ms = 0, recent_raw_ms = 0, body_rms = 0,
     wake_priority = 0\<rparr>"

datatype room_event =
  Owner_Update string "int option" int real string
| Reply_State string bool "int option"

record room_state =
  recent_speaker_stats :: "string \<rightharpoonup> (int \<times> speaker_stat) list"
  room_owner_user_ids :: "string \<rightharpoonup> int"
  room_owner_until :: "string \<rightharpoonup> real"
  room_reply_in_progress :: "string \<rightharpoonup> bool"
  room_log :: "room_event list"

definition no_room :: "string option \<Rightarrow> bool" where
  "no_room r = (r = None \<or> r = Some [])"

section \<open>Room ownership\<close>

definition clear_room_owner :: "string option \<Rightarrow> room_state \<Rightarrow> room_state" where
  "clear_room_owner r s =
     (if no_room r then s
      else s\<lparr>room_owner_user_ids := (room_owner_user_ids s)(the r := None),
             room_owner_until := (room_owner_until s)(the r := None)\<rparr>)"

definition until_of :: "room_state \<Rightarrow> string \<Rightarrow> real" where
  "until_of s k = (case room_owner_until s k of None \<Rightarrow> 0 | Some t \<Rightarrow> t)"

definition replying :: "room_state \<Rightarrow> string \<Rightarrow> bool" where
  "replying s k = (room_reply_in_progress s k = Some True)"

record room_snapshot =
  owner_user_id :: "int option"
  owner_until :: real
  reply_in_progress :: bool
  active_speaker_user_id :: "int option"

definition room_state_snapshot ::
  "string option \<Rightarrow> int option \<Rightarrow> real \<Rightarrow> room_state \<Rightarrow> room_snapshot option \<times> room_state" where
  "room_state_snapshot r speaker now s =
     (if no_room r then (None, s)
      else
        let k = the r; u = until_of s k;
            expired = (u \<le> now \<and> \<not> replying s k);
            s' = (if expired then clear_room_owner r s else s);
            u' = (if expired then 0 else u)
        in (Some \<lparr>owner_user_id = room_owner_user_ids s' k, owner_until = u',
                  reply_in_progress = replying s' k, active_speaker_user_id = speaker\<rparr>, s'))"

definition is_room_owner_active ::
  "string option \<Rightarrow> int option \<Rightarrow> int option \<Rightarrow> real \<Rightarrow> room_state \<Rightarrow> bool \<times> room_state" where
  "is_room_owner_active r uid speaker now s =
     (if no_room r \<or> uid = None then (False, s)
      else
        let (snap, s') = room_state_snapshot r speaker now s
        in (case snap of None \<Rightarrow> (False, s')
            | Some v \<Rightarrow> (owner_user_id v = uid \<and> owner_until v > now, s')))"

definition set_room_owner ::
  "string option \<Rightarrow> int option \<Rightarrow> real \<Rightarrow> string \<Rightarrow> real \<Rightarrow> room_state \<Rightarrow> room_state" where
  "set_room_owner r uid ttl reason now s =
     (if no_room r \<or> uid = None then s
      else
        let k = the r; u = now + max 0 ttl
        in s\<lparr>room_owner_user_ids := (room_owner_user_ids s)(k \<mapsto> the uid),
             room_owner_until := (room_owner_until s)(k \<mapsto> u),
             room_log := room_log s @ [Owner_Update k (room_owner_user_ids s k) (the uid) u reason]\<rparr>)"

definition set_room_reply_in_progress ::
  "string option \<Rightarrow> bool \<Rightarrow> int option \<Rightarrow> room_state \<Rightarrow> room_state" where
  "set_room_reply_in_progress r v uid s =
     (if no_room r then s
      else s\<lparr>room_reply_in_progress := (room_reply_in_progress s)(the r \<mapsto> v),
             room_log := room_log s @
               [Reply_State (the r) v
                  (if uid \<noteq> None then uid else room_owner_user_ids s (the r))]\<rparr>)"

section \<open>Speaker activity\<close>

definition prune ::
  "string option \<Rightarrow> real \<Rightarrow> room_state \<Rightarrow> (int \<times> speaker_stat) list \<times> room_state" where
  "prune r now s =
     (if no_room r then ([], s)
      else
        let k = the r;
            stats = (case recent_speaker_stats s k of None \<Rightarrow> [] | Some l \<Rightarrow> l);
            keep = filter (\<lambda>p. now - last_packet_at (snd p) \<le> 5/2) stats
        in (keep, s\<lparr>recent_speaker_stats := (recent_speaker_stats s)
                      (k := (if keep = [] then None else Some keep))\<rparr>))"

definition update_speaker ::
  "string option \<Rightarrow> int option \<Rightarrow> real \<Rightarrow> real \<Rightarrow> real \<Rightarrow> bool \<Rightarrow> real \<Rightarrow> room_state \<Rightarrow> room_state" where
  "update_speaker r uid voiced_ms raw_seconds rms wake now s =
     (if no_room r \<or> uid = None then s
      else
        let (stats, s1) = prune r now s;
            e0 = (case map_of stats (the uid) of None \<Rightarrow> empty_stat | Some e \<Rightarrow> e);
            e1 = \<lparr>last_packet_at = now,
                  recent_voiced_ms = max (recent_voiced_ms e0 * (55/100)) voiced_ms,
                  recent_raw_ms = max (recent_raw_ms e0 * (55/100)) (raw_seconds * 1000),
                  body_rms = max (body_rms e0 * (6/10)) rms,
                  wake_priority = (if wake then now else wake_priority e0)\<rparr>
        in s1\<lparr>recent_speaker_stats :=
               (recent_speaker_stats s1)(the r \<mapsto> AList.update (the uid) e1 stats)\<rparr>)"

type_synonym score = "(real \<times> real \<times> real \<times> real) \<times> int"

definition score_of :: "int \<times> speaker_stat \<Rightarrow> score" where
  "score_of p = ((wake_priority (snd p), recent_voiced_ms (snd p), body_rms (snd p),
     last_packet_at (snd p)), fst p)"

definition pick_active_speaker ::
  "string option \<Rightarrow> real \<Rightarrow> room_state \<Rightarrow> int option \<times> room_state" where
  "pick_active_speaker r now s =
     (if no_room r then (None, s)
      else
        let (stats, s1) = prune r now s
        in if stats = [] then (None, s1)
           else
             let owner = room_owner_user_ids s1 (the r);
                 owner_fresh = (case owner of None \<Rightarrow> False
                   | Some u \<Rightarrow> until_of s1 (the r) > now \<and>
                       (case map_of stats u of None \<Rightarrow> False
                        | Some d \<Rightarrow> now - last_packet_at d \<le> 1/2))
             in if owner_fresh then (owner, s1)
                else (Some (snd (hd (rev (sort (map score_of stats))))), s1))"

section \<open>Restoring owners from the sessions\<close>

definition canonical_id :: "string \<Rightarrow> bool" where
  "canonical_id v \<longleftrightarrow> v \<noteq> [] \<and> list_all digit_char v \<and> 0 < nat_of_str v \<and> nat_str (nat_of_str v) = v"

fun parse_parts :: "string list \<Rightarrow> (string \<times> int) option" where
  "parse_parts [p0, p1, p2, p3, p4, p5] =
     (if p0 \<noteq> ''guild'' \<or> p2 \<noteq> ''voice'' \<or> p4 \<noteq> ''user'' then None
      else if \<not> (canonical_id p1 \<and> canonical_id p3 \<and> canonical_id p5) then None
      else Some (''guild:'' @ nat_str (nat_of_str p1) @ '':voice:'' @ nat_str (nat_of_str p3),
                 int (nat_of_str p5)))"
| "parse_parts _ = None"

definition parse_voice_user_session_key :: "string \<Rightarrow> (string \<times> int) option" where
  "parse_voice_user_session_key k = parse_parts (split_on (CHR '':'') k)"

text \<open>
  One row of the session store: key, what \<open>float\<close> makes of the value of \<open>last_active_at\<close> and of
  \<open>active_until\<close> (a float or the exception; absent keys read as 0.0), and the value of
  \<open>active_user_ids\<close> when it is exactly an \<open>int\<close>. A \<open>TypeError\<close> or \<open>ValueError\<close> is caught; the
  \<open>OverflowError\<close> of an integer beyond the floats is not, and leaves before anything changed.
\<close>

type_synonym session_row = "string \<times> (py_exn + pyfloat) \<times> (py_exn + pyfloat) \<times> int option"

definition caught :: "py_exn \<Rightarrow> bool" where
  "caught x \<longleftrightarrow> x = Type_Error \<or> x = Value_Error"

definition until_or_nan :: "py_exn + pyfloat \<Rightarrow> py_exn + pyfloat" where
  "until_or_nan r = (case r of Inl x \<Rightarrow> if caught x then Inr NaN else Inl x | Inr v \<Rightarrow> Inr v)"

record candidate =
  c_last :: real
  c_user :: int
  c_until :: pyfloat
  c_bound :: bool

fun collect_candidates ::
  "real \<Rightarrow> session_row list \<Rightarrow> candidate list dict \<Rightarrow> string set \<Rightarrow>
   py_exn + (candidate list dict \<times> string set)" where
  "collect_candidates now [] cs blocked = Inr (cs, blocked)"
| "collect_candidates now ((k, seen, until, uid) # rows) cs blocked =
     (case parse_voice_user_session_key k of
        None \<Rightarrow> collect_candidates now rows cs blocked
      | Some (room, ku) \<Rightarrow>
          (case seen of
             Inl x \<Rightarrow> if caught x then collect_candidates now rows cs (insert room blocked) else Inl x
           | Inr (Fin t) \<Rightarrow>
               if t > now then collect_candidates now rows cs (insert room blocked)
               else
                 (case until_or_nan until of
                    Inl x \<Rightarrow> Inl x
                  | Inr u \<Rightarrow>
                      let c = \<lparr>c_last = t, c_user = ku, c_until = u, c_bound = (uid = Some ku)\<rparr>;
                          old = (case dict_get cs room of None \<Rightarrow> [] | Some l \<Rightarrow> l)
                      in collect_candidates now rows (dict_set room (old @ [c]) cs) blocked)
           | Inr _ \<Rightarrow> collect_candidates now rows cs (insert room blocked)))"

definition newest_of :: "candidate list \<Rightarrow> candidate list" where
  "newest_of cs = filter (\<lambda>c. c_last c = Max (c_last ` set cs)) cs"

definition restorable :: "real \<Rightarrow> candidate list \<Rightarrow> (int \<times> real) option" where
  "restorable now cs =
     (case newest_of cs of
        [c] \<Rightarrow> if \<not> c_bound c \<or> \<not> is_finite (c_until c) \<or> fin_val (c_until c) \<le> now then None
               else Some (c_user c, fin_val (c_until c))
      | _ \<Rightarrow> None)"

fun restore_rooms ::
  "real \<Rightarrow> candidate list dict \<Rightarrow> string set \<Rightarrow> nat \<Rightarrow> room_state \<Rightarrow> nat \<times> room_state" where
  "restore_rooms now [] blocked n s = (n, s)"
| "restore_rooms now ((room, cs) # rest) blocked n s =
     (if room \<in> blocked then restore_rooms now rest blocked n s
      else (case restorable now cs of
              None \<Rightarrow> restore_rooms now rest blocked n s
            | Some (u, t) \<Rightarrow>
                restore_rooms now rest blocked (n + 1)
                  (s\<lparr>room_owner_user_ids := (room_owner_user_ids s)(room \<mapsto> u),
                     room_owner_until := (room_owner_until s)(room \<mapsto> t)\<rparr>)))"

datatype restore_error = Invalid_Restore_Time | Escaped py_exn

definition restore_owners_from_sessions ::
  "pyfloat \<Rightarrow> session_row list \<Rightarrow> room_state \<Rightarrow> (restore_error + nat) \<times> room_state" where
  "restore_owners_from_sessions now rows s =
     (if \<not> is_finite now then (Inl Invalid_Restore_Time, s)
      else
        (case collect_candidates (fin_val now) rows [] {} of
           Inl x \<Rightarrow> (Inl (Escaped x), s)
         | Inr (cs, blocked) \<Rightarrow>
             let (n, s') = restore_rooms (fin_val now) cs blocked 0
                   (s\<lparr>room_owner_user_ids := Map.empty, room_owner_until := Map.empty\<rparr>)
             in (Inr n, s')))"

section \<open>Facts about owners and speakers\<close>

lemma no_room_Some [simp]: "no_room (Some k) \<longleftrightarrow> k = []"
  by (simp add: no_room_def)

lemma prune_fst: "k \<noteq> [] \<Longrightarrow> fst (prune (Some k) now s) =
  filter (\<lambda>p. now - last_packet_at (snd p) \<le> 5/2)
    (case recent_speaker_stats s k of None \<Rightarrow> [] | Some l \<Rightarrow> l)"
  by (simp add: prune_def Let_def)

lemma prune_owner [simp]:
  "room_owner_user_ids (snd (prune r now s)) = room_owner_user_ids s"
  "room_owner_until (snd (prune r now s)) = room_owner_until s"
  by (simp_all add: prune_def Let_def)

lemma until_prune [simp]: "until_of (snd (prune r now s)) k = until_of s k"
  by (simp add: until_of_def)

text \<open>\<open>scored.sort(reverse=True); scored[0]\<close> is a greatest element.\<close>

lemma hd_rev_sort:
  fixes xs :: "'a::linorder list"
  assumes "xs \<noteq> []"
  shows "hd (rev (sort xs)) \<in> set xs \<and> (\<forall>x \<in> set xs. x \<le> hd (rev (sort xs)))"
proof -
  have ne: "sort xs \<noteq> []" using assms by (metis set_empty set_sort)
  have "last (sort xs) \<in> set xs" using last_in_set [OF ne] by simp
  moreover have "x \<le> last (sort xs)" if "x \<in> set xs" for x
  proof -
    from that have "x \<in> set (sort xs)" by simp
    then obtain i where i: "i < length (sort xs)" "sort xs ! i = x" by (metis in_set_conv_nth)
    then have "sort xs ! i \<le> sort xs ! (length (sort xs) - 1)"
      by (intro sorted_nth_mono) auto
    with i ne show ?thesis by (simp add: last_conv_nth)
  qed
  ultimately show ?thesis using ne by (simp add: hd_rev)
qed

definition recently_heard :: "room_state \<Rightarrow> string \<Rightarrow> real \<Rightarrow> int \<Rightarrow> speaker_stat \<Rightarrow> bool" where
  "recently_heard s k now u d \<longleftrightarrow>
     (\<exists>l. recent_speaker_stats s k = Some l \<and> (u, d) \<in> set l) \<and> now - last_packet_at d \<le> 5/2"

lemma heard_iff: "k \<noteq> [] \<Longrightarrow> (u, d) \<in> set (fst (prune (Some k) now s)) \<longleftrightarrow> recently_heard s k now u d"
  by (cases "recent_speaker_stats s k") (auto simp: prune_fst recently_heard_def)

text \<open>
  The chosen speaker was heard within 2.5 seconds; an owner whose lease is running and
  who was heard within 0.5 seconds is always chosen; otherwise no recently heard speaker
  scores higher (wake priority, then voiced time, then loudness, then recency, then id).
  Nobody is chosen exactly when nobody was heard within 2.5 seconds.
\<close>

theorem pick_active_speaker_spec:
  assumes "k \<noteq> []" and "pick_active_speaker (Some k) now s = (r, s')"
  shows "(r = None \<longleftrightarrow> (\<forall>u d. \<not> recently_heard s k now u d)) \<and>
    (\<forall>u. r = Some u \<longrightarrow>
      (\<exists>d. recently_heard s k now u d \<and>
        (room_owner_user_ids s k = Some u \<and> until_of s k > now \<and> now - last_packet_at d \<le> 1/2 \<or>
         (\<forall>v d'. recently_heard s k now v d' \<longrightarrow> score_of (v, d') \<le> score_of (u, d)))))"
proof -
  obtain stats s1 where p: "prune (Some k) now s = (stats, s1)" by fastforce
  have heard: "(u, d) \<in> set stats \<longleftrightarrow> recently_heard s k now u d" for u d
    using heard_iff [OF assms(1), of u d now s] p by simp
  have own: "room_owner_user_ids s1 = room_owner_user_ids s" "until_of s1 k = until_of s k"
    using prune_owner [of "Some k" now s] until_prune [of "Some k" now s k] p by auto
  let ?fresh = "case room_owner_user_ids s k of None \<Rightarrow> False
     | Some u \<Rightarrow> until_of s k > now \<and>
         (case map_of stats u of None \<Rightarrow> False | Some d \<Rightarrow> now - last_packet_at d \<le> 1/2)"
  let ?best = "hd (rev (sort (map score_of stats)))"
  have r: "r = (if stats = [] then None else if ?fresh then room_owner_user_ids s k
                else Some (snd ?best))"
    using assms p own
    by (simp add: pick_active_speaker_def Let_def cong: option.case_cong split: if_splits)
  show ?thesis
  proof (cases "stats = []")
    case True
    then show ?thesis using r heard by auto
  next
    case ne: False
    then obtain u0 d0 where "(u0, d0) \<in> set stats" by (cases stats) auto
    then have some: "\<exists>u d. recently_heard s k now u d" using heard by auto
    show ?thesis
    proof (cases ?fresh)
      case True
      then show ?thesis using r ne heard some by (fastforce split: option.splits dest: map_of_SomeD)
    next
      case False
      have "?best \<in> set (map score_of stats)" "\<forall>x \<in> set (map score_of stats). x \<le> ?best"
        using hd_rev_sort [of "map score_of stats"] ne by auto
      then obtain u d where ud: "(u, d) \<in> set stats" "?best = score_of (u, d)" by auto
      then have "r = Some u" using r ne False by (simp add: score_of_def)
      moreover have "\<forall>v d'. recently_heard s k now v d' \<longrightarrow> score_of (v, d') \<le> score_of (u, d)"
        using \<open>\<forall>x \<in> set (map score_of stats). x \<le> ?best\<close> ud heard by force
      ultimately show ?thesis using ud heard some by auto
    qed
  qed
qed

definition demo_room :: room_state where
  "demo_room = \<lparr>recent_speaker_stats = [''r'' \<mapsto> [(7, empty_stat\<lparr>last_packet_at := 9, body_rms := 3\<rparr>),
       (8, empty_stat\<lparr>last_packet_at := 1\<rparr>)]], room_owner_user_ids = Map.empty,
     room_owner_until = Map.empty, room_reply_in_progress = Map.empty, room_log = []\<rparr>"

theorem pick_active_speaker_spec_witness:
  "fst (pick_active_speaker (Some ''r'') 10 demo_room) \<noteq> None"
proof -
  obtain r s' where p: "pick_active_speaker (Some ''r'') 10 demo_room = (r, s')" by fastforce
  have "recently_heard demo_room ''r'' 10 7 (empty_stat\<lparr>last_packet_at := 9, body_rms := 3\<rparr>)"
    by (simp add: recently_heard_def demo_room_def empty_stat_def)
  with pick_active_speaker_spec [OF _ p] p show ?thesis by auto
qed

text \<open>
  \<open>is_room_owner_active\<close> holds for exactly the recorded owner of a lease that has not
  run out, and the call gives up an expired lease unless a reply is in progress; no other
  room is touched.
\<close>

theorem is_room_owner_active_spec:
  assumes "k \<noteq> []" and "is_room_owner_active (Some k) (Some u) speaker now s = (b, s')"
  shows "(b \<longleftrightarrow> room_owner_user_ids s k = Some u \<and> until_of s k > now) \<and>
    (room_owner_user_ids s' k = None \<longleftrightarrow>
       room_owner_user_ids s k = None \<or> until_of s k \<le> now \<and> \<not> replying s k) \<and>
    (\<forall>k'. k' \<noteq> k \<longrightarrow> room_owner_user_ids s' k' = room_owner_user_ids s k' \<and>
       room_owner_until s' k' = room_owner_until s k')"
  using assms
  by (auto simp: is_room_owner_active_def room_state_snapshot_def clear_room_owner_def Let_def
      split: if_splits)

theorem is_room_owner_active_spec_witness:
  "fst (is_room_owner_active (Some ''r'') (Some 4) None 10
     (set_room_owner (Some ''r'') (Some 4) 5 ''wake'' 8 demo_room))"
proof -
  let ?s = "set_room_owner (Some ''r'') (Some 4) 5 ''wake'' 8 demo_room"
  obtain b s' where p: "is_room_owner_active (Some ''r'') (Some 4) None 10 ?s = (b, s')" by fastforce
  have "room_owner_user_ids ?s ''r'' = Some 4" "until_of ?s ''r'' > 10"
    by (simp_all add: set_room_owner_def until_of_def Let_def)
  with is_room_owner_active_spec [OF _ p] p show ?thesis by simp
qed

section \<open>Session keys\<close>

lemma colon_not_digit: "CHR '':'' \<notin> set (nat_str n)"
  using nat_str_digits [of "CHR '':''" n] by (auto simp: digit_char_def)

lemma canonical_nat_str: "0 < n \<Longrightarrow> canonical_id (nat_str n)"
  by (auto simp: canonical_id_def list_all_iff nat_str_digits)

definition voice_room_key :: "nat \<Rightarrow> nat \<Rightarrow> string" where
  "voice_room_key g c = ''guild:'' @ nat_str g @ '':voice:'' @ nat_str c"

definition voice_user_key :: "nat \<Rightarrow> nat \<Rightarrow> nat \<Rightarrow> string" where
  "voice_user_key g c u = voice_room_key g c @ '':user:'' @ nat_str u"

lemma split_voice_user_key:
  "split_on (CHR '':'') (voice_user_key g c u) =
     [''guild'', nat_str g, ''voice'', nat_str c, ''user'', nat_str u]"
  by (simp add: voice_user_key_def voice_room_key_def split_on_append split_on_single colon_not_digit)

lemma parse_parts_six:
  "parse_parts ps = Some x \<Longrightarrow> \<exists>p0 p1 p2 p3 p4 p5. ps = [p0, p1, p2, p3, p4, p5]"
  by (cases ps rule: parse_parts.cases) (simp_all del: parse_parts.simps(1))

text \<open>
  The parser of voice session keys accepts exactly the keys the runtime prints for a
  guild, a channel and a user with positive ids (no sign, no leading zero, no extra part),
  and gives back the room key and the user id that were printed.
\<close>

theorem voice_user_key_parse_iff:
  "parse_voice_user_session_key k = Some (room, u) \<longleftrightarrow>
     (\<exists>g c n. 0 < g \<and> 0 < c \<and> 0 < n \<and> k = voice_user_key g c n \<and>
        room = voice_room_key g c \<and> u = int n)"
proof
  assume p: "parse_voice_user_session_key k = Some (room, u)"
  then obtain p0 p1 p2 p3 p4 p5 where parts: "split_on (CHR '':'') k = [p0, p1, p2, p3, p4, p5]"
    and some: "parse_parts [p0, p1, p2, p3, p4, p5] = Some (room, u)"
    unfolding parse_voice_user_session_key_def by (metis parse_parts_six)
  from some have lits: "p0 = ''guild''" "p2 = ''voice''" "p4 = ''user''"
    and can: "canonical_id p1" "canonical_id p3" "canonical_id p5"
    and out: "room = ''guild:'' @ nat_str (nat_of_str p1) @ '':voice:'' @ nat_str (nat_of_str p3)"
      "u = int (nat_of_str p5)"
    by (auto simp: parse_parts.simps(1) simp del: list.inject append.simps split: if_split_asm)
  have "k = join_on (CHR '':'') [p0, p1, p2, p3, p4, p5]"
    using join_split [of "CHR '':''" k] parts by simp
  then have "k = voice_user_key (nat_of_str p1) (nat_of_str p3) (nat_of_str p5)"
    using can lits by (simp add: voice_user_key_def voice_room_key_def canonical_id_def)
  then show "\<exists>g c n. 0 < g \<and> 0 < c \<and> 0 < n \<and> k = voice_user_key g c n \<and>
      room = voice_room_key g c \<and> u = int n"
    using can out by (intro exI [of _ "nat_of_str p1"] exI [of _ "nat_of_str p3"]
        exI [of _ "nat_of_str p5"]) (simp add: canonical_id_def voice_room_key_def)
next
  assume "\<exists>g c n. 0 < g \<and> 0 < c \<and> 0 < n \<and> k = voice_user_key g c n \<and>
      room = voice_room_key g c \<and> u = int n"
  then show "parse_voice_user_session_key k = Some (room, u)"
    by (auto simp: parse_voice_user_session_key_def split_voice_user_key canonical_nat_str
        voice_room_key_def)
qed

section \<open>Restoring\<close>

definition good_seen :: "real \<Rightarrow> py_exn + pyfloat \<Rightarrow> bool" where
  "good_seen now seen = (case seen of Inr (Fin t) \<Rightarrow> t \<le> now | _ \<Rightarrow> False)"

definition candidate_of :: "session_row \<Rightarrow> int \<Rightarrow> candidate" where
  "candidate_of r ku = (case r of (k, seen, until, uid) \<Rightarrow>
     \<lparr>c_last = (case seen of Inr v \<Rightarrow> fin_val v | Inl _ \<Rightarrow> 0), c_user = ku,
      c_until = (case until of Inl _ \<Rightarrow> NaN | Inr v \<Rightarrow> v), c_bound = (uid = Some ku)\<rparr>)"

fun room_candidates :: "real \<Rightarrow> session_row list \<Rightarrow> string \<Rightarrow> candidate list" where
  "room_candidates now [] room = []"
| "room_candidates now (r # rows) room =
     (case parse_voice_user_session_key (fst r) of
        Some (rm, ku) \<Rightarrow>
          (if rm = room \<and> good_seen now (fst (snd r)) then [candidate_of r ku] else [])
      | None \<Rightarrow> []) @ room_candidates now rows room"

definition blocked_rooms :: "real \<Rightarrow> session_row list \<Rightarrow> string set" where
  "blocked_rooms now rows = {room. \<exists>r \<in> set rows. \<exists>u.
     parse_voice_user_session_key (fst r) = Some (room, u) \<and> \<not> good_seen now (fst (snd r))}"

lemma until_or_nan_Inr: "until_or_nan r = Inr u \<Longrightarrow> u = (case r of Inl _ \<Rightarrow> NaN | Inr v \<Rightarrow> v)"
  by (auto simp: until_or_nan_def split: sum.splits if_splits)

lemma collect_spec:
  assumes "collect_candidates now rows cs b = Inr (cs', b')"
  shows "b' = b \<union> blocked_rooms now rows \<and>
   dict_get cs' room =
     (let l = (case dict_get cs room of None \<Rightarrow> [] | Some l \<Rightarrow> l) @ room_candidates now rows room
      in if dict_get cs room = None \<and> room_candidates now rows room = [] then None else Some l) \<and>
   (distinct (map fst cs) \<longrightarrow> distinct (map fst cs'))"
  using assms
proof (induction now rows cs b rule: collect_candidates.induct)
  case (2 now k seen until uid rows cs b)
  show ?case
  proof (cases "parse_voice_user_session_key k")
    case None
    with 2 show ?thesis by (simp add: blocked_rooms_def)
  next
    case (Some p)
    obtain rm ku where p: "p = (rm, ku)" by fastforce
    have block: "blocked_rooms now ((k, seen, until, uid) # rows) =
        (if good_seen now seen then {} else {rm}) \<union> blocked_rooms now rows"
      using Some p by (auto simp: blocked_rooms_def)
    show ?thesis
    proof (cases "good_seen now seen")
      case True
      then obtain t where t: "seen = Inr (Fin t)" "t \<le> now"
        by (auto simp: good_seen_def split: sum.splits pyfloat.splits)
      obtain u where u: "until_or_nan until = Inr u"
        using "2.prems" Some p t by (cases "until_or_nan until") simp_all
      from until_or_nan_Inr [OF u] have "candidate_of (k, seen, until, uid) ku =
          \<lparr>c_last = t, c_user = ku, c_until = u, c_bound = (uid = Some ku)\<rparr>"
        using t by (simp add: candidate_of_def)
      with 2 Some p block True t u show ?thesis
        by (auto simp: Let_def split: option.splits)
    next
      case False
      then have rest: "collect_candidates now rows cs (insert rm b) = Inr (cs', b')"
        using Some p "2.prems" by (auto simp: good_seen_def split: sum.splits pyfloat.splits if_splits)
      from False have "b' = insert rm b \<union> blocked_rooms now rows \<and>
         dict_get cs' room =
           (let l = (case dict_get cs room of None \<Rightarrow> [] | Some l \<Rightarrow> l) @ room_candidates now rows room
            in if dict_get cs room = None \<and> room_candidates now rows room = [] then None else Some l) \<and>
         (distinct (map fst cs) \<longrightarrow> distinct (map fst cs'))"
        using 2 Some p rest "2.prems"
        by (auto simp: good_seen_def split: sum.splits pyfloat.splits if_splits)
      then show ?thesis using Some p block False by (auto simp: Let_def)
    qed
  qed
qed (simp add: blocked_rooms_def Let_def split: option.splits)

lemma room_candidates_filter: "room_candidates now rows room =
  map (\<lambda>r. candidate_of r (snd (the (parse_voice_user_session_key (fst r)))))
    (filter (\<lambda>r. (\<exists>u. parse_voice_user_session_key (fst r) = Some (room, u)) \<and>
       good_seen now (fst (snd r))) rows)"
  by (induction rows) (auto split: option.splits prod.splits)

lemma restore_rooms_spec:
  assumes "distinct (map fst cs)"
  shows "room_owner_user_ids (snd (restore_rooms now cs blocked n s)) room =
      (if room \<in> blocked then room_owner_user_ids s room
       else (case Option.bind (dict_get cs room) (restorable now) of
               None \<Rightarrow> room_owner_user_ids s room | Some (u, t) \<Rightarrow> Some u)) \<and>
    room_owner_until (snd (restore_rooms now cs blocked n s)) room =
      (if room \<in> blocked then room_owner_until s room
       else (case Option.bind (dict_get cs room) (restorable now) of
               None \<Rightarrow> room_owner_until s room | Some (u, t) \<Rightarrow> Some t))"
  using assms
proof (induction now cs blocked n s rule: restore_rooms.induct)
  case (2 now rm cs rest blocked n s)
  have notin: "dict_get rest rm = None" using 2(4) by (simp add: dict_get_def map_of_eq_None_iff)
  show ?case
  proof (cases "rm \<in> blocked")
    case True
    then show ?thesis using 2(1) [OF True] 2(4) by (auto simp: dict_get_def)
  next
    case False
    show ?thesis
    proof (cases "restorable now cs")
      case None
      then show ?thesis using 2(2) [OF False None] 2(4) False notin by (auto simp: dict_get_def)
    next
      case (Some p)
      obtain u t where p: "p = (u, t)" by fastforce
      show ?thesis
        using 2(3) [OF False Some [unfolded p] refl] 2(4) False notin Some p
        by (cases "room = rm") (simp_all add: dict_get_def split: option.split)
    qed
  qed
qed (simp add: dict_get_def)

lemma restored_owner:
  assumes "restore_owners_from_sessions (Fin now) rows s = (Inr n, s')"
  shows "room_owner_user_ids s' room = Some u \<and> room_owner_until s' room = Some t \<longleftrightarrow>
    room \<notin> blocked_rooms now rows \<and> restorable now (room_candidates now rows room) = Some (u, t)"
    and "room_owner_user_ids s' room = None \<longleftrightarrow> room_owner_until s' room = None"
proof -
  obtain cs b where c: "collect_candidates now rows [] {} = Inr (cs, b)"
    using assms by (auto simp: restore_owners_from_sessions_def split: sum.splits)
  have b: "b = blocked_rooms now rows" and dist: "distinct (map fst cs)"
    and get: "dict_get cs room = (if room_candidates now rows room = [] then None
                                  else Some (room_candidates now rows room))"
    using collect_spec [OF c, of room] by (simp_all add: dict_get_def)
  have s': "s' = snd (restore_rooms now cs b 0
      (s\<lparr>room_owner_user_ids := Map.empty, room_owner_until := Map.empty\<rparr>))"
    using assms c by (auto simp: restore_owners_from_sessions_def Let_def split: prod.splits)
  have empty: "restorable now [] = None" by (simp add: restorable_def newest_of_def)
  note spec = restore_rooms_spec [OF dist, of now b 0
      "s\<lparr>room_owner_user_ids := Map.empty, room_owner_until := Map.empty\<rparr>" room, folded s']
  show "room_owner_user_ids s' room = Some u \<and> room_owner_until s' room = Some t \<longleftrightarrow>
    room \<notin> blocked_rooms now rows \<and> restorable now (room_candidates now rows room) = Some (u, t)"
    using spec get b empty by (auto split: option.splits if_splits)
  show "room_owner_user_ids s' room = None \<longleftrightarrow> room_owner_until s' room = None"
    using spec by (auto split: option.splits if_splits)
qed

lemma restorable_SomeD:
  assumes "restorable now cs = Some (u, t)"
  shows "\<exists>c. newest_of cs = [c] \<and> c_bound c \<and> c_until c = Fin t \<and> now < t \<and> c_user c = u"
proof -
  obtain c where c: "newest_of cs = [c]"
    using assms unfolding restorable_def by (simp split: list.split_asm)
  show ?thesis using assms c by (cases "c_until c") (auto simp: restorable_def split: if_split_asm)
qed

lemma newest_unique:
  assumes "newest_of cs = [c]" and "c' \<in> set cs"
  shows "c \<in> set cs \<and> c_last c' \<le> c_last c \<and> (c_last c' = c_last c \<longrightarrow> c' = c)"
proof -
  have "c \<in> set (newest_of cs)" by (simp add: assms(1))
  then have c: "c \<in> set cs" "c_last c = Max (c_last ` set cs)"
    unfolding newest_of_def by simp_all
  have "c' = c" if "c_last c' = c_last c"
  proof -
    have "c' \<in> set (newest_of cs)" using that c assms(2) by (simp add: newest_of_def)
    with assms(1) show ?thesis by simp
  qed
  with c assms(2) show ?thesis by simp
qed

text \<open>A restore that raises, for a time that is not finite or a value beyond the floats, changes nothing.\<close>

lemma failed_restore_changes_nothing:
  "restore_owners_from_sessions now rows s = (Inl x, s') \<Longrightarrow> s' = s"
  by (auto simp: restore_owners_from_sessions_def Let_def split: if_splits sum.splits prod.splits)

text \<open>
  C24. Restoring owners after a restart fails closed. An owner is restored only when some row
  of the session store names the room and the user in its key and in its remembered id, was
  last active in the past and is to stay active; every other row of the room also carries a
  readable past time, and none of them ties with or is newer than the chosen one (unless it
  says the very same). The restored lease end is the row's; rooms without such a row have
  neither owner nor lease.
\<close>

theorem restored_owner_is_evidenced:
  assumes "restore_owners_from_sessions (Fin now) rows s = (Inr n, s')"
  shows "case room_owner_user_ids s' room of
      None \<Rightarrow> room_owner_until s' room = None
    | Some u \<Rightarrow> \<exists>k seen until.
        (k, Inr (Fin seen), Inr (Fin until), Some u) \<in> set rows \<and>
        parse_voice_user_session_key k = Some (room, u) \<and> seen \<le> now \<and> now < until \<and>
        room_owner_until s' room = Some until \<and>
        (\<forall>(k', seen', until', uid') \<in> set rows. \<forall>v. parse_voice_user_session_key k' = Some (room, v) \<longrightarrow>
           (\<exists>t. seen' = Inr (Fin t) \<and> (t < seen \<or> t = seen \<and> v = u \<and> uid' = Some u)))"
proof (cases "room_owner_user_ids s' room")
  case None
  then have "room_owner_until s' room = None" using restored_owner(2) [OF assms, of room] by simp
  with None show ?thesis by simp
next
  case (Some u)
  then obtain t where t: "room_owner_until s' room = Some t"
    using restored_owner(2) [OF assms, of room] by fastforce
  then have nb: "room \<notin> blocked_rooms now rows"
    and res: "restorable now (room_candidates now rows room) = Some (u, t)"
    using restored_owner(1) [OF assms, of room u t] Some by auto
  from restorable_SomeD [OF res] obtain c where c: "newest_of (room_candidates now rows room) = [c]"
    "c_bound c" "c_until c = Fin t" "now < t" "c_user c = u" by blast
  then have "c \<in> set (newest_of (room_candidates now rows room))" by simp
  then have "c \<in> set (room_candidates now rows room)" by (simp add: newest_of_def)
  then obtain k seen until uid ku where row: "(k, seen, until, uid) \<in> set rows"
    "parse_voice_user_session_key k = Some (room, ku)" "good_seen now seen"
    "c = candidate_of (k, seen, until, uid) ku"
    by (force simp: room_candidates_filter)
  then obtain sv where sv: "seen = Inr (Fin sv)" "sv \<le> now"
    by (auto simp: good_seen_def split: sum.splits pyfloat.splits)
  have c': "ku = u" "uid = Some u" "until = Inr (Fin t)" "c_last c = sv"
    using c row sv by (auto simp: candidate_of_def split: sum.splits)
  have others: "\<exists>t. seen' = Inr (Fin t) \<and> (t < sv \<or> t = sv \<and> v = u \<and> uid' = Some u)"
    if r: "(k', seen', until', uid') \<in> set rows" "parse_voice_user_session_key k' = Some (room, v)"
    for k' seen' until' uid' v
  proof -
    have good: "good_seen now seen'" using nb r by (force simp: blocked_rooms_def)
    then obtain t' where t': "seen' = Inr (Fin t')"
      by (auto simp: good_seen_def split: sum.splits pyfloat.splits)
    have "candidate_of (k', seen', until', uid') v \<in> set (room_candidates now rows room)"
      using r good by (force simp: room_candidates_filter image_iff)
    note uniq = newest_unique [OF c(1) this]
    have "c_last (candidate_of (k', seen', until', uid') v) = t'"
      "c_user (candidate_of (k', seen', until', uid') v) = v"
      "c_bound (candidate_of (k', seen', until', uid') v) = (uid' = Some v)"
      using t' by (simp_all add: candidate_of_def)
    with uniq c' c(2) c(5) have "t' < sv \<or> t' = sv \<and> v = u \<and> uid' = Some u"
      by (cases "t' = sv") auto
    with t' show ?thesis by simp
  qed
  show ?thesis using Some t row sv c' c(4) others by fastforce
qed

theorem restored_owner_is_evidenced_witness:
  "\<exists>s'. snd (restore_owners_from_sessions (Fin 10)
      [(voice_user_key 1 2 3, Inr (Fin 9), Inr (Fin 12), Some 3)] demo_room) = s' \<and>
     room_owner_until s' (voice_room_key 1 2) = Some 12"
proof -
  let ?rows = "[(voice_user_key 1 2 3, Inr (Fin 9), Inr (Fin 12), Some 3)] :: session_row list"
  have p: "parse_voice_user_session_key (voice_user_key 1 2 3) = Some (voice_room_key 1 2, 3)"
    by (simp add: parse_voice_user_session_key_def split_voice_user_key canonical_nat_str
        voice_room_key_def)
  obtain n s' where r: "restore_owners_from_sessions (Fin 10) ?rows demo_room = (Inr n, s')"
    using p by (cases "restore_owners_from_sessions (Fin 10) ?rows demo_room", rename_tac e s', case_tac e)
      (auto simp: restore_owners_from_sessions_def until_or_nan_def Let_def split: prod.split_asm)
  have own: "room_owner_user_ids s' (voice_room_key 1 2) = Some 3"
    using r p by (auto simp: restore_owners_from_sessions_def until_or_nan_def Let_def dict_get_def dict_set_def
        restorable_def newest_of_def)
  obtain k seen until where
    row: "(k, Inr (Fin seen), Inr (Fin until), Some (3::int)) \<in> set ?rows"
    and lease: "room_owner_until s' (voice_room_key 1 2) = Some until"
    using restored_owner_is_evidenced [OF r, of "voice_room_key 1 2", unfolded own option.case]
    by (elim exE conjE) (rule that)
  from row have "until = 12" by simp
  with r lease show ?thesis by (simp only: snd_conv simp_thms)
qed

end
