(* ===== verification/Voice_Lease.thy ===== *)
theory Voice_Lease
  imports Py_Prelude
begin

text \<open>
  \<open>evelyn_core/voice_input_lease.py\<close>: \<open>VoiceInputLeaseManager\<close>, the single arbiter of which
  process owns the microphone input (the local microphone or the Discord voice receiver).

  The manager's fields are the record \<open>lease_mgr\<close>, together with the file it keeps
  (\<open>disk\<close>) and a counter \<open>tick\<close> that numbers the readings of the environment \<open>lease_env\<close>:
  the clock, \<open>secrets.token_hex\<close>, whether the atomic write of the file raises and, when it
  raises, whether the new content landed nevertheless (all code of other modules or of the
  operating system). An operation returns \<open>Inl\<close> of an exception or \<open>Inr\<close> of its result, and
  the state it leaves. The order in which Python iterates over the set of the two sources is
  not fixed; nothing below depends on it.
\<close>

section \<open>Data\<close>

datatype lease_phase = Bootstrap | Unowned | Owned | Blocked

datatype lease_error =
  Voice_Lease_Error string nat
| Invalid_Observation
| Write_Failed
| Key_Error

datatype obs_state = Active | Inactive | Unknown

record observation =
  obs_state :: obs_state
  obs_instance :: string

definition hex_digit :: "char \<Rightarrow> bool" where
  "hex_digit c = (c \<in> set ''0123456789abcdef'')"

definition instance_pattern :: "string \<Rightarrow> bool" where
  "instance_pattern s \<longleftrightarrow> length s = 32 \<and> list_all hex_digit s"

definition claim_pattern :: "string \<Rightarrow> bool" where
  "claim_pattern s \<longleftrightarrow> take 13 s = ''voice-retire-'' \<and> instance_pattern (drop 13 s)"

definition voice_sources :: "string list" where
  "voice_sources = [''local_mic'', ''discord_voice'']"

definition voice_input_observation :: "string \<Rightarrow> string \<Rightarrow> lease_error + observation" where
  "voice_input_observation st i =
     (if st \<notin> {''active'', ''inactive'', ''unknown''} then Inl Invalid_Observation
      else if i \<noteq> [] \<and> \<not> instance_pattern i then Inl Invalid_Observation
      else Inr \<lparr>obs_state = (if st = ''active'' then Active else if st = ''inactive'' then Inactive
                 else Unknown), obs_instance = i\<rparr>)"

definition valid_source :: "string \<Rightarrow> lease_error + string" where
  "valid_source v =
     (let s = py_strip v
      in if s \<in> set voice_sources then Inr s
         else Inl (Voice_Lease_Error ''invalid_voice_input_source'' 400))"

definition valid_instance_id :: "string \<Rightarrow> lease_error + string" where
  "valid_instance_id v =
     (let i = py_strip v
      in if instance_pattern i then Inr i
         else Inl (Voice_Lease_Error ''invalid_voice_input_instance_id'' 400))"

definition unavailable :: lease_error where
  "unavailable = Voice_Lease_Error ''voice_input_lease_unavailable'' 503"

definition conflict :: lease_error where
  "conflict = Voice_Lease_Error ''voice_input_lease_conflict'' 409"

record retirement_claim =
  claim_source :: string
  claim_instance :: string
  claim_lease :: string
  expires_at :: real

record owner_file =
  f_state :: lease_phase
  f_source :: string
  f_instance :: string
  f_lease :: string
  f_last :: "string \<times> string \<times> string"
  f_updated :: pyfloat

record lease_mgr =
  phase :: lease_phase
  lease_source :: string
  lease_instance :: string
  lease_id :: string
  last_released :: "string \<times> string \<times> string"
  retirement_claims :: "retirement_claim dict"
  persistence_failed :: bool
  public_snapshot :: "lease_phase \<times> string"
  disk :: "owner_file option"
  tick :: nat

record lease_env =
  now_at :: "nat \<Rightarrow> pyfloat"
  token_at :: "nat \<Rightarrow> string"
  write_ok :: "nat \<Rightarrow> bool"
  landed :: "nat \<Rightarrow> bool"

section \<open>Loading the owner file\<close>

text \<open>
  What \<open>read_bounded_text\<close> and \<open>json.loads\<close> give: no file, an I/O error, something that is not
  a JSON object, or an object, of which the text values (\<open>str(payload.get(k) or "")\<close>) are kept.
\<close>

record raw_file =
  r_schema :: string
  r_state :: string
  r_source :: string
  r_instance :: string
  r_lease :: string
  r_last_source :: string
  r_last_instance :: string
  r_last_lease :: string

datatype disk_read = Read_Missing | Read_OSError | Read_Garbage | Read_Object raw_file

definition lease_schema :: string where
  "lease_schema = ''voice_input_lease.owner.v1''"

definition initial_mgr :: "owner_file option \<Rightarrow> lease_mgr" where
  "initial_mgr d = \<lparr>phase = Bootstrap, lease_source = [], lease_instance = [], lease_id = [],
     last_released = ([], [], []), retirement_claims = [], persistence_failed = False,
     public_snapshot = (Bootstrap, []), disk = d, tick = 0\<rparr>"

fun phase_of :: "string \<Rightarrow> lease_phase option" where
  "phase_of s = (if s = ''unowned'' then Some Unowned else if s = ''owned'' then Some Owned
     else if s = ''blocked'' then Some Blocked else None)"

definition blocked_mgr :: "lease_mgr \<Rightarrow> lease_mgr" where
  "blocked_mgr s = s\<lparr>phase := Blocked, lease_source := [], lease_instance := [], lease_id := [],
     public_snapshot := (Blocked, [])\<rparr>"

definition snapshot_of :: "lease_mgr \<Rightarrow> lease_phase \<times> string" where
  "snapshot_of s = (phase s, if phase s = Owned then lease_source s else [])"

definition owner_ok :: "lease_phase \<Rightarrow> raw_file \<Rightarrow> bool" where
  "owner_ok ph r =
     (if ph = Owned then
        \<not> isl (valid_source (r_source r)) \<and> \<not> isl (valid_instance_id (r_instance r)) \<and>
        instance_pattern (r_lease r)
      else r_source r = [] \<and> r_instance r = [] \<and> r_lease r = [])"

definition load :: "disk_read \<Rightarrow> lease_mgr \<Rightarrow> lease_mgr" where
  "load d s =
     (case d of
        Read_Missing \<Rightarrow> s
      | Read_OSError \<Rightarrow> (blocked_mgr s)\<lparr>persistence_failed := True\<rparr>
      | Read_Garbage \<Rightarrow> blocked_mgr s
      | Read_Object r \<Rightarrow>
          if r_schema r \<noteq> lease_schema then blocked_mgr s
          else (case phase_of (r_state r) of
              None \<Rightarrow> blocked_mgr s
            | Some ph \<Rightarrow>
                if \<not> owner_ok ph r then blocked_mgr s
                else
                  let s1 = s\<lparr>phase := ph, lease_source := r_source r, lease_instance := r_instance r,
                             lease_id := r_lease r\<rparr>
                  in if r_last_source r = [] \<and> r_last_instance r = [] \<and> r_last_lease r = []
                     then s1\<lparr>public_snapshot := snapshot_of s1\<rparr>
                     else if isl (valid_source (r_last_source r))
                        \<or> isl (valid_instance_id (r_last_instance r))
                        \<or> \<not> instance_pattern (r_last_lease r) then blocked_mgr s1
                     else let s2 = s1\<lparr>last_released :=
                                (r_last_source r, r_last_instance r, r_last_lease r)\<rparr>
                          in s2\<lparr>public_snapshot := snapshot_of s2\<rparr>))"

section \<open>Committing a state\<close>

definition payload :: "lease_env \<Rightarrow> lease_mgr \<Rightarrow> owner_file" where
  "payload e s = \<lparr>f_state = phase s, f_source = lease_source s, f_instance = lease_instance s,
     f_lease = lease_id s, f_last = last_released s, f_updated = now_at e (tick s)\<rparr>"

definition commit :: "lease_env \<Rightarrow> owner_file \<Rightarrow> (lease_mgr, lease_error, unit) prog" where
  "commit e p s =
     (if persistence_failed s then (Inl unavailable, s)
      else
        let n = tick s; s1 = s\<lparr>tick := n + 1\<rparr>
        in if \<not> write_ok e n
           then (Inl Write_Failed, s1\<lparr>persistence_failed := True, public_snapshot := (Blocked, []),
                                      disk := (if landed e n then Some p else disk s)\<rparr>)
           else
             let s2 = s1\<lparr>disk := Some p, phase := f_state p, lease_source := f_source p,
                         lease_instance := f_instance p, lease_id := f_lease p,
                         last_released := f_last p\<rparr>
             in (Inr (), s2\<lparr>public_snapshot := snapshot_of s2\<rparr>))"

definition set_unowned :: "lease_env \<Rightarrow> (lease_mgr, lease_error, unit) prog" where
  "set_unowned e s =
     commit e ((payload e s)\<lparr>f_state := Unowned, f_source := [], f_instance := [], f_lease := [],
       f_last := (if phase s = Owned then (lease_source s, lease_instance s, lease_id s)
                  else last_released s)\<rparr>) s"

definition set_owned :: "lease_env \<Rightarrow> string \<Rightarrow> string \<Rightarrow> (lease_mgr, lease_error, unit) prog" where
  "set_owned e src inst s =
     commit e ((payload e s)\<lparr>f_state := Owned, f_source := src, f_instance := inst,
       f_lease := token_at e (tick s)\<rparr>) s"

definition set_blocked :: "lease_env \<Rightarrow> (lease_mgr, lease_error, unit) prog" where
  "set_blocked e s =
     commit e ((payload e s)\<lparr>f_state := Blocked, f_source := [], f_instance := [], f_lease := []\<rparr>) s"

section \<open>Retirement\<close>

datatype retire_result = Retired | Already_Released

definition retire_exact_locked ::
  "lease_env \<Rightarrow> string \<times> string \<times> string \<Rightarrow> (lease_mgr, lease_error, retire_result) prog" where
  "retire_exact_locked e expected s =
     (if phase s = Unowned \<and> expected = last_released s then (Inr Already_Released, s)
      else if phase s \<noteq> Owned \<or> (lease_source s, lease_instance s, lease_id s) \<noteq> expected
      then (Inl (Voice_Lease_Error ''voice_input_lease_retirement_stale'' 409), s)
      else bind (set_unowned e) (\<lambda>_. ret Retired) s)"

definition valid_triple ::
  "string \<Rightarrow> string \<Rightarrow> string \<Rightarrow> lease_error + (string \<times> string \<times> string)" where
  "valid_triple src inst lid =
     (case valid_source src of Inl x \<Rightarrow> Inl x
      | Inr a \<Rightarrow> (case valid_instance_id inst of Inl x \<Rightarrow> Inl x
        | Inr b \<Rightarrow> if instance_pattern (py_strip lid) then Inr (a, b, py_strip lid)
                  else Inl (Voice_Lease_Error ''invalid_voice_input_lease_id'' 400)))"

definition retire_exact ::
  "lease_env \<Rightarrow> string \<Rightarrow> string \<Rightarrow> string \<Rightarrow> (lease_mgr, lease_error, retire_result) prog" where
  "retire_exact e src inst lid s =
     (case valid_triple src inst lid of
        Inl x \<Rightarrow> (Inl x, s)
      | Inr t \<Rightarrow> if persistence_failed s then (Inl unavailable, s) else retire_exact_locked e t s)"

definition claim_ttl :: real where "claim_ttl = 20"
definition max_claims :: nat where "max_claims = 8"

definition clock_bad :: "pyfloat \<Rightarrow> bool" where
  "clock_bad t \<longleftrightarrow> \<not> is_finite t \<or> fin_val t < 0"

datatype prepared = Not_Required | Claim string real

definition prepare_retirement :: "lease_env \<Rightarrow> string \<Rightarrow> (lease_mgr, lease_error, prepared) prog" where
  "prepare_retirement e src s =
     (case valid_source src of
        Inl x \<Rightarrow> (Inl x, s)
      | Inr a \<Rightarrow>
          if persistence_failed s then (Inl unavailable, s)
          else
            let n = tick s; s0 = s\<lparr>tick := n + 1\<rparr>; t = now_at e n
            in if clock_bad t then (Inl unavailable, s0)
               else
                 let s1 = s0\<lparr>retirement_claims :=
                       filter (\<lambda>p. expires_at (snd p) > fin_val t) (retirement_claims s)\<rparr>
                 in if phase s1 \<noteq> Owned \<or> lease_source s1 \<noteq> a then (Inr Not_Required, s1)
                    else if length (retirement_claims s1) \<ge> max_claims
                    then (Inl (Voice_Lease_Error ''voice_input_lease_retirement_unavailable'' 503), s1)
                    else
                      let cid = ''voice-retire-'' @ token_at e n; x = fin_val t + claim_ttl
                      in (Inr (Claim cid x),
                          s1\<lparr>retirement_claims := dict_set cid
                            \<lparr>claim_source = lease_source s1, claim_instance = lease_instance s1,
                             claim_lease = lease_id s1, expires_at = x\<rparr> (retirement_claims s1)\<rparr>))"

definition complete_retirement :: "lease_env \<Rightarrow> string \<Rightarrow> (lease_mgr, lease_error, retire_result) prog" where
  "complete_retirement e c s =
     (let cid = py_strip c
      in if \<not> claim_pattern cid
         then (Inl (Voice_Lease_Error ''voice_input_lease_retirement_claim_invalid'' 400), s)
         else
           let claim = dict_get (retirement_claims s) cid; t = now_at e (tick s);
               s1 = s\<lparr>retirement_claims := dict_pop cid (retirement_claims s), tick := tick s + 1\<rparr>
           in case claim of
                None \<Rightarrow> (Inl (Voice_Lease_Error ''voice_input_lease_retirement_claim_invalid'' 409), s1)
              | Some cl \<Rightarrow>
                  if clock_bad t \<or> expires_at cl \<le> fin_val t
                  then (Inl (Voice_Lease_Error ''voice_input_lease_retirement_claim_invalid'' 409), s1)
                  else retire_exact_locked e (claim_source cl, claim_instance cl, claim_lease cl) s1)"

section \<open>Observations\<close>

definition observations :: "observation dict \<Rightarrow> (string \<times> observation) list" where
  "observations os = map (\<lambda>src. (src, case dict_get os src of Some v \<Rightarrow> v
     | None \<Rightarrow> \<lparr>obs_state = Unknown, obs_instance = []\<rparr>)) voice_sources"

definition actives :: "(string \<times> observation) list \<Rightarrow> string list" where
  "actives ob = map fst (filter (\<lambda>p. obs_state (snd p) = Active) ob)"

definition all_inactive :: "(string \<times> observation) list \<Rightarrow> bool" where
  "all_inactive ob = list_all (\<lambda>p. obs_state (snd p) = Inactive) ob"

definition peers :: "string \<Rightarrow> (string \<times> observation) list \<Rightarrow> (string \<times> observation) list" where
  "peers src ob = filter (\<lambda>p. fst p \<noteq> src) ob"

definition some_state :: "obs_state \<Rightarrow> (string \<times> observation) list \<Rightarrow> bool" where
  "some_state st ob = list_ex (\<lambda>p. obs_state (snd p) = st) ob"

definition replaced_owner :: "lease_mgr \<Rightarrow> observation \<Rightarrow> bool" where
  "replaced_owner s owner \<longleftrightarrow> obs_state owner = Inactive \<and> obs_instance owner \<noteq> [] \<and>
     obs_instance owner \<noteq> lease_instance s"

definition take_active :: "lease_env \<Rightarrow> (string \<times> observation) list \<Rightarrow> (lease_mgr, lease_error, unit) prog" where
  "take_active e ob s =
     (let src = hd (actives ob);
          inst = (case dict_get ob src of Some v \<Rightarrow> obs_instance v | None \<Rightarrow> [])
      in if inst = [] then set_blocked e s else set_owned e src inst s)"

definition observe_locked :: "lease_env \<Rightarrow> observation dict \<Rightarrow> (lease_mgr, lease_error, unit) prog" where
  "observe_locked e os s =
     (let ob = observations os; act = actives ob
      in if length act > 1 then set_blocked e s
         else (case phase s of
             Blocked \<Rightarrow> if act = [] \<and> all_inactive ob then set_unowned e s else (Inr (), s)
           | Bootstrap \<Rightarrow>
               if some_state Unknown ob then (Inr (), s)
               else if act \<noteq> [] then take_active e ob s
               else set_unowned e s
           | Owned \<Rightarrow>
               (case dict_get ob (lease_source s) of
                  None \<Rightarrow> (Inl Key_Error, s)
                | Some owner \<Rightarrow>
                    if act \<noteq> [] \<and> hd act \<noteq> lease_source s then set_blocked e s
                    else if replaced_owner s owner \<and> all_inactive (peers (lease_source s) ob)
                    then set_unowned e s
                    else (Inr (), s))
           | Unowned \<Rightarrow>
               if some_state Unknown ob then (Inr (), s)
               else if act \<noteq> [] then take_active e ob s
               else (Inr (), s)))"

definition public_status :: "lease_mgr \<Rightarrow> lease_phase \<times> string" where
  "public_status s = public_snapshot s"

definition observe :: "lease_env \<Rightarrow> observation dict \<Rightarrow> (lease_mgr, lease_error, lease_phase \<times> string) prog" where
  "observe e os s =
     (if persistence_failed s then (Inr (public_status s), s)
      else (case observe_locked e os s of
              (Inl x, s1) \<Rightarrow> (Inl x, s1)
            | (Inr _, s1) \<Rightarrow> (Inr (public_status s1), s1)))"

section \<open>Acquiring and releasing\<close>

type_synonym lease_grant = "string \<times> string \<times> string"

text \<open>
  The first part of \<open>acquire\<close>: an owner that was replaced by another process of the same
  source is given up when every peer is known to be inactive.
\<close>

definition retire_replaced :: "lease_env \<Rightarrow> observation dict \<Rightarrow> (lease_mgr, lease_error, unit) prog" where
  "retire_replaced e os s =
     (if phase s \<noteq> Owned then (Inr (), s)
      else
        let ob = observations os
        in case dict_get ob (lease_source s) of
             None \<Rightarrow> (Inl Key_Error, s)
           | Some owner \<Rightarrow>
               if replaced_owner s owner \<and> some_state Unknown (peers (lease_source s) ob)
               then (Inl unavailable, s)
               else if replaced_owner s owner \<and> all_inactive (peers (lease_source s) ob)
               then observe_locked e os s
               else (Inr (), s))"

definition acquire_owned ::
  "lease_env \<Rightarrow> string \<Rightarrow> string \<Rightarrow> observation dict \<Rightarrow> (lease_mgr, lease_error, lease_grant) prog" where
  "acquire_owned e src inst os s =
     (let ob = observations os
      in if lease_source s = src \<and> lease_instance s = inst then
           if some_state Active (peers src ob) then seq_ops (set_blocked e) (throw conflict) s
           else if \<not> all_inactive (peers src ob) then (Inl unavailable, s)
           else (Inr (src, inst, lease_id s), s)
         else if some_state Active (peers (lease_source s) ob)
         then seq_ops (set_blocked e) (throw conflict) s
         else (Inl conflict, s))"

definition acquire_after_observe ::
  "lease_env \<Rightarrow> string \<Rightarrow> string \<Rightarrow> observation dict \<Rightarrow> (lease_mgr, lease_error, lease_grant) prog" where
  "acquire_after_observe e src inst os s =
     (if phase s = Blocked \<or> phase s = Bootstrap then (Inl unavailable, s)
      else if phase s = Owned then
        if lease_source s = src \<and> lease_instance s = inst then (Inr (src, inst, lease_id s), s)
        else (Inl conflict, s)
      else if \<not> all_inactive (observations os) then (Inl unavailable, s)
      else (case set_owned e src inst s of
              (Inl x, s1) \<Rightarrow> (Inl x, s1)
            | (Inr _, s1) \<Rightarrow> (Inr (src, inst, lease_id s1), s1)))"

definition acquire ::
  "lease_env \<Rightarrow> string \<Rightarrow> string \<Rightarrow> observation dict \<Rightarrow> (lease_mgr, lease_error, lease_grant) prog" where
  "acquire e src0 inst0 os s =
     (case valid_source src0 of Inl x \<Rightarrow> (Inl x, s) | Inr src \<Rightarrow>
      (case valid_instance_id inst0 of Inl x \<Rightarrow> (Inl x, s) | Inr inst \<Rightarrow>
        if persistence_failed s then (Inl unavailable, s)
        else seq_ops (retire_replaced e os)
          (\<lambda>s1. if phase s1 = Owned then acquire_owned e src inst os s1
                else seq_ops (observe_locked e os) (acquire_after_observe e src inst os) s1) s))"

definition release ::
  "lease_env \<Rightarrow> string \<Rightarrow> string \<Rightarrow> string \<Rightarrow> (lease_mgr, lease_error, unit) prog" where
  "release e src inst lid s =
     (case valid_triple src inst lid of
        Inl x \<Rightarrow> (Inl x, s)
      | Inr t \<Rightarrow>
          if persistence_failed s then (Inl unavailable, s)
          else if phase s = Unowned \<and> t = last_released s then (Inr (), s)
          else if phase s \<noteq> Owned \<or> t \<noteq> (lease_source s, lease_instance s, lease_id s)
          then (Inl (Voice_Lease_Error ''voice_input_lease_mismatch'' 409), s)
          else set_unowned e s)"

definition release_if_inactive ::
  "lease_env \<Rightarrow> string \<Rightarrow> string \<Rightarrow> observation dict \<Rightarrow> (lease_mgr, lease_error, unit) prog" where
  "release_if_inactive e src0 inst0 os s =
     (case valid_source src0 of Inl x \<Rightarrow> (Inl x, s) | Inr src \<Rightarrow>
      (case valid_instance_id inst0 of Inl x \<Rightarrow> (Inl x, s) | Inr inst \<Rightarrow>
        if persistence_failed s then (Inl unavailable, s)
        else if phase s \<noteq> Owned \<or> src \<noteq> lease_source s
        then (Inl (Voice_Lease_Error ''voice_input_lease_mismatch'' 409), s)
        else
          let ob = observations os
          in case dict_get ob src of
               None \<Rightarrow> (Inl Key_Error, s)
             | Some owner \<Rightarrow>
                 if some_state Active (peers src ob) then seq_ops (set_blocked e) (throw conflict) s
                 else if \<not> (obs_state owner = Inactive \<and> obs_instance owner = inst \<and>
                            all_inactive (peers src ob))
                 then (Inl unavailable, s)
                 else set_unowned e s))"

section \<open>Operations as events\<close>

text \<open>
  The observations that reach the manager are \<open>VoiceInputObservation\<close> values: their
  constructor has checked them, and raises before the operation starts otherwise.
\<close>

fun build_observations :: "(string \<times> string \<times> string) list \<Rightarrow> observation dict option" where
  "build_observations [] = Some []"
| "build_observations ((src, st, i) # r) =
     (case voice_input_observation st i of
        Inl _ \<Rightarrow> None
      | Inr v \<Rightarrow> map_option (dict_set src v) (build_observations r))"

datatype lease_event =
  Observe "(string \<times> string \<times> string) list"
| Acquire string string "(string \<times> string \<times> string) list"
| Release string string string
| Release_If_Inactive string string "(string \<times> string \<times> string) list"
| Retire_Exact string string string
| Prepare_Retirement string
| Complete_Retirement string

definition with_observations ::
  "(string \<times> string \<times> string) list \<Rightarrow> (observation dict \<Rightarrow> lease_mgr \<Rightarrow> lease_mgr) \<Rightarrow> lease_mgr \<Rightarrow> lease_mgr" where
  "with_observations r f s = (case build_observations r of None \<Rightarrow> s | Some os \<Rightarrow> f os s)"

fun lease_step :: "lease_env \<Rightarrow> lease_mgr \<Rightarrow> lease_event \<Rightarrow> lease_mgr" where
  "lease_step e s (Observe r) = with_observations r (\<lambda>os s. snd (observe e os s)) s"
| "lease_step e s (Acquire a b r) = with_observations r (\<lambda>os s. snd (acquire e a b os s)) s"
| "lease_step e s (Release a b c) = snd (release e a b c s)"
| "lease_step e s (Release_If_Inactive a b r) =
     with_observations r (\<lambda>os s. snd (release_if_inactive e a b os s)) s"
| "lease_step e s (Retire_Exact a b c) = snd (retire_exact e a b c s)"
| "lease_step e s (Prepare_Retirement a) = snd (prepare_retirement e a s)"
| "lease_step e s (Complete_Retirement c) = snd (complete_retirement e c s)"

section \<open>Well-formed states\<close>

definition triple_ok :: "string \<times> string \<times> string \<Rightarrow> bool" where
  "triple_ok t = (case t of (a, b, c) \<Rightarrow>
     a \<in> set voice_sources \<and> instance_pattern b \<and> instance_pattern c)"

definition owner_triple_ok :: "lease_phase \<Rightarrow> string \<times> string \<times> string \<Rightarrow> bool" where
  "owner_triple_ok ph t = (if ph = Owned then triple_ok t else t = ([], [], []))"

definition last_ok :: "string \<times> string \<times> string \<Rightarrow> bool" where
  "last_ok t \<longleftrightarrow> t = ([], [], []) \<or> triple_ok t"

definition file_ok :: "owner_file \<Rightarrow> bool" where
  "file_ok f \<longleftrightarrow> f_state f \<noteq> Bootstrap \<and>
     owner_triple_ok (f_state f) (f_source f, f_instance f, f_lease f) \<and> last_ok (f_last f)"

definition file_matches :: "owner_file \<Rightarrow> lease_mgr \<Rightarrow> bool" where
  "file_matches f s \<longleftrightarrow> f_state f = phase s \<and> f_source f = lease_source s \<and>
     f_instance f = lease_instance s \<and> f_lease f = lease_id s \<and> f_last f = last_released s"

definition claim_ok :: "string \<times> retirement_claim \<Rightarrow> bool" where
  "claim_ok p \<longleftrightarrow> claim_pattern (fst p) \<and>
     triple_ok (claim_source (snd p), claim_instance (snd p), claim_lease (snd p))"

definition claims_ok :: "retirement_claim dict \<Rightarrow> bool" where
  "claims_ok cs \<longleftrightarrow> distinct (map fst cs) \<and> length cs \<le> max_claims \<and> (\<forall>p \<in> set cs. claim_ok p)"

definition core_ok :: "lease_mgr \<Rightarrow> bool" where
  "core_ok s \<longleftrightarrow> owner_triple_ok (phase s) (lease_source s, lease_instance s, lease_id s) \<and>
     last_ok (last_released s) \<and>
     public_snapshot s = (if persistence_failed s then (Blocked, []) else snapshot_of s) \<and>
     (\<forall>f. disk s = Some f \<longrightarrow> file_ok f) \<and>
     (\<not> persistence_failed s \<and> phase s \<in> {Owned, Unowned} \<and> disk s \<noteq> None \<longrightarrow>
        file_matches (the (disk s)) s)"

definition lease_ok :: "lease_mgr \<Rightarrow> bool" where
  "lease_ok s \<longleftrightarrow> core_ok s \<and> claims_ok (retirement_claims s)"

definition tokens_ok :: "lease_env \<Rightarrow> bool" where
  "tokens_ok e \<longleftrightarrow> (\<forall>n. instance_pattern (token_at e n))"

definition obs_ok :: "observation dict \<Rightarrow> bool" where
  "obs_ok os \<longleftrightarrow> (\<forall>p \<in> set os. obs_instance (snd p) = [] \<or> instance_pattern (obs_instance (snd p)))"

lemma observation_valid:
  "voice_input_observation st i = Inr v \<Longrightarrow> obs_instance v = [] \<or> instance_pattern (obs_instance v)"
  by (auto simp: voice_input_observation_def split: if_splits)

lemma set_dict_set: "set (dict_set k v d) \<subseteq> insert (k, v) (set d)"
  by (induction d) (auto simp: dict_set_def)

lemma set_dict_pop: "set (dict_pop k d) \<subseteq> set d"
  by (induction d) (auto simp: dict_pop_def)

lemma length_dict_set: "length (dict_set k v d) \<le> Suc (length d)"
  by (induction d) (auto simp: dict_set_def)

lemma length_dict_pop: "length (dict_pop k d) \<le> length d"
  by (simp add: dict_pop_def length_delete_le)

lemma build_ok: "build_observations r = Some os \<Longrightarrow> obs_ok os"
proof (induction r arbitrary: os)
  case (Cons p r)
  then obtain src st i v os' where p: "p = (src, st, i)" "voice_input_observation st i = Inr v"
    "build_observations r = Some os'" "os = dict_set src v os'"
    by (cases p) (auto split: sum.splits)
  have "obs_ok os'" using Cons.IH p by blast
  moreover have "obs_instance v = [] \<or> instance_pattern (obs_instance v)"
    using observation_valid p by blast
  ultimately show ?case using set_dict_set [of src v os'] p unfolding obs_ok_def by fastforce
qed (simp add: obs_ok_def)

lemma observed_instance:
  assumes "obs_ok os" and "dict_get (observations os) src = Some v"
  shows "src \<in> set voice_sources \<and> (obs_instance v = [] \<or> instance_pattern (obs_instance v))"
proof -
  have "(src, v) \<in> set (observations os)" using assms(2) by (rule dict_get_mem)
  then have "src \<in> set voice_sources" and
    "obs_instance v = [] \<or> dict_get os src = Some v"
    by (auto simp: observations_def split: option.splits)
  then show ?thesis using assms(1) dict_get_mem [of os src v] unfolding obs_ok_def by force
qed

lemma observed_source [simp]:
  "src \<in> set voice_sources \<Longrightarrow> dict_get (observations os) src =
     Some (case dict_get os src of Some v \<Rightarrow> v | None \<Rightarrow> \<lparr>obs_state = Unknown, obs_instance = []\<rparr>)"
  by (auto simp: observations_def voice_sources_def dict_simps)

lemma actives_sources: "src \<in> set (actives (observations os)) \<Longrightarrow> src \<in> set voice_sources"
  by (auto simp: actives_def observations_def)

lemma valid_source_ok: "valid_source v = Inr a \<Longrightarrow> a \<in> set voice_sources"
  by (auto simp: valid_source_def Let_def split: if_splits)

lemma valid_instance_ok: "valid_instance_id v = Inr i \<Longrightarrow> instance_pattern i"
  by (auto simp: valid_instance_id_def Let_def split: if_splits)

lemma valid_triple_ok: "valid_triple a b c = Inr t \<Longrightarrow> triple_ok t"
  by (auto simp: valid_triple_def triple_ok_def split: sum.splits if_splits
      dest: valid_source_ok valid_instance_ok)

section \<open>Stable properties of the manager\<close>

text \<open>
  A property that the three ways of committing a state and the changes of the claims preserve
  is preserved by every operation.
\<close>

locale lease_stable =
  fixes e :: lease_env and I :: "lease_mgr \<Rightarrow> bool"
  assumes stable_unowned: "keeps I (set_unowned e)"
    and stable_blocked: "keeps I (set_blocked e)"
    and stable_owned: "src \<in> set voice_sources \<Longrightarrow> instance_pattern inst \<Longrightarrow> keeps I (set_owned e src inst)"
    and stable_tick: "I s \<Longrightarrow> I (s\<lparr>tick := n\<rparr>)"
    and stable_filter: "I s \<Longrightarrow> I (s\<lparr>retirement_claims := filter P (retirement_claims s)\<rparr>)"
    and stable_pop: "I s \<Longrightarrow> I (s\<lparr>retirement_claims := dict_pop c (retirement_claims s)\<rparr>)"
    and stable_claim: "I s \<Longrightarrow> phase s = Owned \<Longrightarrow> length (retirement_claims s) < max_claims \<Longrightarrow>
      I (s\<lparr>retirement_claims := dict_set (''voice-retire-'' @ token_at e n)
        \<lparr>claim_source = lease_source s, claim_instance = lease_instance s,
         claim_lease = lease_id s, expires_at = x\<rparr> (retirement_claims s)\<rparr>)"
begin

lemmas stable_steps = stable_unowned [THEN keepsD] stable_blocked [THEN keepsD]

lemma stable_take_active:
  assumes "obs_ok os" and "actives (observations os) \<noteq> []" and "I s"
  shows "I (snd (take_active e (observations os) s))"
proof -
  let ?src = "hd (actives (observations os))"
  have src: "?src \<in> set voice_sources" using assms(2) by (intro actives_sources [of _ os]) simp
  obtain v where v: "dict_get (observations os) ?src = Some v" using src by simp
  have "obs_instance v = [] \<or> instance_pattern (obs_instance v)"
    using observed_instance [OF assms(1) v] by blast
  then show ?thesis
    using v src assms(3) stable_steps stable_owned [THEN keepsD, of ?src "obs_instance v" s]
    by (auto simp: take_active_def Let_def simp del: observed_source)
qed

lemma stable_observe_locked: "obs_ok os \<Longrightarrow> keeps I (observe_locked e os)"
  by (auto simp: keeps_def observe_locked_def Let_def
      intro: stable_steps stable_take_active split: lease_phase.split option.split)

lemma stable_observe: "obs_ok os \<Longrightarrow> keeps I (observe e os)"
  using stable_observe_locked [of os]
  by (simp add: keeps_def observe_def case_prod_unfold split: sum.split)

lemma stable_retire_replaced: "obs_ok os \<Longrightarrow> keeps I (retire_replaced e os)"
  using stable_observe_locked [of os]
  by (auto simp: keeps_def retire_replaced_def Let_def split: option.split)

lemma stable_conflict: "I s \<Longrightarrow> I (snd (seq_ops (set_blocked e) (throw x) s))"
  by (rule keepsD [OF keeps_seq [OF stable_blocked keeps_throw]])

lemma stable_acquire_owned: "keeps I (acquire_owned e src inst os)"
  by (auto simp: keeps_def acquire_owned_def Let_def intro: stable_conflict)

lemma stable_after_observe:
  "src \<in> set voice_sources \<Longrightarrow> instance_pattern inst \<Longrightarrow> keeps I (acquire_after_observe e src inst os)"
  using stable_owned [of src inst]
  by (simp add: keeps_def acquire_after_observe_def case_prod_unfold split: sum.split)

lemma stable_acquire: "obs_ok os \<Longrightarrow> keeps I (acquire e a b os)"
  unfolding keeps_def
proof (intro allI impI)
  fix s assume os: "obs_ok os" and s: "I s"
  show "I (snd (acquire e a b os s))"
  proof (cases "valid_source a")
    case (Inr src)
    show ?thesis
    proof (cases "valid_instance_id b")
      case inst: (Inr inst)
      have "keeps I (\<lambda>s1. if phase s1 = Owned then acquire_owned e src inst os s1
                else seq_ops (observe_locked e os) (acquire_after_observe e src inst os) s1)"
        using stable_acquire_owned [of src inst os]
          keeps_seq [OF stable_observe_locked [OF os] stable_after_observe
            [OF valid_source_ok [OF Inr] valid_instance_ok [OF inst]]]
        by (simp add: keeps_def)
      from keepsD [OF keeps_seq [OF stable_retire_replaced [OF os] this] s] Inr inst s
      show ?thesis by (simp add: acquire_def)
    qed (use Inr s in \<open>simp add: acquire_def\<close>)
  qed (use s in \<open>simp add: acquire_def\<close>)
qed

lemma stable_release: "keeps I (release e a b c)"
  by (auto simp: keeps_def release_def intro: stable_steps split: sum.split)

lemma stable_release_if_inactive: "keeps I (release_if_inactive e a b os)"
  by (auto simp: keeps_def release_if_inactive_def Let_def intro: stable_steps stable_conflict
      split: sum.split option.split)

lemma stable_retire_locked: "keeps I (retire_exact_locked e t)"
  using keepsD [OF keeps_bind [OF stable_unowned keeps_ret]]
  by (auto simp: keeps_def retire_exact_locked_def)

lemma stable_retire: "keeps I (retire_exact e a b c)"
  using stable_retire_locked by (auto simp: keeps_def retire_exact_def split: sum.split)

lemma stable_prepare: "keeps I (prepare_retirement e a)"
  unfolding keeps_def
proof (intro allI impI)
  fix s assume s: "I s"
  let ?s1 = "s\<lparr>tick := Suc (tick s), retirement_claims := filter (\<lambda>p. expires_at (snd p) >
      fin_val (now_at e (tick s))) (retirement_claims s)\<rparr>"
  have s1: "I ?s1" using stable_filter [OF stable_tick [OF s]] by simp
  show "I (snd (prepare_retirement e a s))"
    using s stable_tick [OF s] s1 stable_claim [OF s1]
    by (auto simp: prepare_retirement_def Let_def split: sum.split)
qed

lemma stable_complete: "keeps I (complete_retirement e c)"
  unfolding keeps_def
proof (intro allI impI)
  fix s assume s: "I s"
  let ?s1 = "s\<lparr>retirement_claims := dict_pop (py_strip c) (retirement_claims s), tick := Suc (tick s)\<rparr>"
  have s1: "I ?s1" using stable_tick [OF stable_pop [OF s]] by simp
  show "I (snd (complete_retirement e c s))"
    using s s1 keepsD [OF stable_retire_locked s1]
    by (auto simp: complete_retirement_def Let_def split: option.split)
qed

lemma stable_step: "I s \<Longrightarrow> I (lease_step e s x)"
  using build_ok stable_observe stable_acquire stable_release stable_release_if_inactive
    stable_retire stable_prepare stable_complete
  by (cases x) (auto simp: keeps_def with_observations_def split: option.split)

end

section \<open>The invariant\<close>

lemma commit_ok: "lease_ok s \<Longrightarrow> file_ok p \<Longrightarrow> lease_ok (snd (commit e p s))"
  by (auto simp: commit_def lease_ok_def core_ok_def Let_def snapshot_of_def file_matches_def file_ok_def)

lemma owner_is_triple:
  "lease_ok s \<Longrightarrow> phase s = Owned \<Longrightarrow> triple_ok (lease_source s, lease_instance s, lease_id s)"
  by (simp add: lease_ok_def core_ok_def owner_triple_ok_def)

lemma last_released_ok: "lease_ok s \<Longrightarrow> last_ok (last_released s)"
  by (simp add: lease_ok_def core_ok_def)

lemma claims_filter: "claims_ok cs \<Longrightarrow> claims_ok (filter P cs)"
  using le_trans [OF length_filter_le [of P cs]] by (simp add: claims_ok_def distinct_map_filter)

lemma claims_pop: "claims_ok cs \<Longrightarrow> claims_ok (dict_pop c cs)"
  using length_dict_pop [of c cs] set_dict_pop [of c cs] by (auto simp: claims_ok_def)

lemma claims_add: "claims_ok cs \<Longrightarrow> claim_ok (c, v) \<Longrightarrow> length cs < max_claims \<Longrightarrow> claims_ok (dict_set c v cs)"
  using length_dict_set [of c v cs] set_dict_set [of c v cs] by (auto simp: claims_ok_def)

lemma core_ok_claims [simp]:
  "core_ok (s\<lparr>retirement_claims := cs\<rparr>) = core_ok s" "core_ok (s\<lparr>tick := n\<rparr>) = core_ok s"
  by (simp_all add: core_ok_def snapshot_of_def file_matches_def)

lemma claim_ok_new: "instance_pattern t \<Longrightarrow> triple_ok (a, b, c) \<Longrightarrow>
  claim_ok (''voice-retire-'' @ t, \<lparr>claim_source = a, claim_instance = b, claim_lease = c, expires_at = x\<rparr>)"
  by (simp add: claim_ok_def claim_pattern_def)

lemma lease_ok_claim:
  assumes "lease_ok s" "phase s = Owned" "length (retirement_claims s) < max_claims" "instance_pattern t"
  shows "lease_ok (s\<lparr>retirement_claims := dict_set (''voice-retire-'' @ t)
    \<lparr>claim_source = lease_source s, claim_instance = lease_instance s, claim_lease = lease_id s,
     expires_at = x\<rparr> (retirement_claims s)\<rparr>)"
proof -
  have "claim_ok (''voice-retire-'' @ t, \<lparr>claim_source = lease_source s,
      claim_instance = lease_instance s, claim_lease = lease_id s, expires_at = x\<rparr>)"
    using assms by (intro claim_ok_new owner_is_triple)
  from claims_add [OF _ this assms(3)] assms(1) show ?thesis by (simp only: lease_ok_def core_ok_claims) simp
qed

interpretation lease_ok: lease_stable e "\<lambda>s. tokens_ok e \<longrightarrow> lease_ok s" for e
proof (unfold_locales, goal_cases)
  case 1
  show ?case
    by (auto simp: keeps_def set_unowned_def payload_def file_ok_def owner_triple_ok_def last_ok_def
        intro!: commit_ok dest: owner_is_triple last_released_ok)
next
  case 2
  show ?case
    by (auto simp: keeps_def set_blocked_def payload_def file_ok_def owner_triple_ok_def
        intro!: commit_ok dest: last_released_ok)
next
  case (3 src inst)
  then show ?case
    by (auto simp: keeps_def set_owned_def payload_def file_ok_def owner_triple_ok_def triple_ok_def
        tokens_ok_def intro!: commit_ok dest: last_released_ok)
next
  case (7 s n x)
  then show ?case using lease_ok_claim [of s _ x] by (simp add: tokens_ok_def)
qed (auto simp: lease_ok_def claims_filter claims_pop)

interpretation lease_frozen: lease_stable e "\<lambda>s. persistence_failed s \<and> public_snapshot s = v \<and> disk s = d"
  for e v d
  by unfold_locales
    (auto simp: keeps_def set_unowned_def set_blocked_def set_owned_def commit_def)

interpretation lease: frozen_machine "lease_step e" "\<lambda>s. tokens_ok e \<longrightarrow> lease_ok s"
  persistence_failed "\<lambda>s. (public_snapshot s, disk s)" for e
  using lease_ok.stable_step lease_frozen.stable_step by unfold_locales blast+

section \<open>Start and restart\<close>

definition raw_of :: "owner_file \<Rightarrow> raw_file" where
  "raw_of f = \<lparr>r_schema = lease_schema,
     r_state = (case f_state f of Unowned \<Rightarrow> ''unowned'' | Owned \<Rightarrow> ''owned'' | Blocked \<Rightarrow> ''blocked''
                | Bootstrap \<Rightarrow> ''bootstrap''),
     r_source = f_source f, r_instance = f_instance f, r_lease = f_lease f,
     r_last_source = fst (f_last f), r_last_instance = fst (snd (f_last f)),
     r_last_lease = snd (snd (f_last f))\<rparr>"

lemma phase_of_raw: "f_state f \<noteq> Bootstrap \<Longrightarrow> phase_of (r_state (raw_of f)) = Some (f_state f)"
  by (cases "f_state f") (simp_all add: raw_of_def)

text \<open>The readings of the file that a process start can make of a file a manager has written.\<close>

definition reading_of :: "owner_file option \<Rightarrow> disk_read \<Rightarrow> bool" where
  "reading_of d r \<longleftrightarrow> r = Read_OSError \<or>
     (case d of None \<Rightarrow> r = Read_Missing \<or> r = Read_Garbage | Some f \<Rightarrow> r = Read_Object (raw_of f))"

lemma py_strip_id: "\<forall>c \<in> set s. \<not> py_space c \<Longrightarrow> py_strip s = s"
proof -
  assume *: "\<forall>c \<in> set s. \<not> py_space c"
  then have "dropWhile py_space s = s" by (cases s) auto
  moreover have "dropWhile py_space (rev s) = rev s"
    using * by (auto simp: dropWhile_eq_self_iff hd_rev)
  ultimately show ?thesis by (simp add: py_strip_def)
qed

lemma hex_not_space: "hex_digit c \<Longrightarrow> \<not> py_space c"
  by (auto simp: hex_digit_def py_space_def)

lemma strip_instance: "instance_pattern s \<Longrightarrow> py_strip s = s"
  by (rule py_strip_id) (auto simp: instance_pattern_def list_all_iff dest: hex_not_space)

lemma strip_source: "s \<in> set voice_sources \<Longrightarrow> py_strip s = s"
  by (rule py_strip_id) (auto simp: voice_sources_def py_space_def)

lemma valid_source_id: "s \<in> set voice_sources \<Longrightarrow> valid_source s = Inr s"
  by (simp add: valid_source_def strip_source Let_def)

lemma valid_instance_id_id: "instance_pattern s \<Longrightarrow> valid_instance_id s = Inr s"
  by (simp add: valid_instance_id_def strip_instance Let_def)

lemma triple_nonempty: "triple_ok (a, b, c) \<Longrightarrow> a \<noteq> [] \<and> b \<noteq> [] \<and> c \<noteq> []"
  by (auto simp: triple_ok_def voice_sources_def instance_pattern_def)

lemma load_file:
  assumes "file_ok f"
  shows "load (Read_Object (raw_of f)) (initial_mgr d) =
    (let s = (initial_mgr d)\<lparr>phase := f_state f, lease_source := f_source f,
       lease_instance := f_instance f, lease_id := f_lease f, last_released := f_last f\<rparr>
     in s\<lparr>public_snapshot := snapshot_of s\<rparr>)"
proof -
  have owner: "owner_ok (f_state f) (raw_of f)"
    using assms by (auto simp: owner_ok_def file_ok_def owner_triple_ok_def triple_ok_def raw_of_def
        valid_source_id valid_instance_id_id split: if_splits)
  have st: "f_state f \<noteq> Bootstrap" using assms by (simp add: file_ok_def)
  obtain a b c where last: "f_last f = (a, b, c)" by (cases "f_last f")
  have "last_ok (a, b, c)" using assms last by (simp add: file_ok_def)
  then show ?thesis
    using owner phase_of_raw [OF st] last triple_nonempty [of a b c]
    by (auto simp: load_def last_ok_def triple_ok_def valid_source_id valid_instance_id_id Let_def
        raw_of_def initial_mgr_def simp del: phase_of.simps)
qed

lemma load_ok:
  assumes "reading_of d r" and "\<forall>f. d = Some f \<longrightarrow> file_ok f"
  shows "lease_ok (load r (initial_mgr d))"
proof (cases d)
  case None
  then show ?thesis using assms(1)
    by (auto simp: reading_of_def load_def initial_mgr_def lease_ok_def core_ok_def claims_ok_def
        owner_triple_ok_def last_ok_def snapshot_of_def blocked_mgr_def)
next
  case (Some f)
  then have f: "file_ok f" using assms(2) by simp
  show ?thesis
  proof (cases "r = Read_OSError")
    case True
    then show ?thesis using Some f
      by (auto simp: load_def initial_mgr_def lease_ok_def core_ok_def claims_ok_def
          owner_triple_ok_def last_ok_def snapshot_of_def blocked_mgr_def)
  next
    case False
    then have "r = Read_Object (raw_of f)" using assms(1) Some by (simp add: reading_of_def)
    then show ?thesis using load_file [OF f, of d] Some f
      by (auto simp: Let_def initial_mgr_def lease_ok_def core_ok_def claims_ok_def file_ok_def
          snapshot_of_def file_matches_def)
  qed
qed

section \<open>Properties\<close>

definition demo_id :: string where
  "demo_id = replicate 32 (CHR ''a'')"

definition demo_lease_env :: lease_env where
  "demo_lease_env = \<lparr>now_at = (\<lambda>n. Fin (real n)), token_at = (\<lambda>_. demo_id), write_ok = (\<lambda>_. True),
     landed = (\<lambda>_. False)\<rparr>"

lemma demo_id_ok [simp]: "instance_pattern demo_id"
  by (simp add: demo_id_def instance_pattern_def hex_digit_def list_all_iff)

lemma demo_tokens_ok [simp]: "tokens_ok demo_lease_env"
  by (simp add: tokens_ok_def demo_lease_env_def)

definition demo_owned :: lease_mgr where
  "demo_owned = \<lparr>phase = Owned, lease_source = ''local_mic'', lease_instance = demo_id,
     lease_id = demo_id, last_released = ([], [], []), retirement_claims = [],
     persistence_failed = False, public_snapshot = (Owned, ''local_mic''), disk = None, tick = 0\<rparr>"

lemma demo_owned_ok [simp]: "lease_ok demo_owned"
  by (simp add: demo_owned_def lease_ok_def core_ok_def claims_ok_def owner_triple_ok_def
      triple_ok_def last_ok_def snapshot_of_def voice_sources_def)

text \<open>
  C18. Every state the manager can reach from a process start is well formed: it has an owner
  with a known source, a valid process and lease id exactly when its phase says so; its public
  snapshot tells the phase and the owner (and blocked after a failed write); at most eight
  retirement claims are held, with distinct well-formed ids and each for a full owner triple;
  and as long as no write failed, the file says what the memory says.
\<close>

theorem voice_lease_invariant:
  assumes "tokens_ok e" and "reading_of d r" and "\<forall>f. d = Some f \<longrightarrow> file_ok f"
  shows "lease_ok (foldl (lease_step e) (load r (initial_mgr d)) es)"
  using lease.inv_run [of e] load_ok [OF assms(2,3)] assms(1) by blast

theorem voice_lease_invariant_witness:
  "lease_ok (foldl (lease_step demo_lease_env) (load Read_Missing (initial_mgr None))
     [Observe [], Prepare_Retirement ''local_mic''])"
  by (rule voice_lease_invariant) (simp_all add: reading_of_def)

lemma inactive_peers:
  "\<not> some_state Unknown ob \<Longrightarrow> actives ob = [src] \<Longrightarrow> all_inactive (peers src ob)"
proof -
  assume u: "\<not> some_state Unknown ob" and a: "actives ob = [src]"
  have "obs_state (snd p) = Inactive" if "p \<in> set ob" "fst p \<noteq> src" for p
  proof -
    have "obs_state (snd p) \<noteq> Active"
    proof
      assume "obs_state (snd p) = Active"
      with that(1) have "fst p \<in> set (actives ob)" by (force simp: actives_def)
      with a that(2) show False by simp
    qed
    moreover have "obs_state (snd p) \<noteq> Unknown" using u that(1) by (auto simp: some_state_def list_ex_iff)
    ultimately show ?thesis by (cases "obs_state (snd p)") auto
  qed
  then show ?thesis by (auto simp: all_inactive_def peers_def list_all_iff)
qed

lemma all_inactive_peers: "all_inactive ob \<Longrightarrow> all_inactive (peers src ob)"
  by (auto simp: all_inactive_def peers_def list_all_iff)

lemma commit_Inr: "commit e p s = (Inr (), s') \<Longrightarrow>
  \<not> persistence_failed s' \<and> phase s' = f_state p \<and> lease_source s' = f_source p \<and>
  lease_instance s' = f_instance p \<and> lease_id s' = f_lease p \<and> last_released s' = f_last p \<and>
  disk s' = Some p"
  by (auto simp: commit_def Let_def split: if_splits)

lemma set_owned_Inr: "set_owned e src inst s = (Inr (), s') \<Longrightarrow>
  \<not> persistence_failed s' \<and> phase s' = Owned \<and> lease_source s' = src \<and> lease_instance s' = inst"
  unfolding set_owned_def by (drule commit_Inr) simp

lemma set_unowned_Inr: "set_unowned e s = (Inr (), s') \<Longrightarrow>
  \<not> persistence_failed s' \<and> phase s' = Unowned \<and> (phase s = Owned \<longrightarrow>
    last_released s' = (lease_source s, lease_instance s, lease_id s))"
  unfolding set_unowned_def by (drule commit_Inr) (simp add: payload_def)

lemma set_blocked_Inr: "set_blocked e s = (Inr (), s') \<Longrightarrow> phase s' = Blocked"
  unfolding set_blocked_def by (drule commit_Inr) simp

lemma observe_locked_Inr:
  assumes "observe_locked e os s = (Inr (), s')" and "\<not> persistence_failed s"
  shows "\<not> persistence_failed s' \<and> (phase s \<noteq> Owned \<and> phase s' = Owned \<longrightarrow>
    all_inactive (peers (lease_source s') (observations os)))"
proof -
  let ?ob = "observations os"
  have blocked: ?thesis if "set_blocked e s = (Inr (), s')"
    using set_blocked_Inr [OF that] that commit_Inr unfolding set_blocked_def by fastforce
  have unowned: ?thesis if "set_unowned e s = (Inr (), s')"
    using set_unowned_Inr [OF that] by auto
  have take: ?thesis if t: "take_active e ?ob s = (Inr (), s')"
    and a: "actives ?ob \<noteq> []" "\<not> length (actives ?ob) > 1" and u: "\<not> some_state Unknown ?ob"
  proof -
    obtain src where src: "actives ?ob = [src]" using a by (cases "actives ?ob") auto
    from t src consider "set_blocked e s = (Inr (), s')"
      | inst where "set_owned e src inst s = (Inr (), s')"
      by (auto simp: take_active_def Let_def split: if_splits)
    then show ?thesis
      using blocked set_owned_Inr inactive_peers [OF u src] by cases blast+
  qed
  show ?thesis
    using assms blocked unowned take unfolding observe_locked_def Let_def
    by (auto split: lease_phase.split_asm if_split_asm option.split_asm)
qed

lemma conflict_not_Inr [simp]: "seq_ops m (throw x) s \<noteq> (Inr y, s')"
  by (auto simp: seq_Inr throw_def)

lemma acquire_owned_Inr:
  "acquire_owned e src inst os s = (Inr g, s') \<Longrightarrow> s' = s \<and> g = (src, inst, lease_id s) \<and>
     lease_source s = src \<and> lease_instance s = inst \<and> all_inactive (peers src (observations os))"
  by (auto simp: acquire_owned_def Let_def split: if_splits)

lemma acquire_after_Inr:
  assumes "acquire_after_observe e src inst os s = (Inr g, s')" and "\<not> persistence_failed s"
  shows "g = (src, inst, lease_id s') \<and> phase s' = Owned \<and> lease_source s' = src \<and>
    lease_instance s' = inst \<and> \<not> persistence_failed s' \<and>
    (phase s = Owned \<and> s' = s \<or> all_inactive (observations os))"
  using assms set_owned_Inr [of e src inst s s']
  by (auto simp: acquire_after_observe_def split: if_splits prod.splits sum.splits)

lemma retire_replaced_Inr:
  "retire_replaced e os s = (Inr (), s') \<Longrightarrow> \<not> persistence_failed s \<Longrightarrow> \<not> persistence_failed s'"
  using observe_locked_Inr [of e os s s']
  by (auto simp: retire_replaced_def Let_def split: if_splits option.splits)

text \<open>
  C17. When \<open>acquire\<close> succeeds, the caller's source and process own the input with the lease id
  it returns, the other source has just been observed inactive (not merely "not active"), and
  every write of the owner file has succeeded.
\<close>

theorem acquire_is_exclusive:
  assumes "acquire e a b os s = (Inr (src, inst, lid), s')"
  shows "valid_source a = Inr src \<and> valid_instance_id b = Inr inst \<and>
    phase s' = Owned \<and> (lease_source s', lease_instance s', lease_id s') = (src, inst, lid) \<and>
    \<not> persistence_failed s' \<and>
    (\<forall>p \<in> set (observations os). fst p \<noteq> src \<longrightarrow> obs_state (snd p) = Inactive)"
proof -
  let ?ob = "observations os"
  obtain src1 inst1 where v: "valid_source a = Inr src1" "valid_instance_id b = Inr inst1"
    and nf: "\<not> persistence_failed s"
    using assms by (auto simp: acquire_def split: sum.splits if_splits)
  then obtain s1 where s1: "retire_replaced e os s = (Inr (), s1)"
    and rest: "(if phase s1 = Owned then acquire_owned e src1 inst1 os s1
       else seq_ops (observe_locked e os) (acquire_after_observe e src1 inst1 os) s1) =
       (Inr (src, inst, lid), s')"
    using assms by (auto simp: acquire_def seq_Inr)
  have nf1: "\<not> persistence_failed s1" using retire_replaced_Inr [OF s1 nf] .
  have "src = src1 \<and> inst = inst1 \<and> phase s' = Owned \<and> lid = lease_id s' \<and> lease_source s' = src \<and>
      lease_instance s' = inst \<and> \<not> persistence_failed s' \<and> all_inactive (peers src ?ob)"
  proof (cases "phase s1 = Owned")
    case True
    then show ?thesis using rest acquire_owned_Inr [of e src1 inst1 os s1] nf1 by auto
  next
    case False
    then obtain s2 where s2: "observe_locked e os s1 = (Inr (), s2)"
      and after: "acquire_after_observe e src1 inst1 os s2 = (Inr (src, inst, lid), s')"
      using rest by (auto simp: seq_Inr)
    have "\<not> persistence_failed s2" "phase s2 = Owned \<longrightarrow> all_inactive (peers (lease_source s2) ?ob)"
      using observe_locked_Inr [OF s2 nf1] False by auto
    with acquire_after_Inr [OF after] all_inactive_peers [of ?ob src1] show ?thesis by auto
  qed
  with v show ?thesis by (auto simp: all_inactive_def peers_def list_all_iff)
qed

theorem acquire_is_exclusive_witness:
  "\<exists>g s'. acquire demo_lease_env ''local_mic'' demo_id
      [(''discord_voice'', \<lparr>obs_state = Inactive, obs_instance = []\<rparr>)] demo_owned = (Inr g, s') \<and>
      phase s' = Owned"
proof -
  let ?os = "[(''discord_voice'', \<lparr>obs_state = Inactive, obs_instance = []\<rparr>)]"
  have "acquire demo_lease_env ''local_mic'' demo_id ?os demo_owned =
      (Inr (''local_mic'', demo_id, demo_id), demo_owned)"
    by (simp add: acquire_def valid_source_id valid_instance_id_id voice_sources_def seq_ops_def
        bind_def retire_replaced_def demo_owned_def observations_def dict_simps replaced_owner_def
        acquire_owned_def peers_def some_state_def all_inactive_def Let_def)
  from acquire_is_exclusive [OF this] this show ?thesis by blast
qed

text \<open>
  C19. After one failed write of the owner file the manager never writes again and never grants
  again: its public status says blocked for good, the file stays as the failed write left it,
  and \<open>acquire\<close> raises whatever is observed later.
\<close>

theorem persistence_failure_is_final:
  assumes "tokens_ok e" and "lease_ok s" and "persistence_failed s"
    and "foldl (lease_step e) s es = s'"
  shows "persistence_failed s' \<and> public_status s' = (Blocked, []) \<and> disk s' = disk s \<and>
    isl (fst (acquire e a b os s'))"
proof -
  have "persistence_failed s'" using lease.latch_run [OF assms(3), of e es] assms(4) by simp
  moreover have "(public_snapshot s', disk s') = (public_snapshot s, disk s)"
    using lease.view_run [OF assms(3), of e es] assms(4) by simp
  moreover have "public_snapshot s = (Blocked, [])"
    using assms(2,3) by (simp add: lease_ok_def core_ok_def)
  ultimately show ?thesis by (auto simp: public_status_def acquire_def split: sum.split)
qed

theorem persistence_failure_is_final_witness:
  "isl (fst (acquire demo_lease_env ''local_mic'' demo_id []
     (foldl (lease_step demo_lease_env) (load Read_OSError (initial_mgr None)) [Observe []])))"
proof -
  let ?s = "load Read_OSError (initial_mgr None)"
  have "lease_ok ?s" by (rule load_ok) (simp_all add: reading_of_def)
  moreover have "persistence_failed ?s" by (simp add: load_def)
  ultimately show ?thesis
    using persistence_failure_is_final [OF demo_tokens_ok _ _ refl, of ?s] by blast
qed

text \<open>
  A retirement claim is used at most once: whatever the first completion returns, the next
  one with the same id raises. A completion that retires the lease does so before the claim
  expired and only if the lease named in the claim is still the current one, which it then is
  no more.
\<close>

theorem retirement_claim_one_shot:
  assumes "complete_retirement e c s = (r, s')"
  shows "isl (fst (complete_retirement e' c s')) \<and>
    (r = Inr Retired \<longrightarrow> (\<exists>cl t. dict_get (retirement_claims s) (py_strip c) = Some cl \<and>
       now_at e (tick s) = Fin t \<and> t < expires_at cl \<and> phase s = Owned \<and>
       (claim_source cl, claim_instance cl, claim_lease cl) = (lease_source s, lease_instance s, lease_id s) \<and>
       phase s' = Unowned \<and>
       last_released s' = (claim_source cl, claim_instance cl, claim_lease cl)))"
proof -
  let ?s1 = "s\<lparr>retirement_claims := dict_pop (py_strip c) (retirement_claims s), tick := tick s + 1\<rparr>"
  have claims: "retirement_claims (snd (commit e p x)) = retirement_claims x" for p x
    by (simp add: commit_def Let_def)
  have claims': "retirement_claims (snd (retire_exact_locked e t x)) = retirement_claims x" for t x
    using claims [of _ x]
    by (auto simp: retire_exact_locked_def bind_def set_unowned_def ret_def split: prod.splits sum.splits)
      (metis snd_conv)+
  have pop: "claim_pattern (py_strip c) \<Longrightarrow> retirement_claims s' = retirement_claims ?s1"
    using assms claims' [of _ ?s1]
    by (auto simp: complete_retirement_def Let_def split: option.splits if_splits) (metis snd_conv)
  have "isl (fst (complete_retirement e' c s'))"
    using pop by (auto simp: complete_retirement_def Let_def)
  moreover have "r = Inr Retired \<longrightarrow> (\<exists>cl t. dict_get (retirement_claims s) (py_strip c) = Some cl \<and>
       now_at e (tick s) = Fin t \<and> t < expires_at cl \<and> phase s = Owned \<and>
       (claim_source cl, claim_instance cl, claim_lease cl) = (lease_source s, lease_instance s, lease_id s) \<and>
       phase s' = Unowned \<and>
       last_released s' = (claim_source cl, claim_instance cl, claim_lease cl))"
  proof
    assume r: "r = Inr Retired"
    then obtain cl where cl: "dict_get (retirement_claims s) (py_strip c) = Some cl"
      and time: "\<not> clock_bad (now_at e (tick s))" "fin_val (now_at e (tick s)) < expires_at cl"
      and ret: "retire_exact_locked e (claim_source cl, claim_instance cl, claim_lease cl) ?s1 = (Inr Retired, s')"
      using assms by (auto simp: complete_retirement_def Let_def split: option.splits if_splits)
    from ret have "phase s = Owned"
      "(claim_source cl, claim_instance cl, claim_lease cl) = (lease_source s, lease_instance s, lease_id s)"
      and un: "set_unowned e ?s1 = (Inr (), s')"
      by (auto simp: retire_exact_locked_def bind_Inr ret_def split: if_splits)
    with set_unowned_Inr [OF un] cl time show "\<exists>cl t. dict_get (retirement_claims s) (py_strip c) = Some cl \<and>
       now_at e (tick s) = Fin t \<and> t < expires_at cl \<and> phase s = Owned \<and>
       (claim_source cl, claim_instance cl, claim_lease cl) = (lease_source s, lease_instance s, lease_id s) \<and>
       phase s' = Unowned \<and>
       last_released s' = (claim_source cl, claim_instance cl, claim_lease cl)"
      by (cases "now_at e (tick s)") (auto simp: clock_bad_def)
  qed
  ultimately show ?thesis by blast
qed

lemma strip_claim: "instance_pattern t \<Longrightarrow> py_strip (''voice-retire-'' @ t) = ''voice-retire-'' @ t"
proof (rule py_strip_id)
  assume "instance_pattern t"
  then have "\<forall>c \<in> set t. \<not> py_space c"
    by (auto simp: instance_pattern_def list_all_iff dest: hex_not_space)
  moreover have "\<forall>c \<in> set ''voice-retire-''. \<not> py_space c" by (simp add: py_space_def)
  ultimately show "\<forall>c \<in> set (''voice-retire-'' @ t). \<not> py_space c"
    unfolding set_append by blast
qed

lemma claim_pattern_new: "instance_pattern t \<Longrightarrow> claim_pattern (''voice-retire-'' @ t)"
  by (simp add: claim_pattern_def)

lemma prepare_demo: "snd (prepare_retirement demo_lease_env ''local_mic'' demo_owned) =
  demo_owned\<lparr>retirement_claims := [(''voice-retire-'' @ demo_id, \<lparr>claim_source = ''local_mic'',
    claim_instance = demo_id, claim_lease = demo_id, expires_at = 20\<rparr>)], tick := 1\<rparr>"
  by (simp add: prepare_retirement_def valid_source_id voice_sources_def demo_owned_def
      demo_lease_env_def clock_bad_def max_claims_def claim_ttl_def dict_set_def Let_def)

theorem retirement_claim_one_shot_witness:
  "let (r, s') = complete_retirement demo_lease_env (''voice-retire-'' @ demo_id)
        (snd (prepare_retirement demo_lease_env ''local_mic'' demo_owned))
   in r = Inr Retired \<and> phase s' = Unowned \<and>
      isl (fst (complete_retirement demo_lease_env (''voice-retire-'' @ demo_id) s'))"
proof -
  let ?c = "''voice-retire-'' @ demo_id"
  let ?s = "snd (prepare_retirement demo_lease_env ''local_mic'' demo_owned)"
  obtain r s' where p: "complete_retirement demo_lease_env ?c ?s = (r, s')" by fastforce
  have "fst (complete_retirement demo_lease_env ?c ?s) = Inr Retired"
    unfolding prepare_demo complete_retirement_def Let_def strip_claim [OF demo_id_ok]
    using claim_pattern_new [OF demo_id_ok]
    by (simp add: dict_simps clock_bad_def demo_lease_env_def demo_owned_def retire_exact_locked_def
        bind_def ret_def set_unowned_def commit_def payload_def del: append.simps)
  with p have r: "r = Inr Retired" by simp
  from retirement_claim_one_shot [OF p, where e' = demo_lease_env] r have "phase s' = Unowned"
    "isl (fst (complete_retirement demo_lease_env ?c s'))" by blast+
  with p r show ?thesis by simp
qed

lemma valid_triple_id: "triple_ok (a, b, c) \<Longrightarrow> valid_triple a b c = Inr (a, b, c)"
  by (simp add: triple_ok_def valid_triple_def valid_source_id valid_instance_id_id strip_instance)

text \<open>
  With a healthy owner file and a well-formed lease triple, \<open>release\<close> succeeds exactly for
  the current lease (whose end it then writes) and for the lease that was released last, and
  it is idempotent: released once, the same call succeeds again and changes nothing.
\<close>

theorem release_exact_and_idempotent:
  assumes "triple_ok (a, b, c)" and "\<not> persistence_failed s" and "release e a b c s = (r, s')"
  shows "(r = Inr () \<longleftrightarrow> phase s = Unowned \<and> last_released s = (a, b, c) \<or>
      phase s = Owned \<and> (lease_source s, lease_instance s, lease_id s) = (a, b, c) \<and> write_ok e (tick s)) \<and>
    (r = Inr () \<longrightarrow> phase s' = Unowned \<and> last_released s' = (a, b, c) \<and>
      release e a b c s' = (Inr (), s'))"
proof -
  have rel: "release e a b c x = (if persistence_failed x then (Inl unavailable, x)
      else if phase x = Unowned \<and> (a, b, c) = last_released x then (Inr (), x)
      else if phase x \<noteq> Owned \<or> (a, b, c) \<noteq> (lease_source x, lease_instance x, lease_id x)
      then (Inl (Voice_Lease_Error ''voice_input_lease_mismatch'' 409), x)
      else set_unowned e x)" for x
    by (simp add: release_def valid_triple_id [OF assms(1)])
  have un: "fst (set_unowned e s) = Inr () \<longleftrightarrow> write_ok e (tick s)"
    using assms(2) by (simp add: set_unowned_def commit_def Let_def)
  show ?thesis
  proof (cases "phase s = Owned \<and> (lease_source s, lease_instance s, lease_id s) = (a, b, c)")
    case True
    then have su: "set_unowned e s = (r, s')" using assms(2,3) rel [of s] by auto
    then have "r = Inr () \<longleftrightarrow> write_ok e (tick s)" using un by simp
    then show ?thesis using set_unowned_Inr [of e s s'] su True rel [of s'] by auto
  next
    case False
    then show ?thesis using assms(2,3) rel [of s] rel [of s'] by (auto split: if_splits)
  qed
qed

theorem release_exact_and_idempotent_witness:
  "fst (release demo_lease_env ''local_mic'' demo_id demo_id demo_owned) = Inr ()"
proof -
  obtain r s' where p: "release demo_lease_env ''local_mic'' demo_id demo_id demo_owned = (r, s')"
    by fastforce
  have t: "triple_ok (''local_mic'', demo_id, demo_id)" by (simp add: triple_ok_def voice_sources_def)
  have nf: "\<not> persistence_failed demo_owned" by (simp add: demo_owned_def)
  have "phase demo_owned = Owned \<and> write_ok demo_lease_env (tick demo_owned) \<and>
      (lease_source demo_owned, lease_instance demo_owned, lease_id demo_owned) =
      (''local_mic'', demo_id, demo_id)"
    by (simp add: demo_owned_def demo_lease_env_def)
  with release_exact_and_idempotent [OF t nf p] p show ?thesis by simp
qed

text \<open>
  A restart restores the committed owner. Reading back the file of any well-formed manager
  whose writes have all succeeded gives the same phase, owner, lease id and last release, with
  a well-formed state that can write again; the retirement claims are gone.
\<close>

theorem restart_restores_owner:
  assumes "lease_ok s" and "\<not> persistence_failed s" and "phase s \<in> {Owned, Unowned}" and "disk s = Some f"
    and "load (Read_Object (raw_of f)) (initial_mgr (Some f)) = s'"
  shows "phase s' = phase s \<and> lease_source s' = lease_source s \<and> lease_instance s' = lease_instance s \<and>
    lease_id s' = lease_id s \<and> last_released s' = last_released s \<and> public_status s' = public_status s \<and>
    lease_ok s' \<and> \<not> persistence_failed s' \<and> retirement_claims s' = []"
proof -
  have f: "file_ok f" and m: "file_matches f s" and snap: "public_snapshot s = snapshot_of s"
    using assms(1-4) by (auto simp: lease_ok_def core_ok_def)
  have "lease_ok s'" using load_ok [of "Some f" "Read_Object (raw_of f)"] f assms(5)
    by (simp add: reading_of_def)
  moreover have s': "s' = (let s = (initial_mgr (Some f))\<lparr>phase := f_state f, lease_source := f_source f,
       lease_instance := f_instance f, lease_id := f_lease f, last_released := f_last f\<rparr>
     in s\<lparr>public_snapshot := snapshot_of s\<rparr>)"
    using load_file [OF f] assms(5) by simp
  ultimately show ?thesis using m snap
    by (simp add: file_matches_def public_status_def snapshot_of_def initial_mgr_def)
qed

theorem restart_restores_owner_witness:
  "\<exists>f. disk (snd (set_unowned demo_lease_env demo_owned)) = Some f \<and>
     last_released (load (Read_Object (raw_of f)) (initial_mgr (Some f))) = (''local_mic'', demo_id, demo_id)"
proof -
  let ?s = "snd (set_unowned demo_lease_env demo_owned)"
  have ok: "lease_ok ?s"
    using lease_ok.stable_unowned [of demo_lease_env] by (simp add: keeps_def)
  have vals: "\<not> persistence_failed ?s" "phase ?s \<in> {Owned, Unowned}"
    "last_released ?s = (''local_mic'', demo_id, demo_id)"
    by (simp_all add: set_unowned_def commit_def demo_owned_def demo_lease_env_def payload_def)
  obtain f where f: "disk ?s = Some f"
    by (simp add: set_unowned_def commit_def demo_owned_def demo_lease_env_def payload_def)
  from restart_restores_owner [OF ok vals(1,2) f refl] vals(3) f show ?thesis by auto
qed

text \<open>
  \<open>_load\<close> checks the source of an owned file after stripping it but keeps it unstripped:
  with a padded source the manager starts as owned, and every observation of an idle machine
  raises \<open>KeyError\<close>, so neither \<open>observe\<close> nor \<open>acquire\<close> can ever change the owner.
\<close>

theorem padded_source_key_error:
  assumes "r_schema r = lease_schema" and "r_state r = ''owned''"
    and "valid_source (r_source r) = Inr src" and "r_source r \<notin> set voice_sources"
    and "instance_pattern (r_instance r)" and "instance_pattern (r_lease r)"
    and "r_last_source r = [] \<and> r_last_instance r = [] \<and> r_last_lease r = []"
    and "length (actives (observations os)) \<le> 1"
    and "valid_instance_id b = Inr inst"
    and "load (Read_Object r) (initial_mgr d) = s"
  shows "phase s = Owned \<and> observe e os s = (Inl Key_Error, s) \<and>
    acquire e (r_source r) b os s = (Inl Key_Error, s)"
proof -
  have s: "phase s = Owned" "lease_source s = r_source r" "\<not> persistence_failed s"
    using assms(1-3,5-7,10)
    by (auto simp: load_def owner_ok_def valid_instance_id_id Let_def initial_mgr_def)
  have none: "dict_get (observations os) (r_source r) = None"
    using assms(4) by (auto simp: dict_get_def observations_def map_of_eq_None_iff)
  show ?thesis using s none assms(3,8,9)
    by (simp add: observe_def observe_locked_def acquire_def seq_ops_def bind_def retire_replaced_def Let_def)
qed

theorem padded_source_key_error_witness:
  "let r = \<lparr>r_schema = lease_schema, r_state = ''owned'', r_source = '' local_mic'',
       r_instance = demo_id, r_lease = demo_id, r_last_source = [], r_last_instance = [], r_last_lease = []\<rparr>
   in observe demo_lease_env [] (load (Read_Object r) (initial_mgr None)) =
      (Inl Key_Error, load (Read_Object r) (initial_mgr None))"
proof -
  let ?r = "\<lparr>r_schema = lease_schema, r_state = ''owned'', r_source = '' local_mic'',
       r_instance = demo_id, r_lease = demo_id, r_last_source = [], r_last_instance = [], r_last_lease = []\<rparr>"
  have "valid_source (r_source ?r) = Inr ''local_mic''"
    by (simp add: valid_source_def py_strip_def py_space_def voice_sources_def Let_def)
  moreover have "r_source ?r \<notin> set voice_sources" by (simp add: voice_sources_def)
  moreover have "length (actives (observations [])) \<le> 1"
    by (simp add: actives_def observations_def voice_sources_def)
  ultimately have "observe demo_lease_env [] (load (Read_Object ?r) (initial_mgr None)) =
      (Inl Key_Error, load (Read_Object ?r) (initial_mgr None))"
    using padded_source_key_error [of ?r "''local_mic''" "[]" demo_id demo_id None
        "load (Read_Object ?r) (initial_mgr None)" demo_lease_env]
    by (simp add: valid_instance_id_id)
  then show ?thesis by (simp only: Let_def)
qed

end
