(* ===== verification/Autonomy_Auth.thy ===== *)
theory Autonomy_Auth
  imports Py_Prelude "HOL-Library.List_Lexorder" "HOL-Library.Char_ord"
begin

text \<open>
  \<open>evelyn_core/autonomy_authorization.py\<close> (\<open>AutonomyAuthorizationManager\<close>: short-lived grants
  that let Evelyn act on her own, with an audit log that must be writable) and
  \<open>evelyn_core/autonomy_outcome_evidence.py\<close> (which evidence code proves which action).

  The record \<open>auth_mgr\<close> holds the manager's fields, the audit events whose append and
  \<open>fsync\<close> returned (\<open>audit_log\<close>), the status file, and a counter \<open>tick\<close> that numbers the
  readings of the environment \<open>auth_env\<close>: the two clocks, the random ids, and whether an
  append of the audit file or a write of the status file raises \<open>OSError\<close>. Arguments have the
  types of their annotations (an \<open>int\<close> guild id, texts, a float or None as the duration).
\<close>

section \<open>Actions and evidence\<close>

definition assistant_actions :: "string list" where
  "assistant_actions =
     [''assistant:check_status'', ''assistant:refresh_cognitive_state'',
      ''assistant:summarize_notifications'', ''assistant:summarize_recent_context'',
      ''assistant:send_followup'', ''assistant:maybe_ping_user'', ''assistant:idle'']"

definition minecraft_actions :: "string list" where
  "minecraft_actions =
     [''minecraft:retreat'', ''minecraft:heal_or_regroup'', ''minecraft:find_food_source'',
      ''minecraft:consume_food'', ''minecraft:gather_logs'', ''minecraft:craft_basic_tools'',
      ''minecraft:gather_basic_resources'', ''minecraft:equip_shield'', ''minecraft:eat_if_low'',
      ''minecraft:avoid_hazard'', ''minecraft:exploration_guard'',
      ''minecraft:explore_interesting_block'', ''minecraft:enter_cave'', ''minecraft:exit_cave'',
      ''minecraft:navigate_stairs'', ''minecraft:place_block_nearby'', ''minecraft:generated_skill'',
      ''minecraft:melee_attack'', ''minecraft:craft_stone_tools'', ''minecraft:craft_furnace'',
      ''minecraft:smelt_iron_ingot'', ''minecraft:craft_torch'', ''minecraft:craft_chest'',
      ''minecraft:cook_food'']"

definition supported_actions :: "string list" where
  "supported_actions = assistant_actions @ minecraft_actions"

definition allowed_sources :: "string list" where
  "allowed_sources = [''discord_command'', ''control_page'', ''local_operator'', ''test'']"

definition allowed_reason_codes :: "string list" where
  "allowed_reason_codes =
     [''explicit_autonomy_start'', ''explicit_autonomy_stop'', ''grant_replaced'', ''grant_expired'',
      ''process_restart'', ''start_failed'', ''manual_revoke'', ''action_authorized'',
      ''action_denied'', ''action_outcome'']"

definition allowed_outcome_statuses :: "string list" where
  "allowed_outcome_statuses =
     [''ok'', ''done'', ''completed'', ''blocked'', ''failed'', ''unknown'', ''unverified'']"

definition success_statuses :: "string list" where
  "success_statuses = [''ok'', ''done'', ''completed'']"

definition assistant_evidence :: "string list dict" where
  "assistant_evidence =
     [(''assistant:check_status'', [''status_snapshot_built'']),
      (''assistant:refresh_cognitive_state'', [''cognitive_state_updated'']),
      (''assistant:summarize_notifications'', [''summary_payload_built'']),
      (''assistant:summarize_recent_context'', [''recent_context_payload_built'']),
      (''assistant:send_followup'', [''discord_send_completed'']),
      (''assistant:maybe_ping_user'', [''discord_send_completed'', ''proactive_gate_completed'']),
      (''assistant:idle'', [''no_side_effect_required''])]"

definition skip_evidence :: "string dict" where
  "skip_evidence =
     [(''minecraft:equip_shield'', ''inventory_absence_verified''),
      (''minecraft:avoid_hazard'', ''hazard_absence_verified''),
      (''minecraft:retreat'', ''hostile_absence_verified''),
      (''minecraft:melee_attack'', ''target_absence_verified''),
      (''minecraft:eat_if_low'', ''food_absence_verified''),
      (''minecraft:consume_food'', ''food_absence_verified''),
      (''minecraft:heal_or_regroup'', ''food_absence_verified'')]"

definition completed_code :: "string \<Rightarrow> string" where
  "completed_code a = map (\<lambda>c. if c = CHR '':'' then CHR ''_'' else c) a @ ''_completed''"

definition action_evidence_codes :: "string \<Rightarrow> string list" where
  "action_evidence_codes a =
     (if a \<in> set minecraft_actions
      then completed_code a # (case dict_get skip_evidence a of None \<Rightarrow> [] | Some c \<Rightarrow> [c])
      else (case dict_get assistant_evidence a of None \<Rightarrow> [] | Some cs \<Rightarrow> cs))"

definition expected_evidence_codes :: "string \<Rightarrow> string list" where
  "expected_evidence_codes a = action_evidence_codes (py_strip a)"

definition lower_char :: "char \<Rightarrow> char" where
  "lower_char c = (let n = (of_char c :: nat) in
     if (65 \<le> n \<and> n \<le> 90) \<or> (192 \<le> n \<and> n \<le> 222 \<and> n \<noteq> 215) then char_of (n + 32) else c)"

text \<open>The keys of a result dictionary that are read; absent texts read as the empty text.\<close>

record outcome_result =
  res_status :: string
  res_verified :: bool
  res_evidence :: string
  res_grant_id :: string
  res_run_id :: string

definition norm_status :: "outcome_result \<Rightarrow> string" where
  "norm_status r = map lower_char (py_strip (res_status r))"

definition outcome_verified :: "string \<Rightarrow> outcome_result \<Rightarrow> bool" where
  "outcome_verified a r \<longleftrightarrow> norm_status r \<in> set success_statuses \<and> res_verified r \<and>
     py_strip (res_evidence r) \<in> set (expected_evidence_codes a)"

section \<open>Sanitizers\<close>

definition identifier_char :: "char \<Rightarrow> bool" where
  "identifier_char c =
     (c \<in> set ''abcdefghijklmnopqrstuvwxyzABCDEFGHIJKLMNOPQRSTUVWXYZ0123456789:_-.'')"

definition safe_identifier :: "string \<Rightarrow> string" where
  "safe_identifier v =
     (let t = py_strip v in if t = [] \<or> \<not> list_all identifier_char t then [] else take 80 t)"

definition safe_reason_code :: "string \<Rightarrow> string \<Rightarrow> string" where
  "safe_reason_code v fallback =
     (let c = safe_identifier v in if c \<in> set allowed_reason_codes then c else fallback)"

definition safe_source :: "string \<Rightarrow> string" where
  "safe_source v = (let c = safe_identifier v in if c \<in> set allowed_sources then c else [])"

definition safe_guild_id :: "int \<Rightarrow> int option" where
  "safe_guild_id g = (if g \<ge> 0 then Some g else None)"

definition safe_scopes :: "string list \<Rightarrow> string list" where
  "safe_scopes scopes =
     sort (remdups (filter (\<lambda>s. s \<in> set supported_actions) (map py_strip scopes)))"

definition finite_float :: "pyfloat \<Rightarrow> real \<Rightarrow> real" where
  "finite_float v d = (if is_finite v then fin_val v else d)"

section \<open>State\<close>

record auth_grant =
  grant_id :: string
  grant_guild :: int
  issuer_ref :: string
  grant_source :: string
  grant_scopes :: "string list"
  issued_at :: real
  expires_at :: real
  issued_monotonic :: real
  expires_monotonic :: real

datatype auth_state = Not_Initialized | Authorization_Required | Ready | Audit_Unavailable

record audit_event =
  ev_at :: real
  ev_name :: string
  ev_guild :: "int option"
  ev_grant :: "auth_grant option"
  ev_grant_id :: string
  ev_action :: string
  ev_reason :: string
  ev_outcome :: string
  ev_verified :: "bool option"
  ev_evidence :: string
  ev_current :: "bool option"
  ev_run :: string

record auth_status =
  st_state :: auth_state
  st_active :: "auth_grant list"
  st_decisions :: nat
  st_denied :: nat
  st_last_event :: "real option"
  st_audit_ready :: bool

record auth_mgr =
  default_ttl :: real
  max_ttl :: real
  grants :: "(int \<times> auth_grant) list"
  auth_state :: auth_state
  last_event_at :: "real option"
  decision_count :: nat
  denied_count :: nat
  audit_ready :: bool
  audit_log :: "audit_event list"
  status_file :: "auth_status option"
  tick :: nat

record auth_env =
  wall :: "nat \<Rightarrow> real"
  mono :: "nat \<Rightarrow> real"
  new_id :: "nat \<Rightarrow> string"
  audit_ok :: "nat \<Rightarrow> bool"
  status_ok :: "nat \<Rightarrow> bool"

definition min_ttl :: real where "min_ttl = 60"

definition new_auth_mgr :: "real \<Rightarrow> real \<Rightarrow> auth_mgr" where
  "new_auth_mgr d m = \<lparr>default_ttl = max min_ttl d, max_ttl = max (max min_ttl d) m, grants = [],
     auth_state = Not_Initialized, last_event_at = None, decision_count = 0, denied_count = 0,
     audit_ready = False, audit_log = [], status_file = None, tick = 0\<rparr>"

section \<open>Audit and status\<close>

definition blank_event :: audit_event where
  "blank_event = \<lparr>ev_at = 0, ev_name = [], ev_guild = None, ev_grant = None, ev_grant_id = [],
     ev_action = [], ev_reason = [], ev_outcome = [], ev_verified = None, ev_evidence = [],
     ev_current = None, ev_run = []\<rparr>"

text \<open>The argument is the event with its raw keyword values; the record is sanitized here.\<close>

definition event_record :: "real \<Rightarrow> audit_event \<Rightarrow> audit_event" where
  "event_record t v = \<lparr>ev_at = t, ev_name = safe_identifier (ev_name v), ev_guild = ev_guild v,
     ev_grant = ev_grant v,
     ev_grant_id = (case ev_grant v of Some g \<Rightarrow> grant_id g | None \<Rightarrow> safe_identifier (ev_grant_id v)),
     ev_action = (if ev_action v \<in> set supported_actions then ev_action v else []),
     ev_reason = safe_reason_code (ev_reason v) ''action_denied'',
     ev_outcome = (if ev_outcome v \<in> set allowed_outcome_statuses then ev_outcome v else []),
     ev_verified = ev_verified v, ev_evidence = safe_identifier (ev_evidence v),
     ev_current = ev_current v, ev_run = safe_identifier (ev_run v)\<rparr>"

definition append_event :: "auth_env \<Rightarrow> audit_event \<Rightarrow> auth_mgr \<Rightarrow> bool \<times> auth_mgr" where
  "append_event e v s =
     (let n = tick s; t = wall e n; s1 = s\<lparr>tick := n + 1\<rparr>
      in if audit_ok e n
         then (True, s1\<lparr>audit_log := audit_log s @ [event_record t v], last_event_at := Some t,
                        audit_ready := True\<rparr>)
         else (False, s1\<lparr>audit_ready := False\<rparr>))"

definition grant_is_active :: "auth_grant \<Rightarrow> real \<Rightarrow> real \<Rightarrow> bool" where
  "grant_is_active g now monotonic_now \<longleftrightarrow> expires_at g > now \<and> expires_monotonic g > monotonic_now"

definition status_payload :: "auth_env \<Rightarrow> auth_mgr \<Rightarrow> auth_status" where
  "status_payload e s = \<lparr>st_state = auth_state s,
     st_active = filter (\<lambda>g. grant_is_active g (wall e (tick s)) (mono e (tick s)))
       (sort_key grant_guild (map snd (grants s))),
     st_decisions = decision_count s, st_denied = denied_count s, st_last_event = last_event_at s,
     st_audit_ready = audit_ready s\<rparr>"

definition write_status :: "auth_env \<Rightarrow> auth_mgr \<Rightarrow> auth_mgr" where
  "write_status e s = s\<lparr>tick := tick s + 1,
     status_file := (if status_ok e (tick s) then Some (status_payload e s) else status_file s)\<rparr>"

definition fail_closed_for_audit :: "auth_env \<Rightarrow> auth_mgr \<Rightarrow> auth_mgr" where
  "fail_closed_for_audit e s =
     write_status e (s\<lparr>grants := [], auth_state := Audit_Unavailable, audit_ready := False\<rparr>)"

definition settle_state :: "auth_mgr \<Rightarrow> auth_mgr" where
  "settle_state s = s\<lparr>auth_state := (if grants s \<noteq> [] then Ready else Authorization_Required)\<rparr>"

definition initialize :: "auth_env \<Rightarrow> auth_mgr \<Rightarrow> auth_status \<times> auth_mgr" where
  "initialize e s =
     (let s1 = s\<lparr>grants := [], auth_state := Authorization_Required\<rparr>;
          (ok, s2) = append_event e (blank_event\<lparr>ev_name := ''process_started'',
             ev_reason := ''process_restart''\<rparr>) s1;
          s3 = write_status e (if ok then s2 else fail_closed_for_audit e s2)
      in (status_payload e s3, s3\<lparr>tick := tick s3 + 1\<rparr>))"

section \<open>Grants\<close>

fun expire_grants :: "auth_env \<Rightarrow> (int \<times> auth_grant) list \<Rightarrow> auth_mgr \<Rightarrow> bool \<times> auth_mgr" where
  "expire_grants e [] s = (True, s)"
| "expire_grants e ((gid, g) # rest) s =
     (let (ok, s1) = append_event e (blank_event\<lparr>ev_name := ''grant_expired'', ev_guild := Some gid,
             ev_grant := Some g, ev_reason := ''grant_expired''\<rparr>)
             (s\<lparr>grants := AList.delete gid (grants s)\<rparr>)
      in if ok then expire_grants e rest s1 else (False, fail_closed_for_audit e s1))"

definition prune_expired :: "auth_env \<Rightarrow> auth_mgr \<Rightarrow> bool \<times> auth_mgr" where
  "prune_expired e s =
     (let n = tick s;
          expired = filter (\<lambda>p. \<not> grant_is_active (snd p) (wall e n) (mono e n)) (grants s);
          (ok, s1) = expire_grants e expired (s\<lparr>tick := n + 1\<rparr>)
      in if \<not> ok then (False, s1)
         else (True, if expired \<noteq> [] then write_status e (settle_state s1) else s1))"

datatype auth_error =
  Guild_Invalid | Issuer_Invalid | Source_Invalid | Scope_Empty | Audit_Failed

definition effective_ttl :: "auth_mgr \<Rightarrow> pyfloat option \<Rightarrow> real" where
  "effective_ttl s ttl =
     (let requested = (case ttl of None \<Rightarrow> default_ttl s | Some t \<Rightarrow> finite_float t (default_ttl s))
      in max min_ttl (min (max_ttl s) requested))"

definition issue_grant ::
  "auth_env \<Rightarrow> int \<Rightarrow> string \<Rightarrow> string \<Rightarrow> string list \<Rightarrow> real \<Rightarrow> auth_mgr \<Rightarrow>
   (auth_error + auth_grant) \<times> auth_mgr" where
  "issue_grant e gid issuer src scopes ttl s =
     (let n = tick s;
          g = \<lparr>grant_id = new_id e n, grant_guild = gid, issuer_ref = issuer, grant_source = src,
               grant_scopes = scopes, issued_at = wall e n, expires_at = wall e n + ttl,
               issued_monotonic = mono e n, expires_monotonic = mono e n + ttl\<rparr>;
          (ok, s1) = append_event e (blank_event\<lparr>ev_name := ''grant_issued'', ev_guild := Some gid,
             ev_grant := Some g, ev_reason := ''explicit_autonomy_start''\<rparr>) (s\<lparr>tick := n + 1\<rparr>)
      in if \<not> ok then (Inl Audit_Failed, fail_closed_for_audit e s1)
         else (Inr g, write_status e
                 (s1\<lparr>grants := AList.update gid g (grants s1), auth_state := Ready\<rparr>)))"

definition grant ::
  "auth_env \<Rightarrow> int \<Rightarrow> string \<Rightarrow> string \<Rightarrow> string list \<Rightarrow> pyfloat option \<Rightarrow> auth_mgr \<Rightarrow>
   (auth_error + auth_grant) \<times> auth_mgr" where
  "grant e guild issuer source scopes ttl s =
     (case safe_guild_id guild of None \<Rightarrow> (Inl Guild_Invalid, s) | Some gid \<Rightarrow>
      if safe_identifier issuer = [] then (Inl Issuer_Invalid, s)
      else if safe_source source = [] then (Inl Source_Invalid, s)
      else if safe_scopes scopes = [] then (Inl Scope_Empty, s)
      else
        let (pruned, s1) = prune_expired e s
        in if \<not> pruned then (Inl Audit_Failed, s1)
           else
             let (ok, s2) = (case map_of (grants s1) gid of
                    None \<Rightarrow> (True, s1)
                  | Some previous \<Rightarrow> append_event e (blank_event\<lparr>ev_name := ''grant_revoked'',
                        ev_guild := Some gid, ev_grant := Some previous,
                        ev_reason := ''grant_replaced''\<rparr>) s1)
             in if \<not> ok then (Inl Audit_Failed, fail_closed_for_audit e s2)
                else issue_grant e gid (safe_identifier issuer) (safe_source source)
                       (safe_scopes scopes) (effective_ttl s ttl) s2)"

definition revoke ::
  "auth_env \<Rightarrow> int \<Rightarrow> string \<Rightarrow> auth_mgr \<Rightarrow> (auth_error + bool) \<times> auth_mgr" where
  "revoke e guild reason s =
     (case safe_guild_id guild of None \<Rightarrow> (Inl Guild_Invalid, s) | Some gid \<Rightarrow>
        (case map_of (grants s) gid of
           None \<Rightarrow> (Inr False, write_status e (settle_state s))
         | Some g \<Rightarrow>
             let (ok, s1) = append_event e (blank_event\<lparr>ev_name := ''grant_revoked'',
                    ev_guild := Some gid, ev_grant := Some g,
                    ev_reason := safe_reason_code reason ''manual_revoke''\<rparr>)
                    (s\<lparr>grants := AList.delete gid (grants s)\<rparr>)
             in if \<not> ok then (Inl Audit_Failed, fail_closed_for_audit e s1)
                else (Inr True, write_status e (settle_state s1))))"

definition authorized_actions :: "auth_env \<Rightarrow> int \<Rightarrow> auth_mgr \<Rightarrow> string list \<times> auth_mgr" where
  "authorized_actions e guild s =
     (case safe_guild_id guild of None \<Rightarrow> ([], s) | Some gid \<Rightarrow>
        let (pruned, s1) = prune_expired e s
        in if \<not> pruned then ([], s1)
           else (case map_of (grants s1) gid of None \<Rightarrow> [] | Some g \<Rightarrow> grant_scopes g, s1))"

section \<open>Decisions and outcomes\<close>

datatype auth_code =
  Authorized | Action_Unsupported | Required | Scope_Denied | Audit_Denied

record decision =
  allowed :: bool
  dec_code :: auth_code
  dec_grant :: "auth_grant option"

definition find_grant :: "int option \<Rightarrow> auth_mgr \<Rightarrow> auth_grant option" where
  "find_grant gid s = (case gid of None \<Rightarrow> None | Some g \<Rightarrow> map_of (grants s) g)"

definition decide :: "string \<Rightarrow> auth_grant option \<Rightarrow> auth_code" where
  "decide action g =
     (if action \<notin> set supported_actions then Action_Unsupported
      else (case g of None \<Rightarrow> Required
            | Some gr \<Rightarrow> if action \<notin> set (grant_scopes gr) then Scope_Denied else Authorized))"

definition audit_denied :: decision where
  "audit_denied = \<lparr>allowed = False, dec_code = Audit_Denied, dec_grant = None\<rparr>"

text \<open>The end of \<open>authorize\<close>: count the decision, audit it, and deny when it cannot be audited.\<close>

definition close_decision ::
  "auth_env \<Rightarrow> auth_code \<Rightarrow> auth_grant option \<Rightarrow> audit_event \<Rightarrow> auth_mgr \<Rightarrow> decision \<times> auth_mgr" where
  "close_decision e code g v s =
     (let ok = (code = Authorized);
          s2 = s\<lparr>decision_count := decision_count s + 1,
                 denied_count := (if ok then denied_count s else denied_count s + 1)\<rparr>;
          (audited, s3) = append_event e v s2
      in if \<not> audited
         then (audit_denied, fail_closed_for_audit e
                (if ok then s3\<lparr>denied_count := denied_count s3 + 1\<rparr> else s3))
         else (\<lparr>allowed = ok, dec_code = code, dec_grant = g\<rparr>, write_status e s3))"

definition decision_event ::
  "auth_code \<Rightarrow> int option \<Rightarrow> auth_grant option \<Rightarrow> string \<Rightarrow> string \<Rightarrow> audit_event" where
  "decision_event code gid g action run =
     (let name = (if code = Authorized then ''action_authorized'' else ''action_denied'')
      in blank_event\<lparr>ev_name := name, ev_guild := gid, ev_grant := g, ev_action := action,
           ev_reason := name, ev_run := safe_identifier run\<rparr>)"

definition authorize ::
  "auth_env \<Rightarrow> int \<Rightarrow> string \<Rightarrow> string \<Rightarrow> auth_mgr \<Rightarrow> decision \<times> auth_mgr" where
  "authorize e guild action run s =
     (let gid = safe_guild_id guild; a = py_strip action; (pruned, s1) = prune_expired e s
      in if \<not> pruned
         then (audit_denied, write_status e (s1\<lparr>decision_count := decision_count s1 + 1,
                                                denied_count := denied_count s1 + 1\<rparr>))
         else
           let g = find_grant gid s1; code = decide a g
           in close_decision e code g (decision_event code gid g a run) s1)"

record outcome_receipt =
  recorded :: bool
  verified :: bool
  authorization_current :: bool

definition no_receipt :: outcome_receipt where
  "no_receipt = \<lparr>recorded = False, verified = False, authorization_current = False\<rparr>"

definition record_outcome ::
  "auth_env \<Rightarrow> int \<Rightarrow> string \<Rightarrow> outcome_result \<Rightarrow> auth_mgr \<Rightarrow> outcome_receipt \<times> auth_mgr" where
  "record_outcome e guild action r s =
     (let gid = safe_guild_id guild; a = py_strip action; (pruned, s1) = prune_expired e s
      in if \<not> pruned then (no_receipt, s1)
         else
           let g = find_grant gid s1;
               wanted = safe_identifier (res_grant_id r);
               same = (case g of None \<Rightarrow> False | Some gr \<Rightarrow> wanted = [] \<or> grant_id gr = wanted);
               current = (same \<and> a \<in> set (grant_scopes (the g)));
               ver = (outcome_verified a r \<and> current);
               status0 = norm_status r;
               status1 = (if status0 \<in> set success_statuses \<and> \<not> ver then ''unverified'' else status0);
               code0 = py_strip (res_evidence r);
               code1 = (if code0 \<in> set (expected_evidence_codes a) then code0 else []);
               (audited, s2) = append_event e (blank_event\<lparr>ev_name := ''action_outcome'',
                  ev_guild := gid, ev_grant := (if same then g else None), ev_grant_id := wanted,
                  ev_action := a, ev_reason := ''action_outcome'',
                  ev_outcome := (if status1 \<in> set allowed_outcome_statuses then status1 else ''unknown''),
                  ev_verified := Some ver, ev_evidence := code1, ev_current := Some current,
                  ev_run := safe_identifier (res_run_id r)\<rparr>) s1
           in if \<not> audited then (no_receipt, fail_closed_for_audit e s2)
              else (\<lparr>recorded = True, verified = ver, authorization_current = current\<rparr>,
                    write_status e s2))"

definition status :: "auth_env \<Rightarrow> auth_mgr \<Rightarrow> auth_status \<times> auth_mgr" where
  "status e s =
     (let (_, s1) = prune_expired e s in (status_payload e s1, s1\<lparr>tick := tick s1 + 1\<rparr>))"

section \<open>Cleaning up\<close>

text \<open>
  \<open>cleanup_exact_targets\<close> erases the grants and the rows of the log that a predicate of the caller matches. The
  rows lie in one file per day, so that \<open>audit_log\<close> is the rows of all files in the order in which they were
  appended (those of former processes included). The record says what the outside answers: whether the paths are
  regular, and the files can be listed and every row be parsed; which file holds which row, by its number; what the
  predicate answers, by the number of the call; whether a file can be rewritten (atomically), what becomes of the status
  file, and whether all can be read again. What an append that raised may have left in a file is not followed: a
  torn row makes \<open>rows_read\<close> false.
\<close>

datatype cleanup_target = Grant_Target auth_grant | Event_Target audit_event

datatype verdict = Match | No_Match | Manual | Not_A_Verdict | Predicate_Raises

datatype save_outcome = Saved | Save_Fails | Save_Fails_After

record cleanup_env =
  paths_local :: bool
  rows_read :: bool
  row_file :: "nat \<Rightarrow> string"
  judge :: "nat \<Rightarrow> cleanup_target \<Rightarrow> verdict"
  rewrite_ok :: "string \<Rightarrow> bool"
  status_saved :: save_outcome
  rows_reread :: bool

definition rows_of_file :: "cleanup_env \<Rightarrow> (nat \<times> audit_event) list \<Rightarrow> string \<Rightarrow> (nat \<times> audit_event) list" where
  "rows_of_file c rows f = filter (\<lambda>r. row_file c (fst r) = f) rows"

definition file_names :: "cleanup_env \<Rightarrow> (nat \<times> audit_event) list \<Rightarrow> string list" where
  "file_names c rows = sort (remdups (map (\<lambda>r. row_file c (fst r)) rows))"

text \<open>The targets are judged in this order, from call \<open>k\<close> on.\<close>

definition judge_all :: "cleanup_env \<Rightarrow> nat \<Rightarrow> cleanup_target list \<Rightarrow> verdict list" where
  "judge_all c k ts = map (\<lambda>(n, t). judge c n t) (enumerate k ts)"

text \<open>The files with a matched row are rewritten one after the other, up to the first that fails; the result is the rows
  that are left and the number of those erased.\<close>

fun rewrite_files ::
  "cleanup_env \<Rightarrow> nat list \<Rightarrow> string list \<Rightarrow> (nat \<times> audit_event) list \<Rightarrow> bool \<times> (nat \<times> audit_event) list \<times> nat" where
  "rewrite_files c hit [] rows = (True, rows, 0)"
| "rewrite_files c hit (f # fs) rows =
     (let n = length (filter (\<lambda>r. fst r \<in> set hit) (rows_of_file c rows f)) in
      if n = 0 then rewrite_files c hit fs rows
      else if \<not> rewrite_ok c f then (False, rows, 0)
      else
        let (ok, rows', m) = rewrite_files c hit fs (filter (\<lambda>r. \<not> (row_file c (fst r) = f \<and> fst r \<in> set hit)) rows)
        in (ok, rows', n + m))"

text \<open>The end: count what is left, and compare the status file with the grants in memory.\<close>

definition check_cleanup ::
  "cleanup_env \<Rightarrow> nat \<Rightarrow> string list \<Rightarrow> (nat \<times> audit_event) list \<Rightarrow> auth_mgr \<Rightarrow> nat option" where
  "check_cleanup c k files rows s =
     (let vs = judge_all c k (map (\<lambda>p. Grant_Target (snd p)) (grants s) @
            map (\<lambda>r. Event_Target (snd r)) (concat (map (rows_of_file c rows) files)));
          listed = (case status_file s of None \<Rightarrow> [] | Some st \<Rightarrow> map grant_id (st_active st))
      in if \<not> rows_reread c \<or> Predicate_Raises \<in> set vs then None
         else if set listed \<noteq> set (map (\<lambda>p. grant_id (snd p)) (grants s)) then None
         else Some (count_list vs Match))"

definition save_status :: "auth_env \<Rightarrow> cleanup_env \<Rightarrow> auth_mgr \<Rightarrow> auth_mgr" where
  "save_status e c s = s\<lparr>tick := tick s + 1,
     status_file := (if status_saved c = Save_Fails then status_file s else Some (status_payload e s))\<rparr>"

definition erase_targets ::
  "auth_env \<Rightarrow> cleanup_env \<Rightarrow> verdict list \<Rightarrow> verdict list \<Rightarrow> (nat \<times> audit_event) list \<Rightarrow> string list \<Rightarrow> auth_mgr \<Rightarrow>
   (nat \<times> nat \<times> nat) \<times> auth_mgr" where
  "erase_targets e c gv ev ordered files s =
     (let k = length (gv @ ev);
          manual = count_list (gv @ ev) Manual;
          held = map fst (filter (\<lambda>(p, v). v \<noteq> Match) (zip (grants s) gv));
          hit = map (fst \<circ> fst) (filter (\<lambda>(r, v). v = Match) (zip ordered ev));
          (ok, rows, n) = rewrite_files c hit files (enumerate 0 (audit_log s));
          removed = count_list gv Match + n;
          s1 = s\<lparr>grants := held, audit_log := map snd rows\<rparr>
      in if \<not> ok then ((removed, 1, manual + 1), s1)
         else
           let s2 = save_status e c (settle_state s1) in
           if status_saved c \<noteq> Saved then ((removed, 1, manual + 1), s2)
           else (case check_cleanup c k files rows s2 of
               None \<Rightarrow> ((removed, 1, manual + 1), s2)
             | Some left_over \<Rightarrow> ((removed, left_over, manual), s2)))"

definition cleanup_exact_targets ::
  "auth_env \<Rightarrow> cleanup_env \<Rightarrow> auth_mgr \<Rightarrow> (nat \<times> nat \<times> nat) \<times> auth_mgr" where
  "cleanup_exact_targets e c s =
     (let rows = enumerate 0 (audit_log s);
          files = file_names c rows;
          ordered = concat (map (rows_of_file c rows) files);
          gv = judge_all c 0 (map (\<lambda>p. Grant_Target (snd p)) (grants s));
          ev = judge_all c (length gv) (map (\<lambda>r. Event_Target (snd r)) ordered)
      in if \<not> paths_local c \<or> \<not> rows_read c \<or> (\<exists>v \<in> set (gv @ ev). v = Not_A_Verdict \<or> v = Predicate_Raises)
         then ((0, 1, 1), s)
         else erase_targets e c gv ev ordered files s)"

section \<open>Operations as events\<close>

datatype auth_op =
  Op_Initialize
| Op_Grant int string string "string list" "pyfloat option"
| Op_Revoke int string
| Op_Actions int
| Op_Authorize int string string
| Op_Outcome int string outcome_result
| Op_Status
| Op_Cleanup cleanup_env

fun auth_step :: "auth_env \<Rightarrow> auth_mgr \<Rightarrow> auth_op \<Rightarrow> auth_mgr" where
  "auth_step e s Op_Initialize = snd (initialize e s)"
| "auth_step e s (Op_Grant g i src sc ttl) = snd (grant e g i src sc ttl s)"
| "auth_step e s (Op_Revoke g r) = snd (revoke e g r s)"
| "auth_step e s (Op_Actions g) = snd (authorized_actions e g s)"
| "auth_step e s (Op_Authorize g a r) = snd (authorize e g a r s)"
| "auth_step e s (Op_Outcome g a r) = snd (record_outcome e g a r s)"
| "auth_step e s Op_Status = snd (status e s)"
| "auth_step e s (Op_Cleanup c) = snd (cleanup_exact_targets e c s)"

section \<open>Well-formed managers\<close>

text \<open>The list \<open>gone\<close> holds the events that clean-ups erased from the log.\<close>

definition grant_ok :: "audit_event list \<Rightarrow> auth_mgr \<Rightarrow> int \<times> auth_grant \<Rightarrow> bool" where
  "grant_ok gone s p \<longleftrightarrow> (case p of (k, g) \<Rightarrow>
     grant_guild g = k \<and> 0 \<le> k \<and>
     issuer_ref g \<noteq> [] \<and> list_all identifier_char (issuer_ref g) \<and> length (issuer_ref g) \<le> 80 \<and>
     grant_source g \<in> set allowed_sources \<and>
     grant_scopes g \<noteq> [] \<and> set (grant_scopes g) \<subseteq> set supported_actions \<and>
     sorted (grant_scopes g) \<and> distinct (grant_scopes g) \<and>
     min_ttl \<le> expires_at g - issued_at g \<and> expires_at g - issued_at g \<le> max_ttl s \<and>
     expires_monotonic g - issued_monotonic g = expires_at g - issued_at g \<and>
     (\<exists>v \<in> set (audit_log s @ gone). ev_name v = ''grant_issued'' \<and> ev_grant v = Some g))"

definition auth_core :: "audit_event list \<Rightarrow> auth_mgr \<Rightarrow> bool" where
  "auth_core gone s \<longleftrightarrow> min_ttl \<le> default_ttl s \<and> default_ttl s \<le> max_ttl s \<and>
     distinct (map fst (grants s)) \<and> (\<forall>p \<in> set (grants s). grant_ok gone s p) \<and>
     denied_count s \<le> decision_count s \<and> (grants s \<noteq> [] \<longrightarrow> auth_state s = Ready)"

definition auth_ok :: "audit_event list \<Rightarrow> auth_mgr \<Rightarrow> bool" where
  "auth_ok gone s \<longleftrightarrow> auth_core gone s \<and> (grants s \<noteq> [] \<longrightarrow> audit_ready s)"

lemma append_event_same [simp]:
  "grants (snd (append_event e v s)) = grants s"
  "max_ttl (snd (append_event e v s)) = max_ttl s"
  "default_ttl (snd (append_event e v s)) = default_ttl s"
  "auth_state (snd (append_event e v s)) = auth_state s"
  "decision_count (snd (append_event e v s)) = decision_count s"
  "denied_count (snd (append_event e v s)) = denied_count s"
  by (simp_all add: append_event_def Let_def)

lemma append_event_eq: "append_event e v s = (b, s1) \<Longrightarrow>
  grants s1 = grants s \<and> max_ttl s1 = max_ttl s \<and> default_ttl s1 = default_ttl s \<and>
  decision_count s1 = decision_count s \<and> denied_count s1 = denied_count s \<and> auth_state s1 = auth_state s"
  by (auto simp: append_event_def Let_def split: if_splits)

lemma append_event_log:
  "append_event e v s = (True, s') \<Longrightarrow> audit_log s' = audit_log s @ [event_record (wall e (tick s)) v] \<and> audit_ready s'"
  by (auto simp: append_event_def Let_def split: if_splits)

lemma append_log_mono: "set (audit_log s) \<subseteq> set (audit_log (snd (append_event e v s)))"
  by (auto simp: append_event_def Let_def)

lemma write_status_same [simp]:
  "grants (write_status e s) = grants s" "max_ttl (write_status e s) = max_ttl s"
  "default_ttl (write_status e s) = default_ttl s" "auth_state (write_status e s) = auth_state s"
  "decision_count (write_status e s) = decision_count s"
  "denied_count (write_status e s) = denied_count s" "audit_log (write_status e s) = audit_log s"
  "audit_ready (write_status e s) = audit_ready s" "last_event_at (write_status e s) = last_event_at s"
  by (simp_all add: write_status_def)

lemma fail_closed_same [simp]:
  "grants (fail_closed_for_audit e s) = []" "auth_state (fail_closed_for_audit e s) = Audit_Unavailable"
  "max_ttl (fail_closed_for_audit e s) = max_ttl s" "default_ttl (fail_closed_for_audit e s) = default_ttl s"
  "decision_count (fail_closed_for_audit e s) = decision_count s"
  "denied_count (fail_closed_for_audit e s) = denied_count s"
  "audit_log (fail_closed_for_audit e s) = audit_log s" "audit_ready (fail_closed_for_audit e s) = False"
  by (simp_all add: fail_closed_for_audit_def)

lemma settle_same [simp]:
  "grants (settle_state s) = grants s" "max_ttl (settle_state s) = max_ttl s"
  "default_ttl (settle_state s) = default_ttl s" "decision_count (settle_state s) = decision_count s"
  "denied_count (settle_state s) = denied_count s" "audit_log (settle_state s) = audit_log s"
  "audit_ready (settle_state s) = audit_ready s"
  "auth_state (settle_state s) = (if grants s \<noteq> [] then Ready else Authorization_Required)"
  by (simp_all add: settle_state_def)

lemma grant_ok_mono:
  "grant_ok gone s p \<Longrightarrow> set (audit_log s @ gone) \<subseteq> set (audit_log s' @ gone') \<Longrightarrow> max_ttl s' = max_ttl s \<Longrightarrow>
   grant_ok gone' s' p"
  unfolding grant_ok_def by (cases p) (fastforce simp: subset_iff)

lemma core_transfer:
  assumes "auth_core gone s" and "set (grants s') \<subseteq> set (grants s)" and "distinct (map fst (grants s'))"
    and "set (audit_log s @ gone) \<subseteq> set (audit_log s' @ gone')" and "max_ttl s' = max_ttl s" and "default_ttl s' = default_ttl s"
    and "denied_count s' \<le> decision_count s'" and "grants s' \<noteq> [] \<Longrightarrow> auth_state s' = Ready"
  shows "auth_core gone' s'"
  using assms grant_ok_mono [of gone s _ s' gone'] unfolding auth_core_def by auto

lemma core_append: "auth_core gone s \<Longrightarrow> auth_core gone (snd (append_event e v s))"
  by (rule core_transfer [of gone s]) (auto simp: auth_core_def append_log_mono [THEN subsetD])

lemma ok_append: "auth_core gone s \<Longrightarrow> append_event e v s = (True, s') \<Longrightarrow> auth_ok gone s'"
  using core_append [of gone s e v] append_event_log [of e v s s'] by (simp add: auth_ok_def)

lemma ok_transfer:
  assumes "auth_core gone s" and "set (grants s') \<subseteq> set (grants s)" and "distinct (map fst (grants s'))"
    and "set (audit_log s @ gone) \<subseteq> set (audit_log s' @ gone')" and "max_ttl s' = max_ttl s" and "default_ttl s' = default_ttl s"
    and "denied_count s' \<le> decision_count s'" and "grants s' \<noteq> [] \<Longrightarrow> auth_state s' = Ready"
    and "grants s' \<noteq> [] \<Longrightarrow> audit_ready s'"
  shows "auth_ok gone' s'"
  using core_transfer [OF assms(1-8)] assms(9) by (simp add: auth_ok_def)

lemma ok_fail_closed: "auth_core gone s \<Longrightarrow> auth_ok gone (fail_closed_for_audit e s)"
  by (rule ok_transfer) (auto simp: auth_core_def)

lemma ok_write_status: "auth_ok gone s \<Longrightarrow> auth_ok gone (write_status e s)"
  by (rule ok_transfer [of gone s]) (auto simp: auth_ok_def auth_core_def)

lemma ok_settle: "auth_ok gone s \<Longrightarrow> auth_ok gone (settle_state s)"
  by (rule ok_transfer [of gone s]) (auto simp: auth_ok_def auth_core_def)

lemma ok_tick: "auth_ok gone s \<Longrightarrow> auth_ok gone (s\<lparr>tick := n\<rparr>)"
  by (rule ok_transfer [of gone s]) (auto simp: auth_ok_def auth_core_def)

lemma core_delete: "auth_core gone s \<Longrightarrow> auth_core gone (s\<lparr>grants := AList.delete k (grants s)\<rparr>)"
  by (rule core_transfer [of gone s]) (auto simp: auth_core_def AList.delete_eq distinct_map_filter)

lemma ok_core: "auth_ok gone s \<Longrightarrow> auth_core gone s"
  by (simp add: auth_ok_def)

lemma core_failed: "auth_core gone s \<Longrightarrow> append_event e v s = (b, s') \<Longrightarrow> auth_core gone s'"
  using core_append [of gone s e v] by simp

lemma ok_expire: "auth_ok gone s \<Longrightarrow> auth_ok gone (snd (expire_grants e l s))"
proof (induction e l s rule: expire_grants.induct)
  case (2 e gid g rest s)
  let ?v = "blank_event\<lparr>ev_name := ''grant_expired'', ev_guild := Some gid, ev_grant := Some g,
    ev_reason := ''grant_expired''\<rparr>"
  obtain b s1 where a: "append_event e ?v (s\<lparr>grants := AList.delete gid (grants s)\<rparr>) = (b, s1)" by fastforce
  have core: "auth_core gone (s\<lparr>grants := AList.delete gid (grants s)\<rparr>)" using 2(2) by (intro core_delete ok_core)
  show ?case
  proof (cases b)
    case True
    with 2(1) [OF refl _ True] a ok_append [OF core] show ?thesis by (simp add: Let_def)
  next
    case False
    with a ok_fail_closed [OF core_failed [OF core a]] show ?thesis by (simp add: Let_def)
  qed
qed simp

lemma ok_prune: "auth_ok gone s \<Longrightarrow> auth_ok gone (snd (prune_expired e s))"
  using ok_expire [OF ok_tick, of gone s] ok_tick [of gone s]
  by (simp add: prune_expired_def Let_def case_prod_unfold ok_write_status ok_settle)

lemma expire_same:
  "decision_count (snd (expire_grants e l s)) = decision_count s \<and>
   denied_count (snd (expire_grants e l s)) = denied_count s \<and>
   max_ttl (snd (expire_grants e l s)) = max_ttl s \<and> default_ttl (snd (expire_grants e l s)) = default_ttl s"
proof (induction e l s rule: expire_grants.induct)
  case (2 e gid g rest s)
  let ?a = "append_event e (blank_event\<lparr>ev_name := ''grant_expired'', ev_guild := Some gid, ev_grant := Some g,
    ev_reason := ''grant_expired''\<rparr>) (s\<lparr>grants := AList.delete gid (grants s)\<rparr>)"
  obtain b s1 where a: "?a = (b, s1)" by fastforce
  from append_event_eq [OF this] 2 a show ?case by (cases b) (simp_all add: Let_def)
qed simp

lemma prune_same [simp]:
  "decision_count (snd (prune_expired e s)) = decision_count s"
  "denied_count (snd (prune_expired e s)) = denied_count s"
  "max_ttl (snd (prune_expired e s)) = max_ttl s" "default_ttl (snd (prune_expired e s)) = default_ttl s"
  using expire_same [of e _ "s\<lparr>tick := Suc (tick s)\<rparr>"]
  by (simp_all add: prune_expired_def Let_def case_prod_unfold)

lemma expire_True: "expire_grants e l s = (True, s') \<Longrightarrow> grants s' = filter (\<lambda>p. fst p \<notin> fst ` set l) (grants s)"
proof (induction e l s rule: expire_grants.induct)
  case (2 e gid g rest s)
  let ?a = "append_event e (blank_event\<lparr>ev_name := ''grant_expired'', ev_guild := Some gid, ev_grant := Some g,
    ev_reason := ''grant_expired''\<rparr>) (s\<lparr>grants := AList.delete gid (grants s)\<rparr>)"
  obtain b s1 where a: "?a = (b, s1)" by fastforce
  have g: "grants s1 = AList.delete gid (grants s)"
    using append_event_eq [OF a] by simp
  from 2(2) a have b: "b" and rest: "expire_grants e rest s1 = (True, s')" by (auto simp: Let_def split: if_splits)
  have "grants s' = filter (\<lambda>p. fst p \<notin> fst ` set rest) (grants s1)" using 2(1) [OF refl a [symmetric] b rest] .
  with g show ?case by (simp add: AList.delete_eq case_prod_unfold conj_commute eq_commute)
qed simp

lemma prune_grants:
  assumes "prune_expired e s = (True, s1)" and "distinct (map fst (grants s))"
  shows "map_of (grants s1) gid = Some g \<longleftrightarrow> map_of (grants s) gid = Some g \<and>
    grant_is_active g (wall e (tick s)) (mono e (tick s))"
proof -
  let ?act = "\<lambda>p. grant_is_active (snd p) (wall e (tick s)) (mono e (tick s))"
  let ?expired = "filter (\<lambda>p. \<not> ?act p) (grants s)"
  obtain s0 where s0: "expire_grants e ?expired (s\<lparr>tick := Suc (tick s)\<rparr>) = (True, s0)" and "grants s1 = grants s0"
    using assms(1) by (auto simp: prune_expired_def Let_def split: prod.splits if_splits)
  then have g: "grants s1 = filter (\<lambda>p. fst p \<notin> fst ` set ?expired) (grants s)"
    using expire_True [OF s0] by simp
  have "fst p \<notin> fst ` set ?expired \<longleftrightarrow> ?act p" if "p \<in> set (grants s)" for p
  proof
    assume "?act p"
    show "fst p \<notin> fst ` set ?expired"
    proof
      assume "fst p \<in> fst ` set ?expired"
      then obtain q where "q \<in> set (grants s)" "\<not> ?act q" "fst q = fst p" by auto
      with that assms(2) have "q = p" by (metis eq_key_imp_eq_value prod.collapse)
      with \<open>?act p\<close> \<open>\<not> ?act q\<close> show False by simp
    qed
  qed (use that in auto)
  then have g': "grants s1 = filter ?act (grants s)" using g by (metis (no_types, lifting) filter_cong)
  have dist: "distinct (map fst (filter ?act (grants s)))" using assms(2) by (rule distinct_map_filter)
  show ?thesis unfolding g' map_of_eq_Some_iff [OF dist] map_of_eq_Some_iff [OF assms(2)] by auto
qed

lemma safe_identifier_ok: "list_all identifier_char (safe_identifier v) \<and> length (safe_identifier v) \<le> 80"
  by (auto simp: safe_identifier_def Let_def list_all_iff dest: in_set_takeD)

lemma safe_source_ok: "safe_source v \<noteq> [] \<Longrightarrow> safe_source v \<in> set allowed_sources"
  by (auto simp: safe_source_def Let_def split: if_splits)

lemma safe_scopes_ok: "set (safe_scopes v) \<subseteq> set supported_actions \<and> sorted (safe_scopes v) \<and> distinct (safe_scopes v)"
  by (auto simp: safe_scopes_def)

lemma effective_ttl_ok: "auth_core gone s \<Longrightarrow> min_ttl \<le> effective_ttl s t \<and> effective_ttl s t \<le> max_ttl s"
  by (auto simp: effective_ttl_def Let_def auth_core_def)

lemma event_names [simp]:
  "safe_identifier ''grant_issued'' = ''grant_issued''"
  "safe_identifier ''action_authorized'' = ''action_authorized''"
  "safe_identifier ''action_outcome'' = ''action_outcome''"
  by (simp_all add: safe_identifier_def py_strip_def py_space_def identifier_char_def)

lemma set_update_insert: "set (AList.update k v l) \<subseteq> insert (k, v) (set l)"
  by (induction l) auto

lemma ok_issue:
  assumes "auth_ok gone s" and "0 \<le> gid" and "issuer \<noteq> []" and "list_all identifier_char issuer \<and> length issuer \<le> 80"
    and "src \<in> set allowed_sources" and "scopes \<noteq> []"
    and "set scopes \<subseteq> set supported_actions \<and> sorted scopes \<and> distinct scopes"
    and "min_ttl \<le> ttl \<and> ttl \<le> max_ttl s"
  shows "auth_ok gone (snd (issue_grant e gid issuer src scopes ttl s))"
proof -
  let ?g = "\<lparr>grant_id = new_id e (tick s), grant_guild = gid, issuer_ref = issuer, grant_source = src,
    grant_scopes = scopes, issued_at = wall e (tick s), expires_at = wall e (tick s) + ttl,
    issued_monotonic = mono e (tick s), expires_monotonic = mono e (tick s) + ttl\<rparr>"
  let ?v = "blank_event\<lparr>ev_name := ''grant_issued'', ev_guild := Some gid, ev_grant := Some ?g,
    ev_reason := ''explicit_autonomy_start''\<rparr>"
  obtain b s1 where a: "append_event e ?v (s\<lparr>tick := tick s + 1\<rparr>) = (b, s1)" by fastforce
  have core: "auth_core gone (s\<lparr>tick := tick s + 1\<rparr>)" using ok_tick [OF assms(1)] by (rule ok_core)
  show ?thesis
  proof (cases b)
    case False
    with a ok_fail_closed [OF core_failed [OF core a]] show ?thesis by (simp add: issue_grant_def Let_def)
  next
    case True
    have log: "audit_log s1 = audit_log s @ [event_record (wall e (Suc (tick s))) ?v]" "audit_ready s1"
      using append_event_log [of e ?v "s\<lparr>tick := tick s + 1\<rparr>" s1] a True by simp_all
    have same: "grants s1 = grants s" "max_ttl s1 = max_ttl s" using append_event_eq [OF a] by simp_all
    let ?s2 = "s1\<lparr>grants := AList.update gid ?g (grants s1), auth_state := Ready\<rparr>"
    have c1: "auth_core gone s1" by (rule core_failed [OF core a])
    have new: "grant_ok gone ?s2 (gid, ?g)"
      using assms log same by (auto simp: grant_ok_def event_record_def)
    have old: "grant_ok gone ?s2 p" if "p \<in> set (grants s1)" for p
      using c1 that grant_ok_mono [of gone s1 p ?s2 gone] by (auto simp: auth_core_def)
    have "set (AList.update gid ?g (grants s1)) \<subseteq> insert (gid, ?g) (set (grants s1))"
      by (rule set_update_insert)
    then have "auth_ok gone ?s2" using c1 new old log
      by (auto simp: auth_ok_def auth_core_def distinct_update)
    with a True show ?thesis by (simp add: issue_grant_def Let_def ok_write_status)
  qed
qed

lemma guild_ok: "safe_guild_id g = Some k \<Longrightarrow> 0 \<le> k \<and> k = g"
  by (auto simp: safe_guild_id_def split: if_splits)

lemma ok_grant: "auth_ok gone s \<Longrightarrow> auth_ok gone (snd (grant e guild issuer src scopes ttl s))"
proof -
  assume s: "auth_ok gone s"
  obtain b s1 where p: "prune_expired e s = (b, s1)" by fastforce
  have s1: "auth_ok gone s1" using ok_prune [OF s, of e] p by simp
  have max: "max_ttl s1 = max_ttl s" using prune_same(3) [of e s] p by simp
  have ttl: "min_ttl \<le> effective_ttl s ttl \<and> effective_ttl s ttl \<le> max_ttl s"
    using effective_ttl_ok ok_core [OF s] by blast
  have issue: "auth_ok gone (snd (issue_grant e gid (safe_identifier issuer) (safe_source src)
      (safe_scopes scopes) (effective_ttl s ttl) s2))"
    if "auth_ok gone s2" "max_ttl s2 = max_ttl s1" "0 \<le> gid" "safe_identifier issuer \<noteq> []"
      "safe_source src \<noteq> []" "safe_scopes scopes \<noteq> []" for s2 gid
    using that max ttl safe_identifier_ok safe_source_ok safe_scopes_ok by (intro ok_issue) auto
  have replaced: "auth_ok gone (snd (let (ok, s2) = append_event e v s1 in
      if \<not> ok then (Inl Audit_Failed, fail_closed_for_audit e s2)
      else issue_grant e gid (safe_identifier issuer) (safe_source src)
                       (safe_scopes scopes) (effective_ttl s ttl) s2))"
    if "0 \<le> gid" "safe_identifier issuer \<noteq> []" "safe_source src \<noteq> []" "safe_scopes scopes \<noteq> []" for v gid
  proof -
    obtain b s2 where a: "append_event e v s1 = (b, s2)" by fastforce
    show ?thesis using that a ok_fail_closed [OF core_failed [OF ok_core [OF s1] a]]
        issue [OF ok_append [OF ok_core [OF s1]]] append_event_eq [OF a]
      by (cases b) auto
  qed
  show ?thesis
    using s s1 p issue [OF s1 refl] replaced
    by (auto simp: grant_def Let_def guild_ok split: option.split dest: guild_ok)
qed

lemma ok_revoke: "auth_ok gone s \<Longrightarrow> auth_ok gone (snd (revoke e guild reason s))"
proof -
  assume s: "auth_ok gone s"
  have del: "auth_ok gone (snd (let (ok, s1) = append_event e v (s\<lparr>grants := AList.delete gid (grants s)\<rparr>) in
      if \<not> ok then (Inl Audit_Failed, fail_closed_for_audit e s1)
      else (Inr True, write_status e (settle_state s1))))" for v gid
  proof -
    have core: "auth_core gone (s\<lparr>grants := AList.delete gid (grants s)\<rparr>)" using s by (intro core_delete ok_core)
    obtain b s1 where a: "append_event e v (s\<lparr>grants := AList.delete gid (grants s)\<rparr>) = (b, s1)" by fastforce
    show ?thesis using a ok_fail_closed [OF core_failed [OF core a]] ok_append [OF core, of e v s1]
      by (cases b) (auto intro!: ok_write_status ok_settle)
  qed
  show ?thesis using s del ok_write_status [OF ok_settle [OF s]] unfolding revoke_def
    by (auto split: option.split)
qed

lemma ok_counts: "auth_ok gone s \<Longrightarrow> d \<le> n \<Longrightarrow> auth_ok gone (s\<lparr>decision_count := n, denied_count := d\<rparr>)"
  by (rule ok_transfer [of gone s]) (auto simp: auth_ok_def auth_core_def)

lemma core_denied: "auth_core gone s \<Longrightarrow> d \<le> decision_count s \<Longrightarrow> auth_core gone (s\<lparr>denied_count := d\<rparr>)"
  by (rule core_transfer [of gone s]) (auto simp: auth_core_def)

lemma ok_close_decision: "auth_ok gone s \<Longrightarrow> auth_ok gone (snd (close_decision e code g v s))"
proof -
  assume s: "auth_ok gone s"
  let ?ok = "code = Authorized"
  let ?s2 = "s\<lparr>decision_count := decision_count s + 1,
     denied_count := (if ?ok then denied_count s else denied_count s + 1)\<rparr>"
  have dc: "denied_count s \<le> decision_count s" using s by (simp add: auth_ok_def auth_core_def)
  have s2: "auth_ok gone ?s2" using ok_counts [OF s] dc by simp
  obtain audited s3 where a: "append_event e v ?s2 = (audited, s3)" by fastforce
  have c3: "auth_core gone s3" by (rule core_failed [OF ok_core [OF s2] a])
  have "auth_core gone (if ?ok then s3\<lparr>denied_count := denied_count s3 + 1\<rparr> else s3)"
    using c3 core_denied [OF c3] append_event_eq [OF a] dc by auto
  from ok_fail_closed [OF this] a ok_append [OF ok_core [OF s2], of e v s3] show ?thesis
    by (cases audited) (simp_all add: close_decision_def Let_def ok_write_status)
qed

lemma ok_authorize: "auth_ok gone s \<Longrightarrow> auth_ok gone (snd (authorize e guild action run s))"
proof -
  assume s: "auth_ok gone s"
  obtain b s1 where p: "prune_expired e s = (b, s1)" by fastforce
  have s1: "auth_ok gone s1" using ok_prune [OF s, of e] p by simp
  have dc: "Suc (denied_count s1) \<le> Suc (decision_count s1)" using s1 by (simp add: auth_ok_def auth_core_def)
  show ?thesis using p ok_close_decision [OF s1] ok_write_status [OF ok_counts [OF s1 dc]]
    by (cases b) (simp_all add: authorize_def Let_def)
qed

lemma ok_outcome: "auth_ok gone s \<Longrightarrow> auth_ok gone (snd (record_outcome e guild action r s))"
proof -
  assume s: "auth_ok gone s"
  obtain b s1 where p: "prune_expired e s = (b, s1)" by fastforce
  have s1: "auth_ok gone s1" using ok_prune [OF s, of e] p by simp
  have body: "auth_ok gone (snd (let (audited, s2) = append_event e v s1
     in if \<not> audited then (no_receipt, fail_closed_for_audit e s2) else (x, write_status e s2)))" for v x
  proof -
    obtain audited s2 where a: "append_event e v s1 = (audited, s2)" by fastforce
    show ?thesis using a ok_fail_closed [OF core_failed [OF ok_core [OF s1] a]]
        ok_append [OF ok_core [OF s1], of e v s2]
      by (cases audited) (auto intro!: ok_write_status)
  qed
  show ?thesis using p s1 body unfolding record_outcome_def by (cases b) (simp_all add: Let_def)
qed

lemma ok_initialize: "auth_ok gone s \<Longrightarrow> auth_ok gone (snd (initialize e s))"
proof -
  assume s: "auth_ok gone s"
  let ?v = "blank_event\<lparr>ev_name := ''process_started'', ev_reason := ''process_restart''\<rparr>"
  let ?s1 = "s\<lparr>grants := [], auth_state := Authorization_Required\<rparr>"
  have c1: "auth_core gone ?s1"
    by (rule core_transfer [OF ok_core [OF s]]) (use s in \<open>simp_all add: auth_ok_def auth_core_def\<close>)
  obtain ok s2 where a: "append_event e ?v ?s1 = (ok, s2)" by fastforce
  have "auth_ok gone (if ok then s2 else fail_closed_for_audit e s2)"
    using a ok_fail_closed [OF core_failed [OF c1 a]] ok_append [OF c1, of e ?v s2] by (cases ok) auto
  with a show ?thesis by (simp add: initialize_def Let_def ok_tick ok_write_status)
qed

lemma save_status_same [simp]:
  "grants (save_status e c s) = grants s" "max_ttl (save_status e c s) = max_ttl s"
  "default_ttl (save_status e c s) = default_ttl s" "auth_state (save_status e c s) = auth_state s"
  "decision_count (save_status e c s) = decision_count s" "denied_count (save_status e c s) = denied_count s"
  "audit_log (save_status e c s) = audit_log s" "audit_ready (save_status e c s) = audit_ready s"
  by (simp_all add: save_status_def)

lemma filter_zip_subset: "set (map fst (filter P (zip xs ys))) \<subseteq> set xs"
  by (auto dest: set_zip_leftD)

lemma filter_zip_distinct: "distinct (map f xs) \<Longrightarrow> distinct (map f (map fst (filter P (zip xs ys))))"
proof -
  assume d: "distinct (map f xs)"
  have "map (f \<circ> fst) (zip xs ys) = take (min (length xs) (length ys)) (map f xs)"
    by (metis map_fst_zip_take map_map take_map)
  then have "distinct (map (f \<circ> fst) (zip xs ys))" using d by simp
  from distinct_map_filter [OF this] show ?thesis by simp
qed

text \<open>What a clean-up leaves: some of the grants, the state \<open>Ready\<close> while it leaves any, and nothing else of the
  invariant but the log is touched.\<close>

definition cleaned :: "auth_mgr \<Rightarrow> auth_mgr \<Rightarrow> bool" where
  "cleaned s s' \<longleftrightarrow> set (grants s') \<subseteq> set (grants s) \<and>
     (distinct (map fst (grants s)) \<longrightarrow> distinct (map fst (grants s'))) \<and>
     max_ttl s' = max_ttl s \<and> default_ttl s' = default_ttl s \<and> decision_count s' = decision_count s \<and>
     denied_count s' = denied_count s \<and> audit_ready s' = audit_ready s \<and>
     (auth_state s' = auth_state s \<or> auth_state s' = (if grants s' \<noteq> [] then Ready else Authorization_Required))"

lemma erase_cleaned: "cleaned s (snd (erase_targets e c gv ev ordered files s))"
proof -
  let ?held = "map fst (filter (\<lambda>(p, v). v \<noteq> Match) (zip (grants s) gv))"
  have held: "set ?held \<subseteq> set (grants s)" "distinct (map fst (grants s)) \<Longrightarrow> distinct (map fst ?held)"
    by (rule filter_zip_subset, rule filter_zip_distinct)
  obtain s' where s': "snd (erase_targets e c gv ev ordered files s) = s'" by simp
  then have "grants s' = ?held" "max_ttl s' = max_ttl s" "default_ttl s' = default_ttl s"
      "decision_count s' = decision_count s" "denied_count s' = denied_count s" "audit_ready s' = audit_ready s"
      "auth_state s' = auth_state s \<or> auth_state s' = (if ?held \<noteq> [] then Ready else Authorization_Required)"
    by (auto simp: erase_targets_def Let_def split: prod.splits option.splits if_splits)
  then show ?thesis using held unfolding cleaned_def s' by simp
qed

lemma cleanup_cleaned: "cleaned s (snd (cleanup_exact_targets e c s))"
  using erase_cleaned [of s e c] by (simp add: cleanup_exact_targets_def Let_def) (simp add: cleaned_def)

definition erased :: "auth_mgr \<Rightarrow> auth_mgr \<Rightarrow> audit_event list" where
  "erased s s' = filter (\<lambda>v. v \<notin> set (audit_log s')) (audit_log s)"

lemma ok_cleanup:
  assumes s: "auth_ok gone s" and s': "s' = snd (cleanup_exact_targets e c s)"
  shows "auth_ok (erased s s' @ gone) s'"
  using s cleanup_cleaned [of s e c, folded s']
  by (intro ok_transfer [OF ok_core [OF s]]) (auto simp: cleaned_def erased_def auth_ok_def auth_core_def)

lemma ok_more: "auth_ok gone s \<Longrightarrow> auth_ok (others @ gone) s"
  by (rule ok_transfer [of gone s]) (auto simp: auth_ok_def auth_core_def)

text \<open>A step, and the events it erased.\<close>

definition watched_step :: "auth_env \<Rightarrow> auth_mgr \<times> audit_event list \<Rightarrow> auth_op \<Rightarrow> auth_mgr \<times> audit_event list" where
  "watched_step e st x = (auth_step e (fst st) x, erased (fst st) (auth_step e (fst st) x) @ snd st)"

interpretation auth: op_machine "watched_step e" "\<lambda>st. auth_ok (snd st) (fst st)" for e
proof (unfold_locales)
  fix st x assume s: "auth_ok (snd st) (fst st)"
  show "auth_ok (snd (watched_step e st x)) (fst (watched_step e st x))"
  proof (cases "\<exists>c. x = Op_Cleanup c")
    case True
    then show ?thesis using ok_cleanup [OF s refl] by (auto simp: watched_step_def)
  next
    case False
    then have "auth_ok (snd st) (auth_step e (fst st) x)"
      using ok_initialize [OF s, of e] ok_grant [OF s] ok_revoke [OF s] ok_authorize [OF s] ok_outcome [OF s]
        ok_prune [OF s, of e] s ok_tick
      by (cases x) (auto simp: authorized_actions_def status_def Let_def case_prod_unfold split: option.split)
    then show ?thesis by (simp add: watched_step_def ok_more)
  qed
qed

lemma watched_fst: "fst (foldl (watched_step e) st ops) = foldl (auth_step e) (fst st) ops"
  by (induction ops arbitrary: st) (simp_all add: watched_step_def)

lemma ok_run: "auth_ok gone s \<Longrightarrow> \<exists>gone'. auth_ok gone' (foldl (auth_step e) s ops)"
  using auth.inv_run [of "(s, gone)" e ops] by (auto simp: watched_fst)

section \<open>Properties\<close>

definition demo_auth_env :: auth_env where
  "demo_auth_env = \<lparr>wall = (\<lambda>n. real n), mono = (\<lambda>n. real n), new_id = (\<lambda>n. ''g''),
     audit_ok = (\<lambda>_. True), status_ok = (\<lambda>_. True)\<rparr>"

definition demo_grant :: auth_grant where
  "demo_grant = \<lparr>grant_id = ''g'', grant_guild = 5, issuer_ref = ''u'', grant_source = ''test'',
     grant_scopes = [''assistant:idle''], issued_at = 0, expires_at = 100, issued_monotonic = 0,
     expires_monotonic = 100\<rparr>"

definition demo_auth :: auth_mgr where
  "demo_auth = (new_auth_mgr 3600 14400)\<lparr>grants := [(5, demo_grant)], auth_state := Ready,
     audit_ready := True,
     audit_log := [blank_event\<lparr>ev_name := ''grant_issued'', ev_grant := Some demo_grant\<rparr>]\<rparr>"

lemma demo_auth_ok [simp]: "auth_ok gone demo_auth"
  by (simp add: demo_auth_def auth_ok_def auth_core_def grant_ok_def new_auth_mgr_def min_ttl_def
      demo_grant_def allowed_sources_def supported_actions_def assistant_actions_def identifier_char_def)

lemma strip_idle [simp]: "py_strip ''assistant:idle'' = ''assistant:idle''"
  by (simp add: py_strip_def py_space_def)


lemma find_grant_pruned:
  assumes "auth_ok gone s" and "prune_expired e s = (True, s1)" and "find_grant (safe_guild_id guild) s1 = Some g"
  shows "0 \<le> guild \<and> map_of (grants s) guild = Some g \<and>
    grant_is_active g (wall e (tick s)) (mono e (tick s))"
proof -
  have "map_of (grants s1) guild = Some g" "0 \<le> guild"
    using assms(3) by (auto simp: find_grant_def safe_guild_id_def split: if_splits)
  with prune_grants [OF assms(2)] assms(1) show ?thesis by (auto simp: auth_ok_def auth_core_def)
qed

lemma close_decision_allowed:
  assumes "close_decision e code g v s = (d, s')" and "allowed d"
  shows "code = Authorized \<and> dec_grant d = g \<and> denied_count s' = denied_count s \<and>
    decision_count s' = Suc (decision_count s) \<and>
    (\<exists>log t. audit_log s' = log @ [event_record t v])"
proof -
  let ?s2 = "s\<lparr>decision_count := decision_count s + 1,
     denied_count := (if code = Authorized then denied_count s else denied_count s + 1)\<rparr>"
  obtain b s3 where a: "append_event e v ?s2 = (b, s3)" by fastforce
  have b: "b" "d = \<lparr>allowed = (code = Authorized), dec_code = code, dec_grant = g\<rparr>" "s' = write_status e s3"
    using assms a by (auto simp: close_decision_def Let_def audit_denied_def split: if_splits)
  then have code: "code = Authorized" using assms(2) by simp
  have "audit_log s3 = audit_log ?s2 @ [event_record (wall e (tick ?s2)) v]"
    using append_event_log [of e v ?s2 s3] a b(1) by auto
  then show ?thesis using b code append_event_eq [OF a] by (auto intro: exI)
qed

lemma decision_event_fields:
  "ev_name (event_record t (decision_event Authorized gid g a run)) = ''action_authorized''"
  "a \<in> set supported_actions \<Longrightarrow> ev_action (event_record t (decision_event Authorized gid g a run)) = a"
  "ev_grant (event_record t (decision_event Authorized gid g a run)) = g"
  by (simp_all add: event_record_def decision_event_def Let_def)

text \<open>
  C9. An action is allowed only by a grant of that guild that has expired on neither clock,
  was issued less than the maximal duration ago, and lists the action among its scopes; the
  action is a supported one; and the decision with its grant is the last entry of the audit
  log when the answer is given.
\<close>

theorem allowed_action_is_granted_and_audited:
  assumes "auth_ok gone s" and "authorize e guild action run s = (d, s')" and "allowed d"
  shows "\<exists>g log v. map_of (grants s) guild = Some g \<and>
    wall e (tick s) < expires_at g \<and> mono e (tick s) < expires_monotonic g \<and>
    wall e (tick s) < issued_at g + max_ttl s \<and>
    py_strip action \<in> set supported_actions \<and> py_strip action \<in> set (grant_scopes g) \<and>
    audit_log s' = log @ [v] \<and> ev_name v = ''action_authorized'' \<and> ev_action v = py_strip action \<and>
    ev_grant v = Some g \<and> dec_grant d = Some g \<and> denied_count s' = denied_count s"
proof -
  obtain b s1 where p: "prune_expired e s = (b, s1)" by fastforce
  have b: "b" using assms(2,3) p by (auto simp: authorize_def Let_def audit_denied_def split: if_splits)
  let ?a = "py_strip action" and ?gid = "safe_guild_id guild"
  let ?g = "find_grant ?gid s1"
  let ?code = "decide ?a ?g"
  have close: "close_decision e ?code ?g (decision_event ?code ?gid ?g ?a run) s1 = (d, s')"
    using assms(2) p b by (simp add: authorize_def Let_def)
  from close_decision_allowed [OF close assms(3)] obtain log t where code: "?code = Authorized"
    and dec: "dec_grant d = ?g" "denied_count s' = denied_count s1"
    and log: "audit_log s' = log @ [event_record t (decision_event ?code ?gid ?g ?a run)]" by blast
  from code obtain g where g: "?g = Some g" "?a \<in> set supported_actions" "?a \<in> set (grant_scopes g)"
    by (auto simp: decide_def split: if_splits option.splits)
  have found: "map_of (grants s) guild = Some g" "grant_is_active g (wall e (tick s)) (mono e (tick s))"
    using find_grant_pruned [OF assms(1) _ g(1)] p b by auto
  have "grant_ok gone s (guild, g)"
    using assms(1) map_of_SomeD [OF found(1)] by (simp add: auth_ok_def auth_core_def)
  then have "wall e (tick s) < issued_at g + max_ttl s"
    using found(2) by (auto simp: grant_ok_def grant_is_active_def)
  moreover have "denied_count s1 = denied_count s" using prune_same(2) [of e s] p by simp
  moreover have "audit_log s' = log @ [event_record t (decision_event Authorized ?gid (Some g) ?a run)]"
    using log code g(1) by simp
  ultimately show ?thesis using found g dec
    by (intro exI [of _ g] exI [of _ log] exI [of _ "event_record t (decision_event Authorized ?gid (Some g) ?a run)"])
      (simp add: grant_is_active_def decision_event_fields)
qed

lemma prune_demo [simp]: "prune_expired demo_auth_env demo_auth = (True, demo_auth\<lparr>tick := 1\<rparr>)"
  by (simp add: prune_expired_def demo_auth_def demo_grant_def demo_auth_env_def grant_is_active_def
      new_auth_mgr_def Let_def)

lemma authorize_demo: "allowed (fst (authorize demo_auth_env 5 ''assistant:idle'' ''r'' demo_auth))"
proof -
  have "find_grant (Some 5) (demo_auth\<lparr>tick := 1\<rparr>) = Some demo_grant"
    by (simp add: find_grant_def demo_auth_def)
  moreover have "decide ''assistant:idle'' (Some demo_grant) = Authorized"
    by (simp add: decide_def demo_grant_def supported_actions_def assistant_actions_def)
  moreover have "audit_ok demo_auth_env n" for n by (simp add: demo_auth_env_def)
  ultimately show ?thesis
    by (simp add: authorize_def prune_demo Let_def safe_guild_id_def close_decision_def append_event_def)
qed

theorem allowed_action_is_granted_and_audited_witness:
  "\<exists>g. map_of (grants demo_auth) 5 = Some g \<and> ''assistant:idle'' \<in> set (grant_scopes g)"
proof -
  obtain d s' where p: "authorize demo_auth_env 5 ''assistant:idle'' ''r'' demo_auth = (d, s')" by fastforce
  have "allowed d" using authorize_demo p by simp
  from allowed_action_is_granted_and_audited [OF demo_auth_ok p this] show ?thesis by auto
qed

text \<open>
  While the audit log can be written, \<open>authorize\<close> allows exactly the supported actions in
  the scopes of the guild's unexpired grant.
\<close>

theorem authorize_iff_granted:
  assumes "auth_ok gone s" and "\<forall>n. audit_ok e n"
  shows "allowed (fst (authorize e guild action run s)) \<longleftrightarrow>
    (\<exists>g. 0 \<le> guild \<and> map_of (grants s) guild = Some g \<and>
       grant_is_active g (wall e (tick s)) (mono e (tick s)) \<and>
       py_strip action \<in> set supported_actions \<and> py_strip action \<in> set (grant_scopes g))"
proof -
  have app: "fst (append_event e v x)" for v x
    using assms(2) by (simp add: append_event_def Let_def)
  have expire: "fst (expire_grants e l x)" for l x
    by (induction l arbitrary: x) (auto simp: app Let_def case_prod_unfold)
  obtain s1 where p: "prune_expired e s = (True, s1)"
    using expire by (simp add: prune_expired_def Let_def case_prod_unfold)
  have dist: "distinct (map fst (grants s))" using assms(1) by (simp add: auth_ok_def auth_core_def)
  have "allowed (fst (authorize e guild action run s)) \<longleftrightarrow>
      decide (py_strip action) (find_grant (safe_guild_id guild) s1) = Authorized"
    using p app by (simp add: authorize_def Let_def close_decision_def case_prod_unfold)
  also have "\<dots> \<longleftrightarrow> (\<exists>g. 0 \<le> guild \<and> map_of (grants s1) guild = Some g \<and>
       py_strip action \<in> set supported_actions \<and> py_strip action \<in> set (grant_scopes g))"
    by (auto simp: decide_def find_grant_def safe_guild_id_def split: option.splits if_splits)
  finally show ?thesis using prune_grants [OF p dist] by auto
qed

theorem authorize_iff_granted_witness:
  "allowed (fst (authorize demo_auth_env 5 ''assistant:idle'' ''r'' demo_auth))"
proof -
  have "\<forall>n. audit_ok demo_auth_env n" by (simp add: demo_auth_env_def)
  from authorize_iff_granted [OF demo_auth_ok this, of 5 "''assistant:idle''" "''r''"] show ?thesis
    by (simp add: demo_auth_def demo_grant_def demo_auth_env_def new_auth_mgr_def grant_is_active_def
        supported_actions_def assistant_actions_def)
qed

lemma close_decision_denied:
  "close_decision e code g v s = (d, s') \<Longrightarrow> dec_code d = Audit_Denied \<Longrightarrow> code \<noteq> Audit_Denied \<Longrightarrow> grants s' = []"
  by (auto simp: close_decision_def Let_def case_prod_unfold split: if_splits)

lemma decide_codes: "decide a g \<noteq> Audit_Denied"
  by (auto simp: decide_def split: option.splits)

lemma expire_False: "expire_grants e l s = (False, s') \<Longrightarrow> grants s' = []"
  by (induction e l s rule: expire_grants.induct) (auto simp: Let_def split: prod.splits if_splits)

lemma prune_False: "prune_expired e s = (False, s') \<Longrightarrow> grants s' = []"
  by (auto simp: prune_expired_def Let_def split: prod.splits if_splits dest: expire_False)

lemma issue_failed: "issue_grant e gid i src sc ttl s = (Inl x, s') \<Longrightarrow> grants s' = []"
  by (auto simp: issue_grant_def Let_def split: prod.splits if_splits)

text \<open>
  The manager fails closed: whenever an operation reports that the audit log could not be
  written, no grant of any guild is left.
\<close>

theorem audit_failure_drops_all_grants:
  "(fst (grant e guild issuer src scopes ttl s) = Inl Audit_Failed \<longrightarrow>
      grants (snd (grant e guild issuer src scopes ttl s)) = []) \<and>
   (fst (revoke e guild reason s) = Inl Audit_Failed \<longrightarrow> grants (snd (revoke e guild reason s)) = []) \<and>
   (dec_code (fst (authorize e guild action run s)) = Audit_Denied \<longrightarrow>
      grants (snd (authorize e guild action run s)) = []) \<and>
   (\<not> recorded (fst (record_outcome e guild action r s)) \<longrightarrow>
      grants (snd (record_outcome e guild action r s)) = [])"
proof (intro conjI impI)
  obtain b s1 where p: "prune_expired e s = (b, s1)" by fastforce
  have f: "\<not> b \<Longrightarrow> grants s1 = []" using p prune_False by auto
  have issue: "grants (snd (issue_grant e gid i a sc t x)) = []"
    if "fst (issue_grant e gid i a sc t x) = Inl Audit_Failed" for gid i a sc t x
    using that issue_failed [of e gid i a sc t x] by (metis prod.collapse)
  show "grants (snd (grant e guild issuer src scopes ttl s)) = []"
    if "fst (grant e guild issuer src scopes ttl s) = Inl Audit_Failed"
    using that p f issue
    by (cases b) (auto simp: grant_def Let_def case_prod_unfold split: option.splits if_splits)
  show "grants (snd (revoke e guild reason s)) = []" if "fst (revoke e guild reason s) = Inl Audit_Failed"
    using that by (auto simp: revoke_def Let_def case_prod_unfold split: option.splits if_splits)
  show "grants (snd (authorize e guild action run s)) = []"
    if "dec_code (fst (authorize e guild action run s)) = Audit_Denied"
    using that p f close_decision_denied [OF _ _ decide_codes]
    by (cases b) (auto simp: authorize_def Let_def, metis prod.collapse)
  show "grants (snd (record_outcome e guild action r s)) = []"
    if "\<not> recorded (fst (record_outcome e guild action r s))"
    using that p f by (cases b) (auto simp: record_outcome_def Let_def case_prod_unfold split: if_splits)
qed

definition dead_audit :: auth_env where
  "dead_audit = demo_auth_env\<lparr>audit_ok := (\<lambda>_. False)\<rparr>"

theorem audit_failure_drops_all_grants_witness:
  "grants (snd (revoke dead_audit 5 ''manual_revoke'' demo_auth)) = []"
proof -
  have "fst (revoke dead_audit 5 ''manual_revoke'' demo_auth) = Inl Audit_Failed"
    by (simp add: revoke_def safe_guild_id_def demo_auth_def append_event_def dead_audit_def)
  with audit_failure_drops_all_grants [of dead_audit 5 "[]" "[]" "[]" None demo_auth "''manual_revoke''"]
  show ?thesis by blast
qed

definition grant_keys :: "auth_mgr \<Rightarrow> int set" where
  "grant_keys s = fst ` set (grants s)"

lemma keys_simps [simp]:
  "grant_keys (write_status e s) = grant_keys s" "grant_keys (snd (append_event e v s)) = grant_keys s"
  "grant_keys (fail_closed_for_audit e s) = {}" "grant_keys (settle_state s) = grant_keys s"
  by (simp_all add: grant_keys_def)

lemma keys_append: "append_event e v s = (b, s1) \<Longrightarrow> grant_keys s1 = grant_keys s"
  using append_event_eq [of e v s b s1] by (simp add: grant_keys_def)

lemma keys_expire: "grant_keys (snd (expire_grants e l s)) \<subseteq> grant_keys s"
proof (induction l arbitrary: s)
  case (Cons p l)
  obtain gid g where p: "p = (gid, g)" by fastforce
  let ?v = "blank_event\<lparr>ev_name := ''grant_expired'', ev_guild := Some gid, ev_grant := Some g,
    ev_reason := ''grant_expired''\<rparr>"
  obtain b s1 where a: "append_event e ?v (s\<lparr>grants := AList.delete gid (grants s)\<rparr>) = (b, s1)" by fastforce
  have "grant_keys s1 \<subseteq> grant_keys s"
    using append_event_eq [OF a] by (auto simp: grant_keys_def AList.delete_eq)
  with a p Cons [of s1] show ?case by (cases b) (auto simp: Let_def)
qed simp

lemma keys_prune: "grant_keys (snd (prune_expired e s)) \<subseteq> grant_keys s"
  using keys_expire [of e _ "s\<lparr>tick := Suc (tick s)\<rparr>"]
  by (simp add: prune_expired_def Let_def case_prod_unfold) (simp add: grant_keys_def)

lemma keys_update: "fst ` set (AList.update k v l) \<subseteq> insert k (fst ` set l)"
  using set_update_insert [of k v l] by auto

lemma keys_issue: "grant_keys (snd (issue_grant e gid i src sc ttl s)) \<subseteq> insert gid (grant_keys s)"
proof -
  have "fst ` set (AList.update gid v (grants (snd (append_event e w (s\<lparr>tick := n\<rparr>))))) \<subseteq>
      insert gid (grant_keys s)" for v w n
    using keys_update [of gid v "grants s"] by (simp add: grant_keys_def)
  then show ?thesis by (simp add: issue_grant_def Let_def case_prod_unfold) (simp add: grant_keys_def)
qed

lemma keys_grant: "grant_keys (snd (grant e guild i src sc ttl s)) \<subseteq> insert guild (grant_keys s)"
proof (cases "safe_guild_id guild")
  case (Some gid)
  then have gid: "gid = guild" using guild_ok by blast
  obtain b s1 where p: "prune_expired e s = (b, s1)" by fastforce
  have s1: "grant_keys s1 \<subseteq> grant_keys s" using keys_prune [of e s] p by simp
  have "grant_keys (snd (issue_grant e guild i' a' c' t' x)) \<subseteq> insert guild (grant_keys s)"
    if "grant_keys x = grant_keys s1" for i' a' c' t' x
    using keys_issue [of e guild i' a' c' t' x] that s1 by auto
  then show ?thesis using Some gid p s1
    by (cases b) (auto simp: grant_def Let_def case_prod_unfold split: option.split)
qed (auto simp: grant_def)

lemma keys_revoke: "grant_keys (snd (revoke e guild reason s)) \<subseteq> grant_keys s - {guild} \<union> (if guild < 0 then {guild} else {})"
  by (auto simp: revoke_def safe_guild_id_def Let_def case_prod_unfold map_of_eq_None_iff split: option.splits if_splits)
    (auto simp: grant_keys_def AList.delete_eq)

lemma keys_tick [simp]: "grant_keys (s\<lparr>tick := n\<rparr>) = grant_keys s"
  "grant_keys (s\<lparr>decision_count := n, denied_count := m\<rparr>) = grant_keys s"
  "grant_keys (s\<lparr>denied_count := m\<rparr>) = grant_keys s"
  "grant_keys (s\<lparr>decision_count := n\<rparr>) = grant_keys s"
  by (simp_all add: grant_keys_def)

lemma keys_close_decision: "grant_keys (snd (close_decision e code g v s)) \<subseteq> grant_keys s"
  by (auto simp: close_decision_def Let_def case_prod_unfold)

lemma keys_authorize: "grant_keys (snd (authorize e guild action run s)) \<subseteq> grant_keys s"
  using keys_prune [of e s] keys_close_decision
  by (simp add: authorize_def Let_def case_prod_unfold) (meson subset_trans)

lemma keys_outcome: "grant_keys (snd (record_outcome e guild action r s)) \<subseteq> grant_keys s"
  using keys_prune [of e s] by (simp add: record_outcome_def Let_def case_prod_unfold)

lemma keys_initialize: "grant_keys (snd (initialize e s)) = {}"
  by (simp add: initialize_def Let_def case_prod_unfold) (simp add: grant_keys_def)

fun grants_to :: "int \<Rightarrow> auth_op \<Rightarrow> bool" where
  "grants_to k (Op_Grant g i src sc ttl) = (g = k)"
| "grants_to k _ = False"

lemma keys_step: "\<not> grants_to k x \<Longrightarrow> k \<notin> grant_keys s \<Longrightarrow> k \<notin> grant_keys (auth_step e s x)"
proof (cases x)
  case (Op_Actions g)
  assume "k \<notin> grant_keys s"
  with keys_prune [of e s] Op_Actions show ?thesis
    by (auto simp: authorized_actions_def Let_def case_prod_unfold split: option.splits)
next
  case Op_Status
  assume "k \<notin> grant_keys s"
  with keys_prune [of e s] Op_Status show ?thesis by (auto simp: status_def Let_def case_prod_unfold)
next
  case (Op_Grant g i src sc ttl)
  assume "k \<notin> grant_keys s" "\<not> grants_to k x"
  with keys_grant [of e g i src sc ttl s] Op_Grant show ?thesis by auto
next
  case (Op_Revoke g r)
  assume "k \<notin> grant_keys s"
  with keys_revoke [of e g r s] Op_Revoke show ?thesis
    by (auto simp: revoke_def safe_guild_id_def)
next
  case (Op_Cleanup c)
  assume "k \<notin> grant_keys s"
  with cleanup_cleaned [of s e c] Op_Cleanup show ?thesis by (auto simp: cleaned_def grant_keys_def)
qed (use keys_authorize keys_outcome keys_initialize in \<open>fastforce+\<close>)

lemma keys_run: "list_all (\<lambda>x. \<not> grants_to k x) ops \<Longrightarrow> k \<notin> grant_keys s \<Longrightarrow>
  k \<notin> grant_keys (foldl (auth_step e) s ops)"
  by (induction ops arbitrary: s) (auto simp: keys_step)

text \<open>
  A revocation is effective at once and for good: from the revocation of a guild on,
  whatever operations follow, as long as none of them is a new grant for that guild, no action
  of the guild is allowed and no outcome counts as verified.
\<close>

theorem revocation_is_effective:
  assumes "auth_ok gone s" and "0 \<le> guild" and "revoke e guild reason s = (r, s1)"
    and "list_all (\<lambda>x. \<not> grants_to guild x) ops"
    and "foldl (auth_step e) s1 ops = s2"
  shows "\<not> allowed (fst (authorize e guild action run s2)) \<and>
    \<not> verified (fst (record_outcome e guild action res s2))"
proof -
  have "guild \<notin> grant_keys s1" using keys_revoke [of e guild reason s] assms(2,3) by auto
  then have s2: "guild \<notin> grant_keys s2" using keys_run [OF assms(4)] assms(5) by blast
  have "auth_ok gone s1" using ok_revoke [OF assms(1), of e guild reason] assms(3) by simp
  then obtain gone' where ok: "auth_ok gone' s2" using ok_run assms(5) by blast
  have "\<not> allowed (fst (authorize e guild action run s2))"
  proof
    assume a: "allowed (fst (authorize e guild action run s2))"
    obtain d s3 where p: "authorize e guild action run s2 = (d, s3)" by fastforce
    obtain b s0 where q: "prune_expired e s2 = (b, s0)" by fastforce
    have b: b using a p q by (auto simp: authorize_def Let_def audit_denied_def split: if_splits)
    let ?g = "find_grant (safe_guild_id guild) s0"
    have "decide (py_strip action) ?g = Authorized"
      using a p q b close_decision_allowed by (fastforce simp: authorize_def Let_def)
    then obtain g where "?g = Some g" by (auto simp: decide_def split: option.splits if_splits)
    from find_grant_pruned [OF ok _ this] q b have "map_of (grants s2) guild = Some g" by auto
    with s2 show False by (force simp: grant_keys_def dest: map_of_SomeD)
  qed
  moreover have "\<not> verified (fst (record_outcome e guild action res s2))"
  proof -
    obtain b s0 where q: "prune_expired e s2 = (b, s0)" by fastforce
    have "guild \<notin> grant_keys s0" using keys_prune [of e s2] q s2 by auto
    then have "find_grant (safe_guild_id guild) s0 = None"
      by (auto simp: find_grant_def safe_guild_id_def grant_keys_def map_of_eq_None_iff)
    with q show ?thesis
      by (simp add: record_outcome_def Let_def case_prod_unfold no_receipt_def)
  qed
  ultimately show ?thesis ..
qed

theorem revocation_is_effective_witness:
  "\<not> allowed (fst (authorize demo_auth_env 5 ''assistant:idle'' ''r''
     (foldl (auth_step demo_auth_env) (snd (revoke demo_auth_env 5 ''manual_revoke'' demo_auth))
        [Op_Status, Op_Actions 5])))"
proof -
  obtain r s1 where p: "revoke demo_auth_env 5 ''manual_revoke'' demo_auth = (r, s1)" by fastforce
  have l: "list_all (\<lambda>x. \<not> grants_to 5 x) [Op_Status, Op_Actions 5]" by simp
  from revocation_is_effective [OF demo_auth_ok _ p l refl] p show ?thesis by simp
qed

text \<open>
  An outcome is recorded as verified only when its result claims verification, reports a
  success status and carries an evidence code that this very action expects, and when a grant
  of the guild that has not expired lists the action (the grant the result names, if it names
  one); the audit log then ends with that outcome.
\<close>

theorem verified_outcome_has_evidence:
  assumes "auth_ok gone s" and "record_outcome e guild action r s = (rc, s')" and "verified rc"
  shows "recorded rc \<and> authorization_current rc \<and> res_verified r \<and> norm_status r \<in> set success_statuses \<and>
    py_strip (res_evidence r) \<in> set (action_evidence_codes (py_strip (py_strip action))) \<and>
    (\<exists>g. map_of (grants s) guild = Some g \<and> grant_is_active g (wall e (tick s)) (mono e (tick s)) \<and>
       py_strip action \<in> set (grant_scopes g) \<and>
       (safe_identifier (res_grant_id r) = [] \<or> safe_identifier (res_grant_id r) = grant_id g) \<and>
       (\<exists>log v. audit_log s' = log @ [v] \<and> ev_verified v = Some True \<and> ev_grant v = Some g))"
proof -
  obtain b s1 where p: "prune_expired e s = (b, s1)" by fastforce
  have b: b using assms(2,3) p by (cases b) (auto simp: record_outcome_def Let_def no_receipt_def)
  let ?a = "py_strip action" and ?gid = "safe_guild_id guild" and ?w = "safe_identifier (res_grant_id r)"
  let ?g = "find_grant ?gid s1"
  let ?same = "case ?g of None \<Rightarrow> False | Some gr \<Rightarrow> ?w = [] \<or> grant_id gr = ?w"
  let ?cur = "?same \<and> ?a \<in> set (grant_scopes (the ?g))"
  let ?ver = "outcome_verified ?a r \<and> ?cur"
  obtain v s2 where v: "append_event e v s1 = (True, s2)" "ev_verified v = Some ?ver"
      "ev_grant v = (if ?same then ?g else None)"
    and rc: "rc = \<lparr>recorded = True, verified = ?ver, authorization_current = ?cur\<rparr>" "s' = write_status e s2"
    using assms(2,3) p b by (auto simp: record_outcome_def Let_def no_receipt_def split: prod.splits if_splits)
  have ver: ?ver using assms(3) rc by simp
  then obtain g where g: "?g = Some g" "?w = [] \<or> ?w = grant_id g" "?a \<in> set (grant_scopes g)"
    by (auto split: option.splits)
  have "map_of (grants s) guild = Some g" "grant_is_active g (wall e (tick s)) (mono e (tick s))"
    using find_grant_pruned [OF assms(1) _ g(1)] p b by auto
  moreover have "audit_log s' = audit_log s1 @ [event_record (wall e (tick s1)) v]"
    using append_event_log [OF v(1)] rc(2) by simp
  moreover have "ev_verified (event_record t v) = Some True" "ev_grant (event_record t v) = Some g" for t
    using v(2,3) ver g by (auto simp: event_record_def)
  ultimately show ?thesis
    using rc(1) ver g unfolding outcome_verified_def expected_evidence_codes_def by auto
qed

definition demo_result :: outcome_result where
  "demo_result = \<lparr>res_status = ''done'', res_verified = True, res_evidence = ''no_side_effect_required'',
     res_grant_id = [], res_run_id = []\<rparr>"

lemma demo_verified: "outcome_verified ''assistant:idle'' demo_result"
  by (simp add: outcome_verified_def norm_status_def demo_result_def py_strip_def py_space_def
      lower_char_def success_statuses_def expected_evidence_codes_def action_evidence_codes_def
      minecraft_actions_def assistant_evidence_def dict_simps char_of_def)

theorem verified_outcome_has_evidence_witness:
  "authorization_current (fst (record_outcome demo_auth_env 5 ''assistant:idle'' demo_result demo_auth))"
proof -
  obtain rc s' where p: "record_outcome demo_auth_env 5 ''assistant:idle'' demo_result demo_auth = (rc, s')"
    by fastforce
  have "find_grant (Some 5) (demo_auth\<lparr>tick := 1\<rparr>) = Some demo_grant"
    by (simp add: find_grant_def demo_auth_def)
  moreover have "audit_ok demo_auth_env n" for n by (simp add: demo_auth_env_def)
  moreover have "safe_identifier (res_grant_id demo_result) = []"
    by (simp add: demo_result_def safe_identifier_def py_strip_def)
  moreover have "''assistant:idle'' \<in> set (grant_scopes demo_grant)" by (simp add: demo_grant_def)
  ultimately have "verified (fst (record_outcome demo_auth_env 5 ''assistant:idle'' demo_result demo_auth))"
    using demo_verified by (simp add: record_outcome_def safe_guild_id_def append_event_def Let_def)
  then have "verified rc" using p by simp
  from verified_outcome_has_evidence [OF demo_auth_ok p this] p show ?thesis by simp
qed

end
