(* ===== verification/World_Lease.thy ===== *)
theory World_Lease
  imports Py_Value
begin

text \<open>
  \<open>evelyn_core/minecraft_world_lease_contract.py\<close>: the check that a request to change the
  Minecraft world presents the proof of a lease that is authorized now, and
  \<open>evelyn_core/continuity_commit_contract.py\<close>: which status of the conversation store counts as
  a durable commit.

  Both check untyped dictionaries, so they work on \<open>pyval\<close>; \<open>Inl\<close> is an exception that leaves
  the function. A read of a JSON file is a \<open>file_read\<close>: the three exceptions that
  \<open>_read_json_object\<close> catches, the decoding error it does not catch, or the parsed value. The
  parameter \<open>repr\<close> is Python's \<open>repr\<close> of floats and containers.
\<close>

section \<open>Sanitizers\<close>

definition canonical_nonce :: "pyval \<Rightarrow> string" where
  "canonical_nonce v = (case v of PStr s \<Rightarrow> (if s \<noteq> [] \<and> py_strip s = s then s else []) | _ \<Rightarrow> [])"

definition finite_float :: "pyval \<Rightarrow> py_exn + real option" where
  "finite_float v =
     (case py_float v of
        Inl x \<Rightarrow> if x = Type_Error \<or> x = Value_Error then Inr None else Inl x
      | Inr f \<Rightarrow> Inr (if is_finite f then Some (fin_val f) else None))"

definition safe_guild_id :: "pyval \<Rightarrow> py_exn + int option" where
  "safe_guild_id v =
     (case py_int v of
        Inl x \<Rightarrow> if x = Type_Error \<or> x = Value_Error then Inr None else Inl x
      | Inr i \<Rightarrow> Inr (if i \<ge> 0 then Some i else None))"

definition alnum_char :: "char \<Rightarrow> bool" where
  "alnum_char c = (c \<in> set ''abcdefghijklmnopqrstuvwxyzABCDEFGHIJKLMNOPQRSTUVWXYZ0123456789'')"

definition record_id_char :: "char \<Rightarrow> bool" where
  "record_id_char c \<longleftrightarrow> alnum_char c \<or> c \<in> set ''_.:-''"

definition record_id_ok :: "string \<Rightarrow> bool" where
  "record_id_ok p \<longleftrightarrow> p \<noteq> [] \<and> py_strip p = p \<and> length p \<le> 64 \<and> alnum_char (hd p) \<and>
     list_all record_id_char p"

fun parent_record_ids :: "pyval \<Rightarrow> string list option" where
  "parent_record_ids PNone = Some []"
| "parent_record_ids (PList []) = Some []"
| "parent_record_ids (PList [PStr p]) = (if record_id_ok p then Some [p] else None)"
| "parent_record_ids _ = None"

section \<open>Files\<close>

datatype file_read = Read_Failed | Read_Undecodable | Read_Json pyval

fun read_json_object :: "file_read \<Rightarrow> py_exn + (string \<times> pyval) list" where
  "read_json_object Read_Failed = Inr []"
| "read_json_object Read_Undecodable = Inl Unicode_Error"
| "read_json_object (Read_Json (PDict d)) = Inr d"
| "read_json_object (Read_Json _) = Inr []"

definition status_schema :: string where "status_schema = ''minecraft_world_lease.status.v1''"
definition proof_schema :: string where "proof_schema = ''minecraft_world_lease.proof.v1''"
definition secret_schema :: string where "secret_schema = ''minecraft_world_lease.secret.v1''"
definition claim_schema :: string where "claim_schema = ''minecraft_world_lease.owner_claim.v1''"

definition owner_claim_nonce :: "(string \<times> pyval) list \<Rightarrow> string" where
  "owner_claim_nonce d =
     (let n = canonical_nonce (py_get d ''processNonce'')
      in if \<not> py_eq (py_get d ''schema'') (PStr claim_schema) \<or> n = [] then [] else n)"

definition owner_claim_matches :: "file_read \<Rightarrow> string \<Rightarrow> py_exn + bool" where
  "owner_claim_matches f nonce =
     (let expected = canonical_nonce (PStr nonce)
      in bind_r (read_json_object f) (\<lambda>d.
        let observed = owner_claim_nonce d
        in if expected = [] \<or> observed = [] then Inr False else compare_digest expected observed))"

section \<open>The proof of a lease\<close>

definition proof_of :: "string \<Rightarrow> int \<Rightarrow> string \<Rightarrow> real \<Rightarrow> string list \<Rightarrow> string \<Rightarrow> (string \<times> pyval) list" where
  "proof_of lid gid nonce expires parents token =
     [(''schema'', PStr proof_schema), (''leaseId'', PStr lid), (''guildId'', PInt gid),
      (''processNonce'', PStr nonce), (''expiresAt'', PFloat (Fin expires))] @
     (if parents \<noteq> [] then [(''parentRecordIds'', PList (map PStr parents))] else []) @
     (if token \<noteq> [] then [(''authorizationToken'', PStr token)] else [])"

definition build_world_lease_proof ::
  "(pyval \<Rightarrow> string) \<Rightarrow> (string \<times> pyval) list \<Rightarrow> string \<Rightarrow> py_exn + (string \<times> pyval) list" where
  "build_world_lease_proof repr st token =
     (case py_get st ''lease'' of
        PDict l \<Rightarrow>
          let lid = py_strip (str_or_empty repr (py_get l ''leaseId''));
              nonce = canonical_nonce (py_get st ''processNonce'')
          in bind_r (safe_guild_id (py_get l ''guildId'')) (\<lambda>gid.
             bind_r (finite_float (py_get l ''expiresAt'')) (\<lambda>expires.
               let parents = parent_record_ids (py_get l ''parentRecordIds'')
               in if lid = [] \<or> nonce = [] \<or> gid = None \<or> expires = None \<or> parents = None then Inr []
                  else Inr (proof_of lid (the gid) nonce (the expires) (the parents) (py_strip token))))
      | _ \<Rightarrow> Inr [])"

definition load_world_lease_authorization_token ::
  "(pyval \<Rightarrow> string) \<Rightarrow> file_read \<Rightarrow> string \<Rightarrow> string \<Rightarrow> pyval \<Rightarrow> py_exn + (string \<times> string)" where
  "load_world_lease_authorization_token repr f nonce lease_id monotonic_now =
     bind_r (read_json_object f) (\<lambda>d.
       if \<not> py_eq (py_get d ''schema'') (PStr secret_schema)
       then Inr ([], ''minecraft_world_lease_secret_missing'')
       else
         let stored = canonical_nonce (py_get d ''processNonce'');
             expected = canonical_nonce (PStr nonce);
             token = py_strip (str_or_empty repr (py_get d ''authorizationToken''));
             mismatch = ([], ''minecraft_world_lease_secret_mismatch'')
         in if stored = [] \<or> expected = [] \<or> token = [] then Inr mismatch
            else bind_r (compare_digest stored expected) (\<lambda>same.
              if \<not> same then Inr mismatch
              else
                let want = py_strip lease_id
                in if want = [] then Inr (token, [])
                   else
                     let have_id = py_strip (str_or_empty repr (py_get d ''leaseId''))
                     in bind_r (finite_float (py_get d ''expiresMonotonic'')) (\<lambda>expires.
                        bind_r (finite_float monotonic_now) (\<lambda>current.
                          if have_id = [] then Inr mismatch
                          else bind_r (compare_digest have_id want) (\<lambda>same_id.
                            if \<not> same_id \<or> expires = None \<or> current = None then Inr mismatch
                            else if the expires \<le> the current
                            then Inr ([], ''minecraft_world_lease_expired'')
                            else Inr (token, []))))))"

section \<open>Validating the status\<close>

definition validate_world_lease_status ::
  "(pyval \<Rightarrow> string) \<Rightarrow> pyval \<Rightarrow> real \<Rightarrow> real \<Rightarrow> py_exn + (bool \<times> string)" where
  "validate_world_lease_status repr status now hb =
     (case status of
        PDict (p # r) \<Rightarrow>
          let st = p # r; bad = (\<lambda>c. Inr (False, c))
          in if \<not> py_eq (py_get st ''schema'') (PStr status_schema)
             then bad ''minecraft_world_lease_status_invalid''
             else if py_get st ''auditReady'' \<noteq> PBool True
             then bad ''minecraft_world_lease_audit_unavailable''
             else if py_get st ''statusReady'' \<noteq> PBool True
             then bad ''minecraft_world_lease_status_write_failed''
             else if \<not> py_eq (py_get st ''state'') (PStr ''authorized'') \<or> py_get st ''active'' \<noteq> PBool True
             then bad ''minecraft_world_authorization_required''
             else (case py_get st ''lease'' of
                PDict l \<Rightarrow>
                  bind_r (finite_float (py_get st ''updatedAt'')) (\<lambda>updated.
                  bind_r (finite_float (py_get l ''expiresAt'')) (\<lambda>expires.
                    if updated = None \<or> now - the updated > max 1 hb
                    then bad ''minecraft_world_lease_heartbeat_stale''
                    else if the updated > now + max 1 hb
                    then bad ''minecraft_world_lease_clock_invalid''
                    else if expires = None \<or> the expires \<le> now
                    then bad ''minecraft_world_lease_expired''
                    else bind_r (build_world_lease_proof repr st []) (\<lambda>proof.
                      if proof = [] then bad ''minecraft_world_lease_status_invalid''
                      else Inr (True, []))))
              | _ \<Rightarrow> bad ''minecraft_world_lease_status_invalid'')
      | _ \<Rightarrow> Inr (False, ''minecraft_world_lease_status_missing''))"

definition owner_conflict :: string where "owner_conflict = ''minecraft_world_lease_owner_conflict''"

text \<open>The files at the moments they are read: the owner claim is read twice, later a third time.\<close>

record lease_files =
  status_read :: file_read
  claim_read :: "nat \<Rightarrow> file_read"
  secret_read :: file_read

definition load_valid_world_lease ::
  "(pyval \<Rightarrow> string) \<Rightarrow> lease_files \<Rightarrow> real \<Rightarrow> real \<Rightarrow> py_exn + ((string \<times> pyval) list \<times> string)" where
  "load_valid_world_lease repr fs now hb =
     bind_r (read_json_object (status_read fs)) (\<lambda>st.
     bind_r (validate_world_lease_status repr (PDict st) now hb) (\<lambda>v.
       if \<not> fst v then Inr ([], snd v)
       else
         let nonce = str_or_empty repr (py_get st ''processNonce'')
         in bind_r (owner_claim_matches (claim_read fs 0) nonce) (\<lambda>m0.
            if \<not> m0 then Inr ([], owner_conflict)
            else bind_r (owner_claim_matches (claim_read fs 1) nonce) (\<lambda>m1.
              if \<not> m1 then Inr ([], owner_conflict) else Inr (st, [])))))"

definition load_guarded_world_lease ::
  "(pyval \<Rightarrow> string) \<Rightarrow> lease_files \<Rightarrow> real \<Rightarrow> pyval \<Rightarrow> real \<Rightarrow>
   py_exn + ((string \<times> pyval) list \<times> string)" where
  "load_guarded_world_lease repr fs now mnow hb =
     bind_r (load_valid_world_lease repr fs now hb) (\<lambda>v.
       if snd v \<noteq> [] then Inr ([], snd v)
       else
         let st = fst v; nonce = str_or_empty repr (py_get st ''processNonce'');
             lid = (case py_get st ''lease'' of
                      PDict l \<Rightarrow> str_or_empty repr (py_get l ''leaseId'') | _ \<Rightarrow> [])
         in bind_r (load_world_lease_authorization_token repr (secret_read fs) nonce lid mnow) (\<lambda>t.
            if snd t \<noteq> [] then Inr ([], snd t)
            else bind_r (owner_claim_matches (claim_read fs 2) nonce) (\<lambda>m.
              if \<not> m then Inr ([], owner_conflict) else Inr (st, []))))"

section \<open>Validating a request\<close>

definition proof_keys :: "string list" where
  "proof_keys = [''leaseId'', ''guildId'', ''processNonce'', ''expiresAt'']"

definition proof_agrees :: "(string \<times> pyval) list \<Rightarrow> (string \<times> pyval) list \<Rightarrow> bool" where
  "proof_agrees presented expected \<longleftrightarrow>
     list_all (\<lambda>k. py_eq (py_get presented k) (py_get expected k)) proof_keys \<and>
     py_eq (py_get presented ''parentRecordIds'') (py_get expected ''parentRecordIds'')"

definition validate_world_lease_request ::
  "(pyval \<Rightarrow> string) \<Rightarrow> lease_files \<Rightarrow> pyval \<Rightarrow> real \<Rightarrow> real \<Rightarrow> real \<Rightarrow> py_exn + (bool \<times> string)" where
  "validate_world_lease_request repr fs payload now mnow hb =
     (let bad = (\<lambda>c. Inr (False, c)); missing = bad ''minecraft_world_lease_proof_missing''
      in case payload of
           PDict body \<Rightarrow>
             (case py_get body ''worldLease'' of
                PDict presented \<Rightarrow>
                  bind_r (load_valid_world_lease repr fs now hb) (\<lambda>v.
                    if snd v \<noteq> [] then bad (snd v)
                    else bind_r (build_world_lease_proof repr (fst v) []) (\<lambda>expected.
                      if \<not> py_eq (py_get presented ''schema'') (PStr proof_schema)
                      then bad ''minecraft_world_lease_proof_invalid''
                      else if \<not> proof_agrees presented expected
                      then bad ''minecraft_world_lease_proof_mismatch''
                      else
                        let nonce = str_or_empty repr (py_get expected ''processNonce'');
                            lid = str_or_empty repr (py_get expected ''leaseId'')
                        in bind_r (load_world_lease_authorization_token repr (secret_read fs) nonce lid
                                    (PFloat (Fin mnow))) (\<lambda>t.
                           if snd t \<noteq> [] then bad (snd t)
                           else
                             let token = py_strip (str_or_empty repr (py_get presented ''authorizationToken''))
                             in if token = [] then bad ''minecraft_world_lease_secret_mismatch''
                                else bind_r (compare_digest token (fst t)) (\<lambda>same.
                                  if \<not> same then bad ''minecraft_world_lease_secret_mismatch''
                                  else bind_r (owner_claim_matches (claim_read fs 2) nonce) (\<lambda>m.
                                    if \<not> m then bad owner_conflict else Inr (True, []))))))
              | _ \<Rightarrow> missing)
         | _ \<Rightarrow> missing)"

section \<open>Durable commits of the conversation\<close>

definition exact_nonnegative_int :: "pyval \<Rightarrow> nat option" where
  "exact_nonnegative_int v = (case v of PInt i \<Rightarrow> (if i < 0 then None else Some (nat i)) | _ \<Rightarrow> None)"

definition at_least_one :: "nat option \<Rightarrow> bool" where
  "at_least_one n = (case n of None \<Rightarrow> False | Some k \<Rightarrow> 1 \<le> k)"

definition head_ok :: "(string \<times> pyval) list \<Rightarrow> bool" where
  "head_ok d \<longleftrightarrow>
     py_eq (py_get d ''schema'') (PStr ''conversation_continuity.status.v1'') \<and>
     py_eq (py_get d ''state'') (PStr ''ready'') \<and> py_get d ''rollbackProtected'' = PBool True \<and>
     py_eq (py_get d ''checkpointIntegrity'') (PStr ''verified'') \<and>
     py_eq (py_get d ''checkpointHeadState'') (PStr ''current'') \<and>
     (py_get d ''keyedAuthenticity'' = PBool True \<longrightarrow>
        py_eq (py_get d ''checkpointHeadAuthenticity'') (PStr ''verified'') \<and>
        py_get d ''tamperEvident'' = PBool True) \<and>
     (py_get d ''externalAnchorConfigured'' = PBool True \<longrightarrow>
        py_get d ''externalReplayProtected'' = PBool True)"

definition counts_ok :: "(string \<times> pyval) list \<Rightarrow> bool" where
  "counts_ok m =
     (case (exact_nonnegative_int (py_get m ''attemptCount''), exact_nonnegative_int (py_get m ''successCount''),
            exact_nonnegative_int (py_get m ''failureCount''), exact_nonnegative_int (py_get m ''sampleCount'')) of
        (Some a, Some s, Some f, Some n) \<Rightarrow> \<not> (a < 1 \<or> s < 1 \<or> s + f \<noteq> a \<or> n < 1 \<or> n > s)
      | _ \<Rightarrow> False)"

datatype commit_error = Continuity_Commit_Failed

record commit_receipt =
  durable :: bool
  generation :: nat
  persisted_sessions :: nat

definition require_durable_continuity_receipt :: "pyval \<Rightarrow> commit_error + commit_receipt" where
  "require_durable_continuity_receipt v =
     (case v of
        PDict d \<Rightarrow>
          let g = exact_nonnegative_int (py_get d ''checkpointGeneration'');
              p = exact_nonnegative_int (py_get d ''persistedSessionCount'')
          in (case py_get d ''completedTurnCommit'' of
                PDict m \<Rightarrow>
                  if \<not> head_ok d \<or> \<not> at_least_one g \<or> \<not> at_least_one p
                     \<or> \<not> py_eq (py_get m ''schema'') (PStr ''conversation_continuity.commit-metrics.v1'')
                     \<or> py_get m ''lastSucceeded'' \<noteq> PBool True \<or> py_get m ''lastTargetVerified'' \<noteq> PBool True
                     \<or> \<not> counts_ok m
                  then Inl Continuity_Commit_Failed
                  else Inr \<lparr>durable = True, generation = the g, persisted_sessions = the p\<rparr>
              | _ \<Rightarrow> Inl Continuity_Commit_Failed)
      | _ \<Rightarrow> Inl Continuity_Commit_Failed)"

section \<open>What the checks establish\<close>

lemma read_json_Cons: "read_json_object f = Inr (p # r) \<longleftrightarrow> f = Read_Json (PDict (p # r))"
  by (cases f rule: read_json_object.cases) auto

lemma read_json_get: "read_json_object f = Inr d \<Longrightarrow> py_get d k \<noteq> PNone \<Longrightarrow> f = Read_Json (PDict d)"
  by (cases f rule: read_json_object.cases) (auto simp: py_get_def)

lemma finite_float_Some: "finite_float v = Inr (Some x) \<longleftrightarrow> py_float v = Inr (Fin x)"
proof (cases "py_float v")
  case (Inr f)
  then show ?thesis by (cases f) (auto simp: finite_float_def)
qed (auto simp: finite_float_def)

lemma canonical_nonce_eq: "n \<noteq> [] \<Longrightarrow> canonical_nonce v = n \<longleftrightarrow> v = PStr n \<and> py_strip n = n"
  by (cases v) (auto simp: canonical_nonce_def)

lemma owner_claim_matches_True:
  assumes "owner_claim_matches f n = Inr True"
  shows "n \<noteq> [] \<and> (\<exists>d. f = Read_Json (PDict d) \<and> py_get d ''schema'' = PStr claim_schema \<and>
    py_get d ''processNonce'' = PStr n)"
proof -
  obtain d where d: "read_json_object f = Inr d" and e: "canonical_nonce (PStr n) \<noteq> []"
    and o: "owner_claim_nonce d = canonical_nonce (PStr n)"
    using assms by (auto simp: owner_claim_matches_def bind_r_Inr Let_def split: if_splits)
  from e have n: "canonical_nonce (PStr n) = n" "n \<noteq> []"
    by (auto simp: canonical_nonce_def split: if_splits)
  with o have "py_get d ''schema'' = PStr claim_schema" "canonical_nonce (py_get d ''processNonce'') = n"
    by (auto simp: owner_claim_nonce_def Let_def split: if_splits)
  then show ?thesis using n d read_json_get [OF d, of "''schema''"] canonical_nonce_eq [OF n(2)] by auto
qed

definition status_current :: "(string \<times> pyval) list \<Rightarrow> real \<Rightarrow> real \<Rightarrow> bool" where
  "status_current st now hb \<longleftrightarrow>
     py_get st ''schema'' = PStr status_schema \<and> py_get st ''auditReady'' = PBool True \<and>
     py_get st ''statusReady'' = PBool True \<and> py_get st ''state'' = PStr ''authorized'' \<and>
     py_get st ''active'' = PBool True \<and>
     (\<exists>l updated expires. py_get st ''lease'' = PDict l \<and> py_float (py_get st ''updatedAt'') = Inr (Fin updated) \<and>
        py_float (py_get l ''expiresAt'') = Inr (Fin expires) \<and>
        \<bar>now - updated\<bar> \<le> max 1 hb \<and> now < expires)"

lemma validate_status_True:
  assumes "validate_world_lease_status repr (PDict st) now hb = Inr (True, c)"
  shows "status_current st now hb \<and> (\<exists>p. build_world_lease_proof repr st [] = Inr p \<and> p \<noteq> []) \<and> c = [] \<and> st \<noteq> []"
proof (cases st)
  case (Cons q r)
  then obtain l updated expires p where l: "py_get st ''lease'' = PDict l"
    and head: "py_get st ''schema'' = PStr status_schema" "py_get st ''auditReady'' = PBool True"
      "py_get st ''statusReady'' = PBool True" "py_get st ''state'' = PStr ''authorized''"
      "py_get st ''active'' = PBool True"
    and up: "finite_float (py_get st ''updatedAt'') = Inr (Some updated)" "now - updated \<le> max 1 hb"
      "updated \<le> now + max 1 hb"
    and ex: "finite_float (py_get l ''expiresAt'') = Inr (Some expires)" "now < expires"
    and p: "build_world_lease_proof repr st [] = Inr p" "p \<noteq> []" and c: "c = []"
    using assms unfolding validate_world_lease_status_def
    by (auto simp: bind_r_Inr Let_def split: if_split_asm pyval.split_asm)
  then show ?thesis using Cons unfolding status_current_def finite_float_Some by auto
qed (use assms in \<open>simp add: validate_world_lease_status_def\<close>)

lemma build_proof_nonempty:
  assumes "build_world_lease_proof repr st token = Inr p" and "p \<noteq> []"
  shows "\<exists>l lid gid nonce expires parents. py_get st ''lease'' = PDict l \<and>
    p = proof_of lid gid nonce expires parents (py_strip token) \<and> lid \<noteq> [] \<and> nonce \<noteq> [] \<and>
    py_strip lid = lid \<and>
    py_get st ''processNonce'' = PStr nonce \<and> py_float (py_get l ''expiresAt'') = Inr (Fin expires) \<and>
    lid = py_strip (str_or_empty repr (py_get l ''leaseId'')) \<and> py_int (py_get l ''guildId'') = Inr gid \<and> 0 \<le> gid \<and>
    parent_record_ids (py_get l ''parentRecordIds'') = Some parents"
proof -
  obtain l where l: "py_get st ''lease'' = PDict l"
    using assms by (auto simp: build_world_lease_proof_def split: pyval.splits)
  let ?lid = "py_strip (str_or_empty repr (py_get l ''leaseId''))"
  let ?nonce = "canonical_nonce (py_get st ''processNonce'')"
  obtain gid expires parents where *: "safe_guild_id (py_get l ''guildId'') = Inr (Some gid)"
    "finite_float (py_get l ''expiresAt'') = Inr (Some expires)" "?lid \<noteq> []" "?nonce \<noteq> []"
    "p = proof_of ?lid gid ?nonce expires parents (py_strip token)" "parent_record_ids (py_get l ''parentRecordIds'') = Some parents"
    using assms l by (auto simp: build_world_lease_proof_def Let_def bind_r_Inr split: if_splits)
  have "py_int (py_get l ''guildId'') = Inr gid \<and> 0 \<le> gid"
    using *(1) by (auto simp: safe_guild_id_def split: sum.splits if_splits)
  moreover have "py_strip ?lid = ?lid" by (rule py_strip_idem)
  ultimately show ?thesis using * l canonical_nonce_eq [OF *(4)] finite_float_Some by blast
qed

lemma load_token_ok:
  assumes "load_world_lease_authorization_token repr f nonce lid m = Inr (t, [])" and "py_strip lid \<noteq> []"
  shows "\<exists>d x y. f = Read_Json (PDict d) \<and> py_get d ''schema'' = PStr secret_schema \<and>
    py_get d ''processNonce'' = PStr nonce \<and> t \<noteq> [] \<and>
    t = py_strip (str_or_empty repr (py_get d ''authorizationToken'')) \<and>
    py_strip (str_or_empty repr (py_get d ''leaseId'')) = py_strip lid \<and>
    py_float (py_get d ''expiresMonotonic'') = Inr (Fin x) \<and> py_float m = Inr (Fin y) \<and> y < x"
proof -
  obtain d where d: "read_json_object f = Inr d"
    using assms(1) by (auto simp: load_world_lease_authorization_token_def bind_r_Inr)
  let ?t = "py_strip (str_or_empty repr (py_get d ''authorizationToken''))"
  have schema: "py_get d ''schema'' = PStr secret_schema"
    using assms(1) d by (auto simp: load_world_lease_authorization_token_def split: if_splits)
  have nonces: "canonical_nonce (py_get d ''processNonce'') = canonical_nonce (PStr nonce)"
    "canonical_nonce (PStr nonce) \<noteq> []" "?t \<noteq> []"
    using assms(1) d schema
    by (auto simp: load_world_lease_authorization_token_def bind_r_Inr Let_def split: if_splits)
  obtain x y where rest: "t = ?t" "finite_float (py_get d ''expiresMonotonic'') = Inr (Some x)"
    "finite_float m = Inr (Some y)" "y < x" "py_strip (str_or_empty repr (py_get d ''leaseId'')) = py_strip lid"
    using assms d schema nonces
    by (auto simp: load_world_lease_authorization_token_def bind_r_Inr Let_def split: if_splits)
  from nonces(2) have "canonical_nonce (PStr nonce) = nonce" "nonce \<noteq> []"
    by (auto simp: canonical_nonce_def split: if_splits)
  then have "py_get d ''processNonce'' = PStr nonce" using nonces(1) canonical_nonce_eq by metis
  moreover have "f = Read_Json (PDict d)" using read_json_get [OF d, of "''schema''"] schema by simp
  ultimately show ?thesis using schema nonces(3) rest finite_float_Some by auto
qed

lemma load_valid_ok:
  assumes "load_valid_world_lease repr fs now hb = Inr (st, [])"
  shows "status_read fs = Read_Json (PDict st) \<and> status_current st now hb \<and>
    (\<exists>p. build_world_lease_proof repr st [] = Inr p \<and> p \<noteq> []) \<and>
    (\<forall>i < 2. owner_claim_matches (claim_read fs i) (str_or_empty repr (py_get st ''processNonce'')) = Inr True)"
proof -
  obtain d v where d: "read_json_object (status_read fs) = Inr d"
    and v: "validate_world_lease_status repr (PDict d) now hb = Inr v"
    using assms by (auto simp: load_valid_world_lease_def bind_r_Inr)
  have fv: "fst v"
  proof (rule ccontr)
    assume "\<not> fst v"
    then have "snd v = []" using assms d v by (auto simp: load_valid_world_lease_def)
    with \<open>\<not> fst v\<close> v have "validate_world_lease_status repr (PDict d) now hb = Inr (False, [])"
      by (cases v) simp
    then show False unfolding validate_world_lease_status_def
      by (auto simp: bind_r_Inr Let_def split: if_split_asm pyval.split_asm list.split_asm)
  qed
  then have "validate_world_lease_status repr (PDict d) now hb = Inr (True, snd v)" using v by (cases v) simp
  from validate_status_True [OF this] have ok: "status_current d now hb" "d \<noteq> []"
    "\<exists>p. build_world_lease_proof repr d [] = Inr p \<and> p \<noteq> []" by auto
  have m: "owner_claim_matches (claim_read fs 0) (str_or_empty repr (py_get d ''processNonce'')) = Inr True"
    "owner_claim_matches (claim_read fs 1) (str_or_empty repr (py_get d ''processNonce'')) = Inr True" "st = d"
    using assms d v fv by (auto simp: load_valid_world_lease_def owner_conflict_def bind_r_Inr Let_def split: if_splits)
  have "\<forall>i < 2. owner_claim_matches (claim_read fs i) (str_or_empty repr (py_get d ''processNonce'')) = Inr True"
    using m(1,2) by (auto simp: less_Suc_eq numeral_2_eq_2)
  moreover have "status_read fs = Read_Json (PDict d)"
    using read_json_Cons d ok(2) by (metis neq_Nil_conv)
  ultimately show ?thesis using ok m(3) by auto
qed

lemma proof_of_gets [simp]:
  "py_get (proof_of lid gid nonce expires parents token) ''schema'' = PStr proof_schema"
  "py_get (proof_of lid gid nonce expires parents token) ''leaseId'' = PStr lid"
  "py_get (proof_of lid gid nonce expires parents token) ''guildId'' = PInt gid"
  "py_get (proof_of lid gid nonce expires parents token) ''processNonce'' = PStr nonce"
  "py_get (proof_of lid gid nonce expires parents token) ''expiresAt'' = PFloat (Fin expires)"
  "py_get (proof_of lid gid nonce expires parents token) ''parentRecordIds'' =
     (if parents = [] then PNone else PList (map PStr parents))"
  "py_get (proof_of lid gid nonce expires parents token) ''authorizationToken'' =
     (if token = [] then PNone else PStr token)"
  by (simp_all add: py_get_def proof_of_def)

text \<open>
  C8. A request to change the world is accepted only while the published status is authorized,
  active, audited, fresh and unexpired, when the proof in the request agrees with the lease of that status in every
  field (schema, lease, guild, process, expiry and parent records) and
  carries the non-empty secret token that is filed for this lease and process and has not
  expired on the monotonic clock, and when the owner claim names the same process in all three
  readings.
\<close>

theorem accepted_request_is_proved:
  assumes "validate_world_lease_request repr fs payload now mnow hb = Inr (True, c)"
  shows "\<exists>st l body presented nonce lid gid expires parents sec token x.
    status_read fs = Read_Json (PDict st) \<and> status_current st now hb \<and> py_get st ''lease'' = PDict l \<and>
    payload = PDict body \<and> py_get body ''worldLease'' = PDict presented \<and> py_get presented ''schema'' = PStr proof_schema \<and>
    py_get st ''processNonce'' = PStr nonce \<and> py_get presented ''processNonce'' = PStr nonce \<and>
    lid = py_strip (str_or_empty repr (py_get l ''leaseId'')) \<and> py_get presented ''leaseId'' = PStr lid \<and>
    py_int (py_get l ''guildId'') = Inr gid \<and> py_eq (py_get presented ''guildId'') (PInt gid) \<and>
    py_float (py_get l ''expiresAt'') = Inr (Fin expires) \<and> py_eq (py_get presented ''expiresAt'') (PFloat (Fin expires)) \<and>
    parent_record_ids (py_get l ''parentRecordIds'') = Some parents \<and>
    py_eq (py_get presented ''parentRecordIds'') (if parents = [] then PNone else PList (map PStr parents)) \<and>
    secret_read fs = Read_Json (PDict sec) \<and> py_get sec ''schema'' = PStr secret_schema \<and> py_get sec ''processNonce'' = PStr nonce \<and>
    py_strip (str_or_empty repr (py_get sec ''leaseId'')) = lid \<and>
    py_float (py_get sec ''expiresMonotonic'') = Inr (Fin x) \<and> mnow < x \<and>
    token = py_strip (str_or_empty repr (py_get sec ''authorizationToken'')) \<and> token \<noteq> [] \<and>
    py_strip (str_or_empty repr (py_get presented ''authorizationToken'')) = token \<and>
    (\<forall>i < 3. \<exists>d. claim_read fs i = Read_Json (PDict d) \<and> py_get d ''schema'' = PStr claim_schema \<and> py_get d ''processNonce'' = PStr nonce)"
proof -
  obtain body presented v expected where b: "payload = PDict body" "py_get body ''worldLease'' = PDict presented"
    and v: "load_valid_world_lease repr fs now hb = Inr v" "snd v = []"
    and e: "build_world_lease_proof repr (fst v) [] = Inr expected" "proof_agrees presented expected"
    and sch: "py_get presented ''schema'' = PStr proof_schema"
    using assms unfolding validate_world_lease_request_def Let_def
    by (auto simp: bind_r_Inr split: pyval.split_asm if_split_asm)
  let ?st = "fst v" and ?tok = "py_strip (str_or_empty repr (py_get presented ''authorizationToken''))"
  have ok: "status_read fs = Read_Json (PDict ?st)" "status_current ?st now hb"
    "\<exists>p. build_world_lease_proof repr ?st [] = Inr p \<and> p \<noteq> []"
    "\<forall>i < 2. owner_claim_matches (claim_read fs i) (str_or_empty repr (py_get ?st ''processNonce'')) = Inr True"
    using load_valid_ok [of repr fs now hb ?st] v by (cases v; simp)+
  then have "expected \<noteq> []" using e(1) by simp
  from build_proof_nonempty [OF e(1) this] obtain l lid gid nonce expires parents where
    p: "expected = proof_of lid gid nonce expires parents []" "lid \<noteq> []" "py_strip lid = lid"
      "py_get ?st ''processNonce'' = PStr nonce"
    and l: "py_get ?st ''lease'' = PDict l" "lid = py_strip (str_or_empty repr (py_get l ''leaseId''))"
      "py_int (py_get l ''guildId'') = Inr gid" "py_float (py_get l ''expiresAt'') = Inr (Fin expires)"
      "parent_record_ids (py_get l ''parentRecordIds'') = Some parents" by auto
  obtain t m where t: "load_world_lease_authorization_token repr (secret_read fs) nonce lid (PFloat (Fin mnow)) = Inr t"
      "snd t = []" and tok: "?tok \<noteq> []" "?tok = fst t"
    and m: "owner_claim_matches (claim_read fs 2) nonce = Inr True"
    using assms b v e p unfolding validate_world_lease_request_def Let_def
    by (auto simp: bind_r_Inr split: if_split_asm)
  have lt: "load_world_lease_authorization_token repr (secret_read fs) nonce lid (PFloat (Fin mnow)) = Inr (fst t, [])"
    using t by (cases t) simp
  from load_token_ok [OF lt] p obtain d x where d: "secret_read fs = Read_Json (PDict d)" "py_get d ''schema'' = PStr secret_schema"
    "py_get d ''processNonce'' = PStr nonce" "fst t = py_strip (str_or_empty repr (py_get d ''authorizationToken''))"
    "py_strip (str_or_empty repr (py_get d ''leaseId'')) = lid"
    "py_float (py_get d ''expiresMonotonic'') = Inr (Fin x)" "mnow < x" by auto
  have claims: "\<exists>d. claim_read fs i = Read_Json (PDict d) \<and> py_get d ''schema'' = PStr claim_schema \<and> py_get d ''processNonce'' = PStr nonce"
    if "i < 3" for i
  proof -
    have "owner_claim_matches (claim_read fs i) nonce = Inr True"
      using that ok(4) m p(4) by (cases "i = 2") auto
    from owner_claim_matches_True [OF this] show ?thesis by auto
  qed
  have same: "py_get presented ''processNonce'' = PStr nonce" "py_get presented ''leaseId'' = PStr lid"
    "py_eq (py_get presented ''guildId'') (PInt gid)" "py_eq (py_get presented ''expiresAt'') (PFloat (Fin expires))"
    "py_eq (py_get presented ''parentRecordIds'') (if parents = [] then PNone else PList (map PStr parents))"
    using e(2) p(1) by (auto simp: proof_agrees_def proof_keys_def)
  show ?thesis
    by (rule exI [of _ ?st], rule exI [of _ l], rule exI [of _ body], rule exI [of _ presented], rule exI [of _ nonce],
        rule exI [of _ lid], rule exI [of _ gid], rule exI [of _ expires], rule exI [of _ parents], rule exI [of _ d],
        rule exI [of _ ?tok], rule exI [of _ x])
      (use ok(1,2) b sch p(4) l d tok claims same in auto)
qed

lemma eq_list_strs [simp]: "eq_list (map PStr l) (map PStr l)"
  by (induction l) simp_all

text \<open>
  A holder of the proof is let in. If the published status is valid, the owner claim names
  its process at all three readings and the secret file yields the token for this lease, then
  the proof that \<open>build_world_lease_proof\<close> makes of the status and the token is accepted.
\<close>

theorem built_proof_is_accepted:
  assumes "status_read fs = Read_Json (PDict st)"
    and "validate_world_lease_status repr (PDict st) now hb = Inr (True, [])"
    and "build_world_lease_proof repr st token = Inr p"
    and "\<forall>i < 3. owner_claim_matches (claim_read fs i) (str_or_empty repr (py_get st ''processNonce'')) = Inr True"
    and "load_world_lease_authorization_token repr (secret_read fs) (str_or_empty repr (py_get p ''processNonce''))
       (str_or_empty repr (py_get p ''leaseId'')) (PFloat (Fin mnow)) = Inr (token, [])"
    and "token \<noteq> []" and "py_strip token = token" and "ascii_text token"
  shows "validate_world_lease_request repr fs (PDict [(''worldLease'', PDict p)]) now mnow hb = Inr (True, [])"
proof -
  obtain q where q: "build_world_lease_proof repr st [] = Inr q" "q \<noteq> []"
    using validate_status_True [OF assms(2)] by blast
  have "p \<noteq> []"
    using q assms(3) by (auto simp: build_world_lease_proof_def Let_def bind_r_Inr proof_of_def
        split: pyval.splits if_splits)
  obtain lid gid nonce expires parents where pq: "p = proof_of lid gid nonce expires parents token"
    "q = proof_of lid gid nonce expires parents []" "lid \<noteq> []" "nonce \<noteq> []" "py_get st ''processNonce'' = PStr nonce"
  proof -
    obtain l where l: "py_get st ''lease'' = PDict l"
      using q by (auto simp: build_world_lease_proof_def split: pyval.splits)
    show thesis using assms(3,7) q \<open>p \<noteq> []\<close> l canonical_nonce_eq [of _ "py_get st ''processNonce''"]
      by (auto simp: build_world_lease_proof_def Let_def bind_r_Inr split: if_splits intro!: that)
  qed
  have ld: "load_valid_world_lease repr fs now hb = Inr (st, [])"
    using assms(1,2,4) by (simp add: load_valid_world_lease_def)
  have agrees: "proof_agrees p q" by (simp add: pq proof_agrees_def proof_keys_def)
  show ?thesis
    using ld q(1) agrees assms(4-8) pq
    by (simp add: validate_world_lease_request_def py_get_def [of "[_]"] compare_digest_def)
qed

definition demo_nonce :: string where "demo_nonce = ''n1''"

definition demo_status :: "(string \<times> pyval) list" where
  "demo_status = [(''schema'', PStr status_schema), (''auditReady'', PBool True), (''statusReady'', PBool True),
     (''state'', PStr ''authorized''), (''active'', PBool True), (''updatedAt'', PInt 10),
     (''processNonce'', PStr demo_nonce),
     (''lease'', PDict [(''leaseId'', PStr ''L''), (''guildId'', PInt 4), (''expiresAt'', PInt 90)])]"

definition demo_files :: lease_files where
  "demo_files = \<lparr>status_read = Read_Json (PDict demo_status),
     claim_read = (\<lambda>_. Read_Json (PDict [(''schema'', PStr claim_schema), (''processNonce'', PStr demo_nonce)])),
     secret_read = Read_Json (PDict [(''schema'', PStr secret_schema), (''processNonce'', PStr demo_nonce),
       (''leaseId'', PStr ''L''), (''authorizationToken'', PStr ''t''), (''expiresMonotonic'', PInt 50)])\<rparr>"

lemma demo_limit: "float_limit > 1000"
  by (simp add: float_limit_def)

lemma demo_strips [simp]: "py_strip demo_nonce = demo_nonce" "py_strip ''L'' = ''L''" "py_strip ''t'' = ''t''"
  by (simp_all add: py_strip_def py_space_def demo_nonce_def)

lemma demo_proof: "build_world_lease_proof repr demo_status tok = Inr (proof_of ''L'' 4 demo_nonce 90 [] (py_strip tok))"
  using demo_limit by (simp add: build_world_lease_proof_def demo_status_def py_get_def canonical_nonce_def
      safe_guild_id_def finite_float_def demo_nonce_def [symmetric]) (simp add: demo_nonce_def)

lemma demo_valid: "validate_world_lease_status repr (PDict demo_status) 12 15 = Inr (True, [])"
  using demo_limit demo_proof [of repr "[]"]
  by (simp add: validate_world_lease_status_def demo_status_def py_get_def finite_float_def proof_of_def)

lemma demo_claim: "owner_claim_matches (claim_read demo_files i) demo_nonce = Inr True"
  by (simp add: owner_claim_matches_def demo_files_def owner_claim_nonce_def py_get_def canonical_nonce_def)
    (simp add: demo_nonce_def ascii_text_def)

lemma demo_token: "load_world_lease_authorization_token repr (secret_read demo_files) demo_nonce ''L''
    (PFloat (Fin 12)) = Inr (''t'', [])"
  using demo_limit
  by (simp add: load_world_lease_authorization_token_def demo_files_def py_get_def canonical_nonce_def
      finite_float_def compare_digest_def ascii_text_def)
    (simp add: demo_nonce_def)

lemma demo_accepted: "validate_world_lease_request repr demo_files
    (PDict [(''worldLease'', PDict (proof_of ''L'' 4 demo_nonce 90 [] ''t''))]) 12 12 15 = Inr (True, [])"
proof -
  have n: "py_get demo_status ''processNonce'' = PStr demo_nonce" by (simp add: demo_status_def py_get_def)
  have ld: "load_valid_world_lease repr demo_files 12 15 = Inr (demo_status, [])"
    using demo_valid [of repr] demo_claim n
    by (simp add: load_valid_world_lease_def demo_files_def)
  show ?thesis using ld demo_proof [of repr "[]"] demo_token [of repr] demo_claim
    by (simp add: validate_world_lease_request_def py_get_def [of "[_]"] proof_agrees_def proof_keys_def
        ascii_text_def compare_digest_def Let_def)
qed

theorem accepted_request_is_proved_witness:
  "\<exists>st. status_read demo_files = Read_Json (PDict st) \<and> status_current st 12 15"
  using accepted_request_is_proved [OF demo_accepted [of "\<lambda>_. []"]] by (elim exE conjE) (rule exI, rule conjI)

theorem built_proof_is_accepted_witness:
  "validate_world_lease_request (\<lambda>_. []) demo_files
     (PDict [(''worldLease'', PDict (proof_of ''L'' 4 demo_nonce 90 [] ''t''))]) 12 12 15 = Inr (True, [])"
proof (rule built_proof_is_accepted)
  show "status_read demo_files = Read_Json (PDict demo_status)" by (simp add: demo_files_def)
  show "validate_world_lease_status (\<lambda>_. []) (PDict demo_status) 12 15 = Inr (True, [])" by (rule demo_valid)
  show "build_world_lease_proof (\<lambda>_. []) demo_status ''t'' = Inr (proof_of ''L'' 4 demo_nonce 90 [] ''t'')"
    using demo_proof [of "\<lambda>_. []" "''t''"] by simp
  have "py_get demo_status ''processNonce'' = PStr demo_nonce" by (simp add: demo_status_def py_get_def)
  then show "\<forall>i<3. owner_claim_matches (claim_read demo_files i)
      (str_or_empty (\<lambda>_. []) (py_get demo_status ''processNonce'')) = Inr True"
    using demo_claim by simp
  show "load_world_lease_authorization_token (\<lambda>_. []) (secret_read demo_files)
      (str_or_empty (\<lambda>_. []) (py_get (proof_of ''L'' 4 demo_nonce 90 [] ''t'') ''processNonce''))
      (str_or_empty (\<lambda>_. []) (py_get (proof_of ''L'' 4 demo_nonce 90 [] ''t'') ''leaseId'')) (PFloat (Fin 12)) =
      Inr (''t'', [])" using demo_token by simp
qed (simp_all add: ascii_text_def)

text \<open>
  The check does not fail closed on every malformed status: \<open>_finite_float\<close> catches
  \<open>TypeError\<close> and \<open>ValueError\<close> only, so an expiry that is an integer beyond the range of floats
  makes \<open>validate_world_lease_status\<close> raise \<open>OverflowError\<close> instead of rejecting the lease.
\<close>

theorem huge_expiry_raises:
  assumes "py_get st ''schema'' = PStr status_schema" and "py_get st ''auditReady'' = PBool True"
    and "py_get st ''statusReady'' = PBool True" and "py_get st ''state'' = PStr ''authorized''"
    and "py_get st ''active'' = PBool True" and "py_get st ''lease'' = PDict l"
    and "py_get st ''updatedAt'' = PFloat (Fin t)"
    and "py_get l ''expiresAt'' = PInt i" and "float_limit \<le> real_of_int i"
  shows "validate_world_lease_status repr (PDict st) now hb = Inl Overflow_Error"
proof -
  obtain q r where "st = q # r" using assms(1) by (cases st) (auto simp: py_get_def)
  moreover have "finite_float (py_get l ''expiresAt'') = Inl Overflow_Error"
    using assms(8,9) by (simp add: finite_float_def abs_if float_limit_def)
  moreover have "finite_float (py_get st ''updatedAt'') = Inr (Some t)"
    using assms(7) by (simp add: finite_float_def)
  ultimately show ?thesis using assms(1-6)
    by (simp add: validate_world_lease_status_def Let_def del: py_float.simps)
qed

theorem huge_expiry_raises_witness:
  "validate_world_lease_status (\<lambda>_. []) (PDict [(''schema'', PStr status_schema), (''auditReady'', PBool True),
     (''statusReady'', PBool True), (''state'', PStr ''authorized''), (''active'', PBool True),
     (''updatedAt'', PFloat (Fin 1)), (''lease'', PDict [(''expiresAt'', PInt (2 ^ 1024))])]) 1 15 =
   Inl Overflow_Error"
  by (rule huge_expiry_raises [where l = "[(''expiresAt'', PInt (2 ^ 1024))]" and t = 1 and i = "2 ^ 1024"])
    (simp_all add: py_get_def float_limit_def)

lemma counts_okD: "counts_ok m \<Longrightarrow> \<exists>a s f n. py_get m ''attemptCount'' = PInt a \<and>
  py_get m ''successCount'' = PInt s \<and> py_get m ''failureCount'' = PInt f \<and> py_get m ''sampleCount'' = PInt n \<and>
  0 \<le> f \<and> 1 \<le> n \<and> n \<le> s \<and> s + f = a"
  by (auto simp: counts_ok_def exact_nonnegative_int_def split: option.splits pyval.splits if_splits)

text \<open>
  A commit receipt is given only for a status that is ready, protected against rollback and
  verified at its head, with the authenticity and replay checks where they are configured, a
  positive generation, at least one persisted session, and commit counts that add up; the
  receipt repeats the generation and the session count of the status.
\<close>

theorem durable_receipt_is_backed:
  assumes "require_durable_continuity_receipt v = Inr r"
  shows "durable r \<and> 1 \<le> generation r \<and> 1 \<le> persisted_sessions r \<and>
    (\<exists>d m a s f n. v = PDict d \<and> head_ok d \<and> py_get d ''completedTurnCommit'' = PDict m \<and>
       py_get d ''checkpointGeneration'' = PInt (int (generation r)) \<and>
       py_get d ''persistedSessionCount'' = PInt (int (persisted_sessions r)) \<and>
       py_get m ''lastSucceeded'' = PBool True \<and> py_get m ''lastTargetVerified'' = PBool True \<and>
       py_get m ''attemptCount'' = PInt a \<and> py_get m ''successCount'' = PInt s \<and>
       py_get m ''failureCount'' = PInt f \<and> py_get m ''sampleCount'' = PInt n \<and>
       0 \<le> f \<and> 1 \<le> n \<and> n \<le> s \<and> s + f = a)"
proof -
  obtain d m where d: "v = PDict d" "py_get d ''completedTurnCommit'' = PDict m" "head_ok d"
      "py_get m ''lastSucceeded'' = PBool True" "py_get m ''lastTargetVerified'' = PBool True" "counts_ok m"
    and n: "at_least_one (exact_nonnegative_int (py_get d ''checkpointGeneration''))"
      "at_least_one (exact_nonnegative_int (py_get d ''persistedSessionCount''))"
    and r: "r = \<lparr>durable = True, generation = the (exact_nonnegative_int (py_get d ''checkpointGeneration'')),
      persisted_sessions = the (exact_nonnegative_int (py_get d ''persistedSessionCount''))\<rparr>"
    using assms by (auto simp: require_durable_continuity_receipt_def Let_def split: pyval.splits if_splits)
  have int: "py_get d k = PInt (int (the (exact_nonnegative_int (py_get d k)))) \<and>
      1 \<le> the (exact_nonnegative_int (py_get d k))"
    if "at_least_one (exact_nonnegative_int (py_get d k))" for k
    using that by (auto simp: at_least_one_def exact_nonnegative_int_def split: pyval.splits if_splits)
  show ?thesis using d r int [OF n(1)] int [OF n(2)] counts_okD [OF d(6)] by auto
qed

definition demo_commit :: pyval where
  "demo_commit = PDict [(''schema'', PStr ''conversation_continuity.status.v1''), (''state'', PStr ''ready''),
     (''rollbackProtected'', PBool True), (''checkpointIntegrity'', PStr ''verified''),
     (''checkpointHeadState'', PStr ''current''), (''checkpointGeneration'', PInt 7),
     (''persistedSessionCount'', PInt 2),
     (''completedTurnCommit'', PDict [(''schema'', PStr ''conversation_continuity.commit-metrics.v1''),
        (''lastSucceeded'', PBool True), (''lastTargetVerified'', PBool True), (''attemptCount'', PInt 3),
        (''successCount'', PInt 2), (''failureCount'', PInt 1), (''sampleCount'', PInt 2)])]"

theorem durable_receipt_is_backed_witness:
  "\<exists>r. require_durable_continuity_receipt demo_commit = Inr r \<and> 1 \<le> generation r"
proof -
  have "require_durable_continuity_receipt demo_commit = Inr \<lparr>durable = True, generation = 7, persisted_sessions = 2\<rparr>"
    by (simp add: require_durable_continuity_receipt_def demo_commit_def py_get_def head_ok_def counts_ok_def
        at_least_one_def exact_nonnegative_int_def)
  from durable_receipt_is_backed [OF this] this show ?thesis by blast
qed

end
