(* ===== verification/Task_Approval.thy ===== *)
theory Task_Approval
  imports Py_Value
begin

text \<open>
  \<open>evelyn_core/task_approval_runtime.py\<close>: \<open>TaskApprovalManager\<close>, which holds at most one edit
  of the workspace until the user has seen its preview and confirmed it with a one-time token.

  A \<open>_PendingApproval\<close> is an object that the manager and the waiting coroutine share, so the
  objects live in a list and are named by their position; each owns its asyncio future.
  Resolving a future from another thread only schedules a callback: the callbacks wait in
  \<open>callbacks\<close>, in order, until the event loop runs them. The coroutine \<open>wait\<close> is cut where it
  suspends: \<open>wait_begin\<close> runs up to the suspension, \<open>wait_resume\<close> from there to its end, for
  the three ways it can be resumed. Every other method runs under the manager's lock and is
  one step. \<open>approval_env\<close> holds SHA-256 (as hexadecimal text of the UTF-8 encoding of a text),
  the canonical JSON text of a value (\<open>None\<close> where \<open>json.dumps\<close> raises), the clock, random ids,
  and whether the loop of an object still accepts callbacks; \<open>tick\<close> numbers the readings.
\<close>

section \<open>Floats with NaN\<close>

text \<open>\<open>min(a, b, c)\<close> keeps the first value unless a later one is smaller.\<close>

definition min3 :: "pyfloat \<Rightarrow> pyfloat \<Rightarrow> pyfloat \<Rightarrow> pyfloat" where
  "min3 a b c = (let m = (if pf_lt b a then b else a) in if pf_lt c m then c else m)"

section \<open>Requests and previews\<close>

record approval_env =
  sha :: "string \<Rightarrow> string"
  canon :: "pyval \<Rightarrow> string option"
  clock_at :: "nat \<Rightarrow> real"
  random_id :: "nat \<Rightarrow> string"
  loop_open :: "nat \<Rightarrow> bool"
  repr_of :: "pyval \<Rightarrow> string"

definition id_head :: "char \<Rightarrow> bool" where
  "id_head c = (c \<in> set ''abcdefghijklmnopqrstuvwxyzABCDEFGHIJKLMNOPQRSTUVWXYZ0123456789'')"

definition id_pattern :: "string \<Rightarrow> bool" where
  "id_pattern s \<longleftrightarrow> s \<noteq> [] \<and> id_head (hd s) \<and> length s \<le> 128 \<and>
     list_all (\<lambda>c. id_head c \<or> c = CHR ''_'' \<or> c = CHR ''-'') s"

definition hex_char :: "char \<Rightarrow> bool" where
  "hex_char c = (c \<in> set ''0123456789abcdef'')"

definition sha_pattern :: "string \<Rightarrow> bool" where
  "sha_pattern s \<longleftrightarrow> length s = 64 \<and> list_all hex_char s"

definition identifier_text :: "string \<Rightarrow> string" where
  "identifier_text s = (if id_pattern (py_strip s) then py_strip s else [])"

definition py_identifier :: "approval_env \<Rightarrow> pyval \<Rightarrow> string" where
  "py_identifier e v = identifier_text (str_or_empty (repr_of e) v)"

definition absent_sha :: string where "absent_sha = ''ABSENT''"

definition sha256_text :: "bool \<Rightarrow> string \<Rightarrow> string" where
  "sha256_text allow_absent s =
     (if allow_absent \<and> s = absent_sha then s else if sha_pattern s then s else [])"

definition sha256 :: "approval_env \<Rightarrow> bool \<Rightarrow> pyval \<Rightarrow> string" where
  "sha256 e allow_absent v = sha256_text allow_absent (str_or_empty (repr_of e) v)"

definition canon_hash :: "approval_env \<Rightarrow> pyval \<Rightarrow> py_exn + string" where
  "canon_hash e v = (case canon e v of None \<Rightarrow> Inl Value_Error | Some t \<Rightarrow> Inr (sha e t))"

record request =
  task_id :: string
  grant_id :: string
  action_run_id :: string
  step_id :: pyval
  tool :: string
  args_hash :: string
  surface :: string
  args :: pyval
  max_steps :: pyval
  grant_expires_at :: pyval

definition grant_time_ok :: "pyval \<Rightarrow> py_exn + bool" where
  "grant_time_ok v =
     (case v of
        PInt i \<Rightarrow> bind_r (py_float v) (\<lambda>f. Inr (i > 0))
      | PFloat f \<Rightarrow> Inr (is_finite f \<and> fin_val f > 0)
      | _ \<Rightarrow> Inr False)"

definition positive_int :: "pyval \<Rightarrow> bool" where
  "positive_int v = (case v of PInt i \<Rightarrow> 0 < i | _ \<Rightarrow> False)"

definition steps_ok :: "pyval \<Rightarrow> pyval \<Rightarrow> bool" where
  "steps_ok st mx = (case (st, mx) of (PInt i, PInt m) \<Rightarrow> 0 < i \<and> i \<le> m \<and> m \<le> 10 | _ \<Rightarrow> False)"

definition request_valid :: "approval_env \<Rightarrow> request \<Rightarrow> py_exn + bool" where
  "request_valid e r =
     (case canon_hash e (args r) of
        Inl _ \<Rightarrow> Inr False
      | Inr h \<Rightarrow>
          if identifier_text (task_id r) = [] \<or> identifier_text (grant_id r) = []
             \<or> identifier_text (action_run_id r) = [] \<or> \<not> positive_int (step_id r)
             \<or> tool r \<noteq> ''workspace_edit'' \<or> sha256_text False (args_hash r) = []
          then Inr False
          else bind_r (compare_digest h (args_hash r)) (\<lambda>same.
            if \<not> same \<or> identifier_text (surface r) = [] \<or> \<not> steps_ok (step_id r) (max_steps r) then Inr False
            else grant_time_ok (grant_expires_at r)))"

definition stage_preview_keys :: "string list" where
  "stage_preview_keys =
     [''stageId'', ''hostInstanceId'', ''path'', ''mode'', ''baseSha256'', ''candidateSha256'',
      ''diffSha256'', ''fullDiff'', ''diffTruncated'', ''gitStatus'', ''dirtyStatus'', ''tracked'',
      ''dirtyBaseAcknowledgementRequired'', ''bytes'', ''issuedAt'', ''expiresAt'', ''argsHash'',
      ''previewDigest'']"

definition dirty_states :: "string list" where
  "dirty_states = [''modified'', ''staged'', ''modified_and_staged'', ''untracked'', ''deleted'']"

definition max_preview_bytes :: nat where "max_preview_bytes = 48 * 1024"

definition utf8_length :: "string \<Rightarrow> nat" where
  "utf8_length s = sum_list (map (\<lambda>c. if (of_char c :: nat) < 128 then 1 else 2) s)"

definition caught :: "py_exn + 'a \<Rightarrow> py_exn + 'a option" where
  "caught r = (case r of Inl x \<Rightarrow> if x = Type_Error \<or> x = Value_Error then Inr None else Inl x
     | Inr v \<Rightarrow> Inr (Some v))"

type_synonym pydict = "(string \<times> pyval) list"

definition is_str :: "pyval \<Rightarrow> bool" where "is_str v = (case v of PStr _ \<Rightarrow> True | _ \<Rightarrow> False)"
definition is_bool :: "pyval \<Rightarrow> bool" where "is_bool v = (case v of PBool _ \<Rightarrow> True | _ \<Rightarrow> False)"

fun hashable :: "pyval \<Rightarrow> bool" where
  "hashable (PList _) = False"
| "hashable (PDict _) = False"
| "hashable _ = True"

text \<open>
  The long disjunction of \<open>_validated_stage_preview\<close>, negated; then the two cases of the mode.
  The disjunction stops at the first disjunct that holds: the third asks whether the mode is in
  a set, which raises for a list or a dictionary once both identifiers have passed. Nothing
  catches that \<open>TypeError\<close>.
\<close>

definition stage_mode_raises :: "approval_env \<Rightarrow> pydict \<Rightarrow> bool" where
  "stage_mode_raises e d \<longleftrightarrow> py_identifier e (py_get d ''stageId'') \<noteq> [] \<and>
     py_identifier e (py_get d ''hostInstanceId'') \<noteq> [] \<and> \<not> hashable (py_get d ''mode'')"

definition stage_fields_ok ::
  "approval_env \<Rightarrow> request \<Rightarrow> pydict \<Rightarrow> pyfloat \<Rightarrow> pyfloat \<Rightarrow> int \<Rightarrow> real \<Rightarrow> bool" where
  "stage_fields_ok e r d issued expires nbytes now \<longleftrightarrow>
     (let dirty = str_or_empty (repr_of e) (py_get d ''dirtyStatus'')
      in py_identifier e (py_get d ''stageId'') \<noteq> [] \<and> py_identifier e (py_get d ''hostInstanceId'') \<noteq> [] \<and>
         py_get d ''mode'' \<in> {PStr ''create'', PStr ''replace''} \<and>
         is_str (py_get d ''path'') \<and> py_get d ''path'' \<noteq> PStr [] \<and>
         sha256 e True (py_get d ''baseSha256'') \<noteq> [] \<and> sha256 e False (py_get d ''candidateSha256'') \<noteq> [] \<and>
         sha256 e False (py_get d ''diffSha256'') \<noteq> [] \<and> sha256 e False (py_get d ''previewDigest'') \<noteq> [] \<and>
         (case py_get d ''fullDiff'' of
            PStr t \<Rightarrow> t \<noteq> [] \<and> utf8_length t \<le> max_preview_bytes \<and> py_get d ''diffSha256'' = PStr (sha e t)
          | _ \<Rightarrow> False) \<and>
         py_get d ''diffTruncated'' = PBool False \<and> is_str (py_get d ''gitStatus'') \<and>
         dirty \<in> set (dirty_states @ [''clean'', ''absent'']) \<and> is_bool (py_get d ''tracked'') \<and>
         py_get d ''dirtyBaseAcknowledgementRequired'' = PBool (dirty \<in> set dirty_states) \<and>
         nbytes \<ge> 0 \<and> \<not> pf_lt (Fin (now + 5)) issued \<and> \<not> pf_le expires (Fin now) \<and> \<not> pf_le expires issued \<and>
         py_get d ''argsHash'' = PStr (args_hash r))"

definition stage_mode_ok :: "approval_env \<Rightarrow> pydict \<Rightarrow> bool" where
  "stage_mode_ok e d \<longleftrightarrow>
     (let dirty = str_or_empty (repr_of e) (py_get d ''dirtyStatus'')
      in if py_get d ''mode'' = PStr ''create''
         then py_get d ''baseSha256'' = PStr absent_sha \<and> dirty = ''absent'' \<and> py_get d ''tracked'' = PBool False
         else py_get d ''baseSha256'' \<noteq> PStr absent_sha \<and> dirty \<noteq> ''absent'' \<and> dirty \<noteq> ''deleted'')"

definition validated_stage_preview :: "approval_env \<Rightarrow> request \<Rightarrow> pydict \<Rightarrow> real \<Rightarrow> py_exn + pydict option" where
  "validated_stage_preview e r d now =
     (if set (map fst d) \<noteq> set stage_preview_keys then Inr None
      else
        bind_r (caught (py_float (py_get d ''issuedAt''))) (\<lambda>i. if i = None then Inr None else
        bind_r (caught (py_float (py_get d ''expiresAt''))) (\<lambda>x. if x = None then Inr None else
        bind_r (caught (py_int (py_get d ''bytes''))) (\<lambda>b. if b = None then Inr None else
          if stage_mode_raises e d then Inl Type_Error
          else if \<not> stage_fields_ok e r d (the i) (the x) (the b) now \<or> \<not> stage_mode_ok e d then Inr None
          else
            bind_r (canon_hash e (PDict (filter (\<lambda>p. fst p \<noteq> ''previewDigest'') d))) (\<lambda>h.
            bind_r (compare_digest h (str_or_empty (repr_of e) (py_get d ''previewDigest''))) (\<lambda>same.
              Inr (if same then Some d else None)))))))"

section \<open>Host results\<close>

definition host_result_keys :: "string list" where
  "host_result_keys =
     [''attempted'', ''executed'', ''observed'', ''verified'', ''outcome'', ''code'', ''summary'', ''evidence'']"

definition is_dict :: "pyval \<Rightarrow> bool" where "is_dict v = (case v of PDict _ \<Rightarrow> True | _ \<Rightarrow> False)"

definition host_result_is_valid :: "pyval \<Rightarrow> py_exn + bool" where
  "host_result_is_valid v =
     (case v of
        PDict d \<Rightarrow>
          if set (map fst d) \<noteq> set host_result_keys then Inr False
          else
            let att = py_get d ''attempted''; exe = py_get d ''executed'';
                obs = py_get d ''observed''; ver = py_get d ''verified''; out = py_get d ''outcome''
            in if \<not> (is_bool att \<and> is_bool exe \<and> is_bool obs \<and> is_bool ver) then Inr False
               else if \<not> hashable out then Inl Type_Error
               else if out \<notin> {PStr ''succeeded'', PStr ''failed'', PStr ''blocked'', PStr ''outcome_unverified''}
               then Inr False
               else if exe = PBool True \<and> att = PBool False then Inr False
               else if out = PStr ''succeeded'' \<and>
                  \<not> (att = PBool True \<and> exe = PBool True \<and> obs = PBool True \<and> ver = PBool True) then Inr False
               else if out = PStr ''outcome_unverified'' \<and> ver = PBool True then Inr False
               else Inr (is_str (py_get d ''code'') \<and> is_str (py_get d ''summary'') \<and> is_dict (py_get d ''evidence''))
      | _ \<Rightarrow> Inr False)"

definition uncertain_receipt :: "string \<Rightarrow> pydict" where
  "uncertain_receipt code =
     [(''attempted'', PBool True), (''executed'', PBool False), (''observed'', PBool False),
      (''verified'', PBool False), (''outcome'', PStr ''outcome_unverified''), (''code'', PStr code),
      (''summary'', PStr ''Workspace edit outcome is unverified.''), (''evidence'', PDict [])]"

definition apply_unverified :: string where
  "apply_unverified = ''workspace_edit_apply_outcome_unverified''"

section \<open>State\<close>

datatype res_state = Approved | Cancelled | Expired | Unsupported | Uncertain

record resolution =
  res_state :: res_state
  res_receipt :: "pydict option"

record claim =
  approval_id :: string
  claim_id :: string
  claim_generation :: string
  claim_request :: request
  stage_id :: string
  host_instance_id :: string
  base_sha256 :: string
  candidate_sha256 :: string
  preview_digest :: string
  dirty_base_acknowledged :: bool

datatype pending_state =
  Awaiting | Claimed | Resuming | Cancelling | Was_Cancelled | Was_Uncertain | Was_Expired

datatype future = F_Pending | F_Result resolution | F_Cancelled

record pending =
  p_approval_id :: string
  p_request :: request
  p_stage :: pydict
  p_future :: future
  p_issued_at :: real
  p_expires_at :: pyfloat
  p_state :: pending_state
  p_token_digest :: string
  p_token_expires_at :: pyfloat
  p_claim :: "claim option"
  p_waiting :: bool

datatype future_action = Set_Result resolution | Cancel_Future

record approval_mgr =
  ttl_sec :: real
  preview_ttl_sec :: real
  generation :: string
  objs :: "pending list"
  current :: "nat option"
  callbacks :: "(nat \<times> future_action) list"
  tick :: nat

definition new_approval_mgr :: "approval_env \<Rightarrow> real \<Rightarrow> real \<Rightarrow> string \<Rightarrow> approval_mgr" where
  "new_approval_mgr e ttl pttl gen = \<lparr>ttl_sec = max 30 (min 600 ttl), preview_ttl_sec = max 5 (min 30 pttl),
     generation = (let g = identifier_text gen in if g \<noteq> [] then g else ''approval-'' @ random_id e 0),
     objs = [], current = None, callbacks = [], tick = 1\<rparr>"

definition upd_obj :: "nat \<Rightarrow> (pending \<Rightarrow> pending) \<Rightarrow> approval_mgr \<Rightarrow> approval_mgr" where
  "upd_obj i f s = s\<lparr>objs := (objs s)[i := f (objs s ! i)]\<rparr>"

definition schedule :: "approval_env \<Rightarrow> nat \<Rightarrow> future_action \<Rightarrow> approval_mgr \<Rightarrow> approval_mgr" where
  "schedule e i a s = (if loop_open e i then s\<lparr>callbacks := callbacks s @ [(i, a)]\<rparr> else s)"

definition resolve :: "approval_env \<Rightarrow> nat \<Rightarrow> resolution \<Rightarrow> approval_mgr \<Rightarrow> approval_mgr" where
  "resolve e i r s = (if p_future (objs s ! i) \<noteq> F_Pending then s else schedule e i (Set_Result r) s)"

definition run_callback :: "approval_mgr \<Rightarrow> approval_mgr" where
  "run_callback s =
     (case callbacks s of
        [] \<Rightarrow> s
      | (i, a) # rest \<Rightarrow>
          let s1 = s\<lparr>callbacks := rest\<rparr>
          in if p_future (objs s ! i) \<noteq> F_Pending then s1
             else upd_obj i (\<lambda>p. p\<lparr>p_future :=
                    (case a of Set_Result r \<Rightarrow> F_Result r | Cancel_Future \<Rightarrow> F_Cancelled)\<rparr>) s1)"

definition was_claimed :: "pending \<Rightarrow> bool" where
  "was_claimed p = (p_state p \<in> {Claimed, Resuming, Cancelling})"

definition late_resolution :: "pending \<Rightarrow> resolution" where
  "late_resolution p =
     (if was_claimed p then \<lparr>res_state = Uncertain, res_receipt = Some (uncertain_receipt apply_unverified)\<rparr>
      else \<lparr>res_state = Expired, res_receipt = None\<rparr>)"

definition matches ::
  "approval_env \<Rightarrow> string \<Rightarrow> string \<Rightarrow> (approval_mgr, py_exn, nat option) prog" where
  "matches e tid aid s =
     (case current s of
        None \<Rightarrow> (Inr None, s)
      | Some i \<Rightarrow>
          let p = objs s ! i; now = clock_at e (tick s); s0 = s\<lparr>tick := tick s + 1\<rparr>
          in if pf_le (p_expires_at p) (Fin now) \<and> p_state p \<noteq> Resuming
             then (Inr None, (resolve e i (late_resolution p) s0)\<lparr>current := None\<rparr>)
             else (case compare_digest (task_id (p_request p)) tid of
                 Inl x \<Rightarrow> (Inl x, s0)
               | Inr False \<Rightarrow> (Inr None, s0)
               | Inr True \<Rightarrow>
                   (case compare_digest (p_approval_id p) aid of
                      Inl x \<Rightarrow> (Inl x, s0)
                    | Inr same \<Rightarrow> (Inr (if same then Some i else None), s0))))"

section \<open>Waiting for a decision\<close>

datatype wait_result = Immediately resolution | Waiting nat

definition unsupported :: resolution where
  "unsupported = \<lparr>res_state = Unsupported, res_receipt = None\<rparr>"

definition retire_existing :: "approval_env \<Rightarrow> nat \<Rightarrow> approval_mgr \<Rightarrow> approval_mgr" where
  "retire_existing e i s =
     (let p = objs s ! i;
          s1 = (if p_future p = F_Pending
                then resolve e i (late_resolution p)
                       (upd_obj i (\<lambda>q. q\<lparr>p_state := (if was_claimed p then Was_Uncertain else Was_Expired)\<rparr>) s)
                else s)
      in s1\<lparr>current := None\<rparr>)"

definition open_pending ::
  "approval_env \<Rightarrow> request \<Rightarrow> pydict \<Rightarrow> real \<Rightarrow> approval_mgr \<Rightarrow> (py_exn + wait_result) \<times> approval_mgr" where
  "open_pending e r stage now s =
     (case (py_float (py_get stage ''expiresAt''), py_float (grant_expires_at r)) of
        (Inr x, Inr g) \<Rightarrow>
          (Inr (Waiting (length (objs s))),
           s\<lparr>objs := objs s @ [\<lparr>p_approval_id = ''approval-'' @ random_id e (tick s), p_request = r, p_stage = stage,
                p_future = F_Pending, p_issued_at = now, p_expires_at = min3 (Fin (now + ttl_sec s)) x g,
                p_state = Awaiting, p_token_digest = [], p_token_expires_at = Fin 0, p_claim = None,
                p_waiting = True\<rparr>],
             current := Some (length (objs s)), tick := tick s + 1\<rparr>)
      | (Inl x, _) \<Rightarrow> (Inl x, s)
      | (_, Inl x) \<Rightarrow> (Inl x, s))"

definition wait_begin ::
  "approval_env \<Rightarrow> request \<Rightarrow> pydict \<Rightarrow> approval_mgr \<Rightarrow> (py_exn + wait_result) \<times> approval_mgr" where
  "wait_begin e r preview s0 =
     (let now = clock_at e (tick s0); s = s0\<lparr>tick := tick s0 + 1\<rparr>
      in case request_valid e r of
           Inl x \<Rightarrow> (Inl x, s)
         | Inr ok \<Rightarrow>
             if \<not> ok then (Inr (Immediately unsupported), s)
             else (case validated_stage_preview e r preview now of
                 Inl x \<Rightarrow> (Inl x, s)
               | Inr None \<Rightarrow> (Inr (Immediately unsupported), s)
               | Inr (Some stage) \<Rightarrow>
                   (case current s of
                      None \<Rightarrow> open_pending e r stage now s
                    | Some i \<Rightarrow>
                        let p = objs s ! i
                        in if p_state p = Resuming then (Inr (Immediately unsupported), s)
                           else if pf_lt (Fin now) (p_expires_at p) \<and> p_future p = F_Pending
                           then (Inr (Immediately unsupported), s)
                           else open_pending e r stage now (retire_existing e i s))))"

datatype wake = Got_Result | Timed_Out | Task_Cancelled

datatype wait_end = Returned resolution | Raised_Cancelled

definition leave_wait :: "nat \<Rightarrow> approval_mgr \<Rightarrow> approval_mgr" where
  "leave_wait i s =
     (let s1 = upd_obj i (\<lambda>p. p\<lparr>p_waiting := False\<rparr>) s
      in if current s1 = Some i \<and> p_state (objs s1 ! i) \<noteq> Resuming then s1\<lparr>current := None\<rparr> else s1)"

text \<open>\<open>None\<close>: the coroutine cannot be resumed that way now.\<close>

definition wait_resume ::
  "approval_env \<Rightarrow> nat \<Rightarrow> wake \<Rightarrow> approval_mgr \<Rightarrow> wait_end option \<times> approval_mgr" where
  "wait_resume e i w s =
     (if i \<ge> length (objs s) \<or> \<not> p_waiting (objs s ! i) then (None, s)
      else
        let p = objs s ! i
        in case w of
             Got_Result \<Rightarrow>
               (case p_future p of F_Result r \<Rightarrow> (Some (Returned r), leave_wait i s) | _ \<Rightarrow> (None, s))
           | Timed_Out \<Rightarrow>
               (Some (Returned (late_resolution p)),
                leave_wait i (resolve e i (late_resolution p)
                  (upd_obj i (\<lambda>q. q\<lparr>p_state := (if was_claimed p then Was_Uncertain else Was_Expired)\<rparr>) s)))
           | Task_Cancelled \<Rightarrow>
               (Some Raised_Cancelled,
                leave_wait i (schedule e i Cancel_Future
                  (upd_obj i (\<lambda>q. q\<lparr>p_state := (if was_claimed p then Was_Uncertain else Was_Cancelled),
                                   p_token_digest := []\<rparr>) s))))"

section \<open>Preview, claim and completion\<close>

definition public_snapshot :: "approval_env \<Rightarrow> approval_mgr \<Rightarrow> (pending_state \<times> string \<times> string \<times> pyfloat) option" where
  "public_snapshot e s =
     (case current s of None \<Rightarrow> None
      | Some i \<Rightarrow> let p = objs s ! i
          in if pf_le (p_expires_at p) (Fin (clock_at e (tick s))) then None
             else Some (p_state p, task_id (p_request p), p_approval_id p, p_expires_at p))"

definition task_cancel_barrier :: "string \<Rightarrow> approval_mgr \<Rightarrow> py_exn + pending_state option" where
  "task_cancel_barrier tid s =
     (case current s of None \<Rightarrow> Inr None
      | Some i \<Rightarrow> let p = objs s ! i
          in bind_r (compare_digest (task_id (p_request p)) tid) (\<lambda>same.
               Inr (if same \<and> p_state p \<in> {Claimed, Resuming, Cancelling, Was_Uncertain} then Some (p_state p)
                    else None)))"

definition release_task_cancel_barrier :: "string \<Rightarrow> (approval_mgr, py_exn, bool) prog" where
  "release_task_cancel_barrier tid s =
     (case current s of None \<Rightarrow> (Inr False, s)
      | Some i \<Rightarrow>
          if p_state (objs s ! i) \<noteq> Resuming then (Inr False, s)
          else (case compare_digest (task_id (p_request (objs s ! i))) tid of
              Inl x \<Rightarrow> (Inl x, s)
            | Inr same \<Rightarrow> if same then (Inr True, s\<lparr>current := None\<rparr>) else (Inr False, s)))"

datatype preview_result = Not_Found | Preview_Denied | Preview string pyfloat

definition issue_preview :: "approval_env \<Rightarrow> string \<Rightarrow> string \<Rightarrow> (approval_mgr, py_exn, preview_result) prog" where
  "issue_preview e tid aid =
     bind (matches e tid aid) (\<lambda>m s.
       case m of
         None \<Rightarrow> (Inr Not_Found, s)
       | Some i \<Rightarrow>
           let p = objs s ! i; now = clock_at e (tick s); s0 = s\<lparr>tick := tick s + 1\<rparr>
           in if p_state p \<noteq> Awaiting then (Inr Not_Found, s)
              else (case py_float (py_get (p_stage p) ''expiresAt'') of
                  Inl x \<Rightarrow> (Inl x, s0)
                | Inr sx \<Rightarrow>
                    let confirm = min3 (Fin (now + preview_ttl_sec s)) (p_expires_at p) sx
                    in if pf_le confirm (Fin now) then (Inr Preview_Denied, s0)
                       else
                         let token = random_id e (tick s)
                         in (Inr (Preview token confirm),
                             upd_obj i (\<lambda>q. q\<lparr>p_token_digest := sha e token, p_token_expires_at := confirm\<rparr>) s0)))"

definition make_claim :: "approval_env \<Rightarrow> nat \<Rightarrow> bool \<Rightarrow> approval_mgr \<Rightarrow> claim" where
  "make_claim e i dirty s =
     (let p = objs s ! i; text = (\<lambda>k. py_str (repr_of e) (py_get (p_stage p) k))
      in \<lparr>approval_id = p_approval_id p, claim_id = ''claim-'' @ random_id e (tick s),
          claim_generation = generation s, claim_request = p_request p, stage_id = text ''stageId'',
          host_instance_id = text ''hostInstanceId'', base_sha256 = text ''baseSha256'',
          candidate_sha256 = text ''candidateSha256'', preview_digest = text ''previewDigest'',
          dirty_base_acknowledged = dirty\<rparr>)"

definition claim_preview ::
  "approval_env \<Rightarrow> string \<Rightarrow> string \<Rightarrow> string \<Rightarrow> bool \<Rightarrow> bool \<Rightarrow> (approval_mgr, py_exn, claim option) prog" where
  "claim_preview e tid aid token confirmed dirty =
     bind (matches e tid aid) (\<lambda>m s.
       let now = clock_at e (tick s); s0 = s\<lparr>tick := tick s + 1\<rparr>
       in case m of
            None \<Rightarrow> (Inr None, s0)
          | Some i \<Rightarrow>
              let p = objs s ! i
              in if p_state p \<noteq> Awaiting \<or> \<not> confirmed \<or> \<not> (32 \<le> length token \<and> length token \<le> 256)
                    \<or> p_token_digest p = [] \<or> pf_le (p_token_expires_at p) (Fin now)
                 then (Inr None, s0)
                 else (case compare_digest (sha e token) (p_token_digest p) of
                     Inl x \<Rightarrow> (Inl x, s0)
                   | Inr same \<Rightarrow>
                       if \<not> same \<or> py_get (p_stage p) ''dirtyBaseAcknowledgementRequired'' \<noteq> PBool dirty
                       then (Inr None, s0)
                       else
                         let c = make_claim e i dirty s0
                         in (Inr (Some c), upd_obj i (\<lambda>q. q\<lparr>p_token_digest := [], p_token_expires_at := Fin 0,
                               p_state := Claimed, p_claim := Some c\<rparr>) s0)))"

text \<open>The receipt that \<open>complete\<close> files for a host result.\<close>

definition completion_receipt :: "approval_env \<Rightarrow> claim \<Rightarrow> pyval \<Rightarrow> py_exn + pydict" where
  "completion_receipt e c result =
     bind_r (host_result_is_valid result) (\<lambda>valid.
       case (valid, result) of
         (True, PDict d) \<Rightarrow>
           if py_get d ''outcome'' \<noteq> PStr ''succeeded'' then Inr d
           else (case py_get d ''evidence'' of
               PDict ev \<Rightarrow>
                 bind_r (compare_digest (str_or_empty (repr_of e) (py_get ev ''sha256'')) (candidate_sha256 c))
                   (\<lambda>same. Inr (if same then d else uncertain_receipt apply_unverified))
             | _ \<Rightarrow> Inr (uncertain_receipt apply_unverified))
       | _ \<Rightarrow> Inr (uncertain_receipt apply_unverified))"

definition complete_claim :: "approval_env \<Rightarrow> claim \<Rightarrow> pyval \<Rightarrow> (approval_mgr, py_exn, bool) prog" where
  "complete_claim e c result =
     bind (matches e (task_id (claim_request c)) (approval_id c)) (\<lambda>m s.
       case m of
         None \<Rightarrow> (Inr False, s)
       | Some i \<Rightarrow>
           let p = objs s ! i
           in if p_state p \<noteq> Claimed \<or> p_claim p \<noteq> Some c \<or> claim_generation c \<noteq> generation s
              then (Inr False, s)
              else
                let s1 = upd_obj i (\<lambda>q. q\<lparr>p_state := Resuming\<rparr>) s
                in case completion_receipt e c result of
                     Inl x \<Rightarrow> (Inl x, s1)
                   | Inr rc \<Rightarrow>
                       (Inr True, resolve e i \<lparr>res_state =
                            (if py_get rc ''outcome'' = PStr ''outcome_unverified'' then Uncertain else Approved),
                          res_receipt = Some rc\<rparr> s1))"

section \<open>Cancelling\<close>

definition clear_token :: "pending \<Rightarrow> pending" where
  "clear_token p = p\<lparr>p_token_digest := [], p_token_expires_at := Fin 0\<rparr>"

definition prepare_cancel :: "approval_env \<Rightarrow> string \<Rightarrow> string \<Rightarrow> (approval_mgr, py_exn, claim option) prog" where
  "prepare_cancel e tid aid =
     bind (matches e tid aid) (\<lambda>m s.
       case m of
         None \<Rightarrow> (Inr None, s)
       | Some i \<Rightarrow>
           let p = objs s ! i; s0 = s\<lparr>tick := tick s + 1\<rparr>;
               c = (if p_state p = Claimed then p_claim p else Some (make_claim e i False s))
           in if p_state p \<notin> {Awaiting, Claimed} \<or> c = None then (Inr None, s)
              else (Inr c, upd_obj i (\<lambda>q. (clear_token q)\<lparr>p_claim := c, p_state := Cancelling\<rparr>) s0))"

definition stage_cancelled :: "approval_env \<Rightarrow> claim \<Rightarrow> pydict \<Rightarrow> py_exn + bool" where
  "stage_cancelled e c rc =
     (if py_get rc ''outcome'' \<noteq> PStr ''succeeded'' \<or> py_get rc ''code'' \<noteq> PStr ''workspace_edit_stage_cancelled''
      then Inr False
      else (case py_get rc ''evidence'' of
          PDict ev \<Rightarrow>
            let text = (\<lambda>k. str_or_empty (repr_of e) (py_get ev k))
            in bind_r (compare_digest (text ''approvalId'') (approval_id c)) (\<lambda>a. if \<not> a then Inr False else
               bind_r (compare_digest (text ''stageId'') (stage_id c)) (\<lambda>b. if \<not> b then Inr False else
               compare_digest (text ''hostInstanceId'') (host_instance_id c)))
        | _ \<Rightarrow> Inr False))"

definition cancel_outcome :: "approval_env \<Rightarrow> claim \<Rightarrow> pyval \<Rightarrow> py_exn + (bool \<times> pydict)" where
  "cancel_outcome e c result =
     bind_r (host_result_is_valid result) (\<lambda>valid.
       let rc = (case (valid, result) of (True, PDict d) \<Rightarrow> d | _ \<Rightarrow> [])
       in bind_r (stage_cancelled e c rc) (\<lambda>ok. Inr (ok, rc)))"

definition complete_cancel :: "approval_env \<Rightarrow> claim \<Rightarrow> pyval \<Rightarrow> (approval_mgr, py_exn, bool) prog" where
  "complete_cancel e c result s =
     (case current s of
        None \<Rightarrow> (Inr False, s)
      | Some i \<Rightarrow>
          let p = objs s ! i
          in if p_state p \<noteq> Cancelling \<or> p_claim p \<noteq> Some c \<or> claim_generation c \<noteq> generation s
             then (Inr False, s)
             else (case cancel_outcome e c result of
                 Inl x \<Rightarrow> (Inl x, s)
               | Inr (ok, rc) \<Rightarrow>
                   (Inr True, resolve e i \<lparr>res_state = (if ok then Cancelled else Uncertain),
                       res_receipt = Some (if ok then rc
                         else uncertain_receipt ''workspace_edit_cancel_outcome_unverified'')\<rparr>
                     (upd_obj i (\<lambda>q. q\<lparr>p_state := (if ok then Was_Cancelled else Was_Uncertain)\<rparr>) s))))"

definition cancel_approval :: "approval_env \<Rightarrow> string \<Rightarrow> string \<Rightarrow> (approval_mgr, py_exn, claim option) prog" where
  "cancel_approval e tid aid =
     bind (matches e tid aid) (\<lambda>m s.
       case m of
         None \<Rightarrow> (Inr None, s)
       | Some i \<Rightarrow>
           let p = objs s ! i; s0 = s\<lparr>tick := tick s + 1\<rparr>
           in if p_state p = Claimed \<and> p_claim p \<noteq> None
              then (Inr (p_claim p), resolve e i (late_resolution p)
                     (upd_obj i (\<lambda>q. (clear_token q)\<lparr>p_state := Was_Uncertain\<rparr>) s))
              else if p_state p \<noteq> Awaiting then (Inr None, s)
              else
                let c = make_claim e i False s
                in (Inr (Some c), resolve e i \<lparr>res_state = Cancelled, res_receipt = None\<rparr>
                      (upd_obj i (\<lambda>q. (clear_token q)\<lparr>p_state := Was_Cancelled, p_claim := Some c\<rparr>) s0)))"

section \<open>Runs and their trace of claims\<close>

datatype approval_op =
  Op_Wait request pydict
| Op_Resume nat wake
| Op_Callback
| Op_Issue string string
| Op_Claim string string string bool bool
| Op_Complete claim pyval
| Op_Prepare_Cancel string string
| Op_Complete_Cancel claim pyval
| Op_Cancel string string
| Op_Release string

text \<open>The trace lists the claims handed out: for which object, and what the user had answered.\<close>

type_synonym claim_trace = "(nat \<times> bool \<times> claim) list"

fun approval_step ::
  "approval_env \<Rightarrow> approval_mgr \<times> claim_trace \<Rightarrow> approval_op \<Rightarrow> approval_mgr \<times> claim_trace" where
  "approval_step e (s, tr) (Op_Wait r d) = (snd (wait_begin e r d s), tr)"
| "approval_step e (s, tr) (Op_Resume i w) = (snd (wait_resume e i w s), tr)"
| "approval_step e (s, tr) Op_Callback = (run_callback s, tr)"
| "approval_step e (s, tr) (Op_Issue t a) = (snd (issue_preview e t a s), tr)"
| "approval_step e (s, tr) (Op_Claim t a tok conf d) =
     (case claim_preview e t a tok conf d s of
        (Inr (Some c), s') \<Rightarrow> (s', tr @ [(the (current s'), conf, c)])
      | (_, s') \<Rightarrow> (s', tr))"
| "approval_step e (s, tr) (Op_Complete c v) = (snd (complete_claim e c v s), tr)"
| "approval_step e (s, tr) (Op_Prepare_Cancel t a) = (snd (prepare_cancel e t a s), tr)"
| "approval_step e (s, tr) (Op_Complete_Cancel c v) = (snd (complete_cancel e c v s), tr)"
| "approval_step e (s, tr) (Op_Cancel t a) = (snd (cancel_approval e t a s), tr)"
| "approval_step e (s, tr) (Op_Release t) = (snd (release_task_cancel_barrier t s), tr)"

definition receipt_ok :: "approval_env \<Rightarrow> claim \<Rightarrow> pydict \<Rightarrow> bool" where
  "receipt_ok e c rc \<longleftrightarrow> host_result_is_valid (PDict rc) = Inr True \<and>
     py_get rc ''outcome'' \<noteq> PStr ''outcome_unverified'' \<and>
     (py_get rc ''outcome'' = PStr ''succeeded'' \<longrightarrow>
        py_get rc ''attempted'' = PBool True \<and> py_get rc ''executed'' = PBool True \<and>
        py_get rc ''observed'' = PBool True \<and> py_get rc ''verified'' = PBool True \<and>
        (\<exists>ev. py_get rc ''evidence'' = PDict ev \<and>
           str_or_empty (repr_of e) (py_get ev ''sha256'') = candidate_sha256 c))"

definition backed :: "approval_env \<Rightarrow> claim_trace \<Rightarrow> nat \<Rightarrow> resolution \<Rightarrow> bool" where
  "backed e tr i r \<longleftrightarrow> (res_state r = Approved \<longrightarrow>
     (\<exists>c rc. (i, True, c) \<in> set tr \<and> res_receipt r = Some rc \<and> receipt_ok e c rc))"

definition obj_ok :: "approval_env \<Rightarrow> claim_trace \<Rightarrow> nat \<Rightarrow> pending \<Rightarrow> bool" where
  "obj_ok e tr i p \<longleftrightarrow>
     (p_state p \<in> {Claimed, Resuming} \<longrightarrow> (\<exists>c. p_claim p = Some c \<and> (i, True, c) \<in> set tr)) \<and>
     (\<forall>r. p_future p = F_Result r \<longrightarrow> backed e tr i r)"

definition action_ok :: "approval_env \<Rightarrow> claim_trace \<Rightarrow> nat \<Rightarrow> future_action \<Rightarrow> bool" where
  "action_ok e tr i a = (case a of Set_Result r \<Rightarrow> backed e tr i r | Cancel_Future \<Rightarrow> True)"

definition approval_inv :: "approval_env \<Rightarrow> approval_mgr \<times> claim_trace \<Rightarrow> bool" where
  "approval_inv e st \<longleftrightarrow> (case st of (s, tr) \<Rightarrow>
     (\<forall>i. current s = Some i \<longrightarrow> i < length (objs s)) \<and>
     (\<forall>i < length (objs s). obj_ok e tr i (objs s ! i)) \<and>
     (\<forall>(i, a) \<in> set (callbacks s). i < length (objs s) \<and> action_ok e tr i a))"

lemma inv_current: "approval_inv e (s, tr) \<Longrightarrow> current s = Some i \<Longrightarrow> i < length (objs s)"
  by (auto simp: approval_inv_def)

lemma inv_obj: "approval_inv e (s, tr) \<Longrightarrow> i < length (objs s) \<Longrightarrow> obj_ok e tr i (objs s ! i)"
  by (auto simp: approval_inv_def)

lemma inv_tick [simp]: "approval_inv e (s\<lparr>tick := n\<rparr>, tr) = approval_inv e (s, tr)"
  by (simp add: approval_inv_def)

lemma inv_no_current: "approval_inv e (s, tr) \<Longrightarrow> approval_inv e (s\<lparr>current := None\<rparr>, tr)"
  by (auto simp: approval_inv_def)

lemma upd_obj_same [simp]:
  "length (objs (upd_obj i f s)) = length (objs s)" "current (upd_obj i f s) = current s"
  "callbacks (upd_obj i f s) = callbacks s" "tick (upd_obj i f s) = tick s"
  "generation (upd_obj i f s) = generation s"
  "i < length (objs s) \<Longrightarrow> objs (upd_obj i f s) ! i = f (objs s ! i)"
  "j \<noteq> i \<Longrightarrow> objs (upd_obj i f s) ! j = objs s ! j"
  by (simp_all add: upd_obj_def)

lemma schedule_same [simp]:
  "objs (schedule e i a s) = objs s" "current (schedule e i a s) = current s"
  "generation (schedule e i a s) = generation s"
  by (simp_all add: schedule_def)

lemma resolve_same [simp]:
  "objs (resolve e i r s) = objs s" "current (resolve e i r s) = current s"
  "generation (resolve e i r s) = generation s"
  by (simp_all add: resolve_def)

lemma inv_upd:
  assumes "approval_inv e (s, tr)" and "i < length (objs s)" and "obj_ok e tr i (f (objs s ! i))"
  shows "approval_inv e (upd_obj i f s, tr)"
proof -
  have "obj_ok e tr j (objs (upd_obj i f s) ! j)" if "j < length (objs s)" for j
    using that assms inv_obj [OF assms(1) that] by (cases "j = i") simp_all
  with assms(1) show ?thesis by (auto simp: approval_inv_def)
qed

lemma inv_schedule:
  "approval_inv e (s, tr) \<Longrightarrow> i < length (objs s) \<Longrightarrow> action_ok e tr i a \<Longrightarrow> approval_inv e (schedule e' i a s, tr)"
  by (auto simp: approval_inv_def schedule_def)

lemma inv_resolve:
  "approval_inv e (s, tr) \<Longrightarrow> i < length (objs s) \<Longrightarrow> backed e tr i r \<Longrightarrow> approval_inv e (resolve e' i r s, tr)"
  by (auto simp: resolve_def action_ok_def intro: inv_schedule)

lemma backed_late [simp]: "backed e tr i (late_resolution p)"
  by (simp add: backed_def late_resolution_def)

lemma inv_callback:
  assumes "approval_inv e (s, tr)"
  shows "approval_inv e (run_callback s, tr)"
proof (cases "callbacks s")
  case Nil
  then show ?thesis using assms by (simp add: run_callback_def)
next
  case (Cons x rest)
  obtain i a where x: "x = (i, a)" by fastforce
  have i: "i < length (objs s)" "action_ok e tr i a" using assms Cons x by (auto simp: approval_inv_def)
  let ?s1 = "s\<lparr>callbacks := rest\<rparr>"
  have s1: "approval_inv e (?s1, tr)" using assms Cons by (auto simp: approval_inv_def)
  have "approval_inv e (upd_obj i (\<lambda>p. p\<lparr>p_future :=
      (case a of Set_Result r \<Rightarrow> F_Result r | Cancel_Future \<Rightarrow> F_Cancelled)\<rparr>) ?s1, tr)"
    using i inv_obj [OF assms i(1)]
    by (intro inv_upd s1) (auto simp: obj_ok_def action_ok_def split: future_action.splits)
  then show ?thesis using s1 Cons x by (simp add: run_callback_def Let_def)
qed

lemma matches_spec:
  assumes "approval_inv e (s, tr)" and "matches e tid aid s = (r, s')"
  shows "approval_inv e (s', tr)" and
    "r = Inr (Some i) \<Longrightarrow> current s = Some i \<and> i < length (objs s) \<and> s' = s\<lparr>tick := tick s + 1\<rparr> \<and>
       \<not> (pf_le (p_expires_at (objs s ! i)) (Fin (clock_at e (tick s))) \<and> p_state (objs s ! i) \<noteq> Resuming) \<and>
       task_id (p_request (objs s ! i)) = tid \<and> p_approval_id (objs s ! i) = aid"
proof -
  have late: "approval_inv e ((resolve e i (late_resolution p) (s\<lparr>tick := n\<rparr>))\<lparr>current := None\<rparr>, tr)"
    if "current s = Some i" for i p n
    using that assms(1) inv_current [OF assms(1) that] by (intro inv_no_current inv_resolve) auto
  show "approval_inv e (s', tr)"
    using assms late unfolding matches_def Let_def
    by (auto split: option.splits if_splits sum.splits bool.splits)
  show "r = Inr (Some i) \<Longrightarrow> current s = Some i \<and> i < length (objs s) \<and> s' = s\<lparr>tick := tick s + 1\<rparr> \<and>
       \<not> (pf_le (p_expires_at (objs s ! i)) (Fin (clock_at e (tick s))) \<and> p_state (objs s ! i) \<noteq> Resuming) \<and>
       task_id (p_request (objs s ! i)) = tid \<and> p_approval_id (objs s ! i) = aid"
    using assms(2) inv_current [OF assms(1)] unfolding matches_def Let_def
    by (auto simp: compare_digest_def split: option.splits if_splits sum.splits bool.splits)
qed

lemma inv_matches_bind:
  assumes "approval_inv e (s, tr)"
    and "\<And>s1. approval_inv e (s1, tr) \<Longrightarrow> approval_inv e (snd (f None s1), tr)"
    and "\<And>i s1. approval_inv e (s1, tr) \<Longrightarrow> i < length (objs s1) \<Longrightarrow> current s1 = Some i \<Longrightarrow>
      approval_inv e (snd (f (Some i) s1), tr)"
  shows "approval_inv e (snd (bind (matches e tid aid) f s), tr)"
proof -
  obtain r s1 where m: "matches e tid aid s = (r, s1)" by fastforce
  note spec = matches_spec [OF assms(1) m]
  show ?thesis
  proof (cases r)
    case (Inl x)
    then show ?thesis using m spec(1) by (simp add: bind_def)
  next
    case (Inr v)
    then show ?thesis using m spec assms(2,3) [of s1] by (cases v) (simp_all add: bind_def)
  qed
qed

lemma inv_issue: "approval_inv e (s, tr) \<Longrightarrow> approval_inv e (snd (issue_preview e tid aid s), tr)"
  unfolding issue_preview_def
proof (rule inv_matches_bind, goal_cases)
  case (3 i s1)
  have "approval_inv e (upd_obj i (\<lambda>q. q\<lparr>p_token_digest := d, p_token_expires_at := x\<rparr>) (s1\<lparr>tick := n\<rparr>), tr)" for d x n
    using 3 inv_obj [OF 3(2,3)] by (intro inv_upd) (auto simp: obj_ok_def)
  then show ?case using 3 by (auto simp: Let_def split: sum.split)
qed simp_all

lemma obj_ok_unclaimed: "obj_ok e tr i p \<Longrightarrow> p_state q \<notin> {Claimed, Resuming} \<Longrightarrow> p_future q = p_future p \<Longrightarrow> obj_ok e tr i q"
  by (auto simp: obj_ok_def)

lemma clear_token_same [simp]: "p_future (clear_token p) = p_future p" "p_state (clear_token p) = p_state p"
  "p_claim (clear_token p) = p_claim p"
  by (simp_all add: clear_token_def)

lemma inv_prepare_cancel: "approval_inv e (s, tr) \<Longrightarrow> approval_inv e (snd (prepare_cancel e tid aid s), tr)"
  unfolding prepare_cancel_def
proof (rule inv_matches_bind, goal_cases)
  case (3 i s1)
  have "approval_inv e (upd_obj i (\<lambda>q. (clear_token q)\<lparr>p_claim := c, p_state := Cancelling\<rparr>) (s1\<lparr>tick := n\<rparr>), tr)" for c n
    using 3 by (intro inv_upd obj_ok_unclaimed [OF inv_obj [OF 3(2,3)]]) auto
  then show ?case using 3 by (simp add: Let_def)
qed simp_all

lemma inv_cancel: "approval_inv e (s, tr) \<Longrightarrow> approval_inv e (snd (cancel_approval e tid aid s), tr)"
  unfolding cancel_approval_def
proof (rule inv_matches_bind, goal_cases)
  case (3 i s1)
  have "approval_inv e (resolve e i (late_resolution p)
      (upd_obj i (\<lambda>q. (clear_token q)\<lparr>p_state := Was_Uncertain\<rparr>) s1), tr)" for p
    using 3 by (intro inv_resolve inv_upd obj_ok_unclaimed [OF inv_obj [OF 3(2,3)]]) auto
  moreover have "approval_inv e (resolve e i \<lparr>res_state = Cancelled, res_receipt = None\<rparr>
      (upd_obj i (\<lambda>q. (clear_token q)\<lparr>p_state := Was_Cancelled, p_claim := c\<rparr>) (s1\<lparr>tick := n\<rparr>)), tr)" for c n
    using 3 by (intro inv_resolve inv_upd obj_ok_unclaimed [OF inv_obj [OF 3(2,3)]]) (auto simp: backed_def)
  ultimately show ?case using 3 by (simp add: Let_def)
qed simp_all

lemma inv_complete_cancel: "approval_inv e (s, tr) \<Longrightarrow> approval_inv e (snd (complete_cancel e c v s), tr)"
proof (cases "current s")
  case (Some i)
  assume J: "approval_inv e (s, tr)"
  note i = inv_current [OF J Some]
  have "approval_inv e (resolve e i r (upd_obj i (\<lambda>q. q\<lparr>p_state := st\<rparr>) s), tr)"
    if "st \<notin> {Claimed, Resuming}" "res_state r \<noteq> Approved" for st r
    using that J i by (intro inv_resolve inv_upd obj_ok_unclaimed [OF inv_obj [OF J i]]) (auto simp: backed_def)
  then show ?thesis using J Some
    by (auto simp: complete_cancel_def Let_def split: sum.split prod.split)
qed (simp add: complete_cancel_def)

lemma succeeded_is_verified:
  assumes "host_result_is_valid (PDict d) = Inr True" and "py_get d ''outcome'' = PStr ''succeeded''"
  shows "py_get d ''attempted'' = PBool True \<and> py_get d ''executed'' = PBool True \<and>
    py_get d ''observed'' = PBool True \<and> py_get d ''verified'' = PBool True"
  using assms by (auto simp: host_result_is_valid_def Let_def split: if_splits)

lemma receipt_backed:
  assumes "completion_receipt e c v = Inr rc" and "py_get rc ''outcome'' \<noteq> PStr ''outcome_unverified''"
  shows "receipt_ok e c rc"
proof -
  have u: "py_get (uncertain_receipt x) ''outcome'' = PStr ''outcome_unverified''" for x
    by (simp add: py_get_def uncertain_receipt_def)
  obtain valid where valid: "host_result_is_valid v = Inr valid"
    using assms(1) by (auto simp: completion_receipt_def bind_r_Inr)
  show ?thesis
  proof (cases "\<exists>d. valid \<and> v = PDict d")
    case False
    then have "rc = uncertain_receipt apply_unverified"
      using assms(1) valid by (auto simp: completion_receipt_def split: bool.splits pyval.splits)
    with assms(2) u show ?thesis by simp
  next
    case True
    then obtain d where d: valid "v = PDict d" by blast
    show ?thesis
    proof (cases "py_get d ''outcome'' = PStr ''succeeded''")
      case False
      then have "rc = d" using assms(1) valid d by (simp add: completion_receipt_def)
      with False assms(2) valid d show ?thesis by (simp add: receipt_ok_def)
    next
      case succ: True
      from assms(1) valid d succ obtain ev same where ev: "py_get d ''evidence'' = PDict ev"
        "compare_digest (str_or_empty (repr_of e) (py_get ev ''sha256'')) (candidate_sha256 c) = Inr same"
        "rc = (if same then d else uncertain_receipt apply_unverified)"
        using u assms(2) by (auto simp: completion_receipt_def bind_r_Inr split: pyval.splits)
      with assms(2) u have same by (auto split: if_splits)
      with ev valid d succ succeeded_is_verified [of d] show ?thesis by (auto simp: receipt_ok_def)
    qed
  qed
qed

lemma inv_complete: "approval_inv e (s, tr) \<Longrightarrow> approval_inv e (snd (complete_claim e c v s), tr)"
  unfolding complete_claim_def
proof (rule inv_matches_bind, goal_cases)
  case (3 i s1)
  let ?s2 = "upd_obj i (\<lambda>q. q\<lparr>p_state := Resuming\<rparr>) s1"
  note ok = inv_obj [OF 3(2,3)]
  have J2: "approval_inv e (?s2, tr)" if "p_state (objs s1 ! i) = Claimed"
    using 3 that ok by (intro inv_upd) (auto simp: obj_ok_def)
  have "approval_inv e (resolve e i \<lparr>res_state =
      (if py_get rc ''outcome'' = PStr ''outcome_unverified'' then Uncertain else Approved),
      res_receipt = Some rc\<rparr> ?s2, tr)"
    if "p_state (objs s1 ! i) = Claimed" "p_claim (objs s1 ! i) = Some c" "completion_receipt e c v = Inr rc" for rc
    using 3 that ok receipt_backed [OF that(3)]
    by (intro inv_resolve J2) (auto simp: backed_def obj_ok_def)
  with J2 3 show ?case by (auto simp: Let_def split: sum.split)
qed simp_all

lemma inv_trace: "approval_inv e (s, tr) \<Longrightarrow> approval_inv e (s, tr @ x)"
  unfolding approval_inv_def obj_ok_def action_ok_def backed_def
  by (auto split: future_action.splits) blast+

lemma bind_matches_Inr:
  assumes "approval_inv e (s, tr)" and "bind (matches e tid aid) f s = (Inr y, s')"
  obtains m s1 where "matches e tid aid s = (Inr m, s1)" "f m s1 = (Inr y, s')" "approval_inv e (s1, tr)"
  using assms matches_spec(1) [OF assms(1)] by (auto simp: bind_Inr)

lemma claim_preview_spec:
  assumes "approval_inv e (s, tr)" and "claim_preview e tid aid tok conf dirty s = (Inr (Some c), s')"
  obtains i where "current s = Some i" "i < length (objs s)" "p_state (objs s ! i) = Awaiting" conf
    "task_id (p_request (objs s ! i)) = tid" "p_approval_id (objs s ! i) = aid"
    "\<not> pf_le (p_expires_at (objs s ! i)) (Fin (clock_at e (tick s)))"
    "p_token_digest (objs s ! i) \<noteq> []" "sha e tok = p_token_digest (objs s ! i)"
    "32 \<le> length tok" "length tok \<le> 256"
    "\<not> pf_le (p_token_expires_at (objs s ! i)) (Fin (clock_at e (tick s + 1)))"
    "py_get (p_stage (objs s ! i)) ''dirtyBaseAcknowledgementRequired'' = PBool dirty"
    "c = make_claim e i dirty (s\<lparr>tick := tick s + 2\<rparr>)"
    "s' = upd_obj i (\<lambda>q. q\<lparr>p_token_digest := [], p_token_expires_at := Fin 0, p_state := Claimed,
       p_claim := Some c\<rparr>) (s\<lparr>tick := tick s + 2\<rparr>)"
proof -
  obtain m s1 where m: "matches e tid aid s = (Inr m, s1)"
    and rest: "(let now = clock_at e (tick s1); s0 = s1\<lparr>tick := tick s1 + 1\<rparr>
       in case m of
            None \<Rightarrow> (Inr None, s0)
          | Some i \<Rightarrow>
              let p = objs s1 ! i
              in if p_state p \<noteq> Awaiting \<or> \<not> conf \<or> \<not> (32 \<le> length tok \<and> length tok \<le> 256)
                    \<or> p_token_digest p = [] \<or> pf_le (p_token_expires_at p) (Fin now)
                 then (Inr None, s0)
                 else (case compare_digest (sha e tok) (p_token_digest p) of
                     Inl x \<Rightarrow> (Inl x, s0)
                   | Inr same \<Rightarrow>
                       if \<not> same \<or> py_get (p_stage p) ''dirtyBaseAcknowledgementRequired'' \<noteq> PBool dirty
                       then (Inr None, s0)
                       else
                         let c = make_claim e i dirty s0
                         in (Inr (Some c), upd_obj i (\<lambda>q. q\<lparr>p_token_digest := [], p_token_expires_at := Fin 0,
                               p_state := Claimed, p_claim := Some c\<rparr>) s0))) = (Inr (Some c), s')"
    using assms(2) unfolding claim_preview_def bind_Inr by blast
  then obtain i where i: "m = Some i" by (cases m) auto
  from matches_spec(2) [OF assms(1) m, of i] i have s1: "current s = Some i" "i < length (objs s)"
    "s1 = s\<lparr>tick := tick s + 1\<rparr>" "task_id (p_request (objs s ! i)) = tid" "p_approval_id (objs s ! i) = aid"
    "\<not> (pf_le (p_expires_at (objs s ! i)) (Fin (clock_at e (tick s))) \<and> p_state (objs s ! i) \<noteq> Resuming)"
    by auto
  show thesis
    using rest i s1 by (intro that [of i]) (auto simp: Let_def compare_digest_def split: if_splits)
qed

lemma inv_claim_None:
  assumes "approval_inv e (s, tr)"
    and "claim_preview e tid aid tok conf dirty s = (r, s')" and "\<forall>c. r \<noteq> Inr (Some c)"
  shows "approval_inv e (s', tr)"
proof -
  obtain m s1 where m: "matches e tid aid s = (m, s1)" by fastforce
  have J: "approval_inv e (s1, tr)" using matches_spec(1) [OF assms(1) m] .
  then show ?thesis using assms(2,3) m unfolding claim_preview_def bind_def
    by (auto simp: Let_def split: sum.splits option.splits if_splits)
qed

lemma inv_claim_step: "approval_inv e (s, tr) \<Longrightarrow> approval_inv e (approval_step e (s, tr) (Op_Claim t a tok conf d))"
proof -
  assume J: "approval_inv e (s, tr)"
  obtain r s' where c: "claim_preview e t a tok conf d s = (r, s')" by fastforce
  show ?thesis
  proof (cases "\<exists>c. r = Inr (Some c)")
    case False
    then show ?thesis using inv_claim_None [OF J c] c by (auto split: sum.split option.split)
  next
    case True
    then obtain cl where cl: "r = Inr (Some cl)" by blast
    with c have "claim_preview e t a tok conf d s = (Inr (Some cl), s')" by simp
    from claim_preview_spec [OF J this] obtain i where i: "current s = Some i" "i < length (objs s)" "conf"
      "s' = upd_obj i (\<lambda>q. q\<lparr>p_token_digest := [], p_token_expires_at := Fin 0, p_state := Claimed,
         p_claim := Some cl\<rparr>) (s\<lparr>tick := tick s + 2\<rparr>)" by metis
    have "approval_inv e (s', tr @ [(i, conf, cl)])"
      unfolding i(4) using i(2,3) inv_obj [OF inv_trace [OF J] i(2)]
      by (intro inv_upd) (auto simp: obj_ok_def intro: inv_trace [OF J])
    then show ?thesis using c cl i(1,4) by simp
  qed
qed

lemma inv_retire: "approval_inv e (s, tr) \<Longrightarrow> i < length (objs s) \<Longrightarrow> approval_inv e (retire_existing e i s, tr)"
proof -
  assume J: "approval_inv e (s, tr)" and i: "i < length (objs s)"
  have "approval_inv e (upd_obj i (\<lambda>q. q\<lparr>p_state := st\<rparr>) s, tr)" if "st \<in> {Was_Uncertain, Was_Expired}" for st
    using that i J by (intro inv_upd obj_ok_unclaimed [OF inv_obj [OF J i]]) auto
  then show ?thesis using J i
    by (auto simp: retire_existing_def Let_def intro!: inv_no_current inv_resolve)
qed

lemma inv_open:
  assumes J: "approval_inv e (s, tr)"
  shows "approval_inv e (snd (open_pending e r stage now s), tr)"
proof -
  have "approval_inv e (s\<lparr>objs := objs s @ [p], current := Some (length (objs s)), tick := n\<rparr>, tr)"
    if "p_state p = Awaiting" "p_future p = F_Pending" for p n
    using J that by (auto simp: approval_inv_def nth_append obj_ok_def)
  then show ?thesis using J by (simp add: open_pending_def split: sum.split)
qed

lemma inv_wait: "approval_inv e (s, tr) \<Longrightarrow> approval_inv e (snd (wait_begin e r d s), tr)"
  using inv_open [of e "s\<lparr>tick := n\<rparr>" tr for n] inv_current [of e s tr]
    inv_open [OF inv_retire [of e "s\<lparr>tick := n\<rparr>" tr i for n i]]
  by (auto simp: wait_begin_def Let_def split: sum.split option.split)

lemma inv_leave: "approval_inv e (s, tr) \<Longrightarrow> i < length (objs s) \<Longrightarrow> approval_inv e (leave_wait i s, tr)"
proof -
  assume J: "approval_inv e (s, tr)" and i: "i < length (objs s)"
  have "approval_inv e (upd_obj i (\<lambda>p. p\<lparr>p_waiting := False\<rparr>) s, tr)"
    using J i inv_obj [OF J i] by (intro inv_upd) (auto simp: obj_ok_def)
  then show ?thesis by (auto simp: leave_wait_def Let_def intro: inv_no_current)
qed

lemma inv_resume: "approval_inv e (s, tr) \<Longrightarrow> approval_inv e (snd (wait_resume e i w s), tr)"
proof (cases "i < length (objs s) \<and> p_waiting (objs s ! i)")
  case True
  assume J: "approval_inv e (s, tr)"
  from True have i: "i < length (objs s)" by simp
  have upd: "approval_inv e (upd_obj i (\<lambda>q. (if b then q\<lparr>p_state := st, p_token_digest := []\<rparr> else q\<lparr>p_state := st\<rparr>)) s, tr)"
    if "st \<notin> {Claimed, Resuming}" for st b
    using that i J by (intro inv_upd obj_ok_unclaimed [OF inv_obj [OF J i]]) auto
  have "approval_inv e (leave_wait i (resolve e i (late_resolution p) (upd_obj i (\<lambda>q. q\<lparr>p_state := st\<rparr>) s)), tr)"
    if "st \<notin> {Claimed, Resuming}" for st p
    using upd [OF that, of False] i by (intro inv_leave inv_resolve) simp_all
  moreover have "approval_inv e (leave_wait i (schedule e i Cancel_Future
      (upd_obj i (\<lambda>q. q\<lparr>p_state := st, p_token_digest := []\<rparr>) s)), tr)" if "st \<notin> {Claimed, Resuming}" for st
    using upd [OF that, of True] i by (intro inv_leave inv_schedule) (simp_all add: action_ok_def)
  ultimately show ?thesis using J True inv_leave [OF J i]
    by (cases w) (auto simp: wait_resume_def Let_def split: future.split)
qed (auto simp: wait_resume_def)

lemma inv_release: "approval_inv e (s, tr) \<Longrightarrow> approval_inv e (snd (release_task_cancel_barrier t s), tr)"
  by (auto simp: release_task_cancel_barrier_def intro: inv_no_current split: option.split sum.split)

interpretation approval: op_machine "approval_step e" "approval_inv e" for e
proof (unfold_locales)
  fix st x assume J: "approval_inv e st"
  obtain s tr where st: "st = (s, tr)" by fastforce
  then have J': "approval_inv e (s, tr)" using J by simp
  show "approval_inv e (approval_step e st x)"
    using inv_wait [OF J'] inv_resume [OF J'] inv_callback [OF J'] inv_issue [OF J'] inv_claim_step [OF J']
      inv_complete [OF J'] inv_prepare_cancel [OF J'] inv_complete_cancel [OF J'] inv_cancel [OF J']
      inv_release [OF J'] st
    by (cases x) (simp_all only: approval_step.simps)
qed

section \<open>Properties\<close>

lemma new_approval_inv: "approval_inv e (new_approval_mgr e ttl pttl gen, [])"
  by (simp add: approval_inv_def new_approval_mgr_def)

text \<open>
  C4. The coroutine that waits for a decision is told "approved" only after the user confirmed:
  in any run, when \<open>wait\<close> returns an approved resolution, a claim was handed out earlier for
  that very request with the user's confirmation, and the receipt is a valid host result with a
  definite outcome. The outcome may be a failure or a refusal of the host, which the waiter is
  told of by the receipt; if it is a success, then the edit was attempted, executed, observed
  and verified, and the evidence carries the hash of the candidate that the user had previewed.
\<close>

theorem approved_only_after_confirmed_claim:
  assumes "foldl (approval_step e) (new_approval_mgr e ttl pttl gen, []) ops = (s, tr)"
    and "wait_resume e i w s = (Some (Returned r), s')" and "res_state r = Approved"
  shows "\<exists>c rc. (i, True, c) \<in> set tr \<and> res_receipt r = Some rc \<and> receipt_ok e c rc"
proof -
  have J: "approval_inv e (s, tr)"
    using approval.inv_run [OF new_approval_inv [of e ttl pttl gen], of ops] assms(1) by simp
  have i: "i < length (objs s)" "p_waiting (objs s ! i)"
    using assms(2) by (auto simp: wait_resume_def split: if_splits)
  have "p_future (objs s ! i) = F_Result r"
    using assms(2,3) i
    by (cases w) (auto simp: wait_resume_def Let_def late_resolution_def split: future.splits if_splits)
  with inv_obj [OF J i(1)] assms(3) show ?thesis by (auto simp: obj_ok_def backed_def)
qed

definition demo_hash :: string where "demo_hash = replicate 64 (CHR ''a'')"

definition demo_env :: approval_env where
  "demo_env = \<lparr>sha = (\<lambda>_. demo_hash), canon = (\<lambda>_. Some []), clock_at = (\<lambda>_. 0),
     random_id = (\<lambda>_. demo_hash), loop_open = (\<lambda>_. True), repr_of = (\<lambda>_. [])\<rparr>"

definition demo_request :: request where
  "demo_request = \<lparr>task_id = ''t'', grant_id = ''g'', action_run_id = ''a'', step_id = PInt 1,
     tool = ''workspace_edit'', args_hash = demo_hash, surface = ''s'', args = PDict [], max_steps = PInt 6,
     grant_expires_at = PFloat (Fin 90)\<rparr>"

definition demo_stage :: pydict where
  "demo_stage = [(''stageId'', PStr ''st''), (''hostInstanceId'', PStr ''h''), (''path'', PStr ''f''),
     (''mode'', PStr ''replace''), (''baseSha256'', PStr demo_hash), (''candidateSha256'', PStr demo_hash),
     (''diffSha256'', PStr demo_hash), (''fullDiff'', PStr ''d''), (''diffTruncated'', PBool False),
     (''gitStatus'', PStr []), (''dirtyStatus'', PStr ''clean''), (''tracked'', PBool True),
     (''dirtyBaseAcknowledgementRequired'', PBool False), (''bytes'', PInt 1),
     (''issuedAt'', PFloat (Fin 0)), (''expiresAt'', PFloat (Fin 60)), (''argsHash'', PStr demo_hash),
     (''previewDigest'', PStr demo_hash)]"

lemma demo_stage_gets:
  "py_get demo_stage ''stageId'' = PStr ''st''" "py_get demo_stage ''hostInstanceId'' = PStr ''h''"
  "py_get demo_stage ''path'' = PStr ''f''" "py_get demo_stage ''mode'' = PStr ''replace''"
  "py_get demo_stage ''baseSha256'' = PStr demo_hash" "py_get demo_stage ''candidateSha256'' = PStr demo_hash"
  "py_get demo_stage ''diffSha256'' = PStr demo_hash" "py_get demo_stage ''fullDiff'' = PStr ''d''"
  "py_get demo_stage ''diffTruncated'' = PBool False" "py_get demo_stage ''gitStatus'' = PStr []"
  "py_get demo_stage ''dirtyStatus'' = PStr ''clean''" "py_get demo_stage ''tracked'' = PBool True"
  "py_get demo_stage ''dirtyBaseAcknowledgementRequired'' = PBool False" "py_get demo_stage ''bytes'' = PInt 1"
  "py_get demo_stage ''issuedAt'' = PFloat (Fin 0)" "py_get demo_stage ''expiresAt'' = PFloat (Fin 60)"
  "py_get demo_stage ''argsHash'' = PStr demo_hash" "py_get demo_stage ''previewDigest'' = PStr demo_hash"
  by (simp_all add: py_get_def demo_stage_def)

lemma demo_keys: "set (map fst demo_stage) = set stage_preview_keys"
  by (simp add: demo_stage_def stage_preview_keys_def)

lemma demo_hash_ok [simp]: "sha_pattern demo_hash" "ascii_text demo_hash" "demo_hash \<noteq> []" "length demo_hash = 64"
  by (simp_all add: demo_hash_def sha_pattern_def list_all_iff hex_char_def ascii_text_def)

lemma demo_not_absent [simp]: "demo_hash \<noteq> absent_sha"
proof
  assume "demo_hash = absent_sha"
  then have "length demo_hash = length absent_sha" by simp
  then show False by (simp add: absent_sha_def)
qed

lemma demo_ids [simp]: "identifier_text ''st'' = ''st''" "identifier_text ''h'' = ''h''" "identifier_text ''t'' = ''t''"
  "identifier_text ''g'' = ''g''" "identifier_text ''a'' = ''a''" "identifier_text ''s'' = ''s''"
  by (simp_all add: identifier_text_def py_strip_def py_space_def id_pattern_def id_head_def)

lemma demo_env_simps [simp]: "sha demo_env t = demo_hash" "canon demo_env v = Some []" "clock_at demo_env n = 0"
  "random_id demo_env n = demo_hash" "loop_open demo_env n" "repr_of demo_env = (\<lambda>_. [])"
  by (simp_all add: demo_env_def)

lemma demo_request_ok: "request_valid demo_env demo_request = Inr True"
  by (simp add: request_valid_def canon_hash_def demo_request_def positive_int_def sha256_text_def
      compare_digest_def steps_ok_def grant_time_ok_def)

lemma demo_fields_ok: "stage_fields_ok demo_env demo_request demo_stage (Fin 0) (Fin 60) 1 0"
  unfolding stage_fields_ok_def Let_def demo_stage_gets
  by (simp add: py_identifier_def sha256_def sha256_text_def is_str_def is_bool_def utf8_length_def
      max_preview_bytes_def dirty_states_def pf_le_def demo_request_def)

lemma demo_preview_ok: "validated_stage_preview demo_env demo_request demo_stage 0 = Inr (Some demo_stage)"
  using demo_fields_ok demo_keys
  by (simp add: validated_stage_preview_def demo_stage_gets caught_def stage_mode_raises_def stage_mode_ok_def canon_hash_def
      compare_digest_def)

lemma min3_Fin [simp]: "min3 (Fin a) (Fin b) (Fin c) = Fin (min (min a b) c)"
  by (simp add: min3_def Let_def min_def)

definition demo_pending :: pending where
  "demo_pending = \<lparr>p_approval_id = ''approval-'' @ demo_hash, p_request = demo_request, p_stage = demo_stage,
     p_future = F_Pending, p_issued_at = 0, p_expires_at = Fin 60, p_state = Awaiting, p_token_digest = [],
     p_token_expires_at = Fin 0, p_claim = None, p_waiting = True\<rparr>"

definition demo_mgr :: "pending \<Rightarrow> nat \<Rightarrow> approval_mgr" where
  "demo_mgr p n = \<lparr>ttl_sec = 300, preview_ttl_sec = 30, generation = ''g'', objs = [p], current = Some 0,
     callbacks = [], tick = n\<rparr>"

definition demo_aid :: string where "demo_aid = ''approval-'' @ demo_hash"

lemma demo_aid_ok [simp]: "ascii_text demo_aid" "ascii_text ''t''"
  using demo_hash_ok(2) by (simp_all add: demo_aid_def ascii_text_def)

lemma demo_wait: "wait_begin demo_env demo_request demo_stage (new_approval_mgr demo_env 300 30 ''g'') =
  (Inr (Waiting 0), demo_mgr demo_pending 3)"
  by (simp add: wait_begin_def new_approval_mgr_def demo_request_ok demo_preview_ok open_pending_def
      demo_stage_gets demo_mgr_def demo_pending_def Let_def) (simp add: demo_request_def)

lemma demo_matches: "p_approval_id p = demo_aid \<Longrightarrow> p_request p = demo_request \<Longrightarrow> p_expires_at p = Fin 60 \<Longrightarrow>
  matches demo_env ''t'' demo_aid (demo_mgr p n) = (Inr (Some 0), demo_mgr p (Suc n))"
  by (simp add: matches_def demo_mgr_def pf_le_def compare_digest_def demo_request_def)

definition demo_issued :: pending where
  "demo_issued = demo_pending\<lparr>p_token_digest := demo_hash, p_token_expires_at := Fin 30\<rparr>"

lemma demo_issue: "issue_preview demo_env ''t'' demo_aid (demo_mgr demo_pending 3) =
  (Inr (Preview demo_hash (Fin 30)), demo_mgr demo_issued 5)"
proof -
  have "matches demo_env ''t'' demo_aid (demo_mgr demo_pending 3) = (Inr (Some 0), demo_mgr demo_pending 4)"
    using demo_matches [of demo_pending 3] by (simp add: demo_pending_def demo_aid_def)
  then show ?thesis
    by (simp add: issue_preview_def bind_def Let_def demo_mgr_def upd_obj_def demo_issued_def)
      (simp add: demo_pending_def demo_stage_gets pf_le_def Let_def upd_obj_def)
qed

definition demo_claim :: claim where
  "demo_claim = \<lparr>approval_id = demo_aid, claim_id = ''claim-'' @ demo_hash, claim_generation = ''g'',
     claim_request = demo_request, stage_id = ''st'', host_instance_id = ''h'', base_sha256 = demo_hash,
     candidate_sha256 = demo_hash, preview_digest = demo_hash, dirty_base_acknowledged = False\<rparr>"

definition demo_claimed :: pending where
  "demo_claimed = demo_pending\<lparr>p_state := Claimed, p_claim := Some demo_claim\<rparr>"

lemma demo_make_claim: "p_approval_id p = demo_aid \<Longrightarrow> p_request p = demo_request \<Longrightarrow> p_stage p = demo_stage \<Longrightarrow>
  make_claim demo_env 0 False (demo_mgr p n) = demo_claim"
  by (simp add: make_claim_def demo_mgr_def demo_claim_def demo_stage_gets Let_def)

lemma demo_claim_step: "claim_preview demo_env ''t'' demo_aid demo_hash True False (demo_mgr demo_issued 5) =
  (Inr (Some demo_claim), demo_mgr demo_claimed 7)"
proof -
  have "matches demo_env ''t'' demo_aid (demo_mgr demo_issued 5) = (Inr (Some 0), demo_mgr demo_issued 6)"
    using demo_matches [of demo_issued 5] by (simp add: demo_issued_def demo_pending_def demo_aid_def)
  moreover have "make_claim demo_env 0 False (demo_mgr demo_issued 7) = demo_claim"
    by (rule demo_make_claim) (simp_all add: demo_issued_def demo_pending_def demo_aid_def)
  ultimately show ?thesis
    by (simp add: claim_preview_def bind_def Let_def demo_mgr_def upd_obj_def compare_digest_def)
      (simp add: demo_issued_def demo_claimed_def demo_pending_def demo_stage_gets pf_le_def)
qed

definition demo_result :: pydict where
  "demo_result = [(''attempted'', PBool True), (''executed'', PBool True), (''observed'', PBool True),
     (''verified'', PBool True), (''outcome'', PStr ''succeeded''), (''code'', PStr ''ok''),
     (''summary'', PStr []), (''evidence'', PDict [(''sha256'', PStr demo_hash)])]"

definition demo_resolution :: resolution where
  "demo_resolution = \<lparr>res_state = Approved, res_receipt = Some demo_result\<rparr>"

lemma demo_receipt: "completion_receipt demo_env demo_claim (PDict demo_result) = Inr demo_result"
proof -
  have "host_result_is_valid (PDict demo_result) = Inr True"
    by (simp add: host_result_is_valid_def demo_result_def host_result_keys_def py_get_def is_bool_def
        is_str_def is_dict_def insert_commute)
  then show ?thesis
    by (simp add: completion_receipt_def demo_result_def py_get_def compare_digest_def demo_claim_def)
qed

lemma demo_complete: "complete_claim demo_env demo_claim (PDict demo_result) (demo_mgr demo_claimed 7) =
  (Inr True, (demo_mgr (demo_claimed\<lparr>p_state := Resuming\<rparr>) 8)\<lparr>callbacks := [(0, Set_Result demo_resolution)]\<rparr>)"
proof -
  have "matches demo_env (task_id (claim_request demo_claim)) (approval_id demo_claim) (demo_mgr demo_claimed 7) =
      (Inr (Some 0), demo_mgr demo_claimed 8)"
    using demo_matches [of demo_claimed 7]
    by (simp add: demo_claimed_def demo_pending_def demo_aid_def demo_claim_def demo_request_def)
  then show ?thesis
    by (simp add: complete_claim_def bind_def Let_def demo_mgr_def upd_obj_def demo_receipt resolve_def
        schedule_def demo_resolution_def)
      (simp add: demo_claimed_def demo_pending_def demo_claim_def demo_result_def py_get_def)
qed

definition demo_ops :: "approval_op list" where
  "demo_ops = [Op_Wait demo_request demo_stage, Op_Issue ''t'' demo_aid,
     Op_Claim ''t'' demo_aid demo_hash True False, Op_Complete demo_claim (PDict demo_result), Op_Callback]"

definition demo_final :: approval_mgr where
  "demo_final = demo_mgr (demo_claimed\<lparr>p_state := Resuming, p_future := F_Result demo_resolution\<rparr>) 8"

lemma demo_run: "foldl (approval_step demo_env) (new_approval_mgr demo_env 300 30 ''g'', []) demo_ops =
  (demo_final, [(0, True, demo_claim)])"
proof -
  have "current (demo_mgr p n) = Some 0" for p n by (simp add: demo_mgr_def)
  moreover have "run_callback ((demo_mgr (demo_claimed\<lparr>p_state := Resuming\<rparr>) 8)\<lparr>callbacks :=
      [(0, Set_Result demo_resolution)]\<rparr>) = demo_final"
    by (simp add: run_callback_def demo_mgr_def upd_obj_def demo_final_def demo_claimed_def demo_pending_def)
  ultimately show ?thesis
    by (simp add: demo_ops_def demo_wait demo_issue demo_claim_step demo_complete)
qed

theorem approved_only_after_confirmed_claim_witness:
  "\<exists>r s'. wait_resume demo_env 0 Got_Result demo_final = (Some (Returned r), s') \<and> res_state r = Approved \<and>
     (\<exists>rc. res_receipt r = Some rc \<and> (\<exists>c. receipt_ok demo_env c rc))"
proof -
  have w: "wait_resume demo_env 0 Got_Result demo_final = (Some (Returned demo_resolution), leave_wait 0 demo_final)"
    by (simp add: wait_resume_def demo_final_def demo_mgr_def demo_claimed_def demo_pending_def)
  have a: "res_state demo_resolution = Approved" by (simp add: demo_resolution_def)
  from approved_only_after_confirmed_claim [OF demo_run w a] w a show ?thesis by blast
qed

text \<open>
  C5. A claim is handed out only to a confirming user who presents, before its deadline and
  before the approval expires, the token of the last preview of the named approval, and who
  acknowledged a dirty base exactly when that is required. The token is then spent: no further
  claim can be made on the manager as it is left.
\<close>

theorem claim_needs_live_token:
  assumes "approval_inv e (s, tr)" and "claim_preview e tid aid tok conf dirty s = (Inr (Some c), s')"
  shows "conf \<and> approval_id c = aid \<and> task_id (claim_request c) = tid \<and> dirty_base_acknowledged c = dirty \<and>
    (\<exists>i. current s = Some i \<and> p_state (objs s ! i) = Awaiting \<and>
       sha e tok = p_token_digest (objs s ! i) \<and> p_token_digest (objs s ! i) \<noteq> [] \<and>
       \<not> pf_le (p_token_expires_at (objs s ! i)) (Fin (clock_at e (tick s + 1))) \<and>
       \<not> pf_le (p_expires_at (objs s ! i)) (Fin (clock_at e (tick s))) \<and>
       py_get (p_stage (objs s ! i)) ''dirtyBaseAcknowledgementRequired'' = PBool dirty \<and>
       p_state (objs s' ! i) = Claimed \<and> p_claim (objs s' ! i) = Some c) \<and>
    (\<forall>e' tid' aid' tok' conf' dirty' c'. fst (claim_preview e' tid' aid' tok' conf' dirty' s') \<noteq> Inr (Some c'))"
proof -
  obtain i where i: "current s = Some i" "i < length (objs s)" "p_state (objs s ! i) = Awaiting" conf
    "task_id (p_request (objs s ! i)) = tid" "p_approval_id (objs s ! i) = aid"
    "\<not> pf_le (p_expires_at (objs s ! i)) (Fin (clock_at e (tick s)))"
    "p_token_digest (objs s ! i) \<noteq> []" "sha e tok = p_token_digest (objs s ! i)"
    "\<not> pf_le (p_token_expires_at (objs s ! i)) (Fin (clock_at e (tick s + 1)))"
    "py_get (p_stage (objs s ! i)) ''dirtyBaseAcknowledgementRequired'' = PBool dirty"
    "c = make_claim e i dirty (s\<lparr>tick := tick s + 2\<rparr>)"
    "s' = upd_obj i (\<lambda>q. q\<lparr>p_token_digest := [], p_token_expires_at := Fin 0, p_state := Claimed,
       p_claim := Some c\<rparr>) (s\<lparr>tick := tick s + 2\<rparr>)"
    using claim_preview_spec [OF assms] by metis
  have after: "current s' = Some i" "p_state (objs s' ! i) = Claimed" "p_claim (objs s' ! i) = Some c"
    using i(1,2,13) by simp_all
  have "fst (claim_preview e' tid' aid' tok' conf' dirty' s') \<noteq> Inr (Some c')" for e' tid' aid' tok' conf' dirty' c'
  proof
    assume a: "fst (claim_preview e' tid' aid' tok' conf' dirty' s') = Inr (Some c')"
    then obtain m s1 where "matches e' tid' aid' s' = (Inr m, s1)" "m \<noteq> None"
      "\<forall>j. m = Some j \<longrightarrow> p_state (objs s1 ! j) = Awaiting"
      by (auto simp: claim_preview_def bind_def Let_def split: prod.splits sum.splits option.splits if_splits)
    then show False using after
      by (auto simp: matches_def Let_def split: option.splits if_splits sum.splits bool.splits)
  qed
  then show ?thesis using i after by (auto simp: make_claim_def Let_def)
qed

lemma demo_issued_inv: "approval_inv demo_env (demo_mgr demo_issued 5, [])"
  by (simp add: approval_inv_def demo_mgr_def obj_ok_def demo_issued_def demo_pending_def)

theorem claim_needs_live_token_witness:
  "approval_id demo_claim = demo_aid \<and>
   fst (claim_preview demo_env ''t'' demo_aid demo_hash True False (demo_mgr demo_claimed 7)) \<noteq> Inr (Some demo_claim)"
  using claim_needs_live_token [OF demo_issued_inv demo_claim_step] by blast

lemma min3_least: "\<not> pf_lt (Fin a) (min3 (Fin a) b c) \<and> \<not> pf_lt b (min3 (Fin a) b c) \<and> \<not> pf_lt c (min3 (Fin a) b c)"
  by (cases b; cases c) (auto simp: min3_def Let_def)

lemma open_pending_Waiting:
  assumes "open_pending e r stage now s = (Inr (Waiting i), s')"
  shows "i = length (objs s) \<and> current s' = Some i \<and> length (objs s') = Suc i \<and>
    p_request (objs s' ! i) = r \<and> p_stage (objs s' ! i) = stage \<and> p_state (objs s' ! i) = Awaiting \<and>
    p_claim (objs s' ! i) = None \<and> p_token_digest (objs s' ! i) = [] \<and>
    (\<exists>x g. py_float (py_get stage ''expiresAt'') = Inr x \<and> py_float (grant_expires_at r) = Inr g \<and>
       p_expires_at (objs s' ! i) = min3 (Fin (now + ttl_sec s)) x g)"
  using assms by (auto simp: open_pending_def split: sum.splits)

lemma retire_same [simp]: "ttl_sec (retire_existing e i s) = ttl_sec s" "tick (retire_existing e i s) = tick s"
  by (simp_all add: retire_existing_def Let_def resolve_def schedule_def upd_obj_def)

lemma wait_begin_opens:
  assumes "wait_begin e r d s = (Inr (Waiting i), s')"
  obtains stage t where "request_valid e r = Inr True"
    "validated_stage_preview e r d (clock_at e (tick s)) = Inr (Some stage)"
    "t = s\<lparr>tick := tick s + 1\<rparr> \<or> (\<exists>j. current s = Some j \<and> t = retire_existing e j (s\<lparr>tick := tick s + 1\<rparr>))"
    "open_pending e r stage (clock_at e (tick s)) t = (Inr (Waiting i), s')"
  using assms by (auto simp: wait_begin_def Let_def split: sum.splits if_splits option.splits)

section \<open>Deadlines\<close>

text \<open>
  What every approval of a run carries, once \<open>n\<close> readings of the clock were taken: it was opened
  at a reading for a valid request and a preview that was validated then, it expires at an
  instant that is bounded by the manager's limit, the grant and the preview, and so does its token.
\<close>

definition timed :: "approval_env \<Rightarrow> real \<Rightarrow> real \<Rightarrow> nat \<Rightarrow> pending \<Rightarrow> bool" where
  "timed e limit token_limit n p \<longleftrightarrow>
     request_valid e (p_request p) = Inr True \<and>
     (\<exists>d. validated_stage_preview e (p_request p) d (p_issued_at p) = Inr (Some (p_stage p))) \<and>
     (\<exists>k < n. p_issued_at p = clock_at e k) \<and>
     (\<exists>x g y. p_expires_at p = Fin x \<and> x \<le> p_issued_at p + limit \<and>
        py_float (grant_expires_at (p_request p)) = Inr (Fin g) \<and> x \<le> g \<and>
        py_float (py_get (p_stage p) ''expiresAt'') = Inr y \<and> \<not> pf_lt y (Fin x) \<and>
        (p_token_digest p \<noteq> [] \<longrightarrow>
           (\<exists>z k. p_token_expires_at p = Fin z \<and> z \<le> x \<and> k < n \<and> z \<le> clock_at e k + token_limit)))"

definition timed_inv :: "approval_env \<Rightarrow> real \<Rightarrow> real \<Rightarrow> approval_mgr \<times> claim_trace \<Rightarrow> bool" where
  "timed_inv e a b st \<longleftrightarrow> (case st of (s, tr) \<Rightarrow>
     ttl_sec s = a \<and> preview_ttl_sec s = b \<and> (\<forall>p \<in> set (objs s). timed e a b (tick s) p))"

lemma timed_later: "timed e a b n p \<Longrightarrow> n \<le> m \<Longrightarrow> timed e a b m p"
  unfolding timed_def by (meson less_le_trans)

lemma timed_fields [simp]:
  "timed e a b n (p\<lparr>p_state := st\<rparr>) = timed e a b n p"
  "timed e a b n (p\<lparr>p_claim := c\<rparr>) = timed e a b n p"
  "timed e a b n (p\<lparr>p_future := f\<rparr>) = timed e a b n p"
  "timed e a b n (p\<lparr>p_waiting := w\<rparr>) = timed e a b n p"
  by (simp_all add: timed_def)

lemma timed_no_token: "timed e a b n p \<Longrightarrow> timed e a b n (p\<lparr>p_token_digest := []\<rparr>)"
  "timed e a b n p \<Longrightarrow> timed e a b n (p\<lparr>p_token_digest := [], p_token_expires_at := z\<rparr>)"
  by (auto simp: timed_def)

lemma timed_clear: "timed e a b n p \<Longrightarrow> timed e a b n (clear_token p)"
  by (simp add: clear_token_def timed_no_token)

lemma timed_set [simp]:
  "timed_inv e a b (s\<lparr>current := c\<rparr>, tr) = timed_inv e a b (s, tr)"
  "timed_inv e a b (s\<lparr>callbacks := q\<rparr>, tr) = timed_inv e a b (s, tr)"
  by (simp_all add: timed_inv_def)

lemma timed_trace: "timed_inv e a b (s, tr) \<Longrightarrow> timed_inv e a b (s, tr')"
  by (simp add: timed_inv_def)

lemma timed_tick: "timed_inv e a b (s, tr) \<Longrightarrow> tick s \<le> n \<Longrightarrow> timed_inv e a b (s\<lparr>tick := n\<rparr>, tr)"
  by (auto simp: timed_inv_def intro: timed_later)

lemma timed_upd:
  assumes "timed_inv e a b (s, tr)"
    and "i < length (objs s) \<Longrightarrow> timed e a b (tick s) (objs s ! i) \<Longrightarrow> timed e a b (tick s) (f (objs s ! i))"
  shows "timed_inv e a b (upd_obj i f s, tr)"
  using assms set_update_subset_insert [of "objs s" i "f (objs s ! i)"]
  by (cases "i < length (objs s)") (fastforce simp: timed_inv_def upd_obj_def, simp add: upd_obj_def list_update_beyond)

lemma timed_schedule [simp]: "timed_inv e a b (schedule e' i x s, tr) = timed_inv e a b (s, tr)"
  by (simp add: schedule_def)

lemma timed_resolve [simp]: "timed_inv e a b (resolve e' i x s, tr) = timed_inv e a b (s, tr)"
  by (simp add: resolve_def)

lemma schedule_tick [simp]: "tick (schedule e i a s) = tick s" by (simp add: schedule_def)
lemma resolve_tick [simp]: "tick (resolve e i r s) = tick s" by (simp add: resolve_def)

lemma timed_retire: "timed_inv e a b (s, tr) \<Longrightarrow> timed_inv e a b (retire_existing e i s, tr)"
  by (auto simp: retire_existing_def Let_def intro!: timed_upd)

lemma timed_matches: "timed_inv e a b (s, tr) \<Longrightarrow> timed_inv e a b (snd (matches e t x s), tr)"
  by (auto simp: matches_def Let_def intro: timed_tick split: option.split sum.split bool.split)

lemma timed_matches_bind:
  assumes "timed_inv e a b (s, tr)"
    and "\<And>m s1. timed_inv e a b (s1, tr) \<Longrightarrow> timed_inv e a b (snd (f m s1), tr)"
  shows "timed_inv e a b (snd (bind (matches e t x) f s), tr)"
  using timed_matches [OF assms(1), of t x] assms(2)
  by (cases "matches e t x s") (auto simp: bind_def split: sum.split)

lemma min3_keeps: "\<not> pf_lt y (Fin x) \<Longrightarrow> min3 (Fin a) (Fin x) y = Fin (min a x)"
  by (cases y) (auto simp: min3_def Let_def min_def)

lemma timed_token:
  assumes "timed e a b n p" and "py_float (py_get (p_stage p) ''expiresAt'') = Inr y" and "k < n"
  shows "timed e a b n (p\<lparr>p_token_digest := d,
    p_token_expires_at := min3 (Fin (clock_at e k + b)) (p_expires_at p) y\<rparr>)"
proof -
  obtain x where x: "p_expires_at p = Fin x" "\<not> pf_lt y (Fin x)" using assms(1,2) by (auto simp: timed_def)
  have "min3 (Fin (clock_at e k + b)) (p_expires_at p) y = Fin (min (clock_at e k + b) x)"
    using min3_keeps x by simp
  moreover have "\<exists>i < n. min (clock_at e k + b) x \<le> clock_at e i + b" using assms(3) by (intro exI [of _ k]) simp
  ultimately show ?thesis using assms(1) x by (auto simp: timed_def)
qed

lemma timed_issue: "timed_inv e a b (s, tr) \<Longrightarrow> timed_inv e a b (snd (issue_preview e t x s), tr)"
  unfolding issue_preview_def
proof (erule timed_matches_bind, goal_cases)
  case (1 m s1)
  have b: "preview_ttl_sec s1 = b" using 1 by (simp add: timed_inv_def)
  have tick: "timed_inv e a b (s1\<lparr>tick := Suc (tick s1)\<rparr>, tr)" using 1 by (simp add: timed_tick)
  have "timed_inv e a b (upd_obj i (\<lambda>q. q\<lparr>p_token_digest := d, p_token_expires_at :=
      min3 (Fin (clock_at e (tick s1) + b)) (p_expires_at (objs s1 ! i)) y\<rparr>) (s1\<lparr>tick := Suc (tick s1)\<rparr>), tr)"
    if "py_float (py_get (p_stage (objs s1 ! i)) ''expiresAt'') = Inr y" for i d y
    using that by (intro timed_upd tick) (auto intro: timed_token)
  then show ?case using 1 b tick by (auto simp: Let_def split: option.split sum.split)
qed

lemma timed_claim: "timed_inv e a b (s, tr) \<Longrightarrow> timed_inv e a b (snd (claim_preview e t x tok conf d s), tr)"
  unfolding claim_preview_def
  by (erule timed_matches_bind)
    (auto simp: Let_def timed_no_token intro!: timed_upd timed_tick split: option.split sum.split)

lemma timed_complete: "timed_inv e a b (s, tr) \<Longrightarrow> timed_inv e a b (snd (complete_claim e c v s), tr)"
  unfolding complete_claim_def
  by (erule timed_matches_bind) (auto simp: Let_def intro!: timed_upd split: option.split sum.split)

lemma timed_prepare_cancel: "timed_inv e a b (s, tr) \<Longrightarrow> timed_inv e a b (snd (prepare_cancel e t x s), tr)"
  unfolding prepare_cancel_def
  by (erule timed_matches_bind)
    (auto simp: Let_def timed_clear intro!: timed_upd timed_tick split: option.split)

lemma timed_cancel: "timed_inv e a b (s, tr) \<Longrightarrow> timed_inv e a b (snd (cancel_approval e t x s), tr)"
  unfolding cancel_approval_def
  by (erule timed_matches_bind)
    (auto simp: Let_def timed_clear intro!: timed_upd timed_tick split: option.split)

lemma timed_complete_cancel: "timed_inv e a b (s, tr) \<Longrightarrow> timed_inv e a b (snd (complete_cancel e c v s), tr)"
  by (auto simp: complete_cancel_def Let_def intro!: timed_upd split: option.split sum.split)

lemma timed_release: "timed_inv e a b (s, tr) \<Longrightarrow> timed_inv e a b (snd (release_task_cancel_barrier t s), tr)"
  by (auto simp: release_task_cancel_barrier_def split: option.split sum.split)

lemma timed_leave: "timed_inv e a b (s, tr) \<Longrightarrow> timed_inv e a b (leave_wait i s, tr)"
  by (auto simp: leave_wait_def Let_def intro!: timed_upd)

lemma timed_resume: "timed_inv e a b (s, tr) \<Longrightarrow> timed_inv e a b (snd (wait_resume e i w s), tr)"
  by (auto simp: wait_resume_def Let_def timed_no_token intro!: timed_leave timed_upd split: wake.split future.split)

lemma timed_callback: "timed_inv e a b (s, tr) \<Longrightarrow> timed_inv e a b (run_callback s, tr)"
  by (auto simp: run_callback_def Let_def intro!: timed_upd split: list.split)

lemma request_grant_finite:
  assumes "request_valid e r = Inr True"
  obtains g where "py_float (grant_expires_at r) = Inr (Fin g)"
proof -
  have "grant_time_ok (grant_expires_at r) = Inr True"
    using assms by (auto simp: request_valid_def bind_r_Inr split: sum.splits if_splits)
  then have "\<exists>g. py_float (grant_expires_at r) = Inr (Fin g)"
    by (cases "grant_expires_at r")
      (auto simp: grant_time_ok_def bind_r_Inr elim!: is_finite.elims split: if_splits)
  then show thesis using that by blast
qed

lemma stage_expiry:
  assumes "validated_stage_preview e r d now = Inr (Some st)"
  obtains y where "st = d" "py_float (py_get d ''expiresAt'') = Inr y" "\<not> pf_le y (Fin now)"
  using assms
  by (auto simp: validated_stage_preview_def bind_r_Inr caught_def stage_fields_ok_def Let_def
      split: if_splits sum.splits)

lemma min3_bounds:
  assumes "\<not> pf_le y (Fin now)"
  shows "\<exists>x. min3 (Fin a) y (Fin g) = Fin x \<and> x \<le> a \<and> x \<le> g \<and> \<not> pf_lt y (Fin x)"
  using assms by (cases y) (auto simp: min3_def Let_def pf_le_def split: if_splits)

lemma timed_open:
  assumes "timed_inv e a b (s, tr)" and "request_valid e r = Inr True" and "k < tick s"
    and "validated_stage_preview e r d (clock_at e k) = Inr (Some st)"
  shows "timed_inv e a b (snd (open_pending e r st (clock_at e k) s), tr)"
proof -
  obtain g where g: "py_float (grant_expires_at r) = Inr (Fin g)" using request_grant_finite [OF assms(2)] .
  obtain y where y: "st = d" "py_float (py_get d ''expiresAt'') = Inr y" "\<not> pf_le y (Fin (clock_at e k))"
    using stage_expiry [OF assms(4)] .
  obtain x where x: "min3 (Fin (clock_at e k + a)) y (Fin g) = Fin x" "x \<le> clock_at e k + a" "x \<le> g"
    "\<not> pf_lt y (Fin x)" using min3_bounds [OF y(3)] by blast
  have "ttl_sec s = a" using assms(1) by (simp add: timed_inv_def)
  moreover have "timed e a b (Suc (tick s)) p"
    if "p_request p = r" "p_stage p = st" "p_issued_at p = clock_at e k" "p_expires_at p = Fin x" "p_token_digest p = []" for p
    unfolding timed_def that using assms(2-4) x g y by (auto intro: less_SucI)
  ultimately show ?thesis using assms(1) g y x(1)
    by (auto simp: open_pending_def timed_inv_def intro: timed_later)
qed

lemma timed_wait: "timed_inv e a b (s, tr) \<Longrightarrow> timed_inv e a b (snd (wait_begin e r d s), tr)"
proof -
  assume J: "timed_inv e a b (s, tr)"
  let ?s = "s\<lparr>tick := Suc (tick s)\<rparr>"
  have t: "timed_inv e a b (?s, tr)" using J by (simp add: timed_tick)
  have "timed_inv e a b (snd (open_pending e r st (clock_at e (tick s)) u), tr)"
    if "request_valid e r = Inr True" "validated_stage_preview e r d (clock_at e (tick s)) = Inr (Some st)"
      "u = ?s \<or> (\<exists>i. u = retire_existing e i ?s)" for st u
    using that t timed_retire [OF t] by (intro timed_open) auto
  with t show ?thesis by (auto simp: wait_begin_def Let_def split: sum.split option.split)
qed

interpretation deadlines: op_machine "approval_step e" "timed_inv e a b" for e a b
proof (unfold_locales)
  fix st x assume J: "timed_inv e a b st"
  obtain s tr where st: "st = (s, tr)" by fastforce
  then have J': "timed_inv e a b (s, tr)" using J by simp
  show "timed_inv e a b (approval_step e st x)"
    using timed_wait [OF J'] timed_resume [OF J'] timed_callback [OF J'] timed_issue [OF J'] timed_complete [OF J']
      timed_prepare_cancel [OF J'] timed_complete_cancel [OF J'] timed_cancel [OF J'] timed_release [OF J'] st
      timed_claim [OF J'] timed_trace
    by (cases x) (auto split: prod.split sum.split option.split, (metis snd_conv)+)
qed

text \<open>
  C20. Every claim that any run hands out is in time, and the instants are bounded: the approval
  it belongs to was opened at an earlier reading of the clock, for a valid request and a preview
  that was validated then; it expires at a finite instant that lies at most the manager's limit
  (never more than 600 seconds) after the opening, not after the grant and not after the preview;
  and the token expires at a finite instant at most the limit of a preview (never more than 30
  seconds) after an earlier reading. Both instants are still ahead when the claim is made.
\<close>

theorem claims_are_made_in_time:
  assumes "foldl (approval_step e) (new_approval_mgr e ttl pttl gen, []) ops = (s, tr)"
    and "claim_preview e tid aid tok conf dirty s = (Inr (Some c), s')"
  shows "\<exists>i p x z g y k l d. current s = Some i \<and> i < length (objs s) \<and> p = objs s ! i \<and>
    approval_id c = p_approval_id p \<and> claim_request c = p_request p \<and> request_valid e (p_request p) = Inr True \<and>
    k < tick s \<and> p_issued_at p = clock_at e k \<and>
    validated_stage_preview e (p_request p) d (clock_at e k) = Inr (Some (p_stage p)) \<and>
    p_expires_at p = Fin x \<and> clock_at e (tick s) < x \<and> x \<le> clock_at e k + max 30 (min 600 ttl) \<and>
    py_float (grant_expires_at (p_request p)) = Inr (Fin g) \<and> x \<le> g \<and>
    py_float (py_get (p_stage p) ''expiresAt'') = Inr y \<and> \<not> pf_lt y (Fin x) \<and>
    p_token_expires_at p = Fin z \<and> clock_at e (tick s + 1) < z \<and> z \<le> x \<and>
    l < tick s \<and> z \<le> clock_at e l + max 5 (min 30 pttl)"
proof -
  have J: "approval_inv e (s, tr)"
    using approval.inv_run [OF new_approval_inv [of e ttl pttl gen], of ops] assms(1) by simp
  have "timed_inv e (max 30 (min 600 ttl)) (max 5 (min 30 pttl)) (new_approval_mgr e ttl pttl gen, [])"
    by (simp add: timed_inv_def new_approval_mgr_def)
  from deadlines.inv_run [OF this, of ops] assms(1)
  have T: "timed_inv e (max 30 (min 600 ttl)) (max 5 (min 30 pttl)) (s, tr)" by simp
  obtain i where i: "current s = Some i" "i < length (objs s)"
    "\<not> pf_le (p_expires_at (objs s ! i)) (Fin (clock_at e (tick s)))" "p_token_digest (objs s ! i) \<noteq> []"
    "\<not> pf_le (p_token_expires_at (objs s ! i)) (Fin (clock_at e (tick s + 1)))"
    "c = make_claim e i dirty (s\<lparr>tick := tick s + 2\<rparr>)"
    using claim_preview_spec [OF J assms(2)] by metis
  have t: "timed e (max 30 (min 600 ttl)) (max 5 (min 30 pttl)) (tick s) (objs s ! i)"
    using T i(2) by (auto simp: timed_inv_def)
  have c: "approval_id c = p_approval_id (objs s ! i)" "claim_request c = p_request (objs s ! i)"
    using i(6) by (simp_all add: make_claim_def Let_def)
  have late: "now < z" if "\<not> pf_le (Fin z) (Fin now)" for now z :: real using that by (auto simp: pf_le_def)
  obtain d k x g y z l where p: "request_valid e (p_request (objs s ! i)) = Inr True"
    "validated_stage_preview e (p_request (objs s ! i)) d (clock_at e k) = Inr (Some (p_stage (objs s ! i)))"
    "k < tick s" "p_issued_at (objs s ! i) = clock_at e k" "p_expires_at (objs s ! i) = Fin x"
    "x \<le> clock_at e k + max 30 (min 600 ttl)" "py_float (grant_expires_at (p_request (objs s ! i))) = Inr (Fin g)"
    "x \<le> g" "py_float (py_get (p_stage (objs s ! i)) ''expiresAt'') = Inr y" "\<not> pf_lt y (Fin x)"
    "p_token_expires_at (objs s ! i) = Fin z" "z \<le> x" "l < tick s" "z \<le> clock_at e l + max 5 (min 30 pttl)"
    using t i(4) unfolding timed_def by force
  show ?thesis
    by (rule exI [of _ i], rule exI [of _ "objs s ! i"], rule exI [of _ x], rule exI [of _ z], rule exI [of _ g],
        rule exI [of _ y], rule exI [of _ k], rule exI [of _ l], rule exI [of _ d])
      (use p i(1-3,5) c late in simp)
qed

lemma demo_issue_run: "foldl (approval_step demo_env) (new_approval_mgr demo_env 300 30 ''g'', [])
    [Op_Wait demo_request demo_stage, Op_Issue ''t'' demo_aid] = (demo_mgr demo_issued 5, [])"
  by (simp add: demo_wait demo_issue)

theorem claims_are_made_in_time_witness:
  "\<exists>i x. current (demo_mgr demo_issued 5) = Some i \<and> p_expires_at (objs (demo_mgr demo_issued 5) ! i) = Fin x \<and>
     0 < x \<and> (\<exists>k. x \<le> clock_at demo_env k + 300)"
proof -
  have "max 30 (min 600 (300::real)) = 300" by simp
  with claims_are_made_in_time [OF demo_issue_run demo_claim_step] show ?thesis by fastforce
qed

text \<open>
  A preview whose expiry is \<open>NaN\<close> passes every check that a preview with a good expiry
  passes, because no comparison with \<open>NaN\<close> holds; the expiry of the approval then ignores the
  preview altogether.
\<close>

theorem nan_expiry_is_accepted:
  assumes "stage_fields_ok e r d issued (Fin x) n now"
  shows "stage_fields_ok e r d issued NaN n now \<and> min3 (Fin a) NaN (Fin c) = Fin (min a c)"
  using assms by (auto simp: stage_fields_ok_def Let_def pf_le_def min3_def min_def)

theorem nan_expiry_is_accepted_witness:
  "stage_fields_ok demo_env demo_request demo_stage (Fin 0) NaN 1 0"
  using nan_expiry_is_accepted [OF demo_fields_ok] by blast

end
