(* ===== verification/Admission_Lane.thy ===== *)
theory Admission_Lane
  imports Py_Value "HOL-Library.Sublist"
begin

text \<open>
  \<open>evelyn_core/main_inference_contract.py\<close>: \<open>MainInferenceLane\<close>, which admits one request at a
  time to the main language model (real-time requests first, first in first out within a kind,
  with aging against starvation), and the foreground reservation that holds the lane free for
  an expected real-time request.

  The record \<open>lane\<close> is the \<open>_LoopLaneState\<close> of one event loop. An admission ticket is an object
  that \<open>_can_admit\<close> compares by identity (\<open>is\<close>) but \<open>deque.remove\<close> by value, so a ticket has an
  identity \<open>t_id\<close> besides its fields. \<open>admit\<close> is cut at its suspensions: \<open>admit_begin\<close> queues the
  ticket, \<open>try_admit\<close> is one evaluation of the condition (with the admission when it holds),
  \<open>give_up\<close> is the handler of a timeout or cancellation, \<open>lock_acquired\<close> follows the process
  lock, \<open>release_lane\<close> is the final block. Clock readings and the random reservation identity
  are arguments; wakings of the waiting callers are not state, since every waiting caller may
  evaluate its condition at any time. A stored reservation keeps its binding and expiry (its
  duration is not read again), and its timer may fire at any time.
\<close>

section \<open>Request kinds\<close>

datatype request_kind = Realtime | Interactive | Background | Warmup

fun kind_value :: "request_kind \<Rightarrow> nat" where
  "kind_value Realtime = 0"
| "kind_value Interactive = 1"
| "kind_value Background = 2"
| "kind_value Warmup = 3"

definition all_kinds :: "request_kind list" where
  "all_kinds = [Realtime, Interactive, Background, Warmup]"

lemma kind_value_inject: "kind_value a = kind_value b \<Longrightarrow> a = b"
  by (cases a; cases b) auto

lemma all_kinds_complete [simp]: "k \<in> set all_kinds"
  by (cases k) (simp_all add: all_kinds_def)

instantiation request_kind :: linorder
begin

definition less_eq_request_kind :: "request_kind \<Rightarrow> request_kind \<Rightarrow> bool" where
  "less_eq_request_kind a b \<longleftrightarrow> kind_value a \<le> kind_value b"

definition less_request_kind :: "request_kind \<Rightarrow> request_kind \<Rightarrow> bool" where
  "less_request_kind a b \<longleftrightarrow> kind_value a < kind_value b"

instance
  by standard (auto simp: less_eq_request_kind_def less_request_kind_def intro: kind_value_inject)

end

section \<open>Values from the wire\<close>

datatype lane_error = Invalid_Wire string | Rejected string

definition word_char :: "char \<Rightarrow> bool" where
  "word_char c = (c \<in> set ''abcdefghijklmnopqrstuvwxyzABCDEFGHIJKLMNOPQRSTUVWXYZ0123456789'')"

definition epoch_pattern :: "string \<Rightarrow> bool" where
  "epoch_pattern s \<longleftrightarrow> s \<noteq> [] \<and> word_char (hd s) \<and> length s \<le> 128 \<and>
     list_all (\<lambda>c. word_char c \<or> c \<in> set ''._:-'') s"

definition hex_lower :: "char \<Rightarrow> bool" where
  "hex_lower c = (c \<in> set ''abcdef0123456789'')"

definition backend_epoch_from_wire :: "pyval \<Rightarrow> lane_error + string" where
  "backend_epoch_from_wire v =
     (case v of
        PStr s \<Rightarrow> if s = py_strip s \<and> epoch_pattern s then Inr s
                 else Inl (Invalid_Wire ''main_llm_backend_epoch_invalid'')
      | _ \<Rightarrow> Inl (Invalid_Wire ''main_llm_backend_epoch_invalid''))"

definition capture_generation_from_wire :: "pyval \<Rightarrow> lane_error + int" where
  "capture_generation_from_wire v =
     (case v of
        PInt i \<Rightarrow> if 0 \<le> i \<and> i \<le> 2 ^ 63 - 1 then Inr i
                 else Inl (Invalid_Wire ''main_llm_capture_generation_invalid'')
      | _ \<Rightarrow> Inl (Invalid_Wire ''main_llm_capture_generation_invalid''))"

definition reservation_id_from_wire :: "pyval \<Rightarrow> lane_error + string" where
  "reservation_id_from_wire v =
     (case v of
        PStr s \<Rightarrow> if length s = 32 \<and> list_all hex_lower s then Inr s
                 else Inl (Invalid_Wire ''main_llm_foreground_reservation_id_invalid'')
      | _ \<Rightarrow> Inl (Invalid_Wire ''main_llm_foreground_reservation_id_invalid''))"

definition reservation_ttl_ms :: "pyval \<Rightarrow> lane_error + int" where
  "reservation_ttl_ms v =
     (case v of
        PInt i \<Rightarrow> if 500 \<le> i \<and> i \<le> 1000 then Inr i
                 else Inl (Invalid_Wire ''main_llm_foreground_reservation_ttl_invalid'')
      | _ \<Rightarrow> Inl (Invalid_Wire ''main_llm_foreground_reservation_ttl_invalid''))"

record binding =
  reservation_id :: string
  capture_generation :: int
  backend_epoch :: string

definition make_binding :: "pyval \<Rightarrow> pyval \<Rightarrow> pyval \<Rightarrow> lane_error + binding" where
  "make_binding rid gen epoch =
     bind_r (reservation_id_from_wire rid) (\<lambda>r.
     bind_r (capture_generation_from_wire gen) (\<lambda>g.
     bind_r (backend_epoch_from_wire epoch) (\<lambda>b.
       Inr \<lparr>reservation_id = r, capture_generation = g, backend_epoch = b\<rparr>)))"

definition rebind :: "binding \<Rightarrow> lane_error + binding" where
  "rebind b = make_binding (PStr (reservation_id b)) (PInt (capture_generation b)) (PStr (backend_epoch b))"

definition reservation_schema :: string where
  "reservation_schema = ''evelyn.main-foreground-reservation.v1''"

definition reservation_to_wire :: "binding \<Rightarrow> int \<Rightarrow> lane_error + (string \<times> pyval) list" where
  "reservation_to_wire b ttl =
     bind_r (rebind b) (\<lambda>b'. bind_r (reservation_ttl_ms (PInt ttl)) (\<lambda>t.
       Inr [(''schema'', PStr reservation_schema), (''reservationId'', PStr (reservation_id b')),
            (''captureGeneration'', PInt (capture_generation b')), (''backendEpoch'', PStr (backend_epoch b')),
            (''ttlMs'', PInt t)]))"

definition reservation_keys :: "string list" where
  "reservation_keys = [''schema'', ''reservationId'', ''captureGeneration'', ''backendEpoch'', ''ttlMs'']"

definition reservation_from_wire :: "pyval \<Rightarrow> lane_error + (binding \<times> int)" where
  "reservation_from_wire v =
     (case v of
        PDict d \<Rightarrow>
          if set (map fst d) \<noteq> set reservation_keys \<or> \<not> py_eq (py_get d ''schema'') (PStr reservation_schema)
          then Inl (Invalid_Wire ''main_llm_foreground_reservation_wire_invalid'')
          else bind_r (make_binding (py_get d ''reservationId'') (py_get d ''captureGeneration'')
                         (py_get d ''backendEpoch'')) (\<lambda>b.
               bind_r (reservation_ttl_ms (py_get d ''ttlMs'')) (\<lambda>t. Inr (b, t)))
      | _ \<Rightarrow> Inl (Invalid_Wire ''main_llm_foreground_reservation_wire_invalid''))"

section \<open>The lane\<close>

record ticket =
  t_id :: nat
  queued_at :: real
  redemption :: bool

record lane_lease =
  lease_no :: nat
  lease_kind :: request_kind
  queue_ms :: real
  admitted_at :: real
  lease_task :: nat
  preempted :: bool

record lane =
  active :: "lane_lease option"
  waiters :: "request_kind \<Rightarrow> ticket list"
  reservation :: "(binding \<times> real) option"
  next_id :: nat

definition empty_lane :: lane where
  "empty_lane = \<lparr>active = None, waiters = (\<lambda>_. []), reservation = None, next_id = 0\<rparr>"

definition clear_foreground :: "lane \<Rightarrow> lane" where
  "clear_foreground s = s\<lparr>reservation := None\<rparr>"

definition prune_expired_foreground :: "real \<Rightarrow> lane \<Rightarrow> lane" where
  "prune_expired_foreground now s =
     (case reservation s of None \<Rightarrow> s | Some (b, x) \<Rightarrow> if x > now then s else clear_foreground s)"

text \<open>The timer of a reservation: before its time it is only armed again.\<close>

definition expire_foreground :: "string \<Rightarrow> real \<Rightarrow> lane \<Rightarrow> lane" where
  "expire_foreground rid now s =
     (case reservation s of
        None \<Rightarrow> s
      | Some (b, x) \<Rightarrow> if reservation_id b \<noteq> rid \<or> x - now > 0 then s else clear_foreground s)"

definition preempt_active :: "lane \<Rightarrow> lane" where
  "preempt_active s =
     (case active s of
        None \<Rightarrow> s
      | Some l \<Rightarrow> if lease_kind l \<in> {Background, Warmup} then s\<lparr>active := Some (l\<lparr>preempted := True\<rparr>)\<rparr> else s)"

definition reserve_foreground ::
  "string \<Rightarrow> pyval \<Rightarrow> pyval \<Rightarrow> pyval \<Rightarrow> real \<Rightarrow> lane \<Rightarrow> (lane_error + binding) \<times> lane" where
  "reserve_foreground token gen epoch ttl_ms now s =
     (case bind_r (capture_generation_from_wire gen) (\<lambda>g. bind_r (backend_epoch_from_wire epoch) (\<lambda>b.
             bind_r (reservation_ttl_ms ttl_ms) (\<lambda>t. Inr (g, b, t)))) of
        Inl x \<Rightarrow> (Inl x, s)
      | Inr (g, b, t) \<Rightarrow>
          let s1 = prune_expired_foreground now s
          in if reservation s1 \<noteq> None then (Inl (Rejected ''conflict''), s1)
             else
               let r = \<lparr>reservation_id = token, capture_generation = g, backend_epoch = b\<rparr>
               in (Inr r, preempt_active (s1\<lparr>reservation := Some (r, now + real_of_int t / 1000)\<rparr>)))"

text \<open>The common part of \<open>cancel_foreground\<close> and \<open>_claim_foreground_locked\<close>.\<close>

definition claim_foreground :: "binding \<Rightarrow> real \<Rightarrow> lane \<Rightarrow> (lane_error + unit) \<times> lane" where
  "claim_foreground b now s =
     (case reservation s of
        None \<Rightarrow> (Inl (Rejected ''unavailable''), s)
      | Some (stored, x) \<Rightarrow>
          if x \<le> now
          then (Inl (Rejected (if stored = b then ''expired'' else ''unavailable'')), clear_foreground s)
          else if stored \<noteq> b then (Inl (Rejected ''unavailable''), s)
          else (Inr (), clear_foreground s))"

definition cancel_foreground :: "binding \<Rightarrow> real \<Rightarrow> lane \<Rightarrow> (lane_error + unit) \<times> lane" where
  "cancel_foreground b now s =
     (case rebind b of Inl x \<Rightarrow> (Inl x, s) | Inr b' \<Rightarrow> claim_foreground b' now s)"

section \<open>Which ticket is next\<close>

fun first_min :: "('a \<Rightarrow> 'b::linorder) \<Rightarrow> 'a list \<Rightarrow> 'a option" where
  "first_min f [] = None"
| "first_min f (x # xs) =
     (case first_min f xs of None \<Rightarrow> Some x | Some m \<Rightarrow> if f m < f x then Some m else Some x)"

definition heads :: "lane \<Rightarrow> (request_kind \<times> ticket) list" where
  "heads s = map (\<lambda>k. (k, hd (waiters s k))) (filter (\<lambda>k. waiters s k \<noteq> []) all_kinds)"

definition aging_sec :: real where "aging_sec = 2"

definition aged :: "real \<Rightarrow> ticket \<Rightarrow> bool" where
  "aged now t \<longleftrightarrow> now - queued_at t \<ge> aging_sec"

definition selected :: "real \<Rightarrow> lane \<Rightarrow> (request_kind \<times> ticket) option" where
  "selected now s =
     (let hs = heads s; reserved = filter (\<lambda>p. redemption (snd p)) hs
      in if reserved \<noteq> [] then first_min (\<lambda>p. queued_at (snd p)) reserved
         else
           let hs' = (if reservation s \<noteq> None then filter (\<lambda>p. fst p = Realtime) hs else hs);
               old = filter (\<lambda>p. aged now (snd p)) hs'
           in if old \<noteq> [] then first_min (\<lambda>p. queued_at (snd p)) old else first_min fst hs')"

definition admissible :: "real \<Rightarrow> request_kind \<Rightarrow> nat \<Rightarrow> lane \<Rightarrow> bool" where
  "admissible now k i s =
     (if active s \<noteq> None \<or> waiters s k = [] then False
      else if t_id (hd (waiters s k)) \<noteq> i then False
      else (case selected now s of None \<Rightarrow> False | Some p \<Rightarrow> fst p = k))"

definition can_admit :: "real \<Rightarrow> real \<Rightarrow> request_kind \<Rightarrow> nat \<Rightarrow> lane \<Rightarrow> bool \<times> lane" where
  "can_admit now1 now2 k i s =
     (let s1 = prune_expired_foreground now1 s in (admissible now2 k i s1, s1))"

section \<open>Admission\<close>

datatype admit_start = Reentrant lane_lease | Queued nat

definition queue_ticket :: "request_kind \<Rightarrow> bool \<Rightarrow> real \<Rightarrow> lane \<Rightarrow> (lane_error + admit_start) \<times> lane" where
  "queue_ticket k redeem queued s =
     (let t = \<lparr>t_id = next_id s, queued_at = queued, redemption = redeem\<rparr>
      in (Inr (Queued (next_id s)),
          s\<lparr>waiters := (waiters s)(k := (if redeem then t # waiters s k else waiters s k @ [t])),
            next_id := next_id s + 1\<rparr>))"

definition admit_begin ::
  "request_kind \<Rightarrow> nat \<Rightarrow> binding option \<Rightarrow> real \<Rightarrow> real \<Rightarrow> lane \<Rightarrow> (lane_error + admit_start) \<times> lane" where
  "admit_begin k task res queued now s =
     (if (case active s of None \<Rightarrow> False | Some l \<Rightarrow> lease_task l = task)
      then (if res \<noteq> None then Inl (Rejected ''unavailable'') else Inr (Reentrant (the (active s))), s)
      else (case res of
          None \<Rightarrow> queue_ticket k False queued s
        | Some b \<Rightarrow>
            if k \<noteq> Realtime then (Inl (Rejected ''unavailable''), s)
            else (case rebind b of
                Inl x \<Rightarrow> (Inl x, s)
              | Inr b' \<Rightarrow>
                  (case claim_foreground b' now s of
                     (Inl x, s1) \<Rightarrow> (Inl x, s1)
                   | (Inr _, s1) \<Rightarrow> queue_ticket k True queued s1))))"

definition admission_timeout :: "request_kind \<Rightarrow> real" where
  "admission_timeout k = (case k of Realtime \<Rightarrow> 15 | Interactive \<Rightarrow> 60 | Background \<Rightarrow> 30 | Warmup \<Rightarrow> 120)"

definition try_admit :: "real \<Rightarrow> real \<Rightarrow> request_kind \<Rightarrow> nat \<Rightarrow> nat \<Rightarrow> lane \<Rightarrow> bool \<times> lane" where
  "try_admit now1 now2 k i task s =
     (let (ok, s1) = can_admit now1 now2 k i s
      in if \<not> ok then (False, s1)
         else (True, s1\<lparr>waiters := (waiters s1)(k := tl (waiters s1 k)),
                        active := Some \<lparr>lease_no = next_id s1, lease_kind = k, queue_ms = 0,
                           admitted_at = queued_at (hd (waiters s1 k)), lease_task = task, preempted = False\<rparr>,
                        next_id := next_id s1 + 1\<rparr>))"

text \<open>\<open>deque.remove\<close> takes out the first ticket that is equal by value, whoever owns it.\<close>

fun remove_equal :: "real \<Rightarrow> bool \<Rightarrow> ticket list \<Rightarrow> ticket list" where
  "remove_equal q r [] = []"
| "remove_equal q r (t # ts) =
     (if queued_at t = q \<and> redemption t = r then ts else t # remove_equal q r ts)"

definition give_up :: "request_kind \<Rightarrow> ticket \<Rightarrow> lane \<Rightarrow> lane" where
  "give_up k t s =
     s\<lparr>waiters := (waiters s)(k := remove_equal (queued_at t) (redemption t) (waiters s k))\<rparr>"

definition lock_acquired :: "nat \<Rightarrow> real \<Rightarrow> lane \<Rightarrow> lane" where
  "lock_acquired n now s =
     (case active s of
        None \<Rightarrow> s
      | Some l \<Rightarrow> if lease_no l \<noteq> n then s
          else s\<lparr>active := Some (l\<lparr>queue_ms := max 0 ((now - admitted_at l) * 1000), admitted_at := now\<rparr>)\<rparr>)"

definition release_lane :: "nat \<Rightarrow> lane \<Rightarrow> lane" where
  "release_lane n s =
     (case active s of None \<Rightarrow> s | Some l \<Rightarrow> if lease_no l = n then s\<lparr>active := None\<rparr> else s)"

section \<open>Selection\<close>

lemma first_min_None [simp]: "first_min f xs = None \<longleftrightarrow> xs = []"
  by (cases xs) (auto split: option.splits)

lemma first_min_Some:
  "first_min f xs = Some m \<Longrightarrow> m \<in> set xs \<and> (\<forall>x \<in> set xs. f m \<le> f x)"
proof (induction xs arbitrary: m)
  case (Cons x xs)
  show ?case
  proof (cases "first_min f xs")
    case None
    then show ?thesis using Cons.prems by simp
  next
    case (Some m')
    from Cons.IH [OF this] have "m' \<in> set xs" "\<forall>y \<in> set xs. f m' \<le> f y" by auto
    then show ?thesis using Cons.prems Some by (auto split: if_splits)
  qed
qed simp

lemma heads_iff: "(k, t) \<in> set (heads s) \<longleftrightarrow> waiters s k \<noteq> [] \<and> t = hd (waiters s k)"
  by (auto simp: heads_def)

lemma selected_head: "selected now s = Some p \<Longrightarrow> p \<in> set (heads s)"
  by (auto simp: selected_def Let_def dest!: first_min_Some split: if_splits)

lemma admissible_selected:
  "admissible now k i s \<longleftrightarrow> active s = None \<and> (\<exists>t. selected now s = Some (k, t) \<and> t_id t = i)"
  using selected_head [of now s] heads_iff
  by (auto simp: admissible_def split: option.splits)

lemma selected_reserved:
  "(k, t) \<in> set (heads s) \<Longrightarrow> redemption t \<Longrightarrow> \<exists>k' t'. selected now s = Some (k', t') \<and> redemption t' \<and> queued_at t' \<le> queued_at t"
proof -
  assume h: "(k, t) \<in> set (heads s)" "redemption t"
  let ?r = "filter (\<lambda>p. redemption (snd p)) (heads s)"
  have mem: "(k, t) \<in> set ?r" using h by simp
  then have ne: "?r \<noteq> []" by (metis empty_iff list.set(1))
  then obtain p where p: "first_min (\<lambda>p. queued_at (snd p)) ?r = Some p"
    using first_min_None [of "\<lambda>p. queued_at (snd p)" ?r] by blast
  then have "redemption (snd p)" "queued_at (snd p) \<le> queued_at t"
    using first_min_Some [OF p] mem by auto
  moreover have "selected now s = Some p" using p ne by (simp add: selected_def Let_def)
  ultimately show ?thesis by (cases p) auto
qed


lemma selected_exists:
  assumes "p \<in> set (heads s)"
    and "reservation s = None \<or> fst p = Realtime \<or> redemption (snd p)"
  shows "\<exists>q. selected now s = Some q"
proof (cases "filter (\<lambda>p. redemption (snd p)) (heads s) = []")
  case False
  then show ?thesis using first_min_None [of "\<lambda>p. queued_at (snd p)" "filter (\<lambda>p. redemption (snd p)) (heads s)"]
    by (auto simp: selected_def Let_def simp del: first_min_None)
next
  case True
  then have np: "\<not> redemption (snd p)" using assms(1) by (auto simp: filter_empty_conv)
  define hs where "hs = (if reservation s \<noteq> None then filter (\<lambda>p. fst p = Realtime) (heads s) else heads s)"
  have "p \<in> set hs" using assms np by (auto simp: hs_def)
  then have "hs \<noteq> []" by auto
  then obtain a where a: "first_min fst hs = Some a" by (cases "first_min fst hs") auto
  have sel: "selected now s = (let old = filter (\<lambda>p. aged now (snd p)) hs in
      if old \<noteq> [] then first_min (\<lambda>p. queued_at (snd p)) old else first_min fst hs)"
    using True by (simp only: selected_def hs_def Let_def) simp
  show ?thesis
  proof (cases "filter (\<lambda>p. aged now (snd p)) hs = []")
    case True
    then show ?thesis using sel a by simp
  next
    case False
    then obtain c where "first_min (\<lambda>p. queued_at (snd p)) (filter (\<lambda>p. aged now (snd p)) hs) = Some c"
      by (cases "first_min (\<lambda>p. queued_at (snd p)) (filter (\<lambda>p. aged now (snd p)) hs)") auto
    then show ?thesis using sel False by simp
  qed
qed

section \<open>Runs of the lane\<close>

text \<open>
  One step is one critical section of any caller, in any order and with any clock readings. The
  identity of a new reservation is a \<open>secrets.token_hex(16)\<close>: 32 lower-case hexadecimal digits.
\<close>

inductive lane_step :: "lane \<Rightarrow> lane \<Rightarrow> bool" where
  Reserve: "reservation_id_from_wire (PStr token) = Inr token \<Longrightarrow>
    lane_step s (snd (reserve_foreground token gen epoch ttl now s))"
| Cancel: "lane_step s (snd (cancel_foreground b now s))"
| Expire: "lane_step s (expire_foreground rid now s)"
| Arrive: "lane_step s (snd (admit_begin k task res queued now s))"
| Evaluate: "lane_step s (snd (try_admit now1 now2 k i task s))"
| Withdraw: "lane_step s (give_up k t s)"
| Locked: "lane_step s (lock_acquired n now s)"
| Release: "lane_step s (release_lane n s)"

inductive lane_reachable :: "lane \<Rightarrow> bool" where
  Start: "lane_reachable empty_lane"
| Step: "lane_reachable s \<Longrightarrow> lane_step s s' \<Longrightarrow> lane_reachable s'"

inductive_cases lane_stepE: "lane_step s s'"

text \<open>The same critical sections as values, so that a run can be told which of them it may take.\<close>

datatype lane_op =
  Do_Reserve string pyval pyval pyval real
| Do_Cancel binding real
| Do_Expire string real
| Do_Arrive request_kind nat "binding option" real real
| Do_Evaluate real real request_kind nat nat
| Do_Withdraw request_kind ticket
| Do_Locked nat real
| Do_Release nat

fun lane_apply :: "lane \<Rightarrow> lane_op \<Rightarrow> lane" where
  "lane_apply s (Do_Reserve token gen epoch ttl now) = snd (reserve_foreground token gen epoch ttl now s)"
| "lane_apply s (Do_Cancel b now) = snd (cancel_foreground b now s)"
| "lane_apply s (Do_Expire rid now) = expire_foreground rid now s"
| "lane_apply s (Do_Arrive k task res queued now) = snd (admit_begin k task res queued now s)"
| "lane_apply s (Do_Evaluate now1 now2 k i task) = snd (try_admit now1 now2 k i task s)"
| "lane_apply s (Do_Withdraw k t) = give_up k t s"
| "lane_apply s (Do_Locked n now) = lock_acquired n now s"
| "lane_apply s (Do_Release n) = release_lane n s"

lemma lane_step_apply: "lane_step s s' \<Longrightarrow> \<exists>x. s' = lane_apply s x"
  by (erule lane_step.cases) (metis lane_apply.simps)+

lemma active_kept [simp]:
  "active (prune_expired_foreground now s) = active s" "active (clear_foreground s) = active s"
  "active (snd (claim_foreground b now s)) = active s" "active (snd (cancel_foreground b now s)) = active s"
  "active (expire_foreground rid now s) = active s" "active (give_up k t s) = active s"
  "active (snd (queue_ticket k r q s)) = active s"
  by (auto simp: prune_expired_foreground_def clear_foreground_def claim_foreground_def cancel_foreground_def
      expire_foreground_def give_up_def queue_ticket_def Let_def split: option.split sum.split)

lemma active_arrive [simp]: "active (snd (admit_begin k task res queued now s)) = active s"
proof -
  have "active (snd (case claim_foreground b now s of
      (Inl x, s1) \<Rightarrow> (Inl x, s1) | (Inr _, s1) \<Rightarrow> queue_ticket k True queued s1)) = active s" for b
    using active_kept(3) [of b now s]
    by (cases "claim_foreground b now s") (auto simp del: active_kept(3) split: sum.split)
  then show ?thesis by (simp add: admit_begin_def split: option.split sum.split)
qed

text \<open>Who holds the lane: the number, the kind and the task of a lease, which never change.\<close>

definition holds :: "nat \<Rightarrow> request_kind \<Rightarrow> nat \<Rightarrow> lane \<Rightarrow> bool" where
  "holds n k task s \<longleftrightarrow>
     (\<exists>l. active s = Some l \<and> lease_no l = n \<and> lease_kind l = k \<and> lease_task l = task)"

lemma busy_not_admitted: "active s \<noteq> None \<Longrightarrow> \<not> fst (try_admit now1 now2 k i task s)"
  by (simp add: try_admit_def can_admit_def admissible_def Let_def)

lemma busy_try_same: "active s \<noteq> None \<Longrightarrow> active (snd (try_admit now1 now2 k i task s)) = active s"
  by (simp add: try_admit_def can_admit_def admissible_def Let_def)

lemma holds_step: "holds n k task s \<Longrightarrow> x \<noteq> Do_Release n \<Longrightarrow> holds n k task (lane_apply s x)"
  by (cases x)
    (auto simp: holds_def reserve_foreground_def preempt_active_def lock_acquired_def release_lane_def
      busy_try_same Let_def split: sum.split prod.split)

lemma holds_run: "holds n k task s \<Longrightarrow> Do_Release n \<notin> set xs \<Longrightarrow> holds n k task (foldl lane_apply s xs)"
  by (induction xs rule: rev_induct) (auto intro: holds_step)

definition tickets_ok :: "nat \<Rightarrow> (request_kind \<Rightarrow> ticket list) \<Rightarrow> bool" where
  "tickets_ok n w \<longleftrightarrow>
     (\<forall>k. distinct (map t_id (w k)) \<and> (\<forall>t \<in> set (w k). t_id t < n \<and> (redemption t \<longrightarrow> k = Realtime))) \<and>
     (\<forall>k k' t t'. t \<in> set (w k) \<and> t' \<in> set (w k') \<and> t_id t = t_id t' \<longrightarrow> k = k')"

definition reservation_ok :: "(binding \<times> real) option \<Rightarrow> bool" where
  "reservation_ok r = (case r of None \<Rightarrow> True | Some (b, x) \<Rightarrow> rebind b = Inr b)"

definition lane_ok :: "lane \<Rightarrow> bool" where
  "lane_ok s \<longleftrightarrow> tickets_ok (next_id s) (waiters s) \<and> reservation_ok (reservation s) \<and>
     (case active s of None \<Rightarrow> True | Some l \<Rightarrow> lease_no l < next_id s)"

lemma tickets_ok_grow: "tickets_ok n w \<Longrightarrow> n \<le> m \<Longrightarrow> tickets_ok m w"
  by (auto simp: tickets_ok_def intro: less_le_trans)

lemma tickets_okD:
  assumes "tickets_ok n w"
  shows "distinct (map t_id (w k))" and "t \<in> set (w k) \<Longrightarrow> t_id t < n"
    and "t \<in> set (w k) \<Longrightarrow> redemption t \<Longrightarrow> k = Realtime"
    and "t \<in> set (w k) \<Longrightarrow> t' \<in> set (w k') \<Longrightarrow> t_id t = t_id t' \<Longrightarrow> k = k'"
  using assms unfolding tickets_ok_def by blast+

lemma tickets_ok_queue:
  assumes "tickets_ok n w" "t_id t = n" "redemption t \<longrightarrow> k = Realtime"
    and "set l = insert t (set (w k))" "length l = Suc (length (w k))"
  shows "tickets_ok (n + 1) (w(k := l))"
proof -
  have new: "t_id u < t_id t" if "u \<in> set (w j)" for u j
    using tickets_okD(2) [OF assms(1) that] assms(2) by simp
  have "t_id t \<notin> t_id ` set (w k)"
  proof
    assume "t_id t \<in> t_id ` set (w k)"
    then obtain x where "x \<in> set (w k)" "t_id t = t_id x" by auto
    with new [of x k] show False by simp
  qed
  then have "card (set (map t_id l)) = Suc (card (t_id ` set (w k)))"
    by (simp add: assms(4))
  also have "\<dots> = Suc (length (w k))"
    using tickets_okD(1) [OF assms(1), of k] distinct_card [of "map t_id (w k)"] by simp
  finally have d: "distinct (map t_id l)" using assms(5) card_distinct [of "map t_id l"] by simp
  have u: "i = j" if "u \<in> set ((w(k := l)) i)" "v \<in> set ((w(k := l)) j)" "t_id u = t_id v" for i j u v
    using that new [of u i] new [of v j] tickets_okD(4) [OF assms(1), of u i v j] assms(4)
    by (cases "i = k"; cases "j = k") (auto dest: new)
  show ?thesis unfolding tickets_ok_def
  proof (intro conjI allI ballI impI)
    fix j u assume m: "u \<in> set ((w(k := l)) j)"
    then have "u = t \<and> j = k \<or> u \<in> set (w j)" using assms(4) by (auto split: if_splits)
    then show "t_id u < n + 1" using new [of u j] assms(2) by auto
    show "j = Realtime" if "redemption u"
      using \<open>u = t \<and> j = k \<or> u \<in> set (w j)\<close> that assms(3) tickets_okD(3) [OF assms(1)] by blast
  next
    show "distinct (map t_id ((w(k := l)) j))" for j using d tickets_okD(1) [OF assms(1)] by simp
  next
    fix i j u v assume "u \<in> set ((w(k := l)) i) \<and> v \<in> set ((w(k := l)) j) \<and> t_id u = t_id v"
    then show "i = j" using u by blast
  qed
qed

lemma subseq_distinct: "subseq xs ys \<Longrightarrow> distinct ys \<Longrightarrow> distinct xs"
  by (induction rule: list_emb.induct) (auto dest: list_emb_set)

lemma tickets_ok_shrink:
  assumes "tickets_ok n w" "subseq l (w k)"
  shows "tickets_ok n (w(k := l))"
proof -
  have sub: "u \<in> set (w j)" if "u \<in> set ((w(k := l)) j)" for u j
    using that assms(2) by (auto dest: list_emb_set split: if_splits)
  have "distinct (map t_id l)"
    using subseq_distinct [OF subseq_map [OF assms(2), of t_id]] tickets_okD(1) [OF assms(1)] by simp
  then have "distinct (map t_id ((w(k := l)) j))" for j using tickets_okD(1) [OF assms(1)] by simp
  then show ?thesis unfolding tickets_ok_def
    using sub tickets_okD(2-4) [OF assms(1)] by blast
qed

lemma remove_equal_subseq: "subseq (remove_equal q r ts) ts"
  by (induction ts) auto

lemma wire_again:
  "backend_epoch_from_wire v = Inr e \<Longrightarrow> backend_epoch_from_wire (PStr e) = Inr e"
  "capture_generation_from_wire v = Inr g \<Longrightarrow> capture_generation_from_wire (PInt g) = Inr g"
  "reservation_id_from_wire v = Inr r \<Longrightarrow> reservation_id_from_wire (PStr r) = Inr r"
  by (cases v; auto simp: backend_epoch_from_wire_def capture_generation_from_wire_def
      reservation_id_from_wire_def split: if_splits)+

lemma make_binding_rebind: "make_binding r g e = Inr b \<Longrightarrow> rebind b = Inr b"
  by (auto simp: make_binding_def rebind_def bind_r_Inr wire_again)

lemmas lane_defs = clear_foreground_def prune_expired_foreground_def

lemma lane_ok_prune: "lane_ok s \<Longrightarrow> lane_ok (prune_expired_foreground now s)"
  by (auto simp: lane_ok_def lane_defs reservation_ok_def split: option.splits)

lemma lane_ok_clear: "lane_ok s \<Longrightarrow> lane_ok (clear_foreground s)"
  by (simp add: lane_ok_def clear_foreground_def reservation_ok_def split: option.splits)

lemma lane_ok_claim: "lane_ok s \<Longrightarrow> lane_ok (snd (claim_foreground b now s))"
  by (auto simp: claim_foreground_def lane_ok_clear split: option.split)

lemma lane_ok_queue:
  "lane_ok s \<Longrightarrow> redeem \<longrightarrow> k = Realtime \<Longrightarrow> lane_ok (snd (queue_ticket k redeem q s))"
  unfolding lane_ok_def queue_ticket_def Let_def
  by (auto intro!: tickets_ok_queue [simplified] split: option.splits)

lemma lane_ok_arrive:
  assumes "lane_ok s"
  shows "lane_ok (snd (admit_begin k task res queued now s))"
proof (cases res)
  case None
  then show ?thesis using assms lane_ok_queue [OF assms, of False] by (simp add: admit_begin_def)
next
  case (Some b)
  have "lane_ok (snd (case claim_foreground b' now s of
                     (Inl x, s1) \<Rightarrow> (Inl x, s1)
                   | (Inr _, s1) \<Rightarrow> queue_ticket Realtime True queued s1))" for b'
  proof (cases "claim_foreground b' now s")
    case (Pair r s1)
    then have "lane_ok s1" using lane_ok_claim [OF assms, of b' now] by simp
    then show ?thesis using Pair lane_ok_queue by (simp split: sum.split)
  qed
  then show ?thesis using assms Some by (cases "k = Realtime") (simp_all add: admit_begin_def split: sum.split)
qed

lemma lane_ok_reserve:
  assumes "lane_ok s" and "reservation_id_from_wire (PStr token) = Inr token"
  shows "lane_ok (snd (reserve_foreground token gen epoch ttl now s))"
proof -
  have p: "lane_ok (preempt_active (s1\<lparr>reservation := Some (b, x)\<rparr>))" if "lane_ok s1" "rebind b = Inr b" for s1 b x
    using that by (auto simp: lane_ok_def preempt_active_def reservation_ok_def split: option.splits)
  have r: "rebind \<lparr>reservation_id = token, capture_generation = g, backend_epoch = e\<rparr>
      = Inr \<lparr>reservation_id = token, capture_generation = g, backend_epoch = e\<rparr>"
    if "capture_generation_from_wire gen = Inr g" "backend_epoch_from_wire epoch = Inr e" for g e
    using that assms(2) wire_again by (simp add: rebind_def make_binding_def)
  show ?thesis unfolding reserve_foreground_def
    using assms(1) p [OF lane_ok_prune [OF assms(1)] r]
    by (auto simp: bind_r_Inr Let_def lane_ok_prune split: sum.split)
qed

lemma lane_ok_try:
  assumes "lane_ok s"
  shows "lane_ok (snd (try_admit now1 now2 k i task s))"
proof -
  have p: "lane_ok (prune_expired_foreground now1 s)" (is "lane_ok ?s") by (rule lane_ok_prune [OF assms])
  then have "tickets_ok (next_id ?s + 1) ((waiters ?s)(k := tl (waiters ?s k)))"
    unfolding lane_ok_def by (intro tickets_ok_grow [OF tickets_ok_shrink]) (auto simp: subseq_order.less_imp_le)
  with p show ?thesis
    by (cases "admissible now2 k i ?s") (simp_all add: try_admit_def can_admit_def Let_def lane_ok_def)
qed

lemma lane_ok_step:
  assumes "lane_step s s'" "lane_ok s"
  shows "lane_ok s'"
  using assms(1)
proof (cases rule: lane_step.cases)
  case (Reserve token gen epoch ttl now)
  then show ?thesis using lane_ok_reserve [OF assms(2)] by simp
next
  case (Cancel b now)
  then show ?thesis using assms(2) lane_ok_claim by (auto simp: cancel_foreground_def split: sum.split)
next
  case (Expire rid now)
  then show ?thesis using assms(2) lane_ok_clear by (auto simp: expire_foreground_def split: option.split)
next
  case (Arrive k task res queued now)
  then show ?thesis using lane_ok_arrive [OF assms(2)] by simp
next
  case (Evaluate now1 now2 k i task)
  then show ?thesis using lane_ok_try [OF assms(2)] by simp
next
  case (Withdraw k t)
  then show ?thesis using assms(2) tickets_ok_shrink [OF _ remove_equal_subseq]
    by (simp add: give_up_def lane_ok_def split: option.splits)
next
  case (Locked n now)
  then show ?thesis using assms(2) by (auto simp: lock_acquired_def lane_ok_def split: option.splits)
next
  case (Release n)
  then show ?thesis using assms(2) by (auto simp: release_lane_def lane_ok_def split: option.splits)
qed

lemma lane_reachable_ok: "lane_reachable s \<Longrightarrow> lane_ok s"
proof (induction rule: lane_reachable.induct)
  case Start
  show ?case by (simp add: lane_ok_def tickets_ok_def reservation_ok_def empty_lane_def)
next
  case (Step s s')
  then show ?case using lane_ok_step by blast
qed

section \<open>Properties\<close>

definition lane_with :: "request_kind \<Rightarrow> ticket list \<Rightarrow> lane" where
  "lane_with k ts = empty_lane\<lparr>waiters := (\<lambda>j. if j = k then ts else []), next_id := 9\<rparr>"

definition demo_ticket :: "nat \<Rightarrow> real \<Rightarrow> ticket" where
  "demo_ticket i q = \<lparr>t_id = i, queued_at = q, redemption = False\<rparr>"


text \<open>
  C25. One request at a time: an admission happens only on a free lane, takes the ticket at the
  head of its queue and holds the lane under a new number. In every run of critical sections
  that follows, of any callers and in any order, and as long as that number itself is not
  released, the lane stays with the number, kind and task of that lease and admits nobody else;
  then its release frees the lane. At any moment at most one ticket is admissible.
\<close>

theorem admission_is_exclusive:
  assumes "try_admit now1 now2 k i task s = (True, s')"
  shows "active s = None \<and> (\<exists>t ts. waiters s k = t # ts \<and> t_id t = i \<and> waiters s' k = ts) \<and>
    (\<exists>l. active s' = Some l \<and> lease_no l = next_id s \<and> lease_kind l = k \<and> lease_task l = task \<and>
       (\<forall>xs. Do_Release (lease_no l) \<notin> set xs \<longrightarrow>
          holds (lease_no l) k task (foldl lane_apply s' xs) \<and>
          (\<forall>now3 now4 k' i' task'. \<not> fst (try_admit now3 now4 k' i' task' (foldl lane_apply s' xs))) \<and>
          active (release_lane (lease_no l) (foldl lane_apply s' xs)) = None) \<and>
       (\<forall>s'' now3 now4 k' i' task'. active s'' = active s' \<longrightarrow> \<not> fst (try_admit now3 now4 k' i' task' s''))) \<and>
    (\<forall>k' i'. admissible now2 k' i' (prune_expired_foreground now1 s) \<longrightarrow> k' = k \<and> i' = i)"
proof -
  let ?s1 = "prune_expired_foreground now1 s"
  have same: "active ?s1 = active s" "waiters ?s1 = waiters s" "next_id ?s1 = next_id s"
    by (simp_all add: prune_expired_foreground_def clear_foreground_def split: option.split prod.split)
  have adm: "admissible now2 k i ?s1"
    and s': "s' = ?s1\<lparr>waiters := (waiters ?s1)(k := tl (waiters ?s1 k)),
       active := Some \<lparr>lease_no = next_id ?s1, lease_kind = k, queue_ms = 0,
         admitted_at = queued_at (hd (waiters ?s1 k)), lease_task = task, preempted = False\<rparr>,
       next_id := next_id ?s1 + 1\<rparr>"
    using assms by (auto simp: try_admit_def can_admit_def Let_def split: if_splits)
  then have free: "active s = None" and head: "waiters s k \<noteq> []" "t_id (hd (waiters s k)) = i"
    using same by (auto simp: admissible_def split: if_splits)
  have l: "active s' \<noteq> None" "lease_no (the (active s')) = next_id s" "lease_kind (the (active s')) = k"
    "lease_task (the (active s')) = task" "waiters s' k = tl (waiters s k)"
    using s' same by simp_all
  then have "holds (next_id s) k task s'" by (auto simp: holds_def)
  then have held: "holds (next_id s) k task (foldl lane_apply s' xs)" if "Do_Release (next_id s) \<notin> set xs" for xs
    using that by (rule holds_run)
  have run: "holds (next_id s) k task (foldl lane_apply s' xs) \<and>
      (\<forall>now3 now4 k' i' task'. \<not> fst (try_admit now3 now4 k' i' task' (foldl lane_apply s' xs))) \<and>
      active (release_lane (next_id s) (foldl lane_apply s' xs)) = None" if "Do_Release (next_id s) \<notin> set xs" for xs
    using held [OF that] busy_not_admitted by (auto simp: holds_def release_lane_def)
  have "\<not> fst (try_admit now3 now4 k' i' task' s'')" if "active s'' = active s'" for s'' now3 now4 k' i' task'
    using busy_not_admitted that l(1) by simp
  moreover have "k' = k \<and> i' = i" if "admissible now2 k' i' ?s1" for k' i'
    using that adm unfolding admissible_selected by auto
  ultimately show ?thesis using free head l run by (cases "waiters s k") auto
qed

lemma demo_admit: "fst (try_admit 0 0 Interactive 1 7 (lane_with Interactive [demo_ticket 1 0]))"
  by (simp add: try_admit_def can_admit_def admissible_def prune_expired_foreground_def lane_with_def
      empty_lane_def selected_def heads_def all_kinds_def demo_ticket_def aged_def aging_sec_def Let_def)

theorem admission_is_exclusive_witness:
  "\<exists>s'. try_admit 0 0 Interactive 1 7 (lane_with Interactive [demo_ticket 1 0]) = (True, s') \<and> active s' \<noteq> None \<and>
     holds 9 Interactive 7 (foldl lane_apply s' [Do_Arrive Realtime 3 None 1 1, Do_Locked 9 2, Do_Evaluate 2 2 Realtime 10 3])"
proof -
  obtain b s' where p: "try_admit 0 0 Interactive 1 7 (lane_with Interactive [demo_ticket 1 0]) = (b, s')" by fastforce
  then have "try_admit 0 0 Interactive 1 7 (lane_with Interactive [demo_ticket 1 0]) = (True, s')"
    using demo_admit by simp
  note p = this
  have "next_id (lane_with Interactive [demo_ticket 1 0]) = 9" by (simp add: lane_with_def)
  with admission_is_exclusive [OF p] obtain l where l: "active s' = Some l" "lease_no l = 9"
    "\<forall>xs. Do_Release (lease_no l) \<notin> set xs \<longrightarrow> holds (lease_no l) Interactive 7 (foldl lane_apply s' xs)" by metis
  have "holds 9 Interactive 7
    (foldl lane_apply s' [Do_Arrive Realtime 3 None 1 1, Do_Locked 9 2, Do_Evaluate 2 2 Realtime 10 3])"
    by (rule l(3) [unfolded l(2), rule_format]) simp
  with p l(1) show ?thesis by blast
qed



text \<open>
  The lane does not stall: when a reachable lane is free and some ticket waits (a real-time
  or redeeming one, if a reservation is alive), some waiting ticket is admissible; and while a
  reservation is alive nothing but real-time requests is admitted.
\<close>

theorem free_lane_admits_someone:
  assumes "active s = None" and "waiters s k \<noteq> []"
    and "reservation s = None \<or> k = Realtime \<or> redemption (hd (waiters s k))"
    and "lane_reachable s"
  shows "(\<exists>k' i. admissible now k' i s) \<and>
    (\<forall>k' i. admissible now k' i s \<and> reservation s \<noteq> None \<longrightarrow> k' = Realtime)"
proof
  have "(k, hd (waiters s k)) \<in> set (heads s)" using assms(2) by (simp add: heads_iff)
  then have "\<exists>q. selected now s = Some q" by (rule selected_exists) (use assms(3) in auto)
  then obtain q where "selected now s = Some q" by blast
  with assms(1) show "\<exists>k' i. admissible now k' i s" unfolding admissible_selected by (cases q) auto
  show "\<forall>k' i. admissible now k' i s \<and> reservation s \<noteq> None \<longrightarrow> k' = Realtime"
  proof (intro allI impI)
    fix k' i assume a: "admissible now k' i s \<and> reservation s \<noteq> None"
    then obtain t where sel: "selected now s = Some (k', t)" unfolding admissible_selected by blast
    show "k' = Realtime"
    proof (cases "filter (\<lambda>p. redemption (snd p)) (heads s) = []")
      case True
      with sel a show ?thesis by (auto simp: selected_def Let_def dest!: first_min_Some split: if_splits)
    next
      case False
      with sel have "redemption t" "(k', t) \<in> set (heads s)"
        by (auto simp: selected_def Let_def dest!: first_min_Some)
      then have "hd (waiters s k') \<in> set (waiters s k')" "redemption (hd (waiters s k'))" by (auto simp: heads_iff)
      then show ?thesis using tickets_okD(3) lane_reachable_ok [OF assms(4)] unfolding lane_ok_def by blast
    qed
  qed
qed

theorem free_lane_admits_someone_witness:
  "\<exists>k' i. admissible 0 k' i (snd (admit_begin Warmup 7 None 0 0 empty_lane))"
proof -
  let ?s = "snd (admit_begin Warmup 7 None 0 0 empty_lane)"
  have s: "active ?s = None" "waiters ?s Warmup \<noteq> []" "reservation ?s = None"
    by (simp_all add: admit_begin_def queue_ticket_def empty_lane_def Let_def)
  have "lane_reachable ?s" by (rule lane_reachable.Step [OF lane_reachable.Start lane_step.Arrive])
  from free_lane_admits_someone [OF s(1,2) disjI1 [OF s(3)] this] show ?thesis by (rule conjunct1)
qed

text \<open>
  C27. Every reachable lane is well formed: the tickets of all queues have different identities,
  the redeeming ones wait as real-time requests, and a stored reservation is one its holder can
  name on the wire, so that until it expires its holder can cancel it.
\<close>

theorem lane_invariant:
  assumes "lane_reachable s"
  shows "(\<forall>k. distinct (map t_id (waiters s k)) \<and>
      (\<forall>t \<in> set (waiters s k). t_id t < next_id s \<and> (redemption t \<longrightarrow> k = Realtime))) \<and>
    (\<forall>k k' t t'. t \<in> set (waiters s k) \<and> t' \<in> set (waiters s k') \<and> t_id t = t_id t' \<longrightarrow> k = k') \<and>
    (\<forall>b x now. reservation s = Some (b, x) \<and> x > now \<longrightarrow>
      rebind b = Inr b \<and> cancel_foreground b now s = (Inr (), clear_foreground s))"
proof -
  have ok: "tickets_ok (next_id s) (waiters s)" "reservation_ok (reservation s)"
    using lane_reachable_ok [OF assms] by (simp_all add: lane_ok_def)
  have "rebind b = Inr b \<and> cancel_foreground b now s = (Inr (), clear_foreground s)"
    if "reservation s = Some (b, x)" "x > now" for b x now
    using that ok(2) by (simp add: reservation_ok_def cancel_foreground_def claim_foreground_def)
  with ok(1) show ?thesis unfolding tickets_ok_def by blast
qed

theorem lane_invariant_witness:
  "distinct (map t_id (waiters (snd (admit_begin Warmup 7 None 0 0 empty_lane)) Warmup))"
proof -
  have "lane_reachable (snd (admit_begin Warmup 7 None 0 0 empty_lane))"
    by (rule lane_reachable.Step [OF lane_reachable.Start lane_step.Arrive])
  from lane_invariant [OF this, THEN conjunct1, THEN spec, THEN conjunct1] show ?thesis .
qed

text \<open>
  Round trip: the wire form of a reservation reads back as the same binding and duration.
\<close>

theorem reservation_wire_roundtrip:
  assumes "reservation_to_wire b ttl = Inr d"
  shows "reservation_from_wire (PDict d) = Inr (b, ttl)"
proof -
  have w: "rebind b = Inr b" "reservation_ttl_ms (PInt ttl) = Inr ttl"
    and d: "d = [(''schema'', PStr reservation_schema), (''reservationId'', PStr (reservation_id b)),
            (''captureGeneration'', PInt (capture_generation b)), (''backendEpoch'', PStr (backend_epoch b)),
            (''ttlMs'', PInt ttl)]"
    using assms by (auto simp: reservation_to_wire_def bind_r_Inr rebind_def make_binding_def reservation_ttl_ms_def
        reservation_id_from_wire_def capture_generation_from_wire_def backend_epoch_from_wire_def split: if_splits)
  show ?thesis using w
    by (simp add: d reservation_from_wire_def reservation_keys_def reservation_schema_def py_get_def rebind_def)
qed

theorem reservation_wire_roundtrip_witness:
  "\<exists>d. reservation_from_wire (PDict d) =
     Inr (\<lparr>reservation_id = ''0123456789abcdef0123456789abcdef'', capture_generation = 4, backend_epoch = ''epoch-1''\<rparr>, 500)"
proof -
  let ?b = "\<lparr>reservation_id = ''0123456789abcdef0123456789abcdef'', capture_generation = 4, backend_epoch = ''epoch-1''\<rparr>"
  have "\<exists>d. reservation_to_wire ?b 500 = Inr d"
    by (simp add: reservation_to_wire_def rebind_def make_binding_def capture_generation_from_wire_def
        backend_epoch_from_wire_def reservation_id_from_wire_def hex_lower_def
        reservation_ttl_ms_def epoch_pattern_def word_char_def py_strip_def py_space_def)
  then obtain d where "reservation_to_wire ?b 500 = Inr d" by blast
  from reservation_wire_roundtrip [OF this] show ?thesis by blast
qed

text \<open>
  C28. A reservation is redeemed once, in time, by its own binding: a claim succeeds exactly for
  the stored binding before its expiry, in every case of success or expiry the lane forgets the
  reservation, and after a success every further claim is rejected as unavailable. A new
  reservation is refused while one is alive, and asks a background or warm-up request that
  holds the lane to yield.
\<close>

theorem reservation_redeemed_once:
  "(claim_foreground b now s = (Inr (), s') \<longleftrightarrow>
      (\<exists>x. reservation s = Some (b, x) \<and> x > now) \<and> s' = clear_foreground s) \<and>
   (claim_foreground b now s = (Inr (), s') \<longrightarrow>
      claim_foreground b' now' s' = (Inl (Rejected ''unavailable''), s')) \<and>
   (reserve_foreground token gen epoch ttl now s = (Inr r, s2) \<longrightarrow>
      (case reservation s of None \<Rightarrow> True | Some (_, x) \<Rightarrow> x \<le> now) \<and>
      (\<exists>t. 500 \<le> t \<and> t \<le> (1000::int) \<and> reservation s2 = Some (r, now + real_of_int t / 1000)) \<and>
      reservation_id r = token \<and>
      (\<forall>l. active s = Some l \<longrightarrow>
         (\<exists>l'. active s2 = Some l' \<and> (lease_kind l \<in> {Background, Warmup} \<longrightarrow> preempted l'))) \<and>
      fst (reserve_foreground token' gen epoch ttl now s2) = Inl (Rejected ''conflict''))"
proof (intro conjI impI)
  show "claim_foreground b now s = (Inr (), s') \<longleftrightarrow>
      (\<exists>x. reservation s = Some (b, x) \<and> x > now) \<and> s' = clear_foreground s"
    by (auto simp: claim_foreground_def split: option.splits if_splits)
  show "claim_foreground b' now' s' = (Inl (Rejected ''unavailable''), s')"
    if "claim_foreground b now s = (Inr (), s')"
    using that by (auto simp: claim_foreground_def clear_foreground_def split: option.splits if_splits)
next
  let ?wire = "bind_r (capture_generation_from_wire gen) (\<lambda>g. bind_r (backend_epoch_from_wire epoch) (\<lambda>b.
             bind_r (reservation_ttl_ms ttl) (\<lambda>t. Inr (g, b, t))))"
  let ?s1 = "prune_expired_foreground now s"
  assume a: "reserve_foreground token gen epoch ttl now s = (Inr r, s2)"
  obtain g e t where w: "?wire = Inr (g, e, t)"
    using a by (cases ?wire) (auto simp: reserve_foreground_def)
  have none: "reservation ?s1 = None"
    using a by (cases "reservation ?s1") (auto simp: reserve_foreground_def Let_def w)
  have r: "r = \<lparr>reservation_id = token, capture_generation = g, backend_epoch = e\<rparr>"
    and s2: "s2 = preempt_active (?s1\<lparr>reservation := Some (r, now + real_of_int t / 1000)\<rparr>)"
    using a none by (auto simp: reserve_foreground_def Let_def w)
  have t: "500 \<le> t" "t \<le> 1000"
    using w by (cases ttl; auto simp: bind_r_def reservation_ttl_ms_def split: sum.splits if_splits)+
  have act: "active ?s1 = active s"
    by (simp add: prune_expired_foreground_def clear_foreground_def split: option.split prod.split)
  have res: "reservation s2 = Some (r, now + real_of_int t / 1000)"
    using s2 by (simp add: preempt_active_def split: option.split)
  show "case reservation s of None \<Rightarrow> True | Some (_, x) \<Rightarrow> x \<le> now"
    using none by (auto simp: prune_expired_foreground_def split: option.splits if_splits)
  show "\<exists>t. 500 \<le> t \<and> t \<le> (1000::int) \<and> reservation s2 = Some (r, now + real_of_int t / 1000)"
    using res t by blast
  show "reservation_id r = token" using r by simp
  show "\<forall>l. active s = Some l \<longrightarrow>
         (\<exists>l'. active s2 = Some l' \<and> (lease_kind l \<in> {Background, Warmup} \<longrightarrow> preempted l'))"
    using s2 act by (auto simp: preempt_active_def)
  have "prune_expired_foreground now s2 = s2"
    using res t by (simp add: prune_expired_foreground_def)
  then show "fst (reserve_foreground token' gen epoch ttl now s2) = Inl (Rejected ''conflict'')"
    using w res by (simp add: reserve_foreground_def)
qed

definition demo_epoch :: pyval where "demo_epoch = PStr ''epoch-1''"

theorem reservation_redeemed_once_witness:
  "\<exists>r s2. reserve_foreground ''0123456789abcdef0123456789abcdef'' (PInt 4) demo_epoch (PInt 500) 10 empty_lane = (Inr r, s2)
     \<and> fst (claim_foreground r 10 s2) = Inr ()"
proof -
  have "\<exists>r s2. reserve_foreground ''0123456789abcdef0123456789abcdef'' (PInt 4) demo_epoch (PInt 500) 10 empty_lane = (Inr r, s2)"
    by (simp add: reserve_foreground_def demo_epoch_def capture_generation_from_wire_def backend_epoch_from_wire_def
        reservation_ttl_ms_def epoch_pattern_def word_char_def py_strip_def py_space_def prune_expired_foreground_def
        empty_lane_def Let_def)
  then obtain r s2 where a: "reserve_foreground ''0123456789abcdef0123456789abcdef'' (PInt 4) demo_epoch (PInt 500) 10 empty_lane = (Inr r, s2)"
    by blast
  note p = reservation_redeemed_once [where token = "''0123456789abcdef0123456789abcdef''" and gen = "PInt 4"
      and epoch = demo_epoch and ttl = "PInt 500" and now = 10 and s = empty_lane and r = r and ?s2.0 = s2]
  from p a obtain t where t: "500 \<le> t" "reservation s2 = Some (r, 10 + real_of_int t / 1000)" by blast
  then have "fst (claim_foreground r 10 s2) = Inr ()" by (simp add: claim_foreground_def)
  with a show ?thesis by blast
qed

text \<open>
  When the second of two tickets that are equal by value gives up (its caller timed out or
  was cancelled), \<open>deque.remove\<close> takes the first one out. The first caller, still waiting, is never
  admitted again, and the ticket that stays at the head belongs to a caller that has gone: until
  something else removes it, nothing of that kind is admitted.
\<close>

theorem equal_ticket_removed:
  assumes "waiters s k = a # b # rest" and "queued_at a = queued_at b" and "redemption a = redemption b"
    and "t_id a \<noteq> t_id b"
  shows "waiters (give_up k b s) k = b # rest \<and>
    (\<forall>s' now i. hd (waiters s' k) = b \<and> admissible now k i s' \<longrightarrow> i = t_id b) \<and>
    \<not> fst (try_admit now1 now2 k (t_id a) task (give_up k b s))"
proof (intro conjI)
  show w: "waiters (give_up k b s) k = b # rest" using assms by (simp add: give_up_def)
  show "\<forall>s' now i. hd (waiters s' k) = b \<and> admissible now k i s' \<longrightarrow> i = t_id b"
    by (auto simp: admissible_def split: if_splits)
  have "waiters (prune_expired_foreground now1 (give_up k b s)) k = b # rest"
    using w by (simp add: prune_expired_foreground_def clear_foreground_def split: option.split prod.split)
  then show "\<not> fst (try_admit now1 now2 k (t_id a) task (give_up k b s))"
    using assms(4) by (simp add: try_admit_def can_admit_def admissible_def Let_def)
qed

theorem equal_ticket_removed_witness:
  "waiters (give_up Interactive (demo_ticket 2 0) (lane_with Interactive [demo_ticket 1 0, demo_ticket 2 0])) Interactive
     = [demo_ticket 2 0]"
  by (rule equal_ticket_removed [where a = "demo_ticket 1 0", THEN conjunct1])
    (simp_all add: lane_with_def demo_ticket_def)

end
