(* ===== verification/U_Text.thy ===== *)
theory U_Text
  imports Py_Prelude "HOL-Library.Sublist"
begin

text \<open>
  Texts beyond Latin-1: a Python \<open>str\<close> as the list of its code points, for the parts of the
  program that work on Korean text. \<open>u_space\<close> is \<open>str.isspace\<close>, which is also \<open>\s\<close> of \<open>re\<close>;
  \<open>u_clean\<close> is \<open>clean_text\<close> of \<open>evelyn_core/text.py\<close>, with its normal form and how it behaves when
  texts are joined; \<open>u_count\<close> is \<open>str.count\<close>.
\<close>

type_synonym utext = "int list"

definition u_space :: "int \<Rightarrow> bool" where
  "u_space c \<longleftrightarrow> 9 \<le> c \<and> c \<le> 13 \<or> 28 \<le> c \<and> c \<le> 32 \<or> 8192 \<le> c \<and> c \<le> 8202 \<or>
     c \<in> {133, 160, 5760, 8232, 8233, 8239, 8287, 12288}"

definition u_lstrip :: "utext \<Rightarrow> utext" where
  "u_lstrip s = dropWhile u_space s"

definition u_rstrip :: "utext \<Rightarrow> utext" where
  "u_rstrip s = rev (u_lstrip (rev s))"

definition u_strip :: "utext \<Rightarrow> utext" where
  "u_strip s = u_rstrip (u_lstrip s)"

fun u_collapse :: "utext \<Rightarrow> utext" where
  "u_collapse [] = []"
| "u_collapse [c] = (if u_space c then [32] else [c])"
| "u_collapse (c # d # cs) =
     (if u_space c \<and> u_space d then u_collapse (d # cs)
      else (if u_space c then 32 else c) # u_collapse (d # cs))"

definition u_clean :: "utext \<Rightarrow> utext" where
  "u_clean s = u_collapse (u_strip s)"

text \<open>\<open>str.count\<close> of a pattern that is not empty.\<close>

function u_count :: "utext \<Rightarrow> utext \<Rightarrow> nat" where
  "u_count p [] = 0"
| "u_count p (c # cs) =
     (if prefix p (c # cs) then 1 + u_count p (drop (length p - 1) cs) else u_count p cs)"
  by pat_completeness auto
termination
  by (relation "measure (\<lambda>(p, s). length s)") auto


section \<open>The normal form of \<open>u_clean\<close>\<close>

fun single_blanks :: "utext \<Rightarrow> bool" where
  "single_blanks [] = True"
| "single_blanks [c] = (u_space c \<longrightarrow> c = 32)"
| "single_blanks (c # d # cs) = ((u_space c \<longrightarrow> c = 32 \<and> \<not> u_space d) \<and> single_blanks (d # cs))"

definition neat :: "utext \<Rightarrow> bool" where
  "neat s \<longleftrightarrow> single_blanks s \<and> (s \<noteq> [] \<longrightarrow> \<not> u_space (hd s) \<and> \<not> u_space (last s))"

lemma u_space_blank [simp]: "u_space 32"
  by (simp add: u_space_def)

lemma u_strip_Nil [simp]: "u_strip [] = []"
  by (simp add: u_strip_def u_rstrip_def u_lstrip_def)

lemma u_collapse_Nil_iff [simp]: "u_collapse s = [] \<longleftrightarrow> s = []"
  by (induction s rule: u_collapse.induct) auto

lemma u_collapse_hd: "s \<noteq> [] \<Longrightarrow> u_space (hd (u_collapse s)) = u_space (hd s)"
  by (induction s rule: u_collapse.induct) auto

lemma u_collapse_last: "s \<noteq> [] \<Longrightarrow> u_space (last (u_collapse s)) = u_space (last s)"
  by (induction s rule: u_collapse.induct) auto

lemma single_blanks_collapse: "single_blanks (u_collapse s)"
proof (induction s rule: u_collapse.induct)
  case (3 c d cs)
  obtain x xs where x: "u_collapse (d # cs) = x # xs"
    by (cases "u_collapse (d # cs)") auto
  then have "u_space x = u_space d"
    using u_collapse_hd [of "d # cs"] by simp
  with 3 x show ?case by auto
qed auto

lemma collapse_single_blanks: "single_blanks s \<Longrightarrow> u_collapse s = s"
  by (induction s rule: single_blanks.induct) auto

lemma u_strip_ends:
  assumes "u_strip s \<noteq> []"
  shows "\<not> u_space (hd (u_strip s))" and "\<not> u_space (last (u_strip s))"
proof -
  let ?a = "dropWhile u_space s"
  have s: "u_strip s = rev (dropWhile u_space (rev ?a))"
    by (simp add: u_strip_def u_rstrip_def u_lstrip_def)
  have "?a \<noteq> []" using assms unfolding s by force
  then show "\<not> u_space (hd (u_strip s))"
    using assms by (simp add: s hd_rstrip [unfolded rev_is_Nil_conv] dropWhile_hd_stop del: dropWhile_eq_Nil_conv)
  show "\<not> u_space (last (u_strip s))"
    using assms by (simp add: s last_rev dropWhile_hd_stop del: dropWhile_eq_Nil_conv)
qed

lemma u_strip_fix:
  assumes "s = [] \<or> \<not> u_space (hd s) \<and> \<not> u_space (last s)"
  shows "u_strip s = s"
proof -
  have "dropWhile u_space s = s" using assms by (intro dropWhile_hd_keep) auto
  moreover have "dropWhile u_space (rev s) = rev s"
    using assms by (intro dropWhile_hd_keep) (auto simp: hd_rev)
  ultimately show ?thesis by (simp add: u_strip_def u_rstrip_def u_lstrip_def)
qed

lemma neat_clean [simp]: "neat (u_clean s)"
  using u_strip_ends [of s] u_collapse_hd [of "u_strip s"] u_collapse_last [of "u_strip s"]
  by (auto simp: neat_def u_clean_def single_blanks_collapse)

lemma clean_neat: "neat s \<Longrightarrow> u_clean s = s"
  using u_strip_fix [of s] by (cases "s = []") (auto simp: neat_def u_clean_def collapse_single_blanks)

lemma u_clean_Nil [simp]: "u_clean [] = []"
  by (simp add: u_clean_def)

lemma single_blanks_join:
  "single_blanks p \<Longrightarrow> single_blanks v \<Longrightarrow> p \<noteq> [] \<Longrightarrow> v \<noteq> [] \<Longrightarrow> \<not> u_space (last p) \<Longrightarrow> \<not> u_space (hd v) \<Longrightarrow>
   single_blanks (p @ 32 # v)"
  by (induction p rule: single_blanks.induct) (auto split: if_splits simp: neq_Nil_conv)

text \<open>Two neat texts joined by a blank.\<close>

lemma clean_join:
  assumes "neat p" "neat v"
  shows "u_clean (p @ [32] @ v) = (if p = [] then v else if v = [] then p else p @ [32] @ v)"
proof (cases "p = [] \<or> v = []")
  case True
  have "u_strip (32 # v) = u_strip v" by (simp add: u_strip_def u_lstrip_def)
  then have l: "u_clean (32 # v) = v" using clean_neat [OF assms(2)] by (simp add: u_clean_def)
  have "p \<noteq> [] \<Longrightarrow> u_strip (p @ [32]) = p"
    using assms(1) u_strip_fix [of p] dropWhile_hd_keep [of "p @ [32]" u_space] dropWhile_hd_keep [of p u_space]
    by (simp add: neat_def u_strip_def u_rstrip_def u_lstrip_def)
  then have r: "p \<noteq> [] \<Longrightarrow> u_clean (p @ [32]) = p"
    using assms(1) by (simp add: u_clean_def neat_def collapse_single_blanks)
  show ?thesis using True l r by auto
next
  case False
  then have "neat (p @ 32 # v)" using assms single_blanks_join [of p v] by (simp add: neat_def)
  then show ?thesis using clean_neat False by simp
qed

lemma prefix_clean_join: "neat p \<Longrightarrow> neat v \<Longrightarrow> prefix p (u_clean (p @ [32] @ v))"
  by (subst clean_join) auto

end
