(* ===== verification/Speech_Chunker.thy ===== *)
theory Speech_Chunker
  imports U_Text
begin

text \<open>
  \<open>evelyn_core/tts_playback.py\<close>, the first half of its speech path: \<open>SpeechChunker\<close>, which cuts the
  growing answer of the language model into pieces that can be spoken, with the tests on
  unfinished endings it uses.

  The pieces are Korean and English text, so a text here is a list of code points. The Unicode
  test \<open>\d\<close>, and \<open>clean_tts_text\<close> and \<open>strip_omnivoice_tags\<close> of \<open>evelyn_core/text.py\<close> (lists of
  regular expressions that drop emoji, markup and voice tags), are the fields of the parameter
  \<open>text_env\<close>: everything below holds whatever they remove.
\<close>

section \<open>The cleaning functions\<close>

record text_env =
  clean_tts :: "utext \<Rightarrow> utext"
  strip_tags :: "utext \<Rightarrow> utext"
  decimal_digit :: "int \<Rightarrow> bool"

section \<open>Endings\<close>

definition tail_marks :: utext where
  "tail_marks = [32, 9, 13, 10, 44, 65292, 59, 65307, 58, 65306, 8230, 46, 33, 63, 12290, 65281, 65311,
     41, 93, 125, 62, 39, 34, 8221, 8217, 12301, 12303, 12305]"

text \<open>The text is reversed, so that its end is the head of the list.\<close>

function drop_tail_marks :: "utext \<Rightarrow> utext" where
  "drop_tail_marks [] = []"
| "drop_tail_marks (c # cs) =
     (if c \<in> set tail_marks then drop_tail_marks (dropWhile u_space cs) else c # cs)"
  by pat_completeness auto
termination
  by (relation "measure length") (auto simp: le_imp_less_Suc length_dropWhile_le)

definition tail_probe :: "text_env \<Rightarrow> utext \<Rightarrow> utext" where
  "tail_probe e s = rev (drop_tail_marks (rev (u_strip (clean_tts e s))))"

definition has_unbalanced_pairs :: "utext \<Rightarrow> bool" where
  "has_unbalanced_pairs s \<longleftrightarrow>
     u_count [40] s \<noteq> u_count [41] s \<or> u_count [91] s \<noteq> u_count [93] s \<or> u_count [123] s \<noteq> u_count [125] s \<or>
     odd (u_count [34] s) \<or> odd (u_count [39] s) \<or> odd (u_count [96, 96, 96] s)"

definition bad_tail_words :: "utext list" where
  "bad_tail_words =
     [[44536, 47532, 44256], [44540, 45936], [54616, 51648, 47564], [45796, 47564], [44536, 47000, 49436],
      [44536, 47000, 46020]]"

definition bad_tail_suffixes :: "utext list" where
  "bad_tail_suffixes =
     [[51008], [45716], [51060], [44032], [51012], [47484], [51032], [50640], [44256], [47196], [47732], [44284],
      [50752], [47728], [46020], [47564]]"

definition good_end_suffixes :: "utext list" where
  "good_end_suffixes = [[45796], [50836], [51648], [45348], [44620], [50612], [50500], [50556]]"

definition is_unstable_tail :: "text_env \<Rightarrow> utext \<Rightarrow> bool" where
  "is_unstable_tail e chunk =
     (let s = u_strip (clean_tts e chunk) in
      if s = [] then True
      else if has_unbalanced_pairs s then True
      else
        let p = tail_probe e s in
        if p = [] then True
        else list_ex (\<lambda>w. suffix w p) bad_tail_words \<or> list_ex (\<lambda>w. suffix w p) bad_tail_suffixes)"

definition has_natural_end :: "text_env \<Rightarrow> utext \<Rightarrow> bool" where
  "has_natural_end e chunk =
     (let p = tail_probe e chunk in p \<noteq> [] \<and> list_ex (\<lambda>w. suffix w p) good_end_suffixes)"

section \<open>The shape of the answer\<close>

datatype shape = Chat | Structured

text \<open>The suffixes that begin at a line start, for \<open>^\<close> under \<open>(?m)\<close>.\<close>

fun after_newlines :: "utext \<Rightarrow> utext list" where
  "after_newlines [] = []"
| "after_newlines (c # cs) = (if c = 10 then cs # after_newlines cs else after_newlines cs)"

definition line_starts :: "utext \<Rightarrow> utext list" where
  "line_starts s = s # after_newlines s"

text \<open>\<open>\s+\S\<close> at the head.\<close>

definition gap_then_ink :: "utext \<Rightarrow> bool" where
  "gap_then_ink s \<longleftrightarrow> s \<noteq> [] \<and> u_space (hd s) \<and> u_lstrip s \<noteq> []"

definition list_item_at :: "text_env \<Rightarrow> utext \<Rightarrow> bool" where
  "list_item_at e s =
     (case u_lstrip s of
        [] \<Rightarrow> False
      | c # cs \<Rightarrow>
          c \<in> {45, 42, 8226} \<and> gap_then_ink cs \<or>
          decimal_digit e c \<and>
            (case dropWhile (decimal_digit e) cs of
               [] \<Rightarrow> False
             | d # ds \<Rightarrow> d \<in> {46, 41} \<and> gap_then_ink ds))"

definition table_row_at :: "utext \<Rightarrow> bool" where
  "table_row_at s =
     (let row = u_rstrip (takeWhile (\<lambda>c. c \<noteq> 10) (u_lstrip s))
      in length row \<ge> 3 \<and> hd row = 124 \<and> last row = 124)"

definition detect_output_shape :: "text_env \<Rightarrow> utext \<Rightarrow> shape" where
  "detect_output_shape e s =
     (let t = u_lstrip s in
      if t = [] then Chat
      else if hd t = 96 then Structured
      else if list_ex (list_item_at e) (line_starts t) then Structured
      else if list_ex table_row_at (line_starts t) then Structured
      else Chat)"

section \<open>The chunker\<close>

record chunk_window =
  min_chars :: int
  target_chars :: int
  max_chars :: int
  allow_soft_breaks :: bool
  soft_break_overflow_only :: bool

record chunker_config =
  hard_breaks :: "utext list"
  soft_breaks :: "utext list"
  hard_break_grace_chars :: int
  candidate_unstable_penalty :: int
  natural_end_bonus :: int
  allow_forced_cuts :: bool
  short_hard_min_chars :: int
  first_window :: chunk_window
  next_window :: chunk_window
  structured_first_window :: chunk_window
  structured_next_window :: chunk_window

definition default_config :: chunker_config where
  "default_config =
     \<lparr>hard_breaks = [[46], [33], [63], [10], [12290], [65281], [65311]],
      soft_breaks = [[44], [59], [58], [44536, 47532, 44256], [44540, 45936]],
      hard_break_grace_chars = 10, candidate_unstable_penalty = 80, natural_end_bonus = 12,
      allow_forced_cuts = False, short_hard_min_chars = 4,
      first_window = \<lparr>min_chars = 18, target_chars = 24, max_chars = 40, allow_soft_breaks = True,
        soft_break_overflow_only = False\<rparr>,
      next_window = \<lparr>min_chars = 12, target_chars = 36, max_chars = 72, allow_soft_breaks = False,
        soft_break_overflow_only = True\<rparr>,
      structured_first_window = \<lparr>min_chars = 22, target_chars = 30, max_chars = 48,
        allow_soft_breaks = False, soft_break_overflow_only = False\<rparr>,
      structured_next_window = \<lparr>min_chars = 18, target_chars = 40, max_chars = 84,
        allow_soft_breaks = False, soft_break_overflow_only = True\<rparr>\<rparr>"

record chunker =
  config :: chunker_config
  buf :: utext
  sent_first :: bool
  mode :: shape

definition new_chunker :: "bool \<Rightarrow> chunker" where
  "new_chunker sent = \<lparr>config = default_config, buf = [], sent_first = sent, mode = Chat\<rparr>"

definition window :: "chunker \<Rightarrow> chunk_window" where
  "window s =
     (if mode s = Structured
      then if sent_first s then structured_next_window (config s) else structured_first_window (config s)
      else if sent_first s then next_window (config s) else first_window (config s))"

definition is_hard :: "chunker_config \<Rightarrow> int \<Rightarrow> bool" where
  "is_hard g c \<longleftrightarrow> [c] \<in> set (hard_breaks g)"

definition is_soft :: "chunker_config \<Rightarrow> int \<Rightarrow> bool" where
  "is_soft g c \<longleftrightarrow> [c] \<in> set (soft_breaks g)"

definition visible_len :: "utext \<Rightarrow> int" where
  "visible_len s = int (length (u_clean s))"

text \<open>The body of the first loop at index \<open>i\<close>: the score of the cut after \<open>text ! i\<close>, if it is one.\<close>

definition cut_score :: "text_env \<Rightarrow> chunker_config \<Rightarrow> chunk_window \<Rightarrow> utext \<Rightarrow> nat \<Rightarrow> int option" where
  "cut_score e g w text i =
     (let ch = text ! i; chunk = clean_tts e (take (i + 1) text); vis = visible_len chunk in
      if vis < min_chars w \<and>
         \<not> (is_hard g ch \<and> vis \<ge> short_hard_min_chars g \<and> \<not> is_unstable_tail e chunk) then None
      else if \<not> is_hard g ch \<and>
         (\<not> is_soft g ch \<or>
          \<not> allow_soft_breaks w \<and> (\<not> soft_break_overflow_only w \<or> vis < max_chars w)) then None
      else
        Some ((if is_hard g ch then 100 else 55) - \<bar>vis - target_chars w\<bar>
          - (if vis > max_chars w then 20 else 0)
          - (if is_unstable_tail e chunk then candidate_unstable_penalty g else 0)
          + (if has_natural_end e chunk then natural_end_bonus g else 0)))"

definition better :: "(nat \<times> int) option \<Rightarrow> nat \<Rightarrow> int \<Rightarrow> (nat \<times> int) option" where
  "better best i sc =
     (if sc > (case best of None \<Rightarrow> - (10 ^ 9) | Some (_, b) \<Rightarrow> b) then Some (i + 1, sc) else best)"

definition best_cut :: "text_env \<Rightarrow> chunker_config \<Rightarrow> chunk_window \<Rightarrow> utext \<Rightarrow> (nat \<times> int) option" where
  "best_cut e g w text =
     foldl (\<lambda>best i. case cut_score e g w text i of None \<Rightarrow> best | Some sc \<Rightarrow> better best i sc)
       None [0..<length text]"

text \<open>After a soft cut, a hard break a little further on is preferred.\<close>

definition graced :: "text_env \<Rightarrow> chunker_config \<Rightarrow> chunk_window \<Rightarrow> utext \<Rightarrow> nat \<Rightarrow> nat \<Rightarrow> bool" where
  "graced e g w text best i =
     (let candidate = clean_tts e (take (i + 1) text); vis = visible_len candidate in
      i + 1 > best \<and> is_hard g (text ! i) \<and> vis \<le> max_chars w \<and>
      vis - visible_len (clean_tts e (take best text)) \<le> hard_break_grace_chars g \<and>
      \<not> is_unstable_tail e candidate)"

fun forced_target :: "int \<Rightarrow> int \<Rightarrow> nat \<Rightarrow> utext \<Rightarrow> nat option" where
  "forced_target limit seen i [] = None"
| "forced_target limit seen i (c # cs) =
     (let seen' = (if \<not> u_space c \<or> seen > 0 then seen + 1 else seen)
      in if seen' \<ge> limit then Some (i + 1) else forced_target limit seen' (i + 1) cs)"

definition find_forced_cut :: "chunker_config \<Rightarrow> utext \<Rightarrow> int \<Rightarrow> nat" where
  "find_forced_cut g text limit =
     (let target = (case forced_target limit 0 0 text of None \<Rightarrow> length text | Some r \<Rightarrow> r);
          start = max 1 (target - 14)
      in case find (\<lambda>r. u_space (text ! (r - 1)) \<or> is_soft g (text ! (r - 1)) \<or> is_hard g (text ! (r - 1)))
                (rev [start..<target + 1]) of
           None \<Rightarrow> target
         | Some r \<Rightarrow> r)"

definition find_dispatch_point :: "text_env \<Rightarrow> chunker \<Rightarrow> utext \<Rightarrow> nat option" where
  "find_dispatch_point e s text =
     (let g = config s; w = window s in
      if u_strip text = [] then None
      else
        case best_cut e g w text of
          Some (best, _) \<Rightarrow>
            if is_hard g (text ! (best - 1)) then Some best
            else (case find (graced e g w text best) [0..<length text] of
                    Some i \<Rightarrow> Some (i + 1)
                  | None \<Rightarrow> Some best)
        | None \<Rightarrow>
            if allow_forced_cuts g \<and> visible_len text \<ge> max_chars w
            then let forced = find_forced_cut g text (max_chars w);
                     chunk = clean_tts e (take forced text)
                 in if chunk \<noteq> [] \<and> \<not> is_unstable_tail e chunk then Some forced else None
            else None)"

definition consume :: "text_env \<Rightarrow> nat \<Rightarrow> chunker \<Rightarrow> utext \<times> chunker" where
  "consume e n s = (clean_tts e (take n (buf s)), s\<lparr>buf := u_lstrip (drop n (buf s))\<rparr>)"

text \<open>The loop keeps the first of the cuts with the highest score.\<close>

definition is_best :: "(nat \<Rightarrow> int option) \<Rightarrow> nat \<Rightarrow> (nat \<times> int) option \<Rightarrow> bool" where
  "is_best f k b = (case b of
     None \<Rightarrow> \<forall>i<k. \<forall>c. f i = Some c \<longrightarrow> c \<le> - (10 ^ 9)
   | Some (n, sc) \<Rightarrow> 0 < n \<and> n \<le> k \<and> f (n - 1) = Some sc \<and> sc > - (10 ^ 9) \<and>
       (\<forall>i<k. \<forall>c. f i = Some c \<longrightarrow> c \<le> sc \<and> (i + 1 < n \<longrightarrow> c < sc)))"

lemma is_best_step:
  assumes "is_best f k b"
  shows "is_best f (Suc k) (case f k of None \<Rightarrow> b | Some sc \<Rightarrow> better b k sc)"
proof (cases "f k")
  case None
  then show ?thesis using assms by (auto simp: is_best_def less_Suc_eq split: option.splits)
next
  case (Some c)
  show ?thesis
  proof (cases b)
    case None
    then show ?thesis using assms Some by (auto simp: is_best_def better_def less_Suc_eq)
  next
    case (Some p)
    obtain n sc where p: "p = (n, sc)" by fastforce
    have h: "0 < n" "n \<le> k" "f (n - 1) = Some sc" "sc > - (10 ^ 9)"
      "\<And>i c. i < k \<Longrightarrow> f i = Some c \<Longrightarrow> c \<le> sc \<and> (i + 1 < n \<longrightarrow> c < sc)"
      using assms Some p by (auto simp: is_best_def)
    show ?thesis
    proof (cases "c > sc")
      case True
      have "d < c" if "i < k" "f i = Some d" for i d using h(5) [OF that] True by simp
      then show ?thesis using \<open>f k = Some c\<close> Some p True h(4)
        by (auto simp: is_best_def better_def less_Suc_eq intro: less_imp_le)
    next
      case False
      then show ?thesis using \<open>f k = Some c\<close> Some p h by (auto simp: is_best_def better_def less_Suc_eq)
    qed
  qed
qed

lemma best_cut_best: "is_best (cut_score e g w text) (length text) (best_cut e g w text)"
proof -
  have "is_best f k (foldl (\<lambda>b i. case f i of None \<Rightarrow> b | Some sc \<Rightarrow> better b i sc) None [0..<k])" for f k
    using is_best_step by (induction k) (auto simp: is_best_def)
  then show ?thesis by (simp add: best_cut_def)
qed

lemma best_cut_index:
  "best_cut e g w text = Some (n, sc) \<Longrightarrow> 0 < n \<and> n \<le> length text \<and> cut_score e g w text (n - 1) = Some sc"
  using best_cut_best [of e g w "text"] by (simp add: is_best_def)

lemma forced_target_range: "forced_target l seen i cs = Some r \<Longrightarrow> i < r \<and> r \<le> i + length cs"
  by (induction cs arbitrary: seen i) (fastforce simp: Let_def split: if_splits)+

lemma find_mem: "find P l = Some r \<Longrightarrow> r \<in> set l"
  by (induction l) (auto split: if_splits)

lemma find_forced_cut_range:
  assumes "text \<noteq> []"
  shows "0 < find_forced_cut g text l \<and> find_forced_cut g text l \<le> length text"
proof -
  define t where "t = (case forced_target l 0 0 text of None \<Rightarrow> length text | Some r \<Rightarrow> r)"
  have t: "0 < t" "t \<le> length text"
    using assms forced_target_range [of l 0 0 "text"] by (auto simp: t_def split: option.split)
  show ?thesis
  proof (cases "find (\<lambda>r. u_space (text ! (r - 1)) \<or> is_soft g (text ! (r - 1)) \<or> is_hard g (text ! (r - 1)))
                (rev [max 1 (t - 14)..<t + 1])")
    case None
    then show ?thesis using t by (simp add: find_forced_cut_def Let_def t_def [symmetric])
  next
    case (Some r)
    then have "r \<in> set (rev [max 1 (t - 14)..<t + 1])" by (rule find_mem)
    then show ?thesis using t Some by (auto simp: find_forced_cut_def Let_def t_def [symmetric])
  qed
qed

lemma dispatch_range: "find_dispatch_point e s text = Some n \<Longrightarrow> 0 < n \<and> n \<le> length text"
proof (cases "text = []")
  case False
  assume "find_dispatch_point e s text = Some n"
  then show ?thesis using find_forced_cut_range [OF False, of "config s" "max_chars (window s)"]
    by (auto simp: find_dispatch_point_def Let_def split: if_splits option.splits dest!: best_cut_index find_mem)
qed (simp add: find_dispatch_point_def)

lemma lstrip_length: "length (u_lstrip s) \<le> length s"
  by (simp add: u_lstrip_def length_dropWhile_le)

lemma consume_shrinks:
  "find_dispatch_point e s (buf s) = Some n \<Longrightarrow> length (buf (snd (consume e n s))) < length (buf s)"
  using dispatch_range [of e s "buf s" n] le_less_trans [OF lstrip_length [of "drop n (buf s)"]]
  by (auto simp: consume_def)

text \<open>The loop of \<open>push\<close>. It ends because every dispatch point is at least 1.\<close>

function push_loop :: "text_env \<Rightarrow> int option \<Rightarrow> utext list \<Rightarrow> chunker \<Rightarrow> utext list \<times> chunker" where
  "push_loop e m out s =
     (case find_dispatch_point e s (buf s) of
        None \<Rightarrow> (out, s)
      | Some n \<Rightarrow>
          let (chunk, s1) = consume e n s in
          if chunk = [] then push_loop e m out s1
          else
            let out' = out @ [chunk]; s2 = s1\<lparr>sent_first := True\<rparr>
            in if (case m of None \<Rightarrow> False | Some k \<Rightarrow> int (length out') \<ge> k) then (out', s2)
               else push_loop e m out' s2)"
  by pat_completeness auto
termination
proof (relation "measure (\<lambda>(e, m, out, s). length (buf s))", goal_cases)
  case (2 e m out s n p chunk s1)
  then have "snd (consume e n s) = s1" by (metis snd_conv)
  then show ?case using consume_shrinks [of e s n] "2" by simp
next
  case (3 e m out s n p chunk s1 out' s2)
  then have "snd (consume e n s) = s1" by (metis snd_conv)
  then show ?case using consume_shrinks [of e s n] "3" by simp
qed simp

declare push_loop.simps [simp del]

definition chunker_push :: "text_env \<Rightarrow> utext \<Rightarrow> int option \<Rightarrow> chunker \<Rightarrow> utext list \<times> chunker" where
  "chunker_push e delta m s =
     (let b = buf s @ delta in push_loop e m [] (s\<lparr>buf := b, mode := detect_output_shape e b\<rparr>))"

definition chunker_flush :: "text_env \<Rightarrow> chunker \<Rightarrow> utext list \<times> chunker" where
  "chunker_flush e s =
     (let tail = clean_tts e (buf s) in (if tail = [] then [] else [tail], s\<lparr>buf := []\<rparr>))"

definition split_tts_sentences :: "text_env \<Rightarrow> utext \<Rightarrow> bool \<Rightarrow> int \<Rightarrow> utext list \<times> utext" where
  "split_tts_sentences e buffer force emitted =
     (let (chunks, s) = chunker_push e buffer None (new_chunker (emitted > 0))
      in if \<not> force then (chunks, buf s) else (chunks @ fst (chunker_flush e s), []))"

section \<open>Properties\<close>

definition plain_env :: text_env where
  "plain_env = \<lparr>clean_tts = u_clean, strip_tags = u_clean, decimal_digit = (\<lambda>c. 48 \<le> c \<and> c \<le> 57)\<rparr>"

lemma lstrip_split: "\<exists>w. list_all u_space w \<and> s = w @ u_lstrip s"
  by (rule exI [of _ "takeWhile u_space s"])
    (auto simp: u_lstrip_def list_all_iff dest: set_takeWhileD)

definition pieces_of :: "text_env \<Rightarrow> (utext \<times> utext) list \<Rightarrow> utext list" where
  "pieces_of e ps = filter (\<lambda>c. c \<noteq> []) (map (\<lambda>p. clean_tts e (fst p)) ps)"

definition glue :: "(utext \<times> utext) list \<Rightarrow> utext" where
  "glue ps = concat (map (\<lambda>p. fst p @ snd p) ps)"

definition gaps_blank :: "(utext \<times> utext) list \<Rightarrow> bool" where
  "gaps_blank ps = list_all (\<lambda>p. fst p \<noteq> [] \<and> list_all u_space (snd p)) ps"

lemma push_loop_pieces:
  "\<exists>ps. fst (push_loop e m out s) = out @ pieces_of e ps \<and> glue ps @ buf (snd (push_loop e m out s)) = buf s
     \<and> gaps_blank ps \<and> config (snd (push_loop e m out s)) = config s
     \<and> (find_dispatch_point e (snd (push_loop e m out s)) (buf (snd (push_loop e m out s))) = None \<or>
        (\<exists>k. m = Some k \<and> pieces_of e ps \<noteq> [] \<and> k \<le> int (length (out @ pieces_of e ps))))
     \<and> (\<forall>k. m = Some k \<longrightarrow> int (length (out @ pieces_of e ps)) \<le> max (int (length out) + 1) k)"
proof (induction "length (buf s)" arbitrary: out s rule: less_induct)
  case less
  show ?case
  proof (cases "find_dispatch_point e s (buf s)")
    case None
    then show ?thesis
      by (intro exI [of _ "[]"]) (simp add: push_loop.simps [of e m out s] pieces_of_def glue_def gaps_blank_def le_max_iff_disj)
  next
    case (Some n)
    define chunk where "chunk = clean_tts e (take n (buf s))"
    obtain w where w: "list_all u_space w" "drop n (buf s) = w @ u_lstrip (drop n (buf s))"
      using lstrip_split by blast
    define s1 where "s1 = s\<lparr>buf := u_lstrip (drop n (buf s))\<rparr>"
    define s2 where "s2 = (if chunk = [] then s1 else s1\<lparr>sent_first := True\<rparr>)"
    define out2 where "out2 = (if chunk = [] then out else out @ [chunk])"
    define full where "full \<longleftrightarrow> chunk \<noteq> [] \<and> (\<exists>k. m = Some k \<and> int (length out2) \<ge> k)"
    have loop: "push_loop e m out s = (if full then (out2, s2) else push_loop e m out2 s2)"
      by (subst push_loop.simps)
        (auto simp: Some consume_def chunk_def s1_def s2_def out2_def full_def Let_def split: option.split)
    have smaller: "length (buf s2) < length (buf s)"
      using consume_shrinks [OF Some] by (simp add: consume_def s1_def s2_def)
    have ne: "take n (buf s) \<noteq> []" using dispatch_range [OF Some] by auto
    have b: "buf s = take n (buf s) @ w @ buf s2"
      using w(2) append_take_drop_id [of n "buf s"] by (simp add: s1_def s2_def)
    have piece: "out @ pieces_of e ((take n (buf s), w) # ps) = out2 @ pieces_of e ps"
      "glue ((take n (buf s), w) # ps) = take n (buf s) @ w @ glue ps"
      "gaps_blank ps \<Longrightarrow> gaps_blank ((take n (buf s), w) # ps)"
      "chunk \<noteq> [] \<Longrightarrow> pieces_of e ((take n (buf s), w) # ps) \<noteq> []" for ps
      using ne w(1) by (simp_all add: out2_def chunk_def pieces_of_def glue_def gaps_blank_def)
    have conf: "config s2 = config s" by (simp add: s1_def s2_def)
    show ?thesis
    proof (cases full)
      case True
      then show ?thesis using piece [of "[]"] b conf loop
        by (intro exI [of _ "[(take n (buf s), w)]"]) (auto simp: full_def out2_def pieces_of_def glue_def gaps_blank_def)
    next
      case False
      from less [OF smaller, of out2] obtain ps where ps:
        "fst (push_loop e m out2 s2) = out2 @ pieces_of e ps" "glue ps @ buf (snd (push_loop e m out2 s2)) = buf s2"
        "gaps_blank ps" "config (snd (push_loop e m out2 s2)) = config s2"
        "find_dispatch_point e (snd (push_loop e m out2 s2)) (buf (snd (push_loop e m out2 s2))) = None \<or>
          (\<exists>k. m = Some k \<and> pieces_of e ps \<noteq> [] \<and> k \<le> int (length (out2 @ pieces_of e ps)))"
        "\<forall>k. m = Some k \<longrightarrow> int (length (out2 @ pieces_of e ps)) \<le> max (int (length out2) + 1) k"
        by blast
      have more: "pieces_of e ps \<noteq> [] \<Longrightarrow> pieces_of e ((take n (buf s), w) # ps) \<noteq> []" by (simp add: pieces_of_def)
      have "int (length (out2 @ pieces_of e ps)) \<le> max (int (length out) + 1) k" if "m = Some k" for k
        using ps(6) that False by (auto simp: full_def out2_def split: if_splits)
      then show ?thesis using ps False b conf loop more piece [of ps]
        by (intro exI [of _ "(take n (buf s), w) # ps"]) (simp, metis)
    qed
  qed
qed

lemma glue_length: "gaps_blank ps \<Longrightarrow> length ps \<le> length (glue ps)"
  by (induction ps) (auto simp: gaps_blank_def glue_def Suc_le_eq intro: le_less_trans)

text \<open>
  C31. Chunking ends and loses nothing, whatever limit of pieces \<open>push\<close> is given: after at most
  one round per character the buffered text and the new delta are cut, in order, into the pieces
  that are spoken, the blanks between them and the rest that stays buffered; pieces that are
  empty after cleaning are not spoken. Either the rest has no cut left, or the limit is reached;
  a call speaks at most as many pieces as the limit says, but never stops before the first.
\<close>

theorem chunking_keeps_text:
  "\<exists>ps. fst (chunker_push e delta m s) = pieces_of e ps \<and>
     glue ps @ buf (snd (chunker_push e delta m s)) = buf s @ delta \<and> gaps_blank ps \<and>
     length ps \<le> length (buf s @ delta) \<and>
     (find_dispatch_point e (snd (chunker_push e delta m s)) (buf (snd (chunker_push e delta m s))) = None \<or>
      m \<noteq> None \<and> int (length (pieces_of e ps)) = max 1 (the m)) \<and>
     (m \<noteq> None \<longrightarrow> int (length (pieces_of e ps)) \<le> max 1 (the m))"
proof -
  let ?r = "snd (chunker_push e delta m s)"
  obtain ps where ps: "fst (chunker_push e delta m s) = pieces_of e ps" "glue ps @ buf ?r = buf s @ delta"
      "gaps_blank ps"
      "find_dispatch_point e ?r (buf ?r) = None \<or> (\<exists>k. m = Some k \<and> pieces_of e ps \<noteq> [] \<and> k \<le> int (length (pieces_of e ps)))"
      "\<forall>k. m = Some k \<longrightarrow> int (length (pieces_of e ps)) \<le> max 1 k"
    using push_loop_pieces [of e m "[]" "s\<lparr>buf := buf s @ delta, mode := detect_output_shape e (buf s @ delta)\<rparr>"]
    by (auto simp: chunker_push_def Let_def)
  have "length ps \<le> length (glue ps @ buf ?r)" using glue_length [OF ps(3)] by simp
  then have "length ps \<le> length (buf s @ delta)" unfolding ps(2) .
  moreover have "int (length (pieces_of e ps)) = max 1 k" if "m = Some k" "pieces_of e ps \<noteq> []" "k \<le> int (length (pieces_of e ps))" for k
    using that ps(5) by (cases "pieces_of e ps") (auto simp: max_def split: if_splits)
  ultimately show ?thesis using ps by (intro exI [of _ ps]) auto
qed

definition sentence :: utext where
  "sentence = [89, 101, 115, 46]"

theorem chunking_keeps_text_witness:
  "\<exists>ps. fst (chunker_push plain_env sentence (Some 1) (new_chunker False)) = pieces_of plain_env ps \<and>
     length (pieces_of plain_env ps) \<le> 1 \<and>
     glue ps @ buf (snd (chunker_push plain_env sentence (Some 1) (new_chunker False))) = sentence"
proof -
  have b: "buf (new_chunker False) = []" by (simp add: new_chunker_def)
  obtain ps where "fst (chunker_push plain_env sentence (Some 1) (new_chunker False)) = pieces_of plain_env ps"
    "glue ps @ buf (snd (chunker_push plain_env sentence (Some 1) (new_chunker False))) = sentence"
    "int (length (pieces_of plain_env ps)) \<le> 1"
    using chunking_keeps_text [where e = plain_env and s = "new_chunker False" and delta = sentence and m = "Some 1"]
    unfolding b by auto
  then show ?thesis by (intro exI [of _ ps]) simp
qed

text \<open>
  Where a cut may be, what it is worth and which sentence break counts as near, by the number
  \<open>n\<close> of characters before the cut.
\<close>

definition seen :: "text_env \<Rightarrow> utext \<Rightarrow> nat \<Rightarrow> int" where
  "seen e str n = visible_len (clean_tts e (take n str))"

definition finished :: "text_env \<Rightarrow> utext \<Rightarrow> nat \<Rightarrow> bool" where
  "finished e str n \<longleftrightarrow> \<not> is_unstable_tail e (clean_tts e (take n str))"

definition permitted_cut :: "text_env \<Rightarrow> chunker \<Rightarrow> utext \<Rightarrow> nat \<Rightarrow> bool" where
  "permitted_cut e s str n \<longleftrightarrow> 0 < n \<and> n \<le> length str \<and>
     (is_hard (config s) (str ! (n - 1)) \<or>
      is_soft (config s) (str ! (n - 1)) \<and>
        (allow_soft_breaks (window s) \<or> soft_break_overflow_only (window s) \<and> seen e str n \<ge> max_chars (window s))) \<and>
     (seen e str n \<ge> min_chars (window s) \<or>
      is_hard (config s) (str ! (n - 1)) \<and> seen e str n \<ge> short_hard_min_chars (config s) \<and> finished e str n)"

definition cut_value :: "text_env \<Rightarrow> chunker \<Rightarrow> utext \<Rightarrow> nat \<Rightarrow> int" where
  "cut_value e s str n =
     (if is_hard (config s) (str ! (n - 1)) then 100 else 55) - \<bar>seen e str n - target_chars (window s)\<bar>
     - (if seen e str n > max_chars (window s) then 20 else 0)
     - (if finished e str n then 0 else candidate_unstable_penalty (config s))
     + (if has_natural_end e (clean_tts e (take n str)) then natural_end_bonus (config s) else 0)"

definition near_break :: "text_env \<Rightarrow> chunker \<Rightarrow> utext \<Rightarrow> nat \<Rightarrow> nat \<Rightarrow> bool" where
  "near_break e s str best n \<longleftrightarrow> best < n \<and> n \<le> length str \<and> is_hard (config s) (str ! (n - 1)) \<and>
     seen e str n \<le> max_chars (window s) \<and> seen e str n - seen e str best \<le> hard_break_grace_chars (config s) \<and>
     finished e str n"

lemma cut_score_value: "0 < n \<Longrightarrow> n \<le> length str \<Longrightarrow> cut_score e (config s) (window s) str (n - 1) =
    (if permitted_cut e s str n then Some (cut_value e s str n) else None)"
  by (auto simp: cut_score_def Let_def permitted_cut_def cut_value_def seen_def finished_def)

lemma graced_near: "i < length str \<Longrightarrow> graced e (config s) (window s) str best i = near_break e s str best (i + 1)"
  by (auto simp: graced_def near_break_def seen_def finished_def Let_def)

lemma find_graced:
  "(case find (graced e (config s) (window s) str best) [0..<length str] of Some i \<Rightarrow> Some (i + 1) | None \<Rightarrow> Some best) = Some n \<Longrightarrow>
     n = best \<and> (\<forall>k. \<not> near_break e s str best k) \<or>
     near_break e s str best n \<and> (\<forall>k < n. \<not> near_break e s str best k)"
proof (cases "find (graced e (config s) (window s) str best) [0..<length str]")
  case None
  assume "(case find (graced e (config s) (window s) str best) [0..<length str] of
    Some i \<Rightarrow> Some (i + 1) | None \<Rightarrow> Some best) = Some n"
  then have "n = best" using None by simp
  moreover have "\<not> near_break e s str best k" for k
  proof
    assume k: "near_break e s str best k"
    then have "k - 1 < length str" "k - 1 + 1 = k" by (auto simp: near_break_def)
    with k None graced_near [of "k - 1" str e s best] show False by (auto simp: find_None_iff)
  qed
  ultimately show ?thesis by simp
next
  case (Some i)
  assume "(case find (graced e (config s) (window s) str best) [0..<length str] of
    Some i \<Rightarrow> Some (i + 1) | None \<Rightarrow> Some best) = Some n"
  then have n: "n = i + 1" using Some by simp
  have i: "i < length str" "graced e (config s) (window s) str best i"
    "\<forall>j < i. \<not> graced e (config s) (window s) str best j"
    using Some by (auto simp: find_Some_iff)
  have "\<not> near_break e s str best k" if "k < n" for k
  proof
    assume k: "near_break e s str best k"
    then have "k - 1 < i" "k - 1 + 1 = k" using that n by (auto simp: near_break_def)
    with k i graced_near [of "k - 1" str e s best] show False by auto
  qed
  with i n graced_near [of i str e s best] show ?thesis by simp
qed

lemma no_permitted_cut:
  assumes "best_cut e (config s) (window s) str = None" and "permitted_cut e s str m"
  shows "cut_value e s str m \<le> - (10 ^ 9)"
proof -
  have m: "0 < m" "m \<le> length str" using assms(2) by (simp_all add: permitted_cut_def)
  then show ?thesis using best_cut_best [of e "config s" "window s" str] assms cut_score_value [OF m, of e s]
    by (auto simp: is_best_def dest!: spec [of _ "m - 1"])
qed

lemma best_permitted_cut:
  assumes "best_cut e (config s) (window s) str = Some (best, sc)"
  shows "permitted_cut e s str best \<and> cut_value e s str best > - (10 ^ 9) \<and>
    (\<forall>m. permitted_cut e s str m \<longrightarrow> cut_value e s str m \<le> cut_value e s str best \<and>
       (m < best \<longrightarrow> cut_value e s str m < cut_value e s str best))"
proof -
  have b: "0 < best" "best \<le> length str" "cut_score e (config s) (window s) str (best - 1) = Some sc" "sc > - (10 ^ 9)"
    "\<And>i c. i < length str \<Longrightarrow> cut_score e (config s) (window s) str i = Some c \<Longrightarrow> c \<le> sc \<and> (i + 1 < best \<longrightarrow> c < sc)"
    using best_cut_best [of e "config s" "window s" str] assms by (auto simp: is_best_def)
  then have p: "permitted_cut e s str best" "cut_value e s str best = sc"
    using cut_score_value [OF b(1,2), of e s] by (auto split: if_splits)
  have "cut_value e s str m \<le> sc \<and> (m < best \<longrightarrow> cut_value e s str m < sc)" if "permitted_cut e s str m" for m
  proof -
    have m: "0 < m" "m \<le> length str" using that by (simp_all add: permitted_cut_def)
    then show ?thesis using b(5) [of "m - 1" "cut_value e s str m"] cut_score_value [OF m, of e s] that by simp
  qed
  with p b(4) show ?thesis by simp
qed

text \<open>
  C32. Where the answer is cut. A permitted cut lies behind a sentence break, or behind a
  comma-like break that the window allows, and has the window's minimum of visible characters
  before it, or is a finished sentence of at least the short minimum. The best cut is the first
  permitted one of highest value. If it is a sentence break, it is taken. If not, the first
  finished sentence break behind it is taken that fits the window and adds no more visible
  characters than the grace allows, and the best cut itself when there is none. A text without a
  permitted cut is not cut, unless the configuration forces cuts (the default does not) and the
  text is as long as the window.
\<close>

theorem dispatch_point_spec:
  "case find_dispatch_point e s str of
     None \<Rightarrow> u_strip str = [] \<or> (\<forall>m. permitted_cut e s str m \<longrightarrow> cut_value e s str m \<le> - (10 ^ 9))
   | Some n \<Rightarrow>
       (\<exists>best. permitted_cut e s str best \<and> cut_value e s str best > - (10 ^ 9) \<and>
          (\<forall>m. permitted_cut e s str m \<longrightarrow> cut_value e s str m \<le> cut_value e s str best \<and>
             (m < best \<longrightarrow> cut_value e s str m < cut_value e s str best)) \<and>
          (if is_hard (config s) (str ! (best - 1)) then n = best
           else n = best \<and> (\<forall>k. \<not> near_break e s str best k) \<or>
             near_break e s str best n \<and> (\<forall>k < n. \<not> near_break e s str best k))) \<or>
       allow_forced_cuts (config s) \<and> visible_len str \<ge> max_chars (window s) \<and>
         (\<forall>m. permitted_cut e s str m \<longrightarrow> cut_value e s str m \<le> - (10 ^ 9)) \<and>
         n = find_forced_cut (config s) str (max_chars (window s)) \<and> finished e str n \<and> clean_tts e (take n str) \<noteq> []"
proof (cases "u_strip str = []")
  case True
  then show ?thesis by (simp add: find_dispatch_point_def)
next
  case False
  show ?thesis
  proof (cases "best_cut e (config s) (window s) str")
    case None
    then show ?thesis using False no_permitted_cut [OF None]
      by (auto simp: find_dispatch_point_def Let_def finished_def)
  next
    case (Some p)
    obtain best sc where p: "p = (best, sc)" by fastforce
    have b: "best_cut e (config s) (window s) str = Some (best, sc)" using Some p by simp
    define r where "r = (case find (graced e (config s) (window s) str best) [0..<length str] of
      Some i \<Rightarrow> Some (i + 1) | None \<Rightarrow> Some best)"
    have "find_dispatch_point e s str = (if is_hard (config s) (str ! (best - 1)) then Some best else r)"
      using False b by (simp add: find_dispatch_point_def Let_def r_def cong: option.case_cong)
    moreover obtain n where "r = Some n"
      by (cases "find (graced e (config s) (window s) str best) [0..<length str]") (simp_all add: r_def)
    moreover from this have "n = best \<and> (\<forall>k. \<not> near_break e s str best k) \<or>
        near_break e s str best n \<and> (\<forall>k < n. \<not> near_break e s str best k)"
      unfolding r_def by (rule find_graced)
    ultimately show ?thesis using best_permitted_cut [OF b] by auto
  qed
qed

lemma sentence_cut: "find_dispatch_point plain_env (new_chunker False) sentence = Some 4"
  by code_simp

theorem dispatch_point_spec_witness:
  "\<exists>best. permitted_cut plain_env (new_chunker False) sentence best \<and>
     (best = 4 \<or> near_break plain_env (new_chunker False) sentence best 4)"
proof -
  have f: "\<not> allow_forced_cuts (config (new_chunker False))" by (simp add: new_chunker_def default_config_def)
  show ?thesis
    using dispatch_point_spec [where e = plain_env and s = "new_chunker False" and str = sentence] f
    by (auto simp: sentence_cut split: if_splits)
qed

end
