(* ===== verification/Speech_Gate.thy ===== *)
theory Speech_Gate
  imports Speech_Chunker
begin

text \<open>
  \<open>evelyn_core/tts_playback.py\<close>: \<open>SpeechCommitGate\<close>, which hands pieces of an answer to speech
  while the model still writes it, so that what was spoken stays a prefix of the final answer.

  The record \<open>gate\<close> is the object. The parameter \<open>gate_env\<close> holds the cleaning functions, the two
  callbacks (their answers are numbered by the counter \<open>asked\<close>; an exception in a callback counts
  as a refusal, as the code catches it) and SHA-256 in hexadecimal of the UTF-8 bytes of a text.
  A text with a surrogate code point has no UTF-8 encoding and raises. An operation returns \<open>Inl\<close>
  of an exception or \<open>Inr\<close> of its result, and the object it leaves behind.
\<close>

section \<open>The gate\<close>

datatype gate_error = Contract_Error string | Value_Error string | Unicode_Encode_Error

record 'g gate_env =
  texts :: text_env
  generation_is_current :: "'g \<Rightarrow> nat \<Rightarrow> bool"
  commit_allowed :: "(nat \<Rightarrow> bool) option"
  sha_hex :: "utext \<Rightarrow> string"

record 'g speech_commit =
  c_turn_id :: utext
  c_response_generation :: 'g
  c_prefix_index :: nat
  c_prefix_hash :: string
  c_text :: utext

record 'g gate =
  turn_id :: utext
  response_generation :: 'g
  memory_bound :: bool
  gate_chunker :: chunker
  safe_stream :: utext
  pending :: utext
  committed_prefix :: utext
  next_prefix_index :: nat
  final_text :: "utext option"
  closed :: bool
  stale :: bool
  asked :: nat

definition new_gate :: "'g gate_env \<Rightarrow> utext \<Rightarrow> 'g option \<Rightarrow> bool \<Rightarrow> gate_error + 'g gate" where
  "new_gate e turn gen bound =
     (if u_clean turn = [] then Inl (Value_Error ''speech commit turn_id is required'')
      else case gen of
        None \<Rightarrow> Inl (Value_Error ''speech commit response_generation is required'')
      | Some g \<Rightarrow>
          if bound \<and> commit_allowed e = None
          then Inl (Value_Error ''memory-bound speech requires an explicit handoff barrier'')
          else Inr \<lparr>turn_id = u_clean turn, response_generation = g, memory_bound = bound,
                 gate_chunker = new_chunker False, safe_stream = [], pending = [], committed_prefix = [],
                 next_prefix_index = 0, final_text = None, closed = False, stale = False, asked = 0\<rparr>)"

definition canonical :: "'g gate_env \<Rightarrow> utext \<Rightarrow> utext" where
  "canonical e s = u_clean (strip_tags (texts e) (clean_tts (texts e) s))"

definition current :: "'g gate_env \<Rightarrow> 'g gate \<Rightarrow> bool \<times> 'g gate" where
  "current e s = (generation_is_current e (response_generation s) (asked s), s\<lparr>asked := asked s + 1\<rparr>)"

definition allowed :: "'g gate_env \<Rightarrow> 'g gate \<Rightarrow> bool \<times> 'g gate" where
  "allowed e s =
     (case commit_allowed e of None \<Rightarrow> (True, s) | Some f \<Rightarrow> (f (asked s), s\<lparr>asked := asked s + 1\<rparr>))"

definition invalidate :: "'g gate \<Rightarrow> 'g gate" where
  "invalidate s =
     s\<lparr>stale := True, closed := True, pending := [], gate_chunker := (gate_chunker s)\<lparr>buf := []\<rparr>\<rparr>"

definition encodable :: "utext \<Rightarrow> bool" where
  "encodable s = list_all (\<lambda>c. \<not> (55296 \<le> c \<and> c \<le> 57343)) s"

definition extended :: "'g gate_env \<Rightarrow> utext \<Rightarrow> utext \<Rightarrow> utext" where
  "extended e p chunk = u_clean (p @ [32] @ canonical e chunk)"

fun bind_loop :: "'g gate_env \<Rightarrow> utext \<Rightarrow> utext list \<Rightarrow> 'g speech_commit list \<Rightarrow> 'g gate \<Rightarrow>
    (gate_error + 'g speech_commit list) \<times> 'g gate" where
  "bind_loop e source [] commits s = (Inr commits, s)"
| "bind_loop e source (t # ts) commits s =
     (let (cur, s1) = current e s in
      if \<not> cur then (Inr commits, invalidate s1)
      else
        let speech = clean_tts (texts e) t in
        if canonical e speech = [] then bind_loop e source ts commits s1
        else
          let candidate = extended e (committed_prefix s1) speech in
          if \<not> prefix candidate source
          then (Inl (Contract_Error ''speech candidate is not a safe output prefix''), s1)
          else if \<not> encodable candidate then (Inl Unicode_Encode_Error, s1)
          else
            bind_loop e source ts
              (commits @ [\<lparr>c_turn_id = turn_id s1, c_response_generation = response_generation s1,
                 c_prefix_index = next_prefix_index s1, c_prefix_hash = sha_hex e candidate, c_text = speech\<rparr>])
              (s1\<lparr>committed_prefix := candidate, next_prefix_index := next_prefix_index s1 + 1\<rparr>))"

definition bind_chunks :: "'g gate_env \<Rightarrow> utext list \<Rightarrow> utext option \<Rightarrow> 'g gate \<Rightarrow>
    (gate_error + 'g speech_commit list) \<times> 'g gate" where
  "bind_chunks e chunks final s =
     bind_loop e (canonical e (case final of None \<Rightarrow> safe_stream s | Some f \<Rightarrow> f)) chunks [] s"

definition closed_error :: gate_error where
  "closed_error = Contract_Error ''speech commit gate is closed''"

definition gate_push :: "'g gate_env \<Rightarrow> utext \<Rightarrow> 'g gate \<Rightarrow> (gate_error + 'g speech_commit list) \<times> 'g gate" where
  "gate_push e delta s =
     (if closed s then (Inl closed_error, s)
      else
        let (cur, s1) = current e (s\<lparr>safe_stream := safe_stream s @ delta, pending := pending s @ delta\<rparr>) in
        if \<not> cur then (Inr [], invalidate s1)
        else if memory_bound s1 then (Inr [], s1)
        else
          let (ok, s2) = allowed e s1 in
          if \<not> ok then (Inr [], s2)
          else
            let (chunks, ch) = chunker_push (texts e) (pending s2) None (gate_chunker s2)
            in bind_chunks e chunks None (s2\<lparr>pending := [], gate_chunker := ch\<rparr>))"

definition observe_safe_delta :: "'g gate_env \<Rightarrow> utext \<Rightarrow> 'g gate \<Rightarrow> (gate_error + bool) \<times> 'g gate" where
  "observe_safe_delta e delta s =
     (if closed s then (Inl closed_error, s)
      else
        let (cur, s1) = current e s in
        if \<not> cur then (Inr False, invalidate s1)
        else if canonical e delta = [] then (Inr True, s1)
        else (Inr True, s1\<lparr>safe_stream := u_clean (safe_stream s1 @ [32] @ canonical e delta)\<rparr>))"

definition commit_candidate :: "'g gate_env \<Rightarrow> utext \<Rightarrow> 'g gate \<Rightarrow> (gate_error + 'g speech_commit list) \<times> 'g gate" where
  "commit_candidate e chunk s =
     (if closed s then (Inl closed_error, s)
      else
        let (cur, s1) = current e s in
        if \<not> cur then (Inr [], invalidate s1)
        else
          let (ok, s2) = allowed e s1 in
          if \<not> ok then (Inr [], s2)
          else if clean_tts (texts e) chunk = [] then (Inr [], s2)
          else bind_chunks e [clean_tts (texts e) chunk] None s2)"

definition prefix_error :: gate_error where
  "prefix_error = Contract_Error ''committed speech is not an immutable final prefix''"

definition validate_final :: "'g gate_env \<Rightarrow> utext \<Rightarrow> 'g gate \<Rightarrow> (gate_error + unit) \<times> 'g gate" where
  "validate_final e final s =
     (if closed s then (if final_text s = Some final then Inr () else Inl closed_error, s)
      else
        let (cur, s1) = current e s in
        if \<not> cur then (Inl (Contract_Error ''speech response generation is stale''), invalidate s1)
        else
          let (ok, s2) = allowed e s1 in
          if \<not> ok then (Inl (Contract_Error ''speech final validation is not authorized''), s2)
          else if final_text s2 \<noteq> None \<and> final_text s2 \<noteq> Some final
          then (Inl (Contract_Error ''speech final text changed''), s2)
          else
            let s3 = s2\<lparr>final_text := Some final\<rparr> in
            if \<not> prefix (committed_prefix s3) (canonical e final) then (Inl prefix_error, s3)
            else (Inr (), s3\<lparr>closed := True\<rparr>))"

definition gate_finish :: "'g gate_env \<Rightarrow> utext \<Rightarrow> 'g gate \<Rightarrow> (gate_error + 'g speech_commit list) \<times> 'g gate" where
  "gate_finish e final s =
     (if closed s then (Inr [], s)
      else if final_text s \<noteq> None \<and> final_text s \<noteq> Some final
      then (Inl (Contract_Error ''speech final text changed''), s)
      else
        let (cur, s1) = current e (s\<lparr>final_text := Some final\<rparr>) in
        if \<not> cur then (Inr [], invalidate s1)
        else
          let (ok, s2) = allowed e s1 in
          if \<not> ok then (Inr [], s2)
          else if \<not> prefix (committed_prefix s2) (canonical e final) then (Inl prefix_error, s2)
          else
            let (chunks, ch) =
                  (if memory_bound s2 then chunker_push (texts e) final None ((gate_chunker s2)\<lparr>buf := []\<rparr>)
                   else chunker_push (texts e) (pending s2) None (gate_chunker s2));
                (rest, ch') = chunker_flush (texts e) ch
            in case bind_chunks e (chunks @ rest) (Some final) (s2\<lparr>pending := [], gate_chunker := ch'\<rparr>) of
                 (Inl x, s3) \<Rightarrow> (Inl x, s3)
               | (Inr commits, s3) \<Rightarrow> (Inr commits, s3\<lparr>closed := True\<rparr>))"

definition gate_cancel :: "'g gate \<Rightarrow> 'g gate" where
  "gate_cancel s = invalidate s"

section \<open>What a call delivers\<close>

text \<open>The prefix after each delivered piece, and the commits a call makes from the prefix \<open>p\<close>.\<close>

fun chain_ok :: "'g gate_env \<Rightarrow> utext \<Rightarrow> 'g \<Rightarrow> nat \<Rightarrow> utext \<Rightarrow> 'g speech_commit list \<Rightarrow> utext \<Rightarrow> bool" where
  "chain_ok e turn g n p [] q = (q = p)"
| "chain_ok e turn g n p (c # cs) q =
     (c_turn_id c = turn \<and> c_response_generation c = g \<and> c_prefix_index c = n \<and>
      canonical e (c_text c) \<noteq> [] \<and> c_prefix_hash c = sha_hex e (extended e p (c_text c)) \<and>
      chain_ok e turn g (n + 1) (extended e p (c_text c)) cs q)"

lemma chain_append:
  "chain_ok e turn g n p (cs @ ds) r \<longleftrightarrow>
     (\<exists>q. chain_ok e turn g n p cs q \<and> chain_ok e turn g (n + length cs) q ds r)"
  by (induction cs arbitrary: n p) auto

lemma neat_canonical [simp]: "neat (canonical e s)"
  by (simp add: canonical_def)

lemma neat_extended [simp]: "neat (extended e p s)"
  by (simp add: extended_def)

lemma prefix_extended: "neat p \<Longrightarrow> prefix p (extended e p s)"
  by (simp add: extended_def prefix_clean_join [of p "canonical e s", simplified])

lemma chain_prefix: "chain_ok e turn g n p cs q \<Longrightarrow> neat p \<Longrightarrow> prefix p q \<and> neat q"
proof (induction cs arbitrary: n p)
  case (Cons c cs)
  then have "prefix (extended e p (c_text c)) q \<and> neat q"
    using Cons.IH [of "n + 1" "extended e p (c_text c)"] by simp
  with prefix_extended [OF Cons.prems(2), of e "c_text c"] show ?case
    using prefix_order.order_trans by blast
qed simp

text \<open>The fields a call of \<open>bind_loop\<close> leaves alone.\<close>

lemma current_simps [simp]:
  "fst (current e s) = generation_is_current e (response_generation s) (asked s)"
  "snd (current e s) = s\<lparr>asked := asked s + 1\<rparr>"
  by (simp_all add: current_def)

lemma allowed_view:
  "\<exists>n. snd (allowed e s) = s\<lparr>asked := n\<rparr>"
  by (auto simp: allowed_def intro: exI [of _ "asked s"] split: option.split)

lemma bind_loop_spec:
  assumes "bind_loop e source ts commits s = (r, s')" and "neat (committed_prefix s)"
  shows "turn_id s' = turn_id s \<and> response_generation s' = response_generation s \<and>
    memory_bound s' = memory_bound s \<and> safe_stream s' = safe_stream s \<and> final_text s' = final_text s \<and>
    (stale s' \<longrightarrow> stale s \<or> closed s') \<and> (closed s \<longrightarrow> closed s') \<and> (closed s' \<and> \<not> closed s \<longrightarrow> stale s') \<and> (stale s \<longrightarrow> stale s') \<and>
    (prefix (committed_prefix s) source \<longrightarrow> prefix (committed_prefix s') source) \<and>
    (\<exists>cs. chain_ok e (turn_id s) (response_generation s) (next_prefix_index s) (committed_prefix s) cs (committed_prefix s') \<and>
       next_prefix_index s' = next_prefix_index s + length cs \<and>
       (cs \<noteq> [] \<longrightarrow> prefix (committed_prefix s') source) \<and>
       (\<forall>out. r = Inr out \<longrightarrow> out = commits @ cs))"
  using assms
proof (induction ts arbitrary: commits s)
  case Nil
  then show ?case by (auto intro!: exI [of _ "[]"])
next
  case (Cons t ts)
  let ?s1 = "s\<lparr>asked := asked s + 1\<rparr>"
  let ?speech = "clean_tts (texts e) t"
  let ?cand = "extended e (committed_prefix s) ?speech"
  have split: "current e s = (generation_is_current e (response_generation s) (asked s), ?s1)"
    by (simp add: current_def)
  show ?case
  proof (cases "generation_is_current e (response_generation s) (asked s)")
    case False
    with Cons.prems show ?thesis
      by (auto simp: split invalidate_def intro!: exI [of _ "[]"])
  next
    case cur: True
    show ?thesis
    proof (cases "canonical e ?speech = []")
      case True
      then have "bind_loop e source ts commits ?s1 = (r, s')" using Cons.prems cur by (simp add: split)
      from Cons.IH [OF this] Cons.prems(2) show ?thesis by simp
    next
      case vis: False
      show ?thesis
      proof (cases "prefix ?cand source \<and> encodable ?cand")
        case False
        then have "s' = ?s1" "\<exists>x. r = Inl x" using Cons.prems cur vis by (auto simp: split Let_def split: if_splits)
        then show ?thesis by (auto intro!: exI [of _ "[]"])
      next
        case ok: True
        let ?c = "\<lparr>c_turn_id = turn_id s, c_response_generation = response_generation s,
                 c_prefix_index = next_prefix_index s, c_prefix_hash = sha_hex e ?cand, c_text = ?speech\<rparr>"
        let ?s2 = "?s1\<lparr>committed_prefix := ?cand, next_prefix_index := next_prefix_index s + 1\<rparr>"
        have run: "bind_loop e source ts (commits @ [?c]) ?s2 = (r, s')"
          using Cons.prems cur vis ok by (simp add: split Let_def)
        from Cons.IH [OF this] obtain cs where
          cs: "chain_ok e (turn_id s) (response_generation s) (next_prefix_index s + 1) ?cand cs (committed_prefix s')"
            "next_prefix_index s' = next_prefix_index s + 1 + length cs"
            "\<forall>out. r = Inr out \<longrightarrow> out = (commits @ [?c]) @ cs"
          and rest: "turn_id s' = turn_id s \<and> response_generation s' = response_generation s \<and>
    memory_bound s' = memory_bound s \<and> safe_stream s' = safe_stream s \<and> final_text s' = final_text s \<and>
    (stale s' \<longrightarrow> stale s \<or> closed s') \<and> (closed s \<longrightarrow> closed s') \<and> (closed s' \<and> \<not> closed s \<longrightarrow> stale s') \<and> (stale s \<longrightarrow> stale s')"
            "prefix (committed_prefix s') source"
          using ok by auto
        show ?thesis using cs rest vis
          by (intro conjI exI [of _ "?c # cs"]) auto
      qed
    qed
  qed
qed

section \<open>Runs of a gate\<close>

datatype gate_op = Push utext | Observe utext | Candidate utext | Validate utext | Finish utext | Cancel

definition delivered :: "(gate_error + 'g speech_commit list) \<times> 'g gate \<Rightarrow> 'g speech_commit list \<times> 'g gate" where
  "delivered p = (case fst p of Inl _ \<Rightarrow> [] | Inr cs \<Rightarrow> cs, snd p)"

text \<open>One call: the commits its caller gets (none when it raises) and the object after it.\<close>

fun gate_call :: "'g gate_env \<Rightarrow> 'g gate \<Rightarrow> gate_op \<Rightarrow> 'g speech_commit list \<times> 'g gate" where
  "gate_call e s (Push d) = delivered (gate_push e d s)"
| "gate_call e s (Observe d) = ([], snd (observe_safe_delta e d s))"
| "gate_call e s (Candidate t) = delivered (commit_candidate e t s)"
| "gate_call e s (Validate f) = ([], snd (validate_final e f s))"
| "gate_call e s (Finish f) = delivered (gate_finish e f s)"
| "gate_call e s Cancel = ([], gate_cancel s)"

definition final_ok :: "'g gate_env \<Rightarrow> 'g gate \<Rightarrow> bool" where
  "final_ok e s \<longleftrightarrow> (stale s \<longrightarrow> closed s) \<and>
     (closed s \<and> \<not> stale s \<longrightarrow> (\<exists>f. final_text s = Some f \<and> prefix (committed_prefix s) (canonical e f)))"

text \<open>What every call keeps, for the pieces \<open>cs\<close> by which it moves the committed prefix on.\<close>

definition moves :: "'g gate_env \<Rightarrow> 'g gate \<Rightarrow> 'g speech_commit list \<Rightarrow> 'g speech_commit list \<Rightarrow> 'g gate \<Rightarrow> bool" where
  "moves e s out cs s' \<longleftrightarrow>
     chain_ok e (turn_id s) (response_generation s) (next_prefix_index s) (committed_prefix s) cs (committed_prefix s') \<and>
     next_prefix_index s' = next_prefix_index s + length cs \<and> (out = cs \<or> out = []) \<and>
     turn_id s' = turn_id s \<and> response_generation s' = response_generation s \<and> memory_bound s' = memory_bound s \<and>
     (closed s \<longrightarrow> closed s' \<and> cs = []) \<and> (stale s \<longrightarrow> stale s') \<and> (final_ok e s \<longrightarrow> final_ok e s')"

lemma moves_still:
  "committed_prefix s' = committed_prefix s \<Longrightarrow> next_prefix_index s' = next_prefix_index s \<Longrightarrow> turn_id s' = turn_id s \<Longrightarrow>
   response_generation s' = response_generation s \<Longrightarrow> memory_bound s' = memory_bound s \<Longrightarrow>
   closed s \<longrightarrow> closed s' \<Longrightarrow> stale s \<longrightarrow> stale s' \<Longrightarrow> final_ok e s \<longrightarrow> final_ok e s' \<Longrightarrow> moves e s [] [] s'"
  by (simp add: moves_def)

lemma final_ok_open: "\<not> closed s \<Longrightarrow> \<not> stale s \<Longrightarrow> final_ok e s"
  by (simp add: final_ok_def)

lemma final_ok_stale: "stale s \<Longrightarrow> closed s \<Longrightarrow> final_ok e s"
  by (simp add: final_ok_def)

lemma moves_invalidate:
  assumes "committed_prefix s1 = committed_prefix s" "next_prefix_index s1 = next_prefix_index s" "turn_id s1 = turn_id s"
    "response_generation s1 = response_generation s" "memory_bound s1 = memory_bound s"
  shows "moves e s [] [] (invalidate s1)"
  by (rule moves_still) (use assms in \<open>simp_all add: invalidate_def final_ok_stale\<close>)

lemma moves_bind:
  assumes run: "bind_chunks e ts fin s3 = (r, s')" and neat: "neat (committed_prefix s)"
    and same: "committed_prefix s3 = committed_prefix s" "next_prefix_index s3 = next_prefix_index s"
      "turn_id s3 = turn_id s" "response_generation s3 = response_generation s" "memory_bound s3 = memory_bound s"
      "closed s3 = closed s" "stale s3 = stale s"
    and opn: "\<not> closed s"
  shows "\<exists>cs. moves e s (fst (delivered (r, s'))) cs s'"
proof -
  let ?src = "canonical e (case fin of None \<Rightarrow> safe_stream s3 | Some f \<Rightarrow> f)"
  have loop: "bind_loop e ?src ts [] s3 = (r, s')" using run by (simp add: bind_chunks_def)
  have n3: "neat (committed_prefix s3)" using neat same by simp
  from bind_loop_spec [OF loop n3] obtain cs where cs:
    "chain_ok e (turn_id s) (response_generation s) (next_prefix_index s) (committed_prefix s) cs (committed_prefix s')"
    "next_prefix_index s' = next_prefix_index s + length cs" "\<forall>out. r = Inr out \<longrightarrow> out = cs"
    and keep: "turn_id s' = turn_id s" "response_generation s' = response_generation s" "memory_bound s' = memory_bound s"
    "closed s' \<longrightarrow> stale s'" "stale s' \<longrightarrow> stale s \<or> closed s'" "stale s \<longrightarrow> stale s'"
    using same opn by auto
  have "final_ok e s \<longrightarrow> final_ok e s'" using keep(4,5) opn by (auto simp: final_ok_def)
  with cs keep opn show ?thesis
    by (intro exI [of _ cs]) (auto simp: moves_def delivered_def split: sum.split)
qed

lemma allowed_cases:
  obtains ok n where "allowed e s = (ok, s\<lparr>asked := n\<rparr>)"
  using allowed_view [of e s] by (metis prod.collapse)

lemma push_moves:
  assumes "neat (committed_prefix s)"
  shows "\<exists>cs. moves e s (fst (gate_call e s (Push d))) cs (snd (gate_call e s (Push d)))"
proof (cases "closed s")
  case True
  then show ?thesis
    by (intro exI [of _ "[]"]) (simp add: gate_push_def delivered_def moves_def)
next
  case False
  define s1 where "s1 = s\<lparr>safe_stream := safe_stream s @ d, pending := pending s @ d, asked := asked s + 1\<rparr>"
  have cur: "current e (s\<lparr>safe_stream := safe_stream s @ d, pending := pending s @ d\<rparr>)
      = (generation_is_current e (response_generation s) (asked s), s1)"
    by (simp add: current_def s1_def)
  obtain ok n where al: "allowed e s1 = (ok, s1\<lparr>asked := n\<rparr>)" by (rule allowed_cases)
  have quiet: "moves e s [] [] (s1\<lparr>asked := n\<rparr>)" "moves e s [] [] s1"
    by (rule moves_still; simp add: s1_def final_ok_def)+
  have gone: "moves e s [] [] (invalidate s1)" by (rule moves_invalidate) (simp_all add: s1_def)
  obtain chunks ch where ch: "chunker_push (texts e) (pending s1) None (gate_chunker s1) = (chunks, ch)"
    by fastforce
  obtain r s' where b: "bind_chunks e chunks None (s1\<lparr>asked := n, pending := [], gate_chunker := ch\<rparr>) = (r, s')"
    by fastforce
  have "\<exists>cs. moves e s (fst (delivered (r, s'))) cs s'"
    by (rule moves_bind [OF b assms]) (use False in \<open>simp_all add: s1_def\<close>)
  then show ?thesis using quiet gone False
    by (cases "generation_is_current e (response_generation s) (asked s)"; cases "memory_bound s1"; cases ok)
      (auto simp: gate_push_def cur al ch b Let_def delivered_def)
qed

lemma candidate_moves:
  assumes "neat (committed_prefix s)"
  shows "\<exists>cs. moves e s (fst (gate_call e s (Candidate t))) cs (snd (gate_call e s (Candidate t)))"
proof (cases "closed s")
  case True
  then show ?thesis
    by (intro exI [of _ "[]"]) (simp add: commit_candidate_def delivered_def moves_def)
next
  case False
  define s1 where "s1 = s\<lparr>asked := asked s + 1\<rparr>"
  have cur: "current e s = (generation_is_current e (response_generation s) (asked s), s1)"
    by (simp add: current_def s1_def)
  obtain ok n where al: "allowed e s1 = (ok, s1\<lparr>asked := n\<rparr>)" by (rule allowed_cases)
  have quiet: "moves e s [] [] (s1\<lparr>asked := n\<rparr>)" by (rule moves_still; simp add: s1_def final_ok_def)
  have gone: "moves e s [] [] (invalidate s1)" by (rule moves_invalidate) (simp_all add: s1_def)
  obtain r s' where b: "bind_chunks e [clean_tts (texts e) t] None (s1\<lparr>asked := n\<rparr>) = (r, s')"
    by fastforce
  have "\<exists>cs. moves e s (fst (delivered (r, s'))) cs s'"
    by (rule moves_bind [OF b assms]) (use False in \<open>simp_all add: s1_def\<close>)
  then show ?thesis using quiet gone False
    by (cases "generation_is_current e (response_generation s) (asked s)"; cases ok; cases "clean_tts (texts e) t = []")
      (auto simp: commit_candidate_def cur al b Let_def delivered_def)
qed

lemma observe_moves: "moves e s [] [] (snd (observe_safe_delta e d s))"
proof -
  have "moves e s [] [] (invalidate (s\<lparr>asked := asked s + 1\<rparr>))" by (rule moves_invalidate) simp_all
  moreover have "moves e s [] [] (s\<lparr>asked := asked s + 1, safe_stream := x\<rparr>)" "moves e s [] [] (s\<lparr>asked := asked s + 1\<rparr>)"
    "moves e s [] [] s" for x
    by (rule moves_still; simp add: final_ok_def)+
  ultimately show ?thesis by (simp add: observe_safe_delta_def current_def)
qed

lemma validate_moves: "moves e s [] [] (snd (validate_final e f s))"
proof (cases "closed s")
  case True
  have "moves e s [] [] s" by (rule moves_still) simp_all
  then show ?thesis using True by (simp add: validate_final_def)
next
  case False
  define s1 where "s1 = s\<lparr>asked := asked s + 1\<rparr>"
  have cur: "current e s = (generation_is_current e (response_generation s) (asked s), s1)"
    by (simp add: current_def s1_def)
  obtain ok n where al: "allowed e s1 = (ok, s1\<lparr>asked := n\<rparr>)" by (rule allowed_cases)
  have quiet: "moves e s [] [] (s1\<lparr>asked := n\<rparr>)" "moves e s [] [] (s1\<lparr>asked := n, final_text := Some f\<rparr>)"
    using False by (rule_tac moves_still; simp add: s1_def final_ok_def)+
  have gone: "moves e s [] [] (invalidate s1)" by (rule moves_invalidate) (simp_all add: s1_def)
  have fin: "moves e s [] [] (s1\<lparr>asked := n, final_text := Some f, closed := True\<rparr>)"
    if "prefix (committed_prefix s) (canonical e f)"
    by (rule moves_still) (use False that in \<open>simp_all add: s1_def final_ok_def\<close>)
  have "committed_prefix (s1\<lparr>asked := n, final_text := Some f\<rparr>) = committed_prefix s" by (simp add: s1_def)
  then show ?thesis using quiet gone False fin
    by (cases "generation_is_current e (response_generation s) (asked s)"; cases ok)
      (simp_all add: validate_final_def cur al Let_def)
qed

lemma finish_moves:
  assumes "neat (committed_prefix s)"
  shows "\<exists>cs. moves e s (fst (gate_call e s (Finish f))) cs (snd (gate_call e s (Finish f)))"
proof (cases "closed s \<or> final_text s \<noteq> None \<and> final_text s \<noteq> Some f")
  case True
  have "moves e s [] [] s" by (rule moves_still) simp_all
  with True show ?thesis by (auto simp: gate_finish_def delivered_def)
next
  case opn: False
  define s1 where "s1 = s\<lparr>final_text := Some f, asked := asked s + 1\<rparr>"
  have cur: "current e (s\<lparr>final_text := Some f\<rparr>) = (generation_is_current e (response_generation s) (asked s), s1)"
    by (simp add: current_def s1_def)
  obtain ok n where al: "allowed e s1 = (ok, s1\<lparr>asked := n\<rparr>)" by (rule allowed_cases)
  let ?s2 = "s1\<lparr>asked := n\<rparr>"
  have quiet: "moves e s [] [] ?s2" using opn by (rule_tac moves_still; simp add: s1_def final_ok_def)
  have gone: "moves e s [] [] (invalidate s1)" by (rule moves_invalidate) (simp_all add: s1_def)
  obtain chunks ch where ch: "(if memory_bound s1 then chunker_push (texts e) f None ((gate_chunker s1)\<lparr>buf := []\<rparr>)
                   else chunker_push (texts e) (pending s1) None (gate_chunker s1)) = (chunks, ch)" by fastforce
  have ch1: "memory_bound s1 \<Longrightarrow> chunker_push (texts e) f None ((gate_chunker s1)\<lparr>buf := []\<rparr>) = (chunks, ch)"
    and ch2: "\<not> memory_bound s1 \<Longrightarrow> chunker_push (texts e) (pending s1) None (gate_chunker s1) = (chunks, ch)"
    using ch by simp_all
  obtain rest ch' where fl: "chunker_flush (texts e) ch = (rest, ch')" by fastforce
  let ?s3 = "?s2\<lparr>pending := [], gate_chunker := ch'\<rparr>"
  obtain r s' where b: "bind_chunks e (chunks @ rest) (Some f) ?s3 = (r, s')" by fastforce
  have "\<exists>cs. moves e s (fst (delivered (r, s'))) cs s'"
    by (rule moves_bind [OF b assms]) (use opn in \<open>simp_all add: s1_def\<close>)
  then obtain cs where cs: "moves e s (fst (delivered (r, s'))) cs s'" by blast
  have loop: "bind_loop e (canonical e f) (chunks @ rest) [] ?s3 = (r, s')" using b by (simp add: bind_chunks_def)
  have spec: "final_text s' = Some f" "prefix (committed_prefix s) (canonical e f) \<longrightarrow> prefix (committed_prefix s') (canonical e f)"
    using bind_loop_spec [OF loop] assms by (simp_all add: s1_def)
  have shut: "moves e s (fst (delivered (r, s'))) cs (s'\<lparr>closed := True\<rparr>)"
    if "prefix (committed_prefix s) (canonical e f)"
    using cs spec that opn by (auto simp: moves_def final_ok_def)
  have "committed_prefix ?s2 = committed_prefix s" by (simp add: s1_def)
  then show ?thesis using quiet gone opn cs shut
    by (cases "generation_is_current e (response_generation s) (asked s)"; cases ok; cases r)
      (auto simp: gate_finish_def cur al ch1 ch2 fl b Let_def delivered_def)
qed

lemma gate_call_moves:
  assumes "neat (committed_prefix s)"
  shows "\<exists>cs. moves e s (fst (gate_call e s x)) cs (snd (gate_call e s x))"
proof (cases x)
  case (Push d)
  then show ?thesis using push_moves [OF assms] by (simp only:)
next
  case (Candidate t)
  then show ?thesis using candidate_moves [OF assms] by (simp only:)
next
  case (Finish f)
  then show ?thesis using finish_moves [OF assms] by (simp only:)
next
  case (Observe d)
  then show ?thesis using observe_moves by (auto intro: exI [of _ "[]"])
next
  case (Validate f)
  then show ?thesis using validate_moves by (auto intro: exI [of _ "[]"])
next
  case Cancel
  have "moves e s [] [] (invalidate s)" by (rule moves_invalidate) simp_all
  with Cancel show ?thesis by (auto simp: gate_cancel_def)
qed

text \<open>A run: the object and everything that was delivered, in order.\<close>

definition gate_step :: "'g gate_env \<Rightarrow> 'g gate \<times> 'g speech_commit list \<Rightarrow> gate_op \<Rightarrow> 'g gate \<times> 'g speech_commit list" where
  "gate_step e p x = (snd (gate_call e (fst p) x), snd p @ fst (gate_call e (fst p) x))"

definition gate_run :: "'g gate_env \<Rightarrow> 'g gate \<Rightarrow> gate_op list \<Rightarrow> 'g gate \<times> 'g speech_commit list" where
  "gate_run e s xs = foldl (gate_step e) (s, []) xs"

definition commit_ok :: "'g gate_env \<Rightarrow> 'g gate \<Rightarrow> 'g speech_commit \<Rightarrow> bool" where
  "commit_ok e s c \<longleftrightarrow>
     c_turn_id c = turn_id s \<and> c_response_generation c = response_generation s \<and>
     c_prefix_index c < next_prefix_index s \<and>
     (\<exists>p. c_prefix_hash c = sha_hex e (extended e p (c_text c)) \<and>
        prefix (extended e p (c_text c)) (committed_prefix s))"

definition speech_ok :: "'g gate_env \<Rightarrow> 'g gate \<times> 'g speech_commit list \<Rightarrow> bool" where
  "speech_ok e p \<longleftrightarrow> neat (committed_prefix (fst p)) \<and> final_ok e (fst p) \<and>
     sorted_wrt (<) (map c_prefix_index (snd p)) \<and> list_all (commit_ok e (fst p)) (snd p)"

lemma chain_commits:
  assumes "chain_ok e turn g n p cs q" "neat p"
  shows "sorted_wrt (<) (map c_prefix_index cs) \<and>
    list_all (\<lambda>c. c_turn_id c = turn \<and> c_response_generation c = g \<and> n \<le> c_prefix_index c \<and>
      c_prefix_index c < n + length cs \<and>
      (\<exists>r. c_prefix_hash c = sha_hex e (extended e r (c_text c)) \<and> prefix (extended e r (c_text c)) q)) cs"
  using assms
proof (induction cs arbitrary: n p)
  case (Cons c cs)
  have tl: "chain_ok e turn g (n + 1) (extended e p (c_text c)) cs q" using Cons.prems by simp
  have "prefix (extended e p (c_text c)) q" using chain_prefix [OF tl] by simp
  with Cons.IH [OF tl] Cons.prems show ?case by (fastforce simp: list_all_iff)
qed simp

lemma moves_speech_ok:
  assumes "moves e s out cs s'" "speech_ok e (s, spoken)"
  shows "speech_ok e (s', spoken @ out)"
proof -
  have chain: "chain_ok e (turn_id s) (response_generation s) (next_prefix_index s) (committed_prefix s) cs (committed_prefix s')"
    and m: "next_prefix_index s' = next_prefix_index s + length cs" "out = cs \<or> out = []" "turn_id s' = turn_id s"
      "response_generation s' = response_generation s" "final_ok e s'"
    using assms by (auto simp: moves_def speech_ok_def)
  have neat: "neat (committed_prefix s)" using assms(2) by (simp add: speech_ok_def)
  note pre = chain_prefix [OF chain neat]
  have old: "commit_ok e s' c" if "commit_ok e s c" for c
    using that m pre prefix_order.order_trans unfolding commit_ok_def by fastforce
  have new: "commit_ok e s' c" if "c \<in> set out" for c
    using that chain_commits [OF chain neat] m by (auto simp: list_all_iff commit_ok_def)
  have "sorted_wrt (<) (map c_prefix_index (spoken @ out))"
    using assms(2) chain_commits [OF chain neat] m(2)
    by (fastforce simp: speech_ok_def sorted_wrt_append list_all_iff commit_ok_def)
  with assms(2) pre old new m(5) show ?thesis by (auto simp: speech_ok_def list_all_iff)
qed

lemma speech_ok_step: "speech_ok e p \<Longrightarrow> speech_ok e (gate_step e p x)"
proof -
  assume ok: "speech_ok e p"
  then obtain cs where "moves e (fst p) (fst (gate_call e (fst p) x)) cs (snd (gate_call e (fst p) x))"
    using gate_call_moves unfolding speech_ok_def by blast
  from moves_speech_ok [OF this] ok show ?thesis by (simp add: gate_step_def)
qed

lemma closed_call: "closed s \<Longrightarrow> fst (gate_call e s x) = [] \<and> closed (snd (gate_call e s x)) \<and>
    committed_prefix (snd (gate_call e s x)) = committed_prefix s"
  by (cases x) (auto simp: delivered_def gate_push_def observe_safe_delta_def commit_candidate_def validate_final_def
      gate_finish_def gate_cancel_def invalidate_def)

interpretation gate: frozen_machine "gate_step e" "speech_ok e" "\<lambda>p. closed (fst p)"
    "\<lambda>p. (committed_prefix (fst p), snd p)" for e
  by unfold_locales (auto simp: closed_call gate_step_def intro: speech_ok_step [unfolded gate_step_def, simplified])

lemma new_gate_ok: "new_gate e turn gen bound = Inr s \<Longrightarrow> speech_ok e (s, [])"
  by (auto simp: new_gate_def speech_ok_def final_ok_def neat_def split: if_splits option.splits)

section \<open>Properties\<close>

definition demo_env :: "int gate_env" where
  "demo_env = \<lparr>texts = plain_env, generation_is_current = (\<lambda>g n. g = 7), commit_allowed = Some (\<lambda>n. True),
     sha_hex = (\<lambda>s. [])\<rparr>"

definition demo_gate :: "int gate" where
  "demo_gate = \<lparr>turn_id = [116], response_generation = 7, memory_bound = False,
     gate_chunker = new_chunker False, safe_stream = [], pending = [], committed_prefix = [],
     next_prefix_index = 0, final_text = None, closed = False, stale = False, asked = 0\<rparr>"

lemma demo_new: "new_gate demo_env [116] (Some 7) False = Inr demo_gate"
proof -
  have "u_clean [116] = [116]" by code_simp
  then show ?thesis by (simp add: new_gate_def demo_gate_def)
qed

lemma demo_push: "length (fst (gate_call demo_env demo_gate (Push sentence))) = 1"
  by code_simp

text \<open>
  C29. Speech only moves forward: in every run of a gate the delivered pieces carry its turn and
  generation and strictly increasing indices, and each carries the hash of a prefix that ends with
  that piece and is a prefix of everything committed so far. A gate that is closed without being
  stale has a final text that begins with all of it.
\<close>

theorem speech_only_moves_forward:
  assumes "new_gate e turn gen bound = Inr s0" and "gate_run e s0 xs = (s, spoken)"
  shows "sorted_wrt (<) (map c_prefix_index spoken) \<and>
    (\<forall>c \<in> set spoken. c_turn_id c = turn_id s \<and> c_response_generation c = response_generation s \<and>
       c_prefix_index c < next_prefix_index s \<and>
       (\<exists>p. c_prefix_hash c = sha_hex e (extended e p (c_text c)) \<and>
          prefix (extended e p (c_text c)) (committed_prefix s) \<and>
          (closed s \<and> \<not> stale s \<longrightarrow>
             (\<exists>f. final_text s = Some f \<and> prefix (extended e p (c_text c)) (canonical e f)))))"
proof -
  have ok: "speech_ok e (s, spoken)"
    using gate.inv_run [OF new_gate_ok [OF assms(1)], where xs = xs] assms(2) by (simp add: gate_run_def)
  have fin: "\<exists>f. final_text s = Some f \<and> prefix q (canonical e f)"
    if "prefix q (committed_prefix s)" "closed s \<and> \<not> stale s" for q
    using that ok prefix_order.order_trans unfolding speech_ok_def final_ok_def by fastforce
  have "commit_ok e s c" if "c \<in> set spoken" for c using ok that by (simp add: speech_ok_def list_all_iff)
  then show ?thesis using ok fin unfolding commit_ok_def speech_ok_def by fastforce
qed

theorem speech_only_moves_forward_witness:
  "\<exists>c. snd (gate_run demo_env demo_gate [Push sentence]) = [c] \<and> c_turn_id c = turn_id (fst (gate_run demo_env demo_gate [Push sentence]))
     \<and> c_response_generation c = response_generation (fst (gate_run demo_env demo_gate [Push sentence]))"
proof -
  obtain c where c: "snd (gate_run demo_env demo_gate [Push sentence]) = [c]"
    using demo_push by (auto simp: gate_run_def gate_step_def length_Suc_conv)
  from speech_only_moves_forward [OF demo_new, of "[Push sentence]"]
  have "\<forall>c \<in> set (snd (gate_run demo_env demo_gate [Push sentence])).
      c_turn_id c = turn_id (fst (gate_run demo_env demo_gate [Push sentence])) \<and>
      c_response_generation c = response_generation (fst (gate_run demo_env demo_gate [Push sentence]))"
    by (metis prod.collapse)
  with c show ?thesis by auto
qed

text \<open>
  A closed gate is silent: after a validated final answer, a finished one or a cancellation
  no call delivers anything, and what was committed stays as it is.
\<close>

theorem closed_gate_is_silent:
  assumes "closed s"
  shows "snd (gate_run e s xs) = [] \<and> closed (fst (gate_run e s xs)) \<and>
    committed_prefix (fst (gate_run e s xs)) = committed_prefix s \<and> closed (gate_cancel s')"
  using gate.view_run [where s = "(s, [])" and xs = xs and e = e] gate.latch_run [where s = "(s, [])" and xs = xs and e = e] assms
  by (simp add: gate_run_def gate_cancel_def invalidate_def)

theorem closed_gate_is_silent_witness:
  "snd (gate_run demo_env (gate_cancel demo_gate) [Push sentence, Finish sentence]) = []"
proof -
  have "closed (gate_cancel demo_gate)" by (simp add: gate_cancel_def invalidate_def)
  from closed_gate_is_silent [OF this, THEN conjunct1] show ?thesis .
qed

text \<open>
  C30. Nothing is delivered without permission: a call that delivers a piece found the gate open,
  the generation current and the hand-off barrier, if there is one, permitting; and a gate bound
  to memory delivers nothing while the answer streams through \<open>push\<close>.
\<close>

theorem delivery_is_permitted:
  assumes "fst (gate_call e s x) \<noteq> []"
  shows "\<not> closed s \<and> generation_is_current e (response_generation s) (asked s) \<and>
    (case commit_allowed e of None \<Rightarrow> True | Some f \<Rightarrow> f (asked s + 1)) \<and>
    (memory_bound s \<longrightarrow> (\<forall>d. x \<noteq> Push d))"
proof -
  have open_gate: "\<not> closed s" using assms closed_call by blast
  have cur: "generation_is_current e (response_generation s) (asked s)"
    using assms open_gate
    by (cases x) (auto simp: delivered_def gate_push_def commit_candidate_def gate_finish_def current_def split: if_splits)
  have ok: "case commit_allowed e of None \<Rightarrow> True | Some f \<Rightarrow> f (asked s + 1)"
    using assms open_gate cur
    by (cases x) (auto simp: delivered_def gate_push_def commit_candidate_def gate_finish_def current_def allowed_def Let_def
        split: if_splits option.splits)
  have "\<forall>d. x \<noteq> Push d" if "memory_bound s"
    using assms open_gate cur that by (auto simp: delivered_def gate_push_def current_def)
  with open_gate cur ok show ?thesis by blast
qed

theorem delivery_is_permitted_witness:
  "fst (gate_call demo_env demo_gate (Push sentence)) \<noteq> [] \<and> \<not> closed demo_gate \<and> \<not> memory_bound demo_gate"
proof -
  have "fst (gate_call demo_env demo_gate (Push sentence)) \<noteq> []" using demo_push by auto
  with delivery_is_permitted [OF this] show ?thesis by blast
qed

end
