(* ===== verification/Memory_Receipt.thy ===== *)
theory Memory_Receipt
  imports Py_Value "HOL-Library.Sublist" "HOL-Library.List_Lexorder" "HOL-Library.Char_ord"
begin

text \<open>
  \<open>evelyn_core/conversation_memory_receipt.py\<close>: which notes of the memory vault an answer was
  given, in a form without content. A compact reference says \<open>bound\<close> (to a version and a sorted
  list of note ids), \<open>not_used\<close> or \<open>unattributed\<close>; everything that cannot be attributed becomes
  \<open>unattributed\<close>.

  A reference is the record \<open>memory_ref\<close>; \<open>ref_value\<close> is the dictionary the code builds. The
  functions take untyped values. The test on one note id (\<open>memory_deletion_note_id_is_canonical\<close>
  of the deletion journal, a regular expression and a calendar date) is the parameter \<open>canon\<close>.
  The context variable is an explicit \<open>memory_ref option\<close>. Lower-casing is only compared with
  ASCII texts, so it is \<open>low\<close>.
\<close>

section \<open>References\<close>

datatype ref_state = Bound | Not_Used | Unattributed

fun ref_state_value :: "ref_state \<Rightarrow> string" where
  "ref_state_value Bound = ''bound''"
| "ref_state_value Not_Used = ''not_used''"
| "ref_state_value Unattributed = ''unattributed''"

definition ref_state_of :: "string \<Rightarrow> ref_state option" where
  "ref_state_of s =
     (if s = ''bound'' then Some Bound else if s = ''not_used'' then Some Not_Used
      else if s = ''unattributed'' then Some Unattributed else None)"

record memory_ref =
  r_state :: ref_state
  r_version :: int
  r_note_ids :: "string list"

definition ref_schema :: string where
  "ref_schema = ''conversation.memory-receipt-ref.v1''"

definition context_schema :: string where
  "context_schema = ''memory.context-receipt.v1''"

definition max_note_ids :: nat where
  "max_note_ids = 12"

definition ref_keys :: "string list" where
  "ref_keys = [''schema'', ''state'', ''memoryVersion'', ''suppliedNoteIds'', ''suppliedNoteCount'', ''contentFree'']"

definition version_of :: "pyval \<Rightarrow> int" where
  "version_of v = (case v of PInt i \<Rightarrow> if i \<ge> 0 then i else 0 | _ \<Rightarrow> 0)"

definition make_ref :: "ref_state \<Rightarrow> int \<Rightarrow> string list \<Rightarrow> memory_ref" where
  "make_ref st v ids = \<lparr>r_state = st, r_version = version_of (PInt v), r_note_ids = ids\<rparr>"

definition ref_value :: "memory_ref \<Rightarrow> pyval" where
  "ref_value r = PDict
     [(''schema'', PStr ref_schema), (''state'', PStr (ref_state_value (r_state r))), (''memoryVersion'', PInt (r_version r)),
      (''suppliedNoteIds'', PList (map PStr (r_note_ids r))), (''suppliedNoteCount'', PInt (int (length (r_note_ids r)))),
      (''contentFree'', PBool True)]"

definition not_used_ref :: "int \<Rightarrow> memory_ref" where
  "not_used_ref v = make_ref Not_Used v []"

definition unattributed_ref :: "int \<Rightarrow> memory_ref" where
  "unattributed_ref v = make_ref Unattributed v []"

fun str_of :: "pyval \<Rightarrow> string option" where
  "str_of (PStr s) = Some s"
| "str_of _ = None"

fun nat_int_of :: "pyval \<Rightarrow> int option" where
  "nat_int_of (PInt i) = (if i \<ge> 0 then Some i else None)"
| "nat_int_of _ = None"

text \<open>All elements are texts that pass the test.\<close>

definition id_list :: "(string \<Rightarrow> bool) \<Rightarrow> pyval \<Rightarrow> string list option" where
  "id_list canon v =
     (case v of
        PList l \<Rightarrow> if list_all (\<lambda>x. case str_of x of None \<Rightarrow> False | Some s \<Rightarrow> canon s) l
                   then Some (List.map_filter str_of l) else None
      | _ \<Rightarrow> None)"

definition sorted_distinct :: "string list \<Rightarrow> string list" where
  "sorted_distinct l = sort (remdups l)"

definition sanitize_ref :: "(string \<Rightarrow> bool) \<Rightarrow> pyval \<Rightarrow> memory_ref option" where
  "sanitize_ref canon v =
     (case v of
        PDict d \<Rightarrow>
          if set (map fst d) \<noteq> set ref_keys \<or> \<not> py_eq (py_get d ''schema'') (PStr ref_schema) then None
          else
            (case (str_of (py_get d ''state''), nat_int_of (py_get d ''memoryVersion''),
                   id_list canon (py_get d ''suppliedNoteIds'')) of
               (Some st, Some ver, Some ids) \<Rightarrow>
                 (case ref_state_of st of
                    None \<Rightarrow> None
                  | Some state \<Rightarrow>
                      if length ids > max_note_ids \<or> ids \<noteq> sorted_distinct ids
                         \<or> py_get d ''suppliedNoteCount'' \<noteq> PInt (int (length ids))
                         \<or> py_get d ''contentFree'' \<noteq> PBool True
                         \<or> (state = Bound) \<noteq> (ids \<noteq> [])
                      then None
                      else Some (make_ref state ver ids))
             | _ \<Rightarrow> None)
      | _ \<Rightarrow> None)"

section \<open>The context variable\<close>

definition capture_ref :: "(string \<Rightarrow> bool) \<Rightarrow> pyval \<Rightarrow> memory_ref option \<Rightarrow> memory_ref \<times> memory_ref option" where
  "capture_ref canon v ctx =
     (let r = (case sanitize_ref canon v of None \<Rightarrow> unattributed_ref 0 | Some r \<Rightarrow> r)
      in (case sanitize_ref canon (ref_value r) of None \<Rightarrow> unattributed_ref 0 | Some c \<Rightarrow> c, Some r))"

definition current_ref :: "(string \<Rightarrow> bool) \<Rightarrow> memory_ref option \<Rightarrow> memory_ref option" where
  "current_ref canon ctx = (case ctx of None \<Rightarrow> None | Some r \<Rightarrow> sanitize_ref canon (ref_value r))"

definition reset_ref :: "memory_ref option \<Rightarrow> memory_ref option" where
  "reset_ref ctx = None"

section \<open>Full receipts\<close>

definition empty_states :: "string list" where
  "empty_states =
     [[], ''0'', ''false'', ''none'', ''empty'', ''not_requested'', ''not_provided'', ''unavailable'']"

fun meaningful :: "pyval \<Rightarrow> bool"
  and any_meaningful :: "pyval list \<Rightarrow> bool"
  and any_entry_meaningful :: "(string \<times> pyval) list \<Rightarrow> bool" where
  "meaningful PNone = False"
| "meaningful (PBool b) = b"
| "meaningful (PInt i) = (i \<noteq> 0)"
| "meaningful (PFloat f) = (f \<noteq> Fin 0)"
| "meaningful (PStr s) = (map low (py_strip s) \<notin> set empty_states)"
| "meaningful (PList l) = any_meaningful l"
| "meaningful (PDict d) = any_entry_meaningful d"
| "any_meaningful [] = False"
| "any_meaningful (v # vs) = (meaningful v \<or> any_meaningful vs)"
| "any_entry_meaningful [] = False"
| "any_entry_meaningful ((k, v) # d) = (meaningful v \<or> any_entry_meaningful d)"

definition has_legacy_signal :: "(string \<times> pyval) list \<Rightarrow> bool" where
  "has_legacy_signal d = list_ex (\<lambda>p. sublist ''legacy'' (map low (fst p)) \<and> meaningful (snd p)) d"

definition value_in :: "pyval \<Rightarrow> pyval list \<Rightarrow> bool" where
  "value_in v vs = list_ex (py_eq v) vs"

definition explicitly_not_used :: "(string \<times> pyval) list \<Rightarrow> bool" where
  "explicitly_not_used d =
     (let state = py_get d ''state'';
          groundings =
            (if py_eq state (PStr ''withheld'') then [PNone, PStr ''partial'', PStr ''unattributed'']
             else if py_eq state (PStr ''unavailable'') then [PNone, PStr ''empty'', PStr ''unavailable'']
             else [PNone, state])
      in py_eq (py_get d ''schema'') (PStr context_schema) \<and> py_get d ''contentFree'' = PBool True \<and>
         value_in state [PStr ''not_requested'', PStr ''empty'', PStr ''unavailable'', PStr ''withheld''] \<and>
         value_in (py_get d ''groundingState'') groundings \<and>
         (py_get d ''memoryVersion'' = PNone \<or> nat_int_of (py_get d ''memoryVersion'') \<noteq> None) \<and>
         value_in (py_get d ''suppliedNoteIds'') [PNone, PList []] \<and>
         (py_get d ''suppliedNoteCount'' = PNone \<or> py_get d ''suppliedNoteCount'' = PInt 0))"

definition bound_ids :: "(string \<Rightarrow> bool) \<Rightarrow> (string \<times> pyval) list \<Rightarrow> string list option" where
  "bound_ids canon d =
     (case id_list canon (py_get d ''suppliedNoteIds'') of
        None \<Rightarrow> None
      | Some ids \<Rightarrow>
          if ids = [] \<or> length ids > max_note_ids then None
          else if py_get d ''suppliedNoteCount'' = PInt (int (length (sorted_distinct ids)))
          then Some (sorted_distinct ids) else None)"

definition ref_from_receipt :: "(string \<Rightarrow> bool) \<Rightarrow> pyval \<Rightarrow> memory_ref" where
  "ref_from_receipt canon v =
     (case sanitize_ref canon v of
        Some r \<Rightarrow> r
      | None \<Rightarrow>
          (case v of
             PNone \<Rightarrow> make_ref Not_Used 0 []
           | PDict d \<Rightarrow>
               let ver = version_of (py_get d ''memoryVersion'') in
               if py_eq (py_get d ''schema'') (PStr ref_schema) then make_ref Unattributed ver []
               else if has_legacy_signal d then make_ref Unattributed ver []
               else if \<not> py_eq (py_get d ''state'') (PStr ''provided'')
               then make_ref (if explicitly_not_used d then Not_Used else Unattributed) ver []
               else
                 (case bound_ids canon d of
                    Some ids \<Rightarrow>
                      if py_eq (py_get d ''schema'') (PStr context_schema) \<and> py_get d ''contentFree'' = PBool True \<and>
                         py_eq (py_get d ''groundingState'') (PStr ''attributed'') \<and>
                         nat_int_of (py_get d ''memoryVersion'') \<noteq> None
                      then make_ref Bound ver ids
                      else make_ref Unattributed ver []
                  | None \<Rightarrow> make_ref Unattributed ver [])
           | _ \<Rightarrow> make_ref Unattributed 0 []))"

section \<open>Merging\<close>

fun versions :: "memory_ref list \<Rightarrow> int" where
  "versions [] = 0"
| "versions [r] = r_version r"
| "versions (r # rs) = max (r_version r) (versions rs)"

definition merge_refs :: "(string \<Rightarrow> bool) \<Rightarrow> pyval list \<Rightarrow> memory_ref option" where
  "merge_refs canon vs =
     (let refs = List.map_filter (sanitize_ref canon) (filter (\<lambda>v. v \<noteq> PNone) vs);
          ver = versions refs;
          bound = filter (\<lambda>r. r_state r = Bound) refs;
          ids = sorted_distinct (concat (map r_note_ids bound))
      in if refs = [] then None
         else if PNone \<in> set vs then None
         else if list_ex (\<lambda>r. r_state r = Unattributed) refs then Some (make_ref Unattributed ver [])
         else if length (remdups (map r_version bound)) > 1 then Some (make_ref Unattributed ver [])
         else if ids \<noteq> [] then
           (if length ids > max_note_ids then Some (make_ref Unattributed ver [])
            else Some (make_ref Bound (r_version (hd bound)) ids))
         else Some (make_ref Not_Used ver []))"

definition ref_from_metrics :: "(string \<Rightarrow> bool) \<Rightarrow> pyval \<Rightarrow> memory_ref" where
  "ref_from_metrics canon v =
     (case v of PDict metrics \<Rightarrow>
        (case py_get metrics ''meta'' of PDict meta \<Rightarrow>
           (case py_get meta ''context_pipeline'' of PDict c \<Rightarrow>
              let cur = (if py_get c ''memory_receipt'' \<noteq> PNone then ref_from_receipt canon (py_get c ''memory_receipt'')
                         else unattributed_ref 0)
              in if ''conversation_memory_receipt_ref'' \<notin> set (map fst c) then cur
                 else
                   let hist = (case sanitize_ref canon (py_get c ''conversation_memory_receipt_ref'') of
                                 None \<Rightarrow> make_ref Unattributed (r_version cur) [] | Some r \<Rightarrow> r)
                   in (case merge_refs canon [ref_value cur, ref_value hist] of None \<Rightarrow> cur | Some r \<Rightarrow> r)
            | _ \<Rightarrow> unattributed_ref 0)
         | _ \<Rightarrow> unattributed_ref 0)
      | _ \<Rightarrow> unattributed_ref 0)"

section \<open>Well-formed references\<close>

definition ref_ok :: "(string \<Rightarrow> bool) \<Rightarrow> memory_ref \<Rightarrow> bool" where
  "ref_ok canon r \<longleftrightarrow> r_version r \<ge> 0 \<and> length (r_note_ids r) \<le> max_note_ids \<and> sorted (r_note_ids r) \<and>
     distinct (r_note_ids r) \<and> list_all canon (r_note_ids r) \<and> (r_state r = Bound \<longleftrightarrow> r_note_ids r \<noteq> [])"

lemma sorted_distinct_id: "sorted_distinct l = l \<longleftrightarrow> sorted l \<and> distinct l"
  by (metis distinct_remdups distinct_remdups_id sorted_distinct_def sorted_sort sorted_sort_id distinct_sort)

lemma sorted_distinct_id': "l = sorted_distinct l \<longleftrightarrow> sorted l \<and> distinct l"
  using sorted_distinct_id [of l] by metis

lemma sorted_distinct_props [simp]:
  "sorted (sorted_distinct l)" "distinct (sorted_distinct l)" "set (sorted_distinct l) = set l"
  "sorted_distinct l = [] \<longleftrightarrow> l = []"
  by (simp_all add: sorted_distinct_def) (metis set_empty set_remdups set_sort)

lemma str_list [simp]: "List.map_filter str_of (map PStr l) = l"
  by (induction l) (simp_all add: List.map_filter_simps)

lemma id_list_Some: "id_list canon v = Some ids \<longleftrightarrow> v = PList (map PStr ids) \<and> list_all canon ids"
proof -
  have "list_all (\<lambda>x. case str_of x of None \<Rightarrow> False | Some s \<Rightarrow> canon s) l \<and> List.map_filter str_of l = ids \<longleftrightarrow>
      l = map PStr ids \<and> list_all canon ids" for l
  proof (induction l arbitrary: ids)
    case (Cons x l)
    show ?case using Cons.IH [of "tl ids"]
      by (cases x; cases ids) (auto simp: List.map_filter_simps)
  qed (auto simp: List.map_filter_simps)
  then show ?thesis by (cases v) (auto simp: id_list_def)
qed

lemma nat_int_Some [simp]: "nat_int_of v = Some i \<longleftrightarrow> v = PInt i \<and> i \<ge> 0"
  by (cases v) auto

lemma str_of_Some [simp]: "str_of v = Some s \<longleftrightarrow> v = PStr s"
  by (cases v) auto

lemma ref_state_of_Some: "ref_state_of s = Some st \<longleftrightarrow> s = ref_state_value st"
  by (cases st) (auto simp: ref_state_of_def)

lemma make_ref_sel [simp]:
  "r_state (make_ref st v ids) = st" "r_version (make_ref st v ids) = max 0 v" "r_note_ids (make_ref st v ids) = ids"
  by (simp_all add: make_ref_def version_of_def)

lemma version_nonneg [simp]: "0 \<le> version_of v"
  by (simp add: version_of_def split: pyval.split)

lemma sanitize_ok: "sanitize_ref canon v = Some r \<Longrightarrow> ref_ok canon r"
  by (auto simp: sanitize_ref_def ref_ok_def id_list_Some sorted_distinct_id'
      split: pyval.splits option.splits if_splits)

lemma make_ref_again: "r_version r \<ge> 0 \<Longrightarrow> make_ref (r_state r) (r_version r) (r_note_ids r) = r"
  by (simp add: make_ref_def version_of_def)

lemma sanitize_value: "ref_ok canon r \<Longrightarrow> sanitize_ref canon (ref_value r) = Some r"
proof -
  assume ok: "ref_ok canon r"
  have "id_list canon (PList (map PStr (r_note_ids r))) = Some (r_note_ids r)"
    using ok by (simp add: id_list_Some ref_ok_def)
  moreover have "ref_state_of (ref_state_value (r_state r)) = Some (r_state r)" by (simp add: ref_state_of_Some)
  moreover have "sorted_distinct (r_note_ids r) = r_note_ids r" using ok by (simp add: sorted_distinct_id ref_ok_def)
  ultimately show ?thesis using ok make_ref_again [of r]
    by (auto simp: sanitize_ref_def ref_value_def ref_keys_def py_get_def ref_ok_def)
qed

lemma plain_ok: "st \<noteq> Bound \<Longrightarrow> ref_ok canon (make_ref st v [])"
  by (simp add: ref_ok_def)

lemma bound_ids_ok: "bound_ids canon d = Some ids \<Longrightarrow> ref_ok canon (make_ref Bound v ids)"
proof -
  assume a: "bound_ids canon d = Some ids"
  then obtain l where l: "list_all canon l" "l \<noteq> []" "length l \<le> max_note_ids" "ids = sorted_distinct l"
    by (auto simp: bound_ids_def id_list_Some split: option.splits if_splits)
  have "length ids \<le> length l" by (simp add: l(4) sorted_distinct_def length_remdups_leq)
  with l show ?thesis by (auto simp: ref_ok_def list_all_iff)
qed

lemma from_receipt_ok: "ref_ok canon (ref_from_receipt canon v)"
  using bound_ids_ok by (auto simp: ref_from_receipt_def Let_def plain_ok sanitize_ok split: option.split pyval.split)

lemma merge_ok: "merge_refs canon vs = Some r \<Longrightarrow> ref_ok canon r"
proof -
  assume a: "merge_refs canon vs = Some r"
  let ?refs = "List.map_filter (sanitize_ref canon) (filter (\<lambda>v. v \<noteq> PNone) vs)"
  let ?bound = "filter (\<lambda>r. r_state r = Bound) ?refs"
  have ok: "ref_ok canon q" if "q \<in> set ?refs" for q
    using that sanitize_ok by (force simp: List.map_filter_def)
  have "list_all canon (sorted_distinct (concat (map r_note_ids ?bound)))"
    using ok by (fastforce simp: list_all_iff ref_ok_def)
  then have "ref_ok canon (make_ref Bound v (sorted_distinct (concat (map r_note_ids ?bound))))"
    if "sorted_distinct (concat (map r_note_ids ?bound)) \<noteq> []"
      "length (sorted_distinct (concat (map r_note_ids ?bound))) \<le> max_note_ids" for v
    using that by (simp add: ref_ok_def)
  then show ?thesis using a unfolding merge_refs_def Let_def
    by (auto simp: plain_ok split: if_splits)
qed

lemma metrics_ok: "ref_ok canon (ref_from_metrics canon v)"
  using merge_ok sanitize_ok from_receipt_ok
  by (auto simp: ref_from_metrics_def Let_def plain_ok unattributed_ref_def split: option.split pyval.split)

section \<open>Merging as sets\<close>

definition valid_refs :: "(string \<Rightarrow> bool) \<Rightarrow> pyval set \<Rightarrow> memory_ref set" where
  "valid_refs canon V = {r. \<exists>v \<in> V. v \<noteq> PNone \<and> sanitize_ref canon v = Some r}"

text \<open>The reference definition: it only looks at the set of the arguments.\<close>

definition merge_spec :: "(string \<Rightarrow> bool) \<Rightarrow> pyval set \<Rightarrow> memory_ref option" where
  "merge_spec canon V =
     (let R = valid_refs canon V; B = {r \<in> R. r_state r = Bound}; I = (\<Union>r\<in>B. set (r_note_ids r));
          ver = Max (r_version ` R)
      in if R = {} \<or> PNone \<in> V then None
         else if (\<exists>r\<in>R. r_state r = Unattributed) \<or> card (r_version ` B) > 1 \<or> card I > max_note_ids
         then Some (make_ref Unattributed ver [])
         else if B \<noteq> {} then Some (make_ref Bound (Max (r_version ` B)) (sorted_list_of_set I))
         else Some (make_ref Not_Used ver []))"

lemma sanitize_None_value [simp]: "sanitize_ref canon PNone = None"
  by (simp add: sanitize_ref_def)

lemma set_valid: "set (List.map_filter (sanitize_ref canon) (filter (\<lambda>v. v \<noteq> PNone) vs)) = valid_refs canon (set vs)"
  by (force simp: List.map_filter_def valid_refs_def)

lemma versions_Max: "rs \<noteq> [] \<Longrightarrow> versions rs = Max (r_version ` set rs)"
  by (induction rs rule: versions.induct) (auto simp: max_def)

lemma sorted_distinct_set: "sorted_distinct l = sorted_list_of_set (set l)"
  by (simp add: sorted_distinct_def sorted_list_of_set_sort_remdups)

section \<open>Properties\<close>

text \<open>
  C34. Every reference that leaves the module is well formed: whatever the receipt, the metrics
  or the values merged, the resulting dictionary is accepted unchanged by the module's own strict
  check, so it names a version, at most twelve canonical note ids, sorted and without repetition,
  and is bound exactly when it names one.
\<close>

theorem references_are_well_formed:
  "sanitize_ref canon (ref_value (ref_from_receipt canon v)) = Some (ref_from_receipt canon v) \<and>
   sanitize_ref canon (ref_value (ref_from_metrics canon v)) = Some (ref_from_metrics canon v) \<and>
   (\<forall>r. merge_refs canon vs = Some r \<or> sanitize_ref canon v = Some r \<longrightarrow>
      sanitize_ref canon (ref_value r) = Some r \<and> r_version r \<ge> 0 \<and> length (r_note_ids r) \<le> 12 \<and>
      sorted (r_note_ids r) \<and> distinct (r_note_ids r) \<and> list_all canon (r_note_ids r) \<and>
      (r_state r = Bound \<longleftrightarrow> r_note_ids r \<noteq> [])) \<and>
   (case capture_ref canon v ctx of (r, ctx') \<Rightarrow> ctx' = Some r \<and> current_ref canon ctx' = Some r)"
proof (intro conjI allI impI)
  show "sanitize_ref canon (ref_value (ref_from_receipt canon v)) = Some (ref_from_receipt canon v)"
    by (rule sanitize_value [OF from_receipt_ok])
  show "sanitize_ref canon (ref_value (ref_from_metrics canon v)) = Some (ref_from_metrics canon v)"
    by (rule sanitize_value [OF metrics_ok])
next
  fix r assume "merge_refs canon vs = Some r \<or> sanitize_ref canon v = Some r"
  then have ok: "ref_ok canon r" using merge_ok sanitize_ok by blast
  then show "sanitize_ref canon (ref_value r) = Some r" by (rule sanitize_value)
  show "r_version r \<ge> 0" "length (r_note_ids r) \<le> 12" "sorted (r_note_ids r)" "distinct (r_note_ids r)"
    "list_all canon (r_note_ids r)" "r_state r = Bound \<longleftrightarrow> r_note_ids r \<noteq> []"
    using ok by (simp_all add: ref_ok_def max_note_ids_def)
next
  have "ref_ok canon (unattributed_ref 0)" by (simp add: unattributed_ref_def plain_ok)
  then show "case capture_ref canon v ctx of (r, ctx') \<Rightarrow> ctx' = Some r \<and> current_ref canon ctx' = Some r"
    using sanitize_value sanitize_ok
    by (auto simp: capture_ref_def current_ref_def Let_def split: option.split)
qed

theorem references_are_well_formed_witness:
  "sanitize_ref (\<lambda>_. True) (ref_value (make_ref Bound 3 [''a''])) = Some (make_ref Bound 3 [''a''])"
proof -
  have "merge_refs (\<lambda>_. True) [ref_value (make_ref Bound 3 [''a''])] = Some (make_ref Bound 3 [''a''])"
    by code_simp
  with references_are_well_formed [of "\<lambda>_. True" PNone "[ref_value (make_ref Bound 3 [''a''])]" None]
  show ?thesis by blast
qed

text \<open>
  C33. Merging depends only on which references there are, not on their order or repetition, and
  is conservative: nothing is merged when an argument is missing; one unattributed reference, two
  different versions or more than twelve notes make the result unattributed; otherwise it is bound
  to the common version and the union of the notes.
\<close>

theorem merge_refs_is_merge_spec: "merge_refs canon vs = merge_spec canon (set vs)"
proof -
  define refs where "refs = List.map_filter (sanitize_ref canon) (filter (\<lambda>v. v \<noteq> PNone) vs)"
  define bound where "bound = filter (\<lambda>r. r_state r = Bound) refs"
  define ids where "ids = sorted_distinct (concat (map r_note_ids bound))"
  have R: "valid_refs canon (set vs) = set refs" by (simp add: refs_def set_valid)
  have B: "{r \<in> set refs. r_state r = Bound} = set bound" by (simp add: bound_def)
  have I: "(\<Union>r\<in>set bound. set (r_note_ids r)) = set ids" by (simp add: ids_def)
  have ids: "length ids = card (set ids)" "ids = sorted_list_of_set (set ids)"
    by (simp_all add: ids_def sorted_distinct_set distinct_card)
  have ne: "ids = [] \<longleftrightarrow> bound = []"
  proof -
    have "r_note_ids r \<noteq> []" if "r \<in> set bound" for r
      using that sanitize_ok by (fastforce simp: bound_def refs_def List.map_filter_def ref_ok_def)
    then show ?thesis by (cases bound) (auto simp: ids_def)
  qed
  have vs: "length (remdups (map r_version bound)) = card (r_version ` set bound)"
    by (simp add: length_remdups_card_conv)
  have hd: "r_version (hd bound) = Max (r_version ` set bound)"
    if "bound \<noteq> []" "\<not> card (r_version ` set bound) > 1"
  proof -
    have "r_version (hd bound) \<in> r_version ` set bound" using that(1) by simp
    moreover have "card (r_version ` set bound) = 1"
      using that by (metis List.finite_set One_nat_def Suc_lessI card_gt_0_iff finite_imageI image_is_empty set_empty)
    moreover from this obtain x where "r_version ` set bound = {x}" by (auto simp: card_1_singleton_iff)
    ultimately show ?thesis by simp
  qed
  have "merge_refs canon vs =
      (if refs = [] \<or> PNone \<in> set vs then None
       else if (\<exists>r\<in>set refs. r_state r = Unattributed) \<or> card (r_version ` set bound) > 1 \<or> card (set ids) > max_note_ids
       then Some (make_ref Unattributed (versions refs) [])
       else if bound \<noteq> [] then Some (make_ref Bound (Max (r_version ` set bound)) ids)
       else Some (make_ref Not_Used (versions refs) []))"
    using vs hd ne ids(1)
    by (cases "bound = []") (simp_all add: merge_refs_def Let_def refs_def [symmetric] bound_def [symmetric] ids_def [symmetric] list_ex_iff)
  moreover have "refs \<noteq> [] \<Longrightarrow> versions refs = Max (r_version ` set refs)" by (rule versions_Max)
  ultimately show ?thesis using ids(2)
    by (simp add: merge_spec_def Let_def R B I)
qed

end
