(* ===== verification/Ingress_Entry.thy ===== *)
theory Ingress_Entry
  imports Memory_Receipt "HOL-Library.Product_Lexorder"
begin

text \<open>
  \<open>evelyn_core/conversation_ingress_recovery.py\<close>, its data: the sanitizers of identifiers, texts,
  hashes and numbers, one journal entry with its phases, its JSON form, and the strict check of an
  entry that is read back.

  Arguments of the operations are untyped values, as \<open>Any\<close> says. \<open>text_of\<close> is
  \<open>normalize_final_conversation_text\<close>. The record \<open>text_fns\<close> holds what is not code of the program:
  NFKC normalization, \<open>repr\<close> of floats and containers, SHA-256 of the UTF-8 bytes of a text as
  hexadecimal digits, and the canonical JSON text of a value with sorted keys (\<open>None\<close> where
  \<open>json.dumps\<close> raises on NaN or an infinity), and the test on note ids. Lower-casing is only
  compared with ASCII patterns, so it is \<open>low\<close>. Exceptions: \<open>Recovery\<close> and \<open>Mismatch\<close> are the
  module's own two classes, \<open>Value_Problem\<close> stands for the decoding, type and value errors that
  loading catches, \<open>Os_Problem\<close> for \<open>OSError\<close>, \<open>Other_Problem\<close> for anything else.
\<close>

section \<open>Sanitizers\<close>

datatype ingress_error = Recovery string | Mismatch string | Value_Problem | Os_Problem | Other_Problem

record text_fns =
  nfkc :: "string \<Rightarrow> string"
  repr_of :: "pyval \<Rightarrow> string"
  sha_text :: "string \<Rightarrow> string"
  canonical_json :: "pyval \<Rightarrow> string option"
  canon_id :: "string \<Rightarrow> bool"

definition normalize_text :: "text_fns \<Rightarrow> string \<Rightarrow> string" where
  "normalize_text e s = py_strip (collapse_spaces (nfkc e s))"

definition text_of :: "text_fns \<Rightarrow> pyval \<Rightarrow> string" where
  "text_of e v = normalize_text e (str_or_empty (repr_of e) v)"

definition final_text_sha :: "text_fns \<Rightarrow> string \<Rightarrow> string" where
  "final_text_sha e s = sha_text e (normalize_text e s)"

definition lower_char :: "char \<Rightarrow> bool" where
  "lower_char c = (c \<in> set ''abcdefghijklmnopqrstuvwxyz'')"

definition alnum_ascii :: "char \<Rightarrow> bool" where
  "alnum_ascii c = (c \<in> set ''abcdefghijklmnopqrstuvwxyzABCDEFGHIJKLMNOPQRSTUVWXYZ0123456789'')"

definition hex_text :: "nat \<Rightarrow> string \<Rightarrow> bool" where
  "hex_text n s \<longleftrightarrow> length s = n \<and> list_all (\<lambda>c. c \<in> set ''0123456789abcdef'') s"

definition entry_id_prefix :: string where
  "entry_id_prefix = ''ingress-''"

definition entry_id_pattern :: "string \<Rightarrow> bool" where
  "entry_id_pattern s \<longleftrightarrow> take 8 s = entry_id_prefix \<and> hex_text 64 (drop 8 s)"

definition turn_id_pattern :: "string \<Rightarrow> bool" where
  "turn_id_pattern s \<longleftrightarrow> s \<noteq> [] \<and> length s \<le> 128 \<and> alnum_ascii (hd s) \<and>
     list_all (\<lambda>c. alnum_ascii c \<or> c \<in> set ''_.:-'') s"

definition surface_pattern :: "string \<Rightarrow> bool" where
  "surface_pattern s \<longleftrightarrow> s \<noteq> [] \<and> length s \<le> 64 \<and> lower_char (hd s) \<and>
     list_all (\<lambda>c. lower_char c \<or> c \<in> set ''0123456789_.-'') s"

definition check :: "bool \<Rightarrow> string \<Rightarrow> ingress_error + unit" where
  "check ok code = (if ok then Inr () else Inl (Recovery code))"

definition error_codes :: "string list" where
  "error_codes =
     [[], ''conversation_ingress_delivery_ambiguous'', ''conversation_ingress_delivery_ambiguous_after_restart'',
      ''conversation_ingress_delivery_disconnected'', ''conversation_ingress_delivery_failed'',
      ''conversation_ingress_delivery_timeout'', ''conversation_ingress_process_interrupted'']"

definition error_code :: "text_fns \<Rightarrow> bool \<Rightarrow> pyval \<Rightarrow> ingress_error + string" where
  "error_code e allow_empty v =
     (let c = map low (text_of e v) in
      if c = [] \<and> allow_empty then Inr []
      else bind_r (check (c \<in> set error_codes \<and> c \<noteq> []) ''conversation_ingress_error_code_invalid'') (\<lambda>_. Inr c))"

definition surface_of :: "text_fns \<Rightarrow> pyval \<Rightarrow> ingress_error + string" where
  "surface_of e v =
     (let c = map low (text_of e v)
      in bind_r (check (surface_pattern c) ''conversation_ingress_surface_invalid'') (\<lambda>_. Inr c))"

definition bounded_identifier :: "text_fns \<Rightarrow> string \<Rightarrow> nat \<Rightarrow> bool \<Rightarrow> pyval \<Rightarrow> ingress_error + string" where
  "bounded_identifier e code limit allow_empty v =
     (let c = text_of e v in
      if c = [] \<and> allow_empty then Inr []
      else bind_r (check (c \<noteq> [] \<and> length c \<le> limit \<and> \<not> list_ex (\<lambda>x. (of_char x :: nat) < 32) c) code)
             (\<lambda>_. Inr c))"

definition scope_of :: "text_fns \<Rightarrow> pyval \<Rightarrow> ingress_error + string" where
  "scope_of e v = bounded_identifier e ''conversation_ingress_scope_invalid'' 512 False v"

definition delivery_id_of :: "text_fns \<Rightarrow> pyval \<Rightarrow> ingress_error + string" where
  "delivery_id_of e v = bounded_identifier e ''conversation_ingress_source_delivery_id_invalid'' 512 False v"

definition delivery_ref_of :: "text_fns \<Rightarrow> bool \<Rightarrow> pyval \<Rightarrow> ingress_error + string" where
  "delivery_ref_of e allow_empty v =
     bounded_identifier e ''conversation_ingress_delivery_ref_invalid'' 512 allow_empty v"

definition turn_id_of :: "text_fns \<Rightarrow> pyval \<Rightarrow> ingress_error + string" where
  "turn_id_of e v =
     (let c = text_of e v
      in bind_r (check (turn_id_pattern c) ''conversation_ingress_turn_id_invalid'') (\<lambda>_. Inr c))"

definition entry_id_of :: "text_fns \<Rightarrow> pyval \<Rightarrow> ingress_error + string" where
  "entry_id_of e v =
     (let c = map low (text_of e v)
      in bind_r (check (entry_id_pattern c) ''conversation_ingress_entry_id_invalid'') (\<lambda>_. Inr c))"

definition sha_of :: "text_fns \<Rightarrow> bool \<Rightarrow> pyval \<Rightarrow> ingress_error + string" where
  "sha_of e allow_empty v =
     (let c = map low (text_of e v) in
      if c = [] \<and> allow_empty then Inr []
      else bind_r (check (hex_text 64 c) ''conversation_ingress_hash_invalid'') (\<lambda>_. Inr c))"

definition nonnegative_int :: "string \<Rightarrow> pyval \<Rightarrow> ingress_error + int" where
  "nonnegative_int code v = (case nat_int_of v of None \<Rightarrow> Inl (Recovery code) | Some i \<Rightarrow> Inr i)"

definition positive_int :: "string \<Rightarrow> pyval \<Rightarrow> ingress_error + int" where
  "positive_int code v =
     bind_r (nonnegative_int code v) (\<lambda>i. bind_r (check (i \<ge> 1) code) (\<lambda>_. Inr i))"

definition finite_nonnegative :: "string \<Rightarrow> pyval \<Rightarrow> ingress_error + real" where
  "finite_nonnegative code v =
     (case v of
        PBool _ \<Rightarrow> Inl (Recovery code)
      | _ \<Rightarrow> (case py_float v of
                Inr (Fin x) \<Rightarrow> if x \<ge> 0 then Inr x else Inl (Recovery code)
              | _ \<Rightarrow> Inl (Recovery code)))"

definition timestamp_code :: string where
  "timestamp_code = ''conversation_ingress_timestamp_invalid''"

section \<open>Entries\<close>

datatype ingress_phase =
  Reserved | Accepted | Response_Ready | Delivery_Inflight | Delivery_Succeeded | Delivery_Ambiguous
| Terminal_Committing | Completed

fun phase_value :: "ingress_phase \<Rightarrow> string" where
  "phase_value Reserved = ''reserved''"
| "phase_value Accepted = ''accepted''"
| "phase_value Response_Ready = ''response_ready''"
| "phase_value Delivery_Inflight = ''delivery_inflight''"
| "phase_value Delivery_Succeeded = ''delivery_succeeded''"
| "phase_value Delivery_Ambiguous = ''delivery_ambiguous''"
| "phase_value Terminal_Committing = ''terminal_committing''"
| "phase_value Completed = ''completed''"

definition ingress_phases :: "ingress_phase list" where
  "ingress_phases = [Reserved, Accepted, Response_Ready, Delivery_Inflight, Delivery_Succeeded,
     Delivery_Ambiguous, Terminal_Committing, Completed]"

definition phase_of_text :: "string \<Rightarrow> ingress_phase option" where
  "phase_of_text s = find (\<lambda>p. phase_value p = s) ingress_phases"

record entry =
  x_entry_id :: string
  x_surface :: string
  x_scope :: string
  x_source_delivery_id :: string
  x_turn_id :: string
  x_phase :: ingress_phase
  x_text_hash :: string
  x_assistant_hash :: string
  x_binding_hash :: string
  x_accepted_text :: string
  x_assistant_text :: string
  x_memory_ref :: memory_ref
  x_delivery_ref :: string
  x_continuity_generation :: int
  x_created_at :: real
  x_updated_at :: real
  x_expires_at :: real
  x_recovered_at :: real
  x_last_error :: string

definition entry_keys :: "string list" where
  "entry_keys =
     [''entryId'', ''surface'', ''scope'', ''sourceDeliveryId'', ''turnId'', ''phase'', ''textHash'', ''assistantHash'',
      ''assistantBindingHash'', ''acceptedText'', ''assistantText'', ''memoryReceiptRef'', ''deliveryRef'',
      ''continuityGeneration'', ''createdAt'', ''updatedAt'', ''expiresAt'', ''recoveredAt'', ''lastErrorCode'']"

definition entry_dict :: "entry \<Rightarrow> (string \<times> pyval) list" where
  "entry_dict x =
     [(''entryId'', PStr (x_entry_id x)), (''surface'', PStr (x_surface x)), (''scope'', PStr (x_scope x)),
      (''sourceDeliveryId'', PStr (x_source_delivery_id x)), (''turnId'', PStr (x_turn_id x)),
      (''phase'', PStr (phase_value (x_phase x))), (''textHash'', PStr (x_text_hash x)),
      (''assistantHash'', PStr (x_assistant_hash x)), (''assistantBindingHash'', PStr (x_binding_hash x)),
      (''acceptedText'', PStr (x_accepted_text x)), (''assistantText'', PStr (x_assistant_text x)),
      (''memoryReceiptRef'', ref_value (x_memory_ref x)), (''deliveryRef'', PStr (x_delivery_ref x)),
      (''continuityGeneration'', PInt (x_continuity_generation x)), (''createdAt'', PFloat (Fin (x_created_at x))),
      (''updatedAt'', PFloat (Fin (x_updated_at x))), (''expiresAt'', PFloat (Fin (x_expires_at x))),
      (''recoveredAt'', PFloat (Fin (x_recovered_at x))), (''lastErrorCode'', PStr (x_last_error x))]"

definition entry_json :: "entry \<Rightarrow> pyval" where
  "entry_json x = PDict (entry_dict x)"

text \<open>Hashes of a JSON value; a value without a JSON text raises \<open>ValueError\<close>.\<close>

definition json_sha :: "text_fns \<Rightarrow> pyval \<Rightarrow> ingress_error + string" where
  "json_sha e v = (case canonical_json e v of None \<Rightarrow> Inl Value_Problem | Some s \<Rightarrow> Inr (sha_text e s))"

definition assistant_binding_hash :: "text_fns \<Rightarrow> string \<Rightarrow> memory_ref \<Rightarrow> ingress_error + string" where
  "assistant_binding_hash e h r =
     json_sha e (PDict [(''assistantHash'', PStr h), (''memoryReceiptRef'', ref_value r)])"

definition conversation_ingress_entry_id :: "text_fns \<Rightarrow> pyval \<Rightarrow> pyval \<Rightarrow> pyval \<Rightarrow> ingress_error + string" where
  "conversation_ingress_entry_id e surface scope delivery =
     bind_r (surface_of e surface) (\<lambda>sf. bind_r (scope_of e scope) (\<lambda>sc. bind_r (delivery_id_of e delivery) (\<lambda>d.
       bind_r (json_sha e (PList [PStr sf, PStr sc, PStr d])) (\<lambda>h. Inr (entry_id_prefix @ h)))))"

definition memory_ref_of :: "text_fns \<Rightarrow> pyval \<Rightarrow> memory_ref" where
  "memory_ref_of e v = (case sanitize_ref (canon_id e) v of Some r \<Rightarrow> r | None \<Rightarrow> unattributed_ref 0)"

definition no_response_phases :: "ingress_phase list" where
  "no_response_phases = [Reserved, Accepted, Delivery_Inflight, Delivery_Ambiguous]"

section \<open>Reading an entry back\<close>

record ingress_cfg =
  max_age :: real
  max_entries :: nat
  max_chars :: nat
  max_bytes :: nat

text \<open>The limits the constructor derives from its arguments.\<close>

definition make_cfg :: "pyval \<Rightarrow> pyval \<Rightarrow> pyval \<Rightarrow> pyval \<Rightarrow> ingress_error + ingress_cfg" where
  "make_cfg age count chars bytes =
     bind_r (finite_nonnegative ''conversation_ingress_max_age_invalid'' age) (\<lambda>a.
     bind_r (positive_int ''conversation_ingress_max_entries_invalid'' count) (\<lambda>n.
     bind_r (positive_int ''conversation_ingress_max_content_invalid'' chars) (\<lambda>c.
     bind_r (positive_int ''conversation_ingress_max_bytes_invalid'' bytes) (\<lambda>b.
     Inr \<lparr>max_age = min 1800 (max 1 a), max_entries = nat (min 1024 n), max_chars = nat (min 2000 c),
          max_bytes = nat (min 4194304 (max 4096 b))\<rparr>))))"

definition entry_identity :: "text_fns \<Rightarrow> (string \<Rightarrow> pyval) \<Rightarrow> ingress_error + string \<times> string \<times> string \<times> string" where
  "entry_identity e f =
     bind_r (entry_id_of e (f ''entryId'')) (\<lambda>i. bind_r (surface_of e (f ''surface'')) (\<lambda>sf.
     bind_r (scope_of e (f ''scope'')) (\<lambda>sc. bind_r (delivery_id_of e (f ''sourceDeliveryId'')) (\<lambda>d.
     bind_r (conversation_ingress_entry_id e (PStr sf) (PStr sc) (PStr d)) (\<lambda>i'.
     bind_r (check (i = i') ''conversation_ingress_entry_binding_invalid'') (\<lambda>_. Inr (i, sf, sc, d)))))))"

definition entry_phase :: "text_fns \<Rightarrow> pyval \<Rightarrow> ingress_error + ingress_phase" where
  "entry_phase e v =
     (case phase_of_text (map low (text_of e v)) of
        None \<Rightarrow> Inl (Recovery ''conversation_ingress_phase_invalid'') | Some p \<Rightarrow> Inr p)"

definition texts_fit :: "ingress_cfg \<Rightarrow> ingress_phase \<Rightarrow> string \<Rightarrow> string \<Rightarrow> bool" where
  "texts_fit g p acc ans \<longleftrightarrow>
     \<not> (p = Reserved \<and> acc \<noteq> [] \<or> p \<noteq> Reserved \<and> acc = []
        \<or> length acc > max_chars g \<or> length ans > max_chars g)"

definition entry_hashes ::
    "text_fns \<Rightarrow> ingress_phase \<Rightarrow> string \<Rightarrow> string \<Rightarrow> (string \<Rightarrow> pyval)
     \<Rightarrow> ingress_error + string \<times> string \<times> string \<times> memory_ref" where
  "entry_hashes e p acc ans f =
     bind_r (sha_of e False (f ''textHash'')) (\<lambda>th. bind_r (sha_of e True (f ''assistantHash'')) (\<lambda>ah.
     bind_r (sha_of e True (f ''assistantBindingHash'')) (\<lambda>bh.
     (case sanitize_ref (canon_id e) (f ''memoryReceiptRef'') of
        None \<Rightarrow> Inl (Recovery ''conversation_ingress_memory_receipt_invalid'')
      | Some r \<Rightarrow>
          bind_r (check (p = Reserved \<or> th = final_text_sha e acc) ''conversation_ingress_text_hash_mismatch'') (\<lambda>_.
          bind_r (check ((ans \<noteq> []) = (ah \<noteq> []) \<and> (ans \<noteq> []) = (bh \<noteq> []))
                   ''conversation_ingress_assistant_binding_invalid'') (\<lambda>_.
          bind_r (check (ans = [] \<or> ah = final_text_sha e ans) ''conversation_ingress_assistant_hash_mismatch'') (\<lambda>_.
          bind_r (if ans = [] then Inr bh else assistant_binding_hash e ah r) (\<lambda>b.
          bind_r (check (bh = b) ''conversation_ingress_assistant_binding_invalid'') (\<lambda>_.
          bind_r (check (\<not> (ans = [] \<and> (p \<notin> set no_response_phases \<or> bh \<noteq> [] \<or> r_state r \<noteq> Unattributed)))
                   ''conversation_ingress_phase_content_invalid'') (\<lambda>_.
          bind_r (check (\<not> (p \<in> {Reserved, Accepted} \<and> ans \<noteq> []))
                   ''conversation_ingress_phase_content_invalid'') (\<lambda>_. Inr (th, ah, bh, r))))))))))))"

definition generation_fits :: "ingress_phase \<Rightarrow> int \<Rightarrow> bool" where
  "generation_fits p n \<longleftrightarrow> (if p \<in> {Terminal_Committing, Completed} then n \<ge> 1 else n = 0)"

definition times_fit :: "ingress_cfg \<Rightarrow> real \<Rightarrow> real \<Rightarrow> real \<Rightarrow> real \<Rightarrow> bool" where
  "times_fit g created updated expires recovered \<longleftrightarrow>
     \<not> (updated < created \<or> expires \<le> created \<or> expires > created + max_age g + 1 / 1000
        \<or> updated > expires \<or> (recovered \<noteq> 0 \<and> recovered < created))"

definition entry_times ::
    "ingress_cfg \<Rightarrow> ingress_phase \<Rightarrow> (string \<Rightarrow> pyval) \<Rightarrow> ingress_error + int \<times> real \<times> real \<times> real \<times> real" where
  "entry_times g p f =
     bind_r (nonnegative_int ''conversation_ingress_continuity_generation_invalid'' (f ''continuityGeneration'')) (\<lambda>n.
     bind_r (check (generation_fits p n) ''conversation_ingress_continuity_generation_invalid'') (\<lambda>_.
     bind_r (finite_nonnegative timestamp_code (f ''createdAt'')) (\<lambda>c.
     bind_r (finite_nonnegative timestamp_code (f ''updatedAt'')) (\<lambda>u.
     bind_r (finite_nonnegative timestamp_code (f ''expiresAt'')) (\<lambda>x.
     bind_r (finite_nonnegative timestamp_code (f ''recoveredAt'')) (\<lambda>r.
     bind_r (check (times_fit g c u x r) timestamp_code) (\<lambda>_. Inr (n, c, u, x, r))))))))"

definition entry_tail :: "text_fns \<Rightarrow> ingress_phase \<Rightarrow> (string \<Rightarrow> pyval) \<Rightarrow> ingress_error + string \<times> string" where
  "entry_tail e p f =
     bind_r (delivery_ref_of e True (f ''deliveryRef'')) (\<lambda>d.
     bind_r (if p = Reserved then sha_of e False (PStr d) else Inr d) (\<lambda>d'.
     bind_r (check (d = d') ''conversation_ingress_reservation_ref_invalid'') (\<lambda>_.
     bind_r (error_code e True (f ''lastErrorCode'')) (\<lambda>c. Inr (d, c)))))"

definition entry_fields :: "text_fns \<Rightarrow> ingress_cfg \<Rightarrow> (string \<Rightarrow> pyval) \<Rightarrow> ingress_error + entry" where
  "entry_fields e g f =
     bind_r (entry_identity e f) (\<lambda>(i, sf, sc, d).
     bind_r (turn_id_of e (f ''turnId'')) (\<lambda>t.
     bind_r (entry_phase e (f ''phase'')) (\<lambda>p.
     let acc = text_of e (f ''acceptedText''); ans = text_of e (f ''assistantText'') in
     bind_r (check (texts_fit g p acc ans) ''conversation_ingress_content_invalid'') (\<lambda>_.
     bind_r (entry_hashes e p acc ans f) (\<lambda>(th, ah, bh, r).
     bind_r (entry_times g p f) (\<lambda>(n, c, u, x, rec).
     bind_r (entry_tail e p f) (\<lambda>(dref, err).
     Inr \<lparr>x_entry_id = i, x_surface = sf, x_scope = sc, x_source_delivery_id = d, x_turn_id = t, x_phase = p,
          x_text_hash = th, x_assistant_hash = ah, x_binding_hash = bh, x_accepted_text = acc,
          x_assistant_text = ans, x_memory_ref = r, x_delivery_ref = dref, x_continuity_generation = n,
          x_created_at = c, x_updated_at = u, x_expires_at = x, x_recovered_at = rec, x_last_error = err\<rparr>)))))))"

definition validated_entry :: "text_fns \<Rightarrow> ingress_cfg \<Rightarrow> pyval \<Rightarrow> ingress_error + entry" where
  "validated_entry e g raw =
     (case raw of
        PDict d \<Rightarrow> if set (map fst d) = set entry_keys then entry_fields e g (py_get d)
                   else Inl (Recovery ''conversation_ingress_entry_schema_invalid'')
      | _ \<Rightarrow> Inl (Recovery ''conversation_ingress_entry_schema_invalid''))"

definition logical_entry_updated_at :: "entry \<Rightarrow> real \<Rightarrow> real" where
  "logical_entry_updated_at x now =
     min (max (max (x_created_at x) (x_updated_at x)) now) (x_expires_at x)"

section \<open>Normal forms\<close>

text \<open>What the development relies on of the functions it does not define.\<close>

definition text_ok :: "text_fns \<Rightarrow> bool" where
  "text_ok e \<longleftrightarrow>
     (\<forall>s. nfkc e (normalize_text e s) = normalize_text e s) \<and> (\<forall>s. ascii_text s \<longrightarrow> nfkc e s = s) \<and>
     (\<forall>s. hex_text 64 (sha_text e s))"

lemma single_spaced_append: "single_spaced (xs @ ys) \<Longrightarrow> single_spaced xs \<and> single_spaced ys"
  by (induction xs rule: single_spaced.induct) (auto, (cases ys; auto)+)

lemma strip_part: "\<exists>a b. s = a @ py_strip s @ b"
proof -
  let ?d = "dropWhile py_space s"
  have "s = takeWhile py_space s @ ?d" by simp
  moreover have "?d = py_strip s @ rev (takeWhile py_space (rev ?d))"
    unfolding py_strip_def by (metis rev_append rev_rev_ident takeWhile_dropWhile_id)
  ultimately show ?thesis by metis
qed

lemma single_spaced_strip: "single_spaced s \<Longrightarrow> single_spaced (py_strip s)"
  using strip_part [of s] single_spaced_append by metis

lemma normalize_idem: "text_ok e \<Longrightarrow> normalize_text e (normalize_text e s) = normalize_text e s"
  using single_spaced_strip [OF single_spaced_collapse, of "nfkc e s"]
  unfolding text_ok_def by (simp add: normalize_text_def collapse_single_spaced)

lemma text_of_Str [simp]: "text_of e (PStr s) = normalize_text e s"
  by (simp add: text_of_def)

lemma text_of_idem: "text_ok e \<Longrightarrow> normalize_text e (text_of e v) = text_of e v"
  by (simp add: text_of_def normalize_idem)

text \<open>Characters of identifiers: no blanks, no capitals where lower-casing came before.\<close>

definition plain_char :: "char \<Rightarrow> bool" where
  "plain_char c \<longleftrightarrow> \<not> py_space c \<and> (of_char c :: nat) < 128"

lemma single_spaced_plain: "list_all plain_char s \<Longrightarrow> single_spaced s"
  by (induction s rule: single_spaced.induct) (auto simp: plain_char_def)

lemma normalize_plain:
  assumes "text_ok e" "list_all plain_char s"
  shows "normalize_text e s = s"
proof -
  have "nfkc e s = s"
    using assms by (simp add: text_ok_def ascii_text_def list_all_iff plain_char_def)
  moreover have "collapse_spaces s = s" by (rule collapse_single_spaced [OF single_spaced_plain [OF assms(2)]])
  moreover have "py_strip s = s"
    using assms(2) by (intro strip_fix) (auto simp: list_all_iff plain_char_def)
  ultimately show ?thesis by (simp add: normalize_text_def)
qed

lemma low_idem [simp]: "low (low c) = low c"
  by (simp add: low_def Let_def)

lemma low_comp [simp]: "low \<circ> low = low"
  by (rule ext) simp

lemma map_low_idem: "map low (map low s) = map low s"
  by simp

lemma hex_plain: "c \<in> set ''0123456789abcdef'' \<Longrightarrow> plain_char c \<and> low c = c"
  by (auto simp: plain_char_def py_space_def low_def Let_def)

lemma lower_plain: "lower_char c \<or> c \<in> set ''0123456789_.-'' \<Longrightarrow> plain_char c"
  by (auto simp: lower_char_def plain_char_def py_space_def Let_def)

lemma alnum_plain: "alnum_ascii c \<or> c \<in> set ''_.:-'' \<Longrightarrow> plain_char c"
  by (auto simp: alnum_ascii_def plain_char_def py_space_def Let_def)

lemma check_Inr [simp]: "check ok c = Inr u \<longleftrightarrow> ok"
  by (simp add: check_def)

lemma check_True [simp]: "check True c = Inr ()" and check_False [simp]: "check False c = Inl (Recovery c)"
  by (simp_all add: check_def)

lemma plain_list: "(\<And>c. P c \<Longrightarrow> plain_char c) \<Longrightarrow> list_all P s \<Longrightarrow> list_all plain_char s"
  by (induction s) auto

lemma hex_list:
  assumes "list_all (\<lambda>c. c \<in> set ''0123456789abcdef'') s"
  shows "list_all plain_char s \<and> map low s = s"
  using assms hex_plain by (induction s) (auto simp del: set_simps)

lemma entry_id_plain: "entry_id_pattern s \<Longrightarrow> list_all plain_char s \<and> map low s = s"
proof -
  assume a: "entry_id_pattern s"
  then have s: "s = entry_id_prefix @ drop 8 s"
    by (metis append_take_drop_id entry_id_pattern_def)
  moreover have "list_all plain_char (drop 8 s) \<and> map low (drop 8 s) = drop 8 s"
    using a hex_list by (simp add: entry_id_pattern_def hex_text_def)
  moreover have "list_all plain_char entry_id_prefix \<and> map low entry_id_prefix = entry_id_prefix"
    by (simp add: entry_id_prefix_def plain_char_def py_space_def low_def Let_def)
  ultimately show ?thesis by (metis list_all_append map_append)
qed

lemma normalize_low: "text_ok e \<Longrightarrow> list_all plain_char (map low s) \<Longrightarrow> normalize_text e (map low s) = map low s"
  by (rule normalize_plain [of e])

lemma entry_id_stable: "text_ok e \<Longrightarrow> entry_id_of e v = Inr s \<Longrightarrow> entry_id_of e (PStr s) = Inr s"
  using normalize_plain [of e] entry_id_plain
  by (auto simp: entry_id_of_def Let_def bind_r_Inr)

lemma surface_stable: "text_ok e \<Longrightarrow> surface_of e v = Inr s \<Longrightarrow> surface_of e (PStr s) = Inr s"
proof -
  assume ok: "text_ok e" and "surface_of e v = Inr s"
  then have s: "s = map low (text_of e v)" "surface_pattern s"
    by (auto simp: surface_of_def Let_def bind_r_Inr)
  have "list_all plain_char s"
    using s(2) unfolding surface_pattern_def by (intro plain_list [OF lower_plain]) blast+
  with s show ?thesis
    using normalize_plain [OF ok, of s] map_low_idem [of "text_of e v"]
    by (simp add: surface_of_def Let_def bind_r_Inr)
qed

lemma turn_id_stable: "text_ok e \<Longrightarrow> turn_id_of e v = Inr s \<Longrightarrow> turn_id_of e (PStr s) = Inr s"
  using text_of_idem [of e] by (auto simp: turn_id_of_def Let_def bind_r_Inr)

lemma bounded_stable: "text_ok e \<Longrightarrow> bounded_identifier e c n b v = Inr s \<Longrightarrow> bounded_identifier e c n b (PStr s) = Inr s"
  using text_of_idem [of e v] normalize_idem [of e "[]"]
  by (auto simp: bounded_identifier_def Let_def bind_r_Inr check_def split: if_splits)

lemma scope_stable: "text_ok e \<Longrightarrow> scope_of e v = Inr s \<Longrightarrow> scope_of e (PStr s) = Inr s"
  unfolding scope_of_def by (rule bounded_stable)

lemma delivery_id_stable: "text_ok e \<Longrightarrow> delivery_id_of e v = Inr s \<Longrightarrow> delivery_id_of e (PStr s) = Inr s"
  unfolding delivery_id_of_def by (rule bounded_stable)

lemma delivery_ref_stable: "text_ok e \<Longrightarrow> delivery_ref_of e b v = Inr s \<Longrightarrow> delivery_ref_of e b (PStr s) = Inr s"
  unfolding delivery_ref_of_def by (rule bounded_stable)

lemma normalize_Nil: "text_ok e \<Longrightarrow> normalize_text e [] = []"
  using normalize_plain [of e "[]"] by simp

lemma sha_of_hex: "text_ok e \<Longrightarrow> hex_text 64 s \<Longrightarrow> sha_of e b (PStr s) = Inr s"
  using normalize_plain [of e s] hex_list [of s]
  by (auto simp: sha_of_def Let_def hex_text_def)

lemma sha_of_Inr: "sha_of e b v = Inr s \<Longrightarrow> hex_text 64 s \<or> b \<and> s = []"
  by (auto simp: sha_of_def Let_def bind_r_Inr split: if_splits)

lemma sha_stable: "text_ok e \<Longrightarrow> sha_of e b v = Inr s \<Longrightarrow> sha_of e b (PStr s) = Inr s"
  using sha_of_Inr [of e b v s] sha_of_hex [of e s b] by (auto simp: sha_of_def normalize_Nil)

lemma error_code_plain: "c \<in> set error_codes \<Longrightarrow> list_all plain_char c \<and> map low c = c"
  by (auto simp: error_codes_def plain_char_def py_space_def low_def Let_def)

lemma error_code_stable: "text_ok e \<Longrightarrow> error_code e b v = Inr s \<Longrightarrow> error_code e b (PStr s) = Inr s"
  using error_code_plain normalize_plain [of e s]
  by (auto simp: error_code_def Let_def bind_r_Inr normalize_Nil split: if_splits)

lemma phase_of_value [simp]: "phase_of_text (phase_value p) = Some p"
  by (cases p) (simp_all add: phase_of_text_def ingress_phases_def)

lemma phase_of_Some: "phase_of_text s = Some p \<longleftrightarrow> s = phase_value p"
  by (cases p) (auto simp: phase_of_text_def ingress_phases_def split: if_splits)

lemma phase_plain: "list_all plain_char (phase_value p) \<and> map low (phase_value p) = phase_value p"
  by (cases p) (simp_all add: plain_char_def py_space_def low_def Let_def)

lemma entry_phase_value: "text_ok e \<Longrightarrow> entry_phase e (PStr (phase_value p)) = Inr p"
  using normalize_plain [of e] phase_plain [of p] by (simp add: entry_phase_def)

lemma finite_nonneg_Fin [simp]: "finite_nonnegative c (PFloat (Fin x)) = (if x \<ge> 0 then Inr x else Inl (Recovery c))"
  by (simp add: finite_nonnegative_def)

lemma finite_nonneg_Inr: "finite_nonnegative c v = Inr x \<Longrightarrow> x \<ge> 0"
  by (auto simp: finite_nonnegative_def split: pyval.splits sum.splits pyfloat.splits if_splits)

section \<open>Well-formed entries\<close>

definition identity_wf :: "text_fns \<Rightarrow> entry \<Rightarrow> bool" where
  "identity_wf e x \<longleftrightarrow>
     entry_id_of e (PStr (x_entry_id x)) = Inr (x_entry_id x) \<and>
     surface_of e (PStr (x_surface x)) = Inr (x_surface x) \<and> scope_of e (PStr (x_scope x)) = Inr (x_scope x) \<and>
     delivery_id_of e (PStr (x_source_delivery_id x)) = Inr (x_source_delivery_id x) \<and>
     conversation_ingress_entry_id e (PStr (x_surface x)) (PStr (x_scope x)) (PStr (x_source_delivery_id x)) =
       Inr (x_entry_id x) \<and>
     turn_id_of e (PStr (x_turn_id x)) = Inr (x_turn_id x)"

definition hashes_wf :: "text_fns \<Rightarrow> entry \<Rightarrow> bool" where
  "hashes_wf e x \<longleftrightarrow>
     hex_text 64 (x_text_hash x) \<and> sha_of e True (PStr (x_assistant_hash x)) = Inr (x_assistant_hash x) \<and>
     sha_of e True (PStr (x_binding_hash x)) = Inr (x_binding_hash x) \<and> ref_ok (canon_id e) (x_memory_ref x) \<and>
     (x_phase x \<noteq> Reserved \<longrightarrow> x_text_hash x = final_text_sha e (x_accepted_text x)) \<and>
     (if x_assistant_text x = []
      then x_assistant_hash x = [] \<and> x_binding_hash x = [] \<and> r_state (x_memory_ref x) = Unattributed \<and>
           x_phase x \<in> set no_response_phases
      else x_assistant_hash x = final_text_sha e (x_assistant_text x) \<and> x_binding_hash x \<noteq> [] \<and>
           assistant_binding_hash e (x_assistant_hash x) (x_memory_ref x) = Inr (x_binding_hash x) \<and>
           x_phase x \<notin> {Reserved, Accepted})"

definition times_wf :: "ingress_cfg \<Rightarrow> entry \<Rightarrow> bool" where
  "times_wf g x \<longleftrightarrow>
     0 \<le> x_created_at x \<and> x_created_at x \<le> x_updated_at x \<and> x_created_at x < x_expires_at x \<and>
     x_updated_at x \<le> x_expires_at x \<and> x_expires_at x \<le> x_created_at x + max_age g + 1 / 1000 \<and>
     (x_recovered_at x = 0 \<or> x_created_at x \<le> x_recovered_at x)"

definition entry_wf :: "text_fns \<Rightarrow> ingress_cfg \<Rightarrow> entry \<Rightarrow> bool" where
  "entry_wf e g x \<longleftrightarrow>
     identity_wf e x \<and>
     normalize_text e (x_accepted_text x) = x_accepted_text x \<and> normalize_text e (x_assistant_text x) = x_assistant_text x \<and>
     texts_fit g (x_phase x) (x_accepted_text x) (x_assistant_text x) \<and> hashes_wf e x \<and>
     generation_fits (x_phase x) (x_continuity_generation x) \<and> times_wf g x \<and>
     delivery_ref_of e True (PStr (x_delivery_ref x)) = Inr (x_delivery_ref x) \<and>
     (x_phase x = Reserved \<longrightarrow> hex_text 64 (x_delivery_ref x)) \<and>
     error_code e True (PStr (x_last_error x)) = Inr (x_last_error x)"

lemma entry_keys_json: "set (map fst (entry_dict x)) = set entry_keys"
  by (simp add: entry_dict_def entry_keys_def)

lemma final_sha_hex: "text_ok e \<Longrightarrow> hex_text 64 (final_text_sha e s)"
  by (simp add: text_ok_def final_text_sha_def)

lemma hex_not_Nil [simp]: "\<not> hex_text 64 []"
  by (simp add: hex_text_def)

lemma final_sha_not_Nil [simp]: "text_ok e \<Longrightarrow> final_text_sha e s \<noteq> []"
  using final_sha_hex [of e s] by auto

lemma generation_nonneg: "generation_fits p n \<Longrightarrow> n \<ge> 0"
  by (simp add: generation_fits_def split: if_splits)

lemma entry_fields_wf:
  assumes ok: "text_ok e" and wf: "entry_wf e g x"
    and f: "f ''entryId'' = PStr (x_entry_id x)" "f ''surface'' = PStr (x_surface x)" "f ''scope'' = PStr (x_scope x)"
      "f ''sourceDeliveryId'' = PStr (x_source_delivery_id x)" "f ''turnId'' = PStr (x_turn_id x)"
      "f ''phase'' = PStr (phase_value (x_phase x))" "f ''textHash'' = PStr (x_text_hash x)"
      "f ''assistantHash'' = PStr (x_assistant_hash x)" "f ''assistantBindingHash'' = PStr (x_binding_hash x)"
      "f ''acceptedText'' = PStr (x_accepted_text x)" "f ''assistantText'' = PStr (x_assistant_text x)"
      "f ''memoryReceiptRef'' = ref_value (x_memory_ref x)" "f ''deliveryRef'' = PStr (x_delivery_ref x)"
      "f ''continuityGeneration'' = PInt (x_continuity_generation x)" "f ''createdAt'' = PFloat (Fin (x_created_at x))"
      "f ''updatedAt'' = PFloat (Fin (x_updated_at x))" "f ''expiresAt'' = PFloat (Fin (x_expires_at x))"
      "f ''recoveredAt'' = PFloat (Fin (x_recovered_at x))" "f ''lastErrorCode'' = PStr (x_last_error x)"
  shows "entry_fields e g f = Inr x"
proof -
  have 1: "entry_identity e f = Inr (x_entry_id x, x_surface x, x_scope x, x_source_delivery_id x)"
    using wf by (simp add: entry_identity_def f entry_wf_def identity_wf_def)
  have 2: "entry_hashes e (x_phase x) (x_accepted_text x) (x_assistant_text x) f =
      Inr (x_text_hash x, x_assistant_hash x, x_binding_hash x, x_memory_ref x)"
    using wf ok by (cases "x_assistant_text x = []")
      (auto simp: entry_hashes_def f entry_wf_def hashes_wf_def sha_of_hex sanitize_value)
  have 3: "entry_times g (x_phase x) f =
      Inr (x_continuity_generation x, x_created_at x, x_updated_at x, x_expires_at x, x_recovered_at x)"
    using wf generation_nonneg [of "x_phase x" "x_continuity_generation x"]
    by (auto simp: entry_times_def f entry_wf_def times_wf_def times_fit_def nonnegative_int_def)
  have 4: "entry_tail e (x_phase x) f = Inr (x_delivery_ref x, x_last_error x)"
    using wf ok by (auto simp: entry_tail_def f entry_wf_def sha_of_hex)
  show ?thesis
    using wf ok
    by (simp add: entry_fields_def 1 2 3 4 f entry_phase_value entry_wf_def identity_wf_def)
qed

lemma entry_json_accepted:
  assumes "text_ok e" "entry_wf e g x"
  shows "validated_entry e g (entry_json x) = Inr x"
proof -
  have "entry_fields e g (py_get (entry_dict x)) = Inr x"
    by (rule entry_fields_wf [OF assms]) (simp_all add: entry_dict_def py_get_def)
  then show ?thesis using entry_keys_json [of x] by (simp add: validated_entry_def entry_json_def)
qed

lemma entry_identity_Inr:
  assumes "text_ok e" "entry_identity e f = Inr (i, sf, sc, d)"
  shows "entry_id_of e (PStr i) = Inr i" "surface_of e (PStr sf) = Inr sf" "scope_of e (PStr sc) = Inr sc"
    "delivery_id_of e (PStr d) = Inr d" "conversation_ingress_entry_id e (PStr sf) (PStr sc) (PStr d) = Inr i"
  using assms unfolding entry_identity_def bind_r_Inr check_Inr
  by (auto intro: entry_id_stable surface_stable scope_stable delivery_id_stable)

lemma entry_hashes_Inr:
  assumes ok: "text_ok e" and h: "entry_hashes e p acc ans f = Inr (th, ah, bh, r)"
  shows "hex_text 64 th" "sha_of e True (PStr ah) = Inr ah" "sha_of e True (PStr bh) = Inr bh" "ref_ok (canon_id e) r"
    "p \<noteq> Reserved \<longrightarrow> th = final_text_sha e acc"
    "if ans = [] then ah = [] \<and> bh = [] \<and> r_state r = Unattributed \<and> p \<in> set no_response_phases
     else ah = final_text_sha e ans \<and> bh \<noteq> [] \<and> assistant_binding_hash e ah r = Inr bh \<and> p \<notin> {Reserved, Accepted}"
proof -
  from h obtain th' ah' bh' where
      s: "sha_of e False (f ''textHash'') = Inr th'" "sha_of e True (f ''assistantHash'') = Inr ah'"
        "sha_of e True (f ''assistantBindingHash'') = Inr bh'" and
      m: "(case sanitize_ref (canon_id e) (f ''memoryReceiptRef'') of
        None \<Rightarrow> Inl (Recovery ''conversation_ingress_memory_receipt_invalid'')
      | Some r \<Rightarrow>
          bind_r (check (p = Reserved \<or> th' = final_text_sha e acc) ''conversation_ingress_text_hash_mismatch'') (\<lambda>_.
          bind_r (check ((ans \<noteq> []) = (ah' \<noteq> []) \<and> (ans \<noteq> []) = (bh' \<noteq> []))
                   ''conversation_ingress_assistant_binding_invalid'') (\<lambda>_.
          bind_r (check (ans = [] \<or> ah' = final_text_sha e ans) ''conversation_ingress_assistant_hash_mismatch'') (\<lambda>_.
          bind_r (if ans = [] then Inr bh' else assistant_binding_hash e ah' r) (\<lambda>b.
          bind_r (check (bh' = b) ''conversation_ingress_assistant_binding_invalid'') (\<lambda>_.
          bind_r (check (\<not> (ans = [] \<and> (p \<notin> set no_response_phases \<or> bh' \<noteq> [] \<or> r_state r \<noteq> Unattributed)))
                   ''conversation_ingress_phase_content_invalid'') (\<lambda>_.
          bind_r (check (\<not> (p \<in> {Reserved, Accepted} \<and> ans \<noteq> []))
                   ''conversation_ingress_phase_content_invalid'') (\<lambda>_. Inr (th', ah', bh', r))))))))) = Inr (th, ah, bh, r)"
    unfolding entry_hashes_def by (elim bind_r_Inr [THEN iffD1, elim_format] exE conjE)
  then obtain q where q: "sanitize_ref (canon_id e) (f ''memoryReceiptRef'') = Some q"
    by (cases "sanitize_ref (canon_id e) (f ''memoryReceiptRef'')") simp_all
  note c = m [unfolded q option.case bind_r_Inr check_Inr, simplified]
  have eq: "th' = th" "ah' = ah" "bh' = bh" "q = r" using c by simp_all
  note r = q [unfolded eq] and s = s [unfolded eq] and c = c [unfolded eq]
  show "hex_text 64 th" using sha_of_Inr [OF s(1)] by simp
  show "sha_of e True (PStr ah) = Inr ah" "sha_of e True (PStr bh) = Inr bh"
    using sha_stable [OF ok s(2)] sha_stable [OF ok s(3)] by simp_all
  show "ref_ok (canon_id e) r" by (rule sanitize_ok [OF r])
  show "p \<noteq> Reserved \<longrightarrow> th = final_text_sha e acc" using c by blast
  show "if ans = [] then ah = [] \<and> bh = [] \<and> r_state r = Unattributed \<and> p \<in> set no_response_phases
     else ah = final_text_sha e ans \<and> bh \<noteq> [] \<and> assistant_binding_hash e ah r = Inr bh \<and> p \<notin> {Reserved, Accepted}"
    using c by (cases "ans = []") auto
qed

lemma entry_times_Inr:
  assumes "entry_times g p f = Inr (n, c, u, x, r)"
  shows "generation_fits p n" "0 \<le> c" "c \<le> u" "c < x" "u \<le> x" "x \<le> c + max_age g + 1 / 1000" "r = 0 \<or> c \<le> r"
  using assms unfolding entry_times_def bind_r_Inr check_Inr times_fit_def
  by (auto dest: finite_nonneg_Inr)

lemma entry_tail_Inr:
  assumes "text_ok e" "entry_tail e p f = Inr (d, c)"
  shows "delivery_ref_of e True (PStr d) = Inr d" "p = Reserved \<longrightarrow> hex_text 64 d" "error_code e True (PStr c) = Inr c"
  using assms unfolding entry_tail_def bind_r_Inr check_Inr
  by (auto intro: delivery_ref_stable error_code_stable dest!: sha_of_Inr)

lemma validated_entry_wf:
  assumes ok: "text_ok e" and v: "validated_entry e g v = Inr x"
  shows "entry_wf e g x"
proof -
  from v obtain d where "entry_fields e g (py_get d) = Inr x"
    by (auto simp: validated_entry_def split: pyval.splits if_splits)
  then obtain i sf sc dl t p acc ans th ah bh r n c u xp rc dr er
    where 1: "entry_identity e (py_get d) = Inr (i, sf, sc, dl)" and 2: "turn_id_of e (py_get d ''turnId'') = Inr t"
      and 3: "acc = text_of e (py_get d ''acceptedText'')" "ans = text_of e (py_get d ''assistantText'')"
      and 4: "texts_fit g p acc ans" and 5: "entry_hashes e p acc ans (py_get d) = Inr (th, ah, bh, r)"
      and 6: "entry_times g p (py_get d) = Inr (n, c, u, xp, rc)" and 7: "entry_tail e p (py_get d) = Inr (dr, er)"
      and x: "x = \<lparr>x_entry_id = i, x_surface = sf, x_scope = sc, x_source_delivery_id = dl, x_turn_id = t, x_phase = p,
          x_text_hash = th, x_assistant_hash = ah, x_binding_hash = bh, x_accepted_text = acc,
          x_assistant_text = ans, x_memory_ref = r, x_delivery_ref = dr, x_continuity_generation = n,
          x_created_at = c, x_updated_at = u, x_expires_at = xp, x_recovered_at = rc, x_last_error = er\<rparr>"
    unfolding entry_fields_def Let_def bind_r_Inr check_Inr by (auto simp: bind_r_Inr)
  have "identity_wf e x"
    using entry_identity_Inr [OF ok 1] turn_id_stable [OF ok 2] by (simp add: identity_wf_def x)
  moreover have "hashes_wf e x" using entry_hashes_Inr [OF ok 5] by (cases "ans = []") (auto simp: hashes_wf_def x)
  moreover have "times_wf g x" using entry_times_Inr [OF 6] by (simp add: times_wf_def x)
  ultimately show ?thesis
    using entry_times_Inr(1) [OF 6] entry_tail_Inr [OF ok 7] 4 text_of_idem [OF ok] 3
    by (simp add: entry_wf_def x)
qed

lemma validated_entry_iff:
  "text_ok e \<Longrightarrow> entry_wf e g x \<longleftrightarrow> validated_entry e g (entry_json x) = Inr x"
  using entry_json_accepted validated_entry_wf by blast

end
