(* ===== verification/Ingress_Journal.thy ===== *)
theory Ingress_Journal
  imports Ingress_Entry
begin

text \<open>
  \<open>evelyn_core/conversation_ingress_recovery.py\<close>: the durable journal of accepted messages, the
  class \<open>ConversationIngressRecoveryJournal\<close>. A message is claimed under the hash of its origin
  before it is processed; its entry then follows the answer through delivery and commit.

  The state \<open>journal\<close> holds the fields of the object and the two files. A file is absent, holds a
  JSON document, or is broken (too large, not UTF-8, not JSON, a duplicated key); writing is
  atomic, and reading gives back the written document up to the order of keys, which no check
  looks at. The record \<open>journal_env\<close> holds the configuration and what the outside answers, read
  by the counter \<open>tick\<close>: the clock, whether a read or a write raises (a write may raise before or after
  it took effect), whether a path is acceptable, the callback that tells whether the target of an
  entry is still current (an exception there counts as no), fresh turn ids, and the size of a
  document. Entering the scope of the artifact process is taken not to fail.
  Every operation runs under the object's lock, so it is one step.
\<close>

section \<open>State and environment\<close>

datatype write_result = Written | Write_Fails ingress_error | Write_Fails_After ingress_error

datatype stored_file = Absent | Broken | Doc pyval

datatype journal_state = Ready | Disabled | Failed | Corrupt

datatype integrity_state = I_Disabled | I_Missing | I_Verified | I_Failed

datatype head_status = H_Disabled | H_Missing | H_Current | H_Orphaned | H_Write_Failed

record journal_env =
  fns :: text_fns
  cfg :: ingress_cfg
  enabled :: bool
  has_process :: bool
  clock :: "nat \<Rightarrow> pyval"
  put_journal :: "nat \<Rightarrow> write_result"
  put_head :: "nat \<Rightarrow> write_result"
  journal_fault :: "nat \<Rightarrow> ingress_error option"
  head_fault :: "nat \<Rightarrow> ingress_error option"
  target_allowed :: "nat \<Rightarrow> ingress_error + bool"
  target_current :: "(entry \<Rightarrow> nat \<Rightarrow> bool) option"
  doc_size :: "pyval \<Rightarrow> nat"
  fresh_turn :: "nat \<Rightarrow> pyval"

record journal =
  entries :: "entry dict"
  generation :: int
  last_hash :: string
  jstate :: journal_state
  integrity :: integrity_state
  head_state :: head_status
  last_code :: string
  journal_file :: stored_file
  head_file :: stored_file
  tick :: nat

type_synonym 'a jprog = "(journal, ingress_error, 'a) prog"

definition chain_genesis :: string where
  "chain_genesis = replicate 64 (CHR ''0'')"

definition ask :: "(nat \<Rightarrow> 'a) \<Rightarrow> 'a jprog" where
  "ask f s = (Inr (f (tick s)), s\<lparr>tick := Suc (tick s)\<rparr>)"

definition lift :: "ingress_error + 'a \<Rightarrow> 'a jprog" where
  "lift r s = (r, s)"

definition change :: "(journal \<Rightarrow> journal) \<Rightarrow> unit jprog" where
  "change f s = (Inr (), f s)"

definition get :: "(journal \<Rightarrow> 'a) \<Rightarrow> 'a jprog" where
  "get f s = (Inr (f s), s)"

text \<open>\<open>try \<dots> except Exception\<close>, with the handler.\<close>

definition try_op :: "'a jprog \<Rightarrow> (ingress_error \<Rightarrow> 'a jprog) \<Rightarrow> 'a jprog" where
  "try_op m h s = (case m s of (Inl er, s1) \<Rightarrow> h er s1 | (Inr x, s1) \<Rightarrow> (Inr x, s1))"

definition require :: "bool \<Rightarrow> ingress_error \<Rightarrow> unit jprog" where
  "require b er = (if b then ret () else throw er)"

definition now :: "journal_env \<Rightarrow> real jprog" where
  "now w = bind (ask (clock w)) (\<lambda>v. lift (finite_nonnegative timestamp_code v))"

section \<open>Documents\<close>

definition journal_schema :: string where
  "journal_schema = ''conversation.ingress-recovery.v1''"

definition head_schema :: string where
  "head_schema = ''conversation.ingress-recovery-head.v1''"

definition policy_dict :: "ingress_cfg \<Rightarrow> (string \<times> pyval) list" where
  "policy_dict g =
     [(''automaticReplay'', PBool False), (''rawAudio'', PBool False), (''partialTranscript'', PBool False),
      (''finalAcceptedText'', PBool True), (''finalAssistantText'', PBool True),
      (''assistantMemoryReceiptRef'', PBool True), (''maxAgeSec'', PFloat (Fin (max_age g))),
      (''maxEntries'', PInt (int (max_entries g))), (''maxContentChars'', PInt (int (max_chars g)))]"

definition entry_order :: "entry \<Rightarrow> real \<times> string" where
  "entry_order x = (x_created_at x, x_entry_id x)"

definition payload_dict ::
    "ingress_cfg \<Rightarrow> int \<Rightarrow> string \<Rightarrow> string \<Rightarrow> real \<Rightarrow> entry list \<Rightarrow> (string \<times> pyval) list" where
  "payload_dict g n prev h t xs =
     [(''schema'', PStr journal_schema), (''generation'', PInt n), (''previousHash'', PStr prev),
      (''journalHash'', PStr h), (''updatedAt'', PFloat (Fin t)), (''entries'', PList (map entry_json xs)),
      (''policy'', PDict (policy_dict g))]"

definition journal_hash :: "text_fns \<Rightarrow> (string \<times> pyval) list \<Rightarrow> ingress_error + string" where
  "journal_hash e d = json_sha e (PDict (filter (\<lambda>p. fst p \<noteq> ''journalHash'') d))"

definition payload :: "journal_env \<Rightarrow> int \<Rightarrow> string \<Rightarrow> (pyval \<times> string) jprog" where
  "payload w n prev =
     bind (now w) (\<lambda>t. bind (get (\<lambda>s. sort_key entry_order (map snd (entries s)))) (\<lambda>xs.
     bind (lift (journal_hash (fns w) (payload_dict (cfg w) n prev [] t xs))) (\<lambda>h.
     ret (PDict (payload_dict (cfg w) n prev h t xs), h))))"

definition head_dict :: "int \<Rightarrow> string \<Rightarrow> real \<Rightarrow> (string \<times> pyval) list" where
  "head_dict n h t =
     [(''schema'', PStr head_schema), (''generation'', PInt n), (''journalHash'', PStr h),
      (''updatedAt'', PFloat (Fin t)), (''contentFree'', PBool True)]"

definition payload_keys :: "string list" where
  "payload_keys =
     [''schema'', ''generation'', ''previousHash'', ''journalHash'', ''updatedAt'', ''entries'', ''policy'']"

definition head_keys :: "string list" where
  "head_keys = [''schema'', ''generation'', ''journalHash'', ''updatedAt'', ''contentFree'']"

definition validated_policy :: "ingress_cfg \<Rightarrow> pyval \<Rightarrow> ingress_error + unit" where
  "validated_policy g raw =
     (case raw of
        PDict d \<Rightarrow>
          if set (map fst d) = set (map fst (policy_dict g))
          then check (py_eq raw (PDict (policy_dict g))) ''conversation_ingress_policy_mismatch''
          else Inl (Recovery ''conversation_ingress_policy_invalid'')
      | _ \<Rightarrow> Inl (Recovery ''conversation_ingress_policy_invalid''))"

fun validated_entries ::
    "text_fns \<Rightarrow> ingress_cfg \<Rightarrow> entry dict \<Rightarrow> pyval list \<Rightarrow> ingress_error + entry dict" where
  "validated_entries e g acc [] = Inr acc"
| "validated_entries e g acc (v # vs) =
     bind_r (validated_entry e g v) (\<lambda>x.
       if dict_get acc (x_entry_id x) \<noteq> None then Inl (Recovery ''conversation_ingress_duplicate_entry'')
       else validated_entries e g (dict_set (x_entry_id x) x acc) vs)"

definition validated_payload ::
    "text_fns \<Rightarrow> ingress_cfg \<Rightarrow> pyval \<Rightarrow> ingress_error + entry dict \<times> int \<times> string \<times> string" where
  "validated_payload e g v =
     (case v of
        PDict d \<Rightarrow>
          bind_r (check (set (map fst d) = set payload_keys) ''conversation_ingress_payload_schema_invalid'') (\<lambda>_.
          bind_r (check (py_eq (py_get d ''schema'') (PStr journal_schema)) ''conversation_ingress_schema_invalid'') (\<lambda>_.
          bind_r (positive_int ''conversation_ingress_generation_invalid'' (py_get d ''generation'')) (\<lambda>n.
          bind_r (sha_of e False (py_get d ''previousHash'')) (\<lambda>prev.
          bind_r (sha_of e False (py_get d ''journalHash'')) (\<lambda>h.
          bind_r (finite_nonnegative timestamp_code (py_get d ''updatedAt'')) (\<lambda>_.
          bind_r (validated_policy g (py_get d ''policy'')) (\<lambda>_.
          bind_r (journal_hash e d) (\<lambda>h'.
          bind_r (check (h = h') ''conversation_ingress_self_hash_mismatch'') (\<lambda>_.
          (case py_get d ''entries'' of
             PList l \<Rightarrow>
               bind_r (check (length l \<le> max_entries g) ''conversation_ingress_entries_invalid'') (\<lambda>_.
               bind_r (validated_entries e g [] l) (\<lambda>es. Inr (es, n, prev, h)))
           | _ \<Rightarrow> Inl (Recovery ''conversation_ingress_entries_invalid'')))))))))))
      | _ \<Rightarrow> Inl (Recovery ''conversation_ingress_payload_schema_invalid''))"

definition head_of :: "text_fns \<Rightarrow> pyval \<Rightarrow> ingress_error + int \<times> string" where
  "head_of e v =
     (case v of
        PDict d \<Rightarrow>
          bind_r (check (set (map fst d) = set head_keys) ''conversation_ingress_head_invalid'') (\<lambda>_.
          bind_r (check (py_eq (py_get d ''schema'') (PStr head_schema) \<and> py_get d ''contentFree'' = PBool True)
                   ''conversation_ingress_head_invalid'') (\<lambda>_.
          bind_r (positive_int ''conversation_ingress_head_invalid'' (py_get d ''generation'')) (\<lambda>n.
          bind_r (sha_of e False (py_get d ''journalHash'')) (\<lambda>h.
          bind_r (finite_nonnegative ''conversation_ingress_head_invalid'' (py_get d ''updatedAt'')) (\<lambda>_.
          Inr (n, h))))))
      | _ \<Rightarrow> Inl (Recovery ''conversation_ingress_head_invalid''))"

section \<open>Files\<close>

definition read_file :: "(nat \<Rightarrow> ingress_error option) \<Rightarrow> (journal \<Rightarrow> stored_file) \<Rightarrow> pyval option jprog" where
  "read_file fault f =
     bind (ask fault) (\<lambda>er. bind (get f) (\<lambda>stored.
       (case er of Some x \<Rightarrow> throw x
        | None \<Rightarrow> (case stored of Absent \<Rightarrow> ret None | Broken \<Rightarrow> throw Value_Problem | Doc v \<Rightarrow> ret (Some v)))))"

definition write_file ::
    "(nat \<Rightarrow> write_result) \<Rightarrow> (stored_file \<Rightarrow> journal \<Rightarrow> journal) \<Rightarrow> pyval \<Rightarrow> unit jprog" where
  "write_file outcome store_to v =
     bind (ask outcome) (\<lambda>r.
       (case r of Written \<Rightarrow> change (store_to (Doc v))
        | Write_Fails er \<Rightarrow> throw er
        | Write_Fails_After er \<Rightarrow> seq_ops (change (store_to (Doc v))) (throw er)))"

definition load_head :: "journal_env \<Rightarrow> (int \<times> string) option jprog" where
  "load_head w =
     bind (read_file (head_fault w) head_file) (\<lambda>v.
       (case v of None \<Rightarrow> ret None | Some d \<Rightarrow> bind (lift (head_of (fns w) d)) (\<lambda>h. ret (Some h))))"

definition write_head :: "journal_env \<Rightarrow> int \<Rightarrow> string \<Rightarrow> unit jprog" where
  "write_head w n h =
     bind (now w) (\<lambda>t. write_file (put_head w) (\<lambda>f s. s\<lparr>head_file := f\<rparr>) (PDict (head_dict n h t)))"

fun targets_current :: "(entry \<Rightarrow> nat \<Rightarrow> bool) \<Rightarrow> entry list \<Rightarrow> unit jprog" where
  "targets_current f [] = ret ()"
| "targets_current f (x # xs) =
     bind (ask (f x)) (\<lambda>b. if b then targets_current f xs
                           else throw (Recovery ''conversation_ingress_target_retired''))"

definition require_mutation_targets_current :: "journal_env \<Rightarrow> unit jprog" where
  "require_mutation_targets_current w =
     (case target_current w of None \<Rightarrow> ret ()
      | Some f \<Rightarrow> bind (get (\<lambda>s. map snd (entries s))) (targets_current f))"

definition write_failed_code :: string where
  "write_failed_code = ''conversation_ingress_recovery_write_failed''"

definition write_failed :: "journal \<Rightarrow> journal" where
  "write_failed s =
     s\<lparr>jstate := Failed, integrity := I_Failed, head_state := H_Write_Failed, last_code := write_failed_code\<rparr>"

definition targets_allowed :: "journal_env \<Rightarrow> bool jprog" where
  "targets_allowed w =
     bind (ask (target_allowed w)) (\<lambda>r. bind (lift r) (\<lambda>a.
       if a then bind (ask (target_allowed w)) lift else ret False))"

text \<open>The two files are written in this order; writing the head is tried twice.\<close>

definition persist :: "journal_env \<Rightarrow> pyval \<Rightarrow> int \<Rightarrow> string \<Rightarrow> unit jprog" where
  "persist w doc n h =
     seq_ops (write_file (put_journal w) (\<lambda>f s. s\<lparr>journal_file := f\<rparr>) doc)
       (try_op (write_head w n h) (\<lambda>_. write_head w n h))"

text \<open>\<open>_write_scoped\<close> after its check of the state.\<close>

definition store :: "journal_env \<Rightarrow> unit jprog" where
  "store w =
     bind (targets_allowed w) (\<lambda>a. seq_ops (require a (Recovery ''conversation_ingress_target_rejected''))
       (bind (get (\<lambda>s. (generation s + 1, last_hash s))) (\<lambda>(n, prev).
        bind (payload w n prev) (\<lambda>(doc, h).
        seq_ops (require (doc_size w doc \<le> max_bytes (cfg w)) (Recovery ''conversation_ingress_capacity_exhausted''))
        (seq_ops (try_op (persist w doc n h) (\<lambda>er. seq_ops (change write_failed) (throw er)))
          (change (\<lambda>s. s\<lparr>generation := n, last_hash := h, integrity := I_Verified, head_state := H_Current,
                            last_code := []\<rparr>)))))))"

section \<open>Loading\<close>

definition unavailable :: ingress_error where
  "unavailable = Recovery ''conversation_ingress_recovery_unavailable''"

definition ensure_ready :: "journal_env \<Rightarrow> unit jprog" where
  "ensure_ready w = bind (get jstate) (\<lambda>st. require (enabled w \<and> st = Ready) unavailable)"

text \<open>\<open>_write\<close> as \<open>_load_scoped\<close> calls it: the state is \<open>ready\<close> then, so that \<open>_require_ready\<close> inside it
  does not load again.\<close>

definition write_loaded :: "journal_env \<Rightarrow> unit jprog" where
  "write_loaded w = seq_ops (require_mutation_targets_current w) (seq_ops (ensure_ready w) (store w))"

definition recover_entry :: "real \<Rightarrow> entry \<Rightarrow> entry" where
  "recover_entry t x =
     (if x_phase x = Completed then x
      else
        (let y = (if x_phase x = Delivery_Inflight
                  then x\<lparr>x_phase := Delivery_Ambiguous,
                         x_last_error := ''conversation_ingress_delivery_ambiguous_after_restart''\<rparr>
                  else x);
             since = logical_entry_updated_at y t
         in y\<lparr>x_recovered_at := (if x_recovered_at y = 0 then since else x_recovered_at y), x_updated_at := since\<rparr>))"

definition unexpired :: "real \<Rightarrow> entry dict \<Rightarrow> entry dict" where
  "unexpired t es = filter (\<lambda>p. x_expires_at (snd p) > t) es"

definition recover_after_restart :: "journal_env \<Rightarrow> unit jprog" where
  "recover_after_restart w =
     bind (now w) (\<lambda>t. bind (get entries) (\<lambda>before.
       let es = map (\<lambda>p. (fst p, recover_entry t (snd p))) (unexpired t before)
       in seq_ops (change (\<lambda>s. s\<lparr>entries := es\<rparr>)) (if es \<noteq> before then write_loaded w else ret ())))"

definition load_failed :: "(int \<times> string) option \<Rightarrow> ingress_error \<Rightarrow> unit jprog" where
  "load_failed head er =
     (case er of
        Os_Problem \<Rightarrow> change write_failed
      | Other_Problem \<Rightarrow> throw Other_Problem
      | _ \<Rightarrow> change (\<lambda>s.
          (case head of None \<Rightarrow> s
           | Some (n, h) \<Rightarrow> s\<lparr>generation := n, last_hash := h, head_state := H_Orphaned\<rparr>)
          \<lparr>entries := [], jstate := Corrupt, integrity := I_Failed,
           last_code := ''conversation_ingress_recovery_journal_corrupt''\<rparr>))"

definition bootstrap :: "journal_env \<Rightarrow> bool \<Rightarrow> (int \<times> string) option \<Rightarrow> unit jprog" where
  "bootstrap w after_restart head =
     seq_ops (require (head = None) (Recovery ''conversation_ingress_journal_missing_after_head''))
     (seq_ops
       (if after_restart then ret ()
        else bind (get (\<lambda>s. generation s = 0 \<and> entries s = [])) (\<lambda>fresh.
          seq_ops (require fresh (Recovery ''conversation_ingress_journal_missing''))
            (change (\<lambda>s. s\<lparr>jstate := Ready, integrity := I_Missing, head_state := H_Missing, last_code := []\<rparr>))))
       (try_op (write_loaded w) (\<lambda>_. ret ())))"

definition match_head :: "journal_env \<Rightarrow> (int \<times> string) option \<Rightarrow> int \<Rightarrow> string \<Rightarrow> string \<Rightarrow> unit jprog" where
  "match_head w head n prev h =
     (case head of
        None \<Rightarrow> seq_ops (require (n = 1 \<and> prev = chain_genesis) (Recovery ''conversation_ingress_head_missing''))
                  (write_head w n h)
      | Some (hn, hh) \<Rightarrow>
          if n = hn \<and> h = hh then ret ()
          else if n = hn + 1 \<and> prev = hh then write_head w n h
          else throw (Recovery ''conversation_ingress_rollback_or_head_mismatch''))"

definition load_journal :: "journal_env \<Rightarrow> bool \<Rightarrow> (int \<times> string) option \<Rightarrow> unit jprog" where
  "load_journal w after_restart head =
     bind (read_file (journal_fault w) journal_file) (\<lambda>raw.
       (case raw of
          None \<Rightarrow> bootstrap w after_restart head
        | Some doc \<Rightarrow>
            bind (lift (validated_payload (fns w) (cfg w) doc)) (\<lambda>(es, n, prev, h).
            seq_ops (match_head w head n prev h)
            (seq_ops
              (change (\<lambda>s. s\<lparr>entries := es, generation := n, last_hash := h, integrity := I_Verified,
                                head_state := H_Current, jstate := Ready, last_code := []\<rparr>))
              (if after_restart then recover_after_restart w else ret ())))))"

definition load :: "journal_env \<Rightarrow> bool \<Rightarrow> unit jprog" where
  "load w after_restart s =
     (case load_head w s of
        (Inl er, s1) \<Rightarrow> load_failed None er s1
      | (Inr head, s1) \<Rightarrow>
          (case load_journal w after_restart head s1 of
             (Inl er, s2) \<Rightarrow> load_failed head er s2
           | (Inr u, s2) \<Rightarrow> (Inr (), s2)))"

text \<open>The constructor, on the files it finds.\<close>

definition new_journal :: "journal_env \<Rightarrow> stored_file \<Rightarrow> stored_file \<Rightarrow> nat \<Rightarrow> journal" where
  "new_journal w jf hf t =
     \<lparr>entries = [], generation = 0, last_hash = chain_genesis, jstate = (if enabled w then Ready else Disabled),
      integrity = (if enabled w then I_Missing else I_Disabled),
      head_state = (if enabled w then H_Missing else H_Disabled), last_code = [],
      journal_file = jf, head_file = hf, tick = t\<rparr>"

definition open_journal :: "journal_env \<Rightarrow> stored_file \<Rightarrow> stored_file \<Rightarrow> nat \<Rightarrow> (ingress_error + unit) \<times> journal" where
  "open_journal w jf hf t =
     (let s = new_journal w jf hf t in if enabled w then load w True s else (Inr (), s))"

end
