(* ===== verification/Ingress_Ops.thy ===== *)
theory Ingress_Ops
  imports Ingress_Journal
begin

text \<open>
  The operations of \<open>ConversationIngressRecoveryJournal\<close> (\<open>conversation_ingress_recovery.py\<close>) on the
  state of \<open>Ingress_Journal\<close>: reserving, claiming, the life of an entry, revocation, resets, purging
  by lineage and the read-outs. Arguments are untyped values. An entry of the code is a dictionary that is
  changed in place; here a change rewrites the entry under its key (\<open>update_entry\<close>), and what the code
  reads from the dictionary after the change is read again from the state. The constant fields of
  receipts and records (their schema, \<open>durable\<close>, \<open>automaticReplay\<close>) are left out.
\<close>

section \<open>Before and after every operation\<close>

definition require_ready :: "journal_env \<Rightarrow> unit jprog" where
  "require_ready w =
     seq_ops
       (bind (get jstate) (\<lambda>st. if st = Failed \<and> has_process w then load w False else ret ()))
       (ensure_ready w)"

definition write_scoped :: "journal_env \<Rightarrow> unit jprog" where
  "write_scoped w = seq_ops (require_ready w) (store w)"

definition write_journal :: "journal_env \<Rightarrow> unit jprog" where
  "write_journal w = seq_ops (require_mutation_targets_current w) (write_scoped w)"

definition write_or_restore :: "journal_env \<Rightarrow> entry dict \<Rightarrow> unit jprog" where
  "write_or_restore w before =
     try_op (write_journal w) (\<lambda>er. seq_ops (change (\<lambda>s. s\<lparr>entries := before\<rparr>)) (throw er))"

definition prune_expired :: "journal_env \<Rightarrow> unit jprog" where
  "prune_expired w =
     bind (now w) (\<lambda>t. bind (get entries) (\<lambda>before.
       if unexpired t before = before then ret ()
       else seq_ops (change (\<lambda>s. s\<lparr>entries := unexpired t before\<rparr>)) (write_or_restore w before)))"

definition begin_op :: "journal_env \<Rightarrow> unit jprog" where
  "begin_op w = seq_ops (require_ready w) (prune_expired w)"

definition touch :: "real \<Rightarrow> entry dict \<Rightarrow> string \<times> entry \<Rightarrow> string \<times> entry" where
  "touch t before p =
     (let x = snd p in
      case dict_get before (fst p) of
        Some y \<Rightarrow> if x = y then p
                  else (fst p, x\<lparr>x_updated_at := logical_entry_updated_at x (max t (x_updated_at y))\<rparr>)
      | None \<Rightarrow> (fst p, x\<lparr>x_updated_at := logical_entry_updated_at x (max t t)\<rparr>))"

definition mutate_and_write :: "journal_env \<Rightarrow> unit jprog \<Rightarrow> unit jprog" where
  "mutate_and_write w mutation =
     bind (get entries) (\<lambda>before. seq_ops mutation (bind (now w) (\<lambda>t.
       seq_ops (change (\<lambda>s. s\<lparr>entries := map (touch t before) (entries s)\<rparr>)) (write_or_restore w before))))"

definition update_entry :: "string \<Rightarrow> (entry \<Rightarrow> entry) \<Rightarrow> unit jprog" where
  "update_entry i f =
     change (\<lambda>s. (case dict_get (entries s) i of None \<Rightarrow> s
                  | Some x \<Rightarrow> s\<lparr>entries := dict_set i (f x) (entries s)\<rparr>))"

text \<open>\<open>entry.update({..., "updatedAt": self._now(), ...})\<close>: the clock is read before the change.\<close>

definition update_stamped :: "journal_env \<Rightarrow> string \<Rightarrow> (entry \<Rightarrow> entry) \<Rightarrow> unit jprog" where
  "update_stamped w i f = bind (now w) (\<lambda>t. update_entry i (\<lambda>x. (f x)\<lparr>x_updated_at := t\<rparr>))"

definition pop_entries :: "string list \<Rightarrow> unit jprog" where
  "pop_entries is = change (\<lambda>s. s\<lparr>entries := fold dict_pop is (entries s)\<rparr>)"

definition content_of :: "journal_env \<Rightarrow> string \<Rightarrow> pyval \<Rightarrow> ingress_error + string" where
  "content_of w code v =
     (let c = text_of (fns w) v
      in bind_r (check (c \<noteq> [] \<and> length c \<le> max_chars (cfg w)) code) (\<lambda>_. Inr c))"

definition entry_at :: "journal_env \<Rightarrow> pyval \<Rightarrow> entry jprog" where
  "entry_at w v =
     bind (lift (entry_id_of (fns w) v)) (\<lambda>i. bind (get (\<lambda>s. dict_get (entries s) i)) (\<lambda>x.
       (case x of None \<Rightarrow> throw (Recovery ''conversation_ingress_entry_not_found'') | Some y \<Rightarrow> ret y)))"

section \<open>Receipts and records\<close>

record receipt =
  rc_entry_id :: string
  rc_phase :: ingress_phase
  rc_disposition :: string
  rc_should_process :: bool
  rc_turn_id :: string
  rc_text_hash :: string
  rc_assistant_hash :: string
  rc_binding_hash :: string
  rc_memory_ref :: memory_ref
  rc_replayable :: bool
  rc_continuity_generation :: int
  rc_ambiguous :: bool
  rc_recovered :: bool
  rc_expires_at :: real
  rc_journal_generation :: int

fun disposition_of :: "ingress_phase \<Rightarrow> string" where
  "disposition_of Reserved = ''reserved''"
| "disposition_of Accepted = ''pending''"
| "disposition_of Response_Ready = ''pending''"
| "disposition_of Delivery_Inflight = ''delivery_inflight''"
| "disposition_of Delivery_Succeeded = ''delivered_pending_commit''"
| "disposition_of Delivery_Ambiguous = ''delivery_ambiguous''"
| "disposition_of Terminal_Committing = ''terminal_pending''"
| "disposition_of Completed = ''completed''"

definition replayable :: "entry \<Rightarrow> bool" where
  "replayable x \<longleftrightarrow> x_phase x = Completed \<and> r_state (x_memory_ref x) \<in> {Bound, Not_Used}"

definition receipt_of :: "journal_env \<Rightarrow> entry \<Rightarrow> string option \<Rightarrow> bool \<Rightarrow> int \<Rightarrow> receipt" where
  "receipt_of w x disposition process n =
     \<lparr>rc_entry_id = x_entry_id x, rc_phase = x_phase x,
      rc_disposition = (case disposition of None \<Rightarrow> disposition_of (x_phase x) | Some d \<Rightarrow> d),
      rc_should_process = process, rc_turn_id = x_turn_id x, rc_text_hash = x_text_hash x,
      rc_assistant_hash = x_assistant_hash x, rc_binding_hash = x_binding_hash x,
      rc_memory_ref = memory_ref_of (fns w) (ref_value (x_memory_ref x)), rc_replayable = replayable x,
      rc_continuity_generation = x_continuity_generation x, rc_ambiguous = (x_phase x = Delivery_Ambiguous),
      rc_recovered = (x_recovered_at x \<noteq> 0), rc_expires_at = x_expires_at x, rc_journal_generation = n\<rparr>"

definition give_receipt :: "journal_env \<Rightarrow> entry \<Rightarrow> string option \<Rightarrow> bool \<Rightarrow> receipt jprog" where
  "give_receipt w x d p = bind (get generation) (\<lambda>n. ret (receipt_of w x d p n))"

text \<open>The receipt of an entry after it was changed.\<close>

definition receipt_after :: "journal_env \<Rightarrow> entry \<Rightarrow> string option \<Rightarrow> bool \<Rightarrow> receipt jprog" where
  "receipt_after w x d p =
     bind (get (\<lambda>s. dict_get (entries s) (x_entry_id x))) (\<lambda>y.
       give_receipt w (case y of None \<Rightarrow> x | Some z \<Rightarrow> z) d p)"

record recovery_record =
  rd_entry :: entry
  rd_replayable :: bool
  rd_recovered :: bool

definition record_of :: "journal_env \<Rightarrow> entry \<Rightarrow> recovery_record" where
  "record_of w x =
     \<lparr>rd_entry = x\<lparr>x_memory_ref := memory_ref_of (fns w) (ref_value (x_memory_ref x))\<rparr>,
      rd_replayable = replayable x, rd_recovered = (x_recovered_at x \<noteq> 0)\<rparr>"

section \<open>Reserving and claiming\<close>

definition mismatch :: ingress_error where
  "mismatch = Mismatch ''conversation_ingress_binding_mismatch''"

definition origin_of ::
    "journal_env \<Rightarrow> pyval \<Rightarrow> pyval \<Rightarrow> pyval \<Rightarrow> ingress_error + string \<times> string \<times> string" where
  "origin_of w surface scope delivery =
     bind_r (surface_of (fns w) surface) (\<lambda>sf. bind_r (scope_of (fns w) scope) (\<lambda>sc.
     bind_r (delivery_id_of (fns w) delivery) (\<lambda>d. Inr (sf, sc, d))))"

definition id_of_origin :: "journal_env \<Rightarrow> string \<Rightarrow> string \<Rightarrow> string \<Rightarrow> ingress_error + string" where
  "id_of_origin w sf sc d = conversation_ingress_entry_id (fns w) (PStr sf) (PStr sc) (PStr d)"

definition same_origin :: "entry \<Rightarrow> string \<Rightarrow> string \<Rightarrow> string \<Rightarrow> bool" where
  "same_origin x sf sc d \<longleftrightarrow> x_surface x = sf \<and> x_scope x = sc \<and> x_source_delivery_id x = d"

definition new_entry ::
    "string \<Rightarrow> string \<Rightarrow> string \<Rightarrow> string \<Rightarrow> string \<Rightarrow> ingress_phase \<Rightarrow> string \<Rightarrow> string \<Rightarrow> string \<Rightarrow> real \<Rightarrow> real \<Rightarrow> entry" where
  "new_entry i sf sc d turn p th acc dref t age =
     \<lparr>x_entry_id = i, x_surface = sf, x_scope = sc, x_source_delivery_id = d, x_turn_id = turn, x_phase = p,
      x_text_hash = th, x_assistant_hash = [], x_binding_hash = [], x_accepted_text = acc, x_assistant_text = [],
      x_memory_ref = unattributed_ref 0, x_delivery_ref = dref, x_continuity_generation = 0,
      x_created_at = t, x_updated_at = t, x_expires_at = t + age, x_recovered_at = 0, x_last_error = []\<rparr>"

definition completed_order :: "entry \<Rightarrow> real \<times> string" where
  "completed_order x = (x_updated_at x, x_entry_id x)"

text \<open>A full journal drops the completed entry that was updated first.\<close>

definition make_room :: "journal_env \<Rightarrow> unit jprog" where
  "make_room w =
     bind (get entries) (\<lambda>es.
       if length es < max_entries (cfg w) then ret ()
       else (case sort_key completed_order (filter (\<lambda>x. x_phase x = Completed) (map snd es)) of
               [] \<Rightarrow> throw (Recovery ''conversation_ingress_capacity_exhausted'')
             | x # _ \<Rightarrow> change (\<lambda>s. s\<lparr>entries := dict_pop (x_entry_id x) (entries s)\<rparr>)))"

definition reserve_ingress ::
    "journal_env \<Rightarrow> pyval \<Rightarrow> pyval \<Rightarrow> pyval \<Rightarrow> pyval \<Rightarrow> pyval \<Rightarrow> pyval \<Rightarrow> pyval \<Rightarrow> receipt jprog" where
  "reserve_ingress w surface scope delivery text_hash turn reservation ttl_sec =
     bind (lift (origin_of w surface scope delivery)) (\<lambda>(sf, sc, d).
     bind (lift (sha_of (fns w) False text_hash)) (\<lambda>th.
     bind (lift (turn_id_of (fns w) turn)) (\<lambda>tn.
     bind (lift (sha_of (fns w) False reservation)) (\<lambda>rr.
     bind (lift (finite_nonnegative ''conversation_ingress_reservation_ttl_invalid'' ttl_sec)) (\<lambda>ttl.
     seq_ops (require (0 < ttl \<and> ttl \<le> max_age (cfg w)) (Recovery ''conversation_ingress_reservation_ttl_invalid''))
     (bind (lift (id_of_origin w sf sc d)) (\<lambda>i.
     seq_ops (begin_op w)
     (bind (get (\<lambda>s. (dict_get (entries s) i, entries s))) (\<lambda>(old, before).
     seq_ops
       (require (case old of None \<Rightarrow> True
                 | Some x \<Rightarrow> x_phase x = Reserved \<and> x_text_hash x = th \<and> x_turn_id x = tn \<and> same_origin x sf sc d)
          mismatch)
     (seq_ops (if old = None then make_room w else ret ())
     (bind (now w) (\<lambda>t.
     let x = new_entry i sf sc d tn Reserved th [] rr t ttl in
     seq_ops (change (\<lambda>s. s\<lparr>entries := dict_set i x (entries s)\<rparr>))
     (seq_ops (write_or_restore w before) (give_receipt w x (Some ''reserved'') False))))))))))))))"

definition claim_reserved_ingress ::
    "journal_env \<Rightarrow> pyval \<Rightarrow> pyval \<Rightarrow> pyval \<Rightarrow> pyval \<Rightarrow> pyval \<Rightarrow> pyval \<Rightarrow> receipt jprog" where
  "claim_reserved_ingress w surface scope delivery accepted turn reservation =
     bind (lift (origin_of w surface scope delivery)) (\<lambda>(sf, sc, d).
     bind (lift (content_of w ''conversation_ingress_accepted_text_invalid'' accepted)) (\<lambda>acc.
     let th = final_text_sha (fns w) acc in
     bind (lift (turn_id_of (fns w) turn)) (\<lambda>tn.
     bind (lift (sha_of (fns w) False reservation)) (\<lambda>rr.
     bind (lift (id_of_origin w sf sc d)) (\<lambda>i.
     seq_ops (begin_op w)
     (bind (entry_at w (PStr i)) (\<lambda>x.
     let exact = (x_text_hash x = th \<and> x_turn_id x = tn \<and> x_delivery_ref x = rr \<and> same_origin x sf sc d) in
     if x_phase x = Accepted \<and> exact then
       seq_ops (require (x_accepted_text x = acc) mismatch) (give_receipt w x None False)
     else
       seq_ops (require (x_phase x = Reserved \<and> exact) mismatch)
       (bind (now w) (\<lambda>t.
        seq_ops
          (mutate_and_write w
            (update_entry (x_entry_id x) (\<lambda>y. y\<lparr>x_phase := Accepted, x_accepted_text := acc, x_created_at := t,
               x_updated_at := t, x_expires_at := t + max_age (cfg w), x_recovered_at := 0\<rparr>)))
          (receipt_after w x (Some ''claimed'') True))))))))))"

definition claim ::
    "journal_env \<Rightarrow> pyval \<Rightarrow> pyval \<Rightarrow> pyval \<Rightarrow> pyval \<Rightarrow> pyval \<Rightarrow> receipt jprog" where
  "claim w surface scope delivery accepted turn =
     bind (lift (origin_of w surface scope delivery)) (\<lambda>(sf, sc, d).
     bind (lift (content_of w ''conversation_ingress_accepted_text_invalid'' accepted)) (\<lambda>acc.
     let th = final_text_sha (fns w) acc in
     bind (lift (id_of_origin w sf sc d)) (\<lambda>i.
     seq_ops (begin_op w)
     (bind (get (\<lambda>s. (dict_get (entries s) i, entries s))) (\<lambda>(old, before).
     (case old of
        Some x \<Rightarrow>
          seq_ops (require (x_text_hash x = th \<and> x_accepted_text x = acc \<and> same_origin x sf sc d) mismatch)
            (give_receipt w x None False)
      | None \<Rightarrow>
          bind (if text_of (fns w) turn \<noteq> [] then lift (turn_id_of (fns w) turn)
                else bind (ask (fresh_turn w)) (\<lambda>v. lift (turn_id_of (fns w) v))) (\<lambda>tn.
          seq_ops (make_room w)
          (bind (now w) (\<lambda>t.
          let x = new_entry i sf sc d tn Accepted th acc [] t (max_age (cfg w)) in
          seq_ops (change (\<lambda>s. s\<lparr>entries := dict_set i x (entries s)\<rparr>))
          (seq_ops (write_or_restore w before) (give_receipt w x (Some ''claimed'') True)))))))))))"

section \<open>Revoking reservations, resetting a guild\<close>

record revocation =
  rv_entry_id :: string
  rv_surface :: string
  rv_scope :: string
  rv_source_delivery_id :: string
  rv_turn_id :: string
  rv_text_hash :: string
  rv_reservation_ref :: string

definition revocation_invalid :: ingress_error where
  "revocation_invalid = Recovery ''conversation_ingress_reservation_revocation_invalid''"

definition revocation_of :: "journal_env \<Rightarrow> pyval \<Rightarrow> ingress_error + revocation" where
  "revocation_of w raw =
     (case raw of
        PDict r \<Rightarrow>
          bind_r (origin_of w (py_get r ''surface'') (py_get r ''scope'') (py_get r ''source_delivery_id'')) (\<lambda>(sf, sc, d).
          bind_r (id_of_origin w sf sc d) (\<lambda>i.
          bind_r (turn_id_of (fns w) (py_get r ''turn_id'')) (\<lambda>tn.
          bind_r (sha_of (fns w) False (py_get r ''text_hash'')) (\<lambda>th.
          bind_r (sha_of (fns w) False (py_get r ''reservation_ref'')) (\<lambda>rr.
          Inr \<lparr>rv_entry_id = i, rv_surface = sf, rv_scope = sc, rv_source_delivery_id = d, rv_turn_id = tn,
               rv_text_hash = th, rv_reservation_ref = rr\<rparr>)))))
      | _ \<Rightarrow> Inl revocation_invalid)"

fun map_result :: "('a \<Rightarrow> 'e + 'b) \<Rightarrow> 'a list \<Rightarrow> 'e + 'b list" where
  "map_result f [] = Inr []"
| "map_result f (x # xs) = bind_r (f x) (\<lambda>y. bind_r (map_result f xs) (\<lambda>ys. Inr (y # ys)))"

definition reserved_as :: "entry \<Rightarrow> revocation \<Rightarrow> bool" where
  "reserved_as x r \<longleftrightarrow> x_phase x = Reserved \<and> same_origin x (rv_surface r) (rv_scope r) (rv_source_delivery_id r) \<and>
     x_turn_id x = rv_turn_id r \<and> x_text_hash x = rv_text_hash r \<and> x_delivery_ref x = rv_reservation_ref r"

type_synonym binding = "string \<times> string \<times> string \<times> string"

definition revoke_reserved_ingress_batch :: "journal_env \<Rightarrow> pyval \<Rightarrow> (binding list \<times> int) jprog" where
  "revoke_reserved_ingress_batch w reservations =
     (case reservations of
        PList l \<Rightarrow>
          if l = [] \<or> length l > 256 then throw revocation_invalid
          else
            bind (lift (map_result (revocation_of w) l)) (\<lambda>rs0. let rs = sort_key rv_entry_id rs0 in
            seq_ops (require (distinct (map rv_entry_id rs)) revocation_invalid)
            (seq_ops (begin_op w)
            (bind (get entries) (\<lambda>before.
            seq_ops
              (require (list_all (\<lambda>r. case dict_get before (rv_entry_id r) of None \<Rightarrow> False | Some x \<Rightarrow> reserved_as x r) rs)
                 mismatch)
            (seq_ops (pop_entries (map rv_entry_id rs))
            (seq_ops (write_or_restore w before)
            (bind (get generation) (\<lambda>n.
             ret (map (\<lambda>r. (rv_entry_id r, rv_turn_id r, rv_text_hash r, rv_reservation_ref r)) rs, n)))))))))
      | _ \<Rightarrow> throw revocation_invalid)"

definition binding_of :: "entry \<Rightarrow> binding" where
  "binding_of x = (x_entry_id x, x_turn_id x, x_text_hash x, x_delivery_ref x)"

definition revoke_reserved_ingress_scope :: "journal_env \<Rightarrow> pyval \<Rightarrow> pyval \<Rightarrow> (binding list \<times> int) jprog" where
  "revoke_reserved_ingress_scope w surface scope =
     bind (lift (surface_of (fns w) surface)) (\<lambda>sf. bind (lift (scope_of (fns w) scope)) (\<lambda>sc.
     seq_ops (begin_op w)
     (bind (get entries) (\<lambda>before.
      let bs = map binding_of (filter (\<lambda>x. x_phase x = Reserved \<and> x_surface x = sf \<and> x_scope x = sc)
                 (sort_key x_entry_id (map snd before)))
      in seq_ops
           (if bs = [] then ret () else seq_ops (pop_entries (map fst bs)) (write_or_restore w before))
           (bind (get generation) (\<lambda>n. ret (bs, n)))))))"

definition guild_prefix :: "int \<Rightarrow> string" where
  "guild_prefix g = ''guild:'' @ int_str g @ '':''"

definition reset_guild :: "journal_env \<Rightarrow> pyval \<Rightarrow> (nat \<times> int) jprog" where
  "reset_guild w guild =
     bind (lift (nonnegative_int ''conversation_ingress_guild_id_invalid'' guild)) (\<lambda>g.
     seq_ops (begin_op w)
     (bind (get (\<lambda>s. map fst (filter (\<lambda>p. prefix (guild_prefix g) (x_scope (snd p))) (entries s)))) (\<lambda>is.
      seq_ops (if is = [] then ret () else mutate_and_write w (pop_entries is))
        (bind (get generation) (\<lambda>n. ret (length is, n))))))"

section \<open>The life of an entry\<close>

definition assistant_mismatch :: ingress_error where
  "assistant_mismatch = Mismatch ''conversation_ingress_assistant_binding_mismatch''"

definition transition_invalid :: ingress_error where
  "transition_invalid = Recovery ''conversation_ingress_transition_invalid''"

definition generation_code :: string where
  "generation_code = ''conversation_ingress_continuity_generation_invalid''"

text \<open>The final answer, its hash, its memory reference and the hash that binds them.\<close>

definition answer_of :: "journal_env \<Rightarrow> pyval \<Rightarrow> pyval \<Rightarrow> ingress_error + string \<times> string \<times> memory_ref \<times> string" where
  "answer_of w ans ref =
     bind_r (content_of w ''conversation_ingress_assistant_text_invalid'' ans) (\<lambda>a.
       let ah = final_text_sha (fns w) a; r = memory_ref_of (fns w) ref in
       bind_r (assistant_binding_hash (fns w) ah r) (\<lambda>bh. Inr (a, ah, r, bh)))"

definition with_answer :: "string \<times> string \<times> memory_ref \<times> string \<Rightarrow> entry \<Rightarrow> entry" where
  "with_answer a x =
     (case a of (txt, ah, r, bh) \<Rightarrow>
        x\<lparr>x_assistant_text := txt, x_assistant_hash := ah, x_binding_hash := bh, x_memory_ref := r\<rparr>)"

definition has_answer :: "string \<times> string \<times> memory_ref \<times> string \<Rightarrow> entry \<Rightarrow> bool" where
  "has_answer a x = (case a of (txt, ah, r, bh) \<Rightarrow> x_binding_hash x = bh \<and> x_assistant_text x = txt)"

definition mark_response_ready :: "journal_env \<Rightarrow> pyval \<Rightarrow> pyval \<Rightarrow> pyval \<Rightarrow> receipt jprog" where
  "mark_response_ready w i ans ref =
     bind (lift (answer_of w ans ref)) (\<lambda>a. seq_ops (begin_op w) (bind (entry_at w i) (\<lambda>x.
       if x_phase x \<noteq> Accepted then
         (if has_answer a x then give_receipt w x None False else throw assistant_mismatch)
       else
         seq_ops (mutate_and_write w (update_stamped w (x_entry_id x)
             (\<lambda>y. with_answer a (y\<lparr>x_phase := Response_Ready, x_last_error := []\<rparr>))))
           (receipt_after w x (Some ''response_ready'') False))))"

definition bind_response :: "journal_env \<Rightarrow> pyval \<Rightarrow> pyval \<Rightarrow> pyval \<Rightarrow> receipt jprog" where
  "bind_response w i ans ref =
     bind (lift (answer_of w ans ref)) (\<lambda>a. seq_ops (begin_op w) (bind (entry_at w i) (\<lambda>x.
       if x_assistant_text x \<noteq> [] then
         (if has_answer a x then give_receipt w x None False else throw assistant_mismatch)
       else
         seq_ops (require (x_phase x \<in> {Accepted, Delivery_Inflight, Delivery_Ambiguous}) transition_invalid)
         (seq_ops
           (mutate_and_write w
             (seq_ops (update_entry (x_entry_id x) (\<lambda>y. if x_phase y = Accepted then y\<lparr>x_phase := Response_Ready\<rparr> else y))
               (update_stamped w (x_entry_id x) (with_answer a))))
           (receipt_after w x None False)))))"

definition past_delivery :: "ingress_phase list" where
  "past_delivery =
     [Delivery_Inflight, Delivery_Succeeded, Delivery_Ambiguous, Terminal_Committing, Completed]"

definition ref_agrees :: "string \<Rightarrow> entry \<Rightarrow> bool" where
  "ref_agrees d x \<longleftrightarrow> d = [] \<or> x_delivery_ref x = d"

definition start_delivery :: "ingress_phase set \<Rightarrow> journal_env \<Rightarrow> pyval \<Rightarrow> pyval \<Rightarrow> receipt jprog" where
  "start_delivery from w i dref =
     bind (lift (delivery_ref_of (fns w) True dref)) (\<lambda>d. seq_ops (begin_op w) (bind (entry_at w i) (\<lambda>x.
       if x_phase x \<notin> from then
         (if x_phase x \<in> set past_delivery \<and> ref_agrees d x then give_receipt w x None False
          else throw transition_invalid)
       else
         seq_ops (mutate_and_write w (update_stamped w (x_entry_id x)
             (\<lambda>y. y\<lparr>x_phase := Delivery_Inflight, x_delivery_ref := d, x_last_error := []\<rparr>)))
           (receipt_after w x (Some ''delivery_inflight'') False))))"

definition mark_stream_delivery_inflight :: "journal_env \<Rightarrow> pyval \<Rightarrow> pyval \<Rightarrow> receipt jprog" where
  "mark_stream_delivery_inflight = start_delivery {Accepted, Response_Ready}"

definition mark_delivery_inflight :: "journal_env \<Rightarrow> pyval \<Rightarrow> pyval \<Rightarrow> receipt jprog" where
  "mark_delivery_inflight = start_delivery {Response_Ready}"

definition delivery_mismatch :: ingress_error where
  "delivery_mismatch = Mismatch ''conversation_ingress_delivery_binding_mismatch''"

definition mark_delivery_succeeded :: "journal_env \<Rightarrow> pyval \<Rightarrow> pyval \<Rightarrow> receipt jprog" where
  "mark_delivery_succeeded w i dref =
     bind (lift (delivery_ref_of (fns w) True dref)) (\<lambda>d. seq_ops (begin_op w) (bind (entry_at w i) (\<lambda>x.
       if x_phase x \<notin> {Delivery_Inflight, Delivery_Ambiguous} then
         (if x_phase x \<in> {Delivery_Succeeded, Terminal_Committing, Completed} \<and> ref_agrees d x
          then give_receipt w x None False
          else throw transition_invalid)
       else
         seq_ops (require (x_assistant_text x \<noteq> []) (Recovery ''conversation_ingress_response_not_bound''))
         (seq_ops (require (\<not> (d \<noteq> [] \<and> x_delivery_ref x \<noteq> [] \<and> x_delivery_ref x \<noteq> d)) delivery_mismatch)
         (seq_ops (mutate_and_write w (update_stamped w (x_entry_id x)
             (\<lambda>y. y\<lparr>x_phase := Delivery_Succeeded, x_delivery_ref := (if d \<noteq> [] then d else x_delivery_ref y),
                     x_last_error := []\<rparr>)))
           (receipt_after w x (Some ''delivery_succeeded'') False))))))"

definition mark_delivery_ambiguous :: "journal_env \<Rightarrow> pyval \<Rightarrow> pyval \<Rightarrow> receipt jprog" where
  "mark_delivery_ambiguous w i code =
     bind (lift (error_code (fns w) False code)) (\<lambda>c. seq_ops (begin_op w) (bind (entry_at w i) (\<lambda>x.
       if x_phase x = Delivery_Ambiguous then
         (if x_last_error x = c then give_receipt w x None False
          else throw (Mismatch ''conversation_ingress_error_binding_mismatch''))
       else if x_phase x \<in> {Terminal_Committing, Completed} then give_receipt w x None False
       else
         seq_ops (require (x_phase x = Delivery_Inflight) transition_invalid)
         (seq_ops (mutate_and_write w (update_stamped w (x_entry_id x)
             (\<lambda>y. y\<lparr>x_phase := Delivery_Ambiguous, x_last_error := c\<rparr>)))
           (receipt_after w x (Some ''delivery_ambiguous'') False)))))"

definition discard_ambiguous :: "journal_env \<Rightarrow> pyval \<Rightarrow> pyval \<Rightarrow> pyval \<Rightarrow> pyval \<Rightarrow> unit jprog" where
  "discard_ambiguous w i assistant_hash dref code =
     bind (lift (sha_of (fns w) True assistant_hash)) (\<lambda>h.
     bind (lift (delivery_ref_of (fns w) False dref)) (\<lambda>d.
     bind (lift (error_code (fns w) False code)) (\<lambda>c.
     seq_ops (begin_op w) (bind (entry_at w i) (\<lambda>x.
     seq_ops
       (require (x_phase x = Delivery_Ambiguous \<and> (h = [] \<or> x_assistant_hash x = h) \<and> x_delivery_ref x = d \<and>
                 x_last_error x = c) delivery_mismatch)
       (mutate_and_write w (pop_entries [x_entry_id x])))))))"

definition begin_terminal_commit :: "journal_env \<Rightarrow> pyval \<Rightarrow> pyval \<Rightarrow> pyval \<Rightarrow> pyval \<Rightarrow> receipt jprog" where
  "begin_terminal_commit w i gen ans ref =
     bind (lift (positive_int generation_code gen)) (\<lambda>n. bind (lift (answer_of w ans ref)) (\<lambda>a.
     seq_ops (begin_op w) (bind (entry_at w i) (\<lambda>x.
     seq_ops (require (has_answer a x) assistant_mismatch)
     (if x_phase x \<in> {Terminal_Committing, Completed} then
        seq_ops (require (x_continuity_generation x = n) (Mismatch ''conversation_ingress_generation_binding_mismatch''))
          (give_receipt w x None False)
      else
        seq_ops (require (x_phase x = Delivery_Succeeded) transition_invalid)
        (seq_ops (mutate_and_write w (update_stamped w (x_entry_id x)
            (\<lambda>y. y\<lparr>x_phase := Terminal_Committing, x_continuity_generation := n\<rparr>)))
          (receipt_after w x (Some ''terminal_committing'') False)))))))"

definition complete :: "journal_env \<Rightarrow> pyval \<Rightarrow> pyval \<Rightarrow> pyval \<Rightarrow> pyval \<Rightarrow> receipt jprog" where
  "complete w i gen ans ref =
     bind (lift (positive_int generation_code gen)) (\<lambda>n. bind (lift (answer_of w ans ref)) (\<lambda>a.
     seq_ops (begin_op w) (bind (entry_at w i) (\<lambda>x.
     seq_ops (require (has_answer a x \<and> x_continuity_generation x = n)
                (Mismatch ''conversation_ingress_terminal_binding_mismatch''))
     (if x_phase x = Completed then give_receipt w x None False
      else
        seq_ops (require (x_phase x = Terminal_Committing) transition_invalid)
        (seq_ops (mutate_and_write w (update_stamped w (x_entry_id x)
            (\<lambda>y. y\<lparr>x_phase := Completed, x_last_error := []\<rparr>)))
          (receipt_after w x (Some ''completed'') False)))))))"

section \<open>Read-outs\<close>

definition entry_if_any :: "journal_env \<Rightarrow> pyval \<Rightarrow> entry option jprog" where
  "entry_if_any w v =
     bind (lift (entry_id_of (fns w) v)) (\<lambda>i. seq_ops (begin_op w) (get (\<lambda>s. dict_get (entries s) i)))"

definition receipt_for :: "journal_env \<Rightarrow> pyval \<Rightarrow> receipt option jprog" where
  "receipt_for w i =
     bind (entry_if_any w i) (\<lambda>x.
       (case x of None \<Rightarrow> ret None | Some y \<Rightarrow> bind (give_receipt w y None False) (\<lambda>r. ret (Some r))))"

definition record_for :: "journal_env \<Rightarrow> pyval \<Rightarrow> recovery_record option jprog" where
  "record_for w i = bind (entry_if_any w i) (\<lambda>x. ret (map_option (record_of w) x))"

definition replay_record_for :: "journal_env \<Rightarrow> pyval \<Rightarrow> recovery_record option jprog" where
  "replay_record_for w i =
     bind (record_for w i) (\<lambda>r.
       (case r of
          None \<Rightarrow> ret None
        | Some d \<Rightarrow>
            seq_ops (require (x_phase (rd_entry d) = Completed) (Recovery ''conversation_ingress_replay_not_terminal''))
            (seq_ops (require (rd_replayable d) (Recovery ''conversation_ingress_replay_unattributed''))
              (ret (Some d)))))"

definition recovery_records :: "journal_env \<Rightarrow> recovery_record list jprog" where
  "recovery_records w =
     seq_ops (begin_op w)
       (get (\<lambda>s. map (record_of w)
          (filter (\<lambda>x. x_phase x \<notin> {Completed, Reserved}) (sort_key entry_order (map snd (entries s))))))"

record journal_status =
  js_state :: journal_state
  js_enabled :: bool
  js_generation :: int
  js_count :: nat
  js_phases :: "(string \<times> nat) list"
  js_integrity :: integrity_state
  js_head :: head_status
  js_protected :: bool
  js_last_code :: string

definition public_status :: "journal_env \<Rightarrow> journal \<Rightarrow> journal_status" where
  "public_status w s =
     \<lparr>js_state = jstate s, js_enabled = enabled w, js_generation = generation s, js_count = length (entries s),
      js_phases = map (\<lambda>p. (phase_value p, length (filter (\<lambda>q. x_phase (snd q) = p) (entries s))))
                    (sort_key phase_value ingress_phases),
      js_integrity = integrity s, js_head = head_state s,
      js_protected = (integrity s = I_Verified \<and> head_state s = H_Current), js_last_code = last_code s\<rparr>"

section \<open>Deleting by lineage\<close>

text \<open>A selector is a callable of the caller; \<open>Inl\<close> where it raises or does not answer a \<open>bool\<close>.\<close>

type_synonym selector = "string \<Rightarrow> ingress_error + bool"

record lineage_counts =
  removed_count :: nat
  remaining_copies :: nat
  manual_review :: nat

definition counts :: "nat \<Rightarrow> nat \<Rightarrow> nat \<Rightarrow> lineage_counts" where
  "counts removed remaining manual =
     \<lparr>removed_count = removed, remaining_copies = remaining, manual_review = manual\<rparr>"

definition fresh_exact_lineage_entries :: "journal_env \<Rightarrow> entry dict jprog" where
  "fresh_exact_lineage_entries w =
     bind (load_head w) (\<lambda>head. bind (read_file (journal_fault w) journal_file) (\<lambda>raw.
       let bad = Recovery ''conversation_ingress_exact_lineage_state_mismatch'' in
       (case raw of
          None \<Rightarrow>
            bind (get (\<lambda>s. head = None \<and> generation s = 0 \<and> entries s = [])) (\<lambda>fresh.
              seq_ops (require fresh bad) (ret []))
        | Some doc \<Rightarrow>
            bind (lift (validated_payload (fns w) (cfg w) doc)) (\<lambda>(es, n, prev, h).
            bind (get (\<lambda>s. head = Some (n, h) \<and> n = generation s \<and> h = last_hash s \<and>
                            set es = set (entries s))) (\<lambda>same.
              seq_ops (require same bad) (ret es))))))"

fun exact_lineage_targets :: "selector \<Rightarrow> selector \<Rightarrow> bool \<Rightarrow> entry dict \<Rightarrow> ingress_error + string list \<times> nat" where
  "exact_lineage_targets turn session full [] = Inr ([], 0)"
| "exact_lineage_targets turn session full ((i, x) # es) =
     bind_r
       (if full then bind_r (session (x_scope x)) (\<lambda>b. Inr (b, False))
        else if x_turn_id x \<noteq> [] then bind_r (turn (x_turn_id x)) (\<lambda>b. Inr (b, False))
        else bind_r (session (x_scope x)) (\<lambda>b. Inr (False, b))) (\<lambda>(hit, odd).
     bind_r (exact_lineage_targets turn session full es) (\<lambda>(is, n).
       Inr (if hit then i # is else is, if odd then Suc n else n)))"

definition fresh_targets :: "journal_env \<Rightarrow> selector \<Rightarrow> selector \<Rightarrow> bool \<Rightarrow> (string list \<times> nat) jprog" where
  "fresh_targets w turn session full =
     bind (fresh_exact_lineage_entries w) (\<lambda>es. lift (exact_lineage_targets turn session full es))"

definition negative_recall_exact_lineage ::
    "journal_env \<Rightarrow> selector \<Rightarrow> selector \<Rightarrow> bool \<Rightarrow> lineage_counts jprog" where
  "negative_recall_exact_lineage w turn session full =
     try_op
       (bind (fresh_targets w turn session full) (\<lambda>(is, n).
          ret (counts 0 (length is + n) (if n = 0 then 0 else 1))))
       (\<lambda>_. ret (counts 0 0 1))"

definition purge_exact_lineage ::
    "journal_env \<Rightarrow> selector \<Rightarrow> selector \<Rightarrow> bool \<Rightarrow> lineage_counts jprog" where
  "purge_exact_lineage w turn session full s =
     (case fresh_targets w turn session full s of
        (Inl er, s1) \<Rightarrow> ret (counts 0 0 1) s1
      | (Inr (is, n), s1) \<Rightarrow>
          (if n \<noteq> 0 then ret (counts 0 (length is + n) 1)
           else if is = [] then ret (counts 0 0 0)
           else
             bind (get entries) (\<lambda>before.
             try_op
               (seq_ops (pop_entries is)
               (seq_ops (write_scoped w)
               (bind (fresh_targets w turn session full) (\<lambda>(js, m).
                  ret (counts (length is) (length js + m) (if m = 0 then 0 else 1))))))
               (\<lambda>_. seq_ops (change (\<lambda>s. s\<lparr>entries := before\<rparr>)) (ret (counts 0 0 1))))) s1)"

end
