(* ===== verification/Ingress_Disk.thy ===== *)
theory Ingress_Disk
  imports Ingress_Ops "HOL-Library.Multiset"
begin

text \<open>
  The journal of accepted messages (\<open>conversation_ingress_recovery.py\<close>): what the disk holds, the
  invariant of the state, writing, and the well-formedness of changed entries. The hypotheses on the
  environment are \<open>text_ok\<close> (texts and hashes), \<open>cfg_ok\<close> (the limits as the constructor makes them) and
  \<open>clock_ok\<close> (the clock answers finite readings that are not negative; reads, writes, the callback and
  fresh turn ids may answer anything at any time).
\<close>

section \<open>Programs\<close>

lemma run_simps:
  "ret x s = (Inr x, s)" "throw er s = (Inl er, s)" "get f s = (Inr (f s), s)" "change g s = (Inr (), g s)"
  "lift (Inr x) s = (Inr x, s)" "lift (Inl er) s = (Inl er, s)" "ask h s = (Inr (h (tick s)), s\<lparr>tick := Suc (tick s)\<rparr>)"
  by (simp_all add: ret_def throw_def get_def change_def lift_def ask_def)

lemma bind_run:
  "bind m f s = (case m s of (Inl er, s1) \<Rightarrow> (Inl er, s1) | (Inr x, s1) \<Rightarrow> f x s1)"
  by (simp add: bind_def)

lemma bind_runs [simp]:
  "bind (get f) k s = k (f s) s" "bind (ret x) k s = k x s" "bind (throw er) k s = (Inl er, s)"
  "bind (lift (Inr x)) k s = k x s" "bind (lift (Inl er)) k s = (Inl er, s)"
  "bind (ask h) k s = k (h (tick s)) (s\<lparr>tick := Suc (tick s)\<rparr>)"
  by (simp_all add: bind_def run_simps)

lemma seq_runs [simp]:
  "seq_ops (change g) k s = k (g s)" "seq_ops (ret u) k s = k s" "seq_ops (throw er) k s = (Inl er, s)"
  by (simp_all add: seq_ops_def bind_def run_simps)

lemma require_run: "require b er s = (if b then (Inr (), s) else (Inl er, s))"
  by (simp add: require_def run_simps)

lemma seq_require [simp]: "seq_ops (require b er) k s = (if b then k s else (Inl er, s))"
  by (simp add: seq_ops_def bind_def require_run)

lemma seq_run: "seq_ops m k s = (case m s of (Inl er, s1) \<Rightarrow> (Inl er, s1) | (Inr u, s1) \<Rightarrow> k s1)"
  by (simp add: seq_ops_def bind_def)

definition clock_ok :: "journal_env \<Rightarrow> bool" where
  "clock_ok w \<longleftrightarrow> (\<forall>n. \<exists>t. finite_nonnegative timestamp_code (clock w n) = Inr t)"

definition clock_at :: "journal_env \<Rightarrow> nat \<Rightarrow> real" where
  "clock_at w n = (case finite_nonnegative timestamp_code (clock w n) of Inr t \<Rightarrow> t | Inl _ \<Rightarrow> 0)"

definition tock :: "journal \<Rightarrow> journal" where
  "tock s = s\<lparr>tick := Suc (tick s)\<rparr>"

lemma now_run: "clock_ok w \<Longrightarrow> now w s = (Inr (clock_at w (tick s)), tock s)"
  unfolding clock_ok_def now_def clock_at_def tock_def
  by (metis bind_runs(6) run_simps(5) sum.simps(6))

lemma bind_now: "clock_ok w \<Longrightarrow> bind (now w) k s = k (clock_at w (tick s)) (tock s)"
  by (simp add: bind_run now_run)

lemma clock_at_nonneg: "0 \<le> clock_at w n"
  using finite_nonneg_Inr by (auto simp: clock_at_def split: sum.split)

lemma tock_sel [simp]:
  "entries (tock s) = entries s" "generation (tock s) = generation s" "last_hash (tock s) = last_hash s"
  "jstate (tock s) = jstate s" "integrity (tock s) = integrity s" "journal_file (tock s) = journal_file s"
  "head_file (tock s) = head_file s" "head_state (tock s) = head_state s"
  by (simp_all add: tock_def)

section \<open>Memory and disk\<close>

definition cfg_ok :: "ingress_cfg \<Rightarrow> bool" where
  "cfg_ok g \<longleftrightarrow> max_age g \<ge> 1 \<and> max_entries g \<ge> 1 \<and> max_chars g \<ge> 1 \<and> max_bytes g \<ge> 4096"

lemma make_cfg_ok: "make_cfg a n c b = Inr g \<Longrightarrow> cfg_ok g"
  by (auto simp: make_cfg_def bind_r_Inr cfg_ok_def positive_int_def)

definition mem_ok :: "journal_env \<Rightarrow> entry dict \<Rightarrow> bool" where
  "mem_ok w es \<longleftrightarrow> distinct (map fst es) \<and> length es \<le> max_entries (cfg w) \<and>
     (\<forall>p \<in> set es. fst p = x_entry_id (snd p) \<and> entry_wf (fns w) (cfg w) (snd p))"

definition mirrored :: "journal_env \<Rightarrow> journal \<Rightarrow> bool" where
  "mirrored w s \<longleftrightarrow>
     (\<exists>d es prev hd. journal_file s = Doc d \<and> head_file s = Doc hd \<and>
        validated_payload (fns w) (cfg w) d = Inr (es, generation s, prev, last_hash s) \<and>
        set es = set (entries s) \<and> head_of (fns w) hd = Inr (generation s, last_hash s))"

lemma dict_set_new: "dict_get d k = None \<Longrightarrow> dict_set k v d = d @ [(k, v)]"
proof (induction d)
  case (Cons p d)
  then show ?case by (cases p) (auto simp: dict_get_def dict_set_def split: if_splits)
qed (simp add: dict_set_def)

lemma dict_get_append: "dict_get (d @ d') k = (case dict_get d k of None \<Rightarrow> dict_get d' k | Some v \<Rightarrow> Some v)"
  by (simp add: dict_get_def map_add_def split: option.split)

lemma dict_get_None: "dict_get d k = None \<longleftrightarrow> k \<notin> fst ` set d"
  by (simp add: dict_get_def map_of_eq_None_iff)

lemma validated_entries_json:
  assumes "text_ok e"
  shows "\<lbrakk>\<forall>x \<in> set xs. entry_wf e g x; distinct (map x_entry_id xs); \<forall>x \<in> set xs. dict_get acc (x_entry_id x) = None\<rbrakk>
    \<Longrightarrow> validated_entries e g acc (map entry_json xs) = Inr (acc @ map (\<lambda>x. (x_entry_id x, x)) xs)"
proof (induction xs arbitrary: acc)
  case (Cons x xs)
  have "\<forall>y \<in> set xs. dict_get (acc @ [(x_entry_id x, x)]) (x_entry_id y) = None"
    using Cons.prems by (auto simp: dict_get_append dict_get_Cons) (metis imageI)
  then show ?case using Cons by (simp add: entry_json_accepted [OF assms] dict_set_new)
qed simp

lemma policy_same: "validated_policy g (PDict (policy_dict g)) = Inr ()"
  by (simp add: validated_policy_def policy_dict_def)

lemma journal_hash_blank: "journal_hash e (payload_dict g n prev h t xs) = journal_hash e (payload_dict g n prev [] t xs)"
  by (simp add: journal_hash_def payload_dict_def)

lemma journal_hash_hex: "text_ok e \<Longrightarrow> journal_hash e d = Inr h \<Longrightarrow> hex_text 64 h"
  by (auto simp: journal_hash_def json_sha_def text_ok_def split: option.splits)

lemma payload_validated:
  assumes ok: "text_ok (fns w)" and m: "mem_ok w es" and prev: "hex_text 64 prev" and n: "n \<ge> 1" and t: "t \<ge> 0"
    and h: "journal_hash (fns w) (payload_dict (cfg w) n prev [] t xs) = Inr h"
    and xs: "xs = sort_key entry_order (map snd es)"
  shows "\<exists>es'. validated_payload (fns w) (cfg w) (PDict (payload_dict (cfg w) n prev h t xs)) = Inr (es', n, prev, h) \<and>
     set es' = set es"
proof -
  let ?es = "map (\<lambda>x. (x_entry_id x, x)) xs"
  have ids: "\<forall>p \<in> set es. fst p = x_entry_id (snd p) \<and> entry_wf (fns w) (cfg w) (snd p)" and d: "distinct (map fst es)"
    and len: "length es \<le> max_entries (cfg w)"
    using m by (auto simp: mem_ok_def)
  have mset: "mset xs = mset (map snd es)" by (simp add: xs)
  have "map fst es = map (x_entry_id \<circ> snd) es" using ids by (intro map_cong) auto
  then have dist: "distinct (map x_entry_id (map snd es))" using d by (metis map_map)
  have "distinct (map x_entry_id xs)"
    using mset_eq_imp_distinct_iff [of "map x_entry_id xs" "map x_entry_id (map snd es)"] dist mset
    by (simp add: multiset.map_comp)
  moreover have "\<forall>x \<in> set xs. entry_wf (fns w) (cfg w) x" using ids by (auto simp: xs)
  ultimately have v: "validated_entries (fns w) (cfg w) [] (map entry_json xs) = Inr ?es"
    using validated_entries_json [OF ok, of xs "cfg w" "[]"] by simp
  have "set ?es = set es"
  proof -
    have "set ?es = (\<lambda>p. (x_entry_id (snd p), snd p)) ` set es" by (force simp: xs)
    also have "\<dots> = set es" using ids by (force simp: image_iff)
    finally show ?thesis .
  qed
  moreover have "length xs \<le> max_entries (cfg w)" using len by (simp add: xs)
  moreover note sha_of_hex [OF ok prev] sha_of_hex [OF ok journal_hash_hex [OF ok h]]
  ultimately show ?thesis
    using v n t h policy_same journal_hash_blank [of "fns w" "cfg w" n prev h t xs]
    by (simp add: validated_payload_def py_get_def payload_dict_def payload_keys_def positive_int_def nonnegative_int_def)
qed

lemma head_validated:
  "\<lbrakk>text_ok e; hex_text 64 h; n \<ge> 1; t \<ge> 0\<rbrakk> \<Longrightarrow> head_of e (PDict (head_dict n h t)) = Inr (n, h)"
  by (simp add: head_of_def head_dict_def py_get_def head_keys_def sha_of_hex positive_int_def nonnegative_int_def)

section \<open>Writing\<close>

definition journal_inv :: "journal_env \<Rightarrow> journal \<Rightarrow> bool" where
  "journal_inv w s \<longleftrightarrow> mem_ok w (entries s) \<and> hex_text 64 (last_hash s) \<and> 0 \<le> generation s \<and>
     (jstate s = Ready \<longrightarrow> (if integrity s = I_Verified then mirrored w s else entries s = []))"

text \<open>Nothing but the files and the counter changed; nothing but the counter changed.\<close>

definition same_memory :: "journal \<Rightarrow> journal \<Rightarrow> bool" where
  "same_memory s s' \<longleftrightarrow> entries s' = entries s \<and> generation s' = generation s \<and> last_hash s' = last_hash s \<and>
     jstate s' = jstate s \<and> integrity s' = integrity s \<and> head_state s' = head_state s"

definition same_files :: "journal \<Rightarrow> journal \<Rightarrow> bool" where
  "same_files s s' \<longleftrightarrow> journal_file s' = journal_file s \<and> head_file s' = head_file s"

lemma same_memory_refl [simp]: "same_memory s s" and same_memory_tock [simp]: "same_memory s (tock s)"
  and same_files_refl [simp]: "same_files s s" and same_files_tock [simp]: "same_files s (tock s)"
  by (simp_all add: same_memory_def same_files_def)

lemma same_memory_trans: "same_memory s s1 \<Longrightarrow> same_memory s1 s2 \<Longrightarrow> same_memory s s2"
  by (simp add: same_memory_def)

lemma same_files_trans: "same_files s s1 \<Longrightarrow> same_files s1 s2 \<Longrightarrow> same_files s s2"
  by (simp add: same_files_def)

lemma ask_run: "bind (ask h) k s = k (h (tick s)) (tock s)"
  by (simp add: tock_def)

lemma write_journal_file:
  assumes "write_file out (\<lambda>f s. s\<lparr>journal_file := f\<rparr>) v s = (r, s')"
  shows "same_memory s s' \<and> head_file s' = head_file s \<and> (\<forall>u. r = Inr u \<longrightarrow> journal_file s' = Doc v)"
  using assms by (cases "out (tick s)") (auto simp: write_file_def run_simps same_memory_def)

lemma write_head_file:
  assumes "clock_ok w" "write_head w n h s = (r, s')"
  shows "same_memory s s' \<and> journal_file s' = journal_file s \<and>
    (\<forall>u. r = Inr u \<longrightarrow> (\<exists>t \<ge> 0. head_file s' = Doc (PDict (head_dict n h t))))"
  using assms clock_at_nonneg [of w "tick s"]
  by (cases "put_head w (Suc (tick s))")
     (auto simp: write_head_def bind_now write_file_def run_simps same_memory_def tock_def)

lemma persist_spec:
  assumes c: "clock_ok w" and p: "persist w d n h s = (r, s')"
  shows "same_memory s s' \<and>
    (\<forall>u. r = Inr u \<longrightarrow> journal_file s' = Doc d \<and> (\<exists>t \<ge> 0. head_file s' = Doc (PDict (head_dict n h t))))"
proof -
  obtain r1 s1 where 1: "write_file (put_journal w) (\<lambda>f s. s\<lparr>journal_file := f\<rparr>) d s = (r1, s1)" by fastforce
  obtain r2 s2 where 2: "write_head w n h s1 = (r2, s2)" by fastforce
  obtain r3 s3 where 3: "write_head w n h s2 = (r3, s3)" by fastforce
  note f1 = write_journal_file [OF 1] and f2 = write_head_file [OF c 2] and f3 = write_head_file [OF c 3]
  have run: "persist w d n h s =
      (case r1 of Inl er \<Rightarrow> (Inl er, s1) | Inr _ \<Rightarrow> (case r2 of Inl _ \<Rightarrow> (r3, s3) | Inr u \<Rightarrow> (Inr u, s2)))"
    by (simp add: persist_def seq_run try_op_def 1 2 3 split: sum.split)
  show ?thesis
  proof (cases r1)
    case (Inl er)
    then have "r = Inl er" "s' = s1" using p run by simp_all
    then show ?thesis using f1 by simp
  next
    case r1: (Inr u)
    show ?thesis
    proof (cases r2)
      case (Inl er)
      then have "r3 = r" "s3 = s'" using p run r1 by simp_all
      then show ?thesis using f1 f2 f3 r1 by (auto simp: same_memory_def)
    next
      case (Inr u')
      then have "r = Inr u'" "s' = s2" using p run r1 by simp_all
      then show ?thesis using f1 f2 r1 Inr by (auto simp: same_memory_def)
    qed
  qed
qed

lemma payload_run:
  "clock_ok w \<Longrightarrow> payload w n prev s =
     (let t = clock_at w (tick s); xs = sort_key entry_order (map snd (entries s)) in
      case journal_hash (fns w) (payload_dict (cfg w) n prev [] t xs) of
        Inl er \<Rightarrow> (Inl er, tock s) | Inr h \<Rightarrow> (Inr (PDict (payload_dict (cfg w) n prev h t xs), h), tock s))"
  by (cases "journal_hash (fns w) (payload_dict (cfg w) n prev [] (clock_at w (tick s))
        (sort_key entry_order (map snd (entries s))))") (simp_all add: payload_def bind_now Let_def run_simps)

lemma targets_allowed_same: "targets_allowed w s = (r, s') \<Longrightarrow> same_memory s s' \<and> same_files s s'"
  by (cases "target_allowed w (tick s)")
     (auto simp: targets_allowed_def run_simps lift_def same_memory_def same_files_def split: if_splits)

definition stored_ok :: "journal_env \<Rightarrow> journal \<Rightarrow> ingress_error + 'a \<Rightarrow> journal \<Rightarrow> bool" where
  "stored_ok w s r s' \<longleftrightarrow> entries s' = entries s \<and>
     (case r of
        Inr _ \<Rightarrow> jstate s' = jstate s \<and> integrity s' = I_Verified \<and> mirrored w s' \<and> hex_text 64 (last_hash s') \<and>
                 generation s' = generation s + 1
      | Inl _ \<Rightarrow> last_hash s' = last_hash s \<and> generation s' = generation s \<and>
                 (same_memory s s' \<and> same_files s s' \<or> jstate s' = Failed))"

lemma store_spec:
  assumes ok: "text_ok (fns w)" and c: "clock_ok w" and m: "mem_ok w (entries s)"
    and g: "0 \<le> generation s" and l: "hex_text 64 (last_hash s)" and st: "store w s = (r, s')"
  shows "stored_ok w s r s'"
proof -
  obtain r1 s1 where 1: "targets_allowed w s = (r1, s1)" by fastforce
  note same1 = targets_allowed_same [OF 1]
  show ?thesis
  proof (cases "r1 = Inr True")
    case False
    then have "r = (case r1 of Inl er \<Rightarrow> Inl er | Inr _ \<Rightarrow> Inl (Recovery ''conversation_ingress_target_rejected'')) \<and> s' = s1"
      using st by (cases r1) (auto simp: store_def bind_run 1 split: bool.splits)
    then show ?thesis using same1 by (cases r1) (auto simp: stored_ok_def same_memory_def)
  next
    case True
    define n where "n = generation s + 1"
    define t where "t = clock_at w (tick s1)"
    define xs where "xs = sort_key entry_order (map snd (entries s))"
    have run: "store w s = (case journal_hash (fns w) (payload_dict (cfg w) n (last_hash s) [] t xs) of
        Inl er \<Rightarrow> (Inl er, tock s1)
      | Inr h \<Rightarrow>
          let doc = PDict (payload_dict (cfg w) n (last_hash s) h t xs) in
          if doc_size w doc \<le> max_bytes (cfg w) then
            (case persist w doc n h (tock s1) of
               (Inl er, s2) \<Rightarrow> (Inl er, write_failed s2)
             | (Inr u, s2) \<Rightarrow> (Inr (), s2\<lparr>generation := n, last_hash := h, integrity := I_Verified,
                                           head_state := H_Current, last_code := []\<rparr>))
          else (Inl (Recovery ''conversation_ingress_capacity_exhausted''), tock s1))"
      using same1 True
      by (simp add: store_def bind_run [of "targets_allowed w"] 1 bind_run [of "payload w _ _"] payload_run [OF c]
          Let_def same_memory_def n_def t_def xs_def seq_run try_op_def run_simps require_run
          split: sum.split prod.split)
    show ?thesis
    proof (cases "journal_hash (fns w) (payload_dict (cfg w) n (last_hash s) [] t xs)")
      case (Inl er)
      then show ?thesis using run st same1 by (auto simp: stored_ok_def same_memory_def same_files_def)
    next
      case (Inr h)
      define doc where "doc = PDict (payload_dict (cfg w) n (last_hash s) h t xs)"
      obtain r2 s2 where 2: "persist w doc n h (tock s1) = (r2, s2)" by fastforce
      note p = persist_spec [OF c 2]
      have same2: "entries s2 = entries s" "generation s2 = generation s" "last_hash s2 = last_hash s" "jstate s2 = jstate s"
        using p same1 by (auto simp: same_memory_def)
      have n: "n \<ge> 1" and t: "t \<ge> 0" using g clock_at_nonneg by (simp_all add: n_def t_def)
      note h = journal_hash_hex [OF ok Inr]
      obtain es where es: "validated_payload (fns w) (cfg w) doc = Inr (es, n, last_hash s, h)" "set es = set (entries s)"
        using payload_validated [OF ok m l n t Inr xs_def] by (auto simp: doc_def)
      have run2: "(r, s') = (if doc_size w doc \<le> max_bytes (cfg w) then
            (case r2 of Inl er \<Rightarrow> (Inl er, write_failed s2)
             | Inr u \<Rightarrow> (Inr (), s2\<lparr>generation := n, last_hash := h, integrity := I_Verified,
                                       head_state := H_Current, last_code := []\<rparr>))
          else (Inl (Recovery ''conversation_ingress_capacity_exhausted''), tock s1))"
        using st run Inr 2 by (cases r2) (auto simp: doc_def [symmetric] split: if_splits)
      show ?thesis
      proof (cases "doc_size w doc \<le> max_bytes (cfg w)")
        case True
        show ?thesis
        proof (cases r2)
          case (Inl er)
          then show ?thesis using run2 True same2 by (simp add: stored_ok_def write_failed_def)
        next
          case r2: (Inr u)
          with p obtain t' where t': "t' \<ge> 0" "head_file s2 = Doc (PDict (head_dict n h t'))" "journal_file s2 = Doc doc"
            by auto
          have s': "r = Inr ()" "s' = s2\<lparr>generation := n, last_hash := h, integrity := I_Verified,
                                       head_state := H_Current, last_code := []\<rparr>"
            using run2 True r2 by simp_all
          have "mirrored w s'"
            using t' es same2 head_validated [OF ok h n t'(1)] by (simp add: s' mirrored_def)
          then show ?thesis using same2 h by (simp add: s' stored_ok_def n_def)
        qed
      next
        case False
        then show ?thesis using run2 same1 by (simp add: stored_ok_def same_memory_def same_files_def)
      qed
    qed
  qed
qed

section \<open>Committing\<close>

definition live :: "journal_env \<Rightarrow> journal \<Rightarrow> bool" where
  "live w s \<longleftrightarrow> enabled w \<and> jstate s = Ready \<and> journal_inv w s"

definition env_ok :: "journal_env \<Rightarrow> bool" where
  "env_ok w \<longleftrightarrow> text_ok (fns w) \<and> cfg_ok (cfg w) \<and> clock_ok w"

lemma env_text: "env_ok w \<Longrightarrow> text_ok (fns w)"
  by (simp add: env_ok_def)

text \<open>The new entries are in memory and on disk; or nothing is lost and the journal may have failed.\<close>

definition committed :: "journal_env \<Rightarrow> entry dict \<Rightarrow> journal \<Rightarrow> bool" where
  "committed w es s \<longleftrightarrow> live w s \<and> entries s = es \<and> integrity s = I_Verified"

definition kept :: "journal_env \<Rightarrow> entry dict \<Rightarrow> journal \<Rightarrow> bool" where
  "kept w es s \<longleftrightarrow> journal_inv w s \<and> entries s = es \<and> jstate s \<in> {Ready, Failed}"

definition outcome :: "journal_env \<Rightarrow> entry dict \<Rightarrow> entry dict \<Rightarrow> ingress_error + 'a \<Rightarrow> journal \<Rightarrow> bool" where
  "outcome w before after r s \<longleftrightarrow> (case r of Inr _ \<Rightarrow> committed w after s | Inl _ \<Rightarrow> kept w before s)"

lemma mirrored_cong:
  "\<lbrakk>same_files s s'; generation s' = generation s; last_hash s' = last_hash s; set (entries s') = set (entries s)\<rbrakk>
   \<Longrightarrow> mirrored w s \<Longrightarrow> mirrored w s'"
  by (simp add: mirrored_def same_files_def)

lemma journal_inv_tock [simp]: "journal_inv w (tock s) = journal_inv w s"
  by (simp add: journal_inv_def mirrored_def)

lemma live_tock [simp]: "live w (tock s) = live w s"
  by (simp add: live_def)

lemma live_inv: "live w s \<Longrightarrow> journal_inv w s"
  by (simp add: live_def)

lemma live_mem: "live w s \<Longrightarrow> mem_ok w (entries s)"
  by (simp add: live_def journal_inv_def)

lemma live_kept: "live w s \<Longrightarrow> kept w (entries s) s"
  by (simp add: live_def kept_def)

lemma targets_current_same: "targets_current f xs s = (r, s') \<Longrightarrow> same_memory s s' \<and> same_files s s'"
proof (induction xs arbitrary: s)
  case (Cons x xs)
  then show ?case
    by (cases "f x (tick s)") (fastforce simp: run_simps same_memory_def same_files_def)+
qed (simp add: run_simps)

lemma require_targets_same:
  "require_mutation_targets_current w s = (r, s') \<Longrightarrow> same_memory s s' \<and> same_files s s'"
  using targets_current_same
  by (auto simp: require_mutation_targets_current_def run_simps split: option.splits)

lemma require_ready_live: "enabled w \<Longrightarrow> jstate s = Ready \<Longrightarrow> require_ready w s = (Inr (), s)"
  by (simp add: require_ready_def ensure_ready_def seq_run run_simps require_run)

lemma write_journal_spec:
  assumes w: "env_ok w" "enabled w" and r: "jstate s = Ready" and m: "mem_ok w (entries s)"
    and g: "0 \<le> generation s" and l: "hex_text 64 (last_hash s)" and run: "write_journal w s = (r, s')"
  shows "stored_ok w s r s'"
proof -
  obtain r1 s1 where 1: "require_mutation_targets_current w s = (r1, s1)" by fastforce
  note same = require_targets_same [OF 1]
  show ?thesis
  proof (cases r1)
    case (Inl er)
    then show ?thesis using run same by (auto simp: write_journal_def seq_run 1 stored_ok_def same_memory_def)
  next
    case (Inr u)
    have "jstate s1 = Ready" using same r by (simp add: same_memory_def)
    then have "store w s1 = (r, s')"
      using run Inr w by (simp add: write_journal_def write_scoped_def seq_run 1 require_ready_live)
    then have "stored_ok w s1 r s'"
      by (rule store_spec [rotated -1]) (use same w m g l in \<open>simp_all add: same_memory_def env_ok_def\<close>)
    then show ?thesis using same
      by (cases r) (auto simp: stored_ok_def same_memory_def same_files_def)
  qed
qed

lemma commit_spec:
  assumes w: "env_ok w" and s: "live w s" and same: "same_files s s1" "jstate s1 = Ready" "generation s1 = generation s"
      "last_hash s1 = last_hash s" "integrity s1 = integrity s"
    and m: "mem_ok w (entries s1)" and run: "write_or_restore w (entries s) s1 = (r, s')"
  shows "outcome w (entries s) (entries s1) r s'"
proof -
  have en: "enabled w" and inv: "journal_inv w s" using s by (simp_all add: live_def)
  obtain r2 s2 where 2: "write_journal w s1 = (r2, s2)" by fastforce
  have st: "stored_ok w s1 r2 s2"
    by (rule write_journal_spec [OF w en same(2) m _ _ 2]) (use inv same in \<open>simp_all add: journal_inv_def\<close>)
  show ?thesis
  proof (cases r2)
    case (Inr u)
    then have "r = Inr u" "s' = s2" using run by (simp_all add: write_or_restore_def try_op_def 2)
    then show ?thesis using st Inr en m same inv
      by (simp add: outcome_def committed_def stored_ok_def live_def journal_inv_def)
  next
    case (Inl er)
    then have r: "r = Inl er" "s' = s2\<lparr>entries := entries s\<rparr>"
      using run by (simp_all add: write_or_restore_def try_op_def 2 seq_run run_simps)
    have "jstate s' = Ready \<longrightarrow> (if integrity s' = I_Verified then mirrored w s' else entries s' = [])"
    proof (cases "jstate s2 = Failed")
      case False
      then have "same_memory s1 s2" "same_files s1 s2" using st Inl by (auto simp: stored_ok_def)
      then have "same_files s s'" "generation s' = generation s" "last_hash s' = last_hash s" "integrity s' = integrity s"
        "entries s' = entries s"
        using same by (simp_all add: r same_files_def same_memory_def)
      then show ?thesis using mirrored_cong [of s s' w] s by (simp add: live_def journal_inv_def)
    qed (simp add: r)
    then show ?thesis using st Inl inv same
      by (auto simp: outcome_def kept_def journal_inv_def r stored_ok_def same_memory_def)
  qed
qed

lemma mem_ok_filter: "mem_ok w es \<Longrightarrow> mem_ok w (filter Q es)"
  by (auto simp: mem_ok_def distinct_map_filter intro: le_trans [OF length_filter_le])

lemma prune_spec:
  assumes w: "env_ok w" and s: "live w s" and run: "prune_expired w s = (r, s')"
  shows "(case r of Inr _ \<Rightarrow> live w s' \<and> entries s' = unexpired (clock_at w (tick s)) (entries s)
          | Inl _ \<Rightarrow> kept w (entries s) s')"
proof -
  let ?es = "unexpired (clock_at w (tick s)) (entries s)"
  have c: "clock_ok w" using w by (simp add: env_ok_def)
  show ?thesis
  proof (cases "?es = entries s")
    case True
    then show ?thesis using run s by (auto simp: prune_expired_def bind_now [OF c] run_simps)
  next
    case False
    let ?s = "(tock s)\<lparr>entries := ?es\<rparr>"
    have "write_or_restore w (entries (tock s)) ?s = (r, s')"
      using run False by (simp add: prune_expired_def bind_now [OF c])
    then have "outcome w (entries (tock s)) (entries ?s) r s'"
      by (rule commit_spec [OF w, rotated -1])
        (use s live_mem [OF s] in \<open>auto simp: same_files_def unexpired_def mem_ok_filter live_def\<close>)
    then show ?thesis by (auto simp: outcome_def committed_def split: sum.split)
  qed
qed

lemma mutate_spec:
  assumes w: "env_ok w" and s: "live w s" and m: "m s = (Inr (), s1)"
    and same: "same_files s s1" "jstate s1 = Ready" "generation s1 = generation s" "last_hash s1 = last_hash s"
      "integrity s1 = integrity s"
    and ok: "mem_ok w (map (touch (clock_at w (tick s1)) (entries s)) (entries s1))"
    and run: "mutate_and_write w m s = (r, s')"
  shows "outcome w (entries s) (map (touch (clock_at w (tick s1)) (entries s)) (entries s1)) r s'"
proof -
  have c: "clock_ok w" using w by (simp add: env_ok_def)
  let ?s = "(tock s1)\<lparr>entries := map (touch (clock_at w (tick s1)) (entries s)) (entries s1)\<rparr>"
  have "write_or_restore w (entries s) ?s = (r, s')"
    using run by (simp add: mutate_and_write_def seq_run [of m] m bind_now [OF c])
  then have "outcome w (entries s) (entries ?s) r s'"
    by (rule commit_spec [OF w s, rotated -1]) (use same ok in \<open>simp_all add: same_files_def\<close>)
  then show ?thesis by simp
qed

section \<open>Dictionaries of entries\<close>

lemma touch_member: "distinct (map fst es) \<Longrightarrow> p \<in> set es \<Longrightarrow> touch t es p = p"
  by (cases p) (simp add: touch_def dict_get_def Let_def)

lemma touch_filter: "distinct (map fst es) \<Longrightarrow> map (touch t es) (filter Q es) = filter Q es"
  using touch_member by (intro map_idI) auto

definition stamp :: "real \<Rightarrow> entry dict \<Rightarrow> string \<Rightarrow> entry \<Rightarrow> entry" where
  "stamp t es i y = snd (touch t es (i, y))"

lemma fst_touch [simp]: "fst (touch t es p) = fst p"
  by (simp add: touch_def Let_def split: option.split)

lemma map_dict_set:
  "distinct (map fst d) \<Longrightarrow> dict_get d i \<noteq> None \<Longrightarrow> (\<And>p. p \<in> set d \<Longrightarrow> f p = p) \<Longrightarrow> (\<And>p. fst (f p) = fst p) \<Longrightarrow>
   map f (dict_set i y d) = dict_set i (snd (f (i, y))) d"
proof (induction d)
  case (Cons p d)
  have "f (i, y) = (i, snd (f (i, y)))" using Cons.prems(4) [of "(i, y)"] by (metis fst_conv prod.collapse)
  moreover have "map f d = d" using Cons.prems(3) by (intro map_idI) auto
  ultimately show ?case
    using Cons by (cases p) (auto simp: dict_get_def dict_set_def split: if_splits)
qed (simp add: dict_get_def)

lemma touch_set:
  "distinct (map fst es) \<Longrightarrow> dict_get es i \<noteq> None \<Longrightarrow>
   map (touch t es) (dict_set i y es) = dict_set i (stamp t es i y) es"
  unfolding stamp_def by (rule map_dict_set) (simp_all add: touch_member)

lemma dict_pop_filter: "dict_pop k d = filter (\<lambda>p. fst p \<noteq> k) d"
  by (auto simp: dict_pop_def AList.delete_eq intro: filter_cong)

lemma fold_pop: "fold dict_pop is d = filter (\<lambda>p. fst p \<notin> set is) d"
  by (induction "is" arbitrary: d) (auto simp: dict_pop_filter intro: filter_cong)

lemma dict_set_members: "set (dict_set k v d) \<subseteq> insert (k, v) (set d)"
  by (induction d) (auto simp: dict_set_def)

lemma dict_set_len: "length (dict_set k v d) = (if dict_get d k = None then Suc (length d) else length d)"
  by (induction d) (auto simp: dict_set_def dict_get_def)

lemma mem_ok_set:
  "\<lbrakk>mem_ok w es; dict_get es i \<noteq> None \<or> length es < max_entries (cfg w); entry_wf (fns w) (cfg w) y; x_entry_id y = i\<rbrakk>
   \<Longrightarrow> mem_ok w (dict_set i y es)"
  using dict_set_members [of i y es] by (auto simp: mem_ok_def dict_set_len)

lemma mem_ok_get: "mem_ok w es \<Longrightarrow> dict_get es i = Some x \<Longrightarrow> entry_wf (fns w) (cfg w) x \<and> x_entry_id x = i"
  using dict_get_mem by (fastforce simp: mem_ok_def)

lemma stamp_same [simp]: "dict_get es i = Some x \<Longrightarrow> y \<noteq> x \<Longrightarrow>
    stamp t es i y = y\<lparr>x_updated_at := logical_entry_updated_at y (max t (x_updated_at x))\<rparr>"
  "dict_get es i = Some x \<Longrightarrow> stamp t es i x = x"
  by (simp_all add: stamp_def touch_def)

section \<open>Well-formed changes\<close>

lemma restamp_wf:
  assumes "entry_wf e g y"
  shows "entry_wf e g (y\<lparr>x_updated_at := logical_entry_updated_at (y\<lparr>x_updated_at := a\<rparr>) b\<rparr>)"
  using assms by (auto simp: entry_wf_def identity_wf_def hashes_wf_def times_wf_def logical_entry_updated_at_def)

text \<open>What \<open>mutate_and_write\<close> makes of a change that also reads the clock.\<close>

lemma stamp_wf:
  assumes x: "dict_get es i = Some x" and wf: "entry_wf e g x" "entry_wf e g y"
  shows "entry_wf e g (stamp t es i (y\<lparr>x_updated_at := a\<rparr>))"
proof (cases "y\<lparr>x_updated_at := a\<rparr> = x")
  case True
  then show ?thesis using x wf by simp
next
  case False
  then show ?thesis using restamp_wf [OF wf(2), of a "max t (x_updated_at x)"] x by simp
qed

lemma stamp_selectors [simp]:
  "x_entry_id (stamp t es i y) = x_entry_id y" "x_phase (stamp t es i y) = x_phase y"
  "x_surface (stamp t es i y) = x_surface y" "x_scope (stamp t es i y) = x_scope y"
  "x_source_delivery_id (stamp t es i y) = x_source_delivery_id y" "x_turn_id (stamp t es i y) = x_turn_id y"
  "x_text_hash (stamp t es i y) = x_text_hash y" "x_accepted_text (stamp t es i y) = x_accepted_text y"
  "x_assistant_text (stamp t es i y) = x_assistant_text y" "x_assistant_hash (stamp t es i y) = x_assistant_hash y"
  "x_binding_hash (stamp t es i y) = x_binding_hash y" "x_memory_ref (stamp t es i y) = x_memory_ref y"
  "x_delivery_ref (stamp t es i y) = x_delivery_ref y"
  "x_created_at (stamp t es i y) = x_created_at y" "x_expires_at (stamp t es i y) = x_expires_at y"
  "x_recovered_at (stamp t es i y) = x_recovered_at y"
  by (simp_all add: stamp_def touch_def Let_def split: option.split)

lemma answer_ok:
  assumes ok: "text_ok (fns w)" and a: "answer_of w ans ref = Inr (tx, ah, r, bh)"
  shows "normalize_text (fns w) tx = tx" "tx \<noteq> []" "length tx \<le> max_chars (cfg w)" "ah = final_text_sha (fns w) tx"
    "ref_ok (canon_id (fns w)) r" "assistant_binding_hash (fns w) ah r = Inr bh" "hex_text 64 bh"
proof -
  show 1: "assistant_binding_hash (fns w) ah r = Inr bh" "ah = final_text_sha (fns w) tx"
    using a by (auto simp: answer_of_def bind_r_Inr Let_def)
  then show "hex_text 64 bh"
    using ok by (auto simp: assistant_binding_hash_def json_sha_def text_ok_def split: option.splits)
  show "normalize_text (fns w) tx = tx" "tx \<noteq> []" "length tx \<le> max_chars (cfg w)"
    using a text_of_idem [OF ok] by (auto simp: answer_of_def content_of_def bind_r_Inr Let_def)
  have "r = memory_ref_of (fns w) ref" using a by (auto simp: answer_of_def bind_r_Inr Let_def)
  then show "ref_ok (canon_id (fns w)) r"
    by (auto simp: memory_ref_of_def unattributed_ref_def plain_ok sanitize_ok split: option.split)
qed

lemma with_answer_wf:
  assumes ok: "text_ok (fns w)" and a: "answer_of w ans ref = Inr a" and x: "entry_wf (fns w) (cfg w) x"
    and p: "x_phase x \<in> {Accepted, Delivery_Inflight, Delivery_Ambiguous}"
      "p = (if x_phase x = Accepted then Response_Ready else x_phase x)"
    and c: "c = x_last_error x \<or> c = []"
  shows "entry_wf (fns w) (cfg w) (with_answer a (x\<lparr>x_phase := p, x_last_error := c\<rparr>))"
proof -
  obtain tx ah r bh where A: "a = (tx, ah, r, bh)" by (cases a)
  note ok' = answer_ok [OF ok a [unfolded A]] and hex = sha_of_hex [OF ok] final_sha_hex [OF ok]
  have "error_code (fns w) True (PStr c) = Inr c"
    using c x by (auto simp: entry_wf_def error_code_def normalize_Nil [OF ok])
  moreover have "bh \<noteq> []" using ok'(7) by auto
  moreover have "x_text_hash x = final_text_sha (fns w) (x_accepted_text x)" "hex_text 64 (x_text_hash x)"
    using x p(1) by (auto simp: entry_wf_def hashes_wf_def)
  moreover have "p \<notin> {Reserved, Accepted}" using p by auto
  ultimately have "hashes_wf (fns w) (with_answer a (x\<lparr>x_phase := p, x_last_error := c\<rparr>))"
    unfolding hashes_wf_def A with_answer_def ok'(4)
    using ok'(2,5,6,7) hex(1) [OF hex(2)] hex(1) by (simp add: ok'(4))
  moreover have "texts_fit (cfg w) p (x_accepted_text x) tx"
    using x p ok'(3) by (auto simp: entry_wf_def texts_fit_def)
  moreover have "generation_fits p (x_continuity_generation x)"
    using x p by (auto simp: entry_wf_def generation_fits_def)
  moreover have "p \<noteq> Reserved" using p by auto
  ultimately show ?thesis
    using x ok'(1) \<open>error_code (fns w) True (PStr c) = Inr c\<close>
    by (simp add: entry_wf_def identity_wf_def times_wf_def A with_answer_def)
qed

lemmas wf_defs = entry_wf_def identity_wf_def hashes_wf_def times_wf_def texts_fit_def generation_fits_def

lemma error_code_Nil: "text_ok e \<Longrightarrow> error_code e True (PStr []) = Inr []"
  by (simp add: error_code_def normalize_Nil)

lemma move_wf:
  assumes wf: "entry_wf e g x" and p: "x_phase x \<noteq> Reserved" "p \<notin> {Reserved, Accepted}"
    and a: "x_assistant_text x = [] \<longrightarrow> p \<in> set no_response_phases" and n: "generation_fits p n"
    and r: "delivery_ref_of e True (PStr r) = Inr r" and c: "error_code e True (PStr c) = Inr c"
  shows "entry_wf e g (x\<lparr>x_phase := p, x_delivery_ref := r, x_continuity_generation := n, x_last_error := c\<rparr>)"
    (is "entry_wf e g ?y")
proof -
  have "hashes_wf e ?y"
    using wf p a unfolding entry_wf_def hashes_wf_def by (cases "x_assistant_text x = []") auto
  moreover have "texts_fit g p (x_accepted_text x) (x_assistant_text x)"
    using wf p by (simp add: entry_wf_def texts_fit_def)
  ultimately show ?thesis
    using wf p n r c by (simp add: entry_wf_def identity_wf_def times_wf_def)
qed

lemma entry_wf_parts:
  assumes "entry_wf e g x"
  shows "delivery_ref_of e True (PStr (x_delivery_ref x)) = Inr (x_delivery_ref x)"
    "error_code e True (PStr (x_last_error x)) = Inr (x_last_error x)"
    "generation_fits (x_phase x) (x_continuity_generation x)"
    "x_assistant_text x = [] \<Longrightarrow> x_phase x \<in> set no_response_phases"
  using assms by (simp_all add: entry_wf_def hashes_wf_def)

lemma inflight_wf:
  assumes "text_ok e" "entry_wf e g x" "x_phase x \<in> {Accepted, Response_Ready}" "delivery_ref_of e True v = Inr d"
  shows "entry_wf e g (x\<lparr>x_phase := Delivery_Inflight, x_delivery_ref := d, x_last_error := []\<rparr>)"
proof -
  have "generation_fits Delivery_Inflight (x_continuity_generation x)"
    using entry_wf_parts(3) [OF assms(2)] assms(3) by (auto simp: generation_fits_def)
  with move_wf [OF assms(2), of Delivery_Inflight "x_continuity_generation x" d "[]"] show ?thesis
    using assms(3) error_code_Nil [OF assms(1)] delivery_ref_stable [OF assms(1,4)] by (auto simp: no_response_phases_def)
qed

lemma succeeded_wf:
  assumes "text_ok e" "entry_wf e g x" "x_phase x \<in> {Delivery_Inflight, Delivery_Ambiguous}" "x_assistant_text x \<noteq> []"
    "delivery_ref_of e True v = Inr d"
  shows "entry_wf e g (x\<lparr>x_phase := Delivery_Succeeded, x_delivery_ref := (if d \<noteq> [] then d else x_delivery_ref x),
    x_last_error := []\<rparr>)"
proof -
  define r where "r = (if d \<noteq> [] then d else x_delivery_ref x)"
  have "delivery_ref_of e True (PStr r) = Inr r"
    using entry_wf_parts(1) [OF assms(2)] delivery_ref_stable [OF assms(1,5)] by (simp add: r_def)
  moreover have "generation_fits Delivery_Succeeded (x_continuity_generation x)"
    using entry_wf_parts(3) [OF assms(2)] assms(3) by (auto simp: generation_fits_def)
  ultimately show ?thesis
    unfolding r_def [symmetric]
    using move_wf [OF assms(2), of Delivery_Succeeded "x_continuity_generation x" r "[]"] assms(3,4) error_code_Nil [OF assms(1)]
    by auto
qed

lemma ambiguous_wf:
  assumes "text_ok e" "entry_wf e g x" "x_phase x = Delivery_Inflight" "error_code e False v = Inr c"
  shows "entry_wf e g (x\<lparr>x_phase := Delivery_Ambiguous, x_last_error := c\<rparr>)"
proof -
  have "error_code e True (PStr c) = Inr c"
    using error_code_stable [OF assms(1,4)] by (auto simp: error_code_def Let_def split: if_splits)
  moreover have "generation_fits Delivery_Ambiguous (x_continuity_generation x)"
    using entry_wf_parts(3) [OF assms(2)] assms(3) by (simp add: generation_fits_def)
  ultimately show ?thesis
    using move_wf [OF assms(2), of Delivery_Ambiguous "x_continuity_generation x" "x_delivery_ref x" c] assms(3)
      entry_wf_parts(1) [OF assms(2)]
    by (simp add: no_response_phases_def)
qed

lemma terminal_wf:
  assumes "entry_wf e g x" "x_phase x = Delivery_Succeeded" "n \<ge> 1"
  shows "entry_wf e g (x\<lparr>x_phase := Terminal_Committing, x_continuity_generation := n\<rparr>)"
  using move_wf [OF assms(1), of Terminal_Committing n "x_delivery_ref x" "x_last_error x"] entry_wf_parts [OF assms(1)] assms(2,3)
  by (auto simp: no_response_phases_def generation_fits_def)

lemma completed_wf:
  assumes "text_ok e" "entry_wf e g x" "x_phase x = Terminal_Committing"
  shows "entry_wf e g (x\<lparr>x_phase := Completed, x_last_error := []\<rparr>)"
  using move_wf [OF assms(2), of Completed "x_continuity_generation x" "x_delivery_ref x" "[]"] entry_wf_parts [OF assms(2)] assms(3)
    error_code_Nil [OF assms(1)]
  by (auto simp: no_response_phases_def generation_fits_def)

lemma promoted_wf:
  assumes "text_ok e" "cfg_ok g" "entry_wf e g x" "x_phase x = Reserved" "acc \<noteq> []" "length acc \<le> max_chars g"
    "normalize_text e acc = acc" "x_text_hash x = final_text_sha e acc" "t \<ge> 0"
  shows "entry_wf e g (x\<lparr>x_phase := Accepted, x_accepted_text := acc, x_created_at := t, x_updated_at := t,
    x_expires_at := t + max_age g, x_recovered_at := 0\<rparr>)"
  using assms by (auto simp: wf_defs cfg_ok_def no_response_phases_def split: if_splits)

lemma origin_stable:
  assumes "text_ok (fns w)" "origin_of w a b c = Inr (sf, sc, d)"
  shows "surface_of (fns w) (PStr sf) = Inr sf" "scope_of (fns w) (PStr sc) = Inr sc" "delivery_id_of (fns w) (PStr d) = Inr d"
  using assms surface_stable scope_stable delivery_id_stable by (auto simp: origin_of_def bind_r_Inr)

lemma entry_id_of_hash: "text_ok e \<Longrightarrow> hex_text 64 h \<Longrightarrow> entry_id_of e (PStr (entry_id_prefix @ h)) = Inr (entry_id_prefix @ h)"
proof -
  assume ok: "text_ok e" and h: "hex_text 64 h"
  have p: "entry_id_pattern (entry_id_prefix @ h)" using h by (simp add: entry_id_pattern_def entry_id_prefix_def)
  then show ?thesis
    using normalize_plain [OF ok, of "entry_id_prefix @ h"] entry_id_plain [OF p] by (simp add: entry_id_of_def Let_def)
qed

lemma id_of_origin_ok:
  assumes ok: "text_ok (fns w)" and o: "origin_of w a b c = Inr (sf, sc, d)" and i: "id_of_origin w sf sc d = Inr i"
  shows "entry_id_of (fns w) (PStr i) = Inr i"
    "conversation_ingress_entry_id (fns w) (PStr sf) (PStr sc) (PStr d) = Inr i"
proof -
  show 1: "conversation_ingress_entry_id (fns w) (PStr sf) (PStr sc) (PStr d) = Inr i"
    using i by (simp add: id_of_origin_def)
  then obtain h where "i = entry_id_prefix @ h" "hex_text 64 h"
    using origin_stable [OF ok o] ok
    by (auto simp: conversation_ingress_entry_id_def bind_r_Inr json_sha_def text_ok_def split: option.splits)
  then show "entry_id_of (fns w) (PStr i) = Inr i" using entry_id_of_hash [OF ok] by simp
qed

lemma unattributed_state [simp]: "r_state (unattributed_ref n) = Unattributed"
  by (simp add: unattributed_ref_def)

lemma hex_printable: "c \<in> set ''0123456789abcdef'' \<Longrightarrow> 32 \<le> (of_char c :: nat)"
  by auto

lemma new_entry_wf:
  assumes ok: "text_ok (fns w)" and g: "cfg_ok (cfg w)" and o: "origin_of w a b c = Inr (sf, sc, d)"
    and i: "id_of_origin w sf sc d = Inr i" and tn: "turn_id_of (fns w) v = Inr tn" and t: "t \<ge> 0"
    and age: "0 < age" "age \<le> max_age (cfg w)" and th: "hex_text 64 th"
    and p: "p = Reserved \<and> acc = [] \<and> hex_text 64 dref \<or>
      p = Accepted \<and> acc \<noteq> [] \<and> length acc \<le> max_chars (cfg w) \<and> normalize_text (fns w) acc = acc \<and>
      th = final_text_sha (fns w) acc \<and> dref = []"
  shows "entry_wf (fns w) (cfg w) (new_entry i sf sc d tn p th acc dref t age)"
proof -
  have "sha_of (fns w) True (PStr []) = Inr []" by (simp add: sha_of_def normalize_Nil [OF ok])
  moreover have "delivery_ref_of (fns w) True (PStr dref) = Inr dref"
  proof (cases "dref = []")
    case True
    then show ?thesis by (simp add: delivery_ref_of_def bounded_identifier_def normalize_Nil [OF ok])
  next
    case False
    then have h: "hex_text 64 dref" using p by auto
    then have "\<forall>x \<in> set dref. 32 \<le> (of_char x :: nat)"
      using hex_printable unfolding hex_text_def list_all_iff by blast
    then have "\<not> list_ex (\<lambda>x. (of_char x :: nat) < 32) dref" by (force simp: list_ex_iff)
    then show ?thesis
      using h hex_list [of dref] normalize_plain [OF ok, of dref] False
      by (simp add: delivery_ref_of_def bounded_identifier_def hex_text_def Let_def)
  qed
  moreover have "ref_ok (canon_id (fns w)) (unattributed_ref 0)" by (simp add: unattributed_ref_def plain_ok)
  moreover have "identity_wf (fns w) (new_entry i sf sc d tn p th acc dref t age)"
    using origin_stable [OF ok o] id_of_origin_ok [OF ok o i] turn_id_stable [OF ok tn]
    by (simp add: identity_wf_def new_entry_def)
  moreover have "times_wf (cfg w) (new_entry i sf sc d tn p th acc dref t age)"
    using age t by (simp add: times_wf_def new_entry_def)
  moreover have "hashes_wf (fns w) (new_entry i sf sc d tn p th acc dref t age)" if "sha_of (fns w) True (PStr []) = Inr []"
      "ref_ok (canon_id (fns w)) (unattributed_ref 0)"
    using that p th by (elim disjE) (simp_all add: hashes_wf_def new_entry_def no_response_phases_def)
  moreover have "texts_fit (cfg w) p acc []" using p by (auto simp: texts_fit_def)
  moreover have "generation_fits p 0" using p by (auto simp: generation_fits_def)
  moreover have "normalize_text (fns w) acc = acc" using p normalize_Nil [OF ok] by auto
  ultimately show ?thesis
    using p normalize_Nil [OF ok] error_code_Nil [OF ok]
    by (elim disjE) (simp_all add: entry_wf_def new_entry_def)
qed

end
