(* ===== verification/Ingress_Load.thy ===== *)
theory Ingress_Load
  imports Ingress_Disk
begin

text \<open>
  The journal of accepted messages (\<open>conversation_ingress_recovery.py\<close>): what loading and the
  recovery after a restart establish.
\<close>

section \<open>What loading establishes\<close>

lemma recover_entry_wf:
  assumes ok: "text_ok e" and wf: "entry_wf e g x" and t: "t \<ge> 0"
  shows "entry_wf e g (recover_entry t x)" "x_entry_id (recover_entry t x) = x_entry_id x"
proof -
  define y where "y = (if x_phase x = Delivery_Inflight
      then x\<lparr>x_phase := Delivery_Ambiguous, x_last_error := ''conversation_ingress_delivery_ambiguous_after_restart''\<rparr> else x)"
  have c: "''conversation_ingress_delivery_ambiguous_after_restart'' \<in> set error_codes" by (simp add: error_codes_def)
  have "error_code e False (PStr ''conversation_ingress_delivery_ambiguous_after_restart'') =
      Inr ''conversation_ingress_delivery_ambiguous_after_restart''"
    using error_code_plain [OF c] normalize_plain [OF ok] c by (simp add: error_code_def)
  then have "entry_wf e g y" using ambiguous_wf [OF ok wf] wf by (simp add: y_def)
  then have y: "entry_wf e g (y\<lparr>x_recovered_at := (if x_recovered_at y = 0 then logical_entry_updated_at y t else x_recovered_at y),
      x_updated_at := logical_entry_updated_at y t\<rparr>)"
    by (auto simp: entry_wf_def identity_wf_def hashes_wf_def times_wf_def logical_entry_updated_at_def)
  show "entry_wf e g (recover_entry t x)"
    using y wf unfolding recover_entry_def Let_def y_def [symmetric] by simp
  show "x_entry_id (recover_entry t x) = x_entry_id x" by (simp add: recover_entry_def Let_def)
qed

lemma recovered_ok:
  assumes "text_ok (fns w)" "mem_ok w es" "t \<ge> 0"
  shows "mem_ok w (map (\<lambda>p. (fst p, recover_entry t (snd p))) (unexpired t es))"
proof -
  have "mem_ok w (unexpired t es)" using assms(2) by (simp add: unexpired_def mem_ok_filter)
  then show ?thesis using recover_entry_wf [OF assms(1) _ assms(3)] by (auto simp: mem_ok_def comp_def)
qed

lemma validated_entries_ok:
  assumes ok: "text_ok e"
  shows "validated_entries e g acc vs = Inr es \<Longrightarrow>
     distinct (map fst acc) \<and> (\<forall>p \<in> set acc. fst p = x_entry_id (snd p) \<and> entry_wf e g (snd p)) \<Longrightarrow>
     distinct (map fst es) \<and> (\<forall>p \<in> set es. fst p = x_entry_id (snd p) \<and> entry_wf e g (snd p)) \<and>
     length es = length acc + length vs"
proof (induction vs arbitrary: acc)
  case (Cons v vs)
  then obtain x where x: "validated_entry e g v = Inr x" "dict_get acc (x_entry_id x) = None"
      "validated_entries e g (dict_set (x_entry_id x) x acc) vs = Inr es"
    by (auto simp: bind_r_Inr split: if_splits)
  then have "entry_wf e g x" by (intro validated_entry_wf [OF ok])
  then show ?case
    using Cons.IH [OF x(3)] Cons.prems x(2) by (auto simp: dict_set_new dict_get_None)
qed simp

lemma validated_payload_ok:
  assumes ok: "text_ok (fns w)" and v: "validated_payload (fns w) (cfg w) d = Inr (es, n, prev, h)"
  shows "mem_ok w es" "n \<ge> 1" "hex_text 64 h"
proof -
  obtain f where d: "d = PDict f" using v by (cases d) (simp_all add: validated_payload_def)
  obtain l where e: "py_get f ''entries'' = PList l"
    using v by (cases "py_get f ''entries''") (auto simp: d validated_payload_def bind_r_Inr)
  have "validated_entries (fns w) (cfg w) [] l = Inr es" and l: "length l \<le> max_entries (cfg w)"
      and n: "positive_int ''conversation_ingress_generation_invalid'' (py_get f ''generation'') = Inr n"
      and h: "sha_of (fns w) False (py_get f ''journalHash'') = Inr h"
    using v by (auto simp: d e validated_payload_def bind_r_Inr)
  from validated_entries_ok [OF ok this(1)] l show "mem_ok w es" by (simp add: mem_ok_def)
  show "n \<ge> 1" using n by (auto simp: positive_int_def bind_r_Inr)
  show "hex_text 64 h" using sha_of_Inr [OF h] by simp
qed

lemma head_of_ok: "head_of e v = Inr (n, h) \<Longrightarrow> n \<ge> 1 \<and> hex_text 64 h"
  using sha_of_Inr by (auto simp: head_of_def bind_r_Inr positive_int_def split: pyval.splits)

lemma read_file_run:
  assumes "read_file fault f s = (r, s')"
  shows "s' = tock s"
    "r = Inr v \<Longrightarrow> v = (case f (tock s) of Doc d \<Rightarrow> Some d | _ \<Rightarrow> None)"
  using assms by (auto simp: read_file_def run_simps tock_def split: option.splits stored_file.splits)

lemma load_head_run:
  assumes "load_head w s = (r, s')"
  shows "s' = tock s" "r = Inr (Some (n, h)) \<Longrightarrow> \<exists>d. head_file s = Doc d \<and> head_of (fns w) d = Inr (n, h)"
proof -
  obtain r1 s1 where 1: "read_file (head_fault w) head_file s = (r1, s1)" by fastforce
  note rf = read_file_run [OF 1]
  show "s' = tock s" using assms rf(1)
    by (auto simp: load_head_def bind_run 1 run_simps lift_def split: sum.splits option.splits)
  show "\<exists>d. head_file s = Doc d \<and> head_of (fns w) d = Inr (n, h)" if "r = Inr (Some (n, h))"
    using assms rf(2) that
    by (auto simp: load_head_def bind_run 1 run_simps lift_def split: sum.splits option.splits stored_file.splits)
qed

text \<open>\<open>write_loaded\<close> on a journal whose entries may not have been written yet.\<close>

lemma write_loaded_spec:
  assumes w: "env_ok w" and m: "mem_ok w (entries s)" and g: "0 \<le> generation s" and l: "hex_text 64 (last_hash s)"
    and run: "write_loaded w s = (r, s')"
  shows "stored_ok w s r s'" "r = Inr u \<Longrightarrow> enabled w \<and> jstate s = Ready"
proof -
  obtain r1 s1 where 1: "require_mutation_targets_current w s = (r1, s1)" by fastforce
  note same = require_targets_same [OF 1]
  have run1: "write_loaded w s = (case r1 of Inl er \<Rightarrow> (Inl er, s1) | Inr _ \<Rightarrow>
      if enabled w \<and> jstate s1 = Ready then store w s1 else (Inl unavailable, s1))"
    by (simp add: write_loaded_def seq_run 1 ensure_ready_def require_run split: sum.split)
  have "stored_ok w s r s' \<and> (r = Inr u \<longrightarrow> enabled w \<and> jstate s = Ready)"
  proof (cases "r1 = Inr () \<and> enabled w \<and> jstate s1 = Ready")
    case True
    then have "store w s1 = (r, s')" using run run1 by auto
    then have "stored_ok w s1 r s'"
      by (rule store_spec [rotated -1]) (use same w m g l in \<open>simp_all add: same_memory_def env_ok_def\<close>)
    then show ?thesis using same True by (cases r) (auto simp: stored_ok_def same_memory_def same_files_def)
  next
    case False
    then have "\<exists>er. r = Inl er" "s' = s1" using run run1 by (auto split: sum.splits if_splits)
    then show ?thesis using same by (auto simp: stored_ok_def same_memory_def)
  qed
  then show "stored_ok w s r s'" "r = Inr u \<Longrightarrow> enabled w \<and> jstate s = Ready" by auto
qed

definition head_known :: "journal_env \<Rightarrow> (int \<times> string) option \<Rightarrow> journal \<Rightarrow> bool" where
  "head_known w head s \<longleftrightarrow>
     (\<forall>n h. head = Some (n, h) \<longrightarrow> (\<exists>d. head_file s = Doc d \<and> head_of (fns w) d = Inr (n, h)))"

definition memory_ok :: "journal_env \<Rightarrow> journal \<Rightarrow> bool" where
  "memory_ok w s \<longleftrightarrow> mem_ok w (entries s) \<and> hex_text 64 (last_hash s) \<and> 0 \<le> generation s"

lemma inv_memory: "journal_inv w s \<Longrightarrow> memory_ok w s"
  by (simp add: journal_inv_def memory_ok_def)

lemma memory_inv: "memory_ok w s \<Longrightarrow> jstate s \<noteq> Ready \<Longrightarrow> journal_inv w s"
  by (simp add: journal_inv_def memory_ok_def)

lemma memory_ok_tock [simp]: "memory_ok w (tock s) = memory_ok w s"
  by (simp add: memory_ok_def)

lemma mem_ok_Nil [simp]: "mem_ok w []"
  by (simp add: mem_ok_def)

lemma match_head_spec:
  assumes w: "env_ok w" and hd: "head_known w head s" and n: "n \<ge> 1" and h: "hex_text 64 h"
    and run: "match_head w head n prev h s = (r, s')"
  shows "same_memory s s'" "journal_file s' = journal_file s"
    "r = Inr u \<Longrightarrow> \<exists>d. head_file s' = Doc d \<and> head_of (fns w) d = Inr (n, h)"
proof -
  have c: "clock_ok w" using w by (simp add: env_ok_def)
  have wr: "same_memory s s' \<and> journal_file s' = journal_file s \<and>
      (r = Inr u \<longrightarrow> (\<exists>d. head_file s' = Doc d \<and> head_of (fns w) d = Inr (n, h)))"
    if "write_head w n h s = (r, s')"
    using write_head_file [OF c that] head_validated [OF env_text [OF w] h n] by auto
  have "same_memory s s' \<and> journal_file s' = journal_file s \<and>
      (r = Inr u \<longrightarrow> (\<exists>d. head_file s' = Doc d \<and> head_of (fns w) d = Inr (n, h)))"
    using run wr hd by (auto simp: match_head_def head_known_def run_simps split: option.splits if_splits)
  then show "same_memory s s'" "journal_file s' = journal_file s"
    "r = Inr u \<Longrightarrow> \<exists>d. head_file s' = Doc d \<and> head_of (fns w) d = Inr (n, h)" by auto
qed

lemma stored_inv:
  assumes st: "stored_ok w s r s'" and m: "memory_ok w s" and i: "\<forall>er. r = Inl er \<longrightarrow> journal_inv w s"
  shows "journal_inv w s'"
proof (cases r)
  case (Inl e)
  then have dj: "same_memory s s' \<and> same_files s s' \<or> jstate s' = Failed" and eq: "entries s' = entries s"
      "last_hash s' = last_hash s" "generation s' = generation s"
    using st by (auto simp: stored_ok_def)
  from dj show ?thesis
  proof
    assume "same_memory s s' \<and> same_files s s'"
    moreover have "journal_inv w s \<or> jstate s' = Failed" using i Inl st by (auto simp: stored_ok_def)
    ultimately show ?thesis
      using i Inl m mirrored_cong [of s s' w] by (auto simp: journal_inv_def same_memory_def memory_ok_def)
  next
    assume "jstate s' = Failed"
    then show ?thesis using m eq by (simp add: journal_inv_def memory_ok_def)
  qed
qed (use st m in \<open>simp add: stored_ok_def journal_inv_def memory_ok_def\<close>)

lemma bootstrap_spec:
  assumes w: "env_ok w" and s: "journal_inv w s" and run: "bootstrap w after_restart head s = (r, s')"
  shows "journal_inv w s'"
proof -
  have main: "journal_inv w (snd (try_op (write_loaded w) (\<lambda>_. ret ()) t))" if t: "journal_inv w t" for t
  proof -
    obtain r1 s1 where 1: "write_loaded w t = (r1, s1)" by fastforce
    have "stored_ok w t r1 s1"
      by (rule write_loaded_spec [OF w _ _ _ 1]) (use t in \<open>simp_all add: journal_inv_def\<close>)
    then have "journal_inv w s1" by (rule stored_inv [OF _ inv_memory [OF t]]) (simp add: t)
    then show ?thesis by (cases r1) (simp_all add: try_op_def 1 run_simps)
  qed
  let ?f = "s\<lparr>jstate := Ready, integrity := I_Missing, head_state := H_Missing, last_code := []\<rparr>"
  have f: "journal_inv w ?f" if "generation s = 0 \<and> entries s = []" using s that by (simp add: journal_inv_def)
  have "bootstrap w after_restart head s =
      (if head \<noteq> None then (Inl (Recovery ''conversation_ingress_journal_missing_after_head''), s)
       else if after_restart then try_op (write_loaded w) (\<lambda>_. ret ()) s
       else if generation s = 0 \<and> entries s = [] then try_op (write_loaded w) (\<lambda>_. ret ()) ?f
       else (Inl (Recovery ''conversation_ingress_journal_missing''), s))"
    by (cases head; cases after_restart; cases "generation s = 0 \<and> entries s = []")
      (auto simp: bootstrap_def seq_run [of "bind _ _"] run_simps require_run)
  then show ?thesis
    using s main [OF s] main [OF f] arg_cong [OF run, of snd] by (simp split: if_splits)
qed


lemma recover_spec:
  assumes w: "env_ok w" and s: "journal_inv w s" and rd: "jstate s = Ready" "integrity s = I_Verified"
    and run: "recover_after_restart w s = (r, s')"
  shows "memory_ok w s'" "r = Inr u \<Longrightarrow> journal_inv w s'"
proof -
  define es where "es = map (\<lambda>p. (fst p, recover_entry (clock_at w (tick s)) (snd p))) (unexpired (clock_at w (tick s)) (entries s))"
  define t where "t = (tock s)\<lparr>entries := es\<rparr>"
  have c: "clock_ok w" and ok: "text_ok (fns w)" using w by (simp_all add: env_ok_def)
  have es: "mem_ok w es"
    unfolding es_def by (rule recovered_ok [OF ok _ clock_at_nonneg]) (use s in \<open>simp add: journal_inv_def\<close>)
  have run1: "recover_after_restart w s = (if es \<noteq> entries s then write_loaded w t else (Inr (), t))"
    by (simp add: recover_after_restart_def bind_now [OF c] es_def t_def run_simps)
  have mt: "memory_ok w t" using inv_memory [OF s] es by (simp add: memory_ok_def t_def)
  have "memory_ok w s' \<and> (r = Inr u \<longrightarrow> journal_inv w s')"
  proof (cases "es = entries s")
    case True
    then have "t = tock s" by (simp add: t_def tock_def)
    then have "s' = tock s" using run run1 True by simp
    then show ?thesis using s inv_memory [OF s] by simp
  next
    case False
    then have "write_loaded w t = (r, s')" using run run1 by simp
    then have st: "stored_ok w t r s'"
      by (rule write_loaded_spec [OF w, rotated -1]) (use mt in \<open>simp_all add: memory_ok_def\<close>)
    then have "memory_ok w s'" using mt by (cases r) (simp_all add: stored_ok_def memory_ok_def)
    moreover have "r = Inr u \<longrightarrow> journal_inv w s'" using stored_inv [OF st mt] by auto
    ultimately show ?thesis by blast
  qed
  then show "memory_ok w s'" "r = Inr u \<Longrightarrow> journal_inv w s'" by auto
qed

lemma load_journal_spec:
  assumes w: "env_ok w" and s: "journal_inv w s" and hd: "head_known w head s"
    and run: "load_journal w after_restart head s = (r, s')"
  shows "memory_ok w s'" "r = Inr u \<or> \<not> after_restart \<and> jstate s \<noteq> Ready \<Longrightarrow> journal_inv w s'"
proof -
  obtain r1 s1 where 1: "read_file (journal_fault w) journal_file s = (r1, s1)" by fastforce
  note rf = read_file_run [OF 1]
  have s1: "journal_inv w s1" and hd1: "head_known w head s1" and j1: "jstate s1 = jstate s"
    using s hd by (simp_all add: rf(1) head_known_def)
  let ?goal = "memory_ok w s' \<and> (r = Inr u \<or> \<not> after_restart \<and> jstate s \<noteq> Ready \<longrightarrow> journal_inv w s')"
  have "?goal"
  proof (cases r1)
    case (Inl er)
    then have "s' = s1" using run by (simp add: load_journal_def bind_run 1)
    then show ?thesis using s1 inv_memory by blast
  next
    case (Inr raw)
    show ?thesis
    proof (cases raw)
      case None
      then have "bootstrap w after_restart head s1 = (r, s')" using run Inr by (simp add: load_journal_def bind_run 1)
      then show ?thesis using bootstrap_spec [OF w s1] inv_memory by blast
    next
      case (Some doc)
      have disk: "journal_file s1 = Doc doc"
        using rf(2) Inr Some by (auto simp: rf(1) split: stored_file.splits)
      show ?thesis
      proof (cases "validated_payload (fns w) (cfg w) doc")
        case (Inl er)
        then have "s' = s1" using run \<open>r1 = Inr raw\<close> Some by (simp add: load_journal_def bind_run 1 lift_def)
        then show ?thesis using s1 inv_memory by blast
      next
        case vd: (Inr q)
        obtain es n prev h where q: "q = (es, n, prev, h)" by (cases q) auto
        note v = validated_payload_ok [OF env_text [OF w] vd [unfolded q]]
        obtain r2 s2 where 2: "match_head w head n prev h s1 = (r2, s2)" by fastforce
        note mh = match_head_spec [OF w hd1 v(2,3) 2]
        show ?thesis
        proof (cases r2)
          case (Inl er)
          then have "s' = s2" using run \<open>r1 = Inr raw\<close> Some vd q
            by (simp add: load_journal_def bind_run [of "read_file _ _"] 1 seq_run [of "match_head _ _ _ _ _"] 2 run_simps)
          moreover have "memory_ok w s2" "jstate s2 = jstate s"
            using inv_memory [OF s1] mh(1) j1 by (simp_all add: memory_ok_def same_memory_def)
          moreover have "r = Inl er" using Inl run \<open>r1 = Inr raw\<close> Some vd q
            by (simp add: load_journal_def bind_run [of "read_file _ _"] 1 seq_run [of "match_head _ _ _ _ _"] 2 run_simps)
          ultimately show ?thesis using memory_inv by auto
        next
          case r2: (Inr u')
          define t where "t = s2\<lparr>entries := es, generation := n, last_hash := h, integrity := I_Verified,
                                head_state := H_Current, jstate := Ready, last_code := []\<rparr>"
          have run2: "(if after_restart then recover_after_restart w t else (Inr (), t)) = (r, s')"
            using run \<open>r1 = Inr raw\<close> Some vd q r2
            by (simp add: load_journal_def bind_run [of "read_file _ _"] 1 seq_run [of "match_head _ _ _ _ _"] 2 run_simps t_def
                split: if_splits)
          have "mirrored w t"
            using mh(2) mh(3) [OF r2] disk vd q by (auto simp: mirrored_def t_def)
          then have t: "journal_inv w t" "jstate t = Ready" "integrity t = I_Verified"
            using v by (auto simp: journal_inv_def t_def)
          show ?thesis
          proof (cases after_restart)
            case True
            then have "recover_after_restart w t = (r, s')" using run2 by simp
            then show ?thesis using recover_spec [OF w t] True by blast
          next
            case False
            then show ?thesis using run2 t inv_memory by auto
          qed
        qed
      qed
    qed
  qed
  then show "memory_ok w s'" "r = Inr u \<or> \<not> after_restart \<and> jstate s \<noteq> Ready \<Longrightarrow> journal_inv w s'" by auto
qed

lemma load_failed_spec:
  assumes m: "memory_ok w s" and hd: "\<forall>n h. head = Some (n, h) \<longrightarrow> 0 \<le> n \<and> hex_text 64 h"
    and run: "load_failed head er s = (r, s')" and j: "r = Inr u \<or> journal_inv w s"
  shows "journal_inv w s'"
  using assms
  by (cases er; cases head)
     (auto simp: load_failed_def run_simps write_failed_def memory_ok_def journal_inv_def split: if_splits)

lemma load_inv:
  assumes w: "env_ok w" and s: "journal_inv w s" and run: "load w after_restart s = (r, s')"
    and j: "r = Inr u \<or> \<not> after_restart \<and> jstate s \<noteq> Ready"
  shows "journal_inv w s'"
proof -
  obtain r1 s1 where 1: "load_head w s = (r1, s1)" by fastforce
  note lh = load_head_run [OF 1]
  have s1: "journal_inv w s1" using s by (simp add: lh(1))
  show ?thesis
  proof (cases r1)
    case (Inl er)
    then have "load_failed None er s1 = (r, s')" using run by (simp add: load_def 1)
    then show ?thesis by (rule load_failed_spec [OF inv_memory [OF s1], rotated]) (use s1 in simp_all)
  next
    case (Inr head)
    have hd: "head_known w head s1" "\<forall>n h. head = Some (n, h) \<longrightarrow> 0 \<le> n \<and> hex_text 64 h"
      using lh(2) Inr head_of_ok by (fastforce simp: head_known_def lh(1))+
    obtain r2 s2 where 2: "load_journal w after_restart head s1 = (r2, s2)" by fastforce
    note lj = load_journal_spec [OF w s1 hd(1) 2]
    show ?thesis
    proof (cases r2)
      case (Inl er)
      then have f: "load_failed head er s2 = (r, s')" using run Inr by (simp add: load_def 1 2)
      show ?thesis
        by (rule load_failed_spec [OF lj(1) hd(2) f]) (use j lj(2) in \<open>auto simp: lh(1)\<close>)
    next
      case r2: (Inr u')
      then have "s' = s2" using run Inr by (simp add: load_def 1 2)
      then show ?thesis using lj(2) r2 by simp
    qed
  qed
qed

end
