(* ===== verification/Ingress_Sim.thy ===== *)
theory Ingress_Sim
  imports Ingress_Load
begin

text \<open>
  The journal of accepted messages (\<open>conversation_ingress_recovery.py\<close>): an abstract journal of atomic
  steps, and the simulation of every operation by it.
\<close>

section \<open>The abstract journal\<close>

text \<open>
  What one successful operation may do to the entries. A new entry may push out a completed one of
  a full journal; a reservation is renewed or promoted under the same binding; an accepted entry
  moves forward and keeps its origin, its text and, once it has one, its answer; entries are dropped.
  Every step has a label \<open>L\<close>, which says for the operation at hand which single changes it may make: from an
  old entry, if there is one, to a new one, if there is one. What is dropped is exactly what the label lets go.
\<close>

type_synonym permit = "entry option \<Rightarrow> entry option \<Rightarrow> bool"

definition moves :: "journal_env \<Rightarrow> pyval \<Rightarrow> (ingress_phase \<times> ingress_phase) list \<Rightarrow> permit" where
  "moves w v es old new \<longleftrightarrow> (\<exists>x y. old = Some x \<and> new = Some y \<and> entry_id_of (fns w) v = Inr (x_entry_id x) \<and>
     (x_phase x, x_phase y) \<in> set es)"

definition drops :: "(entry \<Rightarrow> bool) \<Rightarrow> permit" where
  "drops Q old new \<longleftrightarrow> (\<exists>x. old = Some x \<and> new = None \<and> Q x)"

definition puts :: "journal_env \<Rightarrow> pyval \<Rightarrow> pyval \<Rightarrow> pyval \<Rightarrow> (entry option \<Rightarrow> entry \<Rightarrow> bool) \<Rightarrow> permit" where
  "puts w a b c Q old new \<longleftrightarrow> (\<exists>y sf sc d. new = Some y \<and> origin_of w a b c = Inr (sf, sc, d) \<and>
     same_origin y sf sc d \<and> Q old y)"

definition keeps_all :: permit where
  "keeps_all old new \<longleftrightarrow> False"

lemma moves_simps [simp]:
  "moves w v es (Some x) (Some y) \<longleftrightarrow> entry_id_of (fns w) v = Inr (x_entry_id x) \<and> (x_phase x, x_phase y) \<in> set es"
  "\<not> moves w v es old None" "\<not> moves w v es None new"
  by (auto simp: moves_def)

lemma drops_simps [simp]: "drops Q (Some x) None \<longleftrightarrow> Q x" "\<not> drops Q old (Some y)" "\<not> drops Q None new"
  by (auto simp: drops_def)

lemma puts_Some: "origin_of w a b c = Inr o1 \<Longrightarrow> same_origin y (fst o1) (fst (snd o1)) (snd (snd o1)) \<Longrightarrow> Q old y \<Longrightarrow>
    puts w a b c Q old (Some y)"
  by (cases o1) (auto simp: puts_def)

lemma puts_None [simp]: "\<not> puts w a b c Q old None"
  by (simp add: puts_def)

lemma keeps_all_none [simp]: "\<not> keeps_all old new"
  by (simp add: keeps_all_def)

definition phase_edges :: "(ingress_phase \<times> ingress_phase) list" where
  "phase_edges =
     [(Accepted, Response_Ready), (Accepted, Delivery_Inflight), (Response_Ready, Delivery_Inflight),
      (Delivery_Inflight, Delivery_Inflight), (Delivery_Inflight, Delivery_Ambiguous),
      (Delivery_Inflight, Delivery_Succeeded), (Delivery_Ambiguous, Delivery_Ambiguous),
      (Delivery_Ambiguous, Delivery_Succeeded), (Delivery_Succeeded, Terminal_Committing),
      (Terminal_Committing, Completed)]"

definition same_key :: "entry \<Rightarrow> entry \<Rightarrow> bool" where
  "same_key x y \<longleftrightarrow> x_entry_id y = x_entry_id x \<and> same_origin y (x_surface x) (x_scope x) (x_source_delivery_id x) \<and>
     x_turn_id y = x_turn_id x \<and> x_text_hash y = x_text_hash x"

definition same_message :: "entry \<Rightarrow> entry \<Rightarrow> bool" where
  "same_message x y \<longleftrightarrow> same_key x y \<and> x_accepted_text y = x_accepted_text x \<and>
     x_created_at y = x_created_at x \<and> x_expires_at y = x_expires_at x"

definition same_answer :: "entry \<Rightarrow> entry \<Rightarrow> bool" where
  "same_answer x y \<longleftrightarrow> x_assistant_text y = x_assistant_text x \<and> x_assistant_hash y = x_assistant_hash x \<and>
     x_binding_hash y = x_binding_hash x \<and> x_memory_ref y = x_memory_ref x"

definition idle :: "permit \<Rightarrow> entry dict \<Rightarrow> bool" where
  "idle L es \<longleftrightarrow> (\<forall>p \<in> set es. \<not> L (Some (snd p)) None)"

lemma idle_simps [simp]: "idle (moves w v es0) es" "idle (puts w a b c Q) es" "idle keeps_all es"
  by (simp_all add: idle_def)

definition room_made :: "journal_env \<Rightarrow> entry dict \<Rightarrow> entry dict \<Rightarrow> bool" where
  "room_made w es es1 \<longleftrightarrow> length es1 < max_entries (cfg w) \<and>
     (es1 = es \<or> (\<exists>j c. dict_get es j = Some c \<and> x_phase c = Completed \<and> es1 = dict_pop j es))"

inductive journal_step :: "journal_env \<Rightarrow> permit \<Rightarrow> entry dict \<Rightarrow> entry dict \<Rightarrow> bool" for w L where
  admit: "\<lbrakk>dict_get es i = None; room_made w es es1; x_phase x \<in> {Reserved, Accepted};
     entry_wf (fns w) (cfg w) x; x_entry_id x = i; L None (Some x)\<rbrakk> \<Longrightarrow> journal_step w L es (dict_set i x es1)"
| renew: "\<lbrakk>dict_get es i = Some x; x_phase x = Reserved; x_phase y \<in> {Reserved, Accepted}; same_key x y;
     entry_wf (fns w) (cfg w) y; L (Some x) (Some y)\<rbrakk> \<Longrightarrow> journal_step w L es (dict_set i y es)"
| move: "\<lbrakk>dict_get es i = Some x; (x_phase x, x_phase y) \<in> set phase_edges; same_message x y;
     x_assistant_text x = [] \<or> same_answer x y; entry_wf (fns w) (cfg w) y; L (Some x) (Some y)\<rbrakk>
     \<Longrightarrow> journal_step w L es (dict_set i y es)"
| drop: "\<lbrakk>\<forall>p \<in> set es. fst p \<in> D \<longleftrightarrow> L (Some (snd p)) None\<rbrakk> \<Longrightarrow> journal_step w L es (filter (\<lambda>p. fst p \<notin> D) es)"

lemma room_made_ok: "mem_ok w es \<Longrightarrow> room_made w es es1 \<Longrightarrow> mem_ok w es1"
  by (auto simp: room_made_def dict_pop_filter mem_ok_filter)

lemma room_made_get: "room_made w es es1 \<Longrightarrow> dict_get es i = None \<Longrightarrow> dict_get es1 i = None"
  by (auto simp: room_made_def)

lemma journal_step_ok: "journal_step w L es es' \<Longrightarrow> mem_ok w es \<Longrightarrow> mem_ok w es'"
proof (induction rule: journal_step.induct)
  case (admit es i es1 x)
  then show ?case
    using room_made_ok [of w es es1] by (intro mem_ok_set) (auto simp: room_made_def)
next
  case (renew es i x y)
  then show ?case using mem_ok_get [of w es i x] by (intro mem_ok_set) (auto simp: same_key_def)
next
  case (move es i x y)
  then show ?case using mem_ok_get [of w es i x] by (intro mem_ok_set) (auto simp: same_message_def same_key_def)
qed (simp add: mem_ok_filter)

section \<open>Operations simulate steps\<close>

text \<open>From a live journal, an operation that fails leaves the entries as they were; one that succeeds
  took one step, and what it took is on disk, or changed nothing and had nothing to drop.\<close>

definition simulated :: "journal_env \<Rightarrow> permit \<Rightarrow> journal \<Rightarrow> ingress_error + 'a \<Rightarrow> journal \<Rightarrow> bool" where
  "simulated w L s r s' \<longleftrightarrow>
     (case r of
        Inl _ \<Rightarrow> kept w (entries s) s'
      | Inr _ \<Rightarrow> live w s' \<and>
          (entries s' = entries s \<and> idle L (entries s) \<or>
           journal_step w L (entries s) (entries s') \<and> integrity s' = I_Verified))"

definition simulates :: "journal_env \<Rightarrow> permit \<Rightarrow> journal \<Rightarrow> 'a jprog \<Rightarrow> bool" where
  "simulates w L s m \<longleftrightarrow> (\<forall>r s'. m s = (r, s') \<longrightarrow> simulated w L s r s')"

definition reads_only :: "'a jprog \<Rightarrow> bool" where
  "reads_only m \<longleftrightarrow> (\<forall>s. \<exists>x. m s = (Inr x, s))"

lemma reads_ret [intro, simp]: "reads_only (ret x)" and reads_get [intro, simp]: "reads_only (get f)"
  by (simp_all add: reads_only_def run_simps)

lemma reads_bind [intro]:
  assumes "reads_only m" "\<And>x. reads_only (k x)"
  shows "reads_only (bind m k)"
  unfolding reads_only_def
proof
  fix s
  obtain x where "m s = (Inr x, s)" using assms(1) unfolding reads_only_def by blast
  moreover obtain y where "k x s = (Inr y, s)" using assms(2) unfolding reads_only_def by blast
  ultimately show "\<exists>y. bind m k s = (Inr y, s)" by (simp add: bind_run)
qed

lemma reads_receipt [intro, simp]: "reads_only (give_receipt w x d p)" and reads_after [intro, simp]: "reads_only (receipt_after w x d p)"
  by (auto simp: give_receipt_def receipt_after_def)

lemma sim_reads:
  assumes "reads_only m" "live w s" "idle L (entries s)"
  shows "simulates w L s m"
proof -
  obtain x where "m s = (Inr x, s)" using assms(1) unfolding reads_only_def by blast
  then show ?thesis using assms(2,3) by (simp add: simulates_def simulated_def)
qed

lemma sim_throw: "live w s \<Longrightarrow> m s = (Inl er, s) \<Longrightarrow> simulates w L s m"
  by (simp add: simulates_def simulated_def live_kept)

lemma sim_tail:
  assumes m: "simulates w L s m" and k: "reads_only k"
  shows "simulates w L s (seq_ops m k)"
  unfolding simulates_def
proof (intro allI impI)
  fix r s' assume run: "seq_ops m k s = (r, s')"
  obtain r1 s1 where 1: "m s = (r1, s1)" by fastforce
  then have "simulated w L s r1 s1" using m by (simp add: simulates_def)
  moreover obtain y where "k s1 = (Inr y, s1)" using k unfolding reads_only_def by blast
  ultimately show "simulated w L s r s'"
    using run 1 by (cases r1) (auto simp: seq_run simulated_def)
qed

lemma sim_outcome:
  assumes "\<And>r s'. m s = (r, s') \<Longrightarrow> outcome w (entries s) es r s'" and "journal_step w L (entries s) es"
  shows "simulates w L s m"
  unfolding simulates_def simulated_def
  using assms by (auto simp: outcome_def committed_def split: sum.split)

text \<open>One entry is changed, with the clock.\<close>

lemma update_run:
  "dict_get (entries s) i = Some x \<Longrightarrow> update_entry i f s = (Inr (), s\<lparr>entries := dict_set i (f x) (entries s)\<rparr>)"
  by (simp add: update_entry_def run_simps)

lemma sim_mutate:
  assumes w: "env_ok w" and s: "live w s" and x: "dict_get (entries s) i = Some x"
    and m: "m s = (Inr (), s1)" and same: "same_files s s1" "jstate s1 = Ready" "generation s1 = generation s"
      "last_hash s1 = last_hash s" "integrity s1 = integrity s" "entries s1 = dict_set i y (entries s)"
    and step: "journal_step w L (entries s) (dict_set i (stamp (clock_at w (tick s1)) (entries s) i y) (entries s))"
  shows "simulates w L s (mutate_and_write w m)"
proof (rule sim_outcome)
  have d: "distinct (map fst (entries s))" using live_mem [OF s] by (simp add: mem_ok_def)
  note t = touch_set [OF d, of i "clock_at w (tick s1)" y]
  show "outcome w (entries s) (dict_set i (stamp (clock_at w (tick s1)) (entries s) i y) (entries s)) r s'"
    if "mutate_and_write w m s = (r, s')" for r s'
    using mutate_spec [OF w s m same(1-5) _ that] t x same(6) journal_step_ok [OF step live_mem [OF s]] by simp
  show "journal_step w L (entries s) (dict_set i (stamp (clock_at w (tick s1)) (entries s) i y) (entries s))" by (rule step)
qed

lemma sim_stamped:
  assumes w: "env_ok w" and s: "live w s" and x: "dict_get (entries s) i = Some x"
    and e: "(x_phase x, x_phase (f x)) \<in> set phase_edges" "same_message x (f x)"
      "x_assistant_text x = [] \<or> same_answer x (f x)" "entry_wf (fns w) (cfg w) (f x)"
      "\<And>y. x_phase y = x_phase (f x) \<Longrightarrow> L (Some x) (Some y)"
  shows "simulates w L s (mutate_and_write w (update_stamped w i f))"
proof (rule sim_mutate [OF w s x])
  have c: "clock_ok w" using w by (simp add: env_ok_def)
  let ?y = "(f x)\<lparr>x_updated_at := clock_at w (tick s)\<rparr>"
  let ?s = "(tock s)\<lparr>entries := dict_set i ?y (entries s)\<rparr>"
  show "update_stamped w i f s = (Inr (), ?s)" using x by (simp add: update_stamped_def bind_now [OF c] update_run)
  show "same_files s ?s" "jstate ?s = Ready" "generation ?s = generation s" "last_hash ?s = last_hash s"
      "integrity ?s = integrity s" "entries ?s = dict_set i ?y (entries s)"
    using s by (simp_all add: same_files_def live_def)
  have "entry_wf (fns w) (cfg w) (stamp (clock_at w (tick ?s)) (entries s) i ?y)"
    using stamp_wf [OF x _ e(4)] mem_ok_get [OF live_mem [OF s] x] by blast
  then show "journal_step w L (entries s) (dict_set i (stamp (clock_at w (tick ?s)) (entries s) i ?y) (entries s))"
    using e by (intro journal_step.move [OF x]) (auto simp: same_message_def same_key_def same_origin_def same_answer_def)
qed

section \<open>Every operation\<close>

definition op_simulated :: "journal_env \<Rightarrow> permit \<Rightarrow> journal \<Rightarrow> ingress_error + 'a \<Rightarrow> journal \<Rightarrow> bool" where
  "op_simulated w L s r s' \<longleftrightarrow>
     (let es = unexpired (clock_at w (tick s)) (entries s) in
      case r of
        Inl _ \<Rightarrow> kept w (entries s) s' \<or> kept w es s'
      | Inr _ \<Rightarrow> live w s' \<and>
          (entries s' = es \<and> idle L es \<or> journal_step w L es (entries s') \<and> integrity s' = I_Verified))"

text \<open>A journal whose last write failed loads again, where the artifact process is in use; an operation
  is refused, or runs on what is then a live journal.\<close>

definition reloaded :: "journal_env \<Rightarrow> journal \<Rightarrow> journal" where
  "reloaded w s = (if jstate s = Failed \<and> has_process w then snd (load w False s) else s)"

definition op_simulates :: "journal_env \<Rightarrow> permit \<Rightarrow> 'a jprog \<Rightarrow> bool" where
  "op_simulates w L m \<longleftrightarrow> (\<forall>s r s'. journal_inv w s \<longrightarrow> m s = (r, s') \<longrightarrow>
     (\<exists>er. r = Inl er) \<and> s' \<in> {s, reloaded w s} \<or> live w (reloaded w s) \<and> op_simulated w L (reloaded w s) r s')"

lemma reloaded_inv: "env_ok w \<Longrightarrow> journal_inv w s \<Longrightarrow> journal_inv w (reloaded w s)"
  using load_inv [of w s False] by (cases "load w False s") (auto simp: reloaded_def)

lemma reloaded_live [simp]: "live w s \<Longrightarrow> reloaded w s = s"
  by (simp add: reloaded_def live_def)

lemma require_ready_run:
  "require_ready w s = (Inr (), reloaded w s) \<and> enabled w \<and> jstate (reloaded w s) = Ready \<or>
   (\<exists>er. require_ready w s = (Inl er, reloaded w s))"
  by (cases "load w False s"; cases "fst (load w False s)")
     (auto simp: require_ready_def reloaded_def seq_run [of "bind _ _"] run_simps ensure_ready_def require_run
       split: sum.split)

named_theorems sim_rules "how simulations compose"

lemmas idle_rules [sim_rules] = idle_simps

lemma op_lift [sim_rules]: "(\<And>a. r = Inr a \<Longrightarrow> op_simulates w L (k a)) \<Longrightarrow> op_simulates w L (bind (lift r) k)"
  by (cases r) (auto simp: op_simulates_def)

lemma op_require [sim_rules]: "(b \<Longrightarrow> op_simulates w L k) \<Longrightarrow> op_simulates w L (seq_ops (require b er) k)"
  by (auto simp: op_simulates_def)

lemma op_begin [sim_rules]:
  assumes w: "env_ok w" and k: "\<And>s. live w s \<Longrightarrow> simulates w L s k"
  shows "op_simulates w L (seq_ops (begin_op w) k)"
  unfolding op_simulates_def
proof (intro allI impI)
  fix s0 r s' assume s0: "journal_inv w s0" and run0: "seq_ops (begin_op w) k s0 = (r, s')"
  define s where "s = reloaded w s0"
  show "(\<exists>er. r = Inl er) \<and> s' \<in> {s0, s} \<or> live w s \<and> op_simulated w L s r s'"
  proof (cases "\<exists>er. require_ready w s0 = (Inl er, s)")
    case True
    then show ?thesis using run0 by (auto simp: begin_op_def seq_run)
  next
    case False
    then have rr: "require_ready w s0 = (Inr (), s)" and s: "live w s"
      using require_ready_run [of w s0] reloaded_inv [OF w s0] by (auto simp: s_def live_def)
    obtain r1 s1 where 1: "prune_expired w s = (r1, s1)" by fastforce
    have b: "begin_op w s0 = (r1, s1)" by (simp add: begin_op_def seq_run rr 1)
    note p = prune_spec [OF w s 1]
    have "op_simulated w L s r s'"
    proof (cases r1)
      case (Inl er)
      then show ?thesis using p run0 by (auto simp: seq_run b op_simulated_def Let_def)
    next
      case (Inr u)
      then have "simulated w L s1 r s'" using k p run0 by (simp add: seq_run b simulates_def)
      then show ?thesis using Inr p by (auto simp: simulated_def op_simulated_def Let_def split: sum.splits)
    qed
    then show ?thesis using s by simp
  qed
qed

text \<open>Any operation keeps the invariant; on a live journal it takes at most one step.\<close>

lemma op_live: "op_simulates w L m \<Longrightarrow> live w s \<Longrightarrow> m s = (r, s') \<Longrightarrow> op_simulated w L s r s'"
proof -
  assume m: "op_simulates w L m" and s: "live w s" and run: "m s = (r, s')"
  have "(\<exists>er. r = Inl er) \<and> s' = s \<or> op_simulated w L s r s'"
    using m run live_inv [OF s] reloaded_live [OF s] unfolding op_simulates_def by fastforce
  then show ?thesis using live_kept [OF s] by (auto simp: op_simulated_def Let_def)
qed

lemma op_simulated_inv: "op_simulated w L s r s' \<Longrightarrow> journal_inv w s'"
  by (auto simp: op_simulated_def Let_def kept_def live_def split: sum.splits)

lemma op_keeps: "\<lbrakk>env_ok w; op_simulates w L m; journal_inv w s\<rbrakk> \<Longrightarrow> journal_inv w (snd (m s))"
  using reloaded_inv [of w s] op_simulated_inv [of w L "reloaded w s" "fst (m s)" "snd (m s)"]
  by (cases "m s") (auto simp: op_simulates_def)

lemma sim_require [sim_rules]: "live w s \<Longrightarrow> (b \<Longrightarrow> simulates w L s k) \<Longrightarrow> simulates w L s (seq_ops (require b er) k)"
  by (auto simp: simulates_def simulated_def live_kept)

lemma sim_error [sim_rules]: "live w s \<Longrightarrow> simulates w L s (throw er)"
  by (rule sim_throw) (simp_all add: run_simps)

lemma sim_if [sim_rules]: "(b \<Longrightarrow> simulates w L s m) \<Longrightarrow> (\<not> b \<Longrightarrow> simulates w L s k) \<Longrightarrow> simulates w L s (if b then m else k)"
  by simp

lemma sim_lift [sim_rules]: "live w s \<Longrightarrow> (\<And>a. r = Inr a \<Longrightarrow> simulates w L s (k a)) \<Longrightarrow> simulates w L s (bind (lift r) k)"
  by (cases r) (auto simp: simulates_def simulated_def live_kept)

lemma sim_get [sim_rules]: "simulates w L s (k (f s)) \<Longrightarrow> simulates w L s (bind (get f) k)"
  by (simp add: simulates_def)

lemma sim_entry [sim_rules]:
  assumes s: "live w s"
    and k: "\<And>x. dict_get (entries s) (x_entry_id x) = Some x \<Longrightarrow> entry_wf (fns w) (cfg w) x \<Longrightarrow>
      entry_id_of (fns w) v = Inr (x_entry_id x) \<Longrightarrow> simulates w L s (k x)"
  shows "simulates w L s (bind (entry_at w v) k)"
proof (cases "entry_id_of (fns w) v")
  case (Inl er)
  then show ?thesis using s by (auto simp: entry_at_def bind_run [of _ k] intro: sim_throw)
next
  case (Inr i)
  show ?thesis
  proof (cases "dict_get (entries s) i")
    case None
    then show ?thesis using s Inr by (auto simp: entry_at_def bind_run [of _ k] run_simps intro: sim_throw)
  next
    case (Some x)
    then have "simulates w L s (k x)" using k [of x] mem_ok_get [OF live_mem [OF s] Some] Inr by simp
    then show ?thesis using Inr Some by (simp add: simulates_def entry_at_def bind_run [of _ k] run_simps)
  qed
qed

lemmas sim_receipt [sim_rules] = sim_reads [OF reads_receipt]

lemma no_answer_yet: "entry_wf e g x \<Longrightarrow> x_phase x \<in> {Reserved, Accepted} \<Longrightarrow> x_assistant_text x = []"
  by (auto simp: entry_wf_def hashes_wf_def split: if_splits)

lemma with_answer_same:
  "same_message x (with_answer a y) = same_message x y" "x_phase (with_answer a y) = x_phase y"
  by (cases a, simp add: with_answer_def same_message_def same_key_def same_origin_def)+

lemma same_message_simps [simp]:
  "same_message x (x\<lparr>x_phase := p\<rparr>)" "same_message x (x\<lparr>x_phase := p, x_last_error := c\<rparr>)"
  "same_message x (x\<lparr>x_phase := p, x_delivery_ref := d, x_last_error := c\<rparr>)"
  "same_message x (x\<lparr>x_phase := p, x_continuity_generation := n\<rparr>)" "same_message x x"
  by (simp_all add: same_message_def same_key_def same_origin_def)

lemma same_answer_simps [simp]:
  "same_answer x (x\<lparr>x_phase := p, x_last_error := c\<rparr>)"
  "same_answer x (x\<lparr>x_phase := p, x_delivery_ref := d, x_last_error := c\<rparr>)"
  "same_answer x (x\<lparr>x_phase := p, x_continuity_generation := n\<rparr>)"
  by (simp_all add: same_answer_def)

lemma mark_response_ready_sim:
  assumes w: "env_ok w"
  shows "op_simulates w (moves w i [(Accepted, Response_Ready)]) (mark_response_ready w i ans ref)"
  unfolding mark_response_ready_def
proof (intro sim_rules sim_tail sim_stamped w reads_after, simp_all add: with_answer_same phase_edges_def)
  fix a x
  assume a: "answer_of w ans ref = Inr a" and x: "x_phase x = Accepted" "entry_wf (fns w) (cfg w) x"
  show "entry_wf (fns w) (cfg w) (with_answer a (x\<lparr>x_phase := Response_Ready, x_last_error := []\<rparr>))"
    using with_answer_wf [OF env_text [OF w] a x(2), of Response_Ready "[]"] x by simp
  show "x_assistant_text x = [] \<or> same_answer x (with_answer a (x\<lparr>x_phase := Response_Ready, x_last_error := []\<rparr>))"
    using no_answer_yet [OF x(2)] x by simp
qed

lemma start_delivery_sim:
  assumes w: "env_ok w" and fr: "set fr \<subseteq> {Accepted, Response_Ready}"
  shows "op_simulates w (moves w i (map (\<lambda>p. (p, Delivery_Inflight)) fr)) (start_delivery (set fr) w i dref)"
  unfolding start_delivery_def
proof (intro sim_rules sim_tail sim_stamped w reads_after, simp_all add: image_iff)
  fix d x
  assume d: "delivery_ref_of (fns w) True dref = Inr d" and x: "x_phase x \<in> set fr" "entry_wf (fns w) (cfg w) x"
  have p: "x_phase x \<in> {Accepted, Response_Ready}" using x fr by blast
  then show "(x_phase x, Delivery_Inflight) \<in> set phase_edges" by (auto simp: phase_edges_def)
  show "entry_wf (fns w) (cfg w) (x\<lparr>x_phase := Delivery_Inflight, x_delivery_ref := d, x_last_error := []\<rparr>)"
    by (rule inflight_wf [OF env_text [OF w] x(2) p d])
qed

lemma mark_delivery_succeeded_sim:
  assumes w: "env_ok w"
  shows "op_simulates w (moves w i [(Delivery_Inflight, Delivery_Succeeded), (Delivery_Ambiguous, Delivery_Succeeded)]) (mark_delivery_succeeded w i dref)"
  unfolding mark_delivery_succeeded_def
proof (intro sim_rules sim_tail sim_stamped w reads_after)
  fix d x
  assume d: "delivery_ref_of (fns w) True dref = Inr d" and x: "\<not> x_phase x \<notin> {Delivery_Inflight, Delivery_Ambiguous}"
    "entry_wf (fns w) (cfg w) x" "x_assistant_text x \<noteq> []"
  then have "x_phase x \<in> {Delivery_Inflight, Delivery_Ambiguous}" by simp
  from succeeded_wf [OF env_text [OF w] x(2) this x(3) d]
  show "entry_wf (fns w) (cfg w) (x\<lparr>x_phase := Delivery_Succeeded,
      x_delivery_ref := (if d \<noteq> [] then d else x_delivery_ref x), x_last_error := []\<rparr>)" .
qed (auto simp: phase_edges_def)

lemma mark_delivery_ambiguous_sim:
  assumes w: "env_ok w"
  shows "op_simulates w (moves w i [(Delivery_Inflight, Delivery_Ambiguous)]) (mark_delivery_ambiguous w i code)"
  unfolding mark_delivery_ambiguous_def
  by (intro sim_rules sim_tail sim_stamped w reads_after)
    (auto simp: phase_edges_def intro: ambiguous_wf [OF env_text [OF w]])

lemma begin_terminal_commit_sim:
  assumes w: "env_ok w"
  shows "op_simulates w (moves w i [(Delivery_Succeeded, Terminal_Committing)]) (begin_terminal_commit w i gen ans ref)"
  unfolding begin_terminal_commit_def
  by (intro sim_rules sim_tail sim_stamped w reads_after)
    (auto simp: phase_edges_def positive_int_def bind_r_Inr intro: terminal_wf)

lemma complete_sim:
  assumes w: "env_ok w"
  shows "op_simulates w (moves w i [(Terminal_Committing, Completed)]) (complete w i gen ans ref)"
  unfolding complete_def
  by (intro sim_rules sim_tail sim_stamped w reads_after)
    (auto simp: phase_edges_def intro: completed_wf [OF env_text [OF w]])

lemma bind_response_sim:
  assumes w: "env_ok w"
  shows "op_simulates w (moves w i [(Accepted, Response_Ready), (Delivery_Inflight, Delivery_Inflight), (Delivery_Ambiguous, Delivery_Ambiguous)]) (bind_response w i ans ref)"
  unfolding bind_response_def
proof (intro sim_rules sim_tail w reads_after)
  fix a s x
  assume a: "answer_of w ans ref = Inr a" and s: "live w s" and x: "dict_get (entries s) (x_entry_id x) = Some x"
      "entry_wf (fns w) (cfg w) x" and n: "\<not> x_assistant_text x \<noteq> []"
      and id: "entry_id_of (fns w) i = Inr (x_entry_id x)" and p: "x_phase x \<in> {Accepted, Delivery_Inflight, Delivery_Ambiguous}"
  have c: "clock_ok w" using w by (simp add: env_ok_def)
  let ?f = "\<lambda>y. if x_phase y = Accepted then y\<lparr>x_phase := Response_Ready\<rparr> else y"
  let ?i = "x_entry_id x"
  let ?z = "with_answer a (?f x)" and ?y = "(with_answer a (?f x))\<lparr>x_updated_at := clock_at w (tick s)\<rparr>"
  let ?s1 = "s\<lparr>entries := dict_set ?i (?f x) (entries s)\<rparr>"
  let ?s2 = "(tock s)\<lparr>entries := dict_set ?i ?y (dict_set ?i (?f x) (entries s))\<rparr>"
  have twice: "dict_set k v (dict_set k u d) = dict_set k v d" for k u v and d :: "entry dict"
    by (induction d) (auto simp: dict_set_def)
  have 1: "update_entry ?i ?f s = (Inr (), ?s1)" by (rule update_run [OF x(1)])
  have 2: "update_stamped w ?i (with_answer a) ?s1 = (Inr (), ?s2)"
    by (simp add: update_stamped_def bind_now [OF c] update_entry_def run_simps tock_def)
  have run: "seq_ops (update_entry ?i ?f) (update_stamped w ?i (with_answer a)) s = (Inr (), ?s2)"
    by (simp add: seq_run 1 2)
  have wf: "entry_wf (fns w) (cfg w) ?z"
    using with_answer_wf [OF env_text [OF w] a x(2) p refl, of "x_last_error x"] by (cases "x_phase x = Accepted") simp_all
  have step: "journal_step w (moves w i [(Accepted, Response_Ready), (Delivery_Inflight, Delivery_Inflight), (Delivery_Ambiguous, Delivery_Ambiguous)]) (entries s) (dict_set ?i (stamp (clock_at w (tick ?s2)) (entries s) ?i ?y) (entries s))"
  proof (rule journal_step.move [OF x(1)])
    show "(x_phase x, x_phase (stamp (clock_at w (tick ?s2)) (entries s) ?i ?y)) \<in> set phase_edges"
      using p by (auto simp: with_answer_same phase_edges_def)
    show "same_message x (stamp (clock_at w (tick ?s2)) (entries s) ?i ?y)"
      by (cases a) (simp add: same_message_def same_key_def same_origin_def with_answer_def)
    show "entry_wf (fns w) (cfg w) (stamp (clock_at w (tick ?s2)) (entries s) ?i ?y)"
      by (rule stamp_wf [OF x wf])
  qed (use n p id in \<open>auto simp: with_answer_same\<close>)
  show "simulates w (moves w i [(Accepted, Response_Ready), (Delivery_Inflight, Delivery_Inflight), (Delivery_Ambiguous, Delivery_Ambiguous)]) s (mutate_and_write w (seq_ops (update_entry ?i ?f) (update_stamped w ?i (with_answer a))))"
  proof (rule sim_mutate [where m = "seq_ops (update_entry ?i ?f) (update_stamped w ?i (with_answer a))" and s = s, OF w s x(1) run])
    show "journal_step w (moves w i [(Accepted, Response_Ready), (Delivery_Inflight, Delivery_Inflight), (Delivery_Ambiguous, Delivery_Ambiguous)]) (entries s) (dict_set ?i (stamp (clock_at w (tick ?s2)) (entries s) ?i ?y) (entries s))" by (rule step)
  qed (use s in \<open>simp_all add: same_files_def live_def twice\<close>)
qed simp_all

lemma sim_drop:
  assumes w: "env_ok w" and s: "live w s" and d: "\<And>p. p \<in> set (entries s) \<Longrightarrow> fst p \<in> set ks \<longleftrightarrow> L (Some (snd p)) None"
  shows "simulates w L s (mutate_and_write w (pop_entries ks))"
proof (rule sim_outcome)
  let ?es = "filter (\<lambda>p. fst p \<notin> set ks) (entries s)"
  have dist: "distinct (map fst (entries s))" using live_mem [OF s] by (simp add: mem_ok_def)
  show "journal_step w L (entries s) ?es" by (rule journal_step.drop [where D = "set ks"]) (use d in blast)
  show "outcome w (entries s) ?es r s'" if "mutate_and_write w (pop_entries ks) s = (r, s')" for r s'
    using mutate_spec [OF w s _ _ _ _ _ _ _ that, of "s\<lparr>entries := ?es\<rparr>"] s live_mem [OF s]
    by (simp add: pop_entries_def run_simps fold_pop same_files_def live_def touch_filter [OF dist] mem_ok_filter)
qed

lemma sim_pop:
  assumes w: "env_ok w" and s: "live w s" and d: "\<And>p. p \<in> set (entries s) \<Longrightarrow> fst p \<in> set ks \<longleftrightarrow> L (Some (snd p)) None"
  shows "simulates w L s (seq_ops (pop_entries ks) (write_or_restore w (entries s)))"
proof (rule sim_outcome)
  let ?es = "filter (\<lambda>p. fst p \<notin> set ks) (entries s)"
  show "journal_step w L (entries s) ?es" by (rule journal_step.drop [where D = "set ks"]) (use d in blast)
  show "outcome w (entries s) ?es r s'" if "seq_ops (pop_entries ks) (write_or_restore w (entries s)) s = (r, s')" for r s'
    using commit_spec [OF w s, of "s\<lparr>entries := ?es\<rparr>" r s'] that s live_mem [OF s]
    by (simp add: pop_entries_def fold_pop same_files_def live_def mem_ok_filter)
qed

lemma mem_unique: "mem_ok w es \<Longrightarrow> p \<in> set es \<Longrightarrow> dict_get es (fst p) = Some x \<Longrightarrow> snd p = x"
  by (cases p) (auto simp: mem_ok_def dict_get_def)

lemma discard_ambiguous_sim:
  assumes w: "env_ok w"
  shows "op_simulates w (drops (\<lambda>x. x_phase x = Delivery_Ambiguous \<and> entry_id_of (fns w) i = Inr (x_entry_id x)))
    (discard_ambiguous w i h d c)"
  unfolding discard_ambiguous_def
proof (intro sim_rules sim_drop w)
  fix hh dd cc s x p
  assume a: "x_phase x = Delivery_Ambiguous \<and> (hh = [] \<or> x_assistant_hash x = hh) \<and> x_delivery_ref x = dd \<and> x_last_error x = cc"
    "live w s" "dict_get (entries s) (x_entry_id x) = Some x" "p \<in> set (entries s)"
    "entry_id_of (fns w) i = Inr (x_entry_id x)"
  have key: "fst p = x_entry_id (snd p)" using live_mem [OF a(2)] a(4) by (auto simp: mem_ok_def)
  show "fst p \<in> set [x_entry_id x] \<longleftrightarrow>
      drops (\<lambda>x. x_phase x = Delivery_Ambiguous \<and> entry_id_of (fns w) i = Inr (x_entry_id x)) (Some (snd p)) None"
  proof (cases "fst p = x_entry_id x")
    case True
    then have "snd p = x" by (intro mem_unique [OF live_mem [OF a(2)] a(4)]) (simp add: a(3))
    then show ?thesis using a(1,5) True by simp
  next
    case False
    then show ?thesis using a(5) key by simp
  qed
qed

definition of_guild :: "pyval \<Rightarrow> entry \<Rightarrow> bool" where
  "of_guild v x \<longleftrightarrow> (\<exists>g. nonnegative_int ''conversation_ingress_guild_id_invalid'' v = Inr g \<and>
     prefix (guild_prefix g) (x_scope x))"

lemma reset_guild_sim:
  assumes w: "env_ok w"
  shows "op_simulates w (drops (of_guild guild)) (reset_guild w guild)"
  unfolding reset_guild_def
proof (intro sim_rules w sim_tail sim_drop reads_bind reads_get reads_ret sim_reads)
  fix g and s :: journal
  let ?ks = "map fst (filter (\<lambda>p. prefix (guild_prefix g) (x_scope (snd p))) (entries s))"
  assume g: "nonnegative_int ''conversation_ingress_guild_id_invalid'' guild = Inr g" and s: "live w s"
  have "distinct (map fst (entries s))" using live_mem [OF s] by (simp add: mem_ok_def)
  then show hit: "fst p \<in> set ?ks \<longleftrightarrow> drops (of_guild guild) (Some (snd p)) None" if "p \<in> set (entries s)" for p
    using that g by (auto simp: of_guild_def distinct_map inj_on_def)
  show "idle (drops (of_guild guild)) (entries s)" if "?ks = []"
    using that g by (auto simp: idle_def of_guild_def filter_empty_conv)
qed

lemma sim_commit_pop:
  assumes w: "env_ok w" and s: "live w s" and k: "reads_only k"
    and d: "\<And>p. p \<in> set (entries s) \<Longrightarrow> fst p \<in> set ks \<longleftrightarrow> L (Some (snd p)) None"
  shows "simulates w L s (seq_ops (pop_entries ks) (seq_ops (write_or_restore w (entries s)) k))"
proof -
  have "simulates w L s (seq_ops (seq_ops (pop_entries ks) (write_or_restore w (entries s))) k)"
    by (rule sim_tail [OF sim_pop [where ks = ks and L = L, OF w s d] k])
  then show ?thesis by (simp add: simulates_def seq_run pop_entries_def run_simps)
qed

definition revoked_by :: "journal_env \<Rightarrow> pyval \<Rightarrow> entry \<Rightarrow> bool" where
  "revoked_by w v x \<longleftrightarrow> (\<exists>l rs r. v = PList l \<and> map_result (revocation_of w) l = Inr rs \<and> r \<in> set rs \<and>
     rv_entry_id r = x_entry_id x \<and> reserved_as x r)"

lemma revoke_batch_sim:
  assumes w: "env_ok w"
  shows "op_simulates w (drops (revoked_by w v)) (revoke_reserved_ingress_batch w v)"
proof (cases "\<exists>l. v = PList l \<and> l \<noteq> [] \<and> length l \<le> 256")
  case False
  then have "revoke_reserved_ingress_batch w v = throw revocation_invalid"
    by (cases v) (auto simp: revoke_reserved_ingress_batch_def)
  then show ?thesis by (simp add: op_simulates_def op_simulated_def run_simps Let_def live_kept)
next
  case True
  then obtain l where l: "v = PList l" "\<not> (l = [] \<or> length l > 256)" by auto
  show ?thesis
    unfolding revoke_reserved_ingress_batch_def Let_def l(1) pyval.case if_not_P [OF l(2)]
  proof (intro sim_rules w sim_commit_pop reads_bind reads_get reads_ret)
    fix rs0 :: "revocation list" and s p
    let ?rs = "sort_key rv_entry_id rs0"
    assume rs0: "map_result (revocation_of w) l = Inr rs0" and s: "live w s" and p: "p \<in> set (entries s)"
      and a: "list_all (\<lambda>r. case dict_get (entries s) (rv_entry_id r) of None \<Rightarrow> False | Some x \<Rightarrow> reserved_as x r) ?rs"
    have key: "fst p = x_entry_id (snd p)" using live_mem [OF s] p by (auto simp: mem_ok_def)
    have as: "reserved_as (snd p) r" if "r \<in> set rs0" "fst p = rv_entry_id r" for r
    proof -
      from a that obtain x where x: "dict_get (entries s) (fst p) = Some x" "reserved_as x r"
        by (auto simp: list_all_iff split: option.splits)
      then have "snd p = x" by (intro mem_unique [OF live_mem [OF s] p(1)])
      then show ?thesis using x(2) by simp
    qed
    have "fst p \<in> set (map rv_entry_id ?rs) \<longleftrightarrow> (\<exists>r \<in> set rs0. rv_entry_id r = x_entry_id (snd p))"
      by (simp add: key image_iff) (metis (no_types))
    also have "\<dots> \<longleftrightarrow> revoked_by w (PList l) (snd p)"
      using rs0 as key by (auto simp: revoked_by_def)
    finally show "fst p \<in> set (map rv_entry_id ?rs) \<longleftrightarrow> drops (revoked_by w (PList l)) (Some (snd p)) None"
      by simp
  qed
qed

definition reserved_in :: "journal_env \<Rightarrow> pyval \<Rightarrow> pyval \<Rightarrow> entry \<Rightarrow> bool" where
  "reserved_in w v u x \<longleftrightarrow> x_phase x = Reserved \<and> surface_of (fns w) v = Inr (x_surface x) \<and>
     scope_of (fns w) u = Inr (x_scope x)"

lemma revoke_scope_sim:
  assumes w: "env_ok w"
  shows "op_simulates w (drops (reserved_in w v u)) (revoke_reserved_ingress_scope w v u)"
  unfolding revoke_reserved_ingress_scope_def Let_def
proof (intro sim_rules w)
  fix sf sc s assume s: "live w s" and a: "surface_of (fns w) v = Inr sf" "scope_of (fns w) u = Inr sc"
  let ?L = "drops (reserved_in w v u)"
  let ?bs = "map binding_of (filter (\<lambda>x. x_phase x = Reserved \<and> x_surface x = sf \<and> x_scope x = sc)
       (sort_key x_entry_id (map snd (entries s))))"
  have m: "\<forall>q \<in> set (entries s). fst q = x_entry_id (snd q)" "distinct (map fst (entries s))"
    using live_mem [OF s] by (auto simp: mem_ok_def)
  have d: "fst p \<in> set (map fst ?bs) \<longleftrightarrow> ?L (Some (snd p)) None" if p: "p \<in> set (entries s)" for p
  proof
    assume "fst p \<in> set (map fst ?bs)"
    then obtain q where q: "q \<in> set (entries s)" "x_phase (snd q) = Reserved" "x_surface (snd q) = sf"
      "x_scope (snd q) = sc" "fst p = x_entry_id (snd q)"
      by (auto simp: binding_of_def)
    then have "q = p" using m p(1) by (metis distinct_map inj_onD)
    then show "?L (Some (snd p)) None" using q a by (simp add: reserved_in_def)
  next
    assume "?L (Some (snd p)) None"
    then show "fst p \<in> set (map fst ?bs)" using p a m(1) by (auto simp: reserved_in_def binding_of_def image_iff)
  qed
  have none: "idle ?L (entries s)" if "?bs = []"
    using that a by (auto simp: idle_def reserved_in_def filter_empty_conv)
  have "simulates w ?L s (if ?bs = [] then ret () else seq_ops (pop_entries (map fst ?bs)) (write_or_restore w (entries s)))"
    by (rule sim_if [OF sim_reads [OF reads_ret s none] sim_pop [where ks = "map fst ?bs" and L = ?L, OF w s d]])
  then show "simulates w ?L s (seq_ops
      (if ?bs = [] then ret () else seq_ops (pop_entries (map fst ?bs)) (write_or_restore w (entries s)))
      (bind (get generation) (\<lambda>n. ret (?bs, n))))"
    by (rule sim_tail) (intro reads_bind reads_get reads_ret)
qed

definition promoted :: "journal_env \<Rightarrow> pyval \<Rightarrow> entry option \<Rightarrow> entry \<Rightarrow> bool" where
  "promoted w acc old y \<longleftrightarrow> x_phase y = Accepted \<and> x_accepted_text y = text_of (fns w) acc \<and>
     (\<exists>x. old = Some x \<and> x_phase x = Reserved)"

definition accepts :: "journal_env \<Rightarrow> pyval \<Rightarrow> entry option \<Rightarrow> entry \<Rightarrow> bool" where
  "accepts w acc old y \<longleftrightarrow> old = None \<and> x_phase y = Accepted \<and> x_accepted_text y = text_of (fns w) acc"

definition reserves :: "entry option \<Rightarrow> entry \<Rightarrow> bool" where
  "reserves old y \<longleftrightarrow> x_phase y = Reserved \<and> (\<forall>x. old = Some x \<longrightarrow> x_phase x = Reserved)"

lemma content_text: "content_of w code v = Inr tx \<Longrightarrow> tx = text_of (fns w) v"
  by (auto simp: content_of_def Let_def bind_r_Inr)

lemma simulated_tock: "simulated w L (tock s) = simulated w L s"
  unfolding simulated_def tock_sel by (rule refl)

lemma sim_now: "env_ok w \<Longrightarrow> simulates w L (tock s) (k (clock_at w (tick s))) \<Longrightarrow> simulates w L s (bind (now w) k)"
  unfolding simulates_def env_ok_def simulated_tock by (simp add: bind_now)

lemma claim_reserved_sim:
  assumes w: "env_ok w"
  shows "op_simulates w (puts w a b c (promoted w acc)) (claim_reserved_ingress w a b c acc turn res)"
  unfolding claim_reserved_ingress_def Let_def split_beta
proof (intro sim_rules w sim_tail reads_after)
  fix o1 tx tn rr i s x
  assume o1: "origin_of w a b c = Inr o1" and s: "live w s" and x: "dict_get (entries s) (x_entry_id x) = Some x" "entry_wf (fns w) (cfg w) x"
    and t: "content_of w ''conversation_ingress_accepted_text_invalid'' acc = Inr tx"
    and p: "x_phase x = Reserved \<and> (x_text_hash x = final_text_sha (fns w) tx \<and> x_turn_id x = tn \<and> x_delivery_ref x = rr \<and>
      same_origin x (fst o1) (fst (snd o1)) (snd (snd o1)))"
  let ?t = "clock_at w (tick s)"
  let ?f = "\<lambda>t y. y\<lparr>x_phase := Accepted, x_accepted_text := tx, x_created_at := t, x_updated_at := t,
    x_expires_at := t + max_age (cfg w), x_recovered_at := 0\<rparr>"
  have "entry_wf (fns w) (cfg w) (?f ?t x)"
    using t p text_of_idem [OF env_text [OF w]] w clock_at_nonneg
    by (intro promoted_wf [OF env_text [OF w] _ x(2)])
      (auto simp: content_of_def Let_def bind_r_Inr env_ok_def)
  moreover have "(?f ?t x)\<lparr>x_updated_at := ?t\<rparr> = ?f ?t x" by simp
  ultimately have wf: "entry_wf (fns w) (cfg w) (stamp u (entries s) (x_entry_id x) (?f ?t x))" for u
    using stamp_wf [OF x, of "?f ?t x" u ?t] by metis
  let ?s1 = "(tock s)\<lparr>entries := dict_set (x_entry_id x) (?f ?t x) (entries s)\<rparr>"
  have run: "update_entry (x_entry_id x) (?f ?t) (tock s) = (Inr (), ?s1)"
    using x by (simp add: update_entry_def run_simps)
  have step: "journal_step w (puts w a b c (promoted w acc)) (entries (tock s))
      (dict_set (x_entry_id x) (stamp (clock_at w (tick ?s1)) (entries (tock s)) (x_entry_id x) (?f ?t x)) (entries (tock s)))"
    using x wf p content_text [OF t]
    by (intro journal_step.renew [of _ _ x] puts_Some [OF o1]) (auto simp: same_key_def same_origin_def promoted_def)
  have live: "live w (tock s)" using s by simp
  have at: "dict_get (entries (tock s)) (x_entry_id x) = Some x" using x by simp
  have "simulates w (puts w a b c (promoted w acc)) (tock s) (mutate_and_write w (update_entry (x_entry_id x) (?f ?t)))"
    by (rule sim_mutate [where m = "update_entry (x_entry_id x) (?f ?t)" and s = "tock s" and y = "?f ?t x", OF w live at run])
      (use s step in \<open>simp_all add: same_files_def live_def\<close>)
  then have "simulates w (puts w a b c (promoted w acc)) (tock s) (seq_ops (mutate_and_write w (update_entry (x_entry_id x) (?f ?t)))
      (receipt_after w x (Some ''claimed'') True))"
    by (rule sim_tail [OF _ reads_after])
  then show "simulates w (puts w a b c (promoted w acc)) s (bind (now w) (\<lambda>t. seq_ops (mutate_and_write w (update_entry (x_entry_id x) (?f t)))
      (receipt_after w x (Some ''claimed'') True)))"
    by (rule sim_now [OF w])
qed

lemma make_room_cases:
  assumes w: "env_ok w" and m: "mem_ok w (entries s)"
  shows "(\<exists>er. make_room w s = (Inl er, s)) \<or>
    (\<exists>es. make_room w s = (Inr (), s\<lparr>entries := es\<rparr>) \<and> room_made w (entries s) es)"
proof (cases "length (entries s) < max_entries (cfg w)")
  case True
  then have "make_room w s = (Inr (), s\<lparr>entries := entries s\<rparr>)" by (simp add: make_room_def run_simps)
  moreover have "room_made w (entries s) (entries s)" using True by (simp add: room_made_def)
  ultimately show ?thesis by blast
next
  case full: False
  let ?l = "sort_key completed_order (filter (\<lambda>x. x_phase x = Completed) (map snd (entries s)))"
  show ?thesis
  proof (cases ?l)
    case Nil
    then show ?thesis using full by (simp add: make_room_def run_simps)
  next
    case (Cons x xs)
    then have "x \<in> set ?l" by simp
    then obtain i where x: "(i, x) \<in> set (entries s)" "x_phase x = Completed" by auto
    then have get: "dict_get (entries s) (x_entry_id x) = Some x" using m by (auto simp: mem_ok_def dict_get_def)
    let ?es = "dict_pop (x_entry_id x) (entries s)"
    have "\<exists>p \<in> set (entries s). fst p = x_entry_id x" using dict_get_mem [OF get] by (intro bexI) simp_all
    then have "length ?es < length (entries s)"
      unfolding dict_pop_filter by (auto intro: length_filter_less)
    then have "length ?es < max_entries (cfg w)" using m by (simp add: mem_ok_def)
    then have "room_made w (entries s) ?es" using get x(2) by (auto simp: room_made_def)
    moreover have "make_room w s = (Inr (), s\<lparr>entries := ?es\<rparr>)" using full Cons by (simp add: make_room_def run_simps)
    ultimately show ?thesis by blast
  qed
qed

lemma commit_sim:
  assumes w: "env_ok w" and s: "live w s" and k: "reads_only k" and step: "journal_step w L (entries s) es"
    and run: "seq_ops (write_or_restore w (entries s)) k ((tock s)\<lparr>entries := es\<rparr>) = (r, s')"
  shows "simulated w L s r s'"
proof -
  let ?s1 = "(tock s)\<lparr>entries := es\<rparr>"
  obtain r1 s2 where 1: "write_or_restore w (entries s) ?s1 = (r1, s2)" by fastforce
  have "outcome w (entries s) (entries ?s1) r1 s2"
    by (rule commit_spec [OF w s _ _ _ _ _ _ 1])
      (use s journal_step_ok [OF step live_mem [OF s]] in \<open>simp_all add: same_files_def live_def\<close>)
  moreover obtain y where "k s2 = (Inr y, s2)" using k unfolding reads_only_def by blast
  ultimately show ?thesis
    using run step by (cases r1) (auto simp: seq_run 1 simulated_def outcome_def committed_def)
qed

text \<open>Adding an entry, after room was made for a new one.\<close>

lemma sim_insert:
  assumes w: "env_ok w" and s: "live w s" and k: "\<And>t. reads_only (k t)"
    and step: "\<And>t es. t \<ge> 0 \<Longrightarrow> (if room then room_made w (entries s) es else es = entries s) \<Longrightarrow>
      journal_step w L (entries s) (dict_set i (x t) es)"
  shows "simulates w L s (seq_ops (if room then make_room w else ret ()) (bind (now w) (\<lambda>t.
    seq_ops (change (\<lambda>s. s\<lparr>entries := dict_set i (x t) (entries s)\<rparr>)) (seq_ops (write_or_restore w (entries s)) (k t)))))"
    (is "simulates w L s (seq_ops ?room ?k)")
proof -
  have c: "clock_ok w" using w by (simp add: env_ok_def)
  have main: "simulated w L s r s'"
    if es: "if room then room_made w (entries s) es else es = entries s" and run: "?k (s\<lparr>entries := es\<rparr>) = (r, s')" for es r s'
  proof -
    let ?t = "clock_at w (tick s)"
    have "?k (s\<lparr>entries := es\<rparr>) = seq_ops (write_or_restore w (entries s)) (k ?t) ((tock s)\<lparr>entries := dict_set i (x ?t) es\<rparr>)"
      by (simp add: bind_now [OF c] tock_def)
    then show ?thesis using commit_sim [OF w s k step [OF clock_at_nonneg es]] run by simp
  qed
  show ?thesis
  proof (cases room)
    case False
    then show ?thesis using main [of "entries s"] by (simp add: simulates_def)
  next
    case True
    from make_room_cases [OF w live_mem [OF s]] show ?thesis
    proof
      assume "\<exists>er. make_room w s = (Inl er, s)"
      then show ?thesis using True s by (auto simp: simulates_def seq_run simulated_def live_kept)
    next
      assume "\<exists>es. make_room w s = (Inr (), s\<lparr>entries := es\<rparr>) \<and> room_made w (entries s) es"
      then show ?thesis using True main by (auto simp: simulates_def seq_run)
    qed
  qed
qed

lemma bind_bind_ask: "bind (bind (ask h) g) k s = bind (g (h (tick s))) k (tock s)"
  by (simp add: bind_def ask_def tock_def)

lemma claimed_entry_wf:
  assumes w: "env_ok w" and o1: "origin_of w a b c = Inr (sf, sc, d)"
    and tx: "content_of w ''conversation_ingress_accepted_text_invalid'' acc = Inr tx"
    and i: "id_of_origin w sf sc d = Inr i" and tn: "turn_id_of (fns w) v = Inr tn" and t: "t \<ge> 0"
  shows "entry_wf (fns w) (cfg w) (new_entry i sf sc d tn Accepted (final_text_sha (fns w) tx) tx [] t (max_age (cfg w)))"
proof -
  have g: "cfg_ok (cfg w)" using w by (simp add: env_ok_def)
  show ?thesis
    using o1 i tx text_of_idem [OF env_text [OF w]] g
    by (intro new_entry_wf [OF env_text [OF w] g, of a b c _ _ _ _ v] tn t final_sha_hex [OF env_text [OF w]])
      (auto simp: cfg_ok_def content_of_def Let_def bind_r_Inr)
qed

lemma claim_sim:
  assumes w: "env_ok w"
  shows "op_simulates w (puts w a b c (accepts w acc)) (claim w a b c acc turn)"
  unfolding claim_def Let_def split_beta
proof (intro sim_rules w)
  fix o1 :: "string \<times> string \<times> string" and tx i and s :: journal
  let ?sf = "fst o1" and ?sc = "fst (snd o1)" and ?d = "snd (snd o1)"
  let ?th = "final_text_sha (fns w) tx" and ?old = "dict_get (entries s) i"
  let ?x = "\<lambda>tn t. new_entry i ?sf ?sc ?d tn Accepted ?th tx [] t (max_age (cfg w))"
  let ?k = "\<lambda>tn. seq_ops (make_room w) (bind (now w) (\<lambda>t.
    seq_ops (change (\<lambda>s. s\<lparr>entries := dict_set i (?x tn t) (entries s)\<rparr>))
      (seq_ops (write_or_restore w (snd (?old, entries s))) (give_receipt w (?x tn t) (Some ''claimed'') True))))"
  assume o1: "origin_of w a b c = Inr o1" and tx: "content_of w ''conversation_ingress_accepted_text_invalid'' acc = Inr tx"
    and i: "id_of_origin w ?sf ?sc ?d = Inr i" and s: "live w s"
  have ins: "simulates w (puts w a b c (accepts w acc)) s' (?k tn)" if s': "live w s'" "entries s' = entries s" and old: "?old = None"
    and tn: "turn_id_of (fns w) v = Inr tn" for s' tn v
  proof -
    note claimed_entry_wf [OF w _ tx _ tn, of a b c ?sf ?sc ?d i] o1 i
    then have "journal_step w (puts w a b c (accepts w acc)) (entries s') (dict_set i (?x tn t) es)" if "t \<ge> 0" "room_made w (entries s') es" for t es
      using that old s'(2) content_text [OF tx]
      by (intro journal_step.admit puts_Some [OF o1]) (auto simp: new_entry_def accepts_def same_origin_def)
    then show ?thesis
      using sim_insert [OF w s'(1), where room = True and i = i and x = "?x tn" and
          k = "\<lambda>t. give_receipt w (?x tn t) (Some ''claimed'') True"] s'(2) by simp
  qed
  show "simulates w (puts w a b c (accepts w acc)) s (case fst (?old, entries s) of
      None \<Rightarrow> bind (if text_of (fns w) turn \<noteq> [] then lift (turn_id_of (fns w) turn)
                else bind (ask (fresh_turn w)) (\<lambda>v. lift (turn_id_of (fns w) v))) ?k
    | Some x \<Rightarrow>
        seq_ops (require (x_text_hash x = ?th \<and> x_accepted_text x = tx \<and> same_origin x ?sf ?sc ?d) mismatch)
          (give_receipt w x None False))"
  proof (cases ?old)
    case (Some x)
    then show ?thesis using s by (simp add: sim_rules)
  next
    case None
    show ?thesis
    proof (cases "text_of (fns w) turn \<noteq> []")
      case True
      have "simulates w (puts w a b c (accepts w acc)) s (bind (lift (turn_id_of (fns w) turn)) ?k)"
        by (intro sim_lift s ins None) simp_all
      then show ?thesis using None True by simp
    next
      case False
      let ?r = "turn_id_of (fns w) (fresh_turn w (tick s))"
      have "simulates w (puts w a b c (accepts w acc)) (tock s) (bind (lift ?r) ?k)"
        using s by (intro sim_lift ins None) simp_all
      then have "simulates w (puts w a b c (accepts w acc)) s (bind (bind (ask (fresh_turn w)) (\<lambda>v. lift (turn_id_of (fns w) v))) ?k)"
        unfolding simulates_def simulated_tock bind_bind_ask .
      then show ?thesis using None False by simp
    qed
  qed
qed

lemma reserve_ingress_sim:
  assumes w: "env_ok w"
  shows "op_simulates w (puts w a b c reserves) (reserve_ingress w a b c th turn res ttl)"
  unfolding reserve_ingress_def Let_def split_beta
proof (intro sim_rules w)
  fix o1 :: "string \<times> string \<times> string" and h tn rr and age :: real and i and s :: journal
  let ?sf = "fst o1" and ?sc = "fst (snd o1)" and ?d = "snd (snd o1)" and ?old = "dict_get (entries s) i"
  let ?x = "\<lambda>t. new_entry i ?sf ?sc ?d tn Reserved h [] rr t age"
  assume o1: "origin_of w a b c = Inr o1" and h: "sha_of (fns w) False th = Inr h" and tn: "turn_id_of (fns w) turn = Inr tn"
    and rr: "sha_of (fns w) False res = Inr rr" and age: "0 < age \<and> age \<le> max_age (cfg w)"
    and i: "id_of_origin w ?sf ?sc ?d = Inr i" and s: "live w s"
    and old: "case fst (?old, entries s) of None \<Rightarrow> True
       | Some x \<Rightarrow> x_phase x = Reserved \<and> x_text_hash x = h \<and> x_turn_id x = tn \<and> same_origin x ?sf ?sc ?d"
  have g: "cfg_ok (cfg w)" using w by (simp add: env_ok_def)
  have wf: "entry_wf (fns w) (cfg w) (?x t)" if "t \<ge> 0" for t
    using o1 i age sha_of_Inr [OF h] sha_of_Inr [OF rr]
    by (intro new_entry_wf [OF env_text [OF w] g, of a b c _ _ _ _ turn] tn that) auto
  have "journal_step w (puts w a b c reserves) (entries s) (dict_set i (?x t) es)"
    if t: "t \<ge> 0" and es: "if ?old = None then room_made w (entries s) es else es = entries s" for t es
  proof (cases ?old)
    case None
    then show ?thesis using es wf [OF t]
      by (intro journal_step.admit puts_Some [OF o1]) (auto simp: new_entry_def reserves_def same_origin_def)
  next
    case (Some x)
    then have "es = entries s" "x_phase x = Reserved" "same_key x (?x t)"
      using es old mem_ok_get [OF live_mem [OF s] Some] by (auto simp: new_entry_def same_key_def same_origin_def)
    moreover have "x_phase (?x t) \<in> {Reserved, Accepted}" by (simp add: new_entry_def)
    moreover have "puts w a b c reserves (Some x) (Some (?x t))"
      using calculation by (intro puts_Some [OF o1]) (simp_all add: new_entry_def reserves_def same_origin_def)
    ultimately show ?thesis using journal_step.renew [OF Some _ _ _ wf [OF t]] by simp
  qed
  then show "simulates w (puts w a b c reserves) s (seq_ops (if fst (?old, entries s) = None then make_room w else ret ()) (bind (now w) (\<lambda>t.
      seq_ops (change (\<lambda>s. s\<lparr>entries := dict_set i (?x t) (entries s)\<rparr>))
        (seq_ops (write_or_restore w (snd (?old, entries s))) (give_receipt w (?x t) (Some ''reserved'') False)))))"
    using sim_insert [OF w s, where room = "?old = None" and i = i and x = ?x and
        k = "\<lambda>t. give_receipt w (?x t) (Some ''reserved'') False"] by simp
qed

lemma bind_assoc: "bind (bind m f) g = bind m (\<lambda>x. bind (f x) g)"
  by (rule ext) (simp add: bind_def split: prod.split sum.split)

lemma seq_assoc: "bind (seq_ops m k) g = seq_ops m (bind k g)"
  by (simp add: seq_ops_def bind_assoc)

lemma entry_if_any_sim:
  assumes w: "env_ok w" and k: "\<And>x s. live w s \<Longrightarrow> simulates w L s (k x)"
  shows "op_simulates w L (bind (entry_if_any w i) k)"
  unfolding entry_if_any_def bind_assoc seq_assoc by (intro sim_rules w k)

lemma receipt_for_sim: "env_ok w \<Longrightarrow> op_simulates w keeps_all (receipt_for w i)"
  unfolding receipt_for_def
  by (intro entry_if_any_sim) (auto split: option.split intro!: sim_reads reads_bind)

lemma record_for_sim: "env_ok w \<Longrightarrow> op_simulates w keeps_all (record_for w i)"
  unfolding record_for_def by (intro entry_if_any_sim sim_reads reads_ret idle_simps)

lemma replay_record_for_sim:
  assumes w: "env_ok w"
  shows "op_simulates w keeps_all (replay_record_for w i)"
  unfolding replay_record_for_def record_for_def bind_assoc bind_ret
proof (intro entry_if_any_sim w)
  fix x :: "entry option" and s
  assume s: "live w s"
  show "simulates w keeps_all s (case map_option (record_of w) x of None \<Rightarrow> ret None
    | Some d \<Rightarrow> seq_ops (require (x_phase (rd_entry d) = Completed) (Recovery ''conversation_ingress_replay_not_terminal''))
        (seq_ops (require (rd_replayable d) (Recovery ''conversation_ingress_replay_unattributed'')) (ret (Some d))))"
    using sim_reads [OF reads_ret s idle_simps(3)] by (cases x) (auto intro!: sim_require [OF s])
qed

lemma recovery_records_sim: "env_ok w \<Longrightarrow> op_simulates w keeps_all (recovery_records w)"
  unfolding recovery_records_def by (intro sim_rules sim_reads reads_get)

end
