(* ===== verification/Ingress_Recovery.thy ===== *)
theory Ingress_Recovery
  imports Ingress_Sim
begin

text \<open>
  The journal of accepted messages (\<open>conversation_ingress_recovery.py\<close>): the machine of all operations,
  and the properties of the component.
\<close>

section \<open>The machine\<close>

datatype journal_op =
  J_Reserve pyval pyval pyval pyval pyval pyval pyval
| J_Claim_Reserved pyval pyval pyval pyval pyval pyval
| J_Claim pyval pyval pyval pyval pyval
| J_Revoke_Batch pyval
| J_Revoke_Scope pyval pyval
| J_Reset_Guild pyval
| J_Response_Ready pyval pyval pyval
| J_Bind_Response pyval pyval pyval
| J_Stream_Inflight pyval pyval
| J_Inflight pyval pyval
| J_Succeeded pyval pyval
| J_Ambiguous pyval pyval
| J_Discard pyval pyval pyval pyval
| J_Terminal pyval pyval pyval pyval
| J_Complete pyval pyval pyval pyval
| J_Receipt pyval
| J_Record pyval
| J_Replay pyval
| J_Records

definition forget :: "'a jprog \<Rightarrow> unit jprog" where
  "forget m = bind m (\<lambda>_. ret ())"

fun journal_do :: "journal_env \<Rightarrow> journal_op \<Rightarrow> unit jprog" where
  "journal_do w (J_Reserve a b c th turn res ttl) = forget (reserve_ingress w a b c th turn res ttl)"
| "journal_do w (J_Claim_Reserved a b c acc turn res) = forget (claim_reserved_ingress w a b c acc turn res)"
| "journal_do w (J_Claim a b c acc turn) = forget (claim w a b c acc turn)"
| "journal_do w (J_Revoke_Batch v) = forget (revoke_reserved_ingress_batch w v)"
| "journal_do w (J_Revoke_Scope a b) = forget (revoke_reserved_ingress_scope w a b)"
| "journal_do w (J_Reset_Guild g) = forget (reset_guild w g)"
| "journal_do w (J_Response_Ready i ans ref) = forget (mark_response_ready w i ans ref)"
| "journal_do w (J_Bind_Response i ans ref) = forget (bind_response w i ans ref)"
| "journal_do w (J_Stream_Inflight i d) = forget (mark_stream_delivery_inflight w i d)"
| "journal_do w (J_Inflight i d) = forget (mark_delivery_inflight w i d)"
| "journal_do w (J_Succeeded i d) = forget (mark_delivery_succeeded w i d)"
| "journal_do w (J_Ambiguous i c) = forget (mark_delivery_ambiguous w i c)"
| "journal_do w (J_Discard i h d c) = forget (discard_ambiguous w i h d c)"
| "journal_do w (J_Terminal i n ans ref) = forget (begin_terminal_commit w i n ans ref)"
| "journal_do w (J_Complete i n ans ref) = forget (complete w i n ans ref)"
| "journal_do w (J_Receipt i) = forget (receipt_for w i)"
| "journal_do w (J_Record i) = forget (record_for w i)"
| "journal_do w (J_Replay i) = forget (replay_record_for w i)"
| "journal_do w J_Records = forget (recovery_records w)"

text \<open>The single changes each operation may make.\<close>

fun permits :: "journal_env \<Rightarrow> journal_op \<Rightarrow> permit" where
  "permits w (J_Reserve a b c th turn res ttl) = puts w a b c reserves"
| "permits w (J_Claim_Reserved a b c acc turn res) = puts w a b c (promoted w acc)"
| "permits w (J_Claim a b c acc turn) = puts w a b c (accepts w acc)"
| "permits w (J_Revoke_Batch v) = drops (revoked_by w v)"
| "permits w (J_Revoke_Scope a b) = drops (reserved_in w a b)"
| "permits w (J_Reset_Guild g) = drops (of_guild g)"
| "permits w (J_Response_Ready i ans ref) = moves w i [(Accepted, Response_Ready)]"
| "permits w (J_Bind_Response i ans ref) = moves w i
     [(Accepted, Response_Ready), (Delivery_Inflight, Delivery_Inflight), (Delivery_Ambiguous, Delivery_Ambiguous)]"
| "permits w (J_Stream_Inflight i d) = moves w i [(Accepted, Delivery_Inflight), (Response_Ready, Delivery_Inflight)]"
| "permits w (J_Inflight i d) = moves w i [(Response_Ready, Delivery_Inflight)]"
| "permits w (J_Succeeded i d) = moves w i
     [(Delivery_Inflight, Delivery_Succeeded), (Delivery_Ambiguous, Delivery_Succeeded)]"
| "permits w (J_Ambiguous i c) = moves w i [(Delivery_Inflight, Delivery_Ambiguous)]"
| "permits w (J_Discard i h d c) =
     drops (\<lambda>x. x_phase x = Delivery_Ambiguous \<and> entry_id_of (fns w) i = Inr (x_entry_id x))"
| "permits w (J_Terminal i n ans ref) = moves w i [(Delivery_Succeeded, Terminal_Committing)]"
| "permits w (J_Complete i n ans ref) = moves w i [(Terminal_Committing, Completed)]"
| "permits w (J_Receipt i) = keeps_all"
| "permits w (J_Record i) = keeps_all"
| "permits w (J_Replay i) = keeps_all"
| "permits w J_Records = keeps_all"

lemma forget_run: "forget m s = (case m s of (Inl er, s1) \<Rightarrow> (Inl er, s1) | (Inr _, s1) \<Rightarrow> (Inr (), s1))"
  by (simp add: forget_def bind_run run_simps split: prod.split sum.split)

lemma op_forget:
  assumes m: "op_simulates w L m"
  shows "op_simulates w L (forget m)"
  unfolding op_simulates_def
proof (intro allI impI)
  fix s r s' assume s: "journal_inv w s" and run: "forget m s = (r, s')"
  obtain r1 s1 where 1: "m s = (r1, s1)" by fastforce
  have "(\<exists>er. r1 = Inl er) \<and> s1 \<in> {s, reloaded w s} \<or> live w (reloaded w s) \<and> op_simulated w L (reloaded w s) r1 s1"
    using m s 1 unfolding op_simulates_def by blast
  then show "(\<exists>er. r = Inl er) \<and> s' \<in> {s, reloaded w s} \<or> live w (reloaded w s) \<and> op_simulated w L (reloaded w s) r s'"
    using run by (cases r1) (auto simp: forget_run 1 op_simulated_def Let_def)
qed

lemmas journal_op_sims =
  reserve_ingress_sim claim_reserved_sim claim_sim revoke_batch_sim revoke_scope_sim reset_guild_sim
  mark_response_ready_sim bind_response_sim mark_delivery_succeeded_sim
  mark_delivery_ambiguous_sim discard_ambiguous_sim begin_terminal_commit_sim complete_sim
  receipt_for_sim record_for_sim replay_record_for_sim recovery_records_sim

lemma journal_do_sim: "env_ok w \<Longrightarrow> op_simulates w (permits w q) (journal_do w q)"
  using start_delivery_sim [of w "[Accepted, Response_Ready]"] start_delivery_sim [of w "[Response_Ready]"]
  by (cases q) (simp_all add: op_forget journal_op_sims mark_stream_delivery_inflight_def mark_delivery_inflight_def)

lemma genesis_hex [simp]: "hex_text 64 chain_genesis"
  by (simp add: chain_genesis_def hex_text_def list_all_iff)

lemma new_journal_inv: "journal_inv w (new_journal w jf hf t)"
  by (simp add: new_journal_def journal_inv_def)

lemma opened_inv: "env_ok w \<Longrightarrow> open_journal w jf hf t = (Inr u, s) \<Longrightarrow> journal_inv w s"
  using load_inv [OF _ new_journal_inv, of w True jf hf t "Inr u"] new_journal_inv
  by (auto simp: open_journal_def Let_def split: if_splits)


section \<open>A concrete environment\<close>

text \<open>Texts are their own normal form, every hash is the same, the clock stands still and nothing fails.\<close>

definition demo_fns :: text_fns where
  "demo_fns = \<lparr>nfkc = (\<lambda>s. s), repr_of = (\<lambda>_. []), sha_text = (\<lambda>_. chain_genesis), canonical_json = (\<lambda>_. Some []),
     canon_id = (\<lambda>_. True)\<rparr>"

definition demo_cfg :: ingress_cfg where
  "demo_cfg = \<lparr>max_age = 1800, max_entries = 8, max_chars = 2000, max_bytes = 4194304\<rparr>"

definition demo_ingress :: journal_env where
  "demo_ingress =
     \<lparr>fns = demo_fns, cfg = demo_cfg, enabled = True, has_process = False, clock = (\<lambda>_. PFloat (Fin 100)),
      put_journal = (\<lambda>_. Written), put_head = (\<lambda>_. Written), journal_fault = (\<lambda>_. None), head_fault = (\<lambda>_. None),
      target_allowed = (\<lambda>_. Inr True), target_current = None, doc_size = (\<lambda>_. 0), fresh_turn = (\<lambda>_. PStr ''turn-1'')\<rparr>"

lemma demo_ingress_simps [simp]:
  "fns demo_ingress = demo_fns" "cfg demo_ingress = demo_cfg" "enabled demo_ingress" "\<not> has_process demo_ingress"
  "clock demo_ingress n = PFloat (Fin 100)" "put_journal demo_ingress n = Written" "put_head demo_ingress n = Written"
  "journal_fault demo_ingress n = None" "head_fault demo_ingress n = None" "target_allowed demo_ingress n = Inr True"
  "target_current demo_ingress = None" "doc_size demo_ingress d = 0" "fresh_turn demo_ingress n = PStr ''turn-1''"
  "max_entries demo_cfg = 8" "max_chars demo_cfg = 2000" "max_bytes demo_cfg = 4194304" "max_age demo_cfg = 1800"
  "sha_text demo_fns t = chain_genesis" "nfkc demo_fns t = t" "canonical_json demo_fns v = Some []"
  by (simp_all add: demo_ingress_def demo_cfg_def demo_fns_def)

lemma demo_now [simp]: "finite_nonnegative timestamp_code (PFloat (Fin 100)) = Inr 100"
  by (simp add: finite_nonnegative_def)

lemma demo_env_ok: "env_ok demo_ingress"
proof -
  have "text_ok demo_fns"
    using normalize_text_def [of demo_fns] by (simp add: text_ok_def)
  then show ?thesis by (simp add: env_ok_def cfg_ok_def clock_ok_def)
qed

lemma demo_clock [simp]: "clock_at demo_ingress n = 100"
  by (simp add: clock_at_def)

text \<open>An environment where nothing fails: every file is written and read, the path is allowed, and the callback
  that asks whether an entry's target is still current, where there is one, says yes.\<close>

definition calm :: "journal_env \<Rightarrow> bool" where
  "calm w \<longleftrightarrow> enabled w \<and> (\<forall>f. target_current w = Some f \<longrightarrow> (\<forall>x n. f x n)) \<and>
     (\<forall>n. put_journal w n = Written \<and> put_head w n = Written \<and> journal_fault w n = None \<and> head_fault w n = None \<and>
       target_allowed w n = Inr True)"

text \<open>The document of these entries can be written under any generation up to \<open>g\<close>: it has a JSON text, which is
  within the size limit.\<close>

definition storable :: "journal_env \<Rightarrow> int \<Rightarrow> entry dict \<Rightarrow> bool" where
  "storable w g es \<longleftrightarrow>
     (\<forall>n prev k. 0 \<le> n \<and> n \<le> g \<and> hex_text 64 prev \<longrightarrow>
       (let xs = sort_key entry_order (map snd es) in
        \<exists>h. journal_hash (fns w) (payload_dict (cfg w) n prev [] (clock_at w k) xs) = Inr h \<and>
          doc_size w (PDict (payload_dict (cfg w) n prev h (clock_at w k) xs)) \<le> max_bytes (cfg w)))"

lemma demo_calm: "calm demo_ingress"
  by (simp add: calm_def)

lemma demo_storable: "storable demo_ingress g es"
  by (simp add: storable_def journal_hash_def json_sha_def Let_def)

lemma storableD:
  assumes "storable w g es" "0 \<le> n" "n \<le> g" "hex_text 64 prev"
  shows "\<exists>h. journal_hash (fns w) (payload_dict (cfg w) n prev [] (clock_at w k) (sort_key entry_order (map snd es))) = Inr h \<and>
    doc_size w (PDict (payload_dict (cfg w) n prev h (clock_at w k) (sort_key entry_order (map snd es)))) \<le> max_bytes (cfg w)"
  using assms by (simp add: storable_def Let_def)

lemma storable_less: "storable w g es \<Longrightarrow> g' \<le> g \<Longrightarrow> storable w g' es"
  by (auto simp: storable_def)

text \<open>The journal is in a state to be written.\<close>

definition writable :: "journal_env \<Rightarrow> journal \<Rightarrow> bool" where
  "writable w s \<longleftrightarrow> 0 \<le> generation s \<and> hex_text 64 (last_hash s) \<and> storable w (generation s + 1) (entries s)"

lemma calm_store:
  assumes w: "env_ok w" and q: "calm w" and m: "writable w s"
  shows "\<exists>s'. store w s = (Inr (), s') \<and> entries s' = entries s \<and> jstate s' = jstate s \<and> tick s' = tick s + 6 \<and>
    generation s' = generation s + 1"
proof -
  have c: "clock_ok w" using w by (simp add: env_ok_def)
  let ?t = "clock_at w (Suc (Suc (tick s)))"
  let ?xs = "sort_key entry_order (map snd (entries s))"
  obtain h where "journal_hash (fns w) (payload_dict (cfg w) (generation s + 1) (last_hash s) [] ?t ?xs) = Inr h"
      "doc_size w (PDict (payload_dict (cfg w) (generation s + 1) (last_hash s) h ?t ?xs)) \<le> max_bytes (cfg w)"
    using storableD [of w "generation s + 1" "entries s" "generation s + 1" "last_hash s" "Suc (Suc (tick s))"] m
    by (auto simp: writable_def)
  then show ?thesis
    using q by (simp add: calm_def store_def run_simps bind_def seq_ops_def require_def try_op_def targets_allowed_def
        payload_run [OF c] persist_def write_file_def write_head_def now_run [OF c] tock_def Let_def)
qed

lemma targets_current_yes: "\<forall>x n. f x n \<Longrightarrow> \<exists>k. targets_current f xs s = (Inr (), s\<lparr>tick := k\<rparr>)"
proof (induction xs arbitrary: s)
  case (Cons x xs)
  then show ?case using Cons.IH [of "tock s"] by (auto simp: run_simps tock_def)
next
  case Nil
  show ?case by (intro exI [of _ "tick s"]) (simp add: run_simps)
qed

lemma calm_targets: "calm w \<Longrightarrow> \<exists>k. require_mutation_targets_current w s = (Inr (), s\<lparr>tick := k\<rparr>)"
proof (cases "target_current w")
  case None
  then show ?thesis
    by (auto simp: require_mutation_targets_current_def run_simps intro: exI [of _ "tick s"])
next
  case (Some f)
  assume "calm w"
  then show ?thesis
    using Some targets_current_yes [of f "map snd (entries s)" s]
    by (simp add: require_mutation_targets_current_def run_simps calm_def)
qed

lemma calm_write:
  assumes "env_ok w" "calm w" "jstate s = Ready" "writable w s"
  shows "\<exists>s'. write_or_restore w before s = (Inr (), s') \<and> entries s' = entries s \<and> jstate s' = Ready \<and>
    generation s' = generation s + 1"
proof -
  obtain k where k: "require_mutation_targets_current w s = (Inr (), s\<lparr>tick := k\<rparr>)"
    using calm_targets [OF assms(2)] by blast
  have "writable w (s\<lparr>tick := k\<rparr>)" using assms(4) by (simp add: writable_def)
  from calm_store [OF assms(1,2) this] assms(2,3) show ?thesis
    by (auto simp: write_or_restore_def try_op_def write_journal_def k calm_def write_scoped_def seq_run
        require_ready_live run_simps)
qed

lemma calm_begin:
  assumes w: "env_ok w" and q: "calm w" and s: "live w s"
    and m: "storable w (generation s + 1) (unexpired (clock_at w (tick s)) (entries s))"
  shows "\<exists>s'. begin_op w s = (Inr (), s') \<and> generation s' \<le> generation s + 1"
proof -
  have c: "clock_ok w" using w by (simp add: env_ok_def)
  let ?es = "unexpired (clock_at w (tick s)) (entries s)"
  have "writable w ((tock s)\<lparr>entries := ?es\<rparr>)" using s m by (simp add: writable_def live_def journal_inv_def)
  from calm_write [OF w q _ this, of "entries s"] s show ?thesis
    by (auto simp: begin_op_def seq_run require_ready_live live_def prune_expired_def bind_now [OF c] run_simps)
qed

lemma demo_opens: "\<exists>s. open_journal demo_ingress Absent Absent 0 = (Inr (), s) \<and> live demo_ingress s \<and> entries s = []"
proof -
  have c: "clock_ok demo_ingress" using demo_env_ok by (simp add: env_ok_def)
  obtain s where run: "open_journal demo_ingress Absent Absent 0 = (Inr (), s)"
      and s: "entries s = []" "jstate s = Ready"
    by (simp add: open_journal_def new_journal_def load_def load_head_def read_file_def load_journal_def bootstrap_def
        run_simps bind_def seq_ops_def require_def try_op_def write_loaded_def require_mutation_targets_current_def
        ensure_ready_def store_def targets_allowed_def payload_run [OF c] journal_hash_def json_sha_def persist_def
        write_file_def write_head_def now_run [OF c] tock_def Let_def)
  then show ?thesis using opened_inv [OF demo_env_ok run] by (simp add: live_def)
qed

section \<open>Claiming\<close>

lemma begin_op_Inr:
  assumes "env_ok w" "live w s" "begin_op w s = (Inr u, s1)"
  shows "live w s1" "entries s1 = unexpired (clock_at w (tick s)) (entries s)"
  using prune_spec [of w s "Inr u" s1] assms
  by (auto simp: begin_op_def seq_run require_ready_live live_def)

lemma make_room_Inr:
  assumes "env_ok w" "live w s" "make_room w s = (Inr u, s1)"
  shows "\<exists>es. s1 = s\<lparr>entries := es\<rparr> \<and> room_made w (entries s) es"
  using make_room_cases [OF assms(1) live_mem [OF assms(2)]] assms(3) by auto

lemma turn_choice:
  "bind (if b then lift (g v) else bind (ask f) (\<lambda>u. lift (g u))) k s = (Inr r, s') \<Longrightarrow>
     \<exists>u tn s2. g u = Inr tn \<and> (s2 = s \<or> s2 = tock s) \<and> k tn s2 = (Inr r, s')"
  by (auto simp: bind_Inr lift_def ask_def tock_def split: if_splits)

lemma dict_get_unexpired: "distinct (map fst es) \<Longrightarrow> dict_get (unexpired t es) i = Some x \<Longrightarrow> dict_get es i = Some x"
  using dict_get_mem [of "unexpired t es" i x] by (auto simp: unexpired_def dict_get_def)

lemma make_room_succeeds:
  assumes w: "env_ok w" and s: "live w s"
    and room: "length (entries s) < max_entries (cfg w) \<or> (\<exists>p \<in> set (entries s). x_phase (snd p) = Completed)"
  shows "\<exists>es. make_room w s = (Inr (), s\<lparr>entries := es\<rparr>) \<and> room_made w (entries s) es"
proof -
  let ?l = "sort_key completed_order (filter (\<lambda>x. x_phase x = Completed) (map snd (entries s)))"
  have "?l \<noteq> [] \<or> length (entries s) < max_entries (cfg w)"
  proof (cases "length (entries s) < max_entries (cfg w)")
    case False
    then obtain p where "p \<in> set (entries s)" "x_phase (snd p) = Completed" using room by blast
    then have "snd p \<in> set ?l" by simp
    then show ?thesis by (metis list.set(1) empty_iff)
  qed simp
  then have "\<not> (\<exists>er. make_room w s = (Inl er, s))"
    by (auto simp: make_room_def run_simps split: list.splits if_splits)
  then show ?thesis using make_room_cases [OF w live_mem [OF s]] by blast
qed

lemma calm_claim:
  assumes w: "env_ok w" "calm w" and s: "live w s"
    and args: "origin_of w surface scope delivery = Inr (sf, sc, d)" "id_of_origin w sf sc d = Inr i"
      "content_of w ''conversation_ingress_accepted_text_invalid'' accepted = Inr tx" "turn_id_of (fns w) turn = Inr tn"
    and new: "dict_get (unexpired (clock_at w (tick s)) (entries s)) i = None"
    and room: "length (unexpired (clock_at w (tick s)) (entries s)) < max_entries (cfg w) \<or>
      (\<exists>p \<in> set (unexpired (clock_at w (tick s)) (entries s)). x_phase (snd p) = Completed)"
    and fits: "storable w (generation s + 1) (unexpired (clock_at w (tick s)) (entries s))"
      "\<And>es k. room_made w (unexpired (clock_at w (tick s)) (entries s)) es \<Longrightarrow>
        storable w (generation s + 2) (dict_set i
          (new_entry i sf sc d tn Accepted (final_text_sha (fns w) tx) tx [] (clock_at w k) (max_age (cfg w))) es)"
  shows "\<exists>r s'. claim w surface scope delivery accepted turn s = (Inr r, s') \<and> rc_should_process r \<and> rc_turn_id r = tn \<and>
    (\<exists>t. dict_get (entries s') i =
       Some (new_entry i sf sc d tn Accepted (final_text_sha (fns w) tx) tx [] t (max_age (cfg w))))"
proof -
  have c: "clock_ok w" using w by (simp add: env_ok_def)
  have turn: "text_of (fns w) turn \<noteq> []"
    using args(4) by (auto simp: turn_id_of_def Let_def bind_r_Inr turn_id_pattern_def)
  obtain s1 where b: "begin_op w s = (Inr (), s1)" and g: "generation s1 \<le> generation s + 1"
    using calm_begin [OF w s fits(1)] by blast
  note s1 = begin_op_Inr [OF w(1) s b]
  obtain es where mr: "make_room w s1 = (Inr (), s1\<lparr>entries := es\<rparr>)" "room_made w (entries s1) es"
    using make_room_succeeds [OF w(1) s1(1)] room s1(2) by auto
  let ?x = "new_entry i sf sc d tn Accepted (final_text_sha (fns w) tx) tx [] (clock_at w (tick s1)) (max_age (cfg w))"
  let ?t = "(tock s1)\<lparr>entries := dict_set i ?x es\<rparr>"
  have "storable w (generation s + 2) (dict_set i ?x es)" using fits(2) mr(2) s1(2) by simp
  then have "storable w (generation s1 + 1) (dict_set i ?x es)" by (rule storable_less) (use g in simp)
  then have m: "writable w ?t" using s1(1) by (simp add: writable_def live_def journal_inv_def)
  obtain s2 where wr: "write_or_restore w (entries s1) ?t = (Inr (), s2)" "entries s2 = dict_set i ?x es"
    using calm_write [OF w _ m, of "entries s1"] s1(1) by (auto simp: live_def)
  have "claim w surface scope delivery accepted turn s =
      (Inr (receipt_of w ?x (Some ''claimed'') True (generation s2)), s2)"
    using args turn b mr(1) wr(1) new s1(2)
    by (simp add: claim_def seq_run bind_now [OF c] tock_def Let_def run_simps give_receipt_def)
  then show ?thesis
    by (intro exI [of _ "receipt_of w ?x (Some ''claimed'') True (generation s2)"] exI [of _ s2] conjI
        exI [of _ "clock_at w (tick s1)"]) (simp_all add: receipt_of_def new_entry_def wr(2))
qed

lemma demo_texts [simp]:
  "normalize_text demo_fns ''discord'' = ''discord''" "normalize_text demo_fns ''room'' = ''room''"
  "normalize_text demo_fns ''m1'' = ''m1''" "normalize_text demo_fns ''hello'' = ''hello''"
  "normalize_text demo_fns ''turn-1'' = ''turn-1''"
  using demo_env_ok
  by (auto intro!: normalize_plain simp: env_ok_def plain_char_def py_space_def)

lemma demo_surface: "surface_of demo_fns (PStr ''discord'') = Inr ''discord''"
  by (simp add: surface_of_def low_def surface_pattern_def lower_char_def)

lemma demo_scope: "scope_of demo_fns (PStr ''room'') = Inr ''room''" "delivery_id_of demo_fns (PStr ''m1'') = Inr ''m1''"
  by (simp_all add: scope_of_def delivery_id_of_def bounded_identifier_def)

lemma demo_args:
  "origin_of demo_ingress (PStr ''discord'') (PStr ''room'') (PStr ''m1'') = Inr (''discord'', ''room'', ''m1'')"
  "id_of_origin demo_ingress ''discord'' ''room'' ''m1'' = Inr (entry_id_prefix @ chain_genesis)"
  "content_of demo_ingress ''conversation_ingress_accepted_text_invalid'' (PStr ''hello'') = Inr ''hello''"
  "turn_id_of demo_fns (PStr ''turn-1'') = Inr ''turn-1''"
  by (simp_all add: origin_of_def demo_surface demo_scope id_of_origin_def conversation_ingress_entry_id_def json_sha_def
      content_of_def turn_id_of_def turn_id_pattern_def alnum_ascii_def)

lemma demo_claimed:
  "\<exists>s r s'. live demo_ingress s \<and> entries s = [] \<and>
     claim demo_ingress (PStr ''discord'') (PStr ''room'') (PStr ''m1'') (PStr ''hello'') (PStr ''turn-1'') s = (Inr r, s') \<and>
     rc_should_process r \<and> live demo_ingress s' \<and> integrity s' = I_Verified \<and>
     (\<exists>t. dict_get (entries s') (entry_id_prefix @ chain_genesis) =
       Some (new_entry (entry_id_prefix @ chain_genesis) ''discord'' ''room'' ''m1'' ''turn-1'' Accepted
         (final_text_sha demo_fns ''hello'') ''hello'' [] t 1800))"
proof -
  obtain s where s: "live demo_ingress s" "entries s = []" using demo_opens by blast
  then obtain r s' t where run:
      "claim demo_ingress (PStr ''discord'') (PStr ''room'') (PStr ''m1'') (PStr ''hello'') (PStr ''turn-1'') s = (Inr r, s')"
      "rc_should_process r" "dict_get (entries s') (entry_id_prefix @ chain_genesis) =
       Some (new_entry (entry_id_prefix @ chain_genesis) ''discord'' ''room'' ''m1'' ''turn-1'' Accepted
         (final_text_sha demo_fns ''hello'') ''hello'' [] t 1800)"
    using calm_claim [OF demo_env_ok demo_calm s(1) demo_args(1-3), of "PStr ''turn-1''" "''turn-1''"]
    by (auto simp: unexpired_def demo_args demo_storable)
  moreover have "live demo_ingress s'" "integrity s' = I_Verified"
    using op_live [OF claim_sim [OF demo_env_ok] s(1) run(1)] run(3) s(2)
    by (auto simp: op_simulated_def Let_def unexpired_def)
  ultimately show ?thesis using s by blast
qed

text \<open>The end of a claim, where the message is new.\<close>

lemma claim_new:
  assumes w: "env_ok w" and s1: "live w s1" and o1: "origin_of w a b c = Inr (sf, sc, d)"
    and tx: "content_of w ''conversation_ingress_accepted_text_invalid'' accepted = Inr tx"
    and i: "id_of_origin w sf sc d = Inr i" and none: "dict_get (entries s1) i = None"
    and go: "bind (if text_of (fns w) turn \<noteq> [] then lift (turn_id_of (fns w) turn)
                  else bind (ask (fresh_turn w)) (\<lambda>v. lift (turn_id_of (fns w) v))) (\<lambda>tn.
            seq_ops (make_room w)
            (bind (now w) (\<lambda>t.
            let x = new_entry i sf sc d tn Accepted (final_text_sha (fns w) tx) tx [] t (max_age (cfg w)) in
            seq_ops (change (\<lambda>s. s\<lparr>entries := dict_set i x (entries s)\<rparr>))
            (seq_ops (write_or_restore w (entries s1)) (give_receipt w x (Some ''claimed'') True))))) s1 = (Inr r, s')"
  shows "\<exists>tn t n. r = receipt_of w (new_entry i sf sc d tn Accepted (final_text_sha (fns w) tx) tx [] t (max_age (cfg w)))
      (Some ''claimed'') True n \<and> mirrored w s' \<and>
    dict_get (entries s') i = Some (new_entry i sf sc d tn Accepted (final_text_sha (fns w) tx) tx [] t (max_age (cfg w)))"
proof -
  obtain v tn s2 where tv: "turn_id_of (fns w) v = Inr tn" and tn: "s2 = s1 \<or> s2 = tock s1"
    and k: "seq_ops (make_room w) (bind (now w) (\<lambda>t.
        let x = new_entry i sf sc d tn Accepted (final_text_sha (fns w) tx) tx [] t (max_age (cfg w)) in
        seq_ops (change (\<lambda>s. s\<lparr>entries := dict_set i x (entries s)\<rparr>))
        (seq_ops (write_or_restore w (entries s1)) (give_receipt w x (Some ''claimed'') True)))) s2 = (Inr r, s')"
    using turn_choice [OF go] by blast
  then obtain s3 where room: "make_room w s2 = (Inr (), s3)"
    and fin: "bind (now w) (\<lambda>t.
        let x = new_entry i sf sc d tn Accepted (final_text_sha (fns w) tx) tx [] t (max_age (cfg w)) in
        seq_ops (change (\<lambda>s. s\<lparr>entries := dict_set i x (entries s)\<rparr>))
        (seq_ops (write_or_restore w (entries s1)) (give_receipt w x (Some ''claimed'') True))) s3 = (Inr r, s')"
    by (auto simp: seq_Inr [of "make_room w"])
  let ?x = "\<lambda>t. new_entry i sf sc d tn Accepted (final_text_sha (fns w) tx) tx [] t (max_age (cfg w))"
  have s2: "live w s2" "entries s2 = entries s1" using tn s1 by auto
  obtain es where s3: "s3 = s2\<lparr>entries := es\<rparr>" "room_made w (entries s1) es"
    using make_room_Inr [OF w s2(1) room] s2(2) by auto
  let ?t = "clock_at w (tick s3)"
  obtain s4 where wr: "write_or_restore w (entries s1) ((tock s3)\<lparr>entries := dict_set i (?x ?t) es\<rparr>) = (Inr (), s4)"
    and r: "r = receipt_of w (?x ?t) (Some ''claimed'') True (generation s4)" "s' = s4"
    using fin w by (auto simp: bind_now env_ok_def Let_def seq_Inr s3(1) tock_def give_receipt_def run_simps)
  have "journal_step w (\<lambda>_ _. True) (entries s1) (dict_set i (?x ?t) es)"
    using claimed_entry_wf [OF w o1 tx i tv clock_at_nonneg] s3(2) none
    by (intro journal_step.admit) (auto simp: new_entry_def)
  then have "mem_ok w (dict_set i (?x ?t) es)" using journal_step_ok live_mem [OF s1] by blast
  then have "outcome w (entries s1) (dict_set i (?x ?t) es) (Inr ()) s4"
    using commit_spec [OF w s1 _ _ _ _ _ _ wr] s2 tn s1 by (auto simp: s3(1) same_files_def live_def)
  then have "mirrored w s4" "entries s4 = dict_set i (?x ?t) es"
    by (auto simp: outcome_def committed_def live_def journal_inv_def)
  then show ?thesis using r by (intro exI [of _ tn] exI [of _ ?t] exI [of _ "generation s4"]) simp
qed

text \<open>
  C6. A message is processed at most once. A claim that succeeds tells its caller to process the message
  exactly when no unexpired entry is kept under the origin of the message; then the accepted text is on disk,
  under the turn the caller is given. Otherwise the receipt is that of the first claim, which had the same text.\<close>

theorem claim_processes_once:
  assumes w: "env_ok w" and s: "live w s" and run: "claim w surface scope delivery accepted turn s = (Inr r, s')"
  shows "\<exists>sf sc d i. origin_of w surface scope delivery = Inr (sf, sc, d) \<and> id_of_origin w sf sc d = Inr i \<and>
    (\<exists>x. dict_get (entries s') i = Some x \<and> x_accepted_text x = text_of (fns w) accepted \<and> same_origin x sf sc d \<and>
         rc_turn_id r = x_turn_id x \<and> rc_phase r = x_phase x \<and>
         (if dict_get (unexpired (clock_at w (tick s)) (entries s)) i = None
          then rc_should_process r \<and> x_phase x = Accepted \<and> mirrored w s'
          else \<not> rc_should_process r \<and> dict_get (entries s) i = Some x))"
proof -
  obtain sf sc d tx i s1 where o1: "origin_of w surface scope delivery = Inr (sf, sc, d)"
      and tx: "content_of w ''conversation_ingress_accepted_text_invalid'' accepted = Inr tx"
      and i: "id_of_origin w sf sc d = Inr i" and b: "begin_op w s = (Inr (), s1)"
      and go: "(case dict_get (entries s1) i of
        Some x \<Rightarrow>
          seq_ops (require (x_text_hash x = final_text_sha (fns w) tx \<and> x_accepted_text x = tx \<and> same_origin x sf sc d) mismatch)
            (give_receipt w x None False)
      | None \<Rightarrow>
          bind (if text_of (fns w) turn \<noteq> [] then lift (turn_id_of (fns w) turn)
                else bind (ask (fresh_turn w)) (\<lambda>v. lift (turn_id_of (fns w) v))) (\<lambda>tn.
          seq_ops (make_room w)
          (bind (now w) (\<lambda>t.
          let x = new_entry i sf sc d tn Accepted (final_text_sha (fns w) tx) tx [] t (max_age (cfg w)) in
          seq_ops (change (\<lambda>s. s\<lparr>entries := dict_set i x (entries s)\<rparr>))
          (seq_ops (write_or_restore w (entries s1)) (give_receipt w x (Some ''claimed'') True)))))) s1 = (Inr r, s')"
    using run by (auto simp: claim_def bind_Inr seq_Inr lift_def get_def Let_def)
  note s1 = begin_op_Inr [OF w s b]
  have tx2: "tx = text_of (fns w) accepted" using tx by (auto simp: content_of_def Let_def bind_r_Inr)
  have "\<exists>x. dict_get (entries s') i = Some x \<and> x_accepted_text x = tx \<and> same_origin x sf sc d \<and>
         rc_turn_id r = x_turn_id x \<and> rc_phase r = x_phase x \<and>
         (if dict_get (entries s1) i = None then rc_should_process r \<and> x_phase x = Accepted \<and> mirrored w s'
          else \<not> rc_should_process r \<and> dict_get (entries s) i = Some x)"
  proof (cases "dict_get (entries s1) i")
    case (Some x)
    then have "s' = s1" "r = receipt_of w x None False (generation s1)" "x_accepted_text x = tx" "same_origin x sf sc d"
      using go by (auto simp: give_receipt_def run_simps split: if_splits)
    moreover have "dict_get (entries s) i = Some x"
      using Some s1(2) live_mem [OF s] dict_get_unexpired by (simp add: mem_ok_def)
    ultimately show ?thesis using Some by (simp add: receipt_of_def)
  next
    case None
    then show ?thesis
      using claim_new [OF w s1(1) o1 tx i None go [unfolded None option.case]]
      by (auto simp: receipt_of_def new_entry_def same_origin_def)
  qed
  then show ?thesis
    unfolding tx2 s1(2)
    by (intro exI [of _ sf] exI [of _ sc] exI [of _ d] exI [of _ i] conjI o1 i)
qed

theorem claim_processes_once_witness:
  "\<exists>s r s' x. live demo_ingress s \<and>
     claim demo_ingress (PStr ''discord'') (PStr ''room'') (PStr ''m1'') (PStr ''hello'') (PStr ''turn-1'') s = (Inr r, s') \<and>
     rc_should_process r \<and> dict_get (entries s') (entry_id_prefix @ chain_genesis) = Some x \<and>
     x_accepted_text x = ''hello''"
proof -
  obtain s r s' where s: "live demo_ingress s" "entries s = []"
      and run: "claim demo_ingress (PStr ''discord'') (PStr ''room'') (PStr ''m1'') (PStr ''hello'') (PStr ''turn-1'') s = (Inr r, s')"
    using demo_claimed by blast
  show ?thesis
    using claim_processes_once [OF demo_env_ok s(1) run] s run by (auto simp: demo_args unexpired_def)
qed

text \<open>
  C16. A new message is taken. On a ready journal, where the files are written, the path is allowed and the target
  callback, if there is one, approves the entries, a claim with an acceptable origin, text and turn that is not known
  yet succeeds and is told to process, if the journal has room or holds a completed entry to drop, and if the
  documents it has to write can be written: the unexpired entries, and these (less a completed one dropped for room)
  with the new entry, have a JSON text within the size limit.\<close>

theorem claim_is_taken:
  assumes w: "env_ok w" "calm w" and s: "live w s"
    and args: "origin_of w surface scope delivery = Inr (sf, sc, d)" "id_of_origin w sf sc d = Inr i"
      "content_of w ''conversation_ingress_accepted_text_invalid'' accepted = Inr tx" "turn_id_of (fns w) turn = Inr tn"
    and new: "dict_get (unexpired (clock_at w (tick s)) (entries s)) i = None"
    and room: "length (unexpired (clock_at w (tick s)) (entries s)) < max_entries (cfg w) \<or>
      (\<exists>p \<in> set (unexpired (clock_at w (tick s)) (entries s)). x_phase (snd p) = Completed)"
    and fits: "storable w (generation s + 1) (unexpired (clock_at w (tick s)) (entries s))"
      "\<And>es k. room_made w (unexpired (clock_at w (tick s)) (entries s)) es \<Longrightarrow>
        storable w (generation s + 2) (dict_set i
          (new_entry i sf sc d tn Accepted (final_text_sha (fns w) tx) tx [] (clock_at w k) (max_age (cfg w))) es)"
  shows "\<exists>r s'. claim w surface scope delivery accepted turn s = (Inr r, s') \<and> rc_should_process r \<and> rc_turn_id r = tn \<and>
    (\<exists>t. dict_get (entries s') i =
       Some (new_entry i sf sc d tn Accepted (final_text_sha (fns w) tx) tx [] t (max_age (cfg w))))"
  by (rule calm_claim [OF assms])

theorem claim_is_taken_witness:
  "\<exists>s r s'. live demo_ingress s \<and>
     claim demo_ingress (PStr ''discord'') (PStr ''room'') (PStr ''m1'') (PStr ''hello'') (PStr ''turn-1'') s = (Inr r, s') \<and>
     rc_should_process r"
proof -
  obtain s where s: "live demo_ingress s" "entries s = []" using demo_opens by blast
  show ?thesis
    using claim_is_taken [OF demo_env_ok demo_calm s(1) demo_args(1-3), of "PStr ''turn-1''" "''turn-1''"] s
    by (auto simp: unexpired_def demo_args demo_storable)
qed

section \<open>Restart\<close>

definition recovered :: "real \<Rightarrow> entry dict \<Rightarrow> entry dict" where
  "recovered t es = map (\<lambda>p. (fst p, recover_entry t (snd p))) (unexpired t es)"

lemma calm_write_loaded:
  assumes "env_ok w" "calm w" "jstate s = Ready" "writable w s"
  shows "\<exists>s'. write_loaded w s = (Inr (), s') \<and> entries s' = entries s \<and> jstate s' = Ready"
proof -
  obtain k where k: "require_mutation_targets_current w s = (Inr (), s\<lparr>tick := k\<rparr>)"
    using calm_targets [OF assms(2)] by blast
  have "writable w (s\<lparr>tick := k\<rparr>)" using assms(4) by (simp add: writable_def)
  from calm_store [OF assms(1,2) this] assms(2,3) show ?thesis
    by (auto simp: write_loaded_def k calm_def ensure_ready_def seq_run require_run run_simps bind_run)
qed

lemma calm_recover:
  assumes w: "env_ok w" "calm w" and s: "jstate s = Ready"
    and m: "writable w (s\<lparr>entries := recovered (clock_at w (tick s)) (entries s)\<rparr>)"
  shows "\<exists>s'. recover_after_restart w s = (Inr (), s') \<and> entries s' = recovered (clock_at w (tick s)) (entries s) \<and>
    jstate s' = Ready"
proof -
  have c: "clock_ok w" using w by (simp add: env_ok_def)
  let ?es = "recovered (clock_at w (tick s)) (entries s)"
  show ?thesis
    using calm_write_loaded [OF w, of "(tock s)\<lparr>entries := ?es\<rparr>"] s m [unfolded writable_def]
    by (auto simp: recover_after_restart_def bind_now [OF c] recovered_def Let_def run_simps writable_def)
qed

lemma read_calm: "fault (tick s) = None \<Longrightarrow> f (s\<lparr>tick := Suc (tick s)\<rparr>) = Doc v \<Longrightarrow> read_file fault f s = (Inr (Some v), tock s)"
  by (simp add: read_file_def run_simps tock_def)

lemma load_head_calm:
  assumes "head_fault w (tick s) = None" "head_file s = Doc hf" "head_of (fns w) hf = Inr q"
  shows "load_head w s = (Inr (Some q), tock s)"
  using assms by (simp add: load_head_def bind_run read_calm lift_def run_simps)

text \<open>
  C13. A restart restores the journal. Opened on the two files that mirror a journal, where the files are read and
  written, the path is allowed and the target callback, if there is one, approves the entries, and where the document
  of the recovered entries has a JSON text within the size limit, the new journal is ready and holds the unexpired entries, each recovered: completed ones as they were, the others under the
  same message and answer, marked with the time of recovery; a delivery that was under way has become ambiguous, and no
  entry is under way.\<close>

theorem restart_restores_entries:
  assumes w: "env_ok w" "calm w" and s: "journal_inv w s" "jstate s = Ready" "integrity s = I_Verified"
    and fits: "\<And>es. mset es = mset (entries s) \<Longrightarrow> storable w (generation s + 1) (recovered (clock_at w (t + 2)) es)"
  shows "\<exists>s'. open_journal w (journal_file s) (head_file s) t = (Inr (), s') \<and> live w s' \<and>
    set (entries s') = {(i, recover_entry (clock_at w (t + 2)) x) |i x.
      (i, x) \<in> set (entries s) \<and> x_expires_at x > clock_at w (t + 2)} \<and>
    (\<forall>(i, y) \<in> set (entries s'). x_phase y \<noteq> Delivery_Inflight)"
proof -
  obtain d es prev hf where f: "journal_file s = Doc d" "head_file s = Doc hf"
      and v: "validated_payload (fns w) (cfg w) d = Inr (es, generation s, prev, last_hash s)" "set es = set (entries s)"
      and h: "head_of (fns w) hf = Inr (generation s, last_hash s)"
    using s by (auto simp: journal_inv_def mirrored_def)
  define n where "n = new_journal w (Doc d) (Doc hf) t"
  define m where "m = (tock (tock n))\<lparr>entries := es, generation := generation s, last_hash := last_hash s,
     integrity := I_Verified, head_state := H_Current, jstate := Ready, last_code := []\<rparr>"
  have lh: "load_head w n = (Inr (Some (generation s, last_hash s)), tock n)"
    using w(2) h by (intro load_head_calm) (simp_all add: calm_def n_def new_journal_def)
  have lj: "load_journal w True (Some (generation s, last_hash s)) (tock n) = recover_after_restart w m"
    using w(2) v(1) by (simp add: load_journal_def bind_run read_calm calm_def n_def new_journal_def lift_def
        seq_run match_head_def run_simps m_def tock_def)
  have tk: "tick m = t + 2" by (simp add: m_def n_def new_journal_def tock_def)
  have "distinct es" "distinct (entries s)"
    using validated_payload_ok(1) [OF env_text [OF w(1)] v(1)] s(1)
    by (auto simp: mem_ok_def journal_inv_def distinct_map)
  then have "mset es = mset (entries s)" using v(2) by (simp add: set_eq_iff_mset_eq_distinct)
  then have "writable w (m\<lparr>entries := recovered (clock_at w (tick m)) (entries m)\<rparr>)"
    using fits s(1) tk by (simp add: writable_def m_def journal_inv_def)
  from calm_recover [OF w _ this] obtain s' where rec: "recover_after_restart w m = (Inr (), s')"
      "entries s' = recovered (clock_at w (t + 2)) es" "jstate s' = Ready"
    using tk by (auto simp: m_def)
  have "open_journal w (journal_file s) (head_file s) t = (Inr (), s')"
    using w(2) lh lj rec f by (simp add: open_journal_def calm_def load_def n_def [symmetric])
  moreover have "live w s'"
    using opened_inv [OF w(1) calculation] rec w(2) by (simp add: live_def calm_def)
  moreover have "set (entries s') = {(i, recover_entry (clock_at w (t + 2)) x) |i x.
      (i, x) \<in> set (entries s) \<and> x_expires_at x > clock_at w (t + 2)}"
    using v(2) by (auto simp: rec(2) recovered_def unexpired_def image_iff)
  moreover have "\<forall>(i, y) \<in> set (entries s'). x_phase y \<noteq> Delivery_Inflight"
    by (auto simp: rec(2) recovered_def recover_entry_def Let_def)
  ultimately show ?thesis by blast
qed

theorem restart_restores_entries_witness:
  "\<exists>(s :: journal) s' y. open_journal demo_ingress (journal_file s) (head_file s) 7 = (Inr (), s') \<and>
     (entry_id_prefix @ chain_genesis, y) \<in> set (entries s') \<and> x_phase y = Accepted \<and> x_accepted_text y = ''hello''"
proof -
  let ?i = "entry_id_prefix @ chain_genesis"
  obtain s t where s: "live demo_ingress s" "integrity s = I_Verified" and x: "dict_get (entries s) ?i =
       Some (new_entry ?i ''discord'' ''room'' ''m1'' ''turn-1'' Accepted
         (final_text_sha demo_fns ''hello'') ''hello'' [] t 1800)" (is "_ = Some ?x")
    using demo_claimed by blast
  have "t \<ge> 0" using mem_ok_get [OF live_mem [OF s(1)] x] by (auto simp: entry_wf_def times_wf_def new_entry_def)
  moreover obtain s' where s': "open_journal demo_ingress (journal_file s) (head_file s) 7 = (Inr (), s')"
      "set (entries s') = {(i, recover_entry 100 x) |i x. (i, x) \<in> set (entries s) \<and> x_expires_at x > 100}"
    using restart_restores_entries [OF demo_env_ok demo_calm, of s 7] s demo_storable by (auto simp: live_def)
  ultimately have "(?i, recover_entry 100 ?x) \<in> set (entries s')"
    using dict_get_mem [OF x] by (auto simp: new_entry_def)
  moreover have "x_phase (recover_entry 100 ?x) = Accepted" "x_accepted_text (recover_entry 100 ?x) = ''hello''"
    by (simp_all add: recover_entry_def Let_def new_entry_def)
  ultimately show ?thesis
    using s'(1) by blast
qed

text \<open>
  C14. A journal put back to an older copy is refused. When the head names neither the journal on disk nor
  the one before it, the journal opens corrupt, with no entry, and every operation fails without an effect.\<close>

theorem rollback_is_refused:
  assumes w: "env_ok w" "enabled w" and calm: "head_fault w t = None" "journal_fault w (t + 1) = None"
    and h: "head_of (fns w) hf = Inr (hn, hh)" and v: "validated_payload (fns w) (cfg w) d = Inr (es, n, prev, h)"
    and mis: "\<not> (n = hn \<and> h = hh)" "\<not> (n = hn + 1 \<and> prev = hh)"
  shows "\<exists>s. open_journal w (Doc d) (Doc hf) t = (Inr (), s) \<and> jstate s = Corrupt \<and> entries s = [] \<and>
    (\<forall>q. \<exists>er. journal_do w q s = (Inl er, s))"
proof -
  define n0 where "n0 = new_journal w (Doc d) (Doc hf) t"
  have lh: "load_head w n0 = (Inr (Some (hn, hh)), tock n0)"
    using calm h by (intro load_head_calm) (simp_all add: n0_def new_journal_def)
  have lj: "load_journal w True (Some (hn, hh)) (tock n0) =
      (Inl (Recovery ''conversation_ingress_rollback_or_head_mismatch''), tock (tock n0))"
    using calm v mis by (auto simp: load_journal_def bind_run read_calm n0_def new_journal_def lift_def
        seq_run match_head_def run_simps tock_def)
  obtain s where s: "open_journal w (Doc d) (Doc hf) t = (Inr (), s)" "jstate s = Corrupt" "entries s = []"
    using w(2) lh lj by (simp add: open_journal_def load_def load_failed_def run_simps n0_def [symmetric])
  have "\<exists>er. journal_do w q s = (Inl er, s)" for q
  proof -
    obtain r s' where run: "journal_do w q s = (r, s')" by fastforce
    have "reloaded w s = s" "\<not> live w s" using s(2) by (simp_all add: reloaded_def live_def)
    then show ?thesis
      using journal_do_sim [OF w(1), of q] opened_inv [OF w(1) s(1)] run unfolding op_simulates_def by fastforce
  qed
  then show ?thesis using s by blast
qed

theorem rollback_is_refused_witness:
  "\<exists>d hf s. open_journal demo_ingress (Doc d) (Doc hf) 0 = (Inr (), s) \<and> jstate s = Corrupt \<and>
     (\<forall>q. \<exists>er. journal_do demo_ingress q s = (Inl er, s))"
proof -
  obtain s where s: "live demo_ingress s" "integrity s = I_Verified" using demo_claimed by blast
  then obtain d es prev where v: "validated_payload demo_fns demo_cfg d = Inr (es, generation s, prev, last_hash s)"
      and g: "generation s \<ge> 0"
    by (auto simp: live_def journal_inv_def mirrored_def)
  have h: "head_of (fns demo_ingress) (PDict (head_dict (generation s + 5) chain_genesis 0)) = Inr (generation s + 5, chain_genesis)"
    using demo_env_ok g by (intro head_validated) (simp_all add: env_ok_def)
  show ?thesis
    using rollback_is_refused [OF demo_env_ok _ _ _ h, of 0 d es "generation s" prev "last_hash s"] v by auto
qed

end
