(* ===== verification/Ingress_Purge.thy ===== *)
theory Ingress_Purge
  imports Ingress_Recovery
begin

text \<open>
  The journal of accepted messages (\<open>conversation_ingress_recovery.py\<close>): deleting the messages of a
  user by exact lineage.
\<close>

lemma mirrored_tock [simp]: "mirrored w (tock s) = mirrored w s"
  by (simp add: mirrored_def)

lemma tick_tock [simp]: "tick (tock s) = Suc (tick s)"
  by (simp add: tock_def)

lemma mirrored_same: "mirrored w s \<Longrightarrow> mirrored w s' \<Longrightarrow> same_files s s' \<Longrightarrow> set (entries s) = set (entries s')"
  by (auto simp: mirrored_def same_files_def)

definition lineage_hit :: "selector \<Rightarrow> selector \<Rightarrow> bool \<Rightarrow> entry \<Rightarrow> bool" where
  "lineage_hit turn session full x \<longleftrightarrow>
     (if full then session (x_scope x) = Inr True else turn (x_turn_id x) = Inr True)"

lemma targets_hits:
  "exact_lineage_targets turn session full es = Inr (js, n) \<Longrightarrow> \<forall>p \<in> set es. x_turn_id (snd p) \<noteq> [] \<Longrightarrow>
     n = 0 \<and> js = map fst (filter (\<lambda>p. lineage_hit turn session full (snd p)) es)"
proof (induction es arbitrary: js n)
  case (Cons p es)
  obtain i x where p: "p = (i, x)" by (cases p)
  obtain hit ks where h: "lineage_hit turn session full x = hit"
      and ks: "exact_lineage_targets turn session full es = Inr (ks, n)" "js = (if hit then i # ks else ks)"
    using Cons.prems by (auto simp: p lineage_hit_def bind_r_Inr split: if_splits)
  show ?case using Cons.IH [OF ks(1)] Cons.prems(2) h ks(2) by (simp add: p)
qed simp

lemma fresh_entries_Inr:
  assumes ok: "text_ok (fns w)" and run: "fresh_exact_lineage_entries w s = (Inr es, s1)"
  shows "s1 = tock (tock s)" "set es = set (entries s)" "distinct (map fst es)"
proof -
  obtain r2 s2 where 2: "load_head w s = (r2, s2)" by fastforce
  obtain r3 s3 where 3: "read_file (journal_fault w) journal_file s2 = (r3, s3)" by fastforce
  have tk: "s2 = tock s" "s3 = tock s2" using load_head_run(1) [OF 2] read_file_run(1) [OF 3] .
  have "s1 = s3 \<and> set es = set (entries s3) \<and> distinct (map fst es)"
    using run validated_payload_ok(1) [OF ok]
    by (auto simp: fresh_exact_lineage_entries_def bind_run [of "load_head _"] 2 bind_run [of "read_file _ _"] 3 Let_def
        lift_def bind_Inr seq_Inr get_def require_run run_simps mem_ok_def split: sum.splits option.splits if_splits)
  then show "s1 = tock (tock s)" "set es = set (entries s)" "distinct (map fst es)" using tk by simp_all
qed

lemma fresh_targets_Inr:
  assumes w: "env_ok w" and m: "mem_ok w (entries s)" and run: "fresh_targets w turn session full s = (Inr (js, n), s1)"
  shows "s1 = tock (tock s)" "n = 0" "set js = fst ` {p \<in> set (entries s). lineage_hit turn session full (snd p)}"
    "length js = length (filter (\<lambda>p. lineage_hit turn session full (snd p)) (entries s))"
proof -
  obtain es where es: "fresh_exact_lineage_entries w s = (Inr es, s1)" "exact_lineage_targets turn session full es = Inr (js, n)"
    using run by (auto simp: fresh_targets_def bind_Inr lift_def)
  note f = fresh_entries_Inr [OF env_text [OF w] es(1)]
  have "\<forall>p \<in> set es. x_turn_id (snd p) \<noteq> []"
  proof
    fix p assume "p \<in> set es"
    then have "entry_wf (fns w) (cfg w) (snd p)" using f(2) m by (auto simp: mem_ok_def)
    then show "x_turn_id (snd p) \<noteq> []"
      by (auto simp: entry_wf_def identity_wf_def turn_id_of_def Let_def bind_r_Inr turn_id_pattern_def)
  qed
  note t = targets_hits [OF es(2) this]
  show "s1 = tock (tock s)" "n = 0" "set js = fst ` {p \<in> set (entries s). lineage_hit turn session full (snd p)}"
    using f t by (auto simp: image_iff)
  have "distinct es" "distinct (entries s)" using f(3) m by (auto simp: mem_ok_def distinct_map)
  then have "length (filter Q es) = length (filter Q (entries s))" for Q
    using f(2) by (metis distinct_card distinct_filter set_filter)
  then show "length js = length (filter (\<lambda>p. lineage_hit turn session full (snd p)) (entries s))" using t by simp
qed

lemma write_scoped_spec:
  assumes w: "env_ok w" and s: "live w s" and same: "same_files s t" "jstate t = Ready" "generation t = generation s"
      "last_hash t = last_hash s" and m: "mem_ok w (entries t)" and run: "write_scoped w t = (r, s')"
  shows "stored_ok w t r s'" "r = Inr u \<Longrightarrow> live w s'"
proof -
  have en: "enabled w" using s by (simp add: live_def)
  have mo: "memory_ok w t" using s same m by (simp add: memory_ok_def live_def journal_inv_def)
  have "store w t = (r, s')" using run en same(2) by (simp add: write_scoped_def seq_run require_ready_live)
  then show st: "stored_ok w t r s'"
    by (rule store_spec [rotated -1]) (use w mo in \<open>simp_all add: env_ok_def memory_ok_def\<close>)
  show "live w s'" if "r = Inr u"
    using stored_inv [OF st mo] st that en same(2) by (simp add: live_def stored_ok_def)
qed

text \<open>What remains of a purge once its targets are known.\<close>

definition purged :: "selector \<Rightarrow> selector \<Rightarrow> bool \<Rightarrow> entry dict \<Rightarrow> entry dict" where
  "purged turn session full es = filter (\<lambda>p. \<not> lineage_hit turn session full (snd p)) es"

lemma pop_targets:
  assumes "mem_ok w es" "set js = fst ` {p \<in> set es. lineage_hit turn session full (snd p)}"
  shows "fold dict_pop js es = purged turn session full es"
proof -
  have "fst p \<in> set js \<longleftrightarrow> lineage_hit turn session full (snd p)" if "p \<in> set es" for p
  proof
    assume "fst p \<in> set js"
    then obtain y where y: "(fst p, y) \<in> set es" "lineage_hit turn session full y"
      using assms(2) by auto
    moreover have "(fst p, snd p) \<in> set es" using that by simp
    moreover have "distinct (map fst es)" using assms(1) by (simp add: mem_ok_def)
    ultimately show "lineage_hit turn session full (snd p)" using eq_key_imp_eq_value by metis
  qed (use that assms(2) in auto)
  then show ?thesis unfolding fold_pop purged_def by (intro filter_cong) auto
qed

lemma purge_run:
  assumes "fresh_targets w turn session full s = (Inr (js, 0), s1)" "js \<noteq> []"
  shows "purge_exact_lineage w turn session full s =
    (case write_scoped w (s1\<lparr>entries := fold dict_pop js (entries s1)\<rparr>) of
       (Inl er, s2) \<Rightarrow> (Inr (counts 0 0 1), s2\<lparr>entries := entries s1\<rparr>)
     | (Inr u, s2) \<Rightarrow>
         (case fresh_targets w turn session full s2 of
            (Inl er, s3) \<Rightarrow> (Inr (counts 0 0 1), s3\<lparr>entries := entries s1\<rparr>)
          | (Inr (ks, m), s3) \<Rightarrow> (Inr (counts (length js) (length ks + m) (if m = 0 then 0 else 1)), s3)))"
  using assms
  by (simp add: purge_exact_lineage_def try_op_def pop_entries_def seq_run [of "change _"] seq_run [of "write_scoped _"]
      bind_run [of "fresh_targets _ _ _ _"] run_simps split: prod.split sum.split)

text \<open>
  C15. On a ready journal, that is, an enabled one whose last write did not fail, a purge that reports removed
  entries removed exactly those of the lineage, all of them, from memory and
  from disk, and it reports nothing left over and nothing to review.\<close>

theorem purge_removes_exactly:
  assumes w: "env_ok w" and s: "live w s" and run: "purge_exact_lineage w turn session full s = (Inr c, s')"
    and some: "removed_count c \<noteq> 0"
  shows "live w s' \<and> mirrored w s' \<and> entries s' = purged turn session full (entries s) \<and>
    removed_count c = length (filter (\<lambda>p. lineage_hit turn session full (snd p)) (entries s)) \<and>
    remaining_copies c = 0 \<and> manual_review c = 0"
proof -
  note m = live_mem [OF s]
  obtain js s1 where 1: "fresh_targets w turn session full s = (Inr (js, 0), s1)" and js: "js \<noteq> []"
    using run some
    by (auto simp: purge_exact_lineage_def counts_def run_simps split: prod.splits sum.splits if_splits)
  note f1 = fresh_targets_Inr [OF w m 1]
  let ?es = "purged turn session full (entries s)"
  let ?t = "s1\<lparr>entries := ?es\<rparr>"
  have mt: "mem_ok w ?es" using m by (simp add: purged_def mem_ok_filter)
  have s1: "same_files s ?t" "jstate ?t = Ready" "generation ?t = generation s" "last_hash ?t = last_hash s" "entries s1 = entries s"
    using s by (simp_all add: f1(1) live_def same_files_def)
  have pop: "fold dict_pop js (entries s1) = ?es" using pop_targets [OF m f1(3)] s1(5) by simp
  obtain r2 s2 where 2: "write_scoped w ?t = (r2, s2)" by fastforce
  note ws = write_scoped_spec [OF w s s1(1-4) _ 2]
  obtain u where r2: "r2 = Inr u"
    using run some by (cases r2) (auto simp: purge_run [OF 1 js] pop 2 counts_def)
  then have s2: "live w s2" "entries s2 = ?es" "mirrored w s2" using ws mt by (auto simp: stored_ok_def)
  obtain ks n s3 where 3: "fresh_targets w turn session full s2 = (Inr (ks, n), s3)"
      and c: "c = counts (length js) (length ks + n) (if n = 0 then 0 else 1)" "s' = s3"
    using run some by (auto simp: purge_run [OF 1 js] pop 2 r2 counts_def split: prod.splits sum.splits)
  note f3 = fresh_targets_Inr [OF w live_mem [OF s2(1)] 3]
  have "ks = []" using f3(4) by (simp add: s2(2) purged_def filter_empty_conv)
  then show ?thesis
    using f1(4) f3(1,2) s2 c by (simp add: counts_def)
qed

text \<open>
  A purge whose write succeeded but whose check could not read the files again reports nothing removed, and
  puts the deleted rows back in memory while the disk no longer has them: memory and disk differ in a journal
  that is ready, and the next write that succeeds stores the deleted rows again.\<close>

theorem failed_purge_check_restores_rows:
  assumes w: "env_ok w" and s: "live w s"
    and targets: "fresh_targets w turn session full s = (Inr (js, 0), s1)" "js \<noteq> []"
    and wrote: "write_scoped w (s1\<lparr>entries := purged turn session full (entries s)\<rparr>) = (Inr (), s2)"
    and check: "fresh_targets w turn session full s2 = (Inl er, s3)" "s3 = tock (tock s2) \<or> s3 = tock s2"
  shows "\<exists>s'. purge_exact_lineage w turn session full s = (Inr (counts 0 0 1), s') \<and> jstate s' = Ready \<and>
    entries s' = entries s \<and> \<not> mirrored w s' \<and>
    (\<forall>s''. write_scoped w s' = (Inr (), s'') \<longrightarrow> mirrored w s'' \<and> entries s'' = entries s)"
proof -
  note m = live_mem [OF s]
  note f1 = fresh_targets_Inr [OF w m targets(1)]
  let ?es = "purged turn session full (entries s)"
  let ?s' = "s3\<lparr>entries := entries s\<rparr>"
  have mt: "mem_ok w ?es" using m by (simp add: purged_def mem_ok_filter)
  have pop: "fold dict_pop js (entries s1) = ?es" using pop_targets [OF m f1(3)] by (simp add: f1(1))
  have run: "purge_exact_lineage w turn session full s = (Inr (counts 0 0 1), ?s')"
    by (simp add: purge_run [OF targets] pop wrote check(1)) (simp add: f1(1))
  note ws = write_scoped_spec [OF w s _ _ _ _ _ wrote]
  have s2: "live w s2" "mirrored w s2" "entries s2 = ?es"
    using ws s mt by (auto simp: f1(1) live_def same_files_def stored_ok_def)
  have s': "jstate ?s' = Ready" "same_files s2 ?s'" "generation ?s' = generation s2" "last_hash ?s' = last_hash s2"
    using check(2) s2(1) by (auto simp: live_def same_files_def)
  obtain p where p: "p \<in> set (entries s)" "lineage_hit turn session full (snd p)"
    using f1(3) targets(2) by (cases js) auto
  have "\<not> mirrored w ?s'"
  proof
    assume "mirrored w ?s'"
    then have "set (entries s2) = set (entries ?s')" by (rule mirrored_same [OF s2(2) _ s'(2)])
    then have "p \<in> set ?es" using p(1) s2(3) by simp
    then show False using p(2) by (simp add: purged_def)
  qed
  moreover have "mirrored w s'' \<and> entries s'' = entries s" if "write_scoped w ?s' = (Inr (), s'')" for s''
    using write_scoped_spec(1) [OF w s2(1) s'(2,1,3,4) _ that] m by (simp add: stored_ok_def)
  moreover have "entries ?s' = entries s" by simp
  ultimately show ?thesis using run s'(1) by blast
qed

section \<open>The witnesses\<close>

definition match_all :: selector where
  "match_all s = Inr True"

definition faulty_at :: "nat \<Rightarrow> journal_env" where
  "faulty_at n = demo_ingress\<lparr>journal_fault := (\<lambda>k. if k = n then Some Os_Problem else None)\<rparr>"

lemma faulty_simps [simp]:
  "fns (faulty_at n) = demo_fns" "cfg (faulty_at n) = demo_cfg" "enabled (faulty_at n)" "clock (faulty_at n) k = PFloat (Fin 100)"
  "journal_fault (faulty_at n) k = (if k = n then Some Os_Problem else None)" "head_fault (faulty_at n) k = None"
  "put_journal (faulty_at n) k = Written" "put_head (faulty_at n) k = Written" "target_allowed (faulty_at n) k = Inr True"
  "doc_size (faulty_at n) d = 0"
  by (simp_all add: faulty_at_def)

lemma faulty_env_ok: "env_ok (faulty_at n)"
  using demo_env_ok by (simp add: env_ok_def clock_ok_def)

lemma faulty_live: "live demo_ingress s \<Longrightarrow> live (faulty_at n) s"
proof -
  have "mirrored demo_ingress = mirrored (faulty_at n)" "mem_ok demo_ingress = mem_ok (faulty_at n)"
    by (rule ext, simp add: mirrored_def mem_ok_def)+
  then show "live demo_ingress s \<Longrightarrow> live (faulty_at n) s" by (auto simp: live_def journal_inv_def)
qed

lemma demo_kept:
  "\<exists>s t. live demo_ingress s \<and> integrity s = I_Verified \<and> dict_get (entries s) (entry_id_prefix @ chain_genesis) =
       Some (new_entry (entry_id_prefix @ chain_genesis) ''discord'' ''room'' ''m1'' ''turn-1'' Accepted
         (final_text_sha demo_fns ''hello'') ''hello'' [] t 1800)"
  using demo_claimed by blast

text \<open>A healthy journal passes the check before a purge, where every turn matches.\<close>

lemma match_all_targets: "\<exists>js n. exact_lineage_targets match_all match_all False es = Inr (js, n)"
proof (induction es)
  case (Cons p es)
  then show ?case by (cases p) (auto simp: match_all_def split: if_splits)
qed simp

lemma demo_targets:
  assumes w: "env_ok w" and s: "mem_ok w (entries s)" "mirrored w s"
    and calm: "head_fault w (tick s) = None" "journal_fault w (Suc (tick s)) = None"
  shows "\<exists>js. fresh_targets w match_all match_all False s = (Inr (js, 0), tock (tock s)) \<and> (js = [] \<longleftrightarrow> entries s = [])"
proof -
  obtain d es prev hf where f: "journal_file s = Doc d" "head_file s = Doc hf"
      and v: "validated_payload (fns w) (cfg w) d = Inr (es, generation s, prev, last_hash s)" "set es = set (entries s)"
      and h: "head_of (fns w) hf = Inr (generation s, last_hash s)"
    using s(2) by (auto simp: mirrored_def)
  have rd: "read_file (journal_fault w) journal_file (tock s) = (Inr (Some d), tock (tock s))"
    using calm f by (intro read_calm) (simp_all add: tock_def)
  have "fresh_exact_lineage_entries w s = (Inr es, tock (tock s))"
    using calm f v h
    by (simp add: fresh_exact_lineage_entries_def bind_run [of "load_head _"] load_head_calm bind_run [of "read_file _ _"]
        rd Let_def run_simps)
  moreover obtain js n where "exact_lineage_targets match_all match_all False es = Inr (js, n)"
    using match_all_targets by blast
  ultimately have t: "fresh_targets w match_all match_all False s = (Inr (js, n), tock (tock s))"
    by (simp add: fresh_targets_def bind_run run_simps)
  have "js = [] \<longleftrightarrow> entries s = []"
    using fresh_targets_Inr(3) [OF w s(1) t] by (auto simp: lineage_hit_def match_all_def)
  then show ?thesis using t fresh_targets_Inr(2) [OF w s(1) t] by auto
qed

lemma faulty_store: "store (faulty_at n) = store demo_ingress"
proof -
  have same: "fns (faulty_at n) = fns demo_ingress" "cfg (faulty_at n) = cfg demo_ingress" "clock (faulty_at n) = clock demo_ingress"
    "put_journal (faulty_at n) = put_journal demo_ingress" "put_head (faulty_at n) = put_head demo_ingress"
    "target_allowed (faulty_at n) = target_allowed demo_ingress" "doc_size (faulty_at n) = doc_size demo_ingress"
    by (simp_all add: faulty_at_def)
  show ?thesis
    unfolding store_def targets_allowed_def payload_def persist_def write_head_def now_def same by (rule refl)
qed

lemma demo_write:
  assumes s: "live demo_ingress s" and t: "t = (tock (tock s))\<lparr>entries := []\<rparr>"
  shows "\<exists>s2. write_scoped (faulty_at n) t = (Inr (), s2) \<and> live (faulty_at n) s2 \<and> mirrored (faulty_at n) s2 \<and> entries s2 = [] \<and>
    tick s2 = tick s + 8"
proof -
  have jt: "jstate t = Ready" using s by (simp add: t live_def)
  have "writable demo_ingress t" using s by (simp add: writable_def demo_storable t live_def journal_inv_def)
  from calm_store [OF demo_env_ok demo_calm this]
  obtain s2 where s2: "store demo_ingress t = (Inr (), s2)" "tick s2 = tick s + 8" "entries s2 = []"
    by (auto simp: t)
  have ws: "write_scoped (faulty_at n) t = (Inr (), s2)"
    using s2(1) jt by (simp add: write_scoped_def seq_run require_ready_live faulty_store)
  show ?thesis
    using write_scoped_spec [OF faulty_env_ok faulty_live [OF s] _ jt _ _ _ ws] s2
    ws by (auto simp: t same_files_def stored_ok_def intro!: exI [of _ s2])
qed

theorem purge_removes_exactly_witness:
  "\<exists>w s c s'. live w s \<and> entries s \<noteq> [] \<and>
     purge_exact_lineage w match_all match_all False s = (Inr c, s') \<and> removed_count c \<noteq> 0 \<and> entries s' = []"
proof -
  let ?w = "faulty_at 0"
  obtain s where s: "live demo_ingress s" "integrity s = I_Verified" "entries s \<noteq> []"
    using demo_kept by fastforce
  note live = faulty_live [OF s(1), of 0]
  have mir: "mirrored ?w s" using live s(2) by (simp add: live_def journal_inv_def)
  obtain js where 1: "fresh_targets ?w match_all match_all False s = (Inr (js, 0), tock (tock s))" "js \<noteq> []"
    using demo_targets [OF faulty_env_ok live_mem [OF live] mir] s(3) by auto
  have es: "purged match_all match_all False (entries s) = []"
    by (simp add: purged_def lineage_hit_def match_all_def)
  have pop: "fold dict_pop js (entries s) = []"
    using pop_targets [OF live_mem [OF live] fresh_targets_Inr(3) [OF faulty_env_ok live_mem [OF live] 1(1)]] es by simp
  obtain s2 where 2: "write_scoped ?w ((tock (tock s))\<lparr>entries := []\<rparr>) = (Inr (), s2)"
      and s2: "live ?w s2" "mirrored ?w s2" "entries s2 = []"
    using demo_write [OF s(1) refl, of 0] by blast
  have 3: "fresh_targets ?w match_all match_all False s2 = (Inr ([], 0), tock (tock s2))"
    using demo_targets [OF faulty_env_ok live_mem [OF s2(1)] s2(2)] s2(3) by auto
  have run: "purge_exact_lineage ?w match_all match_all False s = (Inr (counts (length js) 0 0), tock (tock s2))"
    using 2 3 pop by (simp add: purge_run [OF 1])
  have "entries (tock (tock s2)) = []"
    using purge_removes_exactly [OF faulty_env_ok live run] 1(2) es by (simp add: counts_def)
  moreover have "removed_count (counts (length js) 0 0) \<noteq> 0" using 1(2) by (simp add: counts_def)
  ultimately show ?thesis using live s(3) run by blast
qed

theorem failed_purge_check_restores_rows_witness:
  "\<exists>n s s'. live (faulty_at n) s \<and> entries s \<noteq> [] \<and>
     purge_exact_lineage (faulty_at n) match_all match_all False s = (Inr (counts 0 0 1), s') \<and>
     entries s' = entries s \<and> \<not> mirrored (faulty_at n) s'"
proof -
  obtain s where s: "live demo_ingress s" "integrity s = I_Verified" "entries s \<noteq> []"
    using demo_kept by fastforce
  define n where "n = tick s + 9"
  note live = faulty_live [OF s(1), of n]
  have mir: "mirrored (faulty_at n) s" using live s(2) by (simp add: live_def journal_inv_def)
  obtain js where 1: "fresh_targets (faulty_at n) match_all match_all False s = (Inr (js, 0), tock (tock s))" "js \<noteq> []"
    using demo_targets [OF faulty_env_ok live_mem [OF live] mir] s(3) by (auto simp: n_def)
  have es: "purged match_all match_all False (entries s) = []"
    by (simp add: purged_def lineage_hit_def match_all_def)
  obtain s2 where 2: "write_scoped (faulty_at n) ((tock (tock s))\<lparr>entries := []\<rparr>) = (Inr (), s2)"
      and s2: "mirrored (faulty_at n) s2" "tick s2 = tick s + 8"
    using demo_write [OF s(1) refl, of n] by blast
  obtain d hf where f: "journal_file s2 = Doc d" "head_file s2 = Doc hf"
      "head_of demo_fns hf = Inr (generation s2, last_hash s2)"
    using s2(1) by (auto simp: mirrored_def)
  have "read_file (journal_fault (faulty_at n)) journal_file (tock s2) = (Inl Os_Problem, tock (tock s2))"
    using s2(2) by (simp add: read_file_def run_simps n_def) (simp add: tock_def)
  then have 3: "fresh_targets (faulty_at n) match_all match_all False s2 = (Inl Os_Problem, tock (tock s2))"
    using f by (simp add: fresh_targets_def fresh_exact_lineage_entries_def bind_run load_head_calm)
  show ?thesis
    using failed_purge_check_restores_rows [OF faulty_env_ok live 1 2 [folded es] 3] live s(3) by blast
qed

end
