(* ===== verification/Ingress_Runs.thy ===== *)
theory Ingress_Runs
  imports Ingress_Purge
begin

text \<open>
  The journal of accepted messages (\<open>conversation_ingress_recovery.py\<close>): the runs of all public operations, the
  deletion by lineage included, and what they keep.
\<close>

section \<open>Calls\<close>

datatype journal_call = Handle journal_op | Purge selector selector bool

fun call_do :: "journal_env \<Rightarrow> journal_call \<Rightarrow> unit jprog" where
  "call_do w (Handle q) = journal_do w q"
| "call_do w (Purge turn session full) = forget (purge_exact_lineage w turn session full)"

fun call_permits :: "journal_env \<Rightarrow> journal_call \<Rightarrow> permit" where
  "call_permits w (Handle q) = permits w q"
| "call_permits w (Purge turn session full) = drops (lineage_hit turn session full)"

definition journal_act :: "journal_env \<Rightarrow> journal \<Rightarrow> journal_call \<Rightarrow> journal" where
  "journal_act w s c = snd (call_do w c s)"

text \<open>
  A purge can leave memory and disk apart in two ways: when it wrote but could not read the files again to check,
  and when it runs on a journal whose last write failed, which loads again in the middle of the purge. A call
  settles when it is no such purge.
\<close>

fun settles :: "journal_env \<Rightarrow> journal_call \<Rightarrow> journal \<Rightarrow> bool" where
  "settles w (Handle q) s = True"
| "settles w (Purge turn session full) s = (\<not> (jstate s = Failed \<and> has_process w) \<and>
     (case fresh_targets w turn session full s of
        (Inl er, s1) \<Rightarrow> True
      | (Inr (js, n), s1) \<Rightarrow>
          (case write_scoped w (s1\<lparr>entries := fold dict_pop js (entries s1)\<rparr>) of
             (Inl er, s2) \<Rightarrow> True
           | (Inr u, s2) \<Rightarrow> (case fresh_targets w turn session full s2 of (Inl er, s3) \<Rightarrow> False | (Inr v, s3) \<Rightarrow> True))))"

fun settled :: "journal_env \<Rightarrow> journal \<Rightarrow> journal_call list \<Rightarrow> bool" where
  "settled w s [] = True"
| "settled w s (c # cs) = (settles w c s \<and> settled w (journal_act w s c) cs)"

section \<open>What a purge does\<close>

lemma fresh_ticks: "fresh_targets w turn session full s = (r, s1) \<Longrightarrow> s1 = tock s \<or> s1 = tock (tock s)"
proof -
  assume run: "fresh_targets w turn session full s = (r, s1)"
  obtain r2 s2 where 2: "load_head w s = (r2, s2)" by fastforce
  obtain r3 s3 where 3: "read_file (journal_fault w) journal_file s2 = (r3, s3)" by fastforce
  have tk: "s2 = tock s" "s3 = tock s2" using load_head_run(1) [OF 2] read_file_run(1) [OF 3] .
  have "s1 = s2 \<or> s1 = s3"
    using run
    by (auto simp: fresh_targets_def bind_run [of "fresh_exact_lineage_entries _"] fresh_exact_lineage_entries_def
        bind_run [of "load_head _"] 2 bind_run [of "read_file _ _"] 3 Let_def lift_def bind_run seq_run require_run run_simps
        split: sum.splits option.splits if_splits prod.splits)
  then show ?thesis using tk by auto
qed

lemma purge_cases:
  assumes w: "env_ok w" and inv: "journal_inv w s" and nr: "\<not> (jstate s = Failed \<and> has_process w)"
    and run: "purge_exact_lineage w turn session full s = (r, s')"
  shows "entries s' = entries s \<and> (settles w (Purge turn session full) s \<longrightarrow> journal_inv w s') \<or>
    live w s \<and> live w s' \<and> entries s' = purged turn session full (entries s) \<and> integrity s' = I_Verified"
proof -
  have m: "mem_ok w (entries s)" using inv by (simp add: journal_inv_def)
  obtain r1 s1 where 1: "fresh_targets w turn session full s = (r1, s1)" by fastforce
  have s1: "journal_inv w s1" "entries s1 = entries s" using fresh_ticks [OF 1] inv by auto
  show ?thesis
  proof (cases "\<exists>js. r1 = Inr (js, 0) \<and> js \<noteq> []")
    case False
    then have "s' = s1" using run 1
      by (auto simp: purge_exact_lineage_def run_simps split: sum.splits prod.splits if_splits)
    then show ?thesis using s1 by simp
  next
    case True
    then obtain js where js: "r1 = Inr (js, 0)" "js \<noteq> []" by blast
    note f1 = fresh_targets_Inr [OF w m 1 [unfolded js(1)]]
    let ?es = "purged turn session full (entries s)"
    let ?t = "s1\<lparr>entries := ?es\<rparr>"
    have mt: "mem_ok w ?es" using m by (simp add: purged_def mem_ok_filter)
    have pop: "fold dict_pop js (entries s1) = ?es" using pop_targets [OF m f1(3)] s1(2) by simp
    obtain r2 s2 where 2: "write_scoped w ?t = (r2, s2)" by fastforce
    show ?thesis
    proof (cases "live w s")
      case False
      then have "\<not> (enabled w \<and> jstate ?t = Ready)" using inv by (simp add: f1(1) live_def)
      moreover have "reloaded w ?t = ?t" using nr by (auto simp: f1(1) reloaded_def)
      ultimately obtain er where "require_ready w ?t = (Inl er, ?t)" using require_ready_run [of w ?t] by auto
      then have "write_scoped w ?t = (Inl er, ?t)" by (simp add: write_scoped_def seq_run)
      then have "s' = ?t\<lparr>entries := entries s1\<rparr>"
        using run by (simp add: purge_run [OF 1 [unfolded js(1)] js(2)] pop)
      then have "s' = s1" by simp
      then show ?thesis using s1 by simp
    next
      case s: True
      have t: "same_files s ?t" "jstate ?t = Ready" "generation ?t = generation s" "last_hash ?t = last_hash s"
        "integrity ?t = integrity s"
        using s by (simp_all add: f1(1) live_def same_files_def)
      note ws = write_scoped_spec [OF w s t(1-4) _ 2]
      show ?thesis
      proof (cases r2)
        case (Inl er)
        then have "s' = s2\<lparr>entries := entries s1\<rparr>"
          using run by (simp add: purge_run [OF 1 [unfolded js(1)] js(2)] pop 2)
        then have s': "s' = s2\<lparr>entries := entries s\<rparr>" unfolding s1(2) .
        have st: "stored_ok w ?t (Inl er :: ingress_error + unit) s2" using ws(1) mt Inl by simp
        have "journal_inv w s'"
        proof (cases "jstate s2 = Failed")
          case True
          then show ?thesis using st inv t by (auto simp: s' stored_ok_def journal_inv_def)
        next
          case False
          then have "same_memory ?t s2" "same_files ?t s2" using st by (auto simp: stored_ok_def)
          then have "same_files s s'" "generation s' = generation s" "last_hash s' = last_hash s"
            "integrity s' = integrity s" "entries s' = entries s" "jstate s' = jstate s"
            using t s by (simp_all add: s' same_files_def same_memory_def live_def)
          then show ?thesis using mirrored_cong [of s s' w] inv by (simp add: journal_inv_def)
        qed
        then show ?thesis by (simp add: s')
      next
        case (Inr u)
        have st: "stored_ok w ?t r2 s2" and s2: "live w s2" using ws mt Inr by auto
        obtain r3 s3 where 3: "fresh_targets w turn session full s2 = (r3, s3)" by fastforce
        show ?thesis
        proof (cases r3)
          case (Inl er)
          then have "\<not> settles w (Purge turn session full) s"
            using 1 js(1) pop 2 \<open>r2 = Inr u\<close> 3 by simp
          moreover have "s' = s3\<lparr>entries := entries s1\<rparr>"
            using run Inl by (simp add: purge_run [OF 1 [unfolded js(1)] js(2)] pop 2 \<open>r2 = Inr u\<close> 3)
          ultimately show ?thesis using s1(2) by (simp del: settles.simps)
        next
          case (Inr v)
          then have s': "s' = s3"
            using run by (simp add: purge_run [OF 1 [unfolded js(1)] js(2)] pop 2 \<open>r2 = Inr u\<close> 3 split: prod.splits)
          have "live w s3 \<and> entries s3 = entries s2 \<and> integrity s3 = integrity s2" using fresh_ticks [OF 3] s2 by auto
          then show ?thesis using s st by (simp add: s' stored_ok_def \<open>r2 = Inr u\<close>)
        qed
      qed
    qed
  qed
qed

lemma forget_snd [simp]: "snd (forget m s) = snd (m s)"
  by (simp add: forget_run split: prod.split sum.split)

lemma purge_act:
  "\<lbrakk>env_ok w; journal_inv w s; \<not> (jstate s = Failed \<and> has_process w); call_do w (Purge turn session full) s = (r, s')\<rbrakk> \<Longrightarrow>
    entries s' = entries s \<and> (settles w (Purge turn session full) s \<longrightarrow> journal_inv w s') \<or>
    live w s \<and> live w s' \<and> entries s' = purged turn session full (entries s) \<and> integrity s' = I_Verified"
  using purge_cases [of w s turn session full] forget_snd [of "purge_exact_lineage w turn session full" s]
  by (cases "purge_exact_lineage w turn session full s") auto

lemma purged_step: "mem_ok w es \<Longrightarrow> journal_step w (drops (lineage_hit turn session full)) es (purged turn session full es)"
proof -
  assume m: "mem_ok w es"
  let ?D = "fst ` {p \<in> set es. lineage_hit turn session full (snd p)}"
  have k: "fst p \<in> ?D \<longleftrightarrow> lineage_hit turn session full (snd p)" if "p \<in> set es" for p
    using m that mem_unique [OF m that] by (auto simp: mem_ok_def distinct_map inj_on_def)
  have "journal_step w (drops (lineage_hit turn session full)) es (filter (\<lambda>p. fst p \<notin> ?D) es)"
    by (rule journal_step.drop) (use k in simp)
  moreover have "filter (\<lambda>p. fst p \<notin> ?D) es = purged turn session full es"
    unfolding purged_def by (rule filter_cong) (use k in simp_all)
  ultimately show ?thesis by simp
qed

lemma journal_act_inv:
  assumes "env_ok w" "journal_inv w s" "settles w c s"
  shows "journal_inv w (journal_act w s c)"
proof (cases c)
  case (Handle q)
  then show ?thesis using op_keeps [OF assms(1) journal_do_sim [OF assms(1)] assms(2)] by (simp add: journal_act_def)
next
  case (Purge turn session full)
  then have nr: "\<not> (jstate s = Failed \<and> has_process w)" using assms(3) by simp
  obtain r s' where run: "call_do w (Purge turn session full) s = (r, s')" by fastforce
  have "journal_inv w s'"
    using purge_act [OF assms(1,2) nr run] assms(3) unfolding Purge by (blast dest: live_inv)
  then show ?thesis using run by (simp add: journal_act_def Purge del: call_do.simps)
qed

text \<open>A run that remembers whether every call so far settled.\<close>

definition watched_act :: "journal_env \<Rightarrow> journal \<times> bool \<Rightarrow> journal_call \<Rightarrow> journal \<times> bool" where
  "watched_act w st c = (journal_act w (fst st) c, snd st \<and> settles w c (fst st))"

interpretation ingress: op_machine "watched_act w" "\<lambda>st. env_ok w \<and> (snd st \<longrightarrow> journal_inv w (fst st))" for w
  by unfold_locales (auto simp: watched_act_def intro: journal_act_inv)

lemma watched_run: "foldl (watched_act w) (s, b) cs = (foldl (journal_act w) s cs, b \<and> settled w s cs)"
  by (induction cs arbitrary: s b) (auto simp: watched_act_def)

section \<open>The properties\<close>

text \<open>
  C12. Whatever the two files hold when a journal is opened, every run of calls, deletions by lineage included,
  keeps its invariant as long as each of the deletions settles: entries have distinct ids, are at most as many as
  configured and each of them passes the check an entry read from disk must pass; and a journal that is ready holds
  exactly the entries of the file on disk, whose head names that file, or nothing at all. (A deletion that does not
  settle can break the last part: \<open>failed_purge_check_restores_rows\<close>.)\<close>

theorem ingress_journal_invariant:
  assumes "env_ok w" and "open_journal w jf hf t = (Inr (), s)" and "settled w s calls"
  shows "journal_inv w (foldl (journal_act w) s calls)"
  using ingress.inv_run [of w "(s, True)" calls] opened_inv [OF assms(1,2)] assms(1,3) by (simp add: watched_run)

theorem ingress_journal_invariant_witness:
  "\<exists>s. open_journal demo_ingress Absent Absent 0 = (Inr (), s) \<and>
     journal_inv demo_ingress (foldl (journal_act demo_ingress) s
       [Handle (J_Claim (PStr ''discord'') (PStr ''guild:1:room'') (PStr ''m1'') (PStr ''hello'') PNone), Handle J_Records])"
proof -
  obtain s where s: "open_journal demo_ingress Absent Absent 0 = (Inr (), s)" using demo_opens by blast
  let ?cs = "[Handle (J_Claim (PStr ''discord'') (PStr ''guild:1:room'') (PStr ''m1'') (PStr ''hello'') PNone), Handle J_Records]"
  have "settled demo_ingress s ?cs" by simp
  then show ?thesis using s ingress_journal_invariant [OF demo_env_ok s] by blast
qed

text \<open>
  C7. Every operation is one step of the abstract journal under its own label: it changes at most the entry it
  names, in the way it permits, or drops exactly the entries it lets go (a reset those of its guild, a revocation the
  reservations it names). It is refused and changes nothing (but that a journal whose last write failed may have
  loaded again); or it fails and keeps the entries, less expired ones at most; or it succeeds, and then the
  entries are unchanged with nothing to drop, or changed by that one step, which is on disk. A deletion by lineage that
  settles keeps every entry, or drops exactly the lineage, on disk as well.\<close>

theorem operations_refine_abstract_journal:
  assumes "env_ok w" and "journal_inv w s" and "call_do w c s = (r, s')" and "settles w c s"
  shows "case c of
    Handle q \<Rightarrow>
      (\<exists>er. r = Inl er) \<and> s' \<in> {s, reloaded w s} \<or>
      live w (reloaded w s) \<and>
      (let es = unexpired (clock_at w (tick (reloaded w s))) (entries (reloaded w s)) in
       case r of
         Inl _ \<Rightarrow> kept w (entries (reloaded w s)) s' \<or> kept w es s'
       | Inr _ \<Rightarrow> live w s' \<and> (entries s' = es \<and> idle (permits w q) es \<or>
           journal_step w (permits w q) es (entries s') \<and> integrity s' = I_Verified))
  | Purge turn session full \<Rightarrow>
      journal_inv w s' \<and>
      (entries s' = entries s \<or>
       live w s \<and> live w s' \<and> integrity s' = I_Verified \<and> entries s' = purged turn session full (entries s) \<and>
       journal_step w (drops (lineage_hit turn session full)) (entries s) (entries s'))"
proof (cases c)
  case (Handle q)
  then show ?thesis
    using journal_do_sim [OF assms(1), of q] assms(2,3) unfolding op_simulates_def op_simulated_def by simp
next
  case (Purge turn session full)
  then have nr: "\<not> (jstate s = Failed \<and> has_process w)" using assms(4) by simp
  have "journal_step w (drops (lineage_hit turn session full)) (entries s) (purged turn session full (entries s))"
    using purged_step assms(2) by (simp add: journal_inv_def)
  then show ?thesis using purge_act [OF assms(1,2) nr assms(3) [unfolded Purge]] assms(4) Purge by (auto simp: live_def)
qed

theorem operations_refine_abstract_journal_witness:
  "\<exists>s. open_journal demo_ingress Absent Absent 0 = (Inr (), s) \<and>
     (case journal_do demo_ingress J_Records s of
        (Inl er, s') \<Rightarrow> s' = s \<or> entries s' = [] | (Inr u, s') \<Rightarrow> live demo_ingress s')"
proof -
  obtain s where s: "open_journal demo_ingress Absent Absent 0 = (Inr (), s)" "live demo_ingress s" "entries s = []"
    using demo_opens by blast
  obtain r s' where run: "call_do demo_ingress (Handle J_Records) s = (r, s')" by fastforce
  show ?thesis
    using operations_refine_abstract_journal [OF demo_env_ok live_inv [OF s(2)] run] s run
    by (cases r) (auto simp: Let_def kept_def unexpired_def)
qed

section \<open>The life of an entry\<close>

fun phase_rank :: "ingress_phase \<Rightarrow> nat" where
  "phase_rank Reserved = 0"
| "phase_rank Accepted = 1"
| "phase_rank Response_Ready = 2"
| "phase_rank Delivery_Inflight = 3"
| "phase_rank Delivery_Ambiguous = 4"
| "phase_rank Delivery_Succeeded = 5"
| "phase_rank Terminal_Committing = 6"
| "phase_rank Completed = 7"

definition advanced :: "entry \<Rightarrow> entry \<Rightarrow> bool" where
  "advanced x y \<longleftrightarrow> same_message x y \<and> phase_rank (x_phase x) \<le> phase_rank (x_phase y) \<and>
     (x_assistant_text x \<noteq> [] \<longrightarrow> same_answer x y)"

lemma advanced_refl [simp]: "advanced x x"
  by (simp add: advanced_def same_message_def same_key_def same_origin_def same_answer_def)

lemma edges_forward: "(p, q) \<in> set phase_edges \<Longrightarrow> phase_rank p \<le> phase_rank q"
  by (auto simp: phase_edges_def)

lemma dict_get_kept: "\<lbrakk>distinct (map fst es); dict_get es i = Some x; Q (i, x)\<rbrakk> \<Longrightarrow> dict_get (filter Q es) i = Some x"
proof -
  assume d: "distinct (map fst es)" and g: "dict_get es i = Some x" and q: "Q (i, x)"
  have "distinct (map fst (filter Q es))" using d by (simp add: distinct_map_filter)
  moreover have "(i, x) \<in> set (filter Q es)" using dict_get_mem [OF g] q by simp
  ultimately show ?thesis unfolding dict_get_def by (rule map_of_is_SomeI)
qed

text \<open>How an accepted entry may leave.\<close>

fun admits :: "journal_op \<Rightarrow> bool" where
  "admits (J_Reserve a b c th turn res ttl) = True"
| "admits (J_Claim a b c acc turn) = True"
| "admits _ = False"

definition may_leave :: "journal_env \<Rightarrow> journal_call \<Rightarrow> string \<Rightarrow> entry \<Rightarrow> bool" where
  "may_leave w c i x \<longleftrightarrow>
     (\<exists>q. c = Handle q \<and> admits q \<and> x_phase x = Completed) \<or>
     (\<exists>v h d er. c = Handle (J_Discard v h d er) \<and> x_phase x = Delivery_Ambiguous \<and> entry_id_of (fns w) v = Inr i) \<or>
     (\<exists>v g. c = Handle (J_Reset_Guild v) \<and> nonnegative_int ''conversation_ingress_guild_id_invalid'' v = Inr g \<and>
        prefix (guild_prefix g) (x_scope x)) \<or>
     (\<exists>turn session full. c = Purge turn session full \<and> lineage_hit turn session full x)"

lemma step_advances:
  assumes st: "journal_step w (permits w q) es es'" and x: "dict_get es i = Some x" "x_phase x \<noteq> Reserved"
    and m: "mem_ok w es"
  shows "case dict_get es' i of None \<Rightarrow> may_leave w (Handle q) i x | Some y \<Rightarrow> advanced x y"
  using st
proof cases
  case (admit i' es1 z)
  then have "admits q" by (cases q) (auto simp: puts_def promoted_def)
  then show ?thesis using admit x by (auto simp: room_made_def may_leave_def)
next
  case (renew i' y z)
  then show ?thesis using x by auto
next
  case (move i' y z)
  then show ?thesis using x edges_forward by (auto simp: advanced_def)
next
  case (drop D)
  have d: "distinct (map fst es)" using m by (simp add: mem_ok_def)
  show ?thesis
  proof (cases "i \<in> D")
    case True
    then have "permits w q (Some x) None" using drop(2) dict_get_mem [OF x(1)] by force
    moreover have "i = x_entry_id x" using mem_ok_get [OF m x(1)] by simp
    ultimately have "may_leave w (Handle q) i x"
      using x(2) by (cases q) (auto simp: may_leave_def of_guild_def revoked_by_def reserved_as_def reserved_in_def)
    moreover have "dict_get es' i = None" using True by (auto simp: drop(1) dict_get_None)
    ultimately show ?thesis by simp
  next
    case False
    then have "dict_get es' i = Some x" using dict_get_kept [OF d x(1)] by (simp add: drop(1))
    then show ?thesis by simp
  qed
qed

text \<open>
  C11. An accepted message moves forward only. Whatever call runs on a live journal, an unexpired entry that was
  accepted keeps its origin, text, turn and expiry, its phase does not go back, and an answer bound to it never
  changes. It leaves the journal only as a completed entry that makes room for a new one, as an ambiguous delivery
  that is discarded under its id, with its own guild when that is reset, or by a deletion of its own lineage.\<close>

theorem accepted_message_moves_forward:
  assumes "env_ok w" and s: "live w s" and run: "call_do w c s = (r, s')"
    and x: "dict_get (entries s) i = Some x" "x_phase x \<noteq> Reserved" "x_expires_at x > clock_at w (tick s)"
  shows "case dict_get (entries s') i of None \<Rightarrow> may_leave w c i x | Some y \<Rightarrow> advanced x y"
proof (cases c)
  case (Purge turn session full)
  have d: "distinct (map fst (entries s))" using live_mem [OF s] by (simp add: mem_ok_def)
  have "\<not> (jstate s = Failed \<and> has_process w)" using s by (simp add: live_def)
  from purge_act [OF assms(1) live_inv [OF s] this run [unfolded Purge]]
  have "entries s' = entries s \<or> entries s' = purged turn session full (entries s)" by blast
  moreover have "dict_get (purged turn session full (entries s)) i = Some x" if "\<not> lineage_hit turn session full x"
    unfolding purged_def using dict_get_kept [OF d x(1)] that by simp
  moreover have "dict_get (purged turn session full (entries s)) i = None" if "lineage_hit turn session full x"
  proof -
    have "snd p = x" if "p \<in> set (entries s)" "fst p = i" for p
      using mem_unique [OF live_mem [OF s] that(1)] that(2) x(1) by simp
    then show ?thesis using that by (force simp: purged_def dict_get_None)
  qed
  ultimately show ?thesis using x(1) Purge by (cases "lineage_hit turn session full x") (auto simp: may_leave_def)
next
  case (Handle q)
  let ?es = "unexpired (clock_at w (tick s)) (entries s)"
  have m: "mem_ok w ?es" using live_mem [OF s] by (simp add: unexpired_def mem_ok_filter)
  have d: "distinct (map fst (entries s))" using live_mem [OF s] by (simp add: mem_ok_def)
  have keep: "dict_get ?es i = Some x" using dict_get_kept [OF d x(1)] x(3) by (simp add: unexpired_def)
  have "entries s' = entries s \<or> entries s' = ?es \<or> journal_step w (permits w q) ?es (entries s')"
    using op_live [OF journal_do_sim [OF assms(1)] s run [unfolded Handle call_do.simps]]
    by (auto simp: op_simulated_def Let_def kept_def split: sum.splits)
  then show ?thesis using step_advances [OF _ keep x(2) m] keep x(1) Handle by auto
qed

theorem accepted_message_moves_forward_witness:
  "\<exists>s x s'. dict_get (entries s) (entry_id_prefix @ chain_genesis) = Some x \<and>
     journal_do demo_ingress J_Records s = (Inr (), s') \<and>
     (case dict_get (entries s') (entry_id_prefix @ chain_genesis) of
        None \<Rightarrow> may_leave demo_ingress (Handle J_Records) (entry_id_prefix @ chain_genesis) x | Some y \<Rightarrow> advanced x y)"
proof -
  obtain s t where s: "live demo_ingress s" and x: "dict_get (entries s) (entry_id_prefix @ chain_genesis) =
       Some (new_entry (entry_id_prefix @ chain_genesis) ''discord'' ''room'' ''m1'' ''turn-1'' Accepted
         (final_text_sha demo_fns ''hello'') ''hello'' [] t 1800)"
    using demo_claimed by blast
  have "t \<ge> 0" using mem_ok_get [OF live_mem [OF s] x] by (auto simp: entry_wf_def times_wf_def new_entry_def)
  obtain s' where run: "journal_do demo_ingress J_Records s = (Inr (), s')"
    using calm_begin [OF demo_env_ok demo_calm s demo_storable] by (auto simp: recovery_records_def forget_run seq_run run_simps)
  then have c: "call_do demo_ingress (Handle J_Records) s = (Inr (), s')" by simp
  show ?thesis
    using accepted_message_moves_forward [OF demo_env_ok s c x] x run \<open>t \<ge> 0\<close>
    by (intro exI conjI) (auto simp: new_entry_def simp del: journal_do.simps)
qed

end
