(* ===== verification/Barge_In.thy ===== *)
theory Barge_In
  imports Py_Value U_Text
begin

text \<open>
  Interrupting speech. \<open>local_bridge_barge_in.py\<close>: the controller of the one local playback owner, the
  match of a queued interruption with the playback it heard, and the decision whether audio
  interrupts (with \<open>should_interrupt_tts\<close> of \<open>discord_session_policy.py\<close>). \<open>voice_barge_in.py\<close>: joining
  the utterance that interrupts with the one before it.

  Identities of objects (owner tokens, callbacks) are numbers, given out in increasing order. A cancel callback
  is recorded where it is called, and may raise; it does not call the controller back. The payload
  of a speaker check, which is only copied into the decision, is left out.
\<close>

section \<open>The playback owner\<close>

record playback_owner =
  owner_id :: string
  owner_token :: "nat option"
  cancel_callback :: "nat option"
  cancel_requested :: bool
  fresh_token :: nat
  cancel_calls :: "(nat \<times> nat) list"

definition new_owner :: playback_owner where
  "new_owner = \<lparr>owner_id = [], owner_token = None, cancel_callback = None, cancel_requested = False,
     fresh_token = 0, cancel_calls = []\<rparr>"

datatype owner_error = Owner_Required | Callback_Raised

definition norm_id :: "(pyval \<Rightarrow> string) \<Rightarrow> pyval \<Rightarrow> string" where
  "norm_id repr v = py_strip (str_or_empty repr v)"

definition claim_playback ::
    "(pyval \<Rightarrow> string) \<Rightarrow> pyval \<Rightarrow> nat \<Rightarrow> playback_owner \<Rightarrow> (owner_error + bool) \<times> playback_owner" where
  "claim_playback repr v callback s =
     (let n = norm_id repr v in
      if n = [] then (Inl Owner_Required, s)
      else if owner_id s \<noteq> [] \<and> owner_id s \<noteq> n then (Inr False, s)
      else
        (let s1 = (if owner_id s = [] then s\<lparr>owner_token := Some (fresh_token s), fresh_token := Suc (fresh_token s)\<rparr> else s)
         in (Inr True, s1\<lparr>owner_id := n, cancel_callback := Some callback\<rparr>)))"

definition request_cancel ::
    "(pyval \<Rightarrow> string) \<Rightarrow> (nat \<Rightarrow> bool) \<Rightarrow> pyval \<Rightarrow> nat option \<Rightarrow> playback_owner \<Rightarrow> (owner_error + bool) \<times> playback_owner" where
  "request_cancel repr raises expected_id expected_token s =
     (if expected_id \<noteq> PNone \<and> owner_id s \<noteq> norm_id repr expected_id then (Inr False, s)
      else if expected_token \<noteq> None \<and> owner_token s \<noteq> expected_token then (Inr False, s)
      else
        (case (owner_token s, cancel_callback s) of
           (Some tok, Some callback) \<Rightarrow>
             if owner_id s = [] \<or> cancel_requested s then (Inr False, s)
             else
               (let s1 = s\<lparr>cancel_requested := True, cancel_calls := cancel_calls s @ [(tok, callback)]\<rparr>
                in (if raises callback then (Inl Callback_Raised, s1) else (Inr True, s1)))
         | _ \<Rightarrow> (Inr False, s)))"

definition release_playback :: "(pyval \<Rightarrow> string) \<Rightarrow> pyval \<Rightarrow> playback_owner \<Rightarrow> bool \<times> playback_owner" where
  "release_playback repr v s =
     (if owner_id s = [] \<or> owner_id s \<noteq> norm_id repr v then (False, s)
      else (True, s\<lparr>owner_id := [], owner_token := None, cancel_callback := None, cancel_requested := False\<rparr>))"

section \<open>The source of an interruption\<close>

text \<open>\<open>_bargeSource\<close> of a segment; its \<open>ownerToken\<close> is an object.\<close>

record barge_source =
  bs_fields :: "(string \<times> pyval) list"
  bs_token :: "nat option"

definition same_text :: "(pyval \<Rightarrow> string) \<Rightarrow> pyval \<Rightarrow> pyval \<Rightarrow> bool" where
  "same_text repr a b \<longleftrightarrow> str_or_empty repr a = str_or_empty repr b"

definition local_barge_source_binding_matches ::
    "(pyval \<Rightarrow> string) \<Rightarrow> barge_source option \<Rightarrow> pyval \<Rightarrow> (string \<times> pyval) list \<Rightarrow> pyval \<Rightarrow> nat option \<Rightarrow> bool" where
  "local_barge_source_binding_matches repr source turn validation owner token =
     (case source of
        None \<Rightarrow> False
      | Some b \<Rightarrow>
          let f = py_get (bs_fields b); v = py_get validation in
          f ''interruptPairingValid'' \<noteq> PBool False \<and>
          norm_id repr (f ''turnId'') \<noteq> [] \<and> norm_id repr (f ''turnId'') = norm_id repr turn \<and>
          norm_id repr (f ''ownerId'') \<noteq> [] \<and> norm_id repr (f ''ownerId'') = norm_id repr owner \<and>
          bs_token b \<noteq> None \<and> bs_token b = token \<and>
          same_text repr (f ''validationSessionId'') (v ''sessionId'') \<and>
          same_text repr (f ''validationStepId'') (v ''stepId'') \<and>
          same_text repr (f ''validationAttemptId'') (v ''attemptId'') \<and>
          py_eq (f ''validationAttempt'') (v ''attempt''))"

section \<open>Whether audio interrupts\<close>

record interrupt_meta =
  active_speaker_match :: bool
  wake_detected :: bool
  vad_prob :: pyfloat
  audio_sec :: pyfloat
  rms_ok :: bool
  voice_like :: bool

definition should_interrupt_tts :: "interrupt_meta \<Rightarrow> bool" where
  "should_interrupt_tts m =
     (if wake_detected m \<and> pf_le (Fin (18 / 100)) (audio_sec m) then True
      else if active_speaker_match m \<and> voice_like m \<and> pf_le (Fin (35 / 100)) (audio_sec m)
              \<and> pf_le (Fin (55 / 100)) (vad_prob m) then True
      else pf_le (Fin (60 / 100)) (vad_prob m) \<and> pf_le (Fin (35 / 100)) (audio_sec m) \<and> rms_ok m)"

definition float_or_zero :: "pyval \<Rightarrow> py_exn + pyfloat" where
  "float_or_zero v = (if truthy v then py_float v else Inr (Fin 0))"

fun is_number :: "pyval \<Rightarrow> bool" where
  "is_number (PBool _) = True"
| "is_number (PInt _) = True"
| "is_number (PFloat _) = True"
| "is_number _ = False"

definition vad_of :: "pyval \<Rightarrow> bool \<Rightarrow> bool \<Rightarrow> bool \<Rightarrow> py_exn + pyfloat" where
  "vad_of raw silent noise weak =
     (if is_number raw
      then bind_r (py_float raw) (\<lambda>x. Inr (pf_max (Fin 0) (pf_min (Fin 1) x)))
      else Inr (Fin (if silent then 0 else if \<not> noise \<and> \<not> weak then 75 / 100 else 35 / 100)))"

definition build_local_tts_interrupt_meta ::
    "(string \<times> pyval) list \<Rightarrow> pyfloat \<Rightarrow> py_exn + interrupt_meta" where
  "build_local_tts_interrupt_meta meta body_rms_min =
     (let voice = (case py_get meta ''voice_filter'' of PDict d \<Rightarrow> d | _ \<Rightarrow> []); f = py_get voice;
          silent = truthy (f ''vadSilent''); noise = truthy (f ''environmentNoise''); weak = truthy (f ''weakWaveform'') in
      bind_r (float_or_zero (py_get meta ''duration_sec'')) (\<lambda>d.
      bind_r (float_or_zero (f ''bodyRms'')) (\<lambda>a.
      bind_r (float_or_zero (f ''rms'')) (\<lambda>b.
      bind_r (vad_of (case map_of meta ''vad_prob'' of Some v \<Rightarrow> v | None \<Rightarrow> f ''vadProb'') silent noise weak) (\<lambda>p.
      Inr \<lparr>active_speaker_match = True, wake_detected = truthy (py_get meta ''wake_detected''), vad_prob = p,
           audio_sec = pf_max (Fin 0) d, rms_ok = pf_le (pf_max (Fin 0) body_rms_min) (pf_max a b),
           voice_like = (\<not> silent \<and> \<not> noise \<and> \<not> weak)\<rparr>)))))"

text \<open>A speaker check is absent, a dictionary, or an object with an attribute \<open>matched\<close>.\<close>

datatype speaker_check = No_Check | Check_Dict "(string \<times> pyval) list" | Check_Object pyval

definition matched_of :: "(pyval \<Rightarrow> string) \<Rightarrow> speaker_check \<Rightarrow> pyval" where
  "matched_of repr c =
     (case c of
        No_Check \<Rightarrow> PNone
      | Check_Object v \<Rightarrow> v
      | Check_Dict d \<Rightarrow>
          (let st = str_or_empty repr (py_get d ''status'')
           in if st = ''verified'' then PBool True else if st = ''rejected'' then PBool False else PNone))"

datatype barge_reason = Speaker_Rejected | Speaker_Unverified | Weak_Or_Echo | Qualified_User_Audio

definition evaluate_local_barge_in ::
    "(pyval \<Rightarrow> string) \<Rightarrow> (string \<times> pyval) list \<Rightarrow> pyfloat \<Rightarrow> speaker_check \<Rightarrow> bool
     \<Rightarrow> py_exn + bool \<times> barge_reason \<times> interrupt_meta" where
  "evaluate_local_barge_in repr meta body_rms_min check required =
     bind_r (build_local_tts_interrupt_meta meta body_rms_min) (\<lambda>m.
       let v = matched_of repr check in
       if v = PBool False then Inr (False, Speaker_Rejected, m)
       else if required \<and> v \<noteq> PBool True then Inr (False, Speaker_Unverified, m)
       else if \<not> should_interrupt_tts m then Inr (False, Weak_Or_Echo, m)
       else Inr (True, Qualified_User_Audio, m))"

section \<open>Joining an interruption with the utterance before it\<close>

text \<open>Texts are lists of code points; \<open>clean_text\<close> is an argument in the code too. Lower-casing is only compared
  with ASCII words, so it is that of ASCII letters.\<close>

definition incomplete_suffixes :: "utext list" where
  "incomplete_suffixes =
     [[97, 110, 100], [98, 117, 116], [111, 114], [115, 111], [98, 101, 99, 97, 117, 115, 101],
      [116, 104, 101, 110], [97, 108, 115, 111], [44536, 47532, 44256], [44540, 45936],
      [44536, 47088, 45936], [50500, 45768], [44536, 47084, 47732], [44536, 47100],
      [44536, 47000, 49436], [44536, 44172], [51060, 44172], [51200, 44172], [54644, 49436],
      [45768, 44620], [51004, 47732], [47732], [44256]]"

definition complete_question_suffixes :: "utext list" where
  "complete_question_suffixes =
     [[63], [47952, 50556], [47952, 51648], [45572, 44396, 50556], [50612, 46356, 50556],
      [50616, 51228, 50556], [50780, 50556], [47582, 50500], [46076], [46112, 44620], [54624, 44620],
      [51080, 50612], [50630, 50612], [54644, 51480], [50508, 47140, 51480]]"

definition ending_marks :: utext where
  "ending_marks = [46, 33, 12290, 65281, 65311, 63]"

definition rstrip_marks :: "utext \<Rightarrow> utext" where
  "rstrip_marks s = rev (dropWhile (\<lambda>c. c \<in> set ending_marks) (rev s))"

definition compact_text :: "utext \<Rightarrow> utext" where
  "compact_text s = filter (\<lambda>c. \<not> u_space c) s"

definition u_lower :: "utext \<Rightarrow> utext" where
  "u_lower s = map (\<lambda>c. if 65 \<le> c \<and> c \<le> 90 then c + 32 else c) s"

definition looks_like_complete_question :: "(utext \<Rightarrow> utext) \<Rightarrow> utext \<Rightarrow> bool" where
  "looks_like_complete_question clean t =
     (let n = u_rstrip (clean t) in
      if n = [] then False
      else if suffix [63] n then True
      else (let c = compact_text (rstrip_marks n)
            in list_ex (\<lambda>x. x \<noteq> [63] \<and> suffix x c) complete_question_suffixes))"

definition looks_like_incomplete_or_short_utterance :: "(utext \<Rightarrow> utext) \<Rightarrow> utext \<Rightarrow> bool" where
  "looks_like_incomplete_or_short_utterance clean t =
     (let n = rstrip_marks (clean t) in
      if n = [] then False
      else if length (compact_text n) \<le> 12 then True
      else list_ex (\<lambda>x. suffix x (u_lower n)) incomplete_suffixes)"

record merge_windows =
  base_window :: real
  interrupted_window :: "real option"
  incomplete_window :: "real option"
  question_window :: "real option"
  adaptive :: bool

datatype window_reason = W_Base | W_Complete_Question | W_Incomplete_Or_Short | W_Tts_Interrupted

definition resolve_merge_window :: "(utext \<Rightarrow> utext) \<Rightarrow> utext \<Rightarrow> real \<Rightarrow> real \<Rightarrow> real \<Rightarrow> real \<Rightarrow> real \<times> window_reason" where
  "resolve_merge_window clean previous base interrupted incomplete question =
     (if looks_like_complete_question clean previous then (max 0 question, W_Complete_Question)
      else if looks_like_incomplete_or_short_utterance clean previous then (max 0 incomplete, W_Incomplete_Or_Short)
      else (max (max base interrupted) 0, W_Tts_Interrupted))"

record merge_record =
  m_text :: utext
  m_room :: string
  m_session :: string
  m_user :: int
  m_accepted_at :: real
  m_turn :: string
  m_segment :: int
  m_consumed_by :: string

definition remember_voice_utterance_for_merge ::
    "(utext \<Rightarrow> utext) \<Rightarrow> string option \<Rightarrow> string option \<Rightarrow> int option \<Rightarrow> utext \<Rightarrow> real \<Rightarrow> string option \<Rightarrow> int
     \<Rightarrow> merge_record dict \<Rightarrow> merge_record option \<times> merge_record dict" where
  "remember_voice_utterance_for_merge clean room session user t accepted turn segment rs =
     (case (room, session, user) of
        (Some rk, Some sk, Some u) \<Rightarrow>
          if rk = [] \<or> sk = [] \<or> clean t = [] then (None, rs)
          else
            (let r = \<lparr>m_text = clean t, m_room = rk, m_session = sk, m_user = u, m_accepted_at = accepted,
                      m_turn = (case turn of None \<Rightarrow> [] | Some x \<Rightarrow> x), m_segment = segment, m_consumed_by = []\<rparr>
             in (Some r, dict_set rk r rs))
      | _ \<Rightarrow> (None, rs))"

record merge_info =
  mi_previous :: utext
  mi_delta :: real
  mi_window :: real
  mi_reason :: window_reason
  mi_base :: real
  mi_previous_turn :: string
  mi_current_turn :: string
  mi_previous_segment :: int

definition window_for :: "(utext \<Rightarrow> utext) \<Rightarrow> merge_windows \<Rightarrow> utext \<Rightarrow> real \<times> window_reason" where
  "window_for clean ws previous =
     (let base = max 0 (base_window ws); pick = (\<lambda>v. case v of None \<Rightarrow> base | Some x \<Rightarrow> x) in
      if adaptive ws
      then resolve_merge_window clean previous base (pick (interrupted_window ws)) (pick (incomplete_window ws))
             (pick (question_window ws))
      else (base, W_Base))"

text \<open>Whether the record is of another turn of the same speaker, not used yet.\<close>

definition mergeable :: "string \<Rightarrow> int \<Rightarrow> string option \<Rightarrow> merge_record \<Rightarrow> bool" where
  "mergeable session user turn r \<longleftrightarrow>
     m_consumed_by r = [] \<and> m_session r = session \<and> m_user r = user \<and>
     \<not> (m_turn r \<noteq> [] \<and> turn \<noteq> None \<and> turn \<noteq> Some [] \<and> turn = Some (m_turn r))"

definition maybe_merge_barge_in_utterance ::
    "(utext \<Rightarrow> utext) \<Rightarrow> (real \<Rightarrow> real) \<Rightarrow> string option \<Rightarrow> string option \<Rightarrow> int option \<Rightarrow> utext \<Rightarrow> string option \<Rightarrow> real option
     \<Rightarrow> merge_windows \<Rightarrow> merge_record dict \<Rightarrow> (utext \<times> merge_info option) \<times> merge_record dict" where
  "maybe_merge_barge_in_utterance clean round4 room session user t turn interrupted ws rs =
     (let current = clean t; skip = ((current, None), rs) in
      case (room, session, user, interrupted) of
        (Some rk, Some sk, Some u, Some since) \<Rightarrow>
          if current = [] \<or> rk = [] \<or> sk = [] then skip
          else
            (case dict_get rs rk of
               None \<Rightarrow> skip
             | Some r \<Rightarrow>
                 let delta = since - m_accepted_at r; previous = clean (m_text r); (window, reason) = window_for clean ws previous;
                     merged = clean (previous @ [32] @ current) in
                 if \<not> mergeable sk u turn r \<or> delta < 0 \<or> previous = [] \<or> previous = current \<or> delta > window \<or> merged = []
                 then skip
                 else
                   (let by = (case turn of None \<Rightarrow> [] | Some x \<Rightarrow> x)
                    in ((merged, Some \<lparr>mi_previous = previous, mi_delta = round4 delta, mi_window = window, mi_reason = reason,
                                      mi_base = max 0 (base_window ws), mi_previous_turn = m_turn r, mi_current_turn = by,
                                      mi_previous_segment = m_segment r\<rparr>),
                        dict_set rk (r\<lparr>m_consumed_by := by\<rparr>) rs)))
      | _ \<Rightarrow> skip)"

section \<open>The owner over a run\<close>

datatype owner_op = O_Claim pyval nat | O_Cancel pyval "nat option" | O_Release pyval

fun owner_step :: "(pyval \<Rightarrow> string) \<times> (nat \<Rightarrow> bool) \<Rightarrow> playback_owner \<Rightarrow> owner_op \<Rightarrow> playback_owner" where
  "owner_step e s (O_Claim v callback) = snd (claim_playback (fst e) v callback s)"
| "owner_step e s (O_Cancel v t) = snd (request_cancel (fst e) (snd e) v t s)"
| "owner_step e s (O_Release v) = snd (release_playback (fst e) v s)"

definition owner_ok :: "playback_owner \<Rightarrow> bool" where
  "owner_ok s \<longleftrightarrow>
     (owner_id s = [] \<longleftrightarrow> owner_token s = None) \<and> (cancel_callback s = None \<longleftrightarrow> owner_token s = None) \<and>
     (\<forall>t. owner_token s = Some t \<longrightarrow> t < fresh_token s \<and> (t \<in> fst ` set (cancel_calls s) \<longleftrightarrow> cancel_requested s)) \<and>
     (owner_token s = None \<longrightarrow> \<not> cancel_requested s) \<and>
     distinct (map fst (cancel_calls s)) \<and> (\<forall>t \<in> fst ` set (cancel_calls s). t < fresh_token s)"

lemma new_owner_ok: "owner_ok new_owner"
  by (simp add: owner_ok_def new_owner_def)

lemma claim_ok: "owner_ok s \<Longrightarrow> owner_ok (snd (claim_playback repr v c s))"
  by (auto simp: claim_playback_def owner_ok_def Let_def)

lemma cancel_ok: "owner_ok s \<Longrightarrow> owner_ok (snd (request_cancel repr raises v t s))"
  by (cases "owner_token s"; cases "cancel_callback s") (auto simp: request_cancel_def owner_ok_def Let_def)

lemma release_ok: "owner_ok s \<Longrightarrow> owner_ok (snd (release_playback repr v s))"
  by (auto simp: release_playback_def owner_ok_def)

lemma owner_step_ok: "owner_ok s \<Longrightarrow> owner_ok (owner_step e s q)"
  by (cases q) (simp_all add: claim_ok cancel_ok release_ok)

text \<open>A token that was given up is never given out again.\<close>

definition token_gone :: "nat \<Rightarrow> playback_owner \<Rightarrow> bool" where
  "token_gone t s \<longleftrightarrow> t < fresh_token s \<and> owner_token s \<noteq> Some t"

lemma token_gone_step: "token_gone t s \<Longrightarrow> token_gone t (owner_step e s q)"
  by (cases q)
     (auto simp: token_gone_def claim_playback_def request_cancel_def release_playback_def Let_def split: option.split)

interpretation owner: latched_machine "owner_step e" owner_ok "token_gone t" for e t
  by unfold_locales (simp_all add: owner_step_ok token_gone_step)

text \<open>
  Each ownership of the local playback is cancelled at most once. In every state a run of the
  controller reaches, the tokens of the cancel calls differ, the current token is among them exactly when a
  cancel was requested, and owner, token and callback are present or absent together.
\<close>

theorem ownership_cancelled_at_most_once:
  "owner_ok (foldl (owner_step e) new_owner ops)"
  by (rule owner.inv_run [OF new_owner_ok])

text \<open>
  An interruption never hits a later playback. Once a playback gave up its owner token, no later state of
  the controller has that token again, under whatever owner ids: an interruption that heard it matches
  nothing, and a cancel that names it changes nothing.
\<close>

theorem old_interruption_never_matches:
  assumes "token_gone t s"
  shows "\<not> local_barge_source_binding_matches repr (Some \<lparr>bs_fields = f, bs_token = Some t\<rparr>) turn validation owner
      (owner_token (foldl (owner_step e) s ops)) \<and>
    request_cancel repr raises v (Some t) (foldl (owner_step e) s ops) = (Inr False, foldl (owner_step e) s ops)"
  using owner.latch_run [OF assms, of e ops]
  by (auto simp: local_barge_source_binding_matches_def request_cancel_def token_gone_def Let_def)

theorem old_interruption_never_matches_witness:
  "let s = foldl (owner_step (\<lambda>_. [], \<lambda>_. False)) new_owner
       [O_Claim (PStr ''turn-1'') 7, O_Release (PStr ''turn-1'')]
   in \<not> local_barge_source_binding_matches (\<lambda>_. []) (Some \<lparr>bs_fields = [(''turnId'', PStr ''turn-1'')], bs_token = Some 0\<rparr>)
        (PStr ''turn-1'') [] (PStr ''turn-1'')
        (owner_token (foldl (owner_step (\<lambda>_. [], \<lambda>_. False)) s [O_Claim (PStr ''turn-1'') 8]))"
proof -
  have "py_strip ''turn-1'' = ''turn-1''" by (simp add: py_strip_def py_space_def)
  then have "token_gone 0 (foldl (owner_step (\<lambda>_. [], \<lambda>_. False)) new_owner [O_Claim (PStr ''turn-1'') 7, O_Release (PStr ''turn-1'')])"
    by (simp add: token_gone_def claim_playback_def release_playback_def new_owner_def norm_id_def Let_def)
  then show ?thesis unfolding Let_def using old_interruption_never_matches by blast
qed

section \<open>Joining utterances\<close>

lemma merge_Some:
  assumes "maybe_merge_barge_in_utterance clean round4 room session user t turn interrupted ws rs = ((merged, Some info), rs')"
  obtains rk sk u since r where "room = Some rk" "session = Some sk" "user = Some u" "interrupted = Some since"
    "rk \<noteq> []" "dict_get rs rk = Some r" "mergeable sk u turn r" "0 \<le> since - m_accepted_at r"
    "since - m_accepted_at r \<le> mi_window info" "merged = clean (clean (m_text r) @ [32] @ clean t)"
    "clean (m_text r) \<noteq> clean t" "(mi_window info, mi_reason info) = window_for clean ws (clean (m_text r))"
    "rs' = dict_set rk (r\<lparr>m_consumed_by := (case turn of None \<Rightarrow> [] | Some x \<Rightarrow> x)\<rparr>) rs"
  using assms
  by (auto simp: maybe_merge_barge_in_utterance_def Let_def split: option.splits prod.splits if_splits)






text \<open>Without a turn id the record is not marked as used: the records are as before, and the next call merges it
  again.\<close>

theorem merge_without_turn_repeats:
  assumes "maybe_merge_barge_in_utterance clean round4 room session user t None interrupted ws rs = ((merged, Some info), rs')"
  shows "rs' = rs"
proof -
  obtain rk r where r: "dict_get rs rk = Some r" "m_consumed_by r = []" "rs' = dict_set rk (r\<lparr>m_consumed_by := []\<rparr>) rs"
    using assms by (auto elim!: merge_Some simp: mergeable_def)
  moreover have "r\<lparr>m_consumed_by := []\<rparr> = r" using r(2) by (cases r) simp
  ultimately show ?thesis by (simp add: dict_get_def dict_set_def update_triv)
qed

text \<open>A voice probability that is not a number counts as certain.\<close>

theorem nan_probability_is_certain:
  "build_local_tts_interrupt_meta ((''vad_prob'', PFloat NaN) # meta) body_rms_min = Inr m \<Longrightarrow> vad_prob m = Fin 1"
  by (auto simp: build_local_tts_interrupt_meta_def vad_of_def bind_r_Inr pf_min_def pf_max_def Let_def)

end
