(* ===== verification/Playback_Manager.thy ===== *)
theory Playback_Manager
  imports Py_Value
begin

text \<open>
  Speech playback per guild (\<open>tts_playback.py\<close>): \<open>TtsPlaybackState\<close>, \<open>TtsPlaybackRegistry\<close>, \<open>TtsPlaybackTracker\<close>,
  \<open>TtsPlaybackManager\<close> and the tracking functions they use.

  Coroutines are cut where they suspend: the piece before returns the local variables the piece after
  reads (\<open>play_thread\<close>, \<open>cancel_thread\<close>), and pieces of different coroutines interleave freely. Objects (voice
  clients, queues, sources, tasks, generations, bindings, metrics) are numbers. The metrics of a
  turn are a dictionary whose part \<open>meta\<close> is kept in \<open>metas\<close>; an absent \<open>meta\<close> is an empty one. What is done to
  audio and tasks while a playback is stopped is outside; whether it succeeded is an argument.
\<close>

section \<open>State\<close>

record playback =
  vc :: "nat option"
  sentence_queue :: "nat option"
  prepared_queue :: "nat option"
  playback_source :: "nat option"
  prefetch_task :: "nat option"
  playback_task :: "nat option"
  p_turn :: "string option"
  p_session :: "string option"
  p_type :: "string option"
  p_target :: "nat option"
  p_generation :: nat

definition blank_playback :: "nat \<Rightarrow> playback" where
  "blank_playback g =
     \<lparr>vc = None, sentence_queue = None, prepared_queue = None, playback_source = None, prefetch_task = None,
      playback_task = None, p_turn = None, p_session = None, p_type = None, p_target = None, p_generation = g\<rparr>"

record binding =
  b_id :: nat
  b_turn :: string
  b_metrics :: nat

record player =
  states :: "(int \<times> playback) list"
  speaking :: "int set"
  last_end :: "(int \<times> real) list"
  source_metrics :: "(int \<times> binding) list"
  metas :: "nat \<Rightarrow> (string \<times> pyval) list"
  fresh :: nat

definition new_player :: player where
  "new_player = \<lparr>states = [], speaking = {}, last_end = [], source_metrics = [], metas = (\<lambda>_. []), fresh = 0\<rparr>"

section \<open>Registry and tracking\<close>

definition state_of :: "int option \<Rightarrow> player \<Rightarrow> playback option" where
  "state_of guild s = (case guild of None \<Rightarrow> None | Some k \<Rightarrow> map_of (states s) k)"

definition generation_of :: "int option \<Rightarrow> player \<Rightarrow> nat option" where
  "generation_of guild s = map_option p_generation (state_of guild s)"

definition is_active :: "int option \<Rightarrow> player \<Rightarrow> bool" where
  "is_active guild s \<longleftrightarrow> state_of guild s \<noteq> None"

definition active_guild_ids :: "player \<Rightarrow> int list" where
  "active_guild_ids s = map fst (states s)"

text \<open>A new record, with the given fields, under a new generation.\<close>

definition set_playback :: "int \<Rightarrow> (playback \<Rightarrow> playback) \<Rightarrow> player \<Rightarrow> player" where
  "set_playback k f s =
     s\<lparr>states := AList.update k ((f (blank_playback (fresh s)))\<lparr>p_generation := fresh s\<rparr>) (states s), fresh := Suc (fresh s)\<rparr>"

definition update_playback :: "int option \<Rightarrow> (playback \<Rightarrow> playback) \<Rightarrow> player \<Rightarrow> player" where
  "update_playback guild f s =
     (case guild of
        None \<Rightarrow> s
      | Some k \<Rightarrow>
          (case map_of (states s) k of
             None \<Rightarrow> set_playback k f s
           | Some p \<Rightarrow> s\<lparr>states := AList.update k ((f p)\<lparr>p_generation := p_generation p\<rparr>) (states s)\<rparr>))"

definition mark_speaking :: "int option \<Rightarrow> player \<Rightarrow> player" where
  "mark_speaking guild s = (case guild of None \<Rightarrow> s | Some k \<Rightarrow> s\<lparr>speaking := insert k (speaking s)\<rparr>)"

definition start_tracking :: "int option \<Rightarrow> bool \<Rightarrow> (playback \<Rightarrow> playback) \<Rightarrow> player \<Rightarrow> player" where
  "start_tracking guild mark f s =
     (case guild of None \<Rightarrow> s
      | Some k \<Rightarrow> (let s1 = set_playback k f s in if mark then mark_speaking guild s1 else s1))"

definition finish_tracking :: "int option \<Rightarrow> bool \<Rightarrow> real \<Rightarrow> bool \<Rightarrow> player \<Rightarrow> player" where
  "finish_tracking guild mark_end now clear s =
     (case guild of None \<Rightarrow> s
      | Some k \<Rightarrow>
          s\<lparr>states := (if clear then AList.delete k (states s) else states s), speaking := speaking s - {k},
            last_end := (if mark_end then AList.update k now (last_end s) else last_end s)\<rparr>)"

definition clear_binding :: "int option \<Rightarrow> binding option \<Rightarrow> player \<Rightarrow> player" where
  "clear_binding guild b s =
     (case guild of None \<Rightarrow> s
      | Some k \<Rightarrow>
          if b \<noteq> None \<and> map_of (source_metrics s) k = b then s\<lparr>source_metrics := AList.delete k (source_metrics s)\<rparr> else s)"

text \<open>\<open>TtsPlaybackManager.finish\<close> and \<open>clear\<close>.\<close>

definition finish_playback :: "int option \<Rightarrow> nat option \<Rightarrow> binding option \<Rightarrow> bool \<Rightarrow> real \<Rightarrow> bool \<Rightarrow> player \<Rightarrow> player" where
  "finish_playback guild g b mark_end now clear s =
     (let s1 = (if generation_of guild s = g then finish_tracking guild mark_end now clear s else s)
      in if clear then clear_binding guild b s1 else s1)"

definition clear_playback :: "int option \<Rightarrow> player \<Rightarrow> player" where
  "clear_playback guild s =
     (case guild of None \<Rightarrow> s
      | Some k \<Rightarrow>
          s\<lparr>states := AList.delete k (states s), speaking := speaking s - {k}, last_end := AList.delete k (last_end s),
            source_metrics := AList.delete k (source_metrics s)\<rparr>)"

datatype suppression = Bot_Is_Speaking | Post_Tts_Ignore

definition input_suppression_reason :: "int option \<Rightarrow> real \<Rightarrow> real \<Rightarrow> player \<Rightarrow> suppression option" where
  "input_suppression_reason guild post now s =
     (case guild of None \<Rightarrow> None
      | Some k \<Rightarrow>
          if k \<in> speaking s then Some Bot_Is_Speaking
          else if now - (case map_of (last_end s) k of None \<Rightarrow> 0 | Some t \<Rightarrow> t) < post then Some Post_Tts_Ignore
          else None)"

definition mark_summary :: "nat option \<Rightarrow> bool option \<Rightarrow> bool option \<Rightarrow> player \<Rightarrow> player" where
  "mark_summary metrics started completed s =
     (case metrics of None \<Rightarrow> s
      | Some i \<Rightarrow>
          (let put = (\<lambda>k v d. case v of None \<Rightarrow> d | Some b \<Rightarrow> AList.update k (PBool b) d)
           in s\<lparr>metas := (metas s)(i := put ''playback_completed'' completed (put ''playback_started'' started (metas s i)))\<rparr>))"

section \<open>Playing\<close>

record play_request =
  q_guild :: "int option"
  q_turn :: "string option"
  q_session :: "string option"
  q_type :: "string option"
  q_metrics :: "nat option"
  q_mark_speaking :: bool
  q_mark_end :: bool
  q_clear :: bool
  q_vc :: "nat option"
  q_source :: "nat option"
  q_task :: "nat option"
  q_target :: "nat option"
  q_sentences :: "nat option"
  q_prepared :: "nat option"
  q_prefetch :: "nat option"

record play_thread =
  t_guild :: "int option"
  t_generation :: "nat option"
  t_binding :: "binding option"
  t_metrics :: "nat option"
  t_started :: bool
  t_mark_end :: bool
  t_clear :: bool

definition bind_source :: "play_request \<Rightarrow> player \<Rightarrow> binding option \<times> player" where
  "bind_source r s =
     (case (q_guild r, q_metrics r, q_turn r) of
        (Some k, Some m, Some turn) \<Rightarrow>
          if turn = [] then (None, s)
          else (let b = \<lparr>b_id = fresh s, b_turn = turn, b_metrics = m\<rparr>
                in (Some b, s\<lparr>source_metrics := AList.update k b (source_metrics s), fresh := Suc (fresh s)\<rparr>))
      | _ \<Rightarrow> (None, s))"

definition begin_with :: "(playback \<Rightarrow> playback) \<Rightarrow> bool \<Rightarrow> bool \<Rightarrow> bool \<Rightarrow> play_request \<Rightarrow> player \<Rightarrow> play_thread \<times> player" where
  "begin_with f mark mark_end clear r s =
     (let s1 = start_tracking (q_guild r) mark f s; (b, s2) = bind_source r s1
      in (\<lparr>t_guild = q_guild r, t_generation = generation_of (q_guild r) s1, t_binding = b, t_metrics = q_metrics r,
           t_started = False, t_mark_end = mark_end, t_clear = clear\<rparr>, s2))"

text \<open>\<open>play_source_once\<close> up to the playback; a target that is no longer current is not played.\<close>

definition play_begin :: "bool \<Rightarrow> play_request \<Rightarrow> player \<Rightarrow> play_thread option \<times> player" where
  "play_begin target_current r s =
     (if \<not> target_current then (None, s)
      else
        (let (t, s1) = begin_with
               (\<lambda>p. p\<lparr>vc := q_vc r, playback_source := q_source r, playback_task := q_task r, p_turn := q_turn r,
                      p_session := q_session r, p_type := q_type r, p_target := q_target r\<rparr>)
               (q_mark_speaking r) (q_mark_end r) (q_clear r) r s
         in (Some t, s1)))"

definition stream_begin :: "bool \<Rightarrow> play_request \<Rightarrow> player \<Rightarrow> play_thread option \<times> player" where
  "stream_begin target_current r s =
     (if \<not> target_current then (None, s)
      else
        (let (t, s1) = begin_with
               (\<lambda>p. p\<lparr>vc := q_vc r, sentence_queue := q_sentences r, prepared_queue := q_prepared r,
                      playback_source := q_source r, prefetch_task := q_prefetch r, p_turn := q_turn r,
                      p_session := q_session r, p_target := q_target r\<rparr>)
               False True True r s
         in (Some t, s1)))"

definition on_play_start :: "play_thread \<Rightarrow> player \<Rightarrow> play_thread \<times> player" where
  "on_play_start t s = (t\<lparr>t_started := True\<rparr>, mark_summary (t_metrics t) (Some True) None s)"

text \<open>Of a stream: a sentence is ready, and the task of the playback was created.\<close>

definition on_source_ready :: "play_thread \<Rightarrow> player \<Rightarrow> player" where
  "on_source_ready t s = (if t_guild t \<noteq> None \<and> \<not> t_started t then mark_speaking (t_guild t) s else s)"

definition on_playback_task_created :: "play_thread \<Rightarrow> nat \<Rightarrow> player \<Rightarrow> player" where
  "on_playback_task_created t task s = update_playback (t_guild t) (\<lambda>p. p\<lparr>playback_task := Some task\<rparr>) s"

definition end_thread :: "play_thread \<Rightarrow> real \<Rightarrow> player \<Rightarrow> player" where
  "end_thread t now s =
     clear_binding (t_guild t) (t_binding t)
       (finish_playback (t_guild t) (t_generation t) (t_binding t) (t_mark_end t \<and> t_started t) now (t_clear t) s)"

definition play_end :: "bool \<Rightarrow> play_thread \<Rightarrow> real \<Rightarrow> player \<Rightarrow> player" where
  "play_end completed t now s =
     end_thread t now (mark_summary (t_metrics t) (Some (t_started t)) (Some (completed \<and> t_started t)) s)"

text \<open>The end of a stream suspends between its two parts.\<close>

definition stream_close :: "bool \<Rightarrow> play_thread \<Rightarrow> player \<Rightarrow> player" where
  "stream_close drained t s =
     mark_summary (t_metrics t) (Some (t_started t)) (Some (drained \<and> t_started t)) s"

definition stream_end :: "play_thread \<Rightarrow> real \<Rightarrow> player \<Rightarrow> player" where
  "stream_end t now s = end_thread t now s"

section \<open>Cancelling\<close>

record cancel_thread =
  c_guild :: int
  c_generation :: nat
  c_binding :: "binding option"
  c_lease :: "(nat \<times> pyval option) option"

definition qualified_reason :: string where
  "qualified_reason = ''qualified_user_audio''"

definition interrupt_flag :: string where
  "interrupt_flag = ''qualified_tts_interrupt''"

text \<open>\<open>cancel_guild\<close> up to the stop; without a playback it returns \<open>False\<close> at once.\<close>

definition cancel_begin :: "int option \<Rightarrow> string \<Rightarrow> player \<Rightarrow> cancel_thread option \<times> player" where
  "cancel_begin guild reason s =
     (case (guild, state_of guild s) of
        (Some k, Some p) \<Rightarrow>
          (let b = map_of (source_metrics s) k in
           (case b of
              Some bd \<Rightarrow>
                if reason = qualified_reason \<and> b_turn bd \<noteq> [] \<and> Some (b_turn bd) = p_turn p
                   \<and> py_get (metas s (b_metrics bd)) ''playback_started'' = PBool True
                then (Some \<lparr>c_guild = k, c_generation = p_generation p, c_binding = b,
                            c_lease = Some (b_metrics bd, map_of (metas s (b_metrics bd)) interrupt_flag)\<rparr>,
                      s\<lparr>metas := (metas s)(b_metrics bd := AList.update interrupt_flag (PBool True) (metas s (b_metrics bd)))\<rparr>)
                else (Some \<lparr>c_guild = k, c_generation = p_generation p, c_binding = b, c_lease = None\<rparr>, s)
            | None \<Rightarrow> (Some \<lparr>c_guild = k, c_generation = p_generation p, c_binding = None, c_lease = None\<rparr>, s)))
      | _ \<Rightarrow> (None, s))"

definition restore_flag :: "(nat \<times> pyval option) option \<Rightarrow> player \<Rightarrow> player" where
  "restore_flag lease s =
     (case lease of None \<Rightarrow> s
      | Some (i, v) \<Rightarrow>
          s\<lparr>metas := (metas s)(i := (case v of None \<Rightarrow> AList.delete interrupt_flag (metas s i)
                                      | Some x \<Rightarrow> AList.update interrupt_flag x (metas s i)))\<rparr>)"

definition cancel_end :: "bool \<Rightarrow> cancel_thread \<Rightarrow> real \<Rightarrow> player \<Rightarrow> player" where
  "cancel_end stopped c now s =
     (if \<not> stopped then restore_flag (c_lease c) s
      else
        (let s1 = (if generation_of (Some (c_guild c)) s = Some (c_generation c)
                   then finish_tracking (Some (c_guild c)) True now True s else s)
         in if map_of (source_metrics s1) (c_guild c) = c_binding c
            then s1\<lparr>source_metrics := AList.delete (c_guild c) (source_metrics s1)\<rparr> else s1))"

text \<open>Without a suspension that others use: one guild, all guilds of a turn, all that match.\<close>

definition cancel_guild :: "bool \<Rightarrow> int option \<Rightarrow> string \<Rightarrow> real \<Rightarrow> player \<Rightarrow> bool \<times> player" where
  "cancel_guild stopped guild reason now s =
     (case cancel_begin guild reason s of
        (None, s1) \<Rightarrow> (False, s1)
      | (Some c, s1) \<Rightarrow> (stopped, cancel_end stopped c now s1))"

fun cancel_guilds :: "(int \<Rightarrow> bool) \<Rightarrow> string \<Rightarrow> real \<Rightarrow> int list \<Rightarrow> bool \<Rightarrow> player \<Rightarrow> bool \<times> player" where
  "cancel_guilds ok turn now [] stopped s = (stopped, s)"
| "cancel_guilds ok turn now (k # ks) stopped s =
     (case state_of (Some k) s of
        Some p \<Rightarrow>
          if p_turn p = Some turn
          then (let (b, s1) = cancel_guild (ok k) (Some k) ''interrupt'' now s in cancel_guilds ok turn now ks (b \<or> stopped) s1)
          else cancel_guilds ok turn now ks stopped s
      | None \<Rightarrow> cancel_guilds ok turn now ks stopped s)"

definition cancel_turn :: "(int \<Rightarrow> bool) \<Rightarrow> string option \<Rightarrow> real \<Rightarrow> player \<Rightarrow> bool \<times> player" where
  "cancel_turn ok turn now s =
     (case turn of None \<Rightarrow> (False, s)
      | Some x \<Rightarrow> if x = [] then (False, s) else cancel_guilds ok x now (active_guild_ids s) False s)"

text \<open>\<open>stop_tracked_tts_playback\<close> as \<open>cleanup_tts_playback_targets\<close> uses it.\<close>

definition stop_tracked :: "bool \<Rightarrow> int \<Rightarrow> real \<Rightarrow> player \<Rightarrow> bool \<times> player" where
  "stop_tracked stopped k now s =
     (case state_of (Some k) s of
        None \<Rightarrow> (False, s)
      | Some p \<Rightarrow> if stopped then (True, finish_tracking (Some k) True now True s) else (False, s))"

fun cleanup_loop :: "(playback \<Rightarrow> bool) \<Rightarrow> (int \<Rightarrow> bool) \<Rightarrow> real \<Rightarrow> int list \<Rightarrow> nat \<Rightarrow> player \<Rightarrow> nat \<times> player" where
  "cleanup_loop match ok now [] n s = (n, s)"
| "cleanup_loop match ok now (k # ks) n s =
     (case state_of (Some k) s of
        Some p \<Rightarrow>
          if match p
          then (let (b, s1) = stop_tracked (ok k) k now s in cleanup_loop match ok now ks (if b then Suc n else n) s1)
          else cleanup_loop match ok now ks n s
      | None \<Rightarrow> cleanup_loop match ok now ks n s)"

definition cleanup_targets :: "(playback \<Rightarrow> bool) \<Rightarrow> (int \<Rightarrow> bool) \<Rightarrow> real \<Rightarrow> player \<Rightarrow> (nat \<times> nat) \<times> player" where
  "cleanup_targets match ok now s =
     (let (n, s1) = cleanup_loop match ok now (active_guild_ids s) 0 s
      in ((n, length (filter (\<lambda>p. match (snd p)) (states s1))), s1))"

section \<open>What interrupted audio belongs to\<close>

record source_context =
  sc_turn :: string
  sc_session :: "string option"
  sc_validation :: "string option \<times> string option \<times> string option"

definition optional_text :: "(pyval \<Rightarrow> string) \<Rightarrow> pyval \<Rightarrow> string option" where
  "optional_text repr v = (let c = py_strip (str_or_empty repr v) in if c = [] then None else Some c)"

definition source_context_of :: "(pyval \<Rightarrow> string) \<Rightarrow> int option \<Rightarrow> player \<Rightarrow> source_context option" where
  "source_context_of repr guild s =
     (case (guild, state_of guild s) of
        (Some k, Some p) \<Rightarrow>
          (case map_of (source_metrics s) k of
             None \<Rightarrow> None
           | Some b \<Rightarrow>
               let turn = py_strip (case p_turn p of None \<Rightarrow> [] | Some x \<Rightarrow> x); m = py_get (metas s (b_metrics b)) in
               if turn = [] \<or> b_turn b \<noteq> turn then None
               else Some \<lparr>sc_turn = turn,
                          sc_session = (case p_session p of None \<Rightarrow> None | Some x \<Rightarrow> optional_text repr (PStr x)),
                          sc_validation = (optional_text repr (m ''validation_session_id''),
                            optional_text repr (m ''validation_step_id''), optional_text repr (m ''validation_attempt_id''))\<rparr>)
      | _ \<Rightarrow> None)"

section \<open>Generations over a run\<close>

text \<open>Every piece of every coroutine, with whatever local variables.\<close>

datatype player_op =
  P_Begin bool play_request
| P_Stream_Begin bool play_request
| P_Started play_thread
| P_Ready play_thread
| P_Task play_thread nat
| P_End bool play_thread real
| P_Stream_Close bool play_thread
| P_Stream_End play_thread real
| P_Cancel_Begin "int option" string
| P_Cancel_End bool cancel_thread real
| P_Clear "int option"

fun player_step :: "player \<Rightarrow> player_op \<Rightarrow> player" where
  "player_step s (P_Begin b r) = snd (play_begin b r s)"
| "player_step s (P_Stream_Begin b r) = snd (stream_begin b r s)"
| "player_step s (P_Started t) = snd (on_play_start t s)"
| "player_step s (P_Ready t) = on_source_ready t s"
| "player_step s (P_Task t i) = on_playback_task_created t i s"
| "player_step s (P_End b t now) = play_end b t now s"
| "player_step s (P_Stream_Close b t) = stream_close b t s"
| "player_step s (P_Stream_End t now) = stream_end t now s"
| "player_step s (P_Cancel_Begin k r) = snd (cancel_begin k r s)"
| "player_step s (P_Cancel_End b c now) = cancel_end b c now s"
| "player_step s (P_Clear k) = clear_playback k s"

definition player_ok :: "player \<Rightarrow> bool" where
  "player_ok s \<longleftrightarrow> distinct (map fst (states s)) \<and> distinct (map (p_generation \<circ> snd) (states s)) \<and>
     (\<forall>x \<in> set (states s). p_generation (snd x) < fresh s)"

definition generation_gone :: "nat \<Rightarrow> player \<Rightarrow> bool" where
  "generation_gone g s \<longleftrightarrow> g < fresh s \<and> (\<forall>x \<in> set (states s). p_generation (snd x) \<noteq> g)"

lemma set_update: "x \<in> set (AList.update k v d) \<Longrightarrow> x = (k, v) \<or> x \<in> set d"
  by (induction d) (auto split: if_splits)

lemma set_delete: "x \<in> set (AList.delete k d) \<Longrightarrow> x \<in> set d"
  by (auto simp: AList.delete_eq)

lemma gens_delete: "distinct (map h d) \<Longrightarrow> distinct (map h (AList.delete k d))"
  by (simp add: AList.delete_eq distinct_map_filter)

lemma gens_update:
  assumes "distinct (map (p_generation \<circ> snd) d)" "\<forall>x \<in> set d. fst x \<noteq> k \<longrightarrow> p_generation (snd x) \<noteq> p_generation v"
    "distinct (map fst d)"
  shows "distinct (map (p_generation \<circ> snd) (AList.update k v d))"
  using assms
proof (induction d)
  case (Cons y d)
  obtain a b where y: "y = (a, b)" by (cases y)
  show ?case
  proof (cases "a = k")
    case True
    then have "\<forall>x \<in> set d. fst x \<noteq> k" using Cons.prems(3) y by force
    then show ?thesis using Cons.prems True y by (auto simp: image_iff)
  next
    case False
    have "p_generation b \<noteq> p_generation (snd x)" if "x \<in> set (AList.update k v d)" for x
      using set_update [OF that] Cons.prems(1,2) False y by (auto simp: image_iff)
    then show ?thesis using Cons False y by (auto simp: image_iff)
  qed
qed simp

text \<open>What the pieces do to states and counter.\<close>

lemma states_summary [simp]: "states (mark_summary m a b s) = states s" "fresh (mark_summary m a b s) = fresh s"
  by (simp_all add: mark_summary_def Let_def split: option.split)

lemma states_speaking [simp]: "states (mark_speaking k s) = states s" "fresh (mark_speaking k s) = fresh s"
  by (simp_all add: mark_speaking_def split: option.split)

lemma states_binding [simp]: "states (clear_binding k b s) = states s" "fresh (clear_binding k b s) = fresh s"
  by (simp_all add: clear_binding_def split: option.split)

lemma states_flag [simp]: "states (restore_flag l s) = states s" "fresh (restore_flag l s) = fresh s"
  by (simp_all add: restore_flag_def split: option.split prod.split)

lemma states_cancel_begin [simp]:
  "states (snd (cancel_begin k r s)) = states s" "fresh (snd (cancel_begin k r s)) = fresh s"
  by (simp_all add: cancel_begin_def Let_def split: option.split)

definition shrinks :: "player \<Rightarrow> player \<Rightarrow> bool" where
  "shrinks s s' \<longleftrightarrow> fresh s \<le> fresh s' \<and> (states s' = states s \<or> (\<exists>k. states s' = AList.delete k (states s)))"

definition sets :: "player \<Rightarrow> player \<Rightarrow> bool" where
  "sets s s' \<longleftrightarrow> fresh s < fresh s' \<and>
     (\<exists>k p. states s' = AList.update k p (states s) \<and> p_generation p = fresh s)"

definition refreshes :: "player \<Rightarrow> player \<Rightarrow> bool" where
  "refreshes s s' \<longleftrightarrow> fresh s = fresh s' \<and>
     (\<exists>k p q. map_of (states s) k = Some q \<and> states s' = AList.update k p (states s) \<and> p_generation p = p_generation q)"

lemma finish_shrinks: "shrinks s (finish_tracking k m now c s)"
  by (auto simp: finish_tracking_def shrinks_def split: option.split)

lemma set_playback_sets: "sets s (set_playback k f s)"
  unfolding sets_def set_playback_def
  by (intro conjI exI [of _ k] exI [of _ "(f (blank_playback (fresh s)))\<lparr>p_generation := fresh s\<rparr>"]) simp_all

lemma sets_trans: "sets s s1 \<Longrightarrow> states s2 = states s1 \<Longrightarrow> fresh s1 \<le> fresh s2 \<Longrightarrow> sets s s2"
  by (auto simp: sets_def)

lemma bind_source_states: "states (snd (bind_source r s)) = states s \<and> fresh s \<le> fresh (snd (bind_source r s))"
  by (auto simp: bind_source_def Let_def split: option.split)

lemma start_kinds: "states (start_tracking k m f s) = states s \<and> fresh (start_tracking k m f s) = fresh s \<or> sets s (start_tracking k m f s)"
  using set_playback_sets sets_trans [OF set_playback_sets, of "mark_speaking _ (set_playback _ _ _)"]
  by (cases k) (auto simp: start_tracking_def Let_def)

lemma begin_with_sets: "shrinks s (snd (begin_with f m e c r s)) \<or> sets s (snd (begin_with f m e c r s))"
proof -
  let ?s1 = "start_tracking (q_guild r) m f s"
  have "snd (begin_with f m e c r s) = snd (bind_source r ?s1)" by (simp add: begin_with_def Let_def split: prod.split)
  then show ?thesis
    using start_kinds [of "q_guild r" m f s] bind_source_states [of r ?s1] sets_trans [of s ?s1]
    by (auto simp: shrinks_def)
qed

lemma update_kinds: "shrinks s (update_playback k f s) \<or> sets s (update_playback k f s) \<or> refreshes s (update_playback k f s)"
proof (cases "\<exists>j p. k = Some j \<and> map_of (states s) j = Some p")
  case True
  then obtain j p where p: "k = Some j" "map_of (states s) j = Some p" by blast
  then have "states (update_playback k f s) = AList.update j ((f p)\<lparr>p_generation := p_generation p\<rparr>) (states s)"
    "fresh (update_playback k f s) = fresh s" "p_generation ((f p)\<lparr>p_generation := p_generation p\<rparr>) = p_generation p"
    by (simp_all add: update_playback_def)
  then show ?thesis unfolding refreshes_def using p(2) by metis
next
  case False
  then show ?thesis using set_playback_sets by (cases k) (auto simp: update_playback_def shrinks_def split: option.split)
qed

lemma step_kinds: "shrinks s (player_step s q) \<or> sets s (player_step s q) \<or> refreshes s (player_step s q)"
proof (cases q)
  case (P_Begin b r)
  have "snd (play_begin b r s) = s \<or> (\<exists>f m e c. snd (play_begin b r s) = snd (begin_with f m e c r s))"
    by (auto simp: play_begin_def split: prod.split) (metis snd_conv)
  then show ?thesis using begin_with_sets [of s] by (auto simp: P_Begin shrinks_def) metis+
next
  case (P_Stream_Begin b r)
  have "snd (stream_begin b r s) = s \<or> (\<exists>f m e c. snd (stream_begin b r s) = snd (begin_with f m e c r s))"
    by (auto simp: stream_begin_def split: prod.split) (metis snd_conv)
  then show ?thesis using begin_with_sets [of s] by (auto simp: P_Stream_Begin shrinks_def) metis+
next
  case (P_Task t i)
  then show ?thesis using update_kinds by (simp add: on_playback_task_created_def)
next
  case (P_End b t now)
  then show ?thesis by (auto simp: play_end_def end_thread_def finish_playback_def finish_tracking_def shrinks_def Let_def split: option.split)
next
  case (P_Stream_End t now)
  then show ?thesis by (auto simp: stream_end_def end_thread_def finish_playback_def finish_tracking_def shrinks_def Let_def split: option.split)
next
  case (P_Cancel_End b c now)
  then show ?thesis by (auto simp: cancel_end_def finish_tracking_def shrinks_def Let_def)
qed (auto simp: on_play_start_def on_source_ready_def stream_close_def clear_playback_def shrinks_def split: option.split)

lemma fresh_step: "fresh s \<le> fresh (player_step s q)"
  using step_kinds [of s q] by (auto simp: shrinks_def sets_def refreshes_def)

lemma generation_step:
  assumes "x \<in> set (states (player_step s q))"
  shows "(\<exists>y \<in> set (states s). p_generation (snd y) = p_generation (snd x)) \<or>
    p_generation (snd x) = fresh s \<and> fresh s < fresh (player_step s q)"
proof -
  from step_kinds [of s q] show ?thesis
  proof (elim disjE)
    assume "shrinks s (player_step s q)"
    then have "x \<in> set (states s)" using assms by (auto simp: shrinks_def dest: set_delete)
    then show ?thesis by blast
  next
    assume "sets s (player_step s q)"
    then show ?thesis using assms by (auto simp: sets_def dest!: set_update)
  next
    assume "refreshes s (player_step s q)"
    then obtain k p r where "states (player_step s q) = AList.update k p (states s)" "p_generation p = p_generation r"
        "(k, r) \<in> set (states s)" by (auto simp: refreshes_def dest: map_of_SomeD)
    moreover have "x = (k, p) \<or> x \<in> set (states s)" using set_update calculation(1) assms by metis
    ultimately show ?thesis by (metis snd_conv)
  qed
qed

lemma gone_step:
  assumes g: "generation_gone g s"
  shows "generation_gone g (player_step s q)"
proof -
  have "p_generation (snd x) \<noteq> g" if "x \<in> set (states (player_step s q))" for x
    using generation_step [OF that] g by (auto simp: generation_gone_def)
  moreover have "g < fresh (player_step s q)" using g fresh_step [of s q] by (simp add: generation_gone_def)
  ultimately show ?thesis by (simp add: generation_gone_def)
qed

lemma player_step_ok:
  assumes ok: "player_ok s"
  shows "player_ok (player_step s q)"
proof -
  have "p_generation (snd x) < fresh (player_step s q)" if "x \<in> set (states (player_step s q))" for x
    using generation_step [OF that] ok fresh_step [of s q] by (fastforce simp: player_ok_def)
  moreover have "distinct (map fst (states (player_step s q))) \<and> distinct (map (p_generation \<circ> snd) (states (player_step s q)))"
    using step_kinds [of s q]
  proof (elim disjE)
    assume "shrinks s (player_step s q)"
    then show ?thesis using ok by (auto simp: player_ok_def shrinks_def AList.distinct_delete gens_delete)
  next
    assume "sets s (player_step s q)"
    then obtain k p where p: "states (player_step s q) = AList.update k p (states s)" "p_generation p = fresh s"
      by (auto simp: sets_def)
    have "\<forall>x \<in> set (states s). p_generation (snd x) \<noteq> p_generation p" using ok p(2) by (auto simp: player_ok_def)
    then show ?thesis using ok p(1) gens_update [of "states s" k p] by (simp add: player_ok_def distinct_update)
  next
    assume "refreshes s (player_step s q)"
    then obtain k p r where p: "states (player_step s q) = AList.update k p (states s)" "p_generation p = p_generation r"
        "(k, r) \<in> set (states s)" by (auto simp: refreshes_def dest: map_of_SomeD)
    have "\<forall>x \<in> set (states s). fst x \<noteq> k \<longrightarrow> p_generation (snd x) \<noteq> p_generation p"
    proof (intro ballI impI notI)
      fix x assume "x \<in> set (states s)" "fst x \<noteq> k" "p_generation (snd x) = p_generation p"
      then have "x = (k, r)"
        using inj_onD [of "p_generation \<circ> snd" "set (states s)" x "(k, r)"] ok p(2,3)
        by (auto simp: player_ok_def distinct_map)
      then show False using \<open>fst x \<noteq> k\<close> by simp
    qed
    then show ?thesis using ok p(1) gens_update [of "states s" k p] by (simp add: player_ok_def distinct_update)
  qed
  ultimately show ?thesis by (simp add: player_ok_def)
qed

interpretation player: latched_machine player_step player_ok "generation_gone g" for g
  by unfold_locales (simp_all add: player_step_ok gone_step)

section \<open>Properties\<close>

lemma new_player_ok: "player_ok new_player"
  by (simp add: player_ok_def new_player_def)

lemma gone_generation: "generation_gone g s \<Longrightarrow> generation_of k s \<noteq> Some g"
  by (cases k) (fastforce simp: generation_gone_def generation_of_def state_of_def dest: map_of_SomeD)+

definition same_playbacks :: "player \<Rightarrow> player \<Rightarrow> bool" where
  "same_playbacks s s' \<longleftrightarrow> states s' = states s \<and> speaking s' = speaking s \<and> last_end s' = last_end s"

definition only_unbinds :: "int \<Rightarrow> binding option \<Rightarrow> player \<Rightarrow> player \<Rightarrow> bool" where
  "only_unbinds k b s s' \<longleftrightarrow> source_metrics s' = source_metrics s \<or>
     map_of (source_metrics s) k = b \<and> source_metrics s' = AList.delete k (source_metrics s)"

lemma tracking_summary [simp]:
  "speaking (mark_summary m a b s) = speaking s" "last_end (mark_summary m a b s) = last_end s"
  "source_metrics (mark_summary m a b s) = source_metrics s" "generation_of k (mark_summary m a b s) = generation_of k s"
  by (simp_all add: mark_summary_def generation_of_def state_of_def Let_def split: option.split)

lemma end_thread_quiet:
  assumes "generation_of (Some k) s \<noteq> t_generation t" "t_guild t = Some k"
  shows "same_playbacks s (end_thread t now s) \<and> only_unbinds k (t_binding t) s (end_thread t now s)"
  using assms
  by (auto simp: end_thread_def finish_playback_def clear_binding_def same_playbacks_def only_unbinds_def Let_def
      AList.delete_conv AList.delete_idem)

text \<open>
  C35. A playback that was replaced or cancelled never touches its successor. Once its generation is gone,
  then after any further pieces of any coroutines, in any order, the end of its coroutine and the end of a
  cancel that was aimed at it leave every playback, every speaking mark and every end time as they are,
  and remove no metrics but their own.
\<close>

theorem old_playback_ends_quietly:
  assumes gone: "generation_gone g s0" and s: "s = foldl player_step s0 ops"
  shows "(\<forall>t k. t_guild t = Some k \<and> t_generation t = Some g \<longrightarrow>
      same_playbacks s (play_end b t now s) \<and> only_unbinds k (t_binding t) s (play_end b t now s) \<and>
      same_playbacks s (stream_end t now s) \<and> only_unbinds k (t_binding t) s (stream_end t now s)) \<and>
    (\<forall>c. c_generation c = g \<longrightarrow>
      same_playbacks s (cancel_end stopped c now s) \<and>
      only_unbinds (c_guild c) (c_binding c) s (cancel_end stopped c now s))"
proof -
  have g: "generation_of k s \<noteq> Some g" for k
    using gone_generation [OF player.latch_run [OF gone, of ops]] by (simp add: s)
  have "same_playbacks s (play_end b t now s) \<and> only_unbinds k (t_binding t) s (play_end b t now s) \<and>
      same_playbacks s (stream_end t now s) \<and> only_unbinds k (t_binding t) s (stream_end t now s)"
    if t: "t_guild t = Some k" "t_generation t = Some g" for t k
  proof -
    let ?s = "mark_summary (t_metrics t) (Some (t_started t)) (Some (b \<and> t_started t)) s"
    have "same_playbacks ?s (end_thread t now ?s) \<and> only_unbinds k (t_binding t) ?s (end_thread t now ?s)"
      using end_thread_quiet [of k ?s t now] g t by simp
    moreover have "same_playbacks s (end_thread t now s) \<and> only_unbinds k (t_binding t) s (end_thread t now s)"
      using end_thread_quiet [of k s t now] g t by simp
    ultimately show ?thesis by (simp add: play_end_def stream_end_def same_playbacks_def only_unbinds_def)
  qed
  moreover have "same_playbacks s (cancel_end stopped c now s) \<and> only_unbinds (c_guild c) (c_binding c) s (cancel_end stopped c now s)"
    if "c_generation c = g" for c
    using g [of "Some (c_guild c)"] that
    by (auto simp: cancel_end_def restore_flag_def same_playbacks_def only_unbinds_def Let_def split: option.split)
  ultimately show ?thesis by blast
qed

lemma cancel_guild_state:
  assumes "map_of (states s) k = Some p" "ok"
  shows "states (snd (cancel_guild ok (Some k) r now s)) = AList.delete k (states s)"
    "speaking (snd (cancel_guild ok (Some k) r now s)) = speaking s - {k}" "fst (cancel_guild ok (Some k) r now s)"
  using assms
  by (auto simp: cancel_guild_def cancel_begin_def cancel_end_def finish_tracking_def generation_of_def state_of_def Let_def
      split: option.split)

text \<open>What is left when the guilds \<open>ks\<close> were asked.\<close>

definition without_turn :: "string \<Rightarrow> int set \<Rightarrow> player \<Rightarrow> (int \<times> playback) list" where
  "without_turn turn ks s = filter (\<lambda>x. \<not> (fst x \<in> ks \<and> p_turn (snd x) = Some turn)) (states s)"

lemma cancel_guilds_spec:
  "distinct (map fst (states s)) \<Longrightarrow>
   states (snd (cancel_guilds (\<lambda>_. True) turn now ks b s)) = without_turn turn (set ks) s"
proof (induction ks arbitrary: b s)
  case Nil
  then show ?case by (simp add: without_turn_def)
next
  case (Cons k ks)
  show ?case
  proof (cases "\<exists>p. map_of (states s) k = Some p \<and> p_turn p = Some turn")
    case True
    then obtain p where p: "map_of (states s) k = Some p" "p_turn p = Some turn" by blast
    obtain c s1 where 1: "cancel_guild True (Some k) ''interrupt'' now s = (c, s1)" by fastforce
    have s1: "states s1 = AList.delete k (states s)" using cancel_guild_state(1) [OF p(1), of True] 1 by (metis snd_conv)
    have "distinct (map fst (states s1))" using Cons.prems by (simp add: s1 AList.distinct_delete)
    note IH = Cons.IH [OF this]
    have "x = (k, p)" if "x \<in> set (states s)" "fst x = k" for x
      using that map_of_is_SomeI [OF Cons.prems, of k "snd x"] p(1) by (cases x) auto
    then have "without_turn turn (set ks) s1 = without_turn turn (set (k # ks)) s"
      using p(2) by (auto simp: without_turn_def s1 AList.delete_eq intro!: filter_cong)
    then show ?thesis using p 1 IH by (simp add: state_of_def)
  next
    case False
    have "p_turn (snd x) \<noteq> Some turn" if "x \<in> set (states s)" "fst x = k" for x
      using that map_of_is_SomeI [OF Cons.prems, of k "snd x"] False by (cases x) auto
    then have "without_turn turn (set ks) s = without_turn turn (set (k # ks)) s"
      by (auto simp: without_turn_def intro!: filter_cong)
    then show ?thesis using Cons.IH [OF Cons.prems] False by (auto simp: state_of_def split: option.split)
  qed
qed

definition demo_thread :: "nat \<Rightarrow> play_thread" where
  "demo_thread g = \<lparr>t_guild = Some 1, t_generation = Some g, t_binding = None, t_metrics = None, t_started = True,
     t_mark_end = True, t_clear = True\<rparr>"

lemma demo_thread_sel: "t_guild (demo_thread g) = Some 1 \<and> t_generation (demo_thread g) = Some g"
  by (simp add: demo_thread_def)

definition demo_play_request :: "string \<Rightarrow> play_request" where
  "demo_play_request turn = \<lparr>q_guild = Some 1, q_turn = Some turn, q_session = None, q_type = None, q_metrics = None,
     q_mark_speaking = True, q_mark_end = True, q_clear = True, q_vc = Some 9, q_source = Some 9, q_task = Some 9,
     q_target = None, q_sentences = None, q_prepared = None, q_prefetch = None\<rparr>"

lemmas play_defs = play_begin_def begin_with_def bind_source_def start_tracking_def set_playback_def mark_speaking_def
  demo_play_request_def blank_playback_def Let_def

theorem old_playback_ends_quietly_witness:
  "let s0 = foldl player_step new_player [P_Begin True (demo_play_request ''a''), P_Clear (Some 1)];
       s = foldl player_step s0 [P_Begin True (demo_play_request ''b'')]
   in is_active (Some 1) s \<and> is_active (Some 1) (play_end True (demo_thread 0) 5 s) \<and>
      1 \<in> speaking (play_end True (demo_thread 0) 5 s)"
proof -
  let ?old = "foldl player_step new_player [P_Begin True (demo_play_request ''a''), P_Clear (Some 1)]"
  let ?now = "foldl player_step ?old [P_Begin True (demo_play_request ''b'')]"
  have gone: "generation_gone 0 ?old"
    by (simp add: generation_gone_def new_player_def play_defs clear_playback_def)
  have "is_active (Some 1) ?now" "1 \<in> speaking ?now"
    by (simp_all add: is_active_def state_of_def new_player_def play_defs clear_playback_def)
  moreover have "same_playbacks ?now (play_end True (demo_thread 0) 5 ?now)"
    using old_playback_ends_quietly [where s = ?now and ops = "[P_Begin True (demo_play_request ''b'')]"
        and b = True and now = 5 and stopped = True, OF gone refl] demo_thread_sel by blast
  ultimately show ?thesis by (simp only: Let_def same_playbacks_def is_active_def state_of_def option.case simp_thms)
qed

text \<open>
  Cancelling a turn cancels all its playbacks and no other. When every stop succeeds, what is left
  are exactly the playbacks of other turns.
\<close>

theorem cancel_turn_clears:
  assumes "player_ok s" and "turn \<noteq> []"
  shows "states (snd (cancel_turn (\<lambda>_. True) (Some turn) now s)) = filter (\<lambda>x. p_turn (snd x) \<noteq> Some turn) (states s)"
  using cancel_guilds_spec [of s turn now "active_guild_ids s" False] assms
  by (auto simp: cancel_turn_def without_turn_def active_guild_ids_def player_ok_def intro!: filter_cong)

theorem cancel_turn_clears_witness:
  "states (snd (cancel_turn (\<lambda>_. True) (Some ''a'') 5 (foldl player_step new_player [P_Begin True (demo_play_request ''a'')]))) = []"
proof -
  have "player_ok (foldl player_step new_player [P_Begin True (demo_play_request ''a'')])"
    by (rule player.inv_run [OF new_player_ok])
  from cancel_turn_clears [OF this, of "''a''" 5] have
    "states (snd (cancel_turn (\<lambda>_. True) (Some ''a'') 5 (foldl player_step new_player [P_Begin True (demo_play_request ''a'')]))) =
     filter (\<lambda>x. p_turn (snd x) \<noteq> Some ''a'') (states (foldl player_step new_player [P_Begin True (demo_play_request ''a'')]))"
    by simp
  also have "\<dots> = []" by (simp add: new_player_def play_defs)
  finally show ?thesis .
qed

text \<open>
  A stream that creates its playback task after it was cancelled registers a playback that nothing removes: its
  own end no longer knows the generation.
\<close>

theorem late_task_leaves_ghost:
  assumes "t_guild t = Some k" "map_of (states s) k = None" "t_generation t = Some g" "generation_gone g s"
  shows "is_active (Some k) (stream_end t now (on_playback_task_created t task s))"
proof -
  let ?s = "on_playback_task_created t task s"
  have "?s = set_playback k (\<lambda>p. p\<lparr>playback_task := Some task\<rparr>) s"
    using assms(1,2) by (simp add: on_playback_task_created_def update_playback_def)
  then have act: "is_active (Some k) ?s" and gen: "generation_of (Some k) ?s = Some (fresh s)"
    by (simp_all add: is_active_def state_of_def set_playback_def generation_of_def update_conv')
  have "g \<noteq> fresh s" using assms(4) by (simp add: generation_gone_def)
  then have "same_playbacks ?s (end_thread t now ?s)" using end_thread_quiet [of k ?s t now] assms(1,3) gen by simp
  then show ?thesis using act by (simp add: stream_end_def same_playbacks_def is_active_def state_of_def)
qed

end
