(* ===== verification/Py_Json.thy ===== *)
theory Py_Json
  imports Py_Value "HOL-Library.List_Lexorder" "HOL-Library.Char_ord"
begin

text \<open>
  \<open>json.dumps\<close> in the canonical form the program hashes and signs (\<open>ensure_ascii=False\<close>,
  \<open>sort_keys=True\<close>, no blanks) and \<open>json.loads\<close> with the strict hook that refuses a duplicated
  key, both on bytes.

  A text is its UTF-8 encoding here, so that all of Unicode is covered: \<open>utf8_ok\<close> is strict
  decoding, a lone surrogate (which an escape can produce and which does not encode) is kept as
  its three bytes, \<open>char_count\<close> is \<open>len\<close>, and comparing bytes is comparing code points. The text of
  a finite float is a parameter (\<open>float.__repr__\<close>). The fuel of the parser is the length of its
  input, which no nesting exceeds (CPython gives up earlier, with \<open>RecursionError\<close>, which every
  caller handles as it handles malformed input).
\<close>

section \<open>UTF-8\<close>

definition byte :: "char \<Rightarrow> nat" where
  "byte c = of_char c"

definition trail :: "char \<Rightarrow> bool" where
  "trail c \<longleftrightarrow> 128 \<le> byte c \<and> byte c < 192"

fun utf8_ok :: "string \<Rightarrow> bool" where
  "utf8_ok [] = True"
| "utf8_ok (a # r) =
     (let n = byte a in
      if n < 128 then utf8_ok r
      else if 194 \<le> n \<and> n < 224 then (case r of b # r1 \<Rightarrow> trail b \<and> utf8_ok r1 | _ \<Rightarrow> False)
      else if 224 \<le> n \<and> n < 240 then
        (case r of b # c # r1 \<Rightarrow> trail b \<and> trail c \<and> (n = 224 \<longrightarrow> 160 \<le> byte b) \<and> (n = 237 \<longrightarrow> byte b < 160) \<and> utf8_ok r1
         | _ \<Rightarrow> False)
      else if 240 \<le> n \<and> n < 245 then
        (case r of b # c # d # r1 \<Rightarrow>
           trail b \<and> trail c \<and> trail d \<and> (n = 240 \<longrightarrow> 144 \<le> byte b) \<and> (n = 244 \<longrightarrow> byte b < 144) \<and> utf8_ok r1
         | _ \<Rightarrow> False)
      else False)"

definition utf8_of :: "nat \<Rightarrow> string" where
  "utf8_of n =
     (if n < 128 then [char_of n]
      else if n < 2048 then [char_of (192 + n div 64), char_of (128 + n mod 64)]
      else if n < 65536 then [char_of (224 + n div 4096), char_of (128 + n div 64 mod 64), char_of (128 + n mod 64)]
      else [char_of (240 + n div 262144), char_of (128 + n div 4096 mod 64), char_of (128 + n div 64 mod 64),
            char_of (128 + n mod 64)])"

fun has_surrogate :: "string \<Rightarrow> bool" where
  "has_surrogate (a # b # r) = (byte a = 237 \<and> 160 \<le> byte b \<or> has_surrogate (b # r))"
| "has_surrogate _ = False"

text \<open>\<open>str.encode("utf-8", errors="strict")\<close>\<close>

definition encode :: "string \<Rightarrow> py_exn + string" where
  "encode s = (if has_surrogate s then Inl Unicode_Error else Inr s)"

definition char_count :: "string \<Rightarrow> nat" where
  "char_count s = length (filter (\<lambda>c. \<not> trail c) s)"

lemma char_count_ascii: "ascii_text s \<Longrightarrow> char_count s = length s"
  by (induction s) (auto simp: char_count_def ascii_text_def trail_def byte_def)

lemma utf8_ok_ascii: "ascii_text s \<Longrightarrow> utf8_ok s"
  by (induction s) (auto simp: ascii_text_def byte_def)

lemma has_surrogate_ascii: "ascii_text s \<Longrightarrow> \<not> has_surrogate s"
  by (induction s rule: has_surrogate.induct) (auto simp: ascii_text_def byte_def)

lemma encode_ascii [simp]: "ascii_text s \<Longrightarrow> encode s = Inr s"
  by (simp add: encode_def has_surrogate_ascii)

lemma ascii_append [simp]: "ascii_text (s @ t) \<longleftrightarrow> ascii_text s \<and> ascii_text t"
  by (simp add: ascii_text_def)

lemma ascii_Cons: "ascii_text (c # s) \<longleftrightarrow> (of_char c :: nat) < 128 \<and> ascii_text s"
  by (simp add: ascii_text_def)

lemma ascii_Nil [simp]: "ascii_text []"
  by (simp add: ascii_text_def)

section \<open>Writing\<close>

definition hex_char :: "nat \<Rightarrow> char" where
  "hex_char n = (if n < 10 then char_of (48 + n) else char_of (87 + n))"

definition escape_char :: "char \<Rightarrow> string" where
  "escape_char c =
     (let n = byte c in
      if n = 34 then [CHR 92, CHR 34] else if n = 92 then [CHR 92, CHR 92]
      else if n = 10 then [CHR 92, CHR ''n''] else if n = 13 then [CHR 92, CHR ''r'']
      else if n = 9 then [CHR 92, CHR ''t''] else if n = 8 then [CHR 92, CHR ''b'']
      else if n = 12 then [CHR 92, CHR ''f'']
      else if n < 32 then [CHR 92, CHR ''u'', CHR ''0'', CHR ''0'', hex_char (n div 16), hex_char (n mod 16)]
      else [c])"

definition json_string :: "string \<Rightarrow> string" where
  "json_string s = CHR 34 # concat (map escape_char s) @ [CHR 34]"

fun dump_float :: "(real \<Rightarrow> string) \<Rightarrow> pyfloat \<Rightarrow> string" where
  "dump_float rf (Fin x) = rf x"
| "dump_float rf PosInf = ''Infinity''"
| "dump_float rf NegInf = ''-Infinity''"
| "dump_float rf NaN = ''NaN''"

fun dump :: "(real \<Rightarrow> string) \<Rightarrow> pyval \<Rightarrow> string"
  and dump_all :: "(real \<Rightarrow> string) \<Rightarrow> pyval list \<Rightarrow> string list"
  and dump_members :: "(real \<Rightarrow> string) \<Rightarrow> (string \<times> pyval) list \<Rightarrow> (string \<times> string) list" where
  "dump rf PNone = ''null''"
| "dump rf (PBool b) = (if b then ''true'' else ''false'')"
| "dump rf (PInt i) = int_str i"
| "dump rf (PFloat f) = dump_float rf f"
| "dump rf (PStr s) = json_string s"
| "dump rf (PList l) = CHR ''['' # join_on (CHR '','') (dump_all rf l) @ [CHR '']'']"
| "dump rf (PDict d) =
     CHR 123 # join_on (CHR '','') (map (\<lambda>(k, t). json_string k @ CHR '':'' # t) (sort_key fst (dump_members rf d))) @ [CHR 125]"
| "dump_all rf [] = []"
| "dump_all rf (v # l) = dump rf v # dump_all rf l"
| "dump_members rf [] = []"
| "dump_members rf ((k, v) # d) = (k, dump rf v) # dump_members rf d"

section \<open>Reading\<close>

definition blank :: "char \<Rightarrow> bool" where
  "blank c \<longleftrightarrow> byte c \<in> {32, 9, 10, 13}"

definition skip_blanks :: "string \<Rightarrow> string" where
  "skip_blanks s = dropWhile blank s"

definition hex_val :: "char \<Rightarrow> nat option" where
  "hex_val c =
     (let n = byte c in
      if 48 \<le> n \<and> n \<le> 57 then Some (n - 48) else if 97 \<le> n \<and> n \<le> 102 then Some (n - 87)
      else if 65 \<le> n \<and> n \<le> 70 then Some (n - 55) else None)"

definition hex4 :: "char \<Rightarrow> char \<Rightarrow> char \<Rightarrow> char \<Rightarrow> nat option" where
  "hex4 a b c d =
     (case (hex_val a, hex_val b, hex_val c, hex_val d) of
        (Some i, Some j, Some k, Some l) \<Rightarrow> Some (4096 * i + 256 * j + 16 * k + l)
      | _ \<Rightarrow> None)"

definition simple_escape :: "char \<Rightarrow> char option" where
  "simple_escape x =
     map_of [(CHR 34, CHR 34), (CHR 92, CHR 92), (CHR ''/'', CHR ''/''), (CHR ''b'', CHR 8), (CHR ''f'', CHR 12),
             (CHR ''n'', CHR 10), (CHR ''r'', CHR 13), (CHR ''t'', CHR 9)] x"

definition is_high :: "nat \<Rightarrow> bool" where
  "is_high n \<longleftrightarrow> 55296 \<le> n \<and> n < 56320"

text \<open>The second half of a surrogate pair, when the text goes on with an escape for one.\<close>

definition low_half :: "string \<Rightarrow> nat option" where
  "low_half s =
     (case s of
        x # y # a # b # c # d # r \<Rightarrow>
          if x = CHR 92 \<and> y = CHR ''u''
          then (case hex4 a b c d of Some m \<Rightarrow> if 56320 \<le> m \<and> m < 57344 then Some m else None | None \<Rightarrow> None)
          else None
      | _ \<Rightarrow> None)"

text \<open>After the opening quote.\<close>

function scan_string :: "string \<Rightarrow> (string \<times> string) option" where
  "scan_string [] = None"
| "scan_string (c # r) =
     (if c = CHR 34 then Some ([], r)
      else if byte c < 32 then None
      else if c \<noteq> CHR 92 then map_option (\<lambda>(s, t). (c # s, t)) (scan_string r)
      else (case r of
              [] \<Rightarrow> None
            | x # r1 \<Rightarrow>
                if x \<noteq> CHR ''u'' then
                  (case simple_escape x of None \<Rightarrow> None
                   | Some y \<Rightarrow> map_option (\<lambda>(s, t). (y # s, t)) (scan_string r1))
                else (case r1 of
                        h1 # h2 # h3 # h4 # r2 \<Rightarrow>
                          (case hex4 h1 h2 h3 h4 of None \<Rightarrow> None
                           | Some n \<Rightarrow>
                               (case if is_high n then low_half r2 else None of
                                  Some m \<Rightarrow> map_option (\<lambda>(s, t). (utf8_of (65536 + 1024 * (n - 55296) + (m - 56320)) @ s, t))
                                             (scan_string (drop 6 r2))
                                | None \<Rightarrow> map_option (\<lambda>(s, t). (utf8_of n @ s, t)) (scan_string r2)))
                      | _ \<Rightarrow> None)))"
  by pat_completeness auto
termination
  by (relation "measure length") auto

text \<open>A number: an int without fraction and exponent, a float otherwise.\<close>

definition scan_fraction :: "string \<Rightarrow> string \<times> string" where
  "scan_fraction s =
     (case s of c # r \<Rightarrow>
        if c = CHR ''.'' \<and> takeWhile digit_char r \<noteq> [] then (takeWhile digit_char r, dropWhile digit_char r) else ([], s)
      | [] \<Rightarrow> ([], s))"

definition scan_exponent :: "string \<Rightarrow> int option \<times> string" where
  "scan_exponent s =
     (case s of c # r \<Rightarrow>
        if c = CHR ''e'' \<or> c = CHR ''E'' then
          (let (sg, t) = sign_split r; ds = takeWhile digit_char t
           in if ds = [] then (None, s) else (Some (sg * int (nat_of_str ds)), dropWhile digit_char t))
        else (None, s)
      | [] \<Rightarrow> (None, s))"

definition scan_whole :: "string \<Rightarrow> string \<times> string" where
  "scan_whole s =
     (case s of [] \<Rightarrow> ([], s)
      | c # r \<Rightarrow> if c = CHR ''0'' then ([c], r) else (takeWhile digit_char s, dropWhile digit_char s))"

definition scan_number :: "string \<Rightarrow> (pyval \<times> string) option" where
  "scan_number s =
     (let neg = (s \<noteq> [] \<and> hd s = CHR ''-'');
          (ds, r1) = scan_whole (if neg then tl s else s);
          (fr, r2) = scan_fraction r1;
          (ex, r3) = scan_exponent r2;
          sg = (if neg then - 1 else 1) :: int
      in if ds = [] then None
         else if fr = [] \<and> ex = None then
           (if length ds > 4300 then None else Some (PInt (sg * int (nat_of_str ds)), r3))
         else let k = (case ex of None \<Rightarrow> 0 | Some i \<Rightarrow> i); m = real (nat_of_str (ds @ fr)) / 10 ^ length fr
              in Some (PFloat (pack_float (real_of_int sg * (if k \<ge> 0 then m * 10 ^ nat k else m / 10 ^ nat (- k)))), r3))"

definition literals :: "(string \<times> pyval) list" where
  "literals =
     [(''null'', PNone), (''true'', PBool True), (''false'', PBool False), (''NaN'', PFloat NaN),
      (''Infinity'', PFloat PosInf), (''-Infinity'', PFloat NegInf)]"

definition scan_atom :: "string \<Rightarrow> (pyval \<times> string) option" where
  "scan_atom s =
     (case find (\<lambda>p. take (length (fst p)) s = fst p) literals of
        Some (t, v) \<Rightarrow> Some (v, drop (length t) s)
      | None \<Rightarrow> scan_number s)"

text \<open>A member's key, up to the start of its value.\<close>

definition scan_key :: "string \<Rightarrow> (string \<times> string) option" where
  "scan_key s =
     (case s of
        q # r \<Rightarrow>
          if q \<noteq> CHR 34 then None
          else (case scan_string r of None \<Rightarrow> None
                | Some (k, r1) \<Rightarrow>
                    (case skip_blanks r1 of
                       c # r2 \<Rightarrow> if c = CHR '':'' then Some (k, skip_blanks r2) else None
                     | [] \<Rightarrow> None))
      | [] \<Rightarrow> None)"

fun scan_value :: "nat \<Rightarrow> string \<Rightarrow> (pyval \<times> string) option"
  and scan_items :: "nat \<Rightarrow> string \<Rightarrow> (pyval list \<times> string) option"
  and scan_members :: "nat \<Rightarrow> string \<Rightarrow> ((string \<times> pyval) list \<times> string) option" where
  "scan_value 0 s = None"
| "scan_value (Suc n) s =
     (case s of [] \<Rightarrow> None
      | c # r \<Rightarrow>
          if c = CHR 34 then map_option (\<lambda>(t, r1). (PStr t, r1)) (scan_string r)
          else if c = CHR 123 then
            (case skip_blanks r of [] \<Rightarrow> None
             | d # r1 \<Rightarrow> if d = CHR 125 then Some (PDict [], r1)
                         else (case scan_members n (d # r1) of None \<Rightarrow> None
                               | Some (ms, r2) \<Rightarrow> if distinct (map fst ms) then Some (PDict ms, r2) else None))
          else if c = CHR ''['' then
            (case skip_blanks r of [] \<Rightarrow> None
             | d # r1 \<Rightarrow> if d = CHR '']'' then Some (PList [], r1)
                         else map_option (\<lambda>(vs, r2). (PList vs, r2)) (scan_items n (d # r1)))
          else scan_atom s)"
| "scan_items 0 s = None"
| "scan_items (Suc n) s =
     (case scan_value n s of None \<Rightarrow> None
      | Some (v, r) \<Rightarrow>
          (case skip_blanks r of [] \<Rightarrow> None
           | c # r1 \<Rightarrow> if c = CHR '']'' then Some ([v], r1)
                       else if c = CHR '','' then map_option (\<lambda>(vs, r2). (v # vs, r2)) (scan_items n (skip_blanks r1))
                       else None))"
| "scan_members 0 s = None"
| "scan_members (Suc n) s =
     (case scan_key s of None \<Rightarrow> None
      | Some (k, r0) \<Rightarrow>
          (case scan_value n r0 of None \<Rightarrow> None
           | Some (v, r) \<Rightarrow>
               (case skip_blanks r of [] \<Rightarrow> None
                | c # r1 \<Rightarrow> if c = CHR 125 then Some ([(k, v)], r1)
                            else if c = CHR '','' then map_option (\<lambda>(ms, r2). ((k, v) # ms, r2)) (scan_members n (skip_blanks r1))
                            else None)))"

text \<open>\<open>bytes.decode("utf-8", errors="strict")\<close> followed by the strict \<open>json.loads\<close>.\<close>

definition json_loads :: "string \<Rightarrow> pyval option" where
  "json_loads s =
     (if utf8_ok s
      then (case scan_value (2 * length s + 2) (skip_blanks s) of
              Some (v, r) \<Rightarrow> if skip_blanks r = [] then Some v else None
            | None \<Rightarrow> None)
      else None)"

section \<open>What is written reads back\<close>

lemma byte_eq: "byte a = byte b \<longleftrightarrow> a = b"
  by (simp add: byte_def)

lemma byte_backslash: "byte (CHR 92) = 92"
  by (simp add: byte_def)

lemma special_bytes:
  "byte c \<in> {34, 92, 10, 13, 9, 8, 12} \<Longrightarrow>
   c \<in> {CHR 34, CHR 92, CHR 10, CHR 13, CHR 9, CHR 8, CHR 12}"
  using byte_eq [of c "CHR 34"] byte_eq [of c "CHR 92"] byte_eq [of c "CHR 10"] byte_eq [of c "CHR 13"]
    byte_eq [of c "CHR 9"] byte_eq [of c "CHR 8"] byte_eq [of c "CHR 12"]
  by (auto simp: byte_def)

lemma hex_val_char [simp]: "n < 16 \<Longrightarrow> hex_val (hex_char n) = Some n"
  by (auto simp: hex_val_def hex_char_def byte_def)

lemma hex4_control: "n < 32 \<Longrightarrow> hex4 (CHR ''0'') (CHR ''0'') (hex_char (n div 16)) (hex_char (n mod 16)) = Some n"
proof -
  assume "n < 32"
  moreover have "hex_val (CHR ''0'') = Some 0" by (simp add: hex_val_def byte_def)
  ultimately show ?thesis by (simp add: hex4_def)
qed

lemma scan_escape:
  "scan_string (escape_char c @ t) = map_option (\<lambda>(s, u). (c # s, u)) (scan_string t)"
proof (cases "byte c \<in> {34, 92, 10, 13, 9, 8, 12}")
  case True
  then have "c \<in> {CHR 34, CHR 92, CHR 10, CHR 13, CHR 9, CHR 8, CHR 12}" by (rule special_bytes)
  then show ?thesis by (auto simp: escape_char_def simple_escape_def byte_def)
next
  case False
  then have c: "c \<noteq> CHR 34" "c \<noteq> CHR 92" by (auto simp: byte_def)
  show ?thesis
  proof (cases "byte c < 32")
    case True
    then have u: "utf8_of (byte c) = [c]" by (simp add: utf8_of_def byte_def)
    have "\<not> is_high (byte c)" using True by (simp add: is_high_def)
    then show ?thesis
      using False True hex4_control [OF True] u by (simp add: escape_char_def Let_def byte_backslash)
  next
    case g: False
    then have "escape_char c = [c]" using False by (simp add: escape_char_def Let_def)
    with c g show ?thesis by simp
  qed
qed

lemma scan_escaped: "scan_string (concat (map escape_char s) @ CHR 34 # r) = Some (s, r)"
  by (induction s) (simp_all add: scan_escape)

text \<open>Numbers.\<close>

definition num_end :: "string \<Rightarrow> bool" where
  "num_end r \<longleftrightarrow> r = [] \<or> (\<not> digit_char (hd r) \<and> hd r \<notin> {CHR ''.'', CHR ''e'', CHR ''E''})"

lemma takeWhile_digits: "num_end r \<Longrightarrow> list_all digit_char d \<Longrightarrow> takeWhile digit_char (d @ r) = d \<and> dropWhile digit_char (d @ r) = r"
  by (cases r) (auto simp: num_end_def list_all_iff takeWhile_append dropWhile_append)

lemma nat_str_all_digits: "list_all digit_char (nat_str n)"
  by (auto simp: list_all_iff dest: nat_str_digits)

lemma nat_str_0: "nat_str 0 = ''0''"
  by code_simp

lemma hd_nat_str: "n > 0 \<Longrightarrow> hd (nat_str n) \<noteq> CHR ''0''"
proof (induction n rule: nat_str.induct)
  case (1 n)
  show ?case
  proof (cases "n < 10")
    case True
    have "(of_char (char_of (48 + n)) :: nat) = 48 + n" using True by simp
    moreover have "(of_char (CHR ''0'') :: nat) = 48" by simp
    ultimately have "char_of (48 + n) \<noteq> CHR ''0''" using 1(2) by (metis add_cancel_left_right less_irrefl)
    then show ?thesis using True by (simp add: nat_str.simps [of n])
  next
    case False
    then have "hd (nat_str (n div 10)) \<noteq> CHR ''0''" using 1 by simp
    with False show ?thesis by (simp add: nat_str.simps [of n])
  qed
qed

lemma scan_whole_nat: "num_end r \<Longrightarrow> scan_whole (nat_str n @ r) = (nat_str n, r)"
proof (cases "n = 0")
  case False
  assume r: "num_end r"
  obtain c d where cd: "nat_str n = c # d" by (cases "nat_str n") auto
  then have "c \<noteq> CHR ''0''" using hd_nat_str [of n] False by simp
  then show ?thesis
    using takeWhile_digits [OF r nat_str_all_digits, of n] cd by (simp add: scan_whole_def)
qed (simp add: nat_str_0 scan_whole_def)

lemma scan_int: "num_end r \<Longrightarrow> length (nat_str (nat \<bar>i\<bar>)) \<le> 4300 \<Longrightarrow> scan_number (int_str i @ r) = Some (PInt i, r)"
proof -
  assume r: "num_end r" and l: "length (nat_str (nat \<bar>i\<bar>)) \<le> 4300"
  have tail: "scan_fraction r = ([], r)" "scan_exponent r = (None, r)"
    using r by (auto simp: scan_fraction_def scan_exponent_def num_end_def split: list.splits)
  obtain c d where cd: "nat_str (nat i) = c # d" by (cases "nat_str (nat i)") auto
  have "digit_char c" using nat_str_digits [of c "nat i"] cd by simp
  then have "c \<noteq> CHR ''-''" by (auto simp: digit_char_def)
  then show ?thesis
    using tail l scan_whole_nat [OF r, of "nat i"] scan_whole_nat [OF r, of "nat (- i)"] cd
      nat_of_nat_str [of "nat i"]
    by (cases "i < 0") (simp_all add: scan_number_def int_str_def Let_def)
qed

lemma int_str_start: "\<exists>c d. int_str i = c # d \<and> (digit_char c \<or> c = CHR ''-'' \<and> d \<noteq> [] \<and> digit_char (hd d))"
proof -
  have "\<exists>c d. nat_str n = c # d \<and> digit_char c" for n
    using nat_str_digits [of "hd (nat_str n)" n] by (cases "nat_str n") auto
  then show ?thesis
    by (metis int_str_def list.discI list.sel(1))
qed

lemma scan_atom_int: "num_end r \<Longrightarrow> length (nat_str (nat \<bar>i\<bar>)) \<le> 4300 \<Longrightarrow> scan_atom (int_str i @ r) = Some (PInt i, r)"
proof -
  assume r: "num_end r" "length (nat_str (nat \<bar>i\<bar>)) \<le> 4300"
  obtain c d where cd: "int_str i = c # d" "digit_char c \<or> c = CHR ''-'' \<and> d \<noteq> [] \<and> digit_char (hd d)"
    using int_str_start by blast
  have n: "\<not> digit_char (CHR ''n'')" "\<not> digit_char (CHR ''t'')" "\<not> digit_char (CHR ''f'')"
    "\<not> digit_char (CHR ''N'')" "\<not> digit_char (CHR ''I'')"
    by (simp_all add: digit_char_def)
  then have h: "c \<noteq> CHR ''n''" "c \<noteq> CHR ''t''" "c \<noteq> CHR ''f''" "c \<noteq> CHR ''N''" "c \<noteq> CHR ''I''"
      "c = CHR ''-'' \<Longrightarrow> d \<noteq> [] \<and> hd d \<noteq> CHR ''I''"
    using cd(2) by (auto simp: digit_char_def)
  have "take (length u) (int_str i @ r) \<noteq> u" if lit: "(u, v) \<in> set literals" for u v
  proof -
    have "hd u \<noteq> c \<and> u \<noteq> [] \<or> c = CHR ''-'' \<and> u = ''-Infinity''"
      using lit h by (auto simp: literals_def)
    then show ?thesis
      using h(6) cd(1) by (elim disjE conjE; cases u; cases d) simp_all
  qed
  then have "find (\<lambda>p. take (length (fst p)) (int_str i @ r) = fst p) literals = None"
    by (auto simp: find_None_iff)
  then show ?thesis using scan_int [OF r] by (simp add: scan_atom_def)
qed

text \<open>Values without floats, with distinct keys, and with integers \<open>int\<close> converts from text.\<close>

fun json_plain :: "pyval \<Rightarrow> bool"
  and plain_all :: "pyval list \<Rightarrow> bool"
  and plain_members :: "(string \<times> pyval) list \<Rightarrow> bool" where
  "json_plain (PInt i) = (length (nat_str (nat \<bar>i\<bar>)) \<le> 4300)"
| "json_plain (PFloat f) = False"
| "json_plain (PList l) = plain_all l"
| "json_plain (PDict d) = (distinct (map fst d) \<and> plain_members d)"
| "json_plain _ = True"
| "plain_all [] = True"
| "plain_all (v # l) = (json_plain v \<and> plain_all l)"
| "plain_members [] = True"
| "plain_members ((k, v) # d) = (json_plain v \<and> plain_members d)"

fun sort_value :: "pyval \<Rightarrow> pyval"
  and sort_all :: "pyval list \<Rightarrow> pyval list"
  and sort_members :: "(string \<times> pyval) list \<Rightarrow> (string \<times> pyval) list" where
  "sort_value (PList l) = PList (sort_all l)"
| "sort_value (PDict d) = PDict (sort_key fst (sort_members d))"
| "sort_value v = v"
| "sort_all [] = []"
| "sort_all (v # l) = sort_value v # sort_all l"
| "sort_members [] = []"
| "sort_members ((k, v) # d) = (k, sort_value v) # sort_members d"

lemma plain_all_iff: "plain_all l \<longleftrightarrow> (\<forall>v\<in>set l. json_plain v)"
  by (induction l) auto

lemma plain_members_iff: "plain_members d \<longleftrightarrow> (\<forall>(k, v)\<in>set d. json_plain v)"
  by (induction d) auto

lemma dump_all_map [simp]: "dump_all rf l = map (dump rf) l"
  by (induction l) auto

lemma dump_members_map: "dump_members rf d = map (\<lambda>(k, v). (k, dump rf v)) d"
  by (induction d) auto

lemma sort_all_map [simp]: "sort_all l = map sort_value l"
  by (induction l) auto

lemma sort_members_map: "sort_members d = map (\<lambda>(k, v). (k, sort_value v)) d"
  by (induction d) auto

lemma insort_pair: "insort_key fst (k, g v) (map (\<lambda>(k, v). (k, g v)) d) = map (\<lambda>(k, v). (k, g v)) (insort_key fst (k, v) d)"
  by (induction d) auto

lemma sort_pair: "sort_key fst (map (\<lambda>(k, v). (k, g v)) d) = map (\<lambda>(k, v). (k, g v)) (sort_key fst d)"
  by (induction d) (auto simp: sort_key_def insort_pair)

lemma join_on_Cons: "join_on c (x # xs) = x @ (if xs = [] then [] else c # join_on c xs)"
  by (cases xs) auto

definition token_start :: "string \<Rightarrow> bool" where
  "token_start s \<longleftrightarrow> s \<noteq> [] \<and> \<not> blank (hd s) \<and> hd s \<noteq> CHR '']''"

lemma digit_start: "digit_char c \<or> c = CHR ''-'' \<Longrightarrow> \<not> blank c \<and> c \<noteq> CHR '']'' \<and> c \<noteq> CHR 34 \<and> c \<noteq> CHR 123 \<and> c \<noteq> CHR ''[''"
proof -
  assume "digit_char c \<or> c = CHR ''-''"
  then have "45 \<le> byte c \<and> byte c \<le> 57" by (auto simp: digit_char_def byte_def)
  then show ?thesis by (auto simp: blank_def byte_def)
qed

lemma letter_start: "x \<in> {CHR ''n'', CHR ''t'', CHR ''f'', CHR 34, CHR ''['', CHR 123} \<Longrightarrow> \<not> blank x \<and> x \<noteq> CHR '']''"
  by (auto simp: blank_def byte_def)

lemma dump_head:
  "json_plain v \<Longrightarrow> \<exists>c d. dump rf v = c # d \<and>
     (digit_char c \<or> c = CHR ''-'' \<or> c \<in> {CHR ''n'', CHR ''t'', CHR ''f'', CHR 34, CHR ''['', CHR 123})"
  using int_str_start by (cases v) (auto simp: json_string_def; metis)+

lemma dump_start: "json_plain v \<Longrightarrow> token_start (dump rf v)"
  using dump_head [of v rf] digit_start letter_start by (fastforce simp: token_start_def)

lemma skip_token: "token_start s \<Longrightarrow> skip_blanks (s @ r) = s @ r"
  by (cases s) (auto simp: token_start_def skip_blanks_def)

lemma skip_one: "\<not> blank c \<Longrightarrow> skip_blanks (c # r) = c # r"
  by (simp add: skip_blanks_def)

lemma punct [simp]:
  "\<not> blank (CHR '','')" "\<not> blank (CHR '']'')" "\<not> blank (CHR 125)" "\<not> blank (CHR '':'')" "\<not> blank (CHR 34)"
  by (simp_all add: blank_def byte_def)

lemma num_end_punct [simp]: "num_end (CHR '','' # r)" "num_end (CHR '']'' # r)" "num_end (CHR 125 # r)" "num_end []"
  by (simp_all add: num_end_def digit_char_def)

definition reads_as :: "(real \<Rightarrow> string) \<Rightarrow> pyval \<Rightarrow> bool" where
  "reads_as rf v \<longleftrightarrow>
     (\<forall>n r. 2 * length (dump rf v) \<le> n \<longrightarrow> num_end r \<longrightarrow> scan_value n (dump rf v @ r) = Some (sort_value v, r))"

lemma reads_asD:
  "reads_as rf v \<Longrightarrow> 2 * length (dump rf v) \<le> n \<Longrightarrow> num_end r \<Longrightarrow> scan_value n (dump rf v @ r) = Some (sort_value v, r)"
  by (simp add: reads_as_def)

lemma scan_items_dump:
  assumes "l \<noteq> []" "\<forall>v\<in>set l. reads_as rf v \<and> json_plain v" "2 * length (join_on (CHR '','') (map (dump rf) l)) < n"
  shows "scan_items n (join_on (CHR '','') (map (dump rf) l) @ CHR '']'' # r) = Some (map sort_value l, r)"
  using assms
proof (induction l arbitrary: n)
  case (Cons v l)
  obtain m where n: "n = Suc m" using Cons.prems(3) by (cases n) auto
  have v: "reads_as rf v" using Cons.prems(2) by simp
  show ?case
  proof (cases "l = []")
    case True
    then show ?thesis using reads_asD [OF v, of m] Cons.prems(3) n by (simp add: skip_one)
  next
    case False
    let ?t = "join_on (CHR '','') (map (dump rf) l)"
    have t: "join_on (CHR '','') (map (dump rf) (v # l)) = dump rf v @ CHR '','' # ?t"
      using False by (simp add: join_on_Cons)
    have "token_start ?t"
      using False Cons.prems(2) dump_start [of "hd l" rf] by (cases l) (auto simp: join_on_Cons token_start_def)
    moreover have "scan_value m (dump rf v @ CHR '','' # ?t @ CHR '']'' # r) = Some (sort_value v, CHR '','' # ?t @ CHR '']'' # r)"
      using reads_asD [OF v, of m] Cons.prems(3) n t by simp
    moreover have "scan_items m (?t @ CHR '']'' # r) = Some (map sort_value l, r)"
      using Cons.prems n t False by (intro Cons.IH) auto
    ultimately show ?thesis unfolding t n by (simp add: skip_one skip_token)
  qed
qed simp

definition member_text :: "(real \<Rightarrow> string) \<Rightarrow> string \<times> pyval \<Rightarrow> string" where
  "member_text rf = (\<lambda>(k, v). json_string k @ CHR '':'' # dump rf v)"

lemma scan_key_member: "json_plain v \<Longrightarrow> scan_key (member_text rf (k, v) @ r) = Some (k, dump rf v @ r)"
  using scan_escaped [of k "CHR '':'' # dump rf v @ r"]
  by (simp add: scan_key_def member_text_def json_string_def skip_one skip_token dump_start)

lemma scan_members_dump:
  assumes "d \<noteq> []" "\<forall>(k, v)\<in>set d. reads_as rf v \<and> json_plain v" "2 * length (join_on (CHR '','') (map (member_text rf) d)) < n"
  shows "scan_members n (join_on (CHR '','') (map (member_text rf) d) @ CHR 125 # r)
    = Some (map (\<lambda>(k, v). (k, sort_value v)) d, r)"
  using assms
proof (induction d arbitrary: n)
  case (Cons kv d)
  obtain k v where kv: "kv = (k, v)" by (cases kv)
  obtain m where n: "n = Suc m" using Cons.prems(3) by (cases n) auto
  have v: "reads_as rf v" "json_plain v" using Cons.prems(2) kv by auto
  have len: "length (dump rf v) < length (member_text rf (k, v))" by (simp add: member_text_def)
  show ?case
  proof (cases "d = []")
    case True
    then show ?thesis
      using reads_asD [OF v(1), of m "CHR 125 # r"] Cons.prems(3) n kv len
      by (simp add: skip_one scan_key_member [OF v(2)])
  next
    case False
    let ?t = "join_on (CHR '','') (map (member_text rf) d)"
    have t: "join_on (CHR '','') (map (member_text rf) (kv # d)) = member_text rf (k, v) @ CHR '','' # ?t"
      using False kv by (simp add: join_on_Cons)
    have "token_start ?t"
      using False by (cases d) (auto simp: join_on_Cons token_start_def member_text_def json_string_def)
    moreover have "scan_value m (dump rf v @ CHR '','' # ?t @ CHR 125 # r) = Some (sort_value v, CHR '','' # ?t @ CHR 125 # r)"
      using reads_asD [OF v(1), of m] Cons.prems(3) n t len by simp
    moreover have "scan_members m (?t @ CHR 125 # r) = Some (map (\<lambda>(k, v). (k, sort_value v)) d, r)"
      using Cons.prems n t False by (intro Cons.IH) auto
    ultimately show ?thesis
      unfolding t n using scan_key_member [OF v(2), of rf k] kv by (simp add: skip_one skip_token)
  qed
qed simp

lemma scan_value_string: "scan_value (Suc n) (json_string t @ r) = Some (PStr t, r)"
  using scan_escaped [of t r] by (simp add: json_string_def)

lemma scan_word:
  "scan_value (Suc n) (''null'' @ r) = Some (PNone, r)" "scan_value (Suc n) (''true'' @ r) = Some (PBool True, r)"
  "scan_value (Suc n) (''false'' @ r) = Some (PBool False, r)"
  by (simp_all add: scan_atom_def literals_def)

lemma scan_value_int:
  "num_end r \<Longrightarrow> json_plain (PInt i) \<Longrightarrow> scan_value (Suc n) (int_str i @ r) = Some (PInt i, r)"
proof -
  assume r: "num_end r" "json_plain (PInt i)"
  obtain c d where cd: "int_str i = c # d" "digit_char c \<or> c = CHR ''-''"
    using int_str_start by blast
  with r digit_start [OF cd(2)] scan_atom_int [of r i] show ?thesis by simp
qed

lemma scan_value_list:
  assumes "\<forall>v\<in>set l. reads_as rf v \<and> json_plain v" "2 * length (dump rf (PList l)) \<le> Suc n"
  shows "scan_value (Suc n) (dump rf (PList l) @ r) = Some (PList (map sort_value l), r)"
proof (cases l)
  case (Cons v l')
  let ?t = "join_on (CHR '','') (map (dump rf) l)"
  have "token_start ?t"
    using Cons assms(1) dump_start [of v rf] by (auto simp: join_on_Cons token_start_def)
  moreover obtain c t' where "?t = c # t'" using calculation by (cases ?t) (auto simp: token_start_def)
  moreover have "scan_items n (?t @ CHR '']'' # r) = Some (map sort_value l, r)"
    using assms Cons by (intro scan_items_dump) auto
  ultimately show ?thesis using skip_token [of ?t "CHR '']'' # r"] by (simp add: token_start_def)
qed (simp add: skip_one)

lemma dict_text: "dump rf (PDict d) = CHR 123 # join_on (CHR '','') (map (member_text rf) (sort_key fst d)) @ [CHR 125]"
proof -
  have "map (\<lambda>(k, t). json_string k @ CHR '':'' # t) (sort_key fst (dump_members rf d)) = map (member_text rf) (sort_key fst d)"
    unfolding dump_members_map sort_pair by (simp add: member_text_def split_def comp_def)
  then show ?thesis by simp
qed

lemma sort_dict: "sort_value (PDict d) = PDict (map (\<lambda>(k, v). (k, sort_value v)) (sort_key fst d))"
  by (simp add: sort_members_map sort_pair)

lemma map_fst_pair: "map fst (map (\<lambda>(k, v). (k, g v)) d) = map fst d"
  by (induction d) auto

lemma sort_key_eq_Nil: "sort_key f d = [] \<longleftrightarrow> d = []"
  by (metis set_empty set_sort)

lemma distinct_sorted: "distinct (map fst d) \<Longrightarrow> distinct (map fst (sort_key fst d))"
  by (metis distinct_map distinct_sort set_sort)

lemma scan_value_dict:
  assumes "\<forall>(k, v)\<in>set d. reads_as rf v \<and> json_plain v" "distinct (map fst d)" "2 * length (dump rf (PDict d)) \<le> Suc n"
  shows "scan_value (Suc n) (dump rf (PDict d) @ r) = Some (sort_value (PDict d), r)"
proof (cases "d = []")
  case False
  let ?d = "sort_key fst d"
  let ?t = "join_on (CHR '','') (map (member_text rf) ?d)"
  have d: "?d \<noteq> []" using False sort_key_eq_Nil by blast
  then obtain t' where t: "?t = CHR 34 # t'"
    by (cases ?d) (auto simp: join_on_Cons member_text_def json_string_def)
  have "scan_members n (?t @ CHR 125 # r) = Some (map (\<lambda>(k, v). (k, sort_value v)) ?d, r)"
    using assms d unfolding dict_text by (intro scan_members_dump) auto
  moreover have "distinct (map fst (map (\<lambda>(k, v). (k, sort_value v)) ?d))"
    unfolding map_fst_pair by (rule distinct_sorted [OF assms(2)])
  ultimately show ?thesis unfolding dict_text sort_dict using t by (simp add: skip_one)
qed (simp add: skip_one)

lemma reads_asI:
  assumes "dump rf v \<noteq> []"
    and "\<And>n r. 2 * length (dump rf v) \<le> Suc n \<Longrightarrow> num_end r \<Longrightarrow> scan_value (Suc n) (dump rf v @ r) = Some (sort_value v, r)"
  shows "reads_as rf v"
  unfolding reads_as_def
proof (intro allI impI)
  fix n r assume n: "2 * length (dump rf v) \<le> n" and r: "num_end r"
  with assms(1) obtain m where "n = Suc m" by (cases n) auto
  then show "scan_value n (dump rf v @ r) = Some (sort_value v, r)" using assms(2) n r by blast
qed

lemma reads_as_plain: "json_plain v \<Longrightarrow> reads_as rf v"
proof (induction v)
  case (PList l)
  then have "\<forall>v\<in>set l. reads_as rf v \<and> json_plain v" by (simp add: plain_all_iff)
  then show ?case using scan_value_list [of l rf] by (intro reads_asI) (simp_all del: scan_value.simps)
next
  case (PDict d)
  then have "\<forall>(k, v)\<in>set d. reads_as rf v \<and> json_plain v" "distinct (map fst d)"
    by (auto simp: plain_members_iff)
  then show ?case
    using scan_value_dict [of d rf] by (intro reads_asI) (simp, blast)
next
  case (PStr t)
  show ?case by (rule reads_asI) (simp add: json_string_def, simp add: scan_value_string del: scan_value.simps)
next
  case (PInt i)
  then show ?case
    using int_str_start [of i] scan_value_int [of _ i] by (intro reads_asI) (auto simp del: scan_value.simps json_plain.simps)
next
  case PNone
  show ?case by (rule reads_asI) (simp, simp only: dump.simps sort_value.simps scan_word)
next
  case (PBool b)
  show ?case by (rule reads_asI) (simp, simp only: dump.simps sort_value.simps scan_word split: if_split, simp)
qed simp

lemma json_loads_dump:
  assumes "json_plain v" "utf8_ok (dump rf v)"
  shows "json_loads (dump rf v) = Some (sort_value v)"
proof -
  have "skip_blanks (dump rf v) = dump rf v"
    using skip_token [OF dump_start [OF assms(1), of rf], of "[]"] by simp
  moreover have "scan_value (2 * length (dump rf v) + 2) (dump rf v @ []) = Some (sort_value v, [])"
    by (rule reads_asD [OF reads_as_plain [OF assms(1)]]) simp_all
  ultimately show ?thesis using assms(2) by (simp add: json_loads_def skip_blanks_def)
qed

text \<open>Flat dictionaries: the order of keys is all that is lost.\<close>

fun flat :: "pyval \<Rightarrow> bool" where
  "flat (PDict d) = False"
| "flat (PList l) = list_all (\<lambda>v. \<exists>s. v = PStr s) l"
| "flat v = True"

lemma sort_flat: "flat v \<Longrightarrow> sort_value v = v"
proof (cases v)
  case (PList l)
  assume "flat v"
  with PList have "\<forall>x\<in>set l. sort_value x = x" by (auto simp: list_all_iff)
  then show ?thesis using PList by (simp add: map_idI)
qed auto

lemma sort_key_idem: "sort_key f (sort_key f d) = sort_key f d"
  by (simp add: sort_key_id_if_sorted)

lemma sort_flat_dict: "\<forall>(k, v)\<in>set d. flat v \<Longrightarrow> sort_value (PDict d) = PDict (sort_key fst d)"
  unfolding sort_dict by (force intro!: map_idI sort_flat)

lemma dump_sorted: "dump rf (PDict (sort_key fst d)) = dump rf (PDict d)"
  unfolding dict_text by (simp add: sort_key_idem)

fun ascii_value :: "pyval \<Rightarrow> bool" where
  "ascii_value (PStr s) = ascii_text s"
| "ascii_value (PList l) = list_all (\<lambda>v. case v of PStr s \<Rightarrow> ascii_text s | _ \<Rightarrow> False) l"
| "ascii_value (PInt i) = True"
| "ascii_value (PBool b) = True"
| "ascii_value _ = False"

lemma escape_ascii: "(of_char c :: nat) < 128 \<Longrightarrow> ascii_text (escape_char c)"
proof -
  assume c: "(of_char c :: nat) < 128"
  have "(of_char (hex_char n) :: nat) < 128" if "n < 16" for n
    using that by (auto simp: hex_char_def)
  then show ?thesis using c by (simp add: escape_char_def Let_def ascii_text_def byte_def)
qed

lemma json_string_ascii: "ascii_text s \<Longrightarrow> ascii_text (json_string s)"
proof -
  have "ascii_text s \<Longrightarrow> ascii_text (concat (map escape_char s))"
    by (induction s) (simp_all add: escape_ascii ascii_Cons)
  then show "ascii_text s \<Longrightarrow> ascii_text (json_string s)"
    by (simp add: json_string_def ascii_Cons)
qed

lemma join_ascii: "(of_char c :: nat) < 128 \<Longrightarrow> \<forall>s\<in>set l. ascii_text s \<Longrightarrow> ascii_text (join_on c l)"
  by (induction l rule: join_on.induct) (auto simp: ascii_Cons)

lemma int_str_ascii: "ascii_text (int_str i)"
  using nat_str_digits by (auto simp: int_str_def ascii_text_def list_all_iff digit_char_def dest: nat_str_digits)

lemma dump_ascii: "ascii_value v \<Longrightarrow> ascii_text (dump rf v)"
proof (induction v rule: ascii_value.induct)
  case (2 l)
  have "ascii_text (dump rf v)" if "v \<in> set l" for v
  proof -
    have "case v of PStr s \<Rightarrow> ascii_text s | _ \<Rightarrow> False" using that 2 by (simp add: list_all_iff)
    then show ?thesis by (cases v) (simp_all add: json_string_ascii)
  qed
  then have "\<forall>s\<in>set (map (dump rf) l). ascii_text s" by simp
  then show ?case using join_ascii [of "CHR '',''" "map (dump rf) l"] by (simp add: ascii_Cons)
qed (simp_all add: json_string_ascii int_str_ascii ascii_Cons)

lemma dump_dict_ascii:
  assumes "\<forall>(k, v)\<in>set d. ascii_text k \<and> ascii_value v"
  shows "ascii_text (dump rf (PDict d))"
proof -
  have "\<forall>s\<in>set (map (member_text rf) (sort_key fst d)). ascii_text s"
    using assms by (auto simp: member_text_def json_string_ascii dump_ascii ascii_Cons)
  then show ?thesis
    unfolding dict_text using join_ascii [of "CHR '',''"] by (simp add: ascii_Cons)
qed

text \<open>No control character is written.\<close>

definition printable :: "string \<Rightarrow> bool" where
  "printable s \<longleftrightarrow> list_all (\<lambda>c. 32 \<le> byte c) s"

lemma printable_simps [simp]:
  "printable []" "printable (c # s) \<longleftrightarrow> 32 \<le> byte c \<and> printable s" "printable (s @ t) \<longleftrightarrow> printable s \<and> printable t"
  by (simp_all add: printable_def)

lemma printable_marks [simp]:
  "32 \<le> byte (CHR '','')" "32 \<le> byte (CHR ''['')" "32 \<le> byte (CHR '']'')" "32 \<le> byte (CHR 123)" "32 \<le> byte (CHR 125)"
  "32 \<le> byte (CHR '':'')" "32 \<le> byte (CHR 34)"
  by (simp_all add: byte_def)

lemma json_string_printable: "printable (json_string s)"
proof -
  have "32 \<le> byte (hex_char n)" if "n < 16" for n
    using that by (auto simp: hex_char_def byte_def)
  then have "printable (escape_char c)" for c by (auto simp: escape_char_def Let_def byte_def)
  then have "printable (concat (map escape_char s))" by (induction s) auto
  then show ?thesis by (simp add: json_string_def)
qed

lemma join_printable: "32 \<le> byte c \<Longrightarrow> \<forall>s\<in>set l. printable s \<Longrightarrow> printable (join_on c l)"
  by (induction l rule: join_on.induct) auto

lemma int_str_printable: "printable (int_str i)"
proof -
  have "printable (nat_str n)" for n
    using nat_str_digits by (auto simp: printable_def list_all_iff digit_char_def byte_def dest!: nat_str_digits)
  then show ?thesis by (simp add: int_str_def byte_def)
qed

lemma dump_printable: "ascii_value v \<Longrightarrow> printable (dump rf v)"
proof (induction v rule: ascii_value.induct)
  case (2 l)
  have "printable (dump rf v)" if "v \<in> set l" for v
  proof -
    have "case v of PStr s \<Rightarrow> ascii_text s | _ \<Rightarrow> False" using that 2 by (simp add: list_all_iff)
    then show ?thesis by (cases v) (simp_all add: json_string_printable)
  qed
  then show ?case using join_printable [of "CHR '',''" "map (dump rf) l"] by simp
qed (simp_all add: json_string_printable int_str_printable, simp_all add: byte_def)

lemma dump_dict_printable:
  assumes "\<forall>(k, v)\<in>set d. ascii_value v"
  shows "printable (dump rf (PDict d))"
proof -
  have "\<forall>s\<in>set (map (member_text rf) (sort_key fst d)). printable s"
    using assms by (auto simp: member_text_def json_string_printable dump_printable)
  then show ?thesis unfolding dict_text using join_printable [of "CHR '',''"] by simp
qed

text \<open>A parsed dictionary has distinct keys.\<close>

lemma scan_number_not_dict: "scan_number s \<noteq> Some (PDict d, r)"
  by (auto simp: scan_number_def Let_def split: prod.splits if_splits)

lemma scan_atom_not_dict: "scan_atom s \<noteq> Some (PDict d, r)"
  using scan_number_not_dict [of s d r] unfolding scan_atom_def
  by (auto simp: literals_def split: option.splits if_splits)

lemma json_loads_distinct: "json_loads s = Some (PDict d) \<Longrightarrow> distinct (map fst d)"
proof -
  assume "json_loads s = Some (PDict d)"
  then obtain n t r where "scan_value (Suc n) t = Some (PDict d, r)"
    by (auto simp: json_loads_def simp del: scan_value.simps split: if_splits option.splits prod.splits)
  then show ?thesis
    by (auto simp: scan_atom_not_dict split: list.splits if_splits option.splits)
qed

end
