(* ===== verification/Deletion_Tombstone.thy ===== *)
theory Deletion_Tombstone
  imports Py_Json
begin

text \<open>
  \<open>evelyn_core/memory_deletion_journal.py\<close>, its data: the identities a deletion event may carry,
  time stamps, and the strict checks of a version 1 tombstone (which callers pass in and which
  old files hold) and of a version 2 event (which the chain holds).

  A text is its UTF-8 bytes (see \<open>Py_Json\<close>). The record \<open>ledger_fns\<close> holds what is not code of
  the program: SHA-256 of bytes as hexadecimal digits, HMAC-SHA-256 under a key, and the text of
  a finite float. \<open>Integrity\<close> and \<open>Busy\<close> are the module's two exceptions; \<open>Escaped\<close> is any other
  exception that the code does not catch. \<open>str.lower\<close> is only compared with ASCII names, so it
  is \<open>low\<close>.
\<close>

record ledger_fns =
  sha :: "string \<Rightarrow> string"
  hmac :: "string \<Rightarrow> string \<Rightarrow> string"
  float_text :: "real \<Rightarrow> string"

datatype ledger_error = Integrity | Busy | Escaped py_exn | Unsettled

type_synonym fields = "(string \<times> pyval) list"

definition need :: "bool \<Rightarrow> ledger_error + unit" where
  "need b = (if b then Inr () else Inl Integrity)"

lemma need_simps [simp]: "need b = Inr u \<longleftrightarrow> b" "need True = Inr ()" "need False = Inl Integrity"
  by (simp_all add: need_def)

definition canonical :: "ledger_fns \<Rightarrow> fields \<Rightarrow> string" where
  "canonical e d = dump (float_text e) (PDict d)"

section \<open>Schemas and key sets\<close>

definition v1_schema :: string where "v1_schema = ''memory.deletion.tombstone.v1''"

definition v2_schema :: string where "v2_schema = ''memory.deletion.tombstone.v2''"

definition v1_keys :: "string list" where
  "v1_keys = [''schema'', ''noteId'', ''noteType'', ''sourceType'', ''reason'', ''deletedAt'']"

definition v2_keys :: "string list" where
  "v2_keys = v1_keys @ [''contentFree'', ''sequence'', ''previousHash'', ''eventHash'']"

definition revocation_keys :: "string list" where
  "revocation_keys = [''revokedByNoteIds'']"

definition allowed_note_types :: "string list" where
  "allowed_note_types =
     [''concept'', ''core'', ''daily'', ''episode'', ''internal'', ''legacy'', ''procedure'', ''project'', ''unknown'']"

definition allowed_source_types :: "string list" where
  "allowed_source_types = [''conversation'', ''derived'', ''legacy'', ''runtime'', ''system'', ''unknown'', ''user'']"

definition allowed_reasons :: "string list" where
  "allowed_reasons =
     [''user_requested'', ''incorrect_memory'', ''privacy_request'', ''obsolete_memory'', ''test_cleanup'',
      ''source_revoked'', ''guild_reset'']"

definition note_type_aliases :: "(string \<times> string) list" where
  "note_type_aliases =
     [(''concept'', ''concept''), (''concepts'', ''concept''), (''semantic'', ''concept''), (''core'', ''core''),
      (''daily'', ''daily''), (''episode'', ''episode''), (''episodes'', ''episode''), (''procedure'', ''procedure''),
      (''procedural'', ''procedure''), (''procedures'', ''procedure''), (''project'', ''project''),
      (''projects'', ''project''), (''internal'', ''internal''), (''system'', ''internal''), (''debug'', ''internal''),
      (''runtime'', ''internal''), (''tool'', ''internal''), (''legacy'', ''legacy''), (''unknown'', ''unknown'')]"

definition source_type_aliases :: "(string \<times> string) list" where
  "source_type_aliases =
     [(''conversation'', ''conversation''), (''conversation-turn-log'', ''conversation''),
      (''daily-turn-log'', ''conversation''), (''derived'', ''derived''), (''legacy'', ''legacy''),
      (''runtime'', ''runtime''), (''system'', ''system''), (''unknown'', ''unknown''), (''user'', ''user'')]"

section \<open>Hashes, time stamps, texts\<close>

definition hex_digit :: "char \<Rightarrow> bool" where
  "hex_digit c \<longleftrightarrow> c \<in> set ''0123456789abcdef''"

definition hex_run :: "nat \<Rightarrow> string \<Rightarrow> bool" where
  "hex_run n s \<longleftrightarrow> length s = n \<and> list_all hex_digit s"

definition genesis :: string where
  "genesis = replicate 64 (CHR ''0'')"

text \<open>The text of a valid hash, and the empty text for anything else.\<close>

definition valid_hash :: "pyval \<Rightarrow> string" where
  "valid_hash v = (case v of PStr s \<Rightarrow> if hex_run 64 s then s else [] | _ \<Rightarrow> [])"

definition leap_year :: "nat \<Rightarrow> bool" where
  "leap_year y \<longleftrightarrow> y mod 4 = 0 \<and> (y mod 100 \<noteq> 0 \<or> y mod 400 = 0)"

definition month_days :: "nat \<Rightarrow> nat \<Rightarrow> nat" where
  "month_days y m = (if m = 2 then (if leap_year y then 29 else 28) else if m \<in> {4, 6, 9, 11} then 30 else 31)"

definition calendar_day :: "nat \<Rightarrow> nat \<Rightarrow> nat \<Rightarrow> bool" where
  "calendar_day y m d \<longleftrightarrow> 1 \<le> y \<and> 1 \<le> m \<and> m \<le> 12 \<and> 1 \<le> d \<and> d \<le> month_days y m"

definition digits_at :: "string \<Rightarrow> nat \<Rightarrow> nat \<Rightarrow> bool" where
  "digits_at s i n \<longleftrightarrow> list_all digit_char (take n (drop i s))"

definition number_at :: "string \<Rightarrow> nat \<Rightarrow> nat \<Rightarrow> nat" where
  "number_at s i n = nat_of_str (take n (drop i s))"

text \<open>
  \<open>time.strptime(value, "%Y-%m-%dT%H:%M:%SZ")\<close> on twenty characters: every field is two digits
  wide then, the day may have a space for its first digit, the letters match in either case, and
  seconds go up to 61. Digits are ASCII here; the library also takes other decimal digits.
\<close>

definition timestamp_text :: "string \<Rightarrow> bool" where
  "timestamp_text s \<longleftrightarrow>
     length s = 20 \<and> digits_at s 0 4 \<and> s ! 4 = CHR ''-'' \<and> digits_at s 5 2 \<and> s ! 7 = CHR ''-'' \<and>
     (digits_at s 8 2 \<or> s ! 8 = CHR '' '' \<and> digits_at s 9 1) \<and> low (s ! 10) = CHR ''t'' \<and>
     digits_at s 11 2 \<and> s ! 13 = CHR '':'' \<and> digits_at s 14 2 \<and> s ! 16 = CHR '':'' \<and> digits_at s 17 2 \<and>
     low (s ! 19) = CHR ''z'' \<and>
     calendar_day (number_at s 0 4) (number_at s 5 2)
       (if s ! 8 = CHR '' '' then number_at s 9 1 else number_at s 8 2) \<and>
     number_at s 11 2 \<le> 23 \<and> number_at s 14 2 \<le> 59 \<and> number_at s 17 2 \<le> 61"

definition valid_timestamp :: "pyval \<Rightarrow> bool" where
  "valid_timestamp v = (case v of PStr s \<Rightarrow> timestamp_text s | _ \<Rightarrow> False)"

text \<open>The characters \<open>str.strip\<close> removes.\<close>

definition unicode_blanks :: "string list" where
  "unicode_blanks =
     map utf8_of ([9, 10, 11, 12, 13, 28, 29, 30, 31, 32, 133, 160, 5760] @ [8192..<8203] @ [8232, 8233, 8239, 8287, 12288])"

definition stripped :: "string \<Rightarrow> bool" where
  "stripped s \<longleftrightarrow> \<not> list_ex (\<lambda>w. take (length w) s = w \<or> drop (length s - length w) s = w) unicode_blanks"

definition valid_text :: "nat \<Rightarrow> pyval \<Rightarrow> bool" where
  "valid_text maximum v =
     (case v of PStr s \<Rightarrow> 1 \<le> char_count s \<and> char_count s \<le> maximum \<and> stripped s \<and> list_all (\<lambda>c. 32 \<le> byte c) s
      | _ \<Rightarrow> False)"

section \<open>Note identities\<close>

definition after :: "string \<Rightarrow> string \<Rightarrow> string option" where
  "after p s = (if take (length p) s = p then Some (drop (length p) s) else None)"

definition plain_number :: "string \<Rightarrow> bool" where
  "plain_number s \<longleftrightarrow> s = ''0'' \<or> s \<noteq> [] \<and> list_all digit_char s \<and> hd s \<noteq> CHR ''0''"

definition date_text :: "string \<Rightarrow> bool" where
  "date_text s \<longleftrightarrow> length s = 10 \<and> digits_at s 0 4 \<and> s ! 4 = CHR ''-'' \<and> digits_at s 5 2 \<and> s ! 7 = CHR ''-'' \<and> digits_at s 8 2"

definition continuation :: "string \<Rightarrow> bool" where
  "continuation s \<longleftrightarrow> s = [] \<or> (case after ''-continuation-'' s of Some n \<Rightarrow> plain_number n | None \<Rightarrow> False)"

definition id_types :: "string list" where
  "id_types = [''core'', ''daily'', ''episode'', ''concept'', ''procedure'', ''project'', ''internal'', ''legacy'', ''unknown'']"

text \<open>The alternatives of \<open>_NATIVE_NOTE_ID\<close>.\<close>

definition native_pattern :: "string \<Rightarrow> bool" where
  "native_pattern s \<longleftrightarrow>
     hex_run 16 s
     \<or> list_ex (\<lambda>t. case after (t @ ''-'') s of Some r \<Rightarrow> hex_run 16 r | None \<Rightarrow> False) id_types
     \<or> (case after ''daily-'' s of Some r \<Rightarrow> date_text (take 10 r) \<and> continuation (drop 10 r) | None \<Rightarrow> False)
     \<or> (case after ''daily-consolidation-'' s of Some r \<Rightarrow> date_text r | None \<Rightarrow> False)
     \<or> (case after ''legacy-guild-'' s of Some n \<Rightarrow> plain_number n | None \<Rightarrow> False)"

definition date_part :: "string \<Rightarrow> string option" where
  "date_part s =
     (case after ''daily-'' s of None \<Rightarrow> None
      | Some r \<Rightarrow>
          let r' = (case after ''consolidation-'' r of Some x \<Rightarrow> x | None \<Rightarrow> r)
          in if date_text (take 10 r') \<and> continuation (drop 10 r') then Some (take 10 r') else None)"

definition native_note_id :: "string \<Rightarrow> bool" where
  "native_note_id s \<longleftrightarrow>
     native_pattern s \<and>
     (case date_part s of None \<Rightarrow> True | Some d \<Rightarrow> calendar_day (number_at d 0 4) (number_at d 5 2) (number_at d 8 2))"

definition opaque_prefix :: string where
  "opaque_prefix = ''opaque-''"

definition opaque_domain :: string where
  "opaque_domain = ''evelyn.memory.deletion.note-id.v1'' @ [CHR 10]"

definition ledger_note_id :: "ledger_fns \<Rightarrow> pyval \<Rightarrow> ledger_error + string" where
  "ledger_note_id e v =
     (case v of
        PStr s \<Rightarrow>
          if \<not> valid_text 512 v then Inl Integrity
          else if native_note_id s then Inr s
          else (case encode s of Inl x \<Rightarrow> Inl (Escaped x) | Inr b \<Rightarrow> Inr (opaque_prefix @ sha e (opaque_domain @ b)))
      | _ \<Rightarrow> Inl Integrity)"

definition ledger_pattern :: "string \<Rightarrow> bool" where
  "ledger_pattern s \<longleftrightarrow>
     native_pattern s \<or> (case after opaque_prefix s of Some r \<Rightarrow> hex_run 64 r | None \<Rightarrow> False)"

definition note_id_is_canonical :: "pyval \<Rightarrow> bool" where
  "note_id_is_canonical v =
     (case v of
        PStr s \<Rightarrow> ledger_pattern s \<and> (after opaque_prefix s \<noteq> None \<or> native_note_id s)
      | _ \<Rightarrow> False)"

definition normalize_type :: "(string \<times> string) list \<Rightarrow> pyval \<Rightarrow> ledger_error + string" where
  "normalize_type aliases v =
     (case v of
        PStr s \<Rightarrow>
          if valid_text 128 v
          then Inr (case map_of aliases (map low s) of Some t \<Rightarrow> t | None \<Rightarrow> ''unknown'')
          else Inl Integrity
      | _ \<Rightarrow> Inl Integrity)"

definition normalize_note_type :: "pyval \<Rightarrow> ledger_error + string" where
  "normalize_note_type = normalize_type note_type_aliases"

definition normalize_source_type :: "pyval \<Rightarrow> ledger_error + string" where
  "normalize_source_type = normalize_type source_type_aliases"

section \<open>Tombstones\<close>

text \<open>\<open>value in frozenset(\<dots>)\<close> hashes the value first.\<close>

fun hashable :: "pyval \<Rightarrow> bool" where
  "hashable (PList l) = False"
| "hashable (PDict d) = False"
| "hashable v = True"

definition need_in :: "pyval \<Rightarrow> string list \<Rightarrow> ledger_error + unit" where
  "need_in v ns = (if hashable v then need (v \<in> PStr ` set ns) else Inl (Escaped Type_Error))"

definition is_revocation :: "fields \<Rightarrow> bool" where
  "is_revocation d \<longleftrightarrow> py_get d ''reason'' = PStr ''source_revoked''"

definition has_keys :: "fields \<Rightarrow> string list \<Rightarrow> bool" where
  "has_keys d ks \<longleftrightarrow> set (map fst d) = set (if is_revocation d then ks @ revocation_keys else ks)"

fun ascending :: "pyval list \<Rightarrow> bool" where
  "ascending (PStr a # PStr b # l) = (a < b \<and> ascending (PStr b # l))"
| "ascending _ = True"

definition id_list :: "(pyval \<Rightarrow> bool) \<Rightarrow> pyval \<Rightarrow> bool" where
  "id_list ok v =
     (case v of PList l \<Rightarrow> 1 \<le> length l \<and> length l \<le> 12 \<and> list_all ok l \<and> ascending l | _ \<Rightarrow> False)"

fun ledger_note_ids :: "ledger_fns \<Rightarrow> pyval list \<Rightarrow> ledger_error + string list" where
  "ledger_note_ids e [] = Inr []"
| "ledger_note_ids e (v # l) =
     bind_r (ledger_note_id e v) (\<lambda>i. bind_r (ledger_note_ids e l) (\<lambda>is. Inr (i # is)))"

definition revoked_ids :: "ledger_fns \<Rightarrow> pyval \<Rightarrow> ledger_error + string list" where
  "revoked_ids e v =
     bind_r (need (id_list (valid_text 512) v)) (\<lambda>_.
       (case v of PList l \<Rightarrow> bind_r (ledger_note_ids e l) (\<lambda>is. Inr (sort (remdups is))) | _ \<Rightarrow> Inl Integrity))"

definition canonicalize :: "ledger_fns \<Rightarrow> pyval \<Rightarrow> ledger_error + fields" where
  "canonicalize e v =
     (case v of
        PDict d \<Rightarrow>
          bind_r (need (has_keys d v1_keys \<and> py_get d ''schema'' = PStr v1_schema)) (\<lambda>_.
          bind_r (need_in (py_get d ''reason'') allowed_reasons) (\<lambda>_.
          bind_r (need (valid_timestamp (py_get d ''deletedAt''))) (\<lambda>_.
          bind_r (ledger_note_id e (py_get d ''noteId'')) (\<lambda>i.
          bind_r (normalize_note_type (py_get d ''noteType'')) (\<lambda>nt.
          bind_r (normalize_source_type (py_get d ''sourceType'')) (\<lambda>st.
          bind_r (if is_revocation d
                  then bind_r (revoked_ids e (py_get d ''revokedByNoteIds'')) (\<lambda>is.
                         Inr [(''revokedByNoteIds'', PList (map PStr is))])
                  else Inr []) (\<lambda>rest.
          Inr ([(''schema'', PStr v1_schema), (''noteId'', PStr i), (''noteType'', PStr nt), (''sourceType'', PStr st),
                (''reason'', py_get d ''reason''), (''deletedAt'', py_get d ''deletedAt'')] @ rest))))))))
      | _ \<Rightarrow> Inl Integrity)"

definition valid_sequence :: "int \<Rightarrow> pyval \<Rightarrow> bool" where
  "valid_sequence least v = (case v of PInt n \<Rightarrow> n \<ge> least | _ \<Rightarrow> False)"

definition validate_v2 :: "pyval \<Rightarrow> ledger_error + fields" where
  "validate_v2 v =
     (case v of
        PDict d \<Rightarrow>
          bind_r (need (has_keys d v2_keys \<and> py_get d ''schema'' = PStr v2_schema \<and>
                        note_id_is_canonical (py_get d ''noteId''))) (\<lambda>_.
          bind_r (need_in (py_get d ''noteType'') allowed_note_types) (\<lambda>_.
          bind_r (need_in (py_get d ''sourceType'') allowed_source_types) (\<lambda>_.
          bind_r (need_in (py_get d ''reason'') allowed_reasons) (\<lambda>_.
          bind_r (need (valid_timestamp (py_get d ''deletedAt''))) (\<lambda>_.
          bind_r (need (is_revocation d \<longrightarrow> id_list note_id_is_canonical (py_get d ''revokedByNoteIds''))) (\<lambda>_.
          bind_r (need (py_get d ''contentFree'' = PBool True \<and> valid_sequence 1 (py_get d ''sequence'') \<and>
                        valid_hash (py_get d ''previousHash'') \<noteq> [] \<and> valid_hash (py_get d ''eventHash'') \<noteq> [])) (\<lambda>_.
          Inr d)))))))
      | _ \<Rightarrow> Inl Integrity)"

text \<open>The event appended for a canonical tombstone.\<close>

definition event_hash :: "ledger_fns \<Rightarrow> fields \<Rightarrow> string" where
  "event_hash e d = sha e (canonical e (filter (\<lambda>p. fst p \<noteq> ''eventHash'') d))"

definition unsigned_event :: "fields \<Rightarrow> int \<Rightarrow> string \<Rightarrow> fields" where
  "unsigned_event d n prev =
     dict_set ''schema'' (PStr v2_schema) d @
       [(''contentFree'', PBool True), (''sequence'', PInt n), (''previousHash'', PStr prev)]"

definition build_event :: "ledger_fns \<Rightarrow> fields \<Rightarrow> int \<Rightarrow> string \<Rightarrow> fields" where
  "build_event e d n prev =
     (let u = unsigned_event d n prev in u @ [(''eventHash'', PStr (event_hash e u))])"

end
