(* ===== verification/Deletion_Event.thy ===== *)
theory Deletion_Event
  imports Deletion_Tombstone "HOL-Library.Multiset"
begin

text \<open>
  Lemmas on tombstones and events: the canonical form of a tombstone, the event built from it,
  which the reader of the chain accepts again, and bounds on the length of its text.
\<close>

section \<open>Laws of the parameters\<close>

definition hashes_ok :: "ledger_fns \<Rightarrow> bool" where
  "hashes_ok e \<longleftrightarrow> (\<forall>s. hex_run 64 (sha e s)) \<and> (\<forall>k s. hex_run 64 (hmac e k s))"

lemma sha_hex [simp]: "hashes_ok e \<Longrightarrow> hex_run 64 (sha e s)"
  by (simp add: hashes_ok_def)

lemma hmac_hex [simp]: "hashes_ok e \<Longrightarrow> hex_run 64 (hmac e k s)"
  by (simp add: hashes_ok_def)

lemma hex_run_not_Nil [simp]: "hex_run 64 s \<Longrightarrow> s \<noteq> []"
  by (auto simp: hex_run_def)

lemma valid_hash_hex [simp]: "hex_run 64 s \<Longrightarrow> valid_hash (PStr s) = s"
  by (simp add: valid_hash_def)

lemma valid_hash_ne: "valid_hash v \<noteq> [] \<longleftrightarrow> (\<exists>s. v = PStr s \<and> hex_run 64 s)"
  by (cases v) (auto simp: valid_hash_def)

section \<open>Characters\<close>

definition plain_char :: "char \<Rightarrow> bool" where
  "plain_char c \<longleftrightarrow> 32 \<le> byte c \<and> byte c < 128 \<and> byte c \<noteq> 34 \<and> byte c \<noteq> 92"

definition id_char :: "char \<Rightarrow> bool" where
  "id_char c \<longleftrightarrow> byte c = 45 \<or> 48 \<le> byte c \<and> byte c \<le> 57 \<or> 97 \<le> byte c \<and> byte c \<le> 122"

lemma id_char_plain: "id_char c \<Longrightarrow> plain_char c"
  by (auto simp: id_char_def plain_char_def)

lemma hex_digit_id: "hex_digit c \<Longrightarrow> id_char c"
  by (auto simp: hex_digit_def id_char_def byte_def)

lemma digit_id: "digit_char c \<Longrightarrow> id_char c"
  by (simp add: digit_char_def id_char_def byte_def)

lemma dash_id: "id_char (CHR ''-'')"
  by (simp add: id_char_def byte_def)

lemma digits_atD:
  assumes "digits_at s i n" "i \<le> j" "j < i + n" "j < length s"
  shows "digit_char (s ! j)"
proof -
  have "take n (drop i s) ! (j - i) = s ! j" "j - i < length (take n (drop i s))" using assms(2-4) by auto
  then show ?thesis using assms(1) unfolding digits_at_def list_all_length by metis
qed

lemma low_byte: "low c = x \<Longrightarrow> byte c = byte x \<or> 65 \<le> byte c \<and> byte c \<le> 90"
  by (cases "65 \<le> byte c \<and> byte c \<le> 90") (auto simp: low_def Let_def byte_def)

lemma plain_ascii: "list_all plain_char s \<Longrightarrow> ascii_text s"
  by (auto simp: ascii_text_def list_all_iff plain_char_def byte_def)

lemma escape_plain: "plain_char c \<Longrightarrow> escape_char c = [c]"
  by (auto simp: plain_char_def escape_char_def Let_def)

lemma json_string_plain: "list_all plain_char s \<Longrightarrow> length (json_string s) = length s + 2"
proof -
  assume "list_all plain_char s"
  then have "concat (map escape_char s) = s" by (induction s) (auto simp: escape_plain)
  then show ?thesis by (simp add: json_string_def)
qed

lemma list_all_mono2: "list_all P s \<Longrightarrow> (\<And>c. P c \<Longrightarrow> Q c) \<Longrightarrow> list_all Q s"
  by (auto simp: list_all_iff)

lemma after_Some: "after p s = Some r \<longleftrightarrow> s = p @ r"
proof
  assume "after p s = Some r"
  then have "take (length p) s = p" "drop (length p) s = r" by (auto simp: after_def split: if_splits)
  then show "s = p @ r" using append_take_drop_id [of "length p" s] by simp
qed (simp add: after_def)

lemma hex_run_ids: "hex_run n s \<Longrightarrow> list_all id_char s"
  by (auto simp: hex_run_def intro: list_all_mono2 hex_digit_id)

lemma plain_number_ids: "plain_number s \<Longrightarrow> list_all id_char s"
proof -
  have "list_all digit_char s \<Longrightarrow> list_all id_char s"
    by (erule list_all_mono2) (rule digit_id)
  then show "plain_number s \<Longrightarrow> list_all id_char s" by (auto simp: plain_number_def id_char_def byte_def)
qed

lemma date_ids: "date_text s \<Longrightarrow> list_all id_char s"
  unfolding list_all_length
proof (intro allI impI)
  fix k assume d: "date_text s" and "k < length s"
  then have k: "k < 10" "k < length s" by (simp_all add: date_text_def)
  consider "k < 4" | "k = 4" | "5 \<le> k" "k < 7" | "k = 7" | "8 \<le> k" using k by linarith
  then show "id_char (s ! k)"
    using d k digits_atD [of s 0 4 k] digits_atD [of s 5 2 k] digits_atD [of s 8 2 k]
    by cases (auto simp: date_text_def digit_id dash_id)
qed

lemma continuation_ids: "continuation s \<Longrightarrow> list_all id_char s"
proof -
  assume "continuation s"
  then consider "s = []" | n where "s = ''-continuation-'' @ n" "plain_number n"
    by (auto simp: continuation_def after_Some split: option.splits)
  then show ?thesis
    by cases (use plain_number_ids in \<open>simp_all add: id_char_def byte_def\<close>)
qed

lemma native_ids: "native_pattern s \<Longrightarrow> list_all id_char s"
proof -
  assume "native_pattern s"
  then consider "hex_run 16 s" | t r where "t \<in> set id_types" "s = (t @ ''-'') @ r" "hex_run 16 r"
    | r where "s = ''daily-'' @ r" "date_text (take 10 r)" "continuation (drop 10 r)"
    | r where "s = ''daily-consolidation-'' @ r" "date_text r"
    | n where "s = ''legacy-guild-'' @ n" "plain_number n"
    unfolding native_pattern_def list_ex_iff by (auto simp: after_Some split: option.splits)
  then show ?thesis
  proof cases
    case 2
    have "\<forall>t\<in>set id_types. list_all id_char t" "id_char (CHR ''-'')"
      by (simp_all add: id_types_def id_char_def byte_def)
    with 2 hex_run_ids show ?thesis by simp
  next
    case 3
    have "list_all id_char (take 10 r @ drop 10 r)"
      using 3 date_ids continuation_ids by (simp only: list_all_append)
    with 3 show ?thesis by (simp add: id_char_def byte_def)
  qed (use hex_run_ids date_ids plain_number_ids in \<open>simp_all add: id_char_def byte_def\<close>)
qed

lemma canonical_id_chars: "note_id_is_canonical (PStr s) \<Longrightarrow> list_all id_char s"
proof -
  assume "note_id_is_canonical (PStr s)"
  then consider "native_pattern s" | r where "s = opaque_prefix @ r" "hex_run 64 r"
    by (auto simp: note_id_is_canonical_def ledger_pattern_def after_Some split: option.splits)
  then show ?thesis
    by cases (use native_ids hex_run_ids in \<open>simp_all add: opaque_prefix_def id_char_def byte_def\<close>)
qed

lemma timestamp_plain: "timestamp_text s \<Longrightarrow> list_all plain_char s \<and> length s = 20"
proof
  assume t: "timestamp_text s"
  then show len: "length s = 20" by (simp add: timestamp_text_def)
  have dig: "digit_char c \<Longrightarrow> plain_char c" for c using digit_id id_char_plain by blast
  have "low c = CHR ''t'' \<or> low c = CHR ''z'' \<Longrightarrow> plain_char c" for c
    using low_byte [of c "CHR ''t''"] low_byte [of c "CHR ''z''"] by (auto simp: plain_char_def byte_def)
  note p = dig this
  have q: "plain_char (CHR ''-'')" "plain_char (CHR '':'')" "plain_char (CHR '' '')"
    by (simp_all add: plain_char_def byte_def)
  show "list_all plain_char s" unfolding list_all_length
  proof (intro allI impI)
    fix k assume "k < length s"
    then have k: "k < 20" "k < length s" using len by simp_all
    consider "k < 4" | "5 \<le> k" "k < 7" | "8 \<le> k" "k < 10" | "11 \<le> k" "k < 13" | "14 \<le> k" "k < 16" | "17 \<le> k" "k < 19"
      | "k \<in> {4, 7, 10, 13, 16, 19}" using k by fastforce
    then show "plain_char (s ! k)"
    proof cases
      case 3
      have eight: "plain_char (s ! k)" if "s ! 8 = CHR '' ''" "digits_at s 9 1"
        using that digits_atD [of s 9 1 k] 3 k p(1) q(3) by (cases "k = 8") auto
      then show ?thesis using t 3 k p digits_atD [of s 8 2 k] by (auto simp: timestamp_text_def)
    next
      case 7
      then show ?thesis using t p(2) q by (auto simp: timestamp_text_def)
    qed (use t k p(1) digits_atD [of s 0 4 k] digits_atD [of s 5 2 k] digits_atD [of s 11 2 k]
        digits_atD [of s 14 2 k] digits_atD [of s 17 2 k] in \<open>simp_all add: timestamp_text_def\<close>)
  qed
qed

section \<open>Canonical tombstones\<close>

definition id_ok :: "string \<Rightarrow> bool" where
  "id_ok i \<longleftrightarrow> note_id_is_canonical (PStr i) \<and> length i \<le> 512"

definition tombstone :: "string \<Rightarrow> string \<Rightarrow> string \<Rightarrow> string \<Rightarrow> string \<Rightarrow> string list \<Rightarrow> fields" where
  "tombstone i nt st r t is =
     [(''schema'', PStr v1_schema), (''noteId'', PStr i), (''noteType'', PStr nt), (''sourceType'', PStr st),
      (''reason'', PStr r), (''deletedAt'', PStr t)]
     @ (if r = ''source_revoked'' then [(''revokedByNoteIds'', PList (map PStr is))] else [])"

definition tombstone_wf :: "string \<Rightarrow> string \<Rightarrow> string \<Rightarrow> string \<Rightarrow> string \<Rightarrow> string list \<Rightarrow> bool" where
  "tombstone_wf i nt st r t is \<longleftrightarrow>
     id_ok i \<and> nt \<in> set allowed_note_types \<and> st \<in> set allowed_source_types \<and> r \<in> set allowed_reasons \<and> timestamp_text t \<and>
     (r = ''source_revoked'' \<longrightarrow> 1 \<le> length is \<and> length is \<le> 12 \<and> (\<forall>j\<in>set is. id_ok j) \<and> sorted_wrt (<) is)"

lemma ledger_note_id_ok: "hashes_ok e \<Longrightarrow> ledger_note_id e v = Inr i \<Longrightarrow> id_ok i"
proof (cases v)
  case (PStr s)
  assume h: "hashes_ok e" and i: "ledger_note_id e v = Inr i"
  show ?thesis
  proof (cases "native_note_id s")
    case True
    have "char_count s \<le> 512" using i PStr True by (auto simp: ledger_note_id_def valid_text_def split: if_splits)
    moreover have "ascii_text s"
      using True native_ids [of s] plain_ascii [of s] id_char_plain unfolding native_note_id_def
      by (metis list_all_mono2)
    ultimately have "length s \<le> 512" by (simp add: char_count_ascii)
    moreover have "i = s" using i PStr True by (auto simp: ledger_note_id_def split: if_splits)
    ultimately show ?thesis
      using True by (simp add: id_ok_def note_id_is_canonical_def ledger_pattern_def native_note_id_def)
  next
    case False
    then obtain b where b: "i = opaque_prefix @ sha e (opaque_domain @ b)"
      using i PStr by (auto simp: ledger_note_id_def split: if_splits sum.splits)
    then have "after opaque_prefix i = Some (sha e (opaque_domain @ b))" by (simp add: after_Some)
    moreover have "length (sha e (opaque_domain @ b)) = 64" using sha_hex [OF h] by (simp add: hex_run_def)
    ultimately show ?thesis
      using b sha_hex [OF h] by (simp add: id_ok_def note_id_is_canonical_def ledger_pattern_def opaque_prefix_def)
  qed
qed (simp_all add: ledger_note_id_def)

lemma ledger_note_ids_ok:
  "hashes_ok e \<Longrightarrow> ledger_note_ids e l = Inr is \<Longrightarrow> length is = length l \<and> (\<forall>j\<in>set is. id_ok j)"
  by (induction l arbitrary: "is") (auto simp: bind_r_Inr ledger_note_id_ok)

lemma normalize_type_range: "normalize_type al v = Inr t \<Longrightarrow> t \<in> insert ''unknown'' (snd ` set al)"
  by (cases v) (force simp: normalize_type_def split: if_splits option.splits dest: map_of_SomeD)+

lemma note_type_allowed: "normalize_note_type v = Inr t \<Longrightarrow> t \<in> set allowed_note_types"
  using normalize_type_range [of note_type_aliases v t]
  by (auto simp: normalize_note_type_def note_type_aliases_def allowed_note_types_def)

lemma source_type_allowed: "normalize_source_type v = Inr t \<Longrightarrow> t \<in> set allowed_source_types"
  using normalize_type_range [of source_type_aliases v t]
  by (auto simp: normalize_source_type_def source_type_aliases_def allowed_source_types_def)

lemma need_in_Inr [simp]: "need_in v ns = Inr u \<longleftrightarrow> (\<exists>s. v = PStr s \<and> s \<in> set ns)"
  by (cases v) (auto simp: need_in_def image_iff)

lemma revoked_ids_ok:
  assumes "hashes_ok e" "revoked_ids e v = Inr is"
  shows "1 \<le> length is \<and> length is \<le> 12 \<and> (\<forall>j\<in>set is. id_ok j) \<and> sorted_wrt (<) is"
proof -
  obtain l js where l: "v = PList l" "1 \<le> length l" "length l \<le> 12" "ledger_note_ids e l = Inr js" "is = sort (remdups js)"
    using assms(2) by (auto simp: revoked_ids_def id_list_def bind_r_Inr split: pyval.splits)
  from ledger_note_ids_ok [OF assms(1) l(4)] have "length js = length l" "\<forall>j\<in>set js. id_ok j" by auto
  moreover have "length (remdups js) \<le> length js" by (rule length_remdups_leq)
  moreover have "remdups js \<noteq> []" using l(2) calculation(1) by auto
  ultimately show ?thesis using l by (auto simp: strict_sorted_iff Suc_le_eq)
qed

lemma canonicalize_Inr:
  assumes "hashes_ok e" "canonicalize e v = Inr d"
  obtains i nt st r t "is" where "d = tombstone i nt st r t is" "tombstone_wf i nt st r t is"
proof -
  obtain f where v: "v = PDict f" using assms(2) by (cases v) (auto simp: canonicalize_def)
  obtain r t i nt st rest where
    c: "py_get f ''reason'' = PStr r" "r \<in> set allowed_reasons" "py_get f ''deletedAt'' = PStr t" "timestamp_text t"
      "ledger_note_id e (py_get f ''noteId'') = Inr i" "normalize_note_type (py_get f ''noteType'') = Inr nt"
      "normalize_source_type (py_get f ''sourceType'') = Inr st"
      "(if is_revocation f then bind_r (revoked_ids e (py_get f ''revokedByNoteIds'')) (\<lambda>is.
          Inr [(''revokedByNoteIds'', PList (map PStr is))]) else Inr []) = (Inr rest :: ledger_error + fields)"
      "d = [(''schema'', PStr v1_schema), (''noteId'', PStr i), (''noteType'', PStr nt), (''sourceType'', PStr st),
            (''reason'', PStr r), (''deletedAt'', PStr t)] @ rest"
    using assms(2) unfolding v canonicalize_def
    by (auto simp: bind_r_Inr valid_timestamp_def split: pyval.splits)
  have rev: "is_revocation f \<longleftrightarrow> r = ''source_revoked''" using c(1) by (simp add: is_revocation_def)
  show thesis
  proof (cases "r = ''source_revoked''")
    case True
    then obtain "is" where i: "revoked_ids e (py_get f ''revokedByNoteIds'') = Inr is"
        "rest = [(''revokedByNoteIds'', PList (map PStr is))]"
      using c(8) rev by (auto simp: bind_r_Inr)
    show thesis
      by (rule that [of i nt st r t "is"])
        (use True c i revoked_ids_ok [OF assms(1) i(1)] ledger_note_id_ok [OF assms(1) c(5)] note_type_allowed
          source_type_allowed in \<open>simp_all add: tombstone_def tombstone_wf_def\<close>)
  next
    case False
    show thesis
      by (rule that [of i nt st r t "[]"])
        (use False c rev ledger_note_id_ok [OF assms(1) c(5)] note_type_allowed source_type_allowed
          in \<open>simp_all add: tombstone_def tombstone_wf_def\<close>)
  qed
qed

section \<open>The event of a tombstone\<close>

definition event_fields ::
    "string \<Rightarrow> string \<Rightarrow> string \<Rightarrow> string \<Rightarrow> string \<Rightarrow> string list \<Rightarrow> int \<Rightarrow> string \<Rightarrow> string \<Rightarrow> fields" where
  "event_fields i nt st r t is n prev h =
     [(''schema'', PStr v2_schema), (''noteId'', PStr i), (''noteType'', PStr nt), (''sourceType'', PStr st),
      (''reason'', PStr r), (''deletedAt'', PStr t)]
     @ (if r = ''source_revoked'' then [(''revokedByNoteIds'', PList (map PStr is))] else [])
     @ [(''contentFree'', PBool True), (''sequence'', PInt n), (''previousHash'', PStr prev), (''eventHash'', PStr h)]"

definition sealed :: "ledger_fns \<Rightarrow> fields \<Rightarrow> bool" where
  "sealed e d \<longleftrightarrow> py_get d ''eventHash'' = PStr (event_hash e d)"

lemma build_event_fields:
  "\<exists>h. build_event e (tombstone i nt st r t is) n prev = event_fields i nt st r t is n prev h \<and>
       h = event_hash e (event_fields i nt st r t is n prev h) \<and> (hashes_ok e \<longrightarrow> hex_run 64 h)"
proof -
  let ?u = "unsigned_event (tombstone i nt st r t is) n prev"
  let ?h = "event_hash e ?u"
  have b: "build_event e (tombstone i nt st r t is) n prev = event_fields i nt st r t is n prev ?h"
    by (simp add: build_event_def unsigned_event_def tombstone_def event_fields_def dict_set_def Let_def)
  have "filter (\<lambda>p. fst p \<noteq> ''eventHash'') (event_fields i nt st r t is n prev ?h) = filter (\<lambda>p. fst p \<noteq> ''eventHash'') ?u"
    by (simp add: unsigned_event_def tombstone_def event_fields_def dict_set_def)
  then have "?h = event_hash e (event_fields i nt st r t is n prev ?h)" by (simp add: event_hash_def)
  then show ?thesis using b by (auto simp: event_hash_def)
qed

lemma event_keys_distinct: "distinct (map fst (event_fields i nt st r t is n prev h))"
  by (simp add: event_fields_def)

lemma py_get_sort: "distinct (map fst d) \<Longrightarrow> py_get (sort_key fst d) = py_get d"
proof -
  assume "distinct (map fst d)"
  moreover from this have "distinct (map fst (sort_key fst d))" by (rule distinct_sorted)
  ultimately have "map_of (sort_key fst d) = map_of d" by (simp add: map_of_inject_set)
  then show ?thesis by (simp add: py_get_def fun_eq_iff)
qed

lemma keys_sort [simp]: "set (map fst (sort_key fst d)) = set (map fst d)"
  by simp

lemma ascending_sorted: "sorted_wrt (<) is \<Longrightarrow> ascending (map PStr is)"
proof (induction "is")
  case (Cons a l)
  then show ?case by (cases l) auto
qed simp

lemma id_list_canonical:
  "1 \<le> length is \<Longrightarrow> length is \<le> 12 \<Longrightarrow> \<forall>j\<in>set is. id_ok j \<Longrightarrow> sorted_wrt (<) is \<Longrightarrow>
   id_list note_id_is_canonical (PList (map PStr is))"
  by (simp add: id_list_def list_all_iff id_ok_def ascending_sorted)

lemma event_get:
  "py_get (event_fields i nt st r t is n prev h) ''schema'' = PStr v2_schema"
  "py_get (event_fields i nt st r t is n prev h) ''noteId'' = PStr i"
  "py_get (event_fields i nt st r t is n prev h) ''noteType'' = PStr nt"
  "py_get (event_fields i nt st r t is n prev h) ''sourceType'' = PStr st"
  "py_get (event_fields i nt st r t is n prev h) ''reason'' = PStr r"
  "py_get (event_fields i nt st r t is n prev h) ''deletedAt'' = PStr t"
  "py_get (event_fields i nt st r t is n prev h) ''contentFree'' = PBool True"
  "py_get (event_fields i nt st r t is n prev h) ''sequence'' = PInt n"
  "py_get (event_fields i nt st r t is n prev h) ''previousHash'' = PStr prev"
  "py_get (event_fields i nt st r t is n prev h) ''eventHash'' = PStr h"
  "r = ''source_revoked'' \<Longrightarrow>
     py_get (event_fields i nt st r t is n prev h) ''revokedByNoteIds'' = PList (map PStr is)"
  by (simp_all add: event_fields_def py_get_def)

lemma event_validates:
  assumes "tombstone_wf i nt st r t is" "n \<ge> 1" "hex_run 64 prev" "hex_run 64 h"
  defines "d \<equiv> sort_key fst (event_fields i nt st r t is n prev h)"
  shows "validate_v2 (PDict d) = Inr d"
proof -
  have g: "py_get d = py_get (event_fields i nt st r t is n prev h)"
    unfolding d_def by (rule py_get_sort [OF event_keys_distinct])
  have rev: "is_revocation d \<longleftrightarrow> r = ''source_revoked''" by (simp add: is_revocation_def g event_get)
  have "has_keys d v2_keys"
    unfolding has_keys_def rev unfolding d_def keys_sort
    by (auto simp: event_fields_def v2_keys_def v1_keys_def revocation_keys_def)
  moreover have "is_revocation d \<longrightarrow> id_list note_id_is_canonical (py_get d ''revokedByNoteIds'')"
    using assms(1) id_list_canonical [of "is"] by (simp add: rev g event_get tombstone_wf_def)
  ultimately show ?thesis
    using assms(1-4)
    by (simp add: validate_v2_def g event_get tombstone_wf_def id_ok_def need_in_def valid_timestamp_def valid_sequence_def)
qed

lemma length_nat_str: "n < 10 ^ k \<Longrightarrow> 1 \<le> k \<Longrightarrow> length (nat_str n) \<le> k"
proof (induction k arbitrary: n)
  case (Suc k)
  show ?case
  proof (cases "n < 10")
    case False
    then have "n div 10 < 10 ^ k" "1 \<le> k" using Suc.prems(1) by (auto simp: not_less_eq_eq) (cases k; simp)
    then show ?thesis using Suc.IH False by (simp add: nat_str.simps [of n])
  qed (simp add: nat_str.simps [of n])
qed simp

lemma canonical_sorted [simp]: "canonical e (sort_key fst d) = canonical e d"
  unfolding canonical_def by (rule dump_sorted)

lemma event_hash_sorted [simp]: "event_hash e (sort_key fst d) = event_hash e d"
  by (simp add: event_hash_def filter_sort)

lemma id_ascii: "id_ok i \<Longrightarrow> list_all plain_char i"
  using canonical_id_chars [of i] list_all_mono2 [of id_char i plain_char] id_char_plain by (auto simp: id_ok_def)

lemma hex_plain_run: "hex_run n s \<Longrightarrow> list_all plain_char s"
  using hex_run_ids list_all_mono2 [of id_char s plain_char] id_char_plain by auto

lemma names_plain:
  "s \<in> set allowed_note_types \<union> set allowed_source_types \<union> set allowed_reasons \<union> {v2_schema} \<Longrightarrow>
   list_all plain_char s \<and> length s \<le> 28"
  by (auto simp: allowed_note_types_def allowed_source_types_def allowed_reasons_def v2_schema_def plain_char_def byte_def)

lemma event_members:
  assumes "tombstone_wf i nt st r t is" "hex_run 64 prev" "hex_run 64 h" "length (nat_str (nat \<bar>n\<bar>)) \<le> 4300"
    and "(k, v) \<in> set (event_fields i nt st r t is n prev h)"
  shows "flat v \<and> ascii_value v \<and> json_plain v"
proof -
  have a: "\<forall>x\<in>{i, nt, st, r, t, prev, h, v2_schema}. ascii_text x"
    using assms(1-3) names_plain timestamp_plain [of t] id_ascii [of i] hex_plain_run plain_ascii
    by (auto simp: tombstone_wf_def)
  have "r = ''source_revoked'' \<Longrightarrow> \<forall>j\<in>set is. ascii_text j"
    using assms(1) id_ascii plain_ascii by (simp add: tombstone_wf_def)
  then show ?thesis
    using assms(4,5) a by (auto simp: event_fields_def list_all_iff plain_all_iff split: if_splits)
qed

lemma event_loads:
  assumes "tombstone_wf i nt st r t is" "hex_run 64 prev" "hex_run 64 h" "length (nat_str (nat \<bar>n\<bar>)) \<le> 4300"
  defines "d \<equiv> event_fields i nt st r t is n prev h"
  shows "json_loads (canonical e d) = Some (PDict (sort_key fst d))" and "ascii_text (canonical e d)"
proof -
  have m: "\<forall>(k, v)\<in>set d. flat v \<and> ascii_value v \<and> json_plain v"
    using event_members [OF assms(1-4)] unfolding d_def by blast
  have "\<forall>(k, v)\<in>set d. ascii_text k"
    unfolding d_def event_fields_def by (auto simp: ascii_text_def)
  with m have "\<forall>(k, v)\<in>set d. ascii_text k \<and> ascii_value v" by auto
  then show asc: "ascii_text (canonical e d)" unfolding canonical_def by (rule dump_dict_ascii)
  have "json_plain (PDict d)" using m event_keys_distinct unfolding d_def by (auto simp: plain_members_iff)
  moreover have "sort_value (PDict d) = PDict (sort_key fst d)" using m by (intro sort_flat_dict) auto
  ultimately show "json_loads (canonical e d) = Some (PDict (sort_key fst d))"
    using json_loads_dump [of "PDict d" "float_text e"] utf8_ok_ascii [OF asc] unfolding canonical_def by simp
qed

section \<open>The length of an event\<close>

lemma join_length: "length (join_on c l) \<le> (\<Sum>s\<leftarrow>l. length s + 1)"
  by (induction l rule: join_on.induct) auto

lemma sum_list_sort: "sum_list (map g (sort_key f d)) = sum_list (map g d)" for g :: "'a \<Rightarrow> nat"
  by (metis mset_map mset_sort sum_mset_sum_list)

lemma canonical_length: "length (canonical e d) \<le> 2 + (\<Sum>p\<leftarrow>d. length (member_text (float_text e) p) + 1)"
proof -
  have "length (join_on (CHR '','') (map (member_text (float_text e)) (sort_key fst d)))
      \<le> (\<Sum>p\<leftarrow>sort_key fst d. length (member_text (float_text e) p) + 1)"
    using join_length [of "CHR '',''" "map (member_text (float_text e)) (sort_key fst d)"] by (simp add: comp_def)
  then show ?thesis unfolding canonical_def dict_text by (simp add: sum_list_sort)
qed

lemma id_list_length:
  "\<forall>j\<in>set is. id_ok j \<Longrightarrow> length (dump rf (PList (map PStr is))) \<le> 2 + 515 * length is"
proof -
  assume i: "\<forall>j\<in>set is. id_ok j"
  have "(\<Sum>s\<leftarrow>map json_string is. length s + 1) \<le> 515 * length is"
    using i
  proof (induction "is")
    case (Cons j l)
    then show ?case using json_string_plain [OF id_ascii, of j] by (simp add: id_ok_def)
  qed simp
  then show ?thesis
    using join_length [of "CHR '',''" "map json_string is"] by (simp add: comp_def)
qed

lemma event_length:
  assumes "tombstone_wf i nt st r t is" "hex_run 64 prev" "hex_run 64 h" "0 \<le> n" "n < 10 ^ 8"
  shows "length (canonical e (event_fields i nt st r t is n prev h)) \<le> 8000"
proof -
  have key: "length (json_string k) \<le> 18"
    if "k \<in> {''schema'', ''noteId'', ''noteType'', ''sourceType'', ''reason'', ''deletedAt'', ''revokedByNoteIds'', ''contentFree'',
        ''sequence'', ''previousHash'', ''eventHash''}" for k
    using that by (auto simp: json_string_plain plain_char_def byte_def)
  have str: "length (json_string nt) \<le> 30" "length (json_string st) \<le> 30" "length (json_string r) \<le> 30"
      "length (json_string v2_schema) \<le> 30" "length (json_string t) = 22" "length (json_string i) \<le> 514"
      "length (json_string prev) = 66" "length (json_string h) = 66"
    using assms(1-3) names_plain [of nt] names_plain [of st] names_plain [of r] names_plain [of v2_schema]
      timestamp_plain [of t] id_ascii [of i] hex_plain_run
    by (auto simp: tombstone_wf_def json_string_plain hex_run_def id_ok_def)
  have num: "length (int_str n) \<le> 8"
    using length_nat_str [of "nat n" 8] assms(4,5) by (simp add: int_str_def nat_less_iff)
  have ids: "r = ''source_revoked'' \<Longrightarrow> length (dump (float_text e) (PList (map PStr is))) \<le> 6182"
    using id_list_length [of "is" "float_text e"] assms(1) by (simp add: tombstone_wf_def)
  have mem: "length (member_text rf (k, v)) = length (json_string k) + 1 + length (dump rf v)" for rf k v
    by (simp add: member_text_def)
  show ?thesis
    using canonical_length [of e "event_fields i nt st r t is n prev h"] str num ids
      key [of "''schema''"] key [of "''noteId''"] key [of "''noteType''"] key [of "''sourceType''"] key [of "''reason''"]
      key [of "''deletedAt''"] key [of "''revokedByNoteIds''"] key [of "''contentFree''"] key [of "''sequence''"]
      key [of "''previousHash''"] key [of "''eventHash''"]
    by (simp add: event_fields_def mem del: dump_all_map dump.simps(6) split: if_splits)
qed

end
