(* ===== verification/Deletion_Evidence.thy ===== *)
theory Deletion_Evidence
  imports Deletion_Chain
begin

text \<open>
  \<open>evelyn_core/memory_deletion_journal.py\<close>: what the hash chain proves. An event of an accepted
  file is determined by its hash, and so is everything before it, unless two texts that are hashed
  when the files are read have the same SHA-256 (or one of them has the all-zero start of the chain).
\<close>

definition unsealed :: "fields \<Rightarrow> fields" where
  "unsealed d = filter (\<lambda>p. fst p \<noteq> ''eventHash'') d"

text \<open>The texts that are hashed when a file is read, and what a broken hash function would show on them.\<close>

definition hashed_texts :: "ledger_fns \<Rightarrow> chain \<Rightarrow> string list" where
  "hashed_texts e c =
     (if c_prefix c = [] then [] else [legacy_domain @ c_prefix c]) @ map (\<lambda>d. canonical e (unsealed d)) (chained c)"

definition exhibits_break :: "ledger_fns \<Rightarrow> string list \<Rightarrow> bool" where
  "exhibits_break e ts \<longleftrightarrow> (\<exists>x\<in>set ts. (\<exists>y\<in>set ts. x \<noteq> y \<and> sha e x = sha e y) \<or> sha e x = genesis)"

lemma py_get_mem: "distinct (map fst d) \<Longrightarrow> (k, v) \<in> set d \<Longrightarrow> py_get d k = v"
  by (simp add: py_get_def)

lemma event_keys:
  "validate_v2 (PDict d) = Inr d \<Longrightarrow> (k, v) \<in> set d \<Longrightarrow> k \<in> set (v2_keys @ revocation_keys)"
proof -
  assume "validate_v2 (PDict d) = Inr d" "(k, v) \<in> set d"
  then have "has_keys d v2_keys" "k \<in> set (map fst d)"
    by (auto simp: validate_v2_def bind_r_Inr image_iff intro: bexI [of _ "(k, v)"])
  then show ?thesis by (auto simp: has_keys_def split: if_splits)
qed

lemma id_list_values: "id_list note_id_is_canonical v \<Longrightarrow> flat v \<and> ascii_value v \<and> json_plain v"
proof -
  assume i: "id_list note_id_is_canonical v"
  then obtain l where l: "v = PList l" "list_all note_id_is_canonical l" by (auto simp: id_list_def split: pyval.splits)
  have "\<exists>s. x = PStr s \<and> ascii_text s" if "x \<in> set l" for x
  proof -
    have c: "note_id_is_canonical x" using l(2) that by (simp add: list_all_iff)
    then obtain s where "x = PStr s" by (cases x) (auto simp: note_id_is_canonical_def)
    with c show ?thesis using canonical_id_chars plain_ascii id_char_plain list_all_mono2 by metis
  qed
  then show ?thesis unfolding l(1) by (fastforce simp: list_all_iff plain_all_iff)
qed

lemma event_distinct: "event_ok e n prev d \<Longrightarrow> distinct (map fst d)"
  unfolding event_ok_def by (blast intro: json_loads_distinct)

lemma event_values:
  assumes "event_ok e n prev d" "n < 10 ^ 8" "(k, v) \<in> set d"
  shows "flat v \<and> ascii_value v \<and> json_plain v"
proof -
  have dist: "distinct (map fst d)" by (rule event_distinct [OF assms(1)])
  have v: "validate_v2 (PDict d) = Inr d" using assms(1) by (simp add: event_ok_def)
  have g: "py_get d k = v" by (rule py_get_mem [OF dist assms(3)])
  have n: "1 \<le> n" "py_get d ''sequence'' = PInt n"
    using v assms(1) by (auto simp: event_ok_def validate_v2_def bind_r_Inr valid_sequence_def)
  then have seq: "json_plain (PInt n)"
    using length_nat_str [of "nat n" 8] assms(2) by (simp add: nat_less_iff)
  have k: "k \<in> set (v2_keys @ revocation_keys)" by (rule event_keys [OF v assms(3)])
  have keys: "has_keys d v2_keys" using v by (auto simp: validate_v2_def bind_r_Inr)
  have kd: "k \<in> set (map fst d)" using assms(3) by force
  have "is_revocation d" if "k = ''revokedByNoteIds''"
  proof (rule ccontr)
    assume "\<not> is_revocation d"
    then have "k \<in> set v2_keys" using keys kd unfolding has_keys_def by metis
    then show False using that by (simp add: v2_keys_def v1_keys_def)
  qed
  then have "id_list note_id_is_canonical v" if "k = ''revokedByNoteIds''"
    using that v g by (auto simp: validate_v2_def bind_r_Inr)
  note revoked = this
  have "k = ''sequence'' \<or> k = ''contentFree'' \<or> k = ''revokedByNoteIds'' \<or> k = ''noteId'' \<or> k = ''schema'' \<or>
      k \<in> {''noteType'', ''sourceType'', ''reason''} \<or> k = ''deletedAt'' \<or> k \<in> {''previousHash'', ''eventHash''}"
    using k unfolding v2_keys_def v1_keys_def revocation_keys_def
    by (simp only: append.simps list.set insert_iff empty_iff) (elim disjE FalseE; simp)
  then show ?thesis
  proof (elim disjE)
    assume "k = ''noteId''"
    then have c: "note_id_is_canonical v" using v g by (auto simp: validate_v2_def bind_r_Inr)
    then obtain s where s: "v = PStr s" by (cases v) (auto simp: note_id_is_canonical_def)
    then have "ascii_text s" using c canonical_id_chars [of s] list_all_mono2 [of id_char s plain_char] id_char_plain plain_ascii by metis
    with s show ?thesis by simp
  next
    assume "k \<in> {''noteType'', ''sourceType'', ''reason''}"
    then obtain s where "v = PStr s" "s \<in> set allowed_note_types \<union> set allowed_source_types \<union> set allowed_reasons"
      using v g by (auto simp: validate_v2_def bind_r_Inr)
    then show ?thesis using names_plain [of s] plain_ascii by auto
  next
    assume "k = ''deletedAt''"
    then obtain s where "v = PStr s" "timestamp_text s"
      using v g by (auto simp: validate_v2_def bind_r_Inr valid_timestamp_def split: pyval.splits)
    then show ?thesis using timestamp_plain [of s] plain_ascii by auto
  next
    assume "k \<in> {''previousHash'', ''eventHash''}"
    then obtain s where "v = PStr s" "hex_run 64 s"
      using v g by (auto simp: validate_v2_def bind_r_Inr valid_hash_ne)
    then show ?thesis using hex_plain_run plain_ascii by auto
  next
    assume "k = ''schema''"
    then have "v = PStr v2_schema" using v g by (auto simp: validate_v2_def bind_r_Inr)
    then show ?thesis using names_plain [of v2_schema] plain_ascii by simp
  next
    assume "k = ''sequence''"
    then have "v = PInt n" using n g by simp
    then show ?thesis using seq by simp
  next
    assume "k = ''contentFree''"
    then show ?thesis using v g by (auto simp: validate_v2_def bind_r_Inr)
  next
    assume "k = ''revokedByNoteIds''"
    then show ?thesis using revoked id_list_values by blast
  qed
qed

lemma ascii_keys: "set ks \<subseteq> set (v2_keys @ revocation_keys) \<Longrightarrow> list_all ascii_text ks"
  by (auto simp: list_all_iff v2_keys_def v1_keys_def revocation_keys_def ascii_text_def dest!: subsetD)

lemma part_loads:
  assumes "event_ok e n prev d" "n < 10 ^ 8"
  shows "json_loads (canonical e (filter P d)) = Some (PDict (sort_key fst (filter P d)))"
proof -
  define u where "u = filter P d"
  have dist: "distinct (map fst d)" by (rule event_distinct [OF assms(1)])
  have val: "validate_v2 (PDict d) = Inr d" using assms(1) by (simp add: event_ok_def)
  have m: "\<forall>(k, v)\<in>set u. flat v \<and> ascii_value v \<and> json_plain v"
    using event_values [OF assms(1,2)] unfolding u_def by auto
  have "ascii_text k" if "(k, v) \<in> set u" for k v
    using ascii_keys [of "[k]"] event_keys [OF val, of k v] that by (simp add: u_def)
  with m have "\<forall>(k, v)\<in>set u. ascii_text k \<and> ascii_value v" by auto
  then have "utf8_ok (canonical e u)"
    unfolding canonical_def by (intro utf8_ok_ascii dump_dict_ascii)
  moreover have "distinct (map fst u)" using dist unfolding u_def by (rule distinct_map_filter)
  with m have "json_plain (PDict u)" by (auto simp: plain_members_iff)
  moreover have "sort_value (PDict u) = PDict (sort_key fst u)" using m by (intro sort_flat_dict) auto
  ultimately show ?thesis using json_loads_dump [of "PDict u" "float_text e"] unfolding u_def canonical_def by simp
qed

lemma event_sorted: "event_ok e n prev d \<Longrightarrow> n < 10 ^ 8 \<Longrightarrow> sort_key fst d = d"
  using part_loads [of e n prev d "\<lambda>_. True"] by (simp add: event_ok_def)

lemma set_split_key:
  "(k, a) \<in> set x \<Longrightarrow> (\<And>w. (k, w) \<in> set x \<Longrightarrow> w = a) \<Longrightarrow> set x = insert (k, a) (set (filter (\<lambda>p. fst p \<noteq> k) x))"
proof -
  assume a: "(k, a) \<in> set x" and "\<And>w. (k, w) \<in> set x \<Longrightarrow> w = a"
  then have "p \<in> set x \<Longrightarrow> fst p = k \<Longrightarrow> p = (k, a)" for p by (cases p) simp
  then have "p \<in> set x \<longleftrightarrow> p = (k, a) \<or> p \<in> set x \<and> fst p \<noteq> k" for p using a by metis
  then show ?thesis by (intro set_eqI) simp
qed

lemma unsealed_same:
  assumes "event_ok e n prev d" "event_ok e n' prev' d'" "n < 10 ^ 8" "n' < 10 ^ 8"
    and "canonical e (unsealed d) = canonical e (unsealed d')" "event_hash e d = event_hash e d'"
  shows "d = d'"
proof -
  have "sort_key fst (unsealed d) = sort_key fst (unsealed d')"
    using part_loads [OF assms(1,3), of "\<lambda>p. fst p \<noteq> ''eventHash''"]
      part_loads [OF assms(2,4), of "\<lambda>p. fst p \<noteq> ''eventHash''"] assms(5) by (simp add: unsealed_def)
  then have u: "set (unsealed d) = set (unsealed d')" by (metis set_sort)
  have dist: "distinct (map fst d)" "distinct (map fst d')"
    using assms(1,2) event_distinct by blast+
  have mem: "set x = insert (''eventHash'', PStr (event_hash e x)) (set (unsealed x))"
    if "event_ok e m q x" "distinct (map fst x)" for m q x
  proof -
    have g: "py_get x ''eventHash'' = PStr (event_hash e x)" using that(1) by (simp add: event_ok_def)
    then have "(''eventHash'', PStr (event_hash e x)) \<in> set x"
      by (auto simp: py_get_def split: option.splits dest: map_of_SomeD)
    moreover have "(''eventHash'', w) \<in> set x \<Longrightarrow> w = PStr (event_hash e x)" for w
      using py_get_mem [OF that(2)] g by metis
    ultimately show ?thesis unfolding unsealed_def by (rule set_split_key)
  qed
  have "set d = set d'" using mem [OF assms(1) dist(1)] mem [OF assms(2) dist(2)] u assms(6) by simp
  moreover have "sorted (map fst d)" "sorted (map fst d')"
    using sorted_sort_key [of fst d] sorted_sort_key [of fst d']
    unfolding event_sorted [OF assms(1,3)] event_sorted [OF assms(2,4)] by blast+
  moreover have "inj_on fst (set d \<union> set d')" using dist(1) \<open>set d = set d'\<close> by (simp add: distinct_map)
  ultimately show ?thesis by (metis dist map_sorted_distinct_set_unique distinct_map)
qed

lemma same_hash_same_events:
  assumes "chain_ok e l ds" "chain_ok e l' ds'" "\<not> exhibits_break e ts" "l = l'"
    and "(\<lambda>d. canonical e (unsealed d)) ` (set ds \<union> set ds') \<subseteq> set ts"
    and "k \<le> length ds" "k \<le> length ds'" "length ds < 10 ^ 8" "length ds' < 10 ^ 8"
    and "hash_at e l ds k = hash_at e l' ds' k"
  shows "take k ds = take k ds'"
  using assms(6,7,10)
proof (induction k)
  case (Suc j)
  have ok: "event_ok e (int j + 1) (hash_at e l ds j) (ds ! j)" "event_ok e (int j + 1) (hash_at e l' ds' j) (ds' ! j)"
    using assms(1,2) Suc.prems by (simp_all add: chain_ok_def)
  have "event_hash e (ds ! j) = event_hash e (ds' ! j)" using Suc.prems by (simp add: hash_at_def)
  moreover from this have "canonical e (unsealed (ds ! j)) = canonical e (unsealed (ds' ! j))"
  proof -
    have "ds ! j \<in> set ds" "ds' ! j \<in> set ds'" using Suc.prems by simp_all
    then have "canonical e (unsealed (ds ! j)) \<in> set ts" "canonical e (unsealed (ds' ! j)) \<in> set ts" using assms(5) by blast+
    moreover have "sha e (canonical e (unsealed (ds ! j))) = sha e (canonical e (unsealed (ds' ! j)))"
      using \<open>event_hash e (ds ! j) = event_hash e (ds' ! j)\<close> by (simp add: event_hash_def unsealed_def)
    ultimately show ?thesis using assms(3) unfolding exhibits_break_def by blast
  qed
  ultimately have same: "ds ! j = ds' ! j" using unsealed_same [OF ok] Suc.prems assms(8,9) by simp
  then have "hash_at e l ds j = hash_at e l' ds' j" using ok by (simp add: event_ok_def)
  then have "take j ds = take j ds'" using Suc by simp
  with same Suc.prems show ?case by (simp add: take_Suc_conv_app_nth)
qed simp

lemma same_anchor_same_prefix:
  assumes "\<not> exhibits_break e (hashed_texts e c @ hashed_texts e c')"
    and "legacy_anchor e (c_prefix c) = legacy_anchor e (c_prefix c')"
  shows "c_prefix c = c_prefix c'"
proof (rule ccontr)
  assume n: "c_prefix c \<noteq> c_prefix c'"
  let ?x = "legacy_domain @ c_prefix c" and ?y = "legacy_domain @ c_prefix c'"
  have x: "c_prefix c \<noteq> [] \<Longrightarrow> ?x \<in> set (hashed_texts e c @ hashed_texts e c')"
    and y: "c_prefix c' \<noteq> [] \<Longrightarrow> ?y \<in> set (hashed_texts e c @ hashed_texts e c')"
    by (simp_all add: hashed_texts_def)
  have "?x \<noteq> ?y" using n by simp
  then show False
    using assms n x y unfolding exhibits_break_def legacy_anchor_def by (metis (no_types, lifting))
qed

lemma files_agree:
  assumes "read_chain e raw = Inr c" "read_chain e raw' = Inr c'" "length raw \<le> max_journal_bytes" "length raw' \<le> max_journal_bytes"
    and "k \<le> length (chained c)" "k \<le> length (chained c')"
    and "legacy_anchor e (c_prefix c) = legacy_anchor e (c_prefix c')"
    and "hash_at e (legacy_anchor e (c_prefix c)) (chained c) k = hash_at e (legacy_anchor e (c_prefix c')) (chained c') k"
    and "\<not> exhibits_break e (hashed_texts e c @ hashed_texts e c')"
  shows "c_prefix c = c_prefix c' \<and> take k (chained c) = take k (chained c')"
proof
  have ok: "chain_ok e (legacy_anchor e (c_prefix c)) (chained c) \<and> length (chained c) \<le> length raw"
    if "read_chain e raw = Inr c" for raw c
    using read_chain_ok [OF that] length_chained [of c] by (auto simp: linked_def Let_def)
  show "c_prefix c = c_prefix c'" by (rule same_anchor_same_prefix [OF assms(9,7)])
  show "take k (chained c) = take k (chained c')"
    using ok [OF assms(1)] ok [OF assms(2)] assms(3-9)
    by (intro same_hash_same_events [of e "legacy_anchor e (c_prefix c)" _ "legacy_anchor e (c_prefix c')" _
          "hashed_texts e c @ hashed_texts e c'"]) (auto simp: max_journal_bytes_def hashed_texts_def)
qed

end
