(* ===== verification/Deletion_Ledger.thy ===== *)
theory Deletion_Ledger
  imports Deletion_Evidence
begin

text \<open>
  \<open>evelyn_core/memory_deletion_journal.py\<close>: the ledger of deletions. Next to the journal of events
  stands a head that records its last position (signed when a key is configured), and outside the
  memory directory an anchor that records the position again, with a marker that it was ever
  written. Appending writes the event, then the head, then the anchor; readers refuse any other
  relation between the three and repair a head or an anchor that is one step behind.

  The state \<open>ledger\<close> holds the files. The head, the anchor and the marker are read as JSON
  documents whose text must be the canonical one (the flag of \<open>Doc\<close>); a document that was written
  reads back up to the order of keys, which no check looks at. The record \<open>ledger_env\<close> holds what
  the outside answers, read by the counter \<open>l_tick\<close>: the configured key and anchor (\<open>None\<close> where
  loading them fails), whether a file access raises \<open>OSError\<close>, how an atomic write ends (it may be
  reported as failed after it took effect, or be committed without its directory entry being
  synced), how much of an appended line reaches the file, the clock. Every operation runs under
  the leases of \<open>Deletion_Guard\<close>, so it is one step; no artifact process is in scope.
\<close>

section \<open>State and environment\<close>

record authenticity =
  a_key :: "string option"
  a_bootstrap :: bool
  a_anchor :: bool

datatype doc_file = No_Doc | Not_A_File | Unreadable | Doc bool pyval

datatype journal_bytes = No_Journal | Bad_Journal | Journal string

datatype put_result = Put_Done | Put_Unsynced | Put_Fails bool

datatype append_result = Append_Done | Append_Fails nat

record ledger_env =
  lf :: ledger_fns
  auth_at :: "nat \<Rightarrow> authenticity option"
  faulty :: "nat \<Rightarrow> bool"
  put :: "nat \<Rightarrow> put_result"
  append_out :: "nat \<Rightarrow> append_result"
  wall :: "nat \<Rightarrow> real"
  stamp :: "nat \<Rightarrow> string"
  root_name :: string

record ledger =
  l_journal :: journal_bytes
  l_head :: doc_file
  l_init :: doc_file
  l_anchor :: doc_file
  l_tick :: nat

type_synonym 'a lprog = "(ledger, ledger_error, 'a) prog"

definition query :: "(nat \<Rightarrow> 'a) \<Rightarrow> 'a lprog" where
  "query f s = (Inr (f (l_tick s)), s\<lparr>l_tick := Suc (l_tick s)\<rparr>)"

definition from_result :: "ledger_error + 'a \<Rightarrow> 'a lprog" where
  "from_result r s = (r, s)"

definition modify :: "(ledger \<Rightarrow> ledger) \<Rightarrow> unit lprog" where
  "modify f s = (Inr (), f s)"

definition gets :: "(ledger \<Rightarrow> 'a) \<Rightarrow> 'a lprog" where
  "gets f s = (Inr (f s), s)"

definition demand :: "bool \<Rightarrow> unit lprog" where
  "demand b = (if b then ret () else throw Integrity)"

text \<open>A step that may raise \<open>OSError\<close>.\<close>

definition access :: "ledger_env \<Rightarrow> unit lprog" where
  "access w = bind (query (faulty w)) (\<lambda>bad. demand (\<not> bad))"

definition load_auth :: "ledger_env \<Rightarrow> authenticity lprog" where
  "load_auth w = bind (query (auth_at w)) (\<lambda>a. case a of None \<Rightarrow> throw Integrity | Some x \<Rightarrow> ret x)"

section \<open>Reading the journal, the head and the anchor\<close>

definition read_journal :: "ledger_env \<Rightarrow> reading lprog" where
  "read_journal w =
     seq_ops (access w) (bind (gets l_journal) (\<lambda>j.
       (case j of
          No_Journal \<Rightarrow> ret absent_reading
        | Bad_Journal \<Rightarrow> throw Integrity
        | Journal raw \<Rightarrow>
            if length raw > max_journal_bytes then throw Integrity else from_result (read_bytes (lf w) raw))))"

definition read_doc :: "ledger_env \<Rightarrow> (ledger \<Rightarrow> doc_file) \<Rightarrow> (bool \<times> pyval) option lprog" where
  "read_doc w f =
     seq_ops (access w) (bind (gets f) (\<lambda>x.
       (case x of No_Doc \<Rightarrow> ret None | Doc c v \<Rightarrow> ret (Some (c, v)) | _ \<Rightarrow> throw Integrity)))"

definition head_schema :: string where "head_schema = ''memory.deletion.chain-head.v1''"

definition signed_head_schema :: string where "signed_head_schema = ''memory.deletion.chain-head.v2''"

definition anchor_schema :: string where "anchor_schema = ''memory.deletion.external-anchor.v1''"

definition init_schema :: string where "init_schema = ''memory.deletion.external-initialization.v1''"

definition head_keys :: "string list" where
  "head_keys = [''schema'', ''sequence'', ''eventHash'', ''previousHash'', ''legacyPrefixHash'', ''updatedAt'', ''contentFree'']"

definition auth_keys :: "string list" where
  "auth_keys = [''authAlgorithm'', ''authScope'', ''authKeyId'', ''authTag'']"

definition init_keys :: "string list" where
  "init_keys = [''schema'', ''initialized'', ''initializedAt'', ''contentFree''] @ auth_keys"

definition head_domain :: string where "head_domain = ''evelyn.memory.deletion.chain-head.v2'' @ [CHR 10]"

definition anchor_domain :: string where "anchor_domain = ''evelyn.memory.deletion.external-anchor.v1'' @ [CHR 10]"

definition init_domain :: string where "init_domain = ''evelyn.memory.deletion.external-initialization.v1'' @ [CHR 10]"

definition key_id :: "ledger_fns \<Rightarrow> string \<Rightarrow> string" where
  "key_id e k = take 16 (sha e k)"

definition auth_tag :: "ledger_fns \<Rightarrow> string \<Rightarrow> string \<Rightarrow> fields \<Rightarrow> string" where
  "auth_tag e k domain d = hmac e k (domain @ canonical e d)"

definition signed_by :: "ledger_fns \<Rightarrow> string \<Rightarrow> fields \<Rightarrow> bool" where
  "signed_by e k d \<longleftrightarrow>
     py_get d ''authAlgorithm'' = PStr ''hmac-sha256'' \<and> py_get d ''authScope'' = PStr ''memory.deletion-journal'' \<and>
     py_get d ''authKeyId'' = PStr (key_id e k)"

definition tag_matches :: "ledger_fns \<Rightarrow> string \<Rightarrow> string \<Rightarrow> fields \<Rightarrow> bool" where
  "tag_matches e k domain d \<longleftrightarrow>
     valid_hash (py_get d ''authTag'') \<noteq> [] \<and>
     valid_hash (py_get d ''authTag'') = auth_tag e k domain (filter (\<lambda>p. fst p \<noteq> ''authTag'') d)"

definition exact_keys :: "fields \<Rightarrow> string list \<Rightarrow> bool" where
  "exact_keys d ks \<longleftrightarrow> set (map fst d) = set ks"

datatype head_auth = Auth_Missing | Auth_Bootstrap | Auth_Unconfigured | Auth_Verified

definition verify_head :: "ledger_fns \<Rightarrow> authenticity \<Rightarrow> fields \<Rightarrow> ledger_error + head_auth" where
  "verify_head e a d =
     (if py_get d ''schema'' = PStr head_schema
      then bind_r (need (exact_keys d head_keys)) (\<lambda>_.
             if a_key a \<noteq> None then bind_r (need (a_bootstrap a)) (\<lambda>_. Inr Auth_Bootstrap) else Inr Auth_Unconfigured)
      else (case a_key a of
              None \<Rightarrow> Inl Integrity
            | Some k \<Rightarrow>
                bind_r (need (py_get d ''schema'' = PStr signed_head_schema \<and> exact_keys d (head_keys @ auth_keys) \<and>
                              signed_by e k d \<and> tag_matches e k head_domain d)) (\<lambda>_. Inr Auth_Verified)))"

definition position_fields_ok :: "fields \<Rightarrow> bool" where
  "position_fields_ok d \<longleftrightarrow>
     valid_sequence 0 (py_get d ''sequence'') \<and> valid_hash (py_get d ''eventHash'') \<noteq> [] \<and>
     valid_hash (py_get d ''previousHash'') \<noteq> [] \<and> valid_hash (py_get d ''legacyPrefixHash'') \<noteq> []"

definition check_head :: "ledger_fns \<Rightarrow> authenticity \<Rightarrow> bool \<Rightarrow> pyval \<Rightarrow> ledger_error + fields \<times> head_auth" where
  "check_head e a c v =
     (case v of
        PDict d \<Rightarrow>
          bind_r (need (py_get d ''contentFree'' = PBool True \<and> valid_timestamp (py_get d ''updatedAt'') \<and> c)) (\<lambda>_.
          bind_r (verify_head e a d) (\<lambda>h.
          bind_r (need (position_fields_ok d)) (\<lambda>_. Inr (d, h))))
      | _ \<Rightarrow> Inl Integrity)"

definition read_head :: "ledger_env \<Rightarrow> authenticity \<Rightarrow> (fields option \<times> head_auth) lprog" where
  "read_head w a =
     bind (read_doc w l_head) (\<lambda>x.
       (case x of None \<Rightarrow> ret (None, Auth_Missing)
        | Some (c, v) \<Rightarrow> bind (from_result (check_head (lf w) a c v)) (\<lambda>(d, h). ret (Some d, h))))"

text \<open>\<open>math.isfinite(float(value))\<close> and not negative, for a value that is no bool; a huge int overflows.\<close>

definition clock_value :: "pyval \<Rightarrow> ledger_error + unit" where
  "clock_value v =
     (case v of
        PInt i \<Rightarrow> if \<bar>real_of_int i\<bar> \<ge> float_limit then Inl (Escaped Overflow_Error) else need (i \<ge> 0)
      | PFloat (Fin x) \<Rightarrow> need (x \<ge> 0)
      | _ \<Rightarrow> Inl Integrity)"

definition check_init :: "ledger_fns \<Rightarrow> string \<Rightarrow> bool \<Rightarrow> pyval \<Rightarrow> ledger_error + fields" where
  "check_init e k c v =
     (case v of
        PDict d \<Rightarrow>
          bind_r (need (exact_keys d init_keys \<and> py_get d ''schema'' = PStr init_schema \<and>
                        py_get d ''initialized'' = PBool True \<and> py_get d ''contentFree'' = PBool True \<and> signed_by e k d)) (\<lambda>_.
          bind_r (clock_value (py_get d ''initializedAt'')) (\<lambda>_.
          bind_r (need (c \<and> tag_matches e k init_domain d)) (\<lambda>_. Inr d)))
      | _ \<Rightarrow> Inl Integrity)"

definition check_anchor :: "ledger_fns \<Rightarrow> string \<Rightarrow> bool \<Rightarrow> pyval \<Rightarrow> ledger_error + fields" where
  "check_anchor e k c v =
     (case v of
        PDict d \<Rightarrow>
          bind_r (need (exact_keys d (head_keys @ auth_keys) \<and> py_get d ''schema'' = PStr anchor_schema \<and>
                        py_get d ''contentFree'' = PBool True \<and> signed_by e k d \<and> position_fields_ok d)) (\<lambda>_.
          bind_r (clock_value (py_get d ''updatedAt'')) (\<lambda>_.
          bind_r (need (c \<and> tag_matches e k anchor_domain d)) (\<lambda>_. Inr d)))
      | _ \<Rightarrow> Inl Integrity)"

definition read_signed ::
    "ledger_env \<Rightarrow> authenticity \<Rightarrow> (ledger \<Rightarrow> doc_file) \<Rightarrow> (string \<Rightarrow> bool \<Rightarrow> pyval \<Rightarrow> ledger_error + fields) \<Rightarrow> fields option lprog" where
  "read_signed w a f chk =
     (if \<not> a_anchor a then ret None
      else (case a_key a of None \<Rightarrow> throw Integrity
            | Some k \<Rightarrow> bind (read_doc w f) (\<lambda>x.
                (case x of None \<Rightarrow> ret None
                 | Some (c, v) \<Rightarrow> bind (from_result (chk k c v)) (\<lambda>d. ret (Some d))))))"

definition read_init :: "ledger_env \<Rightarrow> authenticity \<Rightarrow> fields option lprog" where
  "read_init w a = read_signed w a l_init (check_init (lf w))"

definition read_anchor :: "ledger_env \<Rightarrow> authenticity \<Rightarrow> fields option lprog" where
  "read_anchor w a = read_signed w a l_anchor (check_anchor (lf w))"

text \<open>A position: sequence, hash, previous hash, hash of the prefix.\<close>

type_synonym place = "int \<times> string \<times> string \<times> string"

definition position_matches :: "fields \<Rightarrow> place \<Rightarrow> bool" where
  "position_matches d p = (case p of (n, h, q, l) \<Rightarrow>
     py_eq (py_get d ''sequence'') (PInt n) \<and> py_get d ''eventHash'' = PStr h \<and> py_get d ''previousHash'' = PStr q \<and>
     py_get d ''legacyPrefixHash'' = PStr l)"

datatype anchor_state = Anchor_Unconfigured | Anchor_Uninitialized | Anchor_Bootstrap | Anchor_Verified | Anchor_Marker | Anchor_Lagging

type_synonym tables = "(int \<Rightarrow> string option) \<times> (int \<Rightarrow> string option)"

definition tabled :: "tables \<Rightarrow> string \<Rightarrow> int \<Rightarrow> place" where
  "tabled t l n = (n, or_else (fst t n) [], or_else (snd t n) [], l)"

definition inspect_anchor :: "ledger_env \<Rightarrow> authenticity \<Rightarrow> place \<Rightarrow> tables \<Rightarrow> bool \<Rightarrow> anchor_state lprog" where
  "inspect_anchor w a p t allow =
     (if \<not> a_anchor a then ret Anchor_Unconfigured
      else bind (read_init w a) (\<lambda>ini. bind (read_anchor w a) (\<lambda>anc.
        (case anc of
           None \<Rightarrow>
             if ini \<noteq> None then throw Integrity
             else if allow then ret Anchor_Uninitialized
             else if a_bootstrap a then ret Anchor_Bootstrap
             else throw Integrity
         | Some d \<Rightarrow>
             (case p of (n, h, q, l) \<Rightarrow>
                if position_matches d p then ret (if ini \<noteq> None then Anchor_Verified else Anchor_Marker)
                else if n - 1 \<ge> 0 \<and> position_matches d (tabled t l (n - 1))
                     then ret (if ini \<noteq> None then Anchor_Lagging else Anchor_Marker)
                else throw Integrity)))))"

section \<open>A snapshot\<close>

datatype head_position = Head_Missing | Head_Current | Head_Lagging

record snapshot =
  s_reading :: reading
  s_head :: "fields option"
  s_head_state :: head_position
  s_auth :: head_auth
  s_anchor :: anchor_state

definition head_place :: "authenticity \<Rightarrow> reading \<Rightarrow> fields option \<Rightarrow> ledger_error + head_position \<times> place" where
  "head_place a R head =
     (case head of
        None \<Rightarrow>
          bind_r (need (\<not> r_sequence R > 0)) (\<lambda>_.
          bind_r (need (\<not> (a_key a \<noteq> None \<and> r_exists R \<and> r_events R \<noteq> [] \<and> \<not> a_bootstrap a))) (\<lambda>_.
          Inr (Head_Missing, (0, r_legacy R, genesis, r_legacy R))))
      | Some d \<Rightarrow>
          (let n = as_int (py_get d ''sequence'') in
           bind_r (need (r_exists R \<and> \<not> n > r_sequence R \<and> \<not> r_sequence R - n > 1 \<and>
                         position_matches d (tabled (r_hashes R, r_previous R) (r_legacy R) n))) (\<lambda>_.
           Inr (if n = r_sequence R then Head_Current else Head_Lagging,
                (n, as_text (py_get d ''eventHash''), as_text (py_get d ''previousHash''), r_legacy R)))))"

definition take_snapshot :: "ledger_env \<Rightarrow> snapshot lprog" where
  "take_snapshot w =
     bind (load_auth w) (\<lambda>a. bind (read_journal w) (\<lambda>R. bind (read_head w a) (\<lambda>(head, au).
     bind (from_result (head_place a R head)) (\<lambda>(hs, p).
     bind (inspect_anchor w a p (r_hashes R, r_previous R) (head = None \<and> r_sequence R = 0 \<and> r_events R = [])) (\<lambda>an.
     ret \<lparr>s_reading = R, s_head = head, s_head_state = hs, s_auth = au, s_anchor = an\<rparr>)))))"

section \<open>Writing the head and the anchor\<close>

definition signed :: "ledger_fns \<Rightarrow> string \<Rightarrow> string \<Rightarrow> fields \<Rightarrow> fields" where
  "signed e k domain d =
     (let u = d @ [(''authAlgorithm'', PStr ''hmac-sha256''), (''authScope'', PStr ''memory.deletion-journal''),
                   (''authKeyId'', PStr (key_id e k))]
      in u @ [(''authTag'', PStr (auth_tag e k domain u))])"

definition place_fields :: "string \<Rightarrow> place \<Rightarrow> pyval \<Rightarrow> fields" where
  "place_fields schema p t = (case p of (n, h, q, l) \<Rightarrow>
     [(''schema'', PStr schema), (''sequence'', PInt n), (''eventHash'', PStr h), (''previousHash'', PStr q),
      (''legacyPrefixHash'', PStr l), (''updatedAt'', t), (''contentFree'', PBool True)])"

definition head_payload :: "ledger_fns \<Rightarrow> authenticity \<Rightarrow> place \<Rightarrow> string \<Rightarrow> fields" where
  "head_payload e a p t =
     (case a_key a of
        None \<Rightarrow> place_fields head_schema p (PStr t)
      | Some k \<Rightarrow> signed e k head_domain (place_fields signed_head_schema p (PStr t)))"

definition init_payload :: "ledger_fns \<Rightarrow> string \<Rightarrow> real \<Rightarrow> fields" where
  "init_payload e k t =
     signed e k init_domain
       [(''schema'', PStr init_schema), (''initialized'', PBool True), (''initializedAt'', PFloat (Fin t)),
        (''contentFree'', PBool True)]"

definition anchor_payload :: "ledger_fns \<Rightarrow> string \<Rightarrow> place \<Rightarrow> real \<Rightarrow> fields" where
  "anchor_payload e k p t = signed e k anchor_domain (place_fields anchor_schema p (PFloat (Fin t)))"

text \<open>An atomic write: whether it is reported as failed, and whether it took effect.\<close>

definition put_doc :: "ledger_env \<Rightarrow> (doc_file \<Rightarrow> ledger \<Rightarrow> ledger) \<Rightarrow> fields \<Rightarrow> put_result lprog" where
  "put_doc w store_to d =
     bind (query (put w)) (\<lambda>r.
       seq_ops (if r = Put_Fails False then ret () else modify (store_to (Doc True (PDict d)))) (ret r))"

text \<open>What the caller makes of it: a failure is excused when the file reads back as intended.\<close>

definition confirm :: "put_result \<Rightarrow> bool lprog \<Rightarrow> unit lprog" where
  "confirm r persisted =
     (case r of Put_Done \<Rightarrow> ret () | Put_Unsynced \<Rightarrow> throw Integrity | Put_Fails b \<Rightarrow> bind persisted demand)"

definition ensure_init :: "ledger_env \<Rightarrow> authenticity \<Rightarrow> unit lprog" where
  "ensure_init w a =
     (if \<not> a_anchor a then ret ()
      else (case a_key a of None \<Rightarrow> throw Integrity
            | Some k \<Rightarrow>
                bind (read_init w a) (\<lambda>x.
                  if x \<noteq> None then ret ()
                  else bind (gets l_init) (\<lambda>f. seq_ops (demand (f \<noteq> Not_A_File))
                    (bind (query (wall w)) (\<lambda>t.
                     bind (put_doc w (\<lambda>f s. s\<lparr>l_init := f\<rparr>) (init_payload (lf w) k t)) (\<lambda>r.
                     confirm r (bind (read_init w a) (\<lambda>y. ret (y \<noteq> None))))))))))"

definition write_anchor :: "ledger_env \<Rightarrow> authenticity \<Rightarrow> place \<Rightarrow> unit lprog" where
  "write_anchor w a p =
     (if \<not> a_anchor a then ret ()
      else (case a_key a of None \<Rightarrow> throw Integrity
            | Some k \<Rightarrow>
                seq_ops (ensure_init w a)
                (bind (gets l_anchor) (\<lambda>f. seq_ops (demand (f \<noteq> Not_A_File))
                 (bind (query (wall w)) (\<lambda>t.
                  bind (put_doc w (\<lambda>f s. s\<lparr>l_anchor := f\<rparr>) (anchor_payload (lf w) k p t)) (\<lambda>r.
                  confirm r (bind (read_anchor w a) (\<lambda>y.
                    ret (case y of None \<Rightarrow> False | Some d \<Rightarrow> position_matches d p))))))))))"

definition reconcile_anchor :: "ledger_env \<Rightarrow> authenticity \<Rightarrow> place \<Rightarrow> tables \<Rightarrow> unit lprog" where
  "reconcile_anchor w a p t =
     bind (inspect_anchor w a p t (p = (0, genesis, genesis, genesis))) (\<lambda>st.
       if st = Anchor_Unconfigured \<or> st = Anchor_Verified then ret () else write_anchor w a p)"

definition write_head :: "ledger_env \<Rightarrow> place \<Rightarrow> tables \<Rightarrow> unit lprog" where
  "write_head w p t =
     bind (load_auth w) (\<lambda>a. bind (query (stamp w)) (\<lambda>now.
     bind (put_doc w (\<lambda>f s. s\<lparr>l_head := f\<rparr>) (head_payload (lf w) a p now)) (\<lambda>r.
     seq_ops (confirm r (bind (read_head w a) (\<lambda>(h, _).
        ret (case h of None \<Rightarrow> False | Some d \<Rightarrow> position_matches d p))))
      (reconcile_anchor w a p t))))"

section \<open>Repair\<close>

definition missing_head :: "snapshot \<Rightarrow> bool" where
  "missing_head s \<longleftrightarrow> s_head_state s = Head_Missing \<and> r_exists (s_reading s) \<and> r_events (s_reading s) \<noteq> []"

definition needs_repair :: "snapshot \<Rightarrow> bool" where
  "needs_repair s \<longleftrightarrow>
     s_head_state s = Head_Lagging \<or> s_auth s = Auth_Bootstrap \<or>
     s_anchor s \<in> {Anchor_Bootstrap, Anchor_Lagging, Anchor_Marker} \<or> missing_head s"

definition last_place :: "reading \<Rightarrow> place" where
  "last_place R = (r_sequence R, r_last R, r_last_previous R, r_legacy R)"

definition repair :: "ledger_env \<Rightarrow> snapshot \<Rightarrow> snapshot lprog" where
  "repair w s =
     (let R = s_reading s;
          rewrite = write_head w (last_place R) (r_hashes R, r_previous R) in
      seq_ops
        (if s_head_state s = Head_Lagging \<or> s_auth s = Auth_Bootstrap \<or> missing_head s then rewrite
         else if s_anchor s \<in> {Anchor_Bootstrap, Anchor_Lagging, Anchor_Marker}
              then seq_ops (demand (s_head s \<noteq> None)) rewrite
         else ret ())
      (bind (take_snapshot w) (\<lambda>r.
        seq_ops (demand (s_head_state r \<noteq> Head_Lagging \<and> s_auth r \<noteq> Auth_Bootstrap \<and>
                         s_anchor r \<notin> {Anchor_Bootstrap, Anchor_Lagging, Anchor_Marker}))
        (ret r))))"

text \<open>\<open>_validated_reader_guard\<close>: at most \<open>n\<close> rounds of its loop.\<close>

fun validated :: "ledger_env \<Rightarrow> bool \<Rightarrow> nat \<Rightarrow> snapshot lprog" where
  "validated w allow 0 = throw Unsettled"
| "validated w allow (Suc n) =
     bind (take_snapshot w) (\<lambda>s.
       if \<not> needs_repair s then ret s
       else seq_ops (demand allow)
         (bind (take_snapshot w) (\<lambda>s'.
          seq_ops (if needs_repair s' then bind (repair w s') (\<lambda>_. ret ()) else ret ()) (validated w allow n))))"

definition read_tombstones :: "ledger_env \<Rightarrow> nat \<Rightarrow> fields list lprog" where
  "read_tombstones w n = bind (validated w True n) (\<lambda>s. ret (r_events (s_reading s)))"

section \<open>Appending\<close>

definition create_journal :: "ledger_env \<Rightarrow> snapshot \<Rightarrow> snapshot lprog" where
  "create_journal w s =
     seq_ops (access w)
     (if r_exists (s_reading s) then ret s
      else bind (query (put w)) (\<lambda>r.
        seq_ops (if r = Put_Fails False then ret () else modify (\<lambda>s. s\<lparr>l_journal := Journal []\<rparr>))
        (seq_ops (confirm r (seq_ops (access w) (bind (gets l_journal) (\<lambda>j. ret (j = Journal [])))))
         (take_snapshot w))))"

definition first_head :: "ledger_env \<Rightarrow> snapshot \<Rightarrow> snapshot lprog" where
  "first_head w s =
     (let R = s_reading s in
      if s_head s = None
      then seq_ops (write_head w (0, r_legacy R, genesis, r_legacy R) (r_hashes R, r_previous R)) (take_snapshot w)
      else ret s)"

definition append_bytes :: "ledger_env \<Rightarrow> string \<Rightarrow> unit lprog" where
  "append_bytes w line =
     bind (gets l_journal) (\<lambda>j.
       (case j of
          Journal raw \<Rightarrow>
            seq_ops (access w) (seq_ops (demand (\<not> length raw + length line > max_journal_bytes))
             (bind (query (append_out w)) (\<lambda>r.
               (case r of
                  Append_Done \<Rightarrow> modify (\<lambda>s. s\<lparr>l_journal := Journal (raw @ line)\<rparr>)
                | Append_Fails n \<Rightarrow>
                    seq_ops (modify (\<lambda>s. s\<lparr>l_journal := Journal (raw @ take n line)\<rparr>)) (throw Integrity)))))
        | _ \<Rightarrow> throw Integrity))"

definition next_of :: "ledger_fns \<Rightarrow> fields \<Rightarrow> reading \<Rightarrow> fields" where
  "next_of e d R = build_event e d (r_sequence R + 1) (r_last R)"

definition append_event :: "ledger_env \<Rightarrow> fields \<Rightarrow> snapshot \<Rightarrow> fields lprog" where
  "append_event w d s =
     (let R = s_reading s; ev = next_of (lf w) d R; n = r_sequence R + 1; h = as_text (py_get ev ''eventHash'') in
      seq_ops (append_bytes w (canonical (lf w) ev @ [CHR 10]))
      (seq_ops (write_head w (n, h, r_last R, r_legacy R) ((r_hashes R)(n \<mapsto> h), (r_previous R)(n \<mapsto> r_last R)))
      (bind (take_snapshot w) (\<lambda>v.
       seq_ops (demand (r_sequence (s_reading v) = n \<and> s_head_state v = Head_Current \<and>
                        s_anchor v \<notin> {Anchor_Bootstrap, Anchor_Lagging, Anchor_Marker, Anchor_Uninitialized}))
       (ret ev)))))"

definition append_tombstone :: "ledger_env \<Rightarrow> pyval \<Rightarrow> fields lprog" where
  "append_tombstone w v =
     bind (from_result (canonicalize (lf w) v)) (\<lambda>d.
     bind (take_snapshot w) (\<lambda>s0.
     bind (create_journal w s0) (\<lambda>s1.
     bind (if needs_repair s1 then repair w s1 else ret s1) (\<lambda>s2.
     bind (first_head w s2) (\<lambda>s3. append_event w d s3)))))"

end
