(* ===== verification/Deletion_Receipt.thy ===== *)
theory Deletion_Receipt
  imports Deletion_Ledger
begin

text \<open>
  \<open>evelyn_core/memory_deletion_journal.py\<close>: positions of the ledger as callers see them, the two
  guards that hold a position stable around a caller's work, the status report, and the receipt
  that a memory purge is complete at a position.
\<close>

section \<open>Positions\<close>

record position =
  p_schema :: pyval
  p_root :: pyval
  p_sequence :: pyval
  p_digest :: pyval

definition position_schema :: string where "position_schema = ''memory.deletion.position.v1''"

fun auth_word :: "head_auth \<Rightarrow> string" where
  "auth_word Auth_Missing = ''missing''"
| "auth_word Auth_Bootstrap = ''bootstrap_required''"
| "auth_word Auth_Unconfigured = ''unconfigured''"
| "auth_word Auth_Verified = ''verified''"

fun anchor_word :: "anchor_state \<Rightarrow> string" where
  "anchor_word Anchor_Unconfigured = ''unconfigured''"
| "anchor_word Anchor_Uninitialized = ''uninitialized''"
| "anchor_word Anchor_Bootstrap = ''bootstrap_required''"
| "anchor_word Anchor_Verified = ''verified''"
| "anchor_word Anchor_Marker = ''marker_required''"
| "anchor_word Anchor_Lagging = ''lagging''"

fun head_word :: "head_position \<Rightarrow> string" where
  "head_word Head_Missing = ''missing''"
| "head_word Head_Current = ''current''"
| "head_word Head_Lagging = ''lagging''"

definition snapshot_position :: "snapshot \<Rightarrow> pyval list" where
  "snapshot_position s =
     (let R = s_reading s; h = (case s_head s of None \<Rightarrow> [] | Some d \<Rightarrow> d) in
      [PInt (r_sequence R), PStr (r_last R), PStr (r_last_previous R), PStr (r_legacy R), PBool (r_exists R),
       py_get h ''sequence'', py_get h ''eventHash'', py_get h ''previousHash'', py_get h ''legacyPrefixHash'',
       PStr (auth_word (s_auth s)), PStr (anchor_word (s_anchor s))])"

definition root_digest :: "ledger_env \<Rightarrow> ledger_error + string" where
  "root_digest w =
     (case encode (canonical (lf w) [(''schema'', PStr ''memory.deletion.root-identity.v1''),
                                     (''resolvedIndexRoot'', PStr (root_name w))]) of
        Inl x \<Rightarrow> Inl (Escaped x) | Inr b \<Rightarrow> Inr (sha (lf w) b))"

definition public_position :: "ledger_env \<Rightarrow> snapshot \<Rightarrow> ledger_error + position" where
  "public_position w s =
     bind_r (root_digest w) (\<lambda>root.
       let n = PInt (r_sequence (s_reading s)) in
       Inr \<lparr>p_schema = PStr position_schema, p_root = PStr root, p_sequence = n,
            p_digest = PStr (sha (lf w) (canonical (lf w)
              [(''schema'', PStr position_schema), (''rootDigest'', PStr root), (''sequence'', n),
               (''position'', PList (snapshot_position s))]))\<rparr>)"

definition position_is_valid :: "position \<Rightarrow> bool" where
  "position_is_valid p \<longleftrightarrow>
     p_schema p = PStr position_schema \<and> valid_hash (p_root p) \<noteq> [] \<and> valid_sequence 0 (p_sequence p) \<and>
     valid_hash (p_digest p) \<noteq> []"

definition positions_match :: "position \<Rightarrow> position \<Rightarrow> bool" where
  "positions_match expected current \<longleftrightarrow>
     position_is_valid expected \<and> py_eq (p_sequence expected) (p_sequence current) \<and>
     p_root expected = p_root current \<and> p_digest expected = p_digest current"

definition journal_position :: "ledger_env \<Rightarrow> nat \<Rightarrow> position lprog" where
  "journal_position w n = bind (validated w True n) (\<lambda>s. from_result (public_position w s))"

section \<open>Guards\<close>

definition expected_here :: "position option \<Rightarrow> position \<Rightarrow> unit lprog" where
  "expected_here expected p = demand (case expected of None \<Rightarrow> True | Some x \<Rightarrow> positions_match x p)"

text \<open>\<open>memory_deletion_journal_read_guard\<close> around the caller's work.\<close>

definition with_read_guard ::
    "ledger_env \<Rightarrow> nat \<Rightarrow> position option \<Rightarrow> bool \<Rightarrow> bool \<Rightarrow> (position \<Rightarrow> 'a lprog) \<Rightarrow> 'a lprog" where
  "with_read_guard w n expected steady allow work =
     bind (validated w allow n) (\<lambda>s.
     bind (from_result (public_position w s)) (\<lambda>p.
     seq_ops (expected_here expected p)
     (bind (work p) (\<lambda>x.
      bind (take_snapshot w) (\<lambda>f.
      seq_ops (demand (\<not> needs_repair f))
      (seq_ops (demand (\<not> (steady \<and> snapshot_position f \<noteq> snapshot_position s))) (ret x)))))))"

text \<open>\<open>memory_deletion_journal_guard\<close>, with the writer's lease.\<close>

definition with_write_guard ::
    "ledger_env \<Rightarrow> position option \<Rightarrow> bool \<Rightarrow> (position \<Rightarrow> 'a lprog) \<Rightarrow> 'a lprog" where
  "with_write_guard w expected steady work =
     bind (take_snapshot w) (\<lambda>s0.
     bind (if needs_repair s0 then repair w s0 else ret s0) (\<lambda>s.
     bind (from_result (public_position w s)) (\<lambda>p.
     seq_ops (expected_here expected p)
     (bind (work p) (\<lambda>x.
      bind (take_snapshot w) (\<lambda>f0.
      bind (if needs_repair f0 then repair w f0 else ret f0) (\<lambda>f.
      seq_ops (demand (\<not> (steady \<and> snapshot_position f \<noteq> snapshot_position s))) (ret x))))))))"

section \<open>Purge receipts\<close>

definition receipt_schema :: string where "receipt_schema = ''memory.deletion.purge-receipt.v1''"

definition receipt_domain :: string where "receipt_domain = ''evelyn.memory.deletion.purge-receipt.v1'' @ [CHR 10]"

definition receipt_digest :: "ledger_fns \<Rightarrow> fields \<Rightarrow> string" where
  "receipt_digest e d = sha e (receipt_domain @ canonical e d)"

definition purge_counter :: "pyval \<Rightarrow> ledger_error + int" where
  "purge_counter v = bind_r (need (valid_sequence 0 v)) (\<lambda>_. Inr (as_int v))"

definition status_word :: "bool \<Rightarrow> string" where
  "status_word all_purged = (if all_purged then ''purged'' else ''cleanup_pending'')"

definition receipt_fields :: "int \<Rightarrow> position \<Rightarrow> int \<Rightarrow> int \<Rightarrow> fields" where
  "receipt_fields generation p purged pending =
     [(''schema'', PStr receipt_schema), (''sink'', PStr ''bot_memory''), (''deletionGeneration'', PInt generation),
      (''journalGeneration'', p_sequence p), (''rootDigest'', p_root p), (''positionDigest'', p_digest p),
      (''purgedCount'', PInt purged), (''pendingCount'', PInt pending), (''status'', PStr (status_word (pending = 0))),
      (''complete'', PBool (pending = 0)), (''contentFree'', PBool True)]"

definition build_purge_receipt :: "ledger_env \<Rightarrow> nat \<Rightarrow> pyval \<Rightarrow> pyval \<Rightarrow> pyval \<Rightarrow> fields lprog" where
  "build_purge_receipt w n generation purged pending =
     bind (from_result (purge_counter generation)) (\<lambda>g.
     bind (from_result (purge_counter purged)) (\<lambda>c.
     bind (from_result (purge_counter pending)) (\<lambda>k.
     with_read_guard w n None True True (\<lambda>p.
       let d = receipt_fields g p c k in ret (d @ [(''receiptDigest'', PStr (receipt_digest (lf w) d))])))))"

definition receipt_keys :: "string list" where
  "receipt_keys =
     [''schema'', ''sink'', ''deletionGeneration'', ''journalGeneration'', ''rootDigest'', ''positionDigest'', ''purgedCount'',
      ''pendingCount'', ''status'', ''complete'', ''contentFree'', ''receiptDigest'']"

definition check_receipt :: "ledger_fns \<Rightarrow> pyval \<Rightarrow> pyval option \<Rightarrow> bool \<Rightarrow> ledger_error + fields" where
  "check_receipt e v expected require_complete =
     (case v of
        PDict d \<Rightarrow>
          bind_r (need (exact_keys d receipt_keys)) (\<lambda>_.
          bind_r (purge_counter (py_get d ''deletionGeneration'')) (\<lambda>g.
          bind_r (purge_counter (py_get d ''journalGeneration'')) (\<lambda>_.
          bind_r (purge_counter (py_get d ''purgedCount'')) (\<lambda>_.
          bind_r (purge_counter (py_get d ''pendingCount'')) (\<lambda>k.
          bind_r (need (py_get d ''schema'' = PStr receipt_schema \<and> py_get d ''sink'' = PStr ''bot_memory'' \<and>
                        py_get d ''contentFree'' = PBool True \<and> py_get d ''complete'' = PBool (k = 0) \<and>
                        py_get d ''status'' = PStr (status_word (k = 0)) \<and> valid_hash (py_get d ''rootDigest'') \<noteq> [] \<and>
                        valid_hash (py_get d ''positionDigest'') \<noteq> [] \<and> valid_hash (py_get d ''receiptDigest'') \<noteq> [])) (\<lambda>_.
          bind_r (need (as_text (py_get d ''receiptDigest'') =
                        receipt_digest e (filter (\<lambda>p. fst p \<noteq> ''receiptDigest'') d))) (\<lambda>_.
          bind_r (case expected of None \<Rightarrow> Inr () | Some x \<Rightarrow> bind_r (purge_counter x) (\<lambda>m. need (g = m))) (\<lambda>_.
          bind_r (need (\<not> (require_complete \<and> k \<noteq> 0))) (\<lambda>_. Inr d)))))))))
      | _ \<Rightarrow> Inl Integrity)"

definition validate_purge_receipt ::
    "ledger_env \<Rightarrow> nat \<Rightarrow> pyval \<Rightarrow> pyval option \<Rightarrow> bool \<Rightarrow> fields lprog" where
  "validate_purge_receipt w n v expected require_complete =
     bind (from_result (check_receipt (lf w) v expected require_complete)) (\<lambda>d.
     seq_ops
       (with_read_guard w n None True True (\<lambda>p.
          demand (py_get d ''journalGeneration'' = p_sequence p \<and> py_get d ''rootDigest'' = p_root p \<and>
                  py_get d ''positionDigest'' = p_digest p)))
       (ret d))"

section \<open>Status\<close>

definition journal_status :: "ledger_env \<Rightarrow> nat \<Rightarrow> fields lprog" where
  "journal_status w n =
     bind (validated w True n) (\<lambda>s. bind (load_auth w) (\<lambda>a.
       let initialized = r_exists (s_reading s) \<or> s_head s \<noteq> None \<or> r_events (s_reading s) \<noteq> [];
           protected = a_key a \<noteq> None \<and> a_anchor a \<and> s_auth s = Auth_Verified \<and> s_anchor s = Anchor_Verified
       in ret
         [(''schema'', PStr ''memory.deletion.integrity.v1''),
          (''state'', PStr (if \<not> initialized then ''uninitialized'' else if protected then ''rollback_protected''
                          else ''locally_verified'')),
          (''journalInitialized'', PBool initialized), (''chainHeadState'', PStr (head_word (s_head_state s))),
          (''headAuthenticity'', PStr (auth_word (s_auth s))), (''externalAnchorState'', PStr (anchor_word (s_anchor s))),
          (''authenticityConfigured'', PBool (a_key a \<noteq> None)), (''externalAnchorConfigured'', PBool (a_anchor a)),
          (''rollbackProtected'', PBool protected), (''contentFree'', PBool True)]))"

end
