(* ===== verification/Deletion_Sound.thy ===== *)
theory Deletion_Sound
  imports Deletion_Receipt
begin

text \<open>
  The ledger under faults. \<open>near\<close> describes the states an interrupted append can leave: the journal
  is an accepted chain, the head records its last position or the one before, and the anchor is
  not ahead of the head and at most one event behind the journal. Every operation keeps it,
  whatever fails on the way, unless the write of a line stops in the middle of the line (\<open>tears\<close> in
  \<open>Deletion_Writes\<close>), and in a healthy environment the operations succeed. \<open>ends\<close> is the postcondition of a run,
  one predicate for exceptions and one for results.
\<close>

section \<open>Postconditions\<close>

definition ends :: "(ledger_error \<Rightarrow> ledger \<Rightarrow> bool) \<Rightarrow> ('a \<Rightarrow> ledger \<Rightarrow> bool) \<Rightarrow> 'a lprog \<Rightarrow> ledger \<Rightarrow> bool" where
  "ends P Q m s = (case m s of (Inl x, t) \<Rightarrow> P x t | (Inr v, t) \<Rightarrow> Q v t)"

named_theorems end_rules "rules for the postconditions of the ledger's operations"

lemma ends_ret [end_rules]: "Q v s \<Longrightarrow> ends P Q (ret v) s"
  by (simp add: ends_def ret_def)

lemma ends_throw [end_rules]: "P x s \<Longrightarrow> ends P Q (throw x) s"
  by (simp add: ends_def throw_def)

lemma ends_bind: "ends P (\<lambda>v t. ends P Q (f v) t) m s \<Longrightarrow> ends P Q (bind m f) s"
  by (auto simp: ends_def bind_def split: prod.splits sum.splits)

lemma ends_seq: "ends P (\<lambda>_ t. ends P Q k t) m s \<Longrightarrow> ends P Q (seq_ops m k) s"
  unfolding seq_ops_def by (rule ends_bind)

lemma ends_weaken: "ends P Q m s \<Longrightarrow> (\<And>x t. P x t \<Longrightarrow> P' x t) \<Longrightarrow> (\<And>v t. Q v t \<Longrightarrow> Q' v t) \<Longrightarrow> ends P' Q' m s"
  by (auto simp: ends_def split: prod.splits sum.splits)

lemma ends_query: "Q (f (l_tick s)) (s\<lparr>l_tick := Suc (l_tick s)\<rparr>) \<Longrightarrow> ends P Q (query f) s"
  by (simp add: ends_def query_def)

lemma ends_gets: "Q (f s) s \<Longrightarrow> ends P Q (gets f) s"
  by (simp add: ends_def gets_def)

lemma ends_modify: "Q () (f s) \<Longrightarrow> ends P Q (modify f) s"
  by (simp add: ends_def modify_def)

lemma ends_result: "r = Inr v \<Longrightarrow> Q v s \<Longrightarrow> ends P Q (from_result r) s"
  by (simp add: ends_def from_result_def)

lemma from_result_simps [simp]: "from_result (Inr v) = ret v" "from_result (Inl x) = throw x"
  by (simp_all add: fun_eq_iff from_result_def ret_def throw_def)

lemma ends_demand: "(b \<Longrightarrow> Q () s) \<Longrightarrow> (\<not> b \<Longrightarrow> P Integrity s) \<Longrightarrow> ends P Q (demand b) s"
  by (simp add: ends_def demand_def ret_def throw_def)

text \<open>States that differ in the counter only.\<close>

definition same :: "ledger \<Rightarrow> ledger \<Rightarrow> bool" where
  "same s t \<longleftrightarrow> l_journal t = l_journal s \<and> l_head t = l_head s \<and> l_init t = l_init s \<and> l_anchor t = l_anchor s"

lemma same_refl [simp]: "same s s"
  by (simp add: same_def)

lemma same_tick [simp]: "same s (t\<lparr>l_tick := n\<rparr>) \<longleftrightarrow> same s t"
  by (simp add: same_def)

lemma same_trans: "same s t \<Longrightarrow> same t u \<Longrightarrow> same s u"
  by (simp add: same_def)

section \<open>Environments and states\<close>

definition steady :: "ledger_env \<Rightarrow> authenticity \<Rightarrow> bool" where
  "steady w a \<longleftrightarrow>
     hashes_ok (lf w) \<and> (a_key a = None \<longrightarrow> \<not> a_anchor a) \<and>
     (\<forall>t. auth_at w t \<in> {None, Some a} \<and> timestamp_text (stamp w t) \<and> 0 \<le> wall w t)"

definition healthy :: "ledger_env \<Rightarrow> bool" where
  "healthy w \<longleftrightarrow>
     (\<forall>t. auth_at w t \<noteq> None \<and> \<not> faulty w t \<and> put w t = Put_Done \<and> append_out w t = Append_Done)"

definition place_at :: "ledger_fns \<Rightarrow> chain \<Rightarrow> nat \<Rightarrow> place" where
  "place_at e c k =
     (let l = legacy_anchor e (c_prefix c) in (int k, hash_at e l (chained c) k, prev_at e l (chained c) k, l))"

definition auth_of :: "authenticity \<Rightarrow> head_auth" where
  "auth_of a = (if a_key a = None then Auth_Unconfigured else Auth_Verified)"

definition head_ok :: "ledger_fns \<Rightarrow> authenticity \<Rightarrow> doc_file \<Rightarrow> place \<Rightarrow> bool" where
  "head_ok e a f p \<longleftrightarrow>
     (\<exists>d. f = Doc True (PDict d) \<and> check_head e a True (PDict d) = Inr (d, auth_of a) \<and> position_matches d p)"

definition anchor_ok :: "ledger_fns \<Rightarrow> authenticity \<Rightarrow> doc_file \<Rightarrow> place \<Rightarrow> bool" where
  "anchor_ok e a f p \<longleftrightarrow>
     (\<exists>k d. a_key a = Some k \<and> f = Doc True (PDict d) \<and> check_anchor e k True (PDict d) = Inr d \<and> position_matches d p)"

definition init_ok :: "ledger_fns \<Rightarrow> authenticity \<Rightarrow> doc_file \<Rightarrow> bool" where
  "init_ok e a f \<longleftrightarrow> (\<exists>k d. a_key a = Some k \<and> f = Doc True (PDict d) \<and> check_init e k True (PDict d) = Inr d)"

definition near :: "ledger_fns \<Rightarrow> authenticity \<Rightarrow> chain \<Rightarrow> nat \<Rightarrow> nat \<Rightarrow> ledger \<Rightarrow> bool" where
  "near e a c kh ka s \<longleftrightarrow>
     (\<exists>raw. l_journal s = Journal raw \<and> length raw \<le> max_journal_bytes \<and> read_chain e raw = Inr c) \<and>
     head_ok e a (l_head s) (place_at e c kh) \<and> kh \<le> length (chained c) \<and> length (chained c) \<le> kh + 1 \<and>
     (a_anchor a \<longrightarrow>
      init_ok e a (l_init s) \<and> anchor_ok e a (l_anchor s) (place_at e c ka) \<and> ka \<le> kh \<and> length (chained c) \<le> ka + 1)"

lemma near_same: "near e a c kh ka s \<Longrightarrow> same s t \<Longrightarrow> near e a c kh ka t"
  by (auto simp: near_def same_def)

text \<open>An exception in a run that was not healthy, with a property of the state it leaves.\<close>

definition failing :: "bool \<Rightarrow> (ledger \<Rightarrow> bool) \<Rightarrow> ledger_error \<Rightarrow> ledger \<Rightarrow> bool" where
  "failing f I x t \<longleftrightarrow> f \<and> x = Integrity \<and> I t"

lemma failing_weaken: "failing f I x t \<Longrightarrow> (f \<Longrightarrow> g) \<Longrightarrow> (\<And>t. I t \<Longrightarrow> J t) \<Longrightarrow> failing g J x t"
  by (simp add: failing_def)

section \<open>Reading\<close>

lemma ends_access:
  assumes "\<not> healthy w \<longrightarrow> f" "\<And>t. same s t \<Longrightarrow> Q () t"
  shows "ends (failing f (same s)) Q (access w) s"
  unfolding access_def
  by (intro ends_bind ends_query ends_demand) (use assms in \<open>auto simp: failing_def healthy_def\<close>)

lemma ends_load_auth:
  assumes "steady w a" "\<not> healthy w \<longrightarrow> f" "\<And>t. same s t \<Longrightarrow> Q a t"
  shows "ends (failing f (same s)) Q (load_auth w) s"
proof -
  have "auth_at w (l_tick s) = None \<or> auth_at w (l_tick s) = Some a" using assms(1) by (auto simp: steady_def)
  then show ?thesis
    unfolding load_auth_def
    by (intro ends_bind ends_query) (use assms(2,3) in \<open>auto simp: failing_def healthy_def intro!: ends_throw ends_ret\<close>)
qed

lemma failing_same: "same s u \<Longrightarrow> failing f (same u) x t \<Longrightarrow> failing f (same s) x t"
  by (auto simp: failing_def intro: same_trans)

text \<open>Continuing after a step that kept the files.\<close>

lemma ends_then:
  assumes "ends (failing f (same s)) R m s" "\<And>v u. R v u \<Longrightarrow> ends P Q (k v) u" "\<And>x t. failing f (same s) x t \<Longrightarrow> P x t"
  shows "ends P Q (bind m k) s"
  by (rule ends_bind, rule ends_weaken [OF assms(1)]) (use assms in auto)

lemma ends_then_seq:
  assumes "ends (failing f (same s)) R m s" "\<And>v u. R v u \<Longrightarrow> ends P Q k u" "\<And>x t. failing f (same s) x t \<Longrightarrow> P x t"
  shows "ends P Q (seq_ops m k) s"
  unfolding seq_ops_def by (rule ends_then [OF assms(1)]) (use assms in auto)

lemma ends_read_journal:
  assumes "near e a c kh ka s" "lf w = e" "\<not> healthy w \<longrightarrow> f"
  shows "ends (failing f (same s)) (\<lambda>R t. R = finish_reading e c \<and> same s t) (read_journal w) s"
proof -
  obtain raw where j: "l_journal s = Journal raw" "length raw \<le> max_journal_bytes" "read_chain e raw = Inr c"
    using assms(1) by (auto simp: near_def)
  have r: "read_bytes (lf w) raw = Inr (finish_reading e c)" using j(3) assms(2) by (simp add: read_bytes_def)
  show ?thesis
    unfolding read_journal_def
  proof (rule ends_then_seq [OF ends_access [where Q = "\<lambda>_ t. same s t", OF assms(3)]])
    fix u assume u: "same s u"
    then have "l_journal u = Journal raw" using j(1) by (simp add: same_def)
    then show "ends (failing f (same s)) (\<lambda>R t. R = finish_reading e c \<and> same s t)
       (bind (gets l_journal) (\<lambda>j. case j of No_Journal \<Rightarrow> ret absent_reading | Bad_Journal \<Rightarrow> throw Integrity
          | Journal raw \<Rightarrow> if length raw > max_journal_bytes then throw Integrity else from_result (read_bytes (lf w) raw))) u"
      using u j(2) r by (intro ends_bind ends_gets) (simp add: ends_ret)
  qed simp_all
qed

lemma ends_read_doc:
  assumes "\<not> healthy w \<longrightarrow> f" "f' s = Doc b v" "\<And>t. same s t \<Longrightarrow> f' t = f' s"
  shows "ends (failing f (same s)) (\<lambda>x t. x = Some (b, v) \<and> same s t) (read_doc w f') s"
  unfolding read_doc_def
proof (rule ends_then_seq [OF ends_access [where Q = "\<lambda>_ t. same s t", OF assms(1)]])
  fix u assume u: "same s u"
  then have "f' u = Doc b v" using assms(2) assms(3) [OF u] by (simp only:)
  then show "ends (failing f (same s)) (\<lambda>x t. x = Some (b, v) \<and> same s t)
      (bind (gets f') (\<lambda>x. case x of No_Doc \<Rightarrow> ret None | Doc c v \<Rightarrow> ret (Some (c, v)) | _ \<Rightarrow> throw Integrity)) u"
    using u by - (rule ends_bind, rule ends_gets, simp only: doc_file.case, rule ends_ret, simp)
qed simp_all

lemma ends_read_head:
  assumes "head_ok e a (l_head s) p" "lf w = e" "\<not> healthy w \<longrightarrow> f"
  shows "ends (failing f (same s))
     (\<lambda>(h, au) t. (\<exists>d. h = Some d \<and> position_matches d p \<and> position_fields_ok d) \<and> au = auth_of a \<and> same s t) (read_head w a) s"
proof -
  obtain d where d: "l_head s = Doc True (PDict d)" "check_head e a True (PDict d) = Inr (d, auth_of a)" "position_matches d p"
    using assms(1) by (auto simp: head_ok_def)
  then have pf: "position_fields_ok d" by (auto simp: check_head_def bind_r_Inr)
  have r: "ends (failing f (same s)) (\<lambda>x t. x = Some (True, PDict d) \<and> same s t) (read_doc w l_head) s"
    using assms(3) d(1) by (intro ends_read_doc) (simp_all add: same_def)
  show ?thesis
    unfolding read_head_def
    by (rule ends_then [OF r]) (use assms(2) d pf in \<open>auto intro!: ends_bind ends_result ends_ret\<close>)
qed

lemma ends_read_signed:
  assumes "a_anchor a" "a_key a = Some k" "f' s = Doc True (PDict d)" "chk k True (PDict d) = Inr d"
    and "\<not> healthy w \<longrightarrow> f" "\<And>t. same s t \<Longrightarrow> f' t = f' s"
  shows "ends (failing f (same s)) (\<lambda>x t. x = Some d \<and> same s t) (read_signed w a f' chk) s"
proof -
  have "ends (failing f (same s)) (\<lambda>x t. x = Some d \<and> same s t)
      (bind (read_doc w f') (\<lambda>x. case x of None \<Rightarrow> ret None | Some (c, v) \<Rightarrow> bind (from_result (chk k c v)) (\<lambda>d. ret (Some d)))) s"
  proof (rule ends_then)
    show "ends (failing f (same s)) (\<lambda>x t. x = Some (True, PDict d) \<and> same s t) (read_doc w f') s"
      by (rule ends_read_doc [where f' = f' and b = True and v = "PDict d", OF assms(5,3)]) (rule assms(6))
  qed (use assms(4) in \<open>auto intro!: ends_bind ends_result ends_ret\<close>)
  with assms(1,2) show ?thesis by (simp add: read_signed_def)
qed

lemma ends_read_anchor:
  assumes "a_anchor a" "anchor_ok (lf w) a (l_anchor s) p" "\<not> healthy w \<longrightarrow> f"
  shows "ends (failing f (same s)) (\<lambda>x t. (\<exists>d. x = Some d \<and> position_matches d p) \<and> same s t) (read_anchor w a) s"
proof -
  obtain k d where d: "a_key a = Some k" "l_anchor s = Doc True (PDict d)" "check_anchor (lf w) k True (PDict d) = Inr d"
      "position_matches d p"
    using assms(2) by (auto simp: anchor_ok_def)
  show ?thesis
    unfolding read_anchor_def
    by (rule ends_weaken [OF ends_read_signed [where f' = l_anchor and chk = "check_anchor (lf w)", OF assms(1) d(1,2,3) assms(3)]])
      (use d(4) in \<open>auto simp: same_def\<close>)
qed

lemma ends_read_init:
  assumes "a_anchor a" "init_ok (lf w) a (l_init s)" "\<not> healthy w \<longrightarrow> f"
  shows "ends (failing f (same s)) (\<lambda>x t. x \<noteq> None \<and> same s t) (read_init w a) s"
proof -
  obtain k d where d: "a_key a = Some k" "l_init s = Doc True (PDict d)" "check_init (lf w) k True (PDict d) = Inr d"
    using assms(2) by (auto simp: init_ok_def)
  show ?thesis
    unfolding read_init_def
    by (rule ends_weaken [OF ends_read_signed [where f' = l_init and chk = "check_init (lf w)", OF assms(1) d(1,2,3) assms(3)]])
      (auto simp: same_def)
qed

section \<open>Places\<close>

lemma position_unique: "position_fields_ok d \<Longrightarrow> position_matches d p \<Longrightarrow> position_matches d q \<longleftrightarrow> q = p"
  by (cases p; cases q) (auto simp: position_matches_def position_fields_ok_def valid_sequence_def split: pyval.splits)

lemma place_at_inject [simp]: "place_at e c k = place_at e c j \<longleftrightarrow> k = j"
  by (auto simp: place_at_def Let_def)

definition good_tables :: "ledger_fns \<Rightarrow> chain \<Rightarrow> tables \<Rightarrow> bool" where
  "good_tables e c t \<longleftrightarrow> (\<forall>k\<le>length (chained c). tabled t (legacy_anchor e (c_prefix c)) (int k) = place_at e c k)"

lemma reading_tables: "read_chain e raw = Inr c \<Longrightarrow> good_tables e c (r_hashes (finish_reading e c), r_previous (finish_reading e c))"
  by (simp add: good_tables_def reading_of tabled_def table_def or_else_def place_at_def Let_def)

lemma last_place_at: "read_chain e raw = Inr c \<Longrightarrow> last_place (finish_reading e c) = place_at e c (length (chained c))"
  by (simp add: last_place_def reading_of place_at_def Let_def)

lemma place_hex:
  assumes "hashes_ok e"
  obtains h q l where "place_at e c k = (int k, h, q, l)" "hex_run 64 h" "hex_run 64 q" "hex_run 64 l" "l = legacy_anchor e (c_prefix c)"
proof -
  have g: "hex_run 64 genesis" by (simp add: genesis_def hex_run_def hex_digit_def list_all_iff)
  have l: "hex_run 64 (legacy_anchor e (c_prefix c))" using hash_at_hex [OF assms, of "c_prefix c" "[]" 0] by (simp add: hash_at_def)
  show thesis
    using that hash_at_hex [OF assms] g l by (simp add: place_at_def Let_def prev_at_def)
qed

definition anchor_state_at :: "authenticity \<Rightarrow> nat \<Rightarrow> nat \<Rightarrow> anchor_state" where
  "anchor_state_at a ka k = (if \<not> a_anchor a then Anchor_Unconfigured else if ka = k then Anchor_Verified else Anchor_Lagging)"

lemma anchor_matches:
  assumes "anchor_ok e a f (place_at e c ka)" "k \<le> ka + 1" "ka \<le> k"
  shows "\<exists>key d. a_key a = Some key \<and> f = Doc True (PDict d) \<and> check_anchor e key True (PDict d) = Inr d \<and>
     (position_matches d (place_at e c k) \<longleftrightarrow> ka = k) \<and> (ka \<noteq> k \<longrightarrow> position_matches d (place_at e c (k - 1)))"
proof -
  obtain key d where d: "a_key a = Some key" "f = Doc True (PDict d)" "check_anchor e key True (PDict d) = Inr d"
      "position_matches d (place_at e c ka)"
    using assms(1) by (auto simp: anchor_ok_def)
  then have "position_fields_ok d" by (auto simp: check_anchor_def bind_r_Inr)
  then have u: "position_matches d (place_at e c j) \<longleftrightarrow> j = ka" for j using position_unique [OF _ d(4)] by simp
  moreover have "ka \<noteq> k \<Longrightarrow> k - 1 = ka" using assms(2,3) by simp
  ultimately show ?thesis using d by auto
qed

lemma ends_inspect:
  assumes a: "a_anchor a \<Longrightarrow> init_ok e a (l_init s) \<and> anchor_ok e a (l_anchor s) (place_at e c ka) \<and> ka \<le> k \<and> k \<le> ka + 1"
    and "k \<le> length (chained c)" "good_tables e c t" "lf w = e" "\<not> healthy w \<longrightarrow> f"
  shows "ends (failing f (same s)) (\<lambda>st u. st = anchor_state_at a ka k \<and> same s u) (inspect_anchor w a (place_at e c k) t allow) s"
proof (cases "a_anchor a")
  case False
  then show ?thesis by (simp add: inspect_anchor_def anchor_state_at_def ends_ret)
next
  case True
  note ok = a [OF True]
  obtain key d where d: "a_key a = Some key" "l_anchor s = Doc True (PDict d)" "check_anchor (lf w) key True (PDict d) = Inr d"
     "position_matches d (place_at e c k) \<longleftrightarrow> ka = k" "ka \<noteq> k \<longrightarrow> position_matches d (place_at e c (k - 1))"
    using anchor_matches [of e a "l_anchor s" c ka k] ok assms(4) by blast
  have prior: "tabled t (legacy_anchor e (c_prefix c)) (int k - 1) = place_at e c (k - 1)" if "ka \<noteq> k"
  proof -
    have "int k - 1 = int (k - 1)" "k - 1 \<le> length (chained c)" using that ok assms(2) by simp_all
    then show ?thesis using assms(3) unfolding good_tables_def by metis
  qed
  obtain h q where p: "place_at e c k = (int k, h, q, legacy_anchor e (c_prefix c))"
    by (simp add: place_at_def Let_def)
  have step: "ends (failing f (same s)) (\<lambda>st u. st = anchor_state_at a ka k \<and> same s u)
     (case Some d of None \<Rightarrow> m
      | Some d \<Rightarrow> (case place_at e c k of (n, h, q, l) \<Rightarrow>
         if position_matches d (place_at e c k) then ret (if ini \<noteq> None then Anchor_Verified else Anchor_Marker)
         else if n - 1 \<ge> 0 \<and> position_matches d (tabled t l (n - 1)) then ret (if ini \<noteq> None then Anchor_Lagging else Anchor_Marker)
         else throw Integrity)) u"
    if "same s u" "ini \<noteq> None" for u m and ini :: "fields option"
  proof (cases "ka = k")
    case True
    then show ?thesis using that d(4) p \<open>a_anchor a\<close> by (simp add: anchor_state_at_def ends_ret)
  next
    case False
    then have "int k - 1 \<ge> 0" using ok by simp
    then show ?thesis using that d(4,5) p prior False \<open>a_anchor a\<close> by (simp add: anchor_state_at_def ends_ret)
  qed
  have anc: "ends (failing f (same u)) (\<lambda>x t. x = Some d \<and> same u t) (read_anchor w a) u" if "same s u" for u
    unfolding read_anchor_def
  proof (rule ends_read_signed [where f' = l_anchor and chk = "check_anchor (lf w)", OF True d(1) _ d(3) assms(5)])
    show "l_anchor u = Doc True (PDict d)" using that d(2) by (simp add: same_def)
  qed (simp add: same_def)
  show ?thesis
    unfolding inspect_anchor_def if_not_P [OF not_not [THEN iffD2, OF True]]
  proof (rule ends_then)
    show "ends (failing f (same s)) (\<lambda>x t. x \<noteq> None \<and> same s t) (read_init w a) s"
      using ends_read_init [OF True _ assms(5)] ok assms(4) by simp
  next
    fix ini u assume i: "ini \<noteq> (None :: fields option) \<and> same s u"
    show "ends (failing f (same s)) (\<lambda>st u. st = anchor_state_at a ka k \<and> same s u)
      (bind (read_anchor w a) (\<lambda>anc. case anc of
           None \<Rightarrow> if ini \<noteq> None then throw Integrity else if allow then ret Anchor_Uninitialized
             else if a_bootstrap a then ret Anchor_Bootstrap else throw Integrity
         | Some d \<Rightarrow> (case place_at e c k of (n, h, q, l) \<Rightarrow>
             if position_matches d (place_at e c k) then ret (if ini \<noteq> None then Anchor_Verified else Anchor_Marker)
             else if n - 1 \<ge> 0 \<and> position_matches d (tabled t l (n - 1)) then ret (if ini \<noteq> None then Anchor_Lagging else Anchor_Marker)
             else throw Integrity))) u"
    proof (rule ends_then [OF anc])
      fix x v assume "x = Some d \<and> same u v"
      then show "ends (failing f (same s)) (\<lambda>st u. st = anchor_state_at a ka k \<and> same s u)
        (case x of
           None \<Rightarrow> if ini \<noteq> None then throw Integrity else if allow then ret Anchor_Uninitialized
             else if a_bootstrap a then ret Anchor_Bootstrap else throw Integrity
         | Some d \<Rightarrow> (case place_at e c k of (n, h, q, l) \<Rightarrow>
             if position_matches d (place_at e c k) then ret (if ini \<noteq> None then Anchor_Verified else Anchor_Marker)
             else if n - 1 \<ge> 0 \<and> position_matches d (tabled t l (n - 1)) then ret (if ini \<noteq> None then Anchor_Lagging else Anchor_Marker)
             else throw Integrity)) v"
        using step i same_trans [of s u v] by blast
    qed (use i failing_same in auto)
  qed simp_all
qed

section \<open>Snapshots\<close>

definition head_at :: "ledger_fns \<Rightarrow> chain \<Rightarrow> nat \<Rightarrow> fields option \<Rightarrow> bool" where
  "head_at e c k h \<longleftrightarrow> (\<exists>d. h = Some d \<and> position_matches d (place_at e c k) \<and> position_fields_ok d)"

lemma head_at_some: "head_at e c k h \<Longrightarrow> h \<noteq> None"
  by (auto simp: head_at_def)

definition snap_ok :: "ledger_fns \<Rightarrow> authenticity \<Rightarrow> chain \<Rightarrow> nat \<Rightarrow> nat \<Rightarrow> snapshot \<Rightarrow> bool" where
  "snap_ok e a c kh ka x \<longleftrightarrow>
     s_reading x = finish_reading e c \<and> head_at e c kh (s_head x) \<and>
     s_head_state x = (if kh = length (chained c) then Head_Current else Head_Lagging) \<and>
     s_auth x = auth_of a \<and> s_anchor x = anchor_state_at a ka kh"

lemma place_fields:
  assumes "position_fields_ok d" "position_matches d (place_at e c k)"
  defines "l \<equiv> legacy_anchor e (c_prefix c)"
  shows "as_int (py_get d ''sequence'') = int k" "as_text (py_get d ''eventHash'') = hash_at e l (chained c) k"
    "as_text (py_get d ''previousHash'') = prev_at e l (chained c) k"
  using assms(1,2) by (auto simp: position_fields_ok_def position_matches_def place_at_def Let_def valid_sequence_def as_int_def
      as_text_def l_def split: pyval.splits)

lemma head_place_ok:
  assumes "read_chain e raw = Inr c" "position_fields_ok d" "position_matches d (place_at e c k)"
    and "k \<le> length (chained c)" "length (chained c) \<le> k + 1"
  shows "head_place a (finish_reading e c) (Some d) =
    Inr (if k = length (chained c) then Head_Current else Head_Lagging, place_at e c k)"
proof -
  let ?R = "finish_reading e c"
  have "tabled (r_hashes ?R, r_previous ?R) (r_legacy ?R) (int k) = place_at e c k"
    using reading_tables [OF assms(1)] assms(4) by (simp add: good_tables_def reading_of(5) [OF assms(1)])
  then show ?thesis
    using assms(3-5) place_fields [OF assms(2,3)]
    by (simp add: head_place_def Let_def reading_of [OF assms(1)] place_at_def)
qed

lemma ends_snapshot:
  assumes n: "near e a c kh ka s" and w: "steady w a" "lf w = e" "\<not> healthy w \<longrightarrow> f"
  shows "ends (failing f (same s)) (\<lambda>x t. snap_ok e a c kh ka x \<and> same s t) (take_snapshot w) s"
  unfolding take_snapshot_def
proof (rule ends_then [OF ends_load_auth [where Q = "\<lambda>x t. x = a \<and> same s t", OF w(1,3)]])
  let ?R = "finish_reading e c"
  obtain raw where raw: "read_chain e raw = Inr c" using n by (auto simp: near_def)
  fix x u assume "x = a \<and> same s u"
  then have x: "x = a" and su: "same s u" and nu: "near e a c kh ka u" using near_same [OF n] by auto
  show "ends (failing f (same s)) (\<lambda>x t. snap_ok e a c kh ka x \<and> same s t)
     (bind (read_journal w) (\<lambda>R. bind (read_head w x) (\<lambda>(head, au). bind (from_result (head_place x R head)) (\<lambda>(hs, p).
       bind (inspect_anchor w x p (r_hashes R, r_previous R) (head = None \<and> r_sequence R = 0 \<and> r_events R = [])) (\<lambda>an.
         ret \<lparr>s_reading = R, s_head = head, s_head_state = hs, s_auth = au, s_anchor = an\<rparr>))))) u"
    unfolding x
  proof (rule ends_then [OF ends_read_journal [OF nu w(2,3)]])
    fix R v assume "R = ?R \<and> same u v"
    then have R: "R = ?R" and sv: "same s v" and nv: "near e a c kh ka v"
      using same_trans [OF su] near_same [OF nu] by auto
    have hv: "head_ok e a (l_head v) (place_at e c kh)" using nv by (simp add: near_def)
    show "ends (failing f (same s)) (\<lambda>x t. snap_ok e a c kh ka x \<and> same s t)
       (bind (read_head w a) (\<lambda>(head, au). bind (from_result (head_place a R head)) (\<lambda>(hs, p).
         bind (inspect_anchor w a p (r_hashes R, r_previous R) (head = None \<and> r_sequence R = 0 \<and> r_events R = [])) (\<lambda>an.
           ret \<lparr>s_reading = R, s_head = head, s_head_state = hs, s_auth = au, s_anchor = an\<rparr>)))) v"
      unfolding R
    proof (rule ends_then [OF ends_read_head [OF hv w(2,3)]], clarify)
      fix d t assume d: "position_matches d (place_at e c kh)" "position_fields_ok d" and vt: "same v t"
      then have st: "same s t" and nt: "near e a c kh ka t" using same_trans [OF sv] near_same [OF nv] by auto
      have k: "kh \<le> length (chained c)" "length (chained c) \<le> kh + 1" using nt by (simp_all add: near_def)
      have ins: "ends (failing f (same t)) (\<lambda>st u. st = anchor_state_at a ka kh \<and> same t u)
          (inspect_anchor w a (place_at e c kh) (r_hashes ?R, r_previous ?R) False) t"
      proof (rule ends_inspect)
        show "a_anchor a \<Longrightarrow> init_ok e a (l_init t) \<and> anchor_ok e a (l_anchor t) (place_at e c ka) \<and> ka \<le> kh \<and> kh \<le> ka + 1"
          using nt k by (simp add: near_def)
      qed (use k reading_tables [OF raw] w(2,3) in simp_all)
      have "ends (failing f (same s)) (\<lambda>x t. snap_ok e a c kh ka x \<and> same s t)
         (bind (inspect_anchor w a (place_at e c kh) (r_hashes ?R, r_previous ?R) False) (\<lambda>an.
            ret \<lparr>s_reading = ?R, s_head = Some d,
                 s_head_state = (if kh = length (chained c) then Head_Current else Head_Lagging), s_auth = auth_of a, s_anchor = an\<rparr>)) t"
      proof (rule ends_then [OF ins])
        fix st u assume "st = anchor_state_at a ka kh \<and> same t u"
        then show "ends (failing f (same s)) (\<lambda>x t. snap_ok e a c kh ka x \<and> same s t)
          (ret \<lparr>s_reading = ?R, s_head = Some d,
                 s_head_state = (if kh = length (chained c) then Head_Current else Head_Lagging), s_auth = auth_of a, s_anchor = st\<rparr>) u"
          using same_trans [OF st, of u] d by (intro ends_ret) (simp add: snap_ok_def head_at_def)
      qed (rule failing_same [OF st])
      then show "ends (failing f (same s)) (\<lambda>x t. snap_ok e a c kh ka x \<and> same s t)
         (bind (from_result (head_place a ?R (Some d))) (\<lambda>(hs, p).
           bind (inspect_anchor w a p (r_hashes ?R, r_previous ?R) (Some d = None \<and> r_sequence ?R = 0 \<and> r_events ?R = [])) (\<lambda>an.
             ret \<lparr>s_reading = ?R, s_head = Some d, s_head_state = hs, s_auth = auth_of a, s_anchor = an\<rparr>))) t"
        unfolding head_place_ok [OF raw d(2,1) k] from_result_simps
        by (intro ends_bind ends_ret) simp
    qed (use sv failing_same in auto)
  qed (use su failing_same in auto)
qed simp_all

section \<open>What is written\<close>

lemma py_get_signed:
  "k \<notin> set auth_keys \<Longrightarrow> py_get (signed e key domain d) k = py_get d k"
  by (simp add: signed_def Let_def py_get_def auth_keys_def map_of_append map_add_def split: option.splits)

lemma signed_checks:
  assumes "hashes_ok e" "set (map fst d) \<inter> set auth_keys = {}"
  shows "signed_by e key (signed e key domain d)" "tag_matches e key domain (signed e key domain d)"
    "set (map fst (signed e key domain d)) = set (map fst d) \<union> set auth_keys"
proof -
  have n: "k \<notin> set (map fst d)" if "k \<in> set auth_keys" for k using assms(2) that by blast
  then have "map_of d ''authAlgorithm'' = None" "map_of d ''authScope'' = None" "map_of d ''authKeyId'' = None"
      "map_of d ''authTag'' = None" by (simp_all add: map_of_eq_None_iff auth_keys_def)
  then have g: "py_get (signed e key domain d) ''authAlgorithm'' = PStr ''hmac-sha256''"
      "py_get (signed e key domain d) ''authScope'' = PStr ''memory.deletion-journal''"
      "py_get (signed e key domain d) ''authKeyId'' = PStr (key_id e key)"
    by (simp_all add: signed_def Let_def py_get_def map_add_def)
  then show "signed_by e key (signed e key domain d)" by (simp add: signed_by_def)
  let ?u = "d @ [(''authAlgorithm'', PStr ''hmac-sha256''), (''authScope'', PStr ''memory.deletion-journal''),
                   (''authKeyId'', PStr (key_id e key))]"
  have "filter (\<lambda>p. fst p \<noteq> ''authTag'') d = d"
    using n [of "''authTag''"] by (force simp: filter_id_conv auth_keys_def image_iff)
  then have "filter (\<lambda>p. fst p \<noteq> ''authTag'') (signed e key domain d) = ?u" by (simp add: signed_def Let_def)
  moreover have "py_get (signed e key domain d) ''authTag'' = PStr (auth_tag e key domain ?u)"
    using \<open>map_of d ''authTag'' = None\<close> by (simp add: signed_def Let_def py_get_def map_add_def)
  moreover have "hex_run 64 (auth_tag e key domain ?u)" using assms(1) by (simp add: auth_tag_def)
  ultimately show "tag_matches e key domain (signed e key domain d)" by (simp add: tag_matches_def)
  show "set (map fst (signed e key domain d)) = set (map fst d) \<union> set auth_keys"
    by (auto simp: signed_def Let_def auth_keys_def)
qed

lemma place_fields_get:
  "py_get (place_fields sch (n, h, q, l) t) ''schema'' = PStr sch" "py_get (place_fields sch (n, h, q, l) t) ''sequence'' = PInt n"
  "py_get (place_fields sch (n, h, q, l) t) ''eventHash'' = PStr h" "py_get (place_fields sch (n, h, q, l) t) ''previousHash'' = PStr q"
  "py_get (place_fields sch (n, h, q, l) t) ''legacyPrefixHash'' = PStr l" "py_get (place_fields sch (n, h, q, l) t) ''updatedAt'' = t"
  "py_get (place_fields sch (n, h, q, l) t) ''contentFree'' = PBool True"
  "set (map fst (place_fields sch (n, h, q, l) t)) = set head_keys"
  by (simp_all add: place_fields_def py_get_def head_keys_def)

lemma head_keys_plain: "set head_keys \<inter> set auth_keys = {}"
  by (simp add: head_keys_def auth_keys_def)

lemma not_auth_key:
  "''schema'' \<notin> set auth_keys" "''sequence'' \<notin> set auth_keys" "''eventHash'' \<notin> set auth_keys" "''previousHash'' \<notin> set auth_keys"
  "''legacyPrefixHash'' \<notin> set auth_keys" "''updatedAt'' \<notin> set auth_keys" "''contentFree'' \<notin> set auth_keys"
  "''initialized'' \<notin> set auth_keys" "''initializedAt'' \<notin> set auth_keys"
  by (simp_all add: auth_keys_def)

lemma schemas_differ: "signed_head_schema \<noteq> head_schema"
  by (simp add: head_schema_def signed_head_schema_def)

lemma head_payload_ok:
  assumes "hashes_ok e" "timestamp_text t"
  shows "head_ok e a (Doc True (PDict (head_payload e a (place_at e c k) t))) (place_at e c k)"
proof -
  obtain h q l where p: "place_at e c k = (int k, h, q, l)" "hex_run 64 h" "hex_run 64 q" "hex_run 64 l"
    by (rule place_hex [OF assms(1), of c k])
  show ?thesis
  proof (cases "a_key a")
    case None
    then show ?thesis
      using assms(2) p unfolding head_ok_def p(1)
      by (simp add: head_payload_def check_head_def verify_head_def place_fields_get exact_keys_def position_fields_ok_def
          valid_sequence_def valid_timestamp_def auth_of_def position_matches_def del: list.set_map set_map)
  next
    case (Some key)
    let ?d = "place_fields signed_head_schema (int k, h, q, l) (PStr t)"
    have s: "signed_by e key (signed e key head_domain ?d)" "tag_matches e key head_domain (signed e key head_domain ?d)"
        "set (map fst (signed e key head_domain ?d)) = set head_keys \<union> set auth_keys"
      using signed_checks [OF assms(1), of ?d key head_domain] head_keys_plain
      unfolding place_fields_get by blast+
    show ?thesis
      using assms(2) p Some s schemas_differ unfolding head_ok_def p(1)
      by (simp add: head_payload_def check_head_def verify_head_def py_get_signed not_auth_key place_fields_get exact_keys_def
          position_fields_ok_def valid_sequence_def valid_timestamp_def auth_of_def position_matches_def del: set_map)
  qed
qed

lemma anchor_payload_ok:
  assumes "hashes_ok e" "0 \<le> t" "a_key a = Some key"
  shows "anchor_ok e a (Doc True (PDict (anchor_payload e key (place_at e c k) t))) (place_at e c k)"
proof -
  obtain h q l where p: "place_at e c k = (int k, h, q, l)" "hex_run 64 h" "hex_run 64 q" "hex_run 64 l"
    by (rule place_hex [OF assms(1), of c k])
  let ?d = "place_fields anchor_schema (int k, h, q, l) (PFloat (Fin t))"
  have s: "signed_by e key (signed e key anchor_domain ?d)" "tag_matches e key anchor_domain (signed e key anchor_domain ?d)"
      "set (map fst (signed e key anchor_domain ?d)) = set head_keys \<union> set auth_keys"
    using signed_checks [OF assms(1), of ?d key anchor_domain] head_keys_plain
    unfolding place_fields_get by blast+
  then show ?thesis
    using assms(2,3) p unfolding anchor_ok_def p(1)
    by (simp add: anchor_payload_def check_anchor_def py_get_signed not_auth_key place_fields_get exact_keys_def clock_value_def
        position_fields_ok_def valid_sequence_def position_matches_def del: set_map)
qed

lemma init_payload_ok:
  assumes "hashes_ok e" "0 \<le> t" "a_key a = Some key"
  shows "init_ok e a (Doc True (PDict (init_payload e key t)))"
proof -
  let ?d = "[(''schema'', PStr init_schema), (''initialized'', PBool True), (''initializedAt'', PFloat (Fin t)), (''contentFree'', PBool True)]"
  have k: "set (map fst ?d) = {''schema'', ''initialized'', ''initializedAt'', ''contentFree''}" by simp
  have s: "signed_by e key (signed e key init_domain ?d)" "tag_matches e key init_domain (signed e key init_domain ?d)"
      "set (map fst (signed e key init_domain ?d)) = set init_keys"
    using signed_checks [OF assms(1), of ?d key init_domain] unfolding k by (auto simp: auth_keys_def init_keys_def)
  have g: "py_get ?d ''schema'' = PStr init_schema" "py_get ?d ''initialized'' = PBool True" "py_get ?d ''contentFree'' = PBool True"
      "py_get ?d ''initializedAt'' = PFloat (Fin t)" by (simp_all add: py_get_def)
  show ?thesis
    using assms(2,3) s unfolding init_ok_def
    by (simp add: init_payload_def check_init_def py_get_signed not_auth_key g exact_keys_def clock_value_def del: set_map)
qed

end
