(* ===== verification/Deletion_Writes.thy ===== *)
theory Deletion_Writes
  imports Deletion_Sound
begin

text \<open>
  The writes of the ledger under faults: rewriting the head and the anchor, repair, appending an
  event, and the operations built from them. Each keeps \<open>near\<close> whatever fails, leaves head and
  anchor at the last event when it succeeds, and succeeds in a healthy environment.
\<close>

definition nears :: "ledger_fns \<Rightarrow> authenticity \<Rightarrow> chain \<Rightarrow> ledger \<Rightarrow> bool" where
  "nears e a c s \<longleftrightarrow> (\<exists>kh ka. near e a c kh ka s)"

abbreviation full_length :: "chain \<Rightarrow> nat" where
  "full_length c \<equiv> length (chained c)"

definition settled :: "ledger_fns \<Rightarrow> authenticity \<Rightarrow> chain \<Rightarrow> ledger \<Rightarrow> bool" where
  "settled e a c s \<longleftrightarrow> near e a c (full_length c) (full_length c) s"

lemma settled_nears: "settled e a c s \<Longrightarrow> nears e a c s"
  by (auto simp: settled_def nears_def)

lemma nears_same: "nears e a c s \<Longrightarrow> same s t \<Longrightarrow> nears e a c t"
  unfolding nears_def using near_same by blast

lemma settled_same: "settled e a c s \<Longrightarrow> same s t \<Longrightarrow> settled e a c t"
  unfolding settled_def by (rule near_same)

lemma near_tick [simp]: "near e a c kh ka (s\<lparr>l_tick := n\<rparr>) \<longleftrightarrow> near e a c kh ka s"
  by (auto simp: near_def)

lemma failing_nears: "nears e a c s \<Longrightarrow> failing f (same s) x t \<Longrightarrow> failing f (nears e a c) x t"
  using nears_same by (auto simp: failing_def)

lemma near_head:
  assumes "near e a c kh ka s" "head_ok e a f (place_at e c (full_length c))"
  shows "near e a c (full_length c) ka (s\<lparr>l_head := f\<rparr>)"
  using assms by (auto simp: near_def)

lemma near_anchor:
  assumes "near e a c (full_length c) ka s" "anchor_ok e a f (place_at e c (full_length c))"
  shows "near e a c (full_length c) (full_length c) (s\<lparr>l_anchor := f\<rparr>)"
  using assms by (auto simp: near_def)

lemma near_plain: "near e a c (full_length c) ka s \<Longrightarrow> \<not> a_anchor a \<or> ka = full_length c \<Longrightarrow> settled e a c s"
  by (auto simp: settled_def near_def)

section \<open>Documents\<close>

lemma ends_put_doc:
  assumes "\<And>r t. r = put w (l_tick s) \<Longrightarrow> t = s\<lparr>l_tick := Suc (l_tick s)\<rparr> \<Longrightarrow>
     Q r (if r = Put_Fails False then t else st (Doc True (PDict d)) t)"
  shows "ends P Q (put_doc w st d) s"
  unfolding put_doc_def
proof (intro ends_bind ends_query ends_seq)
  let ?r = "put w (l_tick s)" and ?t = "s\<lparr>l_tick := Suc (l_tick s)\<rparr>"
  show "ends P (\<lambda>_ t. ends P Q (ret ?r) t) (if ?r = Put_Fails False then ret () else modify (st (Doc True (PDict d)))) ?t"
    using assms [of ?r ?t] by (auto intro!: ends_ret ends_modify)
qed

lemma ends_confirm:
  assumes "r = Put_Done \<Longrightarrow> Q () s" "r = Put_Unsynced \<Longrightarrow> P Integrity s"
    and "\<And>b. r = Put_Fails b \<Longrightarrow> ends P (\<lambda>v t. ends P Q (demand v) t) m s"
  shows "ends P Q (confirm r m) s"
  using assms by (cases r) (auto simp: confirm_def intro!: ends_ret ends_throw ends_bind)

lemma ends_write_anchor:
  assumes n: "near e a c (full_length c) ka s" and w: "steady w a" "lf w = e" "\<not> healthy w \<longrightarrow> f" and t: "a_anchor a"
  shows "ends (failing f (nears e a c)) (\<lambda>_ u. settled e a c u) (write_anchor w a (place_at e c (full_length c))) s"
proof -
  let ?p = "place_at e c (full_length c)" and ?P = "failing f (nears e a c)" and ?Q = "\<lambda>_. settled e a c"
  have h: "hashes_ok e" using w by (simp add: steady_def)
  obtain k where k: "a_key a = Some k" using n t by (auto simp: near_def anchor_ok_def)
  have ini: "init_ok (lf w) a (l_init s)" using n t w(2) by (simp add: near_def)
  have init: "ends (failing f (same s)) (\<lambda>_ u. same s u) (ensure_init w a) s"
    unfolding ensure_init_def using t k
    by (simp, intro ends_then [OF ends_read_init [OF t ini w(3)]]) (auto intro: ends_ret)
  have rest: "ends ?P ?Q (bind (gets l_anchor) (\<lambda>f. seq_ops (demand (f \<noteq> Not_A_File)) (bind (query (wall w)) (\<lambda>t.
        bind (put_doc w (\<lambda>f s. s\<lparr>l_anchor := f\<rparr>) (anchor_payload (lf w) k ?p t)) (\<lambda>r.
        confirm r (bind (read_anchor w a) (\<lambda>y. ret (case y of None \<Rightarrow> False | Some d \<Rightarrow> position_matches d ?p)))))))) u"
    if u: "near e a c (full_length c) ka u" for u
  proof (intro ends_bind ends_gets ends_seq ends_demand ends_query ends_put_doc ends_confirm)
    fix r v
    let ?u = "u\<lparr>l_tick := Suc (l_tick u)\<rparr>" and ?d = "anchor_payload (lf w) k ?p (wall w (l_tick u))"
    assume r: "r = put w (l_tick ?u)" and v: "v = ?u\<lparr>l_tick := Suc (l_tick ?u)\<rparr>"
    have ok: "anchor_ok e a (Doc True (PDict ?d)) ?p"
      using anchor_payload_ok [OF h _ k] w(1,2) by (simp add: steady_def)
    have nv: "near e a c (full_length c) ka v" using u v by simp
    have fin: "settled e a c (v\<lparr>l_anchor := Doc True (PDict ?d)\<rparr>)"
      unfolding settled_def by (rule near_anchor [OF nv ok])
    let ?v = "if r = Put_Fails False then v else v\<lparr>l_anchor := Doc True (PDict ?d)\<rparr>"
    have nv': "nears e a c ?v" using nv fin settled_nears by (auto simp: nears_def)
    show "r = Put_Done \<Longrightarrow> settled e a c ?v" using fin by simp
    show "r = Put_Unsynced \<Longrightarrow> ?P Integrity ?v" using nv' w(3) r by (auto simp: failing_def healthy_def)
    fix b assume b: "r = Put_Fails b"
    then have f: f using w(3) r by (auto simp: healthy_def)
    let ?k = "if b then full_length c else ka"
    have a': "anchor_ok (lf w) a (l_anchor ?v) (place_at e c ?k)"
      using b nv ok t w(2) by (auto simp: near_def)
    have rd: "ends (failing f (same ?v)) (\<lambda>x t. (\<exists>d. x = Some d \<and> position_matches d (place_at e c ?k) \<and> position_fields_ok d) \<and> same ?v t)
        (read_anchor w a) ?v"
    proof -
      obtain d where d: "l_anchor ?v = Doc True (PDict d)" "check_anchor (lf w) k True (PDict d) = Inr d"
          "position_matches d (place_at e c ?k)" using a' k by (auto simp: anchor_ok_def)
      then have "position_fields_ok d" by (auto simp: check_anchor_def bind_r_Inr)
      then show ?thesis
        unfolding read_anchor_def
        by (intro ends_weaken [OF ends_read_signed [where f' = l_anchor and chk = "check_anchor (lf w)", OF t k d(1,2) w(3)]])
          (use d(3) in \<open>auto simp: same_def\<close>)
    qed
    show "ends ?P (\<lambda>x t. ends ?P (\<lambda>v t. ends ?P ?Q (demand v) t)
        (ret (case x of None \<Rightarrow> False | Some d \<Rightarrow> position_matches d ?p)) t) (read_anchor w a) ?v"
    proof (rule ends_weaken [OF rd])
      fix x t assume "failing f (same ?v) x t"
      then show "?P x t" by (rule failing_nears [OF nv'])
    next
      fix x t assume x: "(\<exists>d. x = Some d \<and> position_matches d (place_at e c ?k) \<and> position_fields_ok d) \<and> same ?v t"
      then obtain d where d: "x = Some d" "position_matches d (place_at e c ?k)" "position_fields_ok d" by blast
      have m: "position_matches d ?p \<longleftrightarrow> full_length c = ?k" using position_unique [OF d(3,2)] by simp
      have "full_length c = ?k \<Longrightarrow> settled e a c ?v"
        using fin near_plain [OF nv] b by (cases b) auto
      then have "position_matches d ?p \<Longrightarrow> settled e a c t" using m x settled_same by blast
      moreover have "nears e a c t" using nears_same [OF nv'] x by blast
      ultimately show "ends ?P (\<lambda>v t. ends ?P ?Q (demand v) t)
          (ret (case x of None \<Rightarrow> False | Some d \<Rightarrow> position_matches d ?p)) t"
        using d(1) f by (intro ends_ret ends_demand) (auto simp: failing_def)
    qed
  qed (use u t in \<open>auto simp: near_def anchor_ok_def failing_def\<close>)
  have "nears e a c s" using n by (auto simp: nears_def)
  then show ?thesis
    unfolding write_anchor_def using t k
    by (simp, intro ends_then_seq [OF init]) (use rest near_same [OF n] in \<open>auto intro: failing_nears\<close>)
qed

lemma ends_reconcile:
  assumes n: "near e a c (full_length c) ka s" and w: "steady w a" "lf w = e" "\<not> healthy w \<longrightarrow> f" and t: "good_tables e c tb"
  shows "ends (failing f (nears e a c)) (\<lambda>_ u. settled e a c u) (reconcile_anchor w a (place_at e c (full_length c)) tb) s"
  unfolding reconcile_anchor_def
proof (rule ends_then)
  let ?p = "place_at e c (full_length c)"
  show "ends (failing f (same s)) (\<lambda>st u. st = anchor_state_at a ka (full_length c) \<and> same s u)
      (inspect_anchor w a ?p tb (?p = (0, genesis, genesis, genesis))) s"
    using n t w(2,3) by (intro ends_inspect) (auto simp: near_def)
next
  fix st u assume st: "st = anchor_state_at a ka (full_length c) \<and> same s u"
  then have nu: "near e a c (full_length c) ka u" using near_same [OF n] by blast
  show "ends (failing f (nears e a c)) (\<lambda>_ u. settled e a c u)
      (if st = Anchor_Unconfigured \<or> st = Anchor_Verified then ret () else write_anchor w a (place_at e c (full_length c))) u"
  proof (cases "\<not> a_anchor a \<or> ka = full_length c")
    case True
    then show ?thesis using st near_plain [OF nu] by (auto simp: anchor_state_at_def intro: ends_ret)
  next
    case False
    then show ?thesis using st ends_write_anchor [OF nu w] by (auto simp: anchor_state_at_def)
  qed
next
  fix x t assume "failing f (same s) x t"
  moreover have "nears e a c s" using n by (auto simp: nears_def)
  ultimately show "failing f (nears e a c) x t" by (rule failing_nears [rotated])
qed

section \<open>The head\<close>

lemma ends_write_head:
  assumes n: "near e a c kh ka s" and w: "steady w a" "lf w = e" "\<not> healthy w \<longrightarrow> f" and tb: "good_tables e c tb"
  shows "ends (failing f (nears e a c)) (\<lambda>_ u. settled e a c u) (write_head w (place_at e c (full_length c)) tb) s"
  unfolding write_head_def
proof (rule ends_then [OF ends_load_auth [where Q = "\<lambda>x t. x = a \<and> same s t", OF w(1,3)]])
  let ?p = "place_at e c (full_length c)" and ?P = "failing f (nears e a c)" and ?Q = "\<lambda>_. settled e a c"
  have h: "hashes_ok e" using w by (simp add: steady_def)
  fix x u assume "x = a \<and> same s u"
  then have x: "x = a" and nu: "near e a c kh ka u" using near_same [OF n] by auto
  show "ends ?P ?Q (bind (query (stamp w)) (\<lambda>now. bind (put_doc w (\<lambda>f s. s\<lparr>l_head := f\<rparr>) (head_payload (lf w) x ?p now)) (\<lambda>r.
     seq_ops (confirm r (bind (read_head w x) (\<lambda>(h, _). ret (case h of None \<Rightarrow> False | Some d \<Rightarrow> position_matches d ?p))))
      (reconcile_anchor w x ?p tb)))) u"
    unfolding x
  proof (intro ends_bind ends_query ends_seq ends_put_doc ends_confirm)
    let ?u = "u\<lparr>l_tick := Suc (l_tick u)\<rparr>" and ?d = "head_payload (lf w) a ?p (stamp w (l_tick u))"
    let ?rec = "\<lambda>_. ends ?P ?Q (reconcile_anchor w a ?p tb)"
    fix r v assume r: "r = put w (l_tick ?u)" and v: "v = ?u\<lparr>l_tick := Suc (l_tick ?u)\<rparr>"
    have ok: "head_ok e a (Doc True (PDict ?d)) ?p" using head_payload_ok [OF h] w(1,2) by (simp add: steady_def)
    have nv: "near e a c kh ka v" using nu v by simp
    have fin: "near e a c (full_length c) ka (v\<lparr>l_head := Doc True (PDict ?d)\<rparr>)" by (rule near_head [OF nv ok])
    let ?v = "if r = Put_Fails False then v else v\<lparr>l_head := Doc True (PDict ?d)\<rparr>"
    have nv': "nears e a c ?v" using nv fin by (auto simp: nears_def)
    show "r = Put_Done \<Longrightarrow> ?rec () ?v" using ends_reconcile [OF fin w tb] by simp
    show "r = Put_Unsynced \<Longrightarrow> ?P Integrity ?v" using nv' w(3) r by (auto simp: failing_def healthy_def)
    fix b assume b: "r = Put_Fails b"
    then have f: f using w(3) r by (auto simp: healthy_def)
    let ?k = "if b then full_length c else kh"
    have hv: "head_ok e a (l_head ?v) (place_at e c ?k)" using b nv ok by (auto simp: near_def)
    show "ends ?P (\<lambda>hx t. ends ?P (\<lambda>v t. ends ?P ?rec (demand v) t)
        ((case hx of (h, _) \<Rightarrow> ret (case h of None \<Rightarrow> False | Some d \<Rightarrow> position_matches d ?p)) :: bool lprog) t) (read_head w a) ?v"
    proof (rule ends_weaken [OF ends_read_head [OF hv w(2,3)]])
      fix x t assume "failing f (same ?v) x t"
      then show "?P x t" by (rule failing_nears [OF nv'])
    next
      fix hx :: "fields option \<times> head_auth" and t
      assume x: "(case hx of (h, au) \<Rightarrow> \<lambda>t. (\<exists>d. h = Some d \<and> position_matches d (place_at e c ?k) \<and> position_fields_ok d) \<and>
          au = auth_of a \<and> same ?v t) t"
      then obtain d where d: "hx = (Some d, auth_of a)" "position_matches d (place_at e c ?k)" "position_fields_ok d" "same ?v t"
        by (cases hx) auto
      have m: "position_matches d ?p \<longleftrightarrow> full_length c = ?k" using position_unique [OF d(3,2)] by simp
      have "full_length c = ?k \<Longrightarrow> near e a c (full_length c) ka ?v" using fin nv b by (cases b) auto
      then have "position_matches d ?p \<Longrightarrow> near e a c (full_length c) ka t" using m d(4) near_same by blast
      moreover have "nears e a c t" using nears_same [OF nv' d(4)] .
      ultimately show "ends ?P (\<lambda>v t. ends ?P ?rec (demand v) t)
          ((case hx of (h, _) \<Rightarrow> ret (case h of None \<Rightarrow> False | Some d \<Rightarrow> position_matches d ?p)) :: bool lprog) t"
        using d(1) f ends_reconcile [OF _ w tb] by (auto simp: failing_def intro!: ends_ret ends_demand)
    qed
  qed
next
  fix x t assume "failing f (same s) x t"
  moreover have "nears e a c s" using n by (auto simp: nears_def)
  ultimately show "failing f (nears e a c) x t" by (rule failing_nears [rotated])
qed simp_all

section \<open>Repair and reading\<close>

lemma snap_needs_repair:
  "snap_ok e a c kh ka x \<Longrightarrow> needs_repair x \<longleftrightarrow> kh \<noteq> full_length c \<or> a_anchor a \<and> ka \<noteq> kh"
  by (auto simp: snap_ok_def needs_repair_def missing_head_def auth_of_def anchor_state_at_def)

lemma quiet_settled: "near e a c kh ka s \<Longrightarrow> snap_ok e a c kh ka x \<Longrightarrow> \<not> needs_repair x \<Longrightarrow> settled e a c s"
  using snap_needs_repair near_plain by metis

lemma ends_settled_snapshot:
  assumes "settled e a c s" "steady w a" "lf w = e" "\<not> healthy w \<longrightarrow> f"
  shows "ends (failing f (nears e a c)) (\<lambda>x u. snap_ok e a c (full_length c) (full_length c) x \<and> settled e a c u) (take_snapshot w) s"
  by (rule ends_weaken [OF ends_snapshot [OF assms(1) [unfolded settled_def] assms(2-4)]])
    (use assms(1) settled_same failing_nears [OF settled_nears] in blast)+

lemma settled_snapshot:
  assumes "settled e a c s" "steady w a" "lf w = e" "healthy w"
  shows "\<exists>x t. take_snapshot w s = (Inr x, t) \<and> snap_ok e a c (full_length c) (full_length c) x \<and> settled e a c t"
proof -
  have "ends (failing False (nears e a c)) (\<lambda>x u. snap_ok e a c (full_length c) (full_length c) x \<and> settled e a c u) (take_snapshot w) s"
    using assms(4) by (intro ends_settled_snapshot [OF assms(1-3)]) simp
  then show ?thesis by (auto simp: ends_def failing_def split: prod.splits sum.splits)
qed

lemma settled_snap_fine:
  "snap_ok e a c (full_length c) (full_length c) x \<Longrightarrow>
   \<not> needs_repair x \<and> s_head_state x = Head_Current \<and> s_auth x \<noteq> Auth_Bootstrap \<and>
   s_anchor x \<notin> {Anchor_Bootstrap, Anchor_Lagging, Anchor_Marker, Anchor_Uninitialized}"
proof -
  assume s: "snap_ok e a c (full_length c) (full_length c) x"
  have "\<not> needs_repair x" using snap_needs_repair [OF s] by simp
  with s show ?thesis by (auto simp: snap_ok_def auth_of_def anchor_state_at_def)
qed

lemma near_reading:
  assumes "near e a c kh ka s"
  obtains raw where "l_journal s = Journal raw" "length raw \<le> max_journal_bytes" "read_chain e raw = Inr c"
  using assms by (auto simp: near_def)

lemma ends_repair:
  assumes n: "near e a c kh ka s" and x: "snap_ok e a c kh ka x" and w: "steady w a" "lf w = e" "\<not> healthy w \<longrightarrow> f"
  shows "ends (failing f (nears e a c)) (\<lambda>r u. snap_ok e a c (full_length c) (full_length c) r \<and> settled e a c u) (repair w x) s"
proof -
  let ?P = "failing f (nears e a c)" and ?Q = "\<lambda>r u. snap_ok e a c (full_length c) (full_length c) r \<and> settled e a c u"
  obtain raw where raw: "read_chain e raw = Inr c" by (rule near_reading [OF n])
  let ?R = "finish_reading e c"
  let ?rw = "write_head w (last_place ?R) (r_hashes ?R, r_previous ?R)"
  have rw: "ends ?P (\<lambda>_ u. settled e a c u) ?rw s"
    unfolding last_place_at [OF raw] by (rule ends_write_head [OF n w reading_tables [OF raw]])
  have r: "s_reading x = ?R" "s_head x \<noteq> None" using x head_at_some by (simp_all add: snap_ok_def) blast
  let ?first = "if s_head_state x = Head_Lagging \<or> s_auth x = Auth_Bootstrap \<or> missing_head x then ?rw
         else if s_anchor x \<in> {Anchor_Bootstrap, Anchor_Lagging, Anchor_Marker} then seq_ops (demand (s_head x \<noteq> None)) ?rw
         else ret ()"
  have first: "ends ?P (\<lambda>_ u. settled e a c u) ?first s"
  proof (cases "needs_repair x")
    case True
    have "ends ?P (\<lambda>_ u. settled e a c u) (seq_ops (demand (s_head x \<noteq> None)) ?rw) s"
      by (intro ends_seq ends_demand rw) (use r(2) in simp)
    with rw True show ?thesis by (auto simp: needs_repair_def)
  next
    case False
    then show ?thesis using quiet_settled [OF n x] by (auto simp: needs_repair_def intro: ends_ret)
  qed
  show ?thesis
    unfolding repair_def Let_def r(1)
  proof (rule ends_seq, rule ends_weaken [OF first])
    fix u assume "settled e a c u"
    then show "ends ?P ?Q (bind (take_snapshot w) (\<lambda>r. seq_ops (demand (s_head_state r \<noteq> Head_Lagging \<and> s_auth r \<noteq> Auth_Bootstrap \<and>
          s_anchor r \<notin> {Anchor_Bootstrap, Anchor_Lagging, Anchor_Marker})) (ret r))) u"
      by (intro ends_bind ends_weaken [OF ends_settled_snapshot [OF _ w]] ends_seq ends_demand ends_ret)
        (auto dest: settled_snap_fine)
  qed auto
qed

lemma ends_validated_settled:
  assumes "settled e a c s" "steady w a" "lf w = e" "\<not> healthy w \<longrightarrow> f"
  shows "ends (failing f (nears e a c)) (\<lambda>x u. snap_ok e a c (full_length c) (full_length c) x \<and> settled e a c u)
     (validated w allow (Suc n)) s"
  unfolding validated.simps
  by (rule ends_bind, rule ends_weaken [OF ends_settled_snapshot [OF assms]])
    (auto dest: settled_snap_fine intro: ends_ret)

lemma ends_validated:
  assumes n: "near e a c kh ka s" and w: "steady w a" "lf w = e" "\<not> healthy w \<longrightarrow> f"
  shows "ends (failing f (nears e a c)) (\<lambda>x u. snap_ok e a c (full_length c) (full_length c) x \<and> settled e a c u)
     (validated w True (Suc (Suc n))) s"
proof -
  let ?P = "failing f (nears e a c)" and ?Q = "\<lambda>x u. snap_ok e a c (full_length c) (full_length c) x \<and> settled e a c u"
  have nrs: "near e a c kh ka u \<Longrightarrow> failing f (same u) x t \<Longrightarrow> ?P x t" for u x t
    by (rule failing_nears) (auto simp: nears_def)
  have again: "ends ?P (\<lambda>_ u. settled e a c u) (if needs_repair x then bind (repair w x) (\<lambda>_. ret ()) else ret ()) u"
    if "near e a c kh ka u" "snap_ok e a c kh ka x" for u x
  proof (cases "needs_repair x")
    case True
    then show ?thesis
      by (simp, intro ends_bind ends_weaken [OF ends_repair [OF that w]]) (auto intro: ends_ret)
  qed (use quiet_settled [OF that] in \<open>auto intro: ends_ret\<close>)
  have second: "ends ?P ?Q (bind (take_snapshot w) (\<lambda>s'.
        seq_ops (if needs_repair s' then bind (repair w s') (\<lambda>_. ret ()) else ret ()) (validated w True (Suc n)))) u"
    if u: "near e a c kh ka u" for u
  proof (rule ends_then [OF ends_snapshot [OF u w]])
    fix x v assume "snap_ok e a c kh ka x \<and> same u v"
    then show "ends ?P ?Q (seq_ops (if needs_repair x then bind (repair w x) (\<lambda>_. ret ()) else ret ()) (validated w True (Suc n))) v"
      by (intro ends_seq ends_weaken [OF again [of v x]])
        (use near_same [OF u] ends_validated_settled [OF _ w] in auto)
  qed (rule nrs [OF u])
  show ?thesis
    unfolding validated.simps(2) [of w True "Suc n"]
  proof (rule ends_then [OF ends_snapshot [OF n w]])
    fix x u assume x: "snap_ok e a c kh ka x \<and> same s u"
    then have nu: "near e a c kh ka u" using near_same [OF n] by blast
    show "ends ?P ?Q (if \<not> needs_repair x then ret x
        else seq_ops (demand True) (bind (take_snapshot w) (\<lambda>s'.
          seq_ops (if needs_repair s' then bind (repair w s') (\<lambda>_. ret ()) else ret ()) (validated w True (Suc n))))) u"
    proof (cases "needs_repair x")
      case True
      then show ?thesis using second [OF nu] by (auto intro!: ends_seq ends_demand)
    next
      case False
      then have "kh = full_length c" "a_anchor a \<Longrightarrow> ka = kh" using x snap_needs_repair by blast+
      then have "snap_ok e a c (full_length c) (full_length c) x" using x by (auto simp: snap_ok_def anchor_state_at_def)
      then show ?thesis using quiet_settled [OF nu _ False] x False by (auto intro: ends_ret)
    qed
  qed (rule nrs [OF n])
qed

section \<open>Appending\<close>

definition extends_by :: "ledger_fns \<Rightarrow> fields \<Rightarrow> chain \<Rightarrow> chain \<Rightarrow> bool" where
  "extends_by e d c c' \<longleftrightarrow>
     c_events c' = c_events c @ [sort_key fst (next_event e d c)] \<and>
     chained c' = chained c @ [sort_key fst (next_event e d c)] \<and> c_prefix c' = c_prefix c \<and> c_sequence c' = c_sequence c + 1"

definition roomy :: "ledger \<Rightarrow> bool" where
  "roomy s \<longleftrightarrow> (\<forall>raw. l_journal s = Journal raw \<longrightarrow> length raw + 8001 \<le> max_journal_bytes)"

lemma roomy_same: "same s t \<Longrightarrow> roomy t \<longleftrightarrow> roomy s"
  by (simp add: roomy_def same_def)

lemma extended_place: "extends_by e d c c' \<Longrightarrow> k \<le> full_length c \<Longrightarrow> place_at e c' k = place_at e c k"
  by (simp add: extends_by_def place_at_def Let_def hash_at_snoc prev_at_snoc)

lemma next_of_reading: "read_chain e raw = Inr c \<Longrightarrow> next_of e d (finish_reading e c) = next_event e d c"
  using length_chained [of c] read_chain_ok [of e raw c]
  by (simp add: next_of_def next_event_def reading_of linked_def Let_def)

lemma next_event_fields:
  assumes "hashes_ok e" "canonicalize e v = Inr d"
  shows "py_get (next_event e d c) ''eventHash'' = PStr (event_hash e (next_event e d c))"
proof -
  obtain i nt st r t "is" where t: "d = tombstone i nt st r t is" by (rule canonicalize_Inr [OF assms])
  obtain h where "next_event e d c = event_fields i nt st r t is (c_sequence c + 1)
        (hash_at e (legacy_anchor e (c_prefix c)) (chained c) (length (chained c))) h" "h = event_hash e (next_event e d c)"
    using build_event_fields [of e i nt st r t "is" "c_sequence c + 1"
        "hash_at e (legacy_anchor e (c_prefix c)) (chained c) (length (chained c))"] unfolding next_event_def t by metis
  then show ?thesis using event_get(10) by metis
qed

lemma extended_place_end:
  assumes "hashes_ok e" "canonicalize e v = Inr d" "extends_by e d c c'" "read_chain e raw = Inr c"
  defines "R \<equiv> finish_reading e c" and "ev \<equiv> next_event e d c"
  shows "place_at e c' (Suc (full_length c)) = (r_sequence R + 1, as_text (py_get ev ''eventHash''), r_last R, r_legacy R)"
  using assms(3) next_event_fields [OF assms(1,2), of c]
  by (simp add: extends_by_def place_at_def Let_def R_def ev_def reading_of [OF assms(4)] as_text_def)

lemma extended_tables:
  assumes "hashes_ok e" "canonicalize e v = Inr d" "extends_by e d c c'" "read_chain e raw = Inr c"
  defines "R \<equiv> finish_reading e c" and "h \<equiv> as_text (py_get (next_event e d c) ''eventHash'')"
  shows "good_tables e c' ((r_hashes R)(r_sequence R + 1 \<mapsto> h), (r_previous R)(r_sequence R + 1 \<mapsto> r_last R))"
proof -
  have l: "legacy_anchor e (c_prefix c') = legacy_anchor e (c_prefix c)" "full_length c' = Suc (full_length c)"
    using assms(3) by (simp_all add: extends_by_def)
  have old: "tabled (r_hashes R, r_previous R) (legacy_anchor e (c_prefix c)) (int k) = place_at e c' k" if "k \<le> full_length c" for k
    using reading_tables [OF assms(4)] that extended_place [OF assms(3) that] by (simp add: good_tables_def R_def)
  have "place_at e c' (Suc (full_length c)) = (r_sequence R + 1, h, r_last R, r_legacy R)"
    unfolding R_def h_def by (rule extended_place_end [OF assms(1-4)])
  then show ?thesis
    unfolding good_tables_def l
    using old reading_of(2,5) [OF assms(4)]
    by (auto simp: le_Suc_eq tabled_def or_else_def R_def)
qed

lemma near_extended:
  assumes "settled e a c s" "extends_by e d c c'" "read_chain e raw' = Inr c'" "length raw' \<le> max_journal_bytes"
  shows "near e a c' (full_length c) (full_length c) (s\<lparr>l_journal := Journal raw'\<rparr>)"
proof -
  have "full_length c' = Suc (full_length c)" using assms(2) by (simp add: extends_by_def)
  then show ?thesis
    using assms(1,3,4) extended_place [OF assms(2)] by (auto simp: settled_def near_def)
qed

text \<open>Some append stops writing in the middle of its line.\<close>

definition tears :: "ledger_env \<Rightarrow> bool" where
  "tears w \<longleftrightarrow> (\<exists>t n. append_out w t = Append_Fails n \<and> 0 < n \<and> n < max_record_bytes)"

text \<open>Behind the lines of a chain stands a part of a line, without its line feed.\<close>

definition torn_after :: "ledger_fns \<Rightarrow> chain \<Rightarrow> ledger \<Rightarrow> bool" where
  "torn_after e c u \<longleftrightarrow>
     (\<exists>raw part. l_journal u = Journal (raw @ part) \<and> read_chain e raw = Inr c \<and> part \<noteq> [] \<and> CHR 10 \<notin> set part)"

text \<open>What a failed append leaves behind: the old chain, the extended one or, where lines may be torn, a torn line
  behind the old chain.\<close>

definition either :: "bool \<Rightarrow> ledger_fns \<Rightarrow> authenticity \<Rightarrow> fields \<Rightarrow> chain \<Rightarrow> ledger \<Rightarrow> bool" where
  "either b e a d c u \<longleftrightarrow> nears e a c u \<or> (\<exists>c'. extends_by e d c c' \<and> nears e a c' u) \<or> b \<and> torn_after e c u"

lemma next_line:
  assumes "settled e a c s" "steady w a" "lf w = e" "canonicalize e v = Inr d"
  obtains raw c' where "l_journal s = Journal raw" "read_chain e raw = Inr c" "extends_by e d c c'"
    "read_chain e (raw @ canonical e (next_event e d c) @ [CHR 10]) = Inr c'" "length (canonical e (next_event e d c)) \<le> 8000"
    "CHR 10 \<notin> set (canonical e (next_event e d c))"
proof -
  obtain raw where raw: "l_journal s = Journal raw" "length raw \<le> max_journal_bytes" "read_chain e raw = Inr c"
    using assms(1) by (auto simp: settled_def near_def)
  have h: "hashes_ok e" using assms(2,3) by (simp add: steady_def)
  have "c_sequence c \<le> int (length raw)" using read_chain_ok [OF raw(3)] by simp
  then have n: "c_sequence c < 10 ^ 8 - 1" using raw(2) by (simp add: max_journal_bytes_def)
  obtain c' where c': "read_chain e (raw @ canonical e (next_event e d c) @ [CHR 10]) = Inr c'"
      "chained c' = chained c @ [sort_key fst (next_event e d c)]" "c_events c' = c_events c @ [sort_key fst (next_event e d c)]"
      "c_prefix c' = c_prefix c" "c_sequence c' = c_sequence c + 1" "length (canonical e (next_event e d c)) \<le> 8000"
      "CHR 10 \<notin> set (canonical e (next_event e d c))"
    by (rule read_extended [OF h raw(3) assms(4) n])
  show thesis
    by (rule that [OF raw(1,3) _ c'(1,6,7)]) (use c' in \<open>simp add: extends_by_def\<close>)
qed

lemma ends_append_bytes:
  assumes s: "settled e a c s" and w: "steady w a" "lf w = e" "\<not> healthy w \<or> \<not> roomy s \<longrightarrow> f" and d: "canonicalize e v = Inr d"
  shows "ends (failing f (either (tears w) e a d c))
     (\<lambda>_ u. \<exists>c'. extends_by e d c c' \<and> near e a c' (full_length c) (full_length c) u)
     (append_bytes w (canonical e (next_event e d c) @ [CHR 10])) s"
proof -
  let ?line = "canonical e (next_event e d c) @ [CHR 10]"
  obtain raw c' where r: "l_journal s = Journal raw" "read_chain e raw = Inr c" "extends_by e d c c'"
      "read_chain e (raw @ ?line) = Inr c'" "length (canonical e (next_event e d c)) \<le> 8000"
      "CHR 10 \<notin> set (canonical e (next_event e d c))"
    by (rule next_line [OF s w(1,2) d])
  have old: "either (tears w) e a d c u" if "same s u" for u
    unfolding either_def using settled_nears [OF settled_same [OF s that]] by blast
  have new: "near e a c' (full_length c) (full_length c) (u\<lparr>l_journal := Journal (raw @ ?line)\<rparr>)"
    if "same s u" "length raw + length ?line \<le> max_journal_bytes" for u
    using near_extended [OF settled_same [OF s that(1)] r(3,4)] that(2) by simp
  have new': "either (tears w) e a d c (u\<lparr>l_journal := Journal (raw @ ?line)\<rparr>)"
    if "same s u" "length raw + length ?line \<le> max_journal_bytes" for u
    unfolding either_def nears_def using new [OF that] r(3) by blast
  have acc: "ends (failing f (same s)) (\<lambda>_ t. same s t) (access w) s"
    using w(3) by (intro ends_access) auto
  have wr: "ends (failing f (either (tears w) e a d c)) (\<lambda>_ u. \<exists>c'. extends_by e d c c' \<and> near e a c' (full_length c) (full_length c) u)
      (case append_out w n of Append_Done \<Rightarrow> modify (\<lambda>s. s\<lparr>l_journal := Journal (raw @ ?line)\<rparr>)
       | Append_Fails n \<Rightarrow> seq_ops (modify (\<lambda>s. s\<lparr>l_journal := Journal (raw @ take n ?line)\<rparr>)) (throw Integrity)) u"
    if u: "same s u" "length raw + length ?line \<le> max_journal_bytes" for u n
  proof (cases "append_out w n")
    case Append_Done
    then show ?thesis using new [OF u] r(3) by (auto intro!: ends_modify)
  next
    case (Append_Fails m)
    then have f: f using w(3) by (auto simp: healthy_def)
    let ?part = "take m (canonical e (next_event e d c))"
    have torn: "torn_after e c (u\<lparr>l_journal := Journal (raw @ ?part)\<rparr>)" if "?part \<noteq> []"
      using that r(2,6) unfolding torn_after_def
      by (intro exI [of _ raw] exI [of _ ?part]) (auto dest: in_set_takeD)
    have tears: "tears w" if "0 < m" "m < length ?line"
      using that r(5) Append_Fails unfolding tears_def by (fastforce simp: max_record_bytes_def)
    consider "m = 0" | "length ?line \<le> m" | "0 < m" "m < length ?line" by linarith
    then have "either (tears w) e a d c (u\<lparr>l_journal := Journal (raw @ take m ?line)\<rparr>)"
    proof cases
      case 1
      then show ?thesis using old [of "u\<lparr>l_journal := Journal raw\<rparr>"] u(1) r(1) by (simp add: same_def)
    next
      case 2
      then show ?thesis using new' [OF u] by simp
    next
      case 3
      then have "take m ?line = ?part" "?part \<noteq> []" by auto
      then show ?thesis using torn tears [OF 3] by (simp add: either_def)
    qed
    then show ?thesis using Append_Fails f by (auto simp: failing_def intro!: ends_seq ends_modify ends_throw)
  qed
  have full: "\<not> length raw + length ?line \<le> max_journal_bytes \<Longrightarrow> f"
    using w(3) r(1,5) by (auto simp: roomy_def)
  show ?thesis
    unfolding append_bytes_def
  proof (rule ends_bind, rule ends_gets, simp only: r(1) journal_bytes.case, rule ends_then_seq [OF acc])
    fix u assume u: "same s u"
    show "ends (failing f (either (tears w) e a d c)) (\<lambda>_ u. \<exists>c'. extends_by e d c c' \<and> near e a c' (full_length c) (full_length c) u)
      (seq_ops (demand (\<not> length raw + length ?line > max_journal_bytes)) (bind (query (append_out w)) (\<lambda>r.
        case r of Append_Done \<Rightarrow> modify (\<lambda>s. s\<lparr>l_journal := Journal (raw @ ?line)\<rparr>)
       | Append_Fails n \<Rightarrow> seq_ops (modify (\<lambda>s. s\<lparr>l_journal := Journal (raw @ take n ?line)\<rparr>)) (throw Integrity)))) u"
    proof (intro ends_seq ends_demand ends_bind ends_query)
      assume "\<not> length raw + length ?line > max_journal_bytes"
      then show "ends (failing f (either (tears w) e a d c)) (\<lambda>_ u. \<exists>c'. extends_by e d c c' \<and> near e a c' (full_length c) (full_length c) u)
        (case append_out w (l_tick u) of Append_Done \<Rightarrow> modify (\<lambda>s. s\<lparr>l_journal := Journal (raw @ ?line)\<rparr>)
         | Append_Fails n \<Rightarrow> seq_ops (modify (\<lambda>s. s\<lparr>l_journal := Journal (raw @ take n ?line)\<rparr>)) (throw Integrity))
        (u\<lparr>l_tick := Suc (l_tick u)\<rparr>)"
        using u by (intro wr) simp_all
    next
      assume "\<not> \<not> length raw + length ?line > max_journal_bytes"
      then show "failing f (either (tears w) e a d c) Integrity u" using full old [OF u] by (simp add: failing_def)
    qed
  next
    fix x t assume "failing f (same s) x t"
    then show "failing f (either (tears w) e a d c) x t" using old by (simp add: failing_def)
  qed
qed

lemma ends_append_event:
  assumes s: "settled e a c s" and x: "snap_ok e a c (full_length c) (full_length c) x"
    and w: "steady w a" "lf w = e" "\<not> healthy w \<or> \<not> roomy s \<longrightarrow> f" and d: "canonicalize e v = Inr d"
  shows "ends (failing f (either (tears w) e a d c)) (\<lambda>ev u. ev = next_event e d c \<and> (\<exists>c'. extends_by e d c c' \<and> settled e a c' u))
     (append_event w d x) s"
proof -
  let ?P = "failing f (either (tears w) e a d c)" and ?Q = "\<lambda>ev u. ev = next_event e d c \<and> (\<exists>c'. extends_by e d c c' \<and> settled e a c' u)"
  let ?R = "finish_reading e c" and ?ev = "next_event e d c"
  let ?n = "r_sequence ?R + 1" and ?h = "as_text (py_get ?ev ''eventHash'')"
  have h: "hashes_ok e" using w by (simp add: steady_def)
  have nh: "\<not> healthy w \<longrightarrow> f" using w(3) by blast
  obtain raw where raw: "read_chain e raw = Inr c" by (rule near_reading [OF s [unfolded settled_def]])
  have R: "s_reading x = ?R" using x by (simp add: snap_ok_def)
  have lift: "failing f (nears e a c') y t \<Longrightarrow> ?P y t" if "extends_by e d c c'" for c' y t
    using that by (auto simp: failing_def either_def)
  have snap: "ends ?P ?Q (bind (take_snapshot w) (\<lambda>v. seq_ops (demand (r_sequence (s_reading v) = ?n \<and> s_head_state v = Head_Current \<and>
        s_anchor v \<notin> {Anchor_Bootstrap, Anchor_Lagging, Anchor_Marker, Anchor_Uninitialized})) (ret ?ev))) u"
    if c': "extends_by e d c c'" "settled e a c' u" for c' u
  proof (rule ends_bind, rule ends_weaken [OF ends_settled_snapshot [OF c'(2) w(1,2) nh]])
    fix r t assume r: "snap_ok e a c' (full_length c') (full_length c') r \<and> settled e a c' t"
    then obtain raw' where "read_chain e raw' = Inr c'" using near_reading by (metis settled_def)
    then have "r_sequence (s_reading r) = ?n"
      using r c'(1) reading_of(2) [OF raw] by (simp add: snap_ok_def reading_of(2) extends_by_def)
    then show "ends ?P ?Q (seq_ops (demand (r_sequence (s_reading r) = ?n \<and> s_head_state r = Head_Current \<and>
        s_anchor r \<notin> {Anchor_Bootstrap, Anchor_Lagging, Anchor_Marker, Anchor_Uninitialized})) (ret ?ev)) t"
      using r c'(1) settled_snap_fine by (intro ends_seq ends_demand ends_ret) blast+
  qed (rule lift [OF c'(1)])
  have head: "ends ?P (\<lambda>_ u. \<exists>c'. extends_by e d c c' \<and> settled e a c' u)
      (write_head w (?n, ?h, r_last ?R, r_legacy ?R) ((r_hashes ?R)(?n \<mapsto> ?h), (r_previous ?R)(?n \<mapsto> r_last ?R))) u"
    if "extends_by e d c c'" "near e a c' (full_length c) (full_length c) u" for c' u
  proof -
    have "full_length c' = Suc (full_length c)" using that(1) by (simp add: extends_by_def)
    then have p: "(?n, ?h, r_last ?R, r_legacy ?R) = place_at e c' (full_length c')"
      using extended_place_end [OF h d that(1) raw] by simp
    show ?thesis
      unfolding p
      by (rule ends_weaken [OF ends_write_head [OF that(2) w(1,2) nh extended_tables [OF h d that(1) raw]]])
        (use lift [OF that(1)] that(1) in blast)+
  qed
  have nx: "next_of (lf w) d ?R = ?ev" using next_of_reading [OF raw] w(2) by simp
  show ?thesis
    unfolding append_event_def Let_def R nx
  proof (rule ends_seq, unfold w(2), rule ends_weaken [OF ends_append_bytes [OF s w d]])
    fix u assume "\<exists>c'. extends_by e d c c' \<and> near e a c' (full_length c) (full_length c) u"
    then obtain c' where c': "extends_by e d c c'" "near e a c' (full_length c) (full_length c) u" by blast
    show "ends ?P ?Q (seq_ops (write_head w (?n, ?h, r_last ?R, r_legacy ?R) ((r_hashes ?R)(?n \<mapsto> ?h), (r_previous ?R)(?n \<mapsto> r_last ?R)))
      (bind (take_snapshot w) (\<lambda>v. seq_ops (demand (r_sequence (s_reading v) = ?n \<and> s_head_state v = Head_Current \<and>
        s_anchor v \<notin> {Anchor_Bootstrap, Anchor_Lagging, Anchor_Marker, Anchor_Uninitialized})) (ret ?ev)))) u"
      by (rule ends_seq, rule ends_weaken [OF head [OF c']]) (use snap in blast)+
  qed
qed

text \<open>Reading, repairing and writing the head leave the bytes of the journal alone.\<close>

abbreviation has_bytes :: "journal_bytes \<Rightarrow> ledger \<Rightarrow> bool" where
  "has_bytes J s \<equiv> l_journal s = J"

lemma bytes_basic [keep_rules]:
  "keeps (has_bytes J) (query f)" "keeps (has_bytes J) (gets g)" "keeps (has_bytes J) (from_result r)" "keeps (has_bytes J) (demand b)"
  by (simp_all add: keeps_def query_def gets_def from_result_def demand_def ret_def throw_def)

lemma bytes_case_option [keep_rules]:
  "keeps I m \<Longrightarrow> (\<And>v. keeps I (k v)) \<Longrightarrow> keeps I (case x of None \<Rightarrow> m | Some v \<Rightarrow> k v)"
  by (cases x) auto

lemma bytes_case_prod [keep_rules]: "(\<And>y z. keeps I (k y z)) \<Longrightarrow> keeps I (case x of (y, z) \<Rightarrow> k y z)"
  by (cases x) auto

lemma bytes_access [keep_rules]: "keeps (has_bytes J) (access w)" and bytes_auth [keep_rules]: "keeps (has_bytes J) (load_auth w)"
  unfolding access_def load_auth_def by (intro keep_rules)+

lemma bytes_read_journal [keep_rules]: "keeps (has_bytes J) (read_journal w)"
proof -
  have "keeps (has_bytes J) (case j of No_Journal \<Rightarrow> ret absent_reading | Bad_Journal \<Rightarrow> throw Integrity
    | Journal raw \<Rightarrow> if length raw > max_journal_bytes then throw Integrity else from_result (read_bytes (lf w) raw))" for j
    by (cases j) (auto intro: keep_rules)
  then show ?thesis unfolding read_journal_def by (intro keep_rules)
qed

lemma bytes_read_doc [keep_rules]: "keeps (has_bytes J) (read_doc w f)"
proof -
  have "keeps (has_bytes J) (case x of No_Doc \<Rightarrow> ret None | Doc c v \<Rightarrow> ret (Some (c, v)) | _ \<Rightarrow> throw Integrity)" for x
    by (cases x) (auto intro: keep_rules)
  then show ?thesis unfolding read_doc_def by (intro keep_rules)
qed

lemma bytes_reads [keep_rules]:
  "keeps (has_bytes J) (read_head w a)" "keeps (has_bytes J) (read_init w a)" "keeps (has_bytes J) (read_anchor w a)"
  unfolding read_head_def read_init_def read_anchor_def read_signed_def by (intro keep_rules)+

lemma bytes_inspect [keep_rules]: "keeps (has_bytes J) (inspect_anchor w a p t b)"
  unfolding inspect_anchor_def by (intro keep_rules)

lemma bytes_snapshot [keep_rules]: "keeps (has_bytes J) (take_snapshot w)"
  unfolding take_snapshot_def by (intro keep_rules)

lemma bytes_put [keep_rules]:
  "(\<And>f s. l_journal (st f s) = l_journal s) \<Longrightarrow> keeps (has_bytes J) (put_doc w st d)"
  unfolding put_doc_def by (intro keep_rules) (simp add: keeps_def modify_def)

lemma bytes_confirm [keep_rules]: "keeps (has_bytes J) m \<Longrightarrow> keeps (has_bytes J) (confirm r m)"
  by (cases r) (auto simp: confirm_def intro: keep_rules)

lemma bytes_writes [keep_rules]:
  "keeps (has_bytes J) (ensure_init w a)" "keeps (has_bytes J) (write_anchor w a p)"
  unfolding write_anchor_def ensure_init_def by (intro keep_rules; simp)+

lemma bytes_head [keep_rules]: "keeps (has_bytes J) (write_head w p t)"
  unfolding write_head_def reconcile_anchor_def by (intro keep_rules; simp)

lemma bytes_repair [keep_rules]: "keeps (has_bytes J) (repair w x)"
  unfolding repair_def Let_def by (intro keep_rules)

lemma ends_keeps: "ends P Q m s \<Longrightarrow> keeps I m \<Longrightarrow> I s \<Longrightarrow> ends P (\<lambda>v t. Q v t \<and> I t) m s"
  using keepsD [of I m s] by (auto simp: ends_def split: prod.splits sum.splits)

lemma ends_create:
  assumes "snap_ok e a c kh ka x" "near e a c kh ka s" "\<not> healthy w \<longrightarrow> f"
  shows "ends (failing f (same s)) (\<lambda>y u. y = x \<and> same s u) (create_journal w x) s"
proof -
  obtain raw where "read_chain e raw = Inr c" by (rule near_reading [OF assms(2)])
  then have ex: "r_exists (s_reading x)" using assms(1) by (simp add: snap_ok_def reading_of(8))
  have "ends (failing f (same s)) (\<lambda>y u. y = x \<and> same s u) (seq_ops (access w) (ret x)) s"
    by (rule ends_then_seq [OF ends_access [where Q = "\<lambda>_ t. same s t", OF assms(3)]]) (auto intro: ends_ret)
  with ex show ?thesis unfolding create_journal_def by simp
qed

text \<open>
  An append from any state an interrupted append can leave: an exception leaves the old chain or
  the extended one, or a torn line behind the old one; a result comes with the extended chain, all files up to date; and there is no
  exception when nothing fails and the journal has room.
\<close>

lemma ends_append:
  assumes n: "near e a c kh ka s" and w: "steady w a" "lf w = e" "\<not> healthy w \<or> \<not> roomy s \<longrightarrow> f" and d: "canonicalize e v = Inr d"
  shows "ends (failing f (either (tears w) e a d c)) (\<lambda>ev u. ev = next_event e d c \<and> (\<exists>c'. extends_by e d c c' \<and> settled e a c' u))
     (append_tombstone w v) s"
proof -
  let ?P = "failing f (either (tears w) e a d c)" and ?Q = "\<lambda>ev u. ev = next_event e d c \<and> (\<exists>c'. extends_by e d c c' \<and> settled e a c' u)"
  have nh: "\<not> healthy w \<longrightarrow> f" using w(3) by blast
  have keep: "failing f (nears e a c) x t \<Longrightarrow> ?P x t" for x t by (auto simp: failing_def either_def)
  have keep': "near e a c kh ka u \<Longrightarrow> failing f (same u) x t \<Longrightarrow> ?P x t" for u x t
    by (rule keep, rule failing_nears) (auto simp: nears_def)
  define J where "J = l_journal s"
  have final: "ends ?P ?Q (bind (first_head w x) (\<lambda>s3. append_event w d s3)) u"
    if u: "settled e a c u" "l_journal u = J" and x: "snap_ok e a c (full_length c) (full_length c) x" for u x
  proof -
    have "first_head w x = ret x" using x head_at_some by (fastforce simp: first_head_def Let_def snap_ok_def)
    moreover have "roomy u \<longleftrightarrow> roomy s" using u(2) by (simp add: roomy_def J_def)
    ultimately show ?thesis
      using ends_append_event [OF u(1) x w(1,2) _ d, of f] w(3) by (auto intro!: ends_bind ends_ret)
  qed
  have fixed: "ends ?P ?Q (bind (if needs_repair x then repair w x else ret x) (\<lambda>s2. bind (first_head w s2) (\<lambda>s3. append_event w d s3))) u"
    if u: "near e a c kh ka u" "l_journal u = J" and x: "snap_ok e a c kh ka x" for u x
  proof (cases "needs_repair x")
    case True
    have "ends (failing f (nears e a c)) (\<lambda>r t. (snap_ok e a c (full_length c) (full_length c) r \<and> settled e a c t) \<and> has_bytes J t) (repair w x) u"
      by (rule ends_keeps [OF ends_repair [OF u(1) x w(1,2) nh] bytes_repair u(2)])
    then show ?thesis using True by (simp, intro ends_bind, elim ends_weaken) (use keep final in blast)+
  next
    case False
    then have "kh = full_length c" "a_anchor a \<Longrightarrow> ka = kh" using snap_needs_repair [OF x] by blast+
    then have "snap_ok e a c (full_length c) (full_length c) x" using x by (auto simp: snap_ok_def anchor_state_at_def)
    then show ?thesis
      using False final [OF quiet_settled [OF u(1) x False] u(2)] by (simp add: bind_ret)
  qed
  have created: "ends ?P ?Q (bind (create_journal w x) (\<lambda>s1. bind (if needs_repair s1 then repair w s1 else ret s1)
       (\<lambda>s2. bind (first_head w s2) (\<lambda>s3. append_event w d s3)))) u"
    if u: "near e a c kh ka u" "l_journal u = J" and x: "snap_ok e a c kh ka x" for u x
  proof (rule ends_then [OF ends_create [OF x u(1) nh]])
    fix y t assume "y = x \<and> same u t"
    then show "ends ?P ?Q (bind (if needs_repair y then repair w y else ret y) (\<lambda>s2. bind (first_head w s2) (\<lambda>s3. append_event w d s3))) t"
      using fixed [OF near_same [OF u(1)] _ x] u(2) by (auto simp: same_def)
  qed (rule keep' [OF u(1)])
  show ?thesis
    unfolding append_tombstone_def w(2) d from_result_simps
  proof (rule ends_bind, rule ends_ret, rule ends_then [OF ends_snapshot [OF n w(1,2) nh]])
    fix x u assume "snap_ok e a c kh ka x \<and> same s u"
    then show "ends ?P ?Q (bind (create_journal w x) (\<lambda>s1. bind (if needs_repair s1 then repair w s1 else ret s1)
       (\<lambda>s2. bind (first_head w s2) (\<lambda>s3. append_event w d s3)))) u"
      using created [OF near_same [OF n]] by (auto simp: same_def J_def)
  qed (rule keep' [OF n])
qed

end
