(* ===== verification/Deletion_Start.thy ===== *)
theory Deletion_Start
  imports Deletion_Writes
begin

text \<open>
  The first append to a ledger that does not exist yet: it creates the journal, writes the head
  and the anchor at position 0 and then appends.
\<close>

definition fresh :: "ledger \<Rightarrow> bool" where
  "fresh s \<longleftrightarrow> l_journal s \<in> {No_Journal, Journal []} \<and> l_head s = No_Doc \<and> l_init s = No_Doc \<and> l_anchor s = No_Doc"

definition fresh_snapshot :: "ledger_fns \<Rightarrow> authenticity \<Rightarrow> bool \<Rightarrow> snapshot" where
  "fresh_snapshot e a there =
     \<lparr>s_reading = (if there then finish_reading e start_chain else absent_reading), s_head = None, s_head_state = Head_Missing,
      s_auth = Auth_Missing, s_anchor = (if a_anchor a then Anchor_Uninitialized else Anchor_Unconfigured)\<rparr>"

lemmas run_simps = query_def gets_def modify_def demand_def ret_def throw_def bind_def seq_ops_def

lemma start_reading: "read_bytes e [] = Inr (finish_reading e start_chain)"
  by (simp add: read_bytes_def read_chain_def)

lemma start_finish: "r_sequence (finish_reading e start_chain) = 0" "r_events (finish_reading e start_chain) = []"
  "r_exists (finish_reading e start_chain)" "r_legacy (finish_reading e start_chain) = genesis"
  by (simp_all add: finish_reading_def Let_def start_chain_def legacy_anchor_def)

definition quiet :: "ledger_env \<Rightarrow> authenticity \<Rightarrow> bool" where
  "quiet w a \<longleftrightarrow> (\<forall>n. \<not> faulty w n \<and> put w n = Put_Done \<and> auth_at w n = Some a)"

lemma quiet: "steady w a \<Longrightarrow> healthy w \<Longrightarrow> quiet w a"
  unfolding steady_def healthy_def quiet_def by blast

lemma run_access [simp]: "quiet w a \<Longrightarrow> access w s = (Inr (), s\<lparr>l_tick := Suc (l_tick s)\<rparr>)"
  by (simp add: access_def run_simps quiet_def)

lemma run_auth [simp]: "quiet w a \<Longrightarrow> load_auth w s = (Inr a, s\<lparr>l_tick := Suc (l_tick s)\<rparr>)"
  by (simp add: load_auth_def run_simps quiet_def)

lemma run_put: "quiet w a \<Longrightarrow> put_doc w st d s = (Inr Put_Done, st (Doc True (PDict d)) (s\<lparr>l_tick := Suc (l_tick s)\<rparr>))"
  by (simp add: put_doc_def run_simps quiet_def)

lemma run_confirm: "confirm Put_Done m s = (Inr (), s)"
  by (simp add: confirm_def run_simps)

lemma run_missing:
  assumes "quiet w a" "f (s\<lparr>l_tick := Suc (l_tick s)\<rparr>) = No_Doc"
  shows "read_doc w f s = (Inr None, s\<lparr>l_tick := Suc (l_tick s)\<rparr>)"
  using assms by (simp add: read_doc_def run_simps)

lemma run_start_journal:
  assumes "quiet w a" "fresh s"
  shows "read_journal w s = (Inr (s_reading (fresh_snapshot (lf w) a (l_journal s \<noteq> No_Journal))), s\<lparr>l_tick := Suc (l_tick s)\<rparr>)"
  using assms start_reading by (auto simp: read_journal_def run_simps fresh_def fresh_snapshot_def from_result_def max_journal_bytes_def)

lemma fresh_tick [simp]: "fresh (s\<lparr>l_tick := n\<rparr>) = fresh s"
  by (simp add: fresh_def)

lemma run_start_snapshot:
  assumes "quiet w a" "fresh s" "a_key a = None \<longrightarrow> \<not> a_anchor a"
  shows "\<exists>n. take_snapshot w s = (Inr (fresh_snapshot (lf w) a (l_journal s \<noteq> No_Journal)), s\<lparr>l_tick := n\<rparr>)"
proof -
  have docs: "l_head s = No_Doc" "l_init s = No_Doc" "l_anchor s = No_Doc" using assms(2) by (simp_all add: fresh_def)
  show ?thesis
    using assms docs
    by (cases "a_key a")
      (auto simp: take_snapshot_def bind_def run_start_journal read_head_def run_missing ret_def head_place_def
        absent_reading_def start_finish inspect_anchor_def read_init_def read_anchor_def read_signed_def
        fresh_snapshot_def)
qed

lemma start_place: "place_at e start_chain 0 = (0, genesis, genesis, genesis)"
  by (simp add: place_at_def Let_def hash_at_def prev_at_def start_chain_def legacy_anchor_def)

lemma start_length: "full_length start_chain = 0"
  by (simp add: chained_def start_chain_def)

lemma start_read: "read_chain e [] = Inr start_chain"
  by (simp add: read_chain_def)

lemma start_near:
  assumes "hashes_ok e" "l_journal s = Journal []" "l_head s = Doc True (PDict (head_payload e a (0, genesis, genesis, genesis) t))"
    and "timestamp_text t"
    and "a_anchor a \<Longrightarrow> \<exists>k x y. a_key a = Some k \<and> l_init s = Doc True (PDict (init_payload e k x)) \<and>
      l_anchor s = Doc True (PDict (anchor_payload e k (0, genesis, genesis, genesis) y)) \<and> 0 \<le> x \<and> 0 \<le> y"
  shows "settled e a start_chain s"
  unfolding settled_def near_def start_length
  using assms head_payload_ok [OF assms(1,4), of a start_chain 0] anchor_payload_ok [OF assms(1), of _ a _ start_chain 0]
    init_payload_ok [OF assms(1)] start_read [of e]
  by (auto simp: start_place)

lemma run_start_head:
  assumes q: "quiet w a" and w: "steady w a" and s: "l_journal s = Journal []" "l_init s = No_Doc" "l_anchor s = No_Doc"
  shows "\<exists>t. write_head w (0, genesis, genesis, genesis) tb s = (Inr (), t) \<and> settled (lf w) a start_chain t"
proof -
  have h: "hashes_ok (lf w)" "\<And>n. timestamp_text (stamp w n)" "\<And>n. 0 \<le> wall w n" "a_key a = None \<longrightarrow> \<not> a_anchor a"
    using w by (simp_all add: steady_def)
  show ?thesis
  proof (cases "a_anchor a")
    case False
    then show ?thesis
      using q s by (auto simp: write_head_def bind_def seq_ops_def query_def run_put run_confirm reconcile_anchor_def
          inspect_anchor_def ret_def intro!: start_near [OF h(1) _ _ h(2)])
  next
    case True
    then obtain k where k: "a_key a = Some k" using h(4) by auto
    have "settled (lf w) a start_chain (s\<lparr>l_head := Doc True (PDict (head_payload (lf w) a (0, genesis, genesis, genesis) (stamp w n))),
        l_init := Doc True (PDict (init_payload (lf w) k (wall w m))), l_tick := i,
        l_anchor := Doc True (PDict (anchor_payload (lf w) k (0, genesis, genesis, genesis) (wall w j)))\<rparr>)" for n m j i
      using s k h by (intro start_near [OF h(1) _ _ h(2)]) auto
    then show ?thesis
      using q s k True by (simp add: write_head_def bind_def seq_ops_def query_def gets_def demand_def run_put run_confirm
          reconcile_anchor_def inspect_anchor_def write_anchor_def ensure_init_def read_init_def read_anchor_def read_signed_def
          run_missing ret_def)
  qed
qed

lemma run_created:
  assumes q: "quiet w a" and w: "steady w a" and s: "fresh s"
  shows "\<exists>n. create_journal w (fresh_snapshot (lf w) a (l_journal s \<noteq> No_Journal)) s =
    (Inr (fresh_snapshot (lf w) a True), s\<lparr>l_journal := Journal [], l_tick := n\<rparr>)"
proof (cases "l_journal s = No_Journal")
  case False
  then have "s\<lparr>l_journal := Journal [], l_tick := n\<rparr> = s\<lparr>l_tick := n\<rparr>" for n using s by (auto simp: fresh_def)
  then show ?thesis
    using False q by (auto simp: create_journal_def seq_ops_def bind_def ret_def fresh_snapshot_def start_finish)
next
  case True
  let ?u = "s\<lparr>l_tick := Suc (Suc (l_tick s)), l_journal := Journal []\<rparr>"
  have "fresh ?u" using s by (simp add: fresh_def)
  then obtain n where n: "take_snapshot w ?u = (Inr (fresh_snapshot (lf w) a True), ?u\<lparr>l_tick := n\<rparr>)"
    using run_start_snapshot [OF q, of ?u] w by (auto simp: steady_def)
  have "create_journal w (fresh_snapshot (lf w) a False) s = take_snapshot w ?u"
    using q by (simp add: create_journal_def fresh_snapshot_def absent_reading_def run_simps quiet_def run_confirm [unfolded run_simps])
  then show ?thesis using n True by auto
qed

lemma first_append:
  assumes w: "steady w a" "healthy w" and s: "fresh s" and d: "canonicalize (lf w) v = Inr d"
  shows "\<exists>t. append_tombstone w v s = (Inr (next_event (lf w) d start_chain), t) \<and>
    (\<exists>c'. extends_by (lf w) d start_chain c' \<and> settled (lf w) a c' t)"
proof -
  note q = quiet [OF w]
  let ?x = "fresh_snapshot (lf w) a True"
  have "a_key a = None \<longrightarrow> \<not> a_anchor a" using w(1) by (simp add: steady_def)
  from run_start_snapshot [OF q s this] obtain n
    where n: "take_snapshot w s = (Inr (fresh_snapshot (lf w) a (l_journal s \<noteq> No_Journal)), s\<lparr>l_tick := n\<rparr>)" by blast
  let ?s = "s\<lparr>l_tick := n\<rparr>"
  from run_created [OF q w(1), of ?s] s obtain m
    where m: "create_journal w (fresh_snapshot (lf w) a (l_journal s \<noteq> No_Journal)) ?s = (Inr ?x, ?s\<lparr>l_journal := Journal [], l_tick := m\<rparr>)"
    by auto
  let ?u = "?s\<lparr>l_journal := Journal [], l_tick := m\<rparr>"
  have calm: "\<not> needs_repair ?x" "s_head ?x = None" "s_reading ?x = finish_reading (lf w) start_chain"
    by (simp_all add: needs_repair_def fresh_snapshot_def missing_head_def start_finish)
  obtain t where t: "write_head w (0, genesis, genesis, genesis) (r_hashes (s_reading ?x), r_previous (s_reading ?x)) ?u = (Inr (), t)"
      "settled (lf w) a start_chain t"
    using run_start_head [OF q w(1), of ?u] s by (auto simp: fresh_def)
  have "ends (\<lambda>_ _. False) (\<lambda>x u. snap_ok (lf w) a start_chain 0 0 x \<and> settled (lf w) a start_chain u) (take_snapshot w) t"
    using ends_settled_snapshot [OF t(2) w(1) refl, of False] w(2) by (auto simp: failing_def start_length elim: ends_weaken)
  then obtain y z where y: "take_snapshot w t = (Inr y, z)" "snap_ok (lf w) a start_chain 0 0 y" "settled (lf w) a start_chain z"
    by (auto simp: ends_def split: prod.splits sum.splits)
  have "append_tombstone w v s = append_event w d y z"
    using n m calm t(1) y(1) by (simp add: append_tombstone_def d bind_ret bind_def ret_def first_head_def Let_def start_finish seq_ops_def)
  moreover obtain raw where "l_journal z = Journal raw" "raw = []"
  proof -
    have "l_journal ?u = Journal []" by simp
    from keepsD [OF bytes_head [where J = "Journal []" and w = w], OF this, of "(0, genesis, genesis, genesis)"
        "(r_hashes (s_reading ?x), r_previous (s_reading ?x))"]
    have "l_journal t = Journal []" unfolding t(1) by simp
    then have "l_journal z = Journal []" using keepsD [OF bytes_snapshot [where J = "Journal []" and w = w], of t] arg_cong [OF y(1), of snd] by simp
    then show thesis by (rule that) simp
  qed
  moreover have "ends (failing False (either (tears w) (lf w) a d start_chain))
      (\<lambda>ev u. ev = next_event (lf w) d start_chain \<and> (\<exists>c'. extends_by (lf w) d start_chain c' \<and> settled (lf w) a c' u)) (append_event w d y) z"
    using w(2) calculation(2,3) y(2,3)
    by (intro ends_append_event [OF _ _ w(1) refl _ d]) (simp_all add: start_length roomy_def max_journal_bytes_def)
  ultimately show ?thesis by (auto simp: ends_def failing_def split: prod.splits sum.splits)
qed

end
