(* ===== verification/Deletion_Sample.thy ===== *)
theory Deletion_Sample
  imports Deletion_Start
begin

text \<open>
  A concrete ledger for the examples: a checksum in the place of SHA-256, a key and an anchor, an
  environment without faults and one where accesses and writes fail, a tombstone, an
  empty directory, and the files after the first append to it.
\<close>

definition checksum :: "string \<Rightarrow> string" where
  "checksum s =
     (let n = foldl (\<lambda>n c. (257 * n + byte c) mod 2 ^ 256) 7 s in map (\<lambda>i. hex_char (n div 16 ^ i mod 16)) [0..<64])"

definition sample_fns :: ledger_fns where
  "sample_fns = \<lparr>sha = checksum, hmac = (\<lambda>k s. checksum (k @ s)), float_text = (\<lambda>x. ''0.0'')\<rparr>"

definition sample_auth :: authenticity where
  "sample_auth = \<lparr>a_key = Some ''sample'', a_bootstrap = False, a_anchor = True\<rparr>"

definition sample_env :: ledger_env where
  "sample_env =
     \<lparr>lf = sample_fns, auth_at = (\<lambda>_. Some sample_auth), faulty = (\<lambda>_. False), put = (\<lambda>_. Put_Done),
      append_out = (\<lambda>_. Append_Done), wall = (\<lambda>_. 0), stamp = (\<lambda>_. ''2026-01-02T03:04:05Z''), root_name = ''memory''\<rparr>"

definition failing_env :: ledger_env where
  "failing_env = sample_env\<lparr>put := (\<lambda>n. Put_Fails (even n)), faulty := (\<lambda>n. n mod 7 = 6), append_out := (\<lambda>_. Append_Fails 0)\<rparr>"

definition sample_tombstone :: pyval where
  "sample_tombstone =
     PDict [(''schema'', PStr v1_schema), (''noteId'', PStr ''core-0123456789abcdef''), (''noteType'', PStr ''core''),
            (''sourceType'', PStr ''user''), (''reason'', PStr ''user_requested''), (''deletedAt'', PStr ''2026-01-02T03:04:05Z'')]"

definition empty_directory :: ledger where
  "empty_directory = \<lparr>l_journal = No_Journal, l_head = No_Doc, l_init = No_Doc, l_anchor = No_Doc, l_tick = 0\<rparr>"

lemma hex_char_digit: "n < 16 \<Longrightarrow> hex_digit (hex_char n)"
proof -
  assume "n < 16"
  then have "n \<in> set [0..<16]" by simp
  moreover have "list_all (\<lambda>n. hex_digit (hex_char n)) [0..<16]" by code_simp
  ultimately show ?thesis by (simp only: list_all_iff)
qed

lemma sample_hashes: "hashes_ok sample_fns"
  by (simp add: hashes_ok_def sample_fns_def checksum_def hex_run_def Let_def list_all_iff hex_char_digit)

lemma sample_time: "timestamp_text ''2026-01-02T03:04:05Z''"
  by code_simp

lemma sample_steady: "steady sample_env sample_auth" "steady failing_env sample_auth"
  using sample_hashes sample_time by (simp_all add: steady_def sample_env_def sample_auth_def failing_env_def)

lemma sample_healthy: "healthy sample_env"
  by (simp add: healthy_def sample_env_def)

lemma failing_whole: "\<not> tears failing_env"
  by (simp add: tears_def failing_env_def)

lemma sample_lf: "lf sample_env = sample_fns" "lf failing_env = sample_fns"
  by (simp_all add: sample_env_def failing_env_def)

lemma sample_fresh: "fresh empty_directory"
  by (simp add: fresh_def empty_directory_def)

lemma blank_bytes:
  assumes "w \<in> set unicode_blanks"
  shows "\<exists>c\<in>set w. byte c \<le> 32 \<or> 128 \<le> byte c"
proof -
  obtain n where n: "w = utf8_of n" "n \<le> 32 \<or> 128 \<le> n" "n < 65536"
    using assms by (fastforce simp: unicode_blanks_def)
  then consider "n \<le> 32" | "128 \<le> n" "n < 2048" | "2048 \<le> n" by linarith
  then show ?thesis
  proof cases
    case 2
    then have "192 + n div 64 < 256" by linarith
    then show ?thesis using 2 n(1) by (simp add: utf8_of_def byte_def)
  next
    case 3
    then have "224 + n div 4096 < 256" using n(3) by linarith
    then show ?thesis using 3 n by (simp add: utf8_of_def byte_def)
  qed (simp add: n(1) utf8_of_def byte_def)
qed

lemma plain_stripped: "list_all (\<lambda>c. 32 < byte c \<and> byte c < 128) s \<Longrightarrow> stripped s"
  unfolding stripped_def list_ex_iff
  by (auto simp: list_all_iff dest!: blank_bytes) (metis in_set_takeD in_set_dropD not_less)+

lemma sample_texts:
  "valid_text 512 (PStr ''core-0123456789abcdef'')" "valid_text 128 (PStr ''core'')" "valid_text 128 (PStr ''user'')"
  using plain_stripped by (simp_all add: valid_text_def char_count_def trail_def byte_def)

lemma sample_note: "native_note_id ''core-0123456789abcdef''"
  by code_simp

lemma sample_canonicalizes: "canonicalize sample_fns sample_tombstone = Inr (case sample_tombstone of PDict d \<Rightarrow> d)"
  using sample_texts sample_note sample_time
  by (simp add: canonicalize_def sample_tombstone_def has_keys_def is_revocation_def py_get_def v1_keys_def v1_schema_def need_in_def
      allowed_reasons_def valid_timestamp_def ledger_note_id_def normalize_note_type_def normalize_source_type_def
      normalize_type_def note_type_aliases_def source_type_aliases_def low_def)

definition sample_fields :: fields where
  "sample_fields = (case sample_tombstone of PDict d \<Rightarrow> d)"

definition sample_ledger :: ledger where
  "sample_ledger = snd (append_tombstone sample_env sample_tombstone empty_directory)"

lemma sample_history:
  "\<exists>c. settled sample_fns sample_auth c sample_ledger \<and> full_length c = 1"
proof -
  obtain t c where "append_tombstone sample_env sample_tombstone empty_directory = (Inr (next_event sample_fns sample_fields start_chain), t)"
      "extends_by sample_fns sample_fields start_chain c" "settled sample_fns sample_auth c t"
    using first_append [OF sample_steady(1) sample_healthy sample_fresh] sample_canonicalizes
    unfolding sample_lf sample_fields_def by metis
  then show ?thesis using start_length by (auto simp: sample_ledger_def extends_by_def)
qed

lemma sample_root: "\<exists>r. root_digest sample_env = Inr r"
proof -
  have "ascii_text (canonical sample_fns [(''schema'', PStr ''memory.deletion.root-identity.v1''), (''resolvedIndexRoot'', PStr ''memory'')])"
    unfolding canonical_def by (rule dump_dict_ascii) (simp add: ascii_text_def)
  then show ?thesis by (simp add: root_digest_def sample_env_def)
qed

lemma sample_chain:
  obtains c where "nears sample_fns sample_auth c sample_ledger" "settled sample_fns sample_auth c sample_ledger" "full_length c = 1"
  using sample_history settled_nears by blast

lemma sample_inputs:
  "steady sample_env sample_auth" "steady failing_env sample_auth" "healthy sample_env" "lf sample_env = sample_fns"
  "lf failing_env = sample_fns" "lf failing_env = lf sample_env" "lf sample_env = lf failing_env"
  "canonicalize sample_fns sample_tombstone = Inr sample_fields" "fresh empty_directory"
  by (simp_all add: sample_steady sample_healthy sample_lf sample_canonicalizes sample_fields_def sample_fresh)

text \<open>A journal that was created and given its head and anchor, and holds no event yet.\<close>

definition started_ledger :: ledger where
  "started_ledger = snd (write_head sample_env (0, genesis, genesis, genesis) (Map.empty, Map.empty) (empty_directory\<lparr>l_journal := Journal []\<rparr>))"

lemma started_settled: "settled sample_fns sample_auth start_chain started_ledger"
proof -
  have "\<exists>t. write_head sample_env (0, genesis, genesis, genesis) (Map.empty, Map.empty) (empty_directory\<lparr>l_journal := Journal []\<rparr>) =
      (Inr (), t) \<and> settled (lf sample_env) sample_auth start_chain t"
    by (rule run_start_head [OF quiet [OF sample_inputs(1,3)] sample_inputs(1)]) (simp_all add: empty_directory_def)
  then show ?thesis by (auto simp: started_ledger_def sample_inputs)
qed

lemma started_room: "roomy started_ledger"
proof -
  let ?s = "empty_directory\<lparr>l_journal := Journal []\<rparr>"
  have "l_journal ?s = Journal []" by simp
  from keepsD [OF bytes_head [where J = "Journal []" and w = sample_env], OF this]
  show ?thesis by (simp add: started_ledger_def roomy_def max_journal_bytes_def)
qed

end
