(* ===== verification/Deletion_Recovery.thy ===== *)
theory Deletion_Recovery
  imports Deletion_Sample
begin

text \<open>
  The properties of the deletion ledger as a component: appending to a started ledger is atomic under every
  fault and what it leaves is readable again (or refused, where a line was torn in the middle), events are never
  lost or changed by any sequence of operations, an authentic anchor pins the history before it, and a purge receipt is accepted at
  the position it was built for and nowhere later.
\<close>

section \<open>Refusing a torn line\<close>

definition torn :: "ledger \<Rightarrow> bool" where
  "torn s \<longleftrightarrow> (\<exists>raw. l_journal s = Journal raw \<and> raw \<noteq> [] \<and> last raw \<noteq> CHR 10)"

definition refuses :: "'a lprog \<Rightarrow> ledger \<Rightarrow> bool" where
  "refuses m s \<longleftrightarrow> (\<exists>t. m s = (Inl Integrity, t) \<and> l_journal t = l_journal s)"

lemma torn_journal: "torn s \<Longrightarrow> refuses (read_journal w) s"
  by (auto simp: refuses_def torn_def read_journal_def access_def query_def gets_def demand_def seq_ops_def bind_def ret_def throw_def
      read_bytes_def read_chain_def bind_r_def from_result_def)

lemma refuses_bind: "refuses m s \<Longrightarrow> refuses (bind m k) s"
  by (auto simp: refuses_def bind_def)

lemma torn_snapshot: "torn s \<Longrightarrow> refuses (take_snapshot w) s"
proof -
  assume t: "torn s"
  let ?s = "s\<lparr>l_tick := Suc (l_tick s)\<rparr>"
  have u: "torn ?s" using t by (simp add: torn_def)
  have "refuses (bind (read_journal w) k) ?s" for k :: "reading \<Rightarrow> snapshot lprog"
    by (rule refuses_bind [OF torn_journal [OF u]])
  then show ?thesis
    by (auto simp: take_snapshot_def load_auth_def query_def bind_def [of "query (auth_at w)"] bind_def [of "bind (query (auth_at w)) f" for f]
        refuses_def ret_def throw_def split: option.splits)
qed

lemma torn_after_torn: "torn_after e c s \<Longrightarrow> torn s"
  unfolding torn_after_def torn_def by (metis append_is_Nil_conv last_appendR last_in_set)

lemma torn_read: "torn s \<Longrightarrow> refuses (read_tombstones w (Suc n)) s"
  by (auto simp: read_tombstones_def intro!: refuses_bind torn_snapshot)

lemma torn_append: "torn s \<Longrightarrow> canonicalize (lf w) v = Inr d \<Longrightarrow> refuses (append_tombstone w v) s"
  by (auto simp: append_tombstone_def bind_ret intro!: refuses_bind torn_snapshot)

lemma torn_after_same: "torn_after e c s \<Longrightarrow> l_journal t = l_journal s \<Longrightarrow> torn_after e c t"
  by (simp add: torn_after_def)

section \<open>Atomic appends\<close>

lemma ends_read:
  assumes n: "near e a c kh ka s" and w: "steady w a" "lf w = e" "\<not> healthy w \<longrightarrow> f"
  shows "ends (failing f (nears e a c)) (\<lambda>evs u. evs = c_events c \<and> settled e a c u) (read_tombstones w (Suc (Suc k))) s"
proof -
  obtain raw where raw: "read_chain e raw = Inr c" by (rule near_reading [OF n])
  show ?thesis
    unfolding read_tombstones_def
    by (rule ends_bind, rule ends_weaken [OF ends_validated [OF n w]])
      (auto simp: snap_ok_def reading_of(1) [OF raw] intro: ends_ret)
qed

lemma healthy_read:
  assumes "nears e a c s" "steady w a" "lf w = e" "healthy w"
  shows "\<exists>t. read_tombstones w 2 s = (Inr (c_events c), t) \<and> settled e a c t"
proof -
  obtain kh ka where n: "near e a c kh ka s" using assms(1) by (auto simp: nears_def)
  have "ends (failing False (nears e a c)) (\<lambda>evs u. evs = c_events c \<and> settled e a c u) (read_tombstones w (Suc (Suc 0))) s"
    using assms(4) by (intro ends_read [OF n assms(2,3)]) simp
  then show ?thesis by (auto simp: ends_def failing_def numeral_2_eq_2 split: prod.splits sum.splits)
qed

lemma append_outcome:
  assumes "nears e a c s" "steady w a" "lf w = e" "canonicalize e v = Inr d"
  shows "case append_tombstone w v s of
      (Inl x, t) \<Rightarrow> x = Integrity \<and> \<not> (healthy w \<and> roomy s) \<and> either (tears w) e a d c t
    | (Inr ev, t) \<Rightarrow> ev = next_event e d c \<and> (\<exists>c'. extends_by e d c c' \<and> settled e a c' t)"
proof -
  obtain kh ka where n: "near e a c kh ka s" using assms(1) by (auto simp: nears_def)
  have "ends (failing (\<not> (healthy w \<and> roomy s)) (either (tears w) e a d c))
      (\<lambda>ev u. ev = next_event e d c \<and> (\<exists>c'. extends_by e d c c' \<and> settled e a c' u)) (append_tombstone w v) s"
    by (rule ends_append [OF n assms(2,3) _ assms(4)]) blast
  then show ?thesis by (auto simp: ends_def failing_def split: prod.splits sum.splits)
qed

definition appended :: "ledger_fns \<Rightarrow> fields \<Rightarrow> chain \<Rightarrow> fields list" where
  "appended e d c = c_events c @ [sort_key fst (next_event e d c)]"

text \<open>
  C1. Appending a deletion is atomic. Take any state of a started ledger that earlier interrupted appends can
  leave, and any faults during the append: unreadable files, a key that fails to load, atomic
  writes that fail before or after they took effect, a line that reaches the file not at all, in part or whole. If the
  append returns, the ledger holds the old events and the new one. If it raises, it raises the
  module's own error, and afterwards, once the faults are gone, the next read succeeds (it repairs
  head and anchor) and returns the old events, with the new one or without it; or else the write stopped in the
  middle of the line, and then the journal holds the lines of the old events untouched, with the torn line
  behind them, and the next read refuses it.
\<close>

theorem append_is_atomic:
  assumes "nears (lf w) a c s" "steady w a" "canonicalize (lf w) v = Inr d" "steady w' a" "lf w' = lf w" "healthy w'"
  shows "case append_tombstone w v s of
      (Inl x, t) \<Rightarrow> x = Integrity \<and>
        (fst (read_tombstones w' 2 t) \<in> {Inr (c_events c), Inr (appended (lf w) d c)} \<or>
         tears w \<and> torn_after (lf w) c t \<and> refuses (read_tombstones w' 2) t)
    | (Inr ev, t) \<Rightarrow> ev = next_event (lf w) d c \<and> fst (read_tombstones w' 2 t) = Inr (appended (lf w) d c)"
proof -
  let ?e = "lf w"
  have read: "nears ?e a c' t \<Longrightarrow> fst (read_tombstones w' 2 t) = Inr (c_events c')" for c' t
    using healthy_read [OF _ assms(4,5,6)] by fastforce
  have ext: "extends_by ?e d c c' \<Longrightarrow> c_events c' = appended ?e d c" for c'
    by (simp add: extends_by_def appended_def)
  have torn: "torn_after ?e c t \<Longrightarrow> refuses (read_tombstones w' 2) t" for t
    using torn_read [OF torn_after_torn, of ?e c t w' 1] by (simp add: numeral_2_eq_2)
  show ?thesis
    using append_outcome [OF assms(1,2) refl assms(3)] read ext settled_nears torn
    by (fastforce simp: either_def split: prod.splits sum.splits)
qed

lemma append_is_atomic_witness:
  "\<exists>c. nears sample_fns sample_auth c sample_ledger \<and> full_length c = 1 \<and>
    (case append_tombstone failing_env sample_tombstone sample_ledger of
      (Inl x, t) \<Rightarrow> x = Integrity \<and>
        fst (read_tombstones sample_env 2 t) \<in> {Inr (c_events c), Inr (appended sample_fns sample_fields c)}
    | (Inr ev, t) \<Rightarrow> ev = next_event sample_fns sample_fields c \<and>
        fst (read_tombstones sample_env 2 t) = Inr (appended sample_fns sample_fields c))"
proof -
  obtain c where c: "nears sample_fns sample_auth c sample_ledger" "full_length c = 1" by (rule sample_chain)
  from append_is_atomic [of failing_env sample_auth c sample_ledger sample_tombstone sample_fields sample_env, unfolded sample_inputs(4,5)]
  show ?thesis using c failing_whole by (intro exI [of _ c]) (auto simp: sample_inputs split: prod.splits sum.splits)
qed

text \<open>
  Nothing else makes an append fail: when no fault happens and the journal has room for one
  more event, appending a tombstone that canonicalizes returns its event, from every state an
  interrupted append can leave.
\<close>

theorem healthy_append_succeeds:
  assumes "nears (lf w) a c s" "steady w a" "canonicalize (lf w) v = Inr d" "healthy w" "roomy s"
  shows "\<exists>t. append_tombstone w v s = (Inr (next_event (lf w) d c), t) \<and> (\<exists>c'. extends_by (lf w) d c c' \<and> settled (lf w) a c' t)"
  using append_outcome [OF assms(1,2) refl assms(3)] assms(4,5) by (auto split: prod.splits sum.splits)

lemma healthy_append_succeeds_witness:
  "\<exists>t c'. append_tombstone sample_env sample_tombstone started_ledger = (Inr (next_event sample_fns sample_fields start_chain), t) \<and>
     extends_by sample_fns sample_fields start_chain c' \<and> settled sample_fns sample_auth c' t"
  using healthy_append_succeeds [of sample_env sample_auth start_chain started_ledger sample_tombstone sample_fields]
    settled_nears [OF started_settled] started_room by (simp add: sample_inputs)

section \<open>Sequences of operations\<close>

datatype ledger_op = Op_Append pyval | Op_Read

definition ledger_do :: "ledger_env \<Rightarrow> ledger \<Rightarrow> ledger_op \<Rightarrow> ledger" where
  "ledger_do w s x =
     (case x of Op_Append v \<Rightarrow> snd (append_tombstone w v s) | Op_Read \<Rightarrow> snd (read_tombstones w 2 s))"

definition holding :: "ledger_env \<Rightarrow> authenticity \<Rightarrow> fields list \<Rightarrow> ledger \<Rightarrow> bool" where
  "holding w a evs s \<longleftrightarrow>
     (steady w a \<longrightarrow> (\<exists>c more. c_events c = evs @ more \<and> (nears (lf w) a c s \<or> tears w \<and> torn_after (lf w) c s)))"

lemma holding_torn:
  assumes "torn_after (lf w) c s" "tears w" "c_events c = evs @ later" "refuses m s \<or> snd (m s) = s"
  shows "holding w a evs (snd (m s))"
proof -
  have "l_journal (snd (m s)) = l_journal s" using assms(4) by (auto simp: refuses_def)
  then show ?thesis using assms(2,3) torn_after_same [OF assms(1)] unfolding holding_def by blast
qed

lemma holding_read:
  assumes "holding w a evs s"
  shows "holding w a evs (snd (read_tombstones w 2 s))"
proof (cases "steady w a")
  case w: True
  then obtain c more where c: "c_events c = evs @ more" "nears (lf w) a c s \<or> tears w \<and> torn_after (lf w) c s"
    using assms by (auto simp: holding_def)
  show ?thesis
  proof (cases "nears (lf w) a c s")
    case True
    then obtain kh ka where n: "near (lf w) a c kh ka s" by (auto simp: nears_def)
    have "ends (failing True (nears (lf w) a c)) (\<lambda>evs u. evs = c_events c \<and> settled (lf w) a c u) (read_tombstones w (Suc (Suc 0))) s"
      by (rule ends_read [OF n w refl]) simp
    then have "nears (lf w) a c (snd (read_tombstones w 2 s))"
      using settled_nears by (fastforce simp: ends_def failing_def numeral_2_eq_2 split: prod.splits sum.splits)
    with c(1) show ?thesis unfolding holding_def by blast
  next
    case False
    with c have "tears w" "torn_after (lf w) c s" by blast+
    then show ?thesis
      using holding_torn [OF _ _ c(1), of w s "read_tombstones w 2" a] torn_read [OF torn_after_torn, of "lf w" c s w 1]
      by (simp add: numeral_2_eq_2)
  qed
qed (simp add: holding_def)

lemma append_rejected: "canonicalize (lf w) v = Inl x \<Longrightarrow> append_tombstone w v s = (Inl x, s)"
  by (simp add: append_tombstone_def bind_def throw_def)

lemma holding_append:
  assumes "holding w a evs s"
  shows "holding w a evs (snd (append_tombstone w v s))"
proof (cases "steady w a")
  case w: True
  then obtain c more where c: "c_events c = evs @ more" "nears (lf w) a c s \<or> tears w \<and> torn_after (lf w) c s"
    using assms by (auto simp: holding_def)
  show ?thesis
  proof (cases "canonicalize (lf w) v")
    case (Inl x)
    then show ?thesis using append_rejected [of w v x s] assms by simp
  next
    case (Inr d)
    show ?thesis
    proof (cases "nears (lf w) a c s")
      case True
      have "\<exists>c'. (nears (lf w) a c' (snd (append_tombstone w v s)) \<or> tears w \<and> torn_after (lf w) c' (snd (append_tombstone w v s))) \<and>
          (c_events c' = c_events c \<or> c_events c' = appended (lf w) d c)"
        using append_outcome [OF True w refl Inr] settled_nears
        by (fastforce simp: either_def extends_by_def appended_def split: prod.splits sum.splits)
      then show ?thesis using c(1) unfolding holding_def by (auto simp: appended_def)
    next
      case False
      with c have "tears w" "torn_after (lf w) c s" by blast+
      then show ?thesis
        using holding_torn [OF _ _ c(1), of w s "append_tombstone w v" a] torn_append [OF torn_after_torn Inr] by blast
    qed
  qed
qed (simp add: holding_def)

interpretation ledger: op_machine "ledger_do w" "holding w a evs" for w a evs
  by unfold_locales (auto simp: ledger_do_def holding_read holding_append split: ledger_op.splits)

text \<open>
  C3. Deletions are never forgotten. Whatever sequence of appends and reads runs on a started ledger, with faults in
  any of them, a later read under a healthy environment returns the events the ledger held at the
  start, unchanged and in order, possibly followed by new ones; or else the write of a line was torn on the way,
  and then the journal still holds the lines of those events, in that order, with the torn line behind them, and
  the read refuses it rather than return less.
\<close>

theorem deletions_are_kept:
  assumes "nears (lf w) a c s" "steady w a" "steady w' a" "lf w' = lf w" "healthy w'"
  shows "(\<exists>more. fst (read_tombstones w' 2 (foldl (ledger_do w) s xs)) = Inr (c_events c @ more)) \<or>
    tears w \<and> refuses (read_tombstones w' 2) (foldl (ledger_do w) s xs) \<and>
    (\<exists>c' more. c_events c' = c_events c @ more \<and> torn_after (lf w) c' (foldl (ledger_do w) s xs))"
proof -
  have "holding w a (c_events c) s" using assms(1) unfolding holding_def by (metis append_Nil2)
  from ledger.inv_run [OF this, of xs] obtain c' more where c': "c_events c' = c_events c @ more"
      "nears (lf w) a c' (foldl (ledger_do w) s xs) \<or> tears w \<and> torn_after (lf w) c' (foldl (ledger_do w) s xs)"
    using assms(2) unfolding holding_def by blast
  from this(2) show ?thesis
  proof
    assume "nears (lf w) a c' (foldl (ledger_do w) s xs)"
    from healthy_read [OF this assms(3,4,5)] c'(1) show ?thesis by auto
  next
    assume t: "tears w \<and> torn_after (lf w) c' (foldl (ledger_do w) s xs)"
    then have "refuses (read_tombstones w' 2) (foldl (ledger_do w) s xs)"
      using torn_read [OF torn_after_torn, of "lf w" c' _ w' 1] by (simp add: numeral_2_eq_2)
    with t c'(1) show ?thesis by blast
  qed
qed

lemma deletions_are_kept_witness:
  "\<exists>c more. full_length c = 1 \<and> fst (read_tombstones sample_env 2
     (foldl (ledger_do failing_env) sample_ledger [Op_Append sample_tombstone, Op_Read, Op_Append PNone])) = Inr (c_events c @ more)"
proof -
  obtain c where c: "nears sample_fns sample_auth c sample_ledger" "full_length c = 1" by (rule sample_chain)
  from deletions_are_kept [of failing_env sample_auth c sample_ledger sample_env "[Op_Append sample_tombstone, Op_Read, Op_Append PNone]"]
  show ?thesis using c failing_whole by (intro exI [of _ c]) (simp add: sample_inputs)
qed

section \<open>The first append\<close>

text \<open>
  C39. A ledger comes into being with its first event. In a directory without any of the ledger's
  files (or with an empty journal only) and without faults, appending a tombstone that
  canonicalizes returns event 1 and leaves journal, head and (when one is configured) anchor in
  agreement, so that reading returns exactly that event.
\<close>

theorem first_append_starts_ledger:
  assumes "fresh s" "steady w a" "healthy w" "canonicalize (lf w) v = Inr d"
  shows "\<exists>t c. append_tombstone w v s = (Inr (next_event (lf w) d start_chain), t) \<and> settled (lf w) a c t \<and>
    chained c = [sort_key fst (next_event (lf w) d start_chain)] \<and>
    fst (read_tombstones w 2 t) = Inr [sort_key fst (next_event (lf w) d start_chain)]"
proof -
  obtain t c where t: "append_tombstone w v s = (Inr (next_event (lf w) d start_chain), t)"
      "extends_by (lf w) d start_chain c" "settled (lf w) a c t"
    using first_append [OF assms(2,3,1,4)] by blast
  then have "c_events c = [sort_key fst (next_event (lf w) d start_chain)]" "chained c = c_events c"
    by (simp_all add: extends_by_def start_chain_def chained_def)
  with t healthy_read [OF settled_nears assms(2) refl assms(3)] show ?thesis by fastforce
qed

lemma first_append_starts_ledger_witness:
  "\<exists>t c. append_tombstone sample_env sample_tombstone empty_directory = (Inr (next_event sample_fns sample_fields start_chain), t) \<and>
     settled sample_fns sample_auth c t \<and> chained c = [sort_key fst (next_event sample_fns sample_fields start_chain)] \<and>
     fst (read_tombstones sample_env 2 t) = Inr [sort_key fst (next_event sample_fns sample_fields start_chain)]"
  using first_append_starts_ledger [of empty_directory sample_env sample_auth sample_tombstone sample_fields]
  by (simp add: sample_inputs)

section \<open>Torn lines\<close>

text \<open>
  C40. The ledger fails closed on a torn line. When the journal does not end with a line feed, which
  is what an append leaves whose write stopped in the middle of a line, every read and every append raises the
  integrity error, whatever the environment does, and leaves the journal as it is: no event is
  dropped silently, and none is repaired.
\<close>

theorem torn_line_is_refused:
  assumes "torn s"
  shows "refuses (read_tombstones w (Suc n)) s \<and> (\<forall>v d. canonicalize (lf w) v = Inr d \<longrightarrow> refuses (append_tombstone w v) s)"
  using torn_read [OF assms] torn_append [OF assms] by blast

lemma torn_line_is_refused_witness:
  "refuses (read_tombstones failing_env 2) (empty_directory\<lparr>l_journal := Journal ''{''\<rparr>) \<and>
   refuses (append_tombstone failing_env sample_tombstone) (empty_directory\<lparr>l_journal := Journal ''{''\<rparr>)"
  using torn_line_is_refused [of "empty_directory\<lparr>l_journal := Journal ''{''\<rparr>" failing_env 1]
  by (simp add: torn_def sample_inputs numeral_2_eq_2)

section \<open>Runs that succeed\<close>

lemma read_journal_exists:
  assumes "read_journal w s = (Inr R, t)" "r_exists R"
  obtains raw c where "l_journal s = Journal raw" "length raw \<le> max_journal_bytes" "read_chain (lf w) raw = Inr c"
    "R = finish_reading (lf w) c" "same s t"
  using assms
  by (auto simp: read_journal_def access_def query_def gets_def demand_def seq_ops_def bind_def ret_def throw_def from_result_def
      read_bytes_def bind_r_Inr absent_reading_def same_def split: journal_bytes.splits if_splits)

lemma read_doc_steps: "read_doc w f s = (Inr x, t) \<Longrightarrow> same s t \<and> x = (case f (s\<lparr>l_tick := Suc (l_tick s)\<rparr>) of Doc c v \<Rightarrow> Some (c, v) | _ \<Rightarrow> None)"
  by (auto simp: read_doc_def access_def query_def gets_def demand_def seq_ops_def bind_def ret_def throw_def same_def
      split: doc_file.splits if_splits)

lemma read_head_same: "read_head w a s = (Inr x, t) \<Longrightarrow> same s t"
  by (auto simp: read_head_def bind_Inr from_result_def ret_def split: option.splits dest!: read_doc_steps)

lemma read_signed_same: "read_signed w a f chk s = (Inr x, t) \<Longrightarrow> same s t"
  by (auto simp: read_signed_def bind_Inr from_result_def ret_def throw_def split: option.splits if_splits dest!: read_doc_steps)

lemma read_journal_same: "read_journal w s = (Inr R, t) \<Longrightarrow> same s t"
  by (auto simp: read_journal_def access_def query_def gets_def demand_def seq_ops_def bind_def ret_def throw_def
      from_result_def same_def split: journal_bytes.splits if_splits)

lemma snapshot_run:
  assumes "take_snapshot w s = (Inr x, t)" "\<forall>n. auth_at w n \<in> {None, Some a}"
  obtains R h au hs p s1 s2 s3 an b where "read_journal w s1 = (Inr R, s2)" "same s s1" "read_head w a s2 = (Inr (h, au), s3)"
    "head_place a R h = Inr (hs, p)" "inspect_anchor w a p (r_hashes R, r_previous R) b s3 = (Inr an, t)"
    "b \<longleftrightarrow> h = None \<and> r_sequence R = 0 \<and> r_events R = []" "s_reading x = R"
proof -
  have "load_auth w s = (Inr a', u) \<Longrightarrow> a' = a \<and> same s u" for a' u
    using assms(2) [rule_format, of "l_tick s"]
    by (auto simp: load_auth_def query_def bind_def ret_def throw_def same_def split: option.splits)
  with assms(1) show thesis
    by (auto simp: take_snapshot_def bind_Inr from_result_def ret_def split: prod.splits intro: that)
qed

section \<open>An interrupted start\<close>

text \<open>The head was written at position 0 and nothing after it.\<close>

definition half_started :: "ledger_env \<Rightarrow> authenticity \<Rightarrow> ledger \<Rightarrow> bool" where
  "half_started w a s \<longleftrightarrow>
     l_journal s = Journal [] \<and> head_ok (lf w) a (l_head s) (place_at (lf w) start_chain 0) \<and> l_anchor s = No_Doc"

text \<open>
  When an anchor is configured and the bootstrap flag is not set, a start that was interrupted between the
  first write of the head and the first write of the anchor is never completed: no snapshot succeeds any
  more, so that every read and every append is refused, without a fault.
\<close>

lemma interrupted_start_is_refused:
  assumes "half_started w a s" "steady w a" "a_anchor a" "\<not> a_bootstrap a"
  shows "\<exists>x t. take_snapshot w s = (Inl x, t)"
proof (cases "take_snapshot w s")
  case (Pair r t)
  show ?thesis
  proof (cases r)
    case (Inr x)
    with Pair have run: "take_snapshot w s = (Inr x, t)" by simp
    have "\<forall>n. auth_at w n \<in> {None, Some a}" using assms(2) by (simp add: steady_def)
    from run this obtain R h au hs p s1 s2 s3 an b where st: "read_journal w s1 = (Inr R, s2)" "same s s1"
        "read_head w a s2 = (Inr (h, au), s3)" "head_place a R h = Inr (hs, p)"
        "inspect_anchor w a p (r_hashes R, r_previous R) b s3 = (Inr an, t)" "b \<longleftrightarrow> h = None \<and> r_sequence R = 0 \<and> r_events R = []"
      by (rule snapshot_run)
    have keep: "l_head s2 = l_head s" "l_anchor s3 = l_anchor s"
      using st(2) read_journal_same [OF st(1)] read_head_same [OF st(3)] by (simp_all add: same_def)
    have "h \<noteq> None"
      using st(3) assms(1) keep(1) by (auto simp: half_started_def head_ok_def read_head_def bind_Inr from_result_def ret_def
          split: option.splits dest!: read_doc_steps)
    then have "\<not> b" using st(6) by simp
    have anc: "read_anchor w a u = (Inr y, v) \<Longrightarrow> l_anchor u = No_Doc \<Longrightarrow> y = None" for u y v
      using assms(3) by (auto simp: read_anchor_def read_signed_def bind_Inr ret_def throw_def
          split: option.splits dest!: read_doc_steps)
    have "read_init w a s3 = (Inr i, u) \<Longrightarrow> l_anchor u = No_Doc" for i u
      using read_signed_same [of w a l_init] keep(2) assms(1) unfolding read_init_def half_started_def by (fastforce simp: same_def)
    with anc have both: "read_init w a s3 = (Inr i, u) \<Longrightarrow> read_anchor w a u = (Inr y, v) \<Longrightarrow> y = None" for i u y v by blast
    have False using st(5) \<open>\<not> b\<close> assms(3,4) by (auto simp: inspect_anchor_def bind_Inr throw_def split: if_splits dest!: both)
    then show ?thesis ..
  qed (use Pair in simp)
qed

section \<open>Tampering\<close>

lemma inspect_signed:
  assumes "inspect_anchor w a p tb b s = (Inr st, t)" "a_anchor a" "anchor_ok (lf w) a (l_anchor s) q"
  obtains d where "position_matches d q" "position_fields_ok d"
    "position_matches d p \<or> fst p - 1 \<ge> 0 \<and> position_matches d (tabled tb (snd (snd (snd p))) (fst p - 1))"
proof -
  obtain k d where d: "a_key a = Some k" "l_anchor s = Doc True (PDict d)" "check_anchor (lf w) k True (PDict d) = Inr d"
      "position_matches d q" using assms(3) by (auto simp: anchor_ok_def)
  then have pf: "position_fields_ok d" by (auto simp: check_anchor_def bind_r_Inr)
  have anc: "read_anchor w a u = (Inr x, v) \<Longrightarrow> same s u \<Longrightarrow> x = Some d" for u x v
    using assms(2) d(1-3)
    by (auto simp: read_anchor_def read_signed_def bind_Inr from_result_def ret_def same_def dest!: read_doc_steps)
  have both: "read_init w a s = (Inr i, u) \<Longrightarrow> read_anchor w a u = (Inr x, v) \<Longrightarrow> x = Some d" for i u x v
    using anc read_signed_same unfolding read_init_def by blast
  have "position_matches d p \<or> fst p - 1 \<ge> 0 \<and> position_matches d (tabled tb (snd (snd (snd p))) (fst p - 1))"
    using assms(1,2) by (cases p) (auto simp: inspect_anchor_def bind_Inr throw_def split: if_splits dest!: both)
  with d(4) pf show thesis by (rule that)
qed

lemma anchored_snapshot:
  assumes s: "take_snapshot w s = (Inr x, t)" "\<forall>n. auth_at w n \<in> {None, Some a}"
    and a: "a_anchor a" "anchor_ok (lf w) a (l_anchor s) (place_at (lf w) c k)" and k: "1 \<le> k"
  obtains raw c' where "l_journal s = Journal raw" "length raw \<le> max_journal_bytes" "read_chain (lf w) raw = Inr c'"
    "s_reading x = finish_reading (lf w) c'" "k \<le> full_length c'" "place_at (lf w) c' k = place_at (lf w) c k"
proof -
  obtain R head au hs p s1 s2 s3 an b where st: "read_journal w s1 = (Inr R, s2)" "same s s1" "read_head w a s2 = (Inr (head, au), s3)"
    "head_place a R head = Inr (hs, p)" "inspect_anchor w a p (r_hashes R, r_previous R) b s3 = (Inr an, t)" "s_reading x = R"
    by (rule snapshot_run [OF s])
  have same12: "same s s1 \<Longrightarrow> same s1 s2 \<Longrightarrow> same s s3" using read_head_same [OF st(3)] same_trans by blast
  have js: "same s1 s2" by (rule read_journal_same [OF st(1)])
  have "l_anchor s3 = l_anchor s" using same12 [OF st(2) js] by (simp add: same_def)
  then have "anchor_ok (lf w) a (l_anchor s3) (place_at (lf w) c k)" using a(2) by simp
  then obtain d where d: "position_matches d (place_at (lf w) c k)" "position_fields_ok d"
    "position_matches d p \<or> fst p - 1 \<ge> 0 \<and> position_matches d (tabled (r_hashes R, r_previous R) (snd (snd (snd p))) (fst p - 1))"
    by (rule inspect_signed [OF st(5) a(1)])
  have fk: "fst (place_at (lf w) c k) = int k" by (simp add: place_at_def Let_def)
  show thesis
  proof (cases head)
    case None
    then have "fst p = 0" using st(4) by (auto simp: head_place_def bind_r_Inr)
    then have "p = place_at (lf w) c k" using d position_unique by fastforce
    then show thesis using fk k \<open>fst p = 0\<close> by simp
  next
    case (Some h)
    let ?n = "as_int (py_get h ''sequence'')"
    have h: "r_exists R" "\<not> ?n > r_sequence R" "position_matches h (tabled (r_hashes R, r_previous R) (r_legacy R) ?n)"
        "p = (?n, as_text (py_get h ''eventHash''), as_text (py_get h ''previousHash''), r_legacy R)"
      using st(4) Some by (auto simp: head_place_def bind_r_Inr Let_def)
    have p: "p = tabled (r_hashes R, r_previous R) (r_legacy R) ?n"
      using h(3) unfolding h(4) by (auto simp: position_matches_def tabled_def as_text_def)
    have "place_at (lf w) c k = tabled (r_hashes R, r_previous R) (r_legacy R) (int k) \<and> int k \<le> r_sequence R"
    proof (cases "position_matches d p")
      case True
      then have "p = place_at (lf w) c k" using position_unique [OF d(2,1)] by blast
      moreover have "fst p = ?n" unfolding h(4) by simp
      ultimately have "?n = int k" "p = place_at (lf w) c k" using fk by simp_all
      then show ?thesis using p h(2) by simp
    next
      case False
      then have "tabled (r_hashes R, r_previous R) (r_legacy R) (?n - 1) = place_at (lf w) c k"
        using d h(4) position_unique [OF d(2,1)] by fastforce
      moreover from this have "?n - 1 = int k" using fk by (simp add: tabled_def) (metis fst_conv)
      ultimately show ?thesis using h(2) by simp
    qed
    note here = this
    obtain raw c' where r: "l_journal s1 = Journal raw" "length raw \<le> max_journal_bytes" "read_chain (lf w) raw = Inr c'"
      "R = finish_reading (lf w) c'" by (rule read_journal_exists [OF st(1) h(1)])
    have "k \<le> full_length c'" using here reading_of(2) [OF r(3)] r(4) by simp
    moreover from this have "place_at (lf w) c' k = place_at (lf w) c k"
      using here reading_tables [OF r(3)] reading_of(5) [OF r(3)] r(4) by (simp add: good_tables_def)
    moreover have "l_journal s = Journal raw" using st(2) r(1) by (simp add: same_def)
    ultimately show thesis using r st(6) by (intro that [of raw c']) auto
  qed
qed

text \<open>
  C2. The anchor pins the past. Suppose the anchor outside the memory directory is authentic and
  was written when the journal held the chain \<open>c\<close>, at its event \<open>k\<close>. Then, however the journal and
  the head are replaced and whatever fails, a snapshot that is accepted reports a journal with
  the same version 1 prefix and the same first \<open>k\<close> events: dropping, changing or reordering one of
  them is refused, unless the two files show a collision of SHA-256 (or a text that hashes to the
  all-zero start).
\<close>

theorem anchored_history_is_kept:
  assumes "read_chain (lf w) raw = Inr c" "length raw \<le> max_journal_bytes" "1 \<le> k" "k \<le> full_length c"
    and "a_anchor a" "anchor_ok (lf w) a (l_anchor s) (place_at (lf w) c k)"
    and "take_snapshot w s = (Inr x, t)" "\<forall>n. auth_at w n \<in> {None, Some a}"
  shows "\<exists>raw' c'. l_journal s = Journal raw' \<and> read_chain (lf w) raw' = Inr c' \<and> r_events (s_reading x) = c_events c' \<and>
    (c_prefix c' = c_prefix c \<and> take k (chained c') = take k (chained c) \<or>
     exhibits_break (lf w) (hashed_texts (lf w) c @ hashed_texts (lf w) c'))"
proof -
  obtain raw' c' where c': "l_journal s = Journal raw'" "length raw' \<le> max_journal_bytes" "read_chain (lf w) raw' = Inr c'"
    "s_reading x = finish_reading (lf w) c'" "k \<le> full_length c'" "place_at (lf w) c' k = place_at (lf w) c k"
    by (rule anchored_snapshot [OF assms(7,8,5,6,3)])
  have "c_prefix c = c_prefix c' \<and> take k (chained c) = take k (chained c')"
    if "\<not> exhibits_break (lf w) (hashed_texts (lf w) c @ hashed_texts (lf w) c')"
    by (rule files_agree [OF assms(1) c'(3) assms(2) c'(2) assms(4) c'(5) _ _ that])
      (use c'(6) in \<open>auto simp: place_at_def Let_def\<close>)
  with c' show ?thesis using reading_of(1) by fastforce
qed

lemma anchored_history_is_kept_witness:
  "\<exists>x t c raw c'. take_snapshot sample_env sample_ledger = (Inr x, t) \<and> full_length c = 1 \<and>
    l_journal sample_ledger = Journal raw \<and> read_chain sample_fns raw = Inr c' \<and> r_events (s_reading x) = c_events c' \<and>
    (c_prefix c' = c_prefix c \<and> take 1 (chained c') = take 1 (chained c) \<or>
     exhibits_break sample_fns (hashed_texts sample_fns c @ hashed_texts sample_fns c'))"
proof -
  obtain c where c: "settled sample_fns sample_auth c sample_ledger" "full_length c = 1" by (rule sample_chain)
  obtain x t where x: "take_snapshot sample_env sample_ledger = (Inr x, t)"
    using settled_snapshot [OF c(1) sample_inputs(1,4,3)] by blast
  obtain raw where raw: "length raw \<le> max_journal_bytes" "read_chain sample_fns raw = Inr c"
    using near_reading [OF c(1) [unfolded settled_def]] by blast
  have "anchor_ok sample_fns sample_auth (l_anchor sample_ledger) (place_at sample_fns c 1)" "a_anchor sample_auth"
    using c by (simp_all add: settled_def near_def sample_auth_def)
  with anchored_history_is_kept [of sample_env raw c 1 sample_auth sample_ledger x t] x raw c(2)
  show ?thesis by (fastforce simp: sample_inputs sample_env_def)
qed

end
