(* ===== verification/Deletion_Purge.thy ===== *)
theory Deletion_Purge
  imports Deletion_Recovery
begin

text \<open>
  Purge receipts: a receipt built at a position of the ledger is accepted there and refused once an
  event was appended.
\<close>

definition settled_public :: "ledger_env \<Rightarrow> authenticity \<Rightarrow> chain \<Rightarrow> string \<Rightarrow> position" where
  "settled_public w a c rt =
     (let n = full_length c; p = place_fields head_schema (place_at (lf w) c n) PNone;
          fs = map (py_get p) [''sequence'', ''eventHash'', ''previousHash'', ''legacyPrefixHash'']
      in \<lparr>p_schema = PStr position_schema, p_root = PStr rt, p_sequence = PInt (int n),
          p_digest = PStr (sha (lf w) (canonical (lf w)
            [(''schema'', PStr position_schema), (''rootDigest'', PStr rt), (''sequence'', PInt (int n)),
             (''position'', PList (fs @ [PBool True] @ fs @ [PStr (auth_word (auth_of a)), PStr (anchor_word (anchor_state_at a n n))]))]))\<rparr>)"

lemma matching_fields:
  assumes "position_matches d (n, h, q, l)" "position_fields_ok d"
  shows "map (py_get d) [''sequence'', ''eventHash'', ''previousHash'', ''legacyPrefixHash''] = [PInt n, PStr h, PStr q, PStr l]"
  using assms by (auto simp: position_matches_def position_fields_ok_def valid_sequence_def split: pyval.splits)

lemma snapshot_public:
  assumes "read_chain (lf w) raw = Inr c" "snap_ok (lf w) a c (full_length c) (full_length c) x" "root_digest w = Inr rt"
  shows "public_position w x = Inr (settled_public w a c rt)"
proof -
  let ?n = "full_length c"
  obtain h q l where p: "place_at (lf w) c ?n = (int ?n, h, q, l)" by (simp add: place_at_def Let_def)
  obtain d where d: "s_head x = Some d" "position_matches d (place_at (lf w) c ?n)" "position_fields_ok d"
    using assms(2) by (auto simp: snap_ok_def head_at_def)
  then have g: "py_get d ''sequence'' = PInt (int ?n)" "py_get d ''eventHash'' = PStr h" "py_get d ''previousHash'' = PStr q"
      "py_get d ''legacyPrefixHash'' = PStr l"
    using matching_fields [of d "int ?n" h q l] p by simp_all
  have "r_sequence (s_reading x) = int ?n" "r_last (s_reading x) = h" "r_last_previous (s_reading x) = q" "r_legacy (s_reading x) = l"
      "r_exists (s_reading x)" "s_auth x = auth_of a" "s_anchor x = anchor_state_at a ?n ?n"
    using assms(2) p reading_of [OF assms(1)] by (auto simp: snap_ok_def place_at_def Let_def)
  then show ?thesis
    using d(1) g assms(3) p
    by (simp add: public_position_def settled_public_def Let_def snapshot_position_def place_fields_get)
qed

lemma snapshot_positions_equal:
  assumes "snap_ok e a c k k x" "snap_ok e a c k k y"
  shows "snapshot_position x = snapshot_position y"
proof -
  obtain h q l where p: "place_at e c k = (int k, h, q, l)" by (simp add: place_at_def Let_def)
  have "\<exists>d. s_head z = Some d \<and> py_get d ''sequence'' = PInt (int k) \<and> py_get d ''eventHash'' = PStr h \<and>
      py_get d ''previousHash'' = PStr q \<and> py_get d ''legacyPrefixHash'' = PStr l" if "snap_ok e a c k k z" for z
    using that p matching_fields [of _ "int k" h q l] unfolding snap_ok_def head_at_def by fastforce
  from this [OF assms(1)] this [OF assms(2)] assms show ?thesis
    by (auto simp: snapshot_position_def snap_ok_def Let_def)
qed

lemma healthy_validated:
  assumes "nears e a c s" "steady w a" "lf w = e" "healthy w"
  shows "\<exists>x t. validated w True 2 s = (Inr x, t) \<and> snap_ok e a c (full_length c) (full_length c) x \<and> settled e a c t"
proof -
  obtain kh ka where n: "near e a c kh ka s" using assms(1) by (auto simp: nears_def)
  have "ends (failing False (nears e a c)) (\<lambda>x u. snap_ok e a c (full_length c) (full_length c) x \<and> settled e a c u)
      (validated w True (Suc (Suc 0))) s"
    using assms(4) by (intro ends_validated [OF n assms(2,3)]) simp
  then show ?thesis by (auto simp: ends_def failing_def numeral_2_eq_2 split: prod.splits sum.splits)
qed

lemma guarded_work:
  assumes "nears (lf w) a c s" "steady w a" "healthy w" "root_digest w = Inr rt"
    and "work (settled_public w a c rt) = (if b then ret y else throw Integrity)"
  shows "\<exists>t. with_read_guard w 2 None True True work s = ((if b then Inr y else Inl Integrity), t) \<and> settled (lf w) a c t"
proof -
  let ?ok = "snap_ok (lf w) a c (full_length c) (full_length c)"
  obtain x u where x: "validated w True 2 s = (Inr x, u)" "?ok x" "settled (lf w) a c u"
    using healthy_validated [OF assms(1,2) refl assms(3)] by blast
  obtain raw where raw: "read_chain (lf w) raw = Inr c" using near_reading x(3) unfolding settled_def by metis
  obtain f v where f: "take_snapshot w u = (Inr f, v)" "?ok f" "settled (lf w) a c v"
    using settled_snapshot [OF x(3) assms(2) refl assms(3)] by blast
  have "\<not> needs_repair f" using settled_snap_fine [OF f(2)] by blast
  moreover have "snapshot_position f = snapshot_position x" by (rule snapshot_positions_equal [OF f(2) x(2)])
  ultimately show ?thesis
    using x f assms(5)
    by (auto simp: with_read_guard_def bind_def [of "validated w True 2"] snapshot_public [OF raw x(2) assms(4)] bind_ret expected_here_def
        demand_def seq_ops_def) (auto simp: bind_def ret_def throw_def)
qed

definition purge_receipt :: "ledger_env \<Rightarrow> authenticity \<Rightarrow> chain \<Rightarrow> string \<Rightarrow> int \<Rightarrow> int \<Rightarrow> int \<Rightarrow> fields" where
  "purge_receipt w a c rt g purged pending =
     (let d = receipt_fields g (settled_public w a c rt) purged pending
      in d @ [(''receiptDigest'', PStr (receipt_digest (lf w) d))])"

lemma purge_receipt_built:
  assumes "nears (lf w) a c s" "steady w a" "healthy w" "root_digest w = Inr rt" "0 \<le> g" "0 \<le> m" "0 \<le> k"
  shows "\<exists>t. build_purge_receipt w 2 (PInt g) (PInt m) (PInt k) s = (Inr (purge_receipt w a c rt g m k), t) \<and> settled (lf w) a c t"
proof -
  let ?work = "\<lambda>p. let d = receipt_fields g p m k in ret (d @ [(''receiptDigest'', PStr (receipt_digest (lf w) d))])"
  have "\<exists>t. with_read_guard w 2 None True True ?work s = (Inr (purge_receipt w a c rt g m k), t) \<and> settled (lf w) a c t"
    using guarded_work [OF assms(1-4), of ?work True "purge_receipt w a c rt g m k"] by (simp add: purge_receipt_def Let_def)
  then show ?thesis
    using assms(5-7) by (simp add: build_purge_receipt_def purge_counter_def valid_sequence_def as_int_def bind_ret)
qed

lemma receipt_get:
  "py_get (receipt_fields g p m k @ r) ''deletionGeneration'' = PInt g"
  "py_get (receipt_fields g p m k @ r) ''journalGeneration'' = p_sequence p"
  "py_get (receipt_fields g p m k @ r) ''rootDigest'' = p_root p"
  "py_get (receipt_fields g p m k @ r) ''positionDigest'' = p_digest p"
  "py_get (receipt_fields g p m k @ r) ''purgedCount'' = PInt m"
  "py_get (receipt_fields g p m k @ r) ''pendingCount'' = PInt k"
  "py_get (receipt_fields g p m k @ r) ''status'' = PStr (status_word (k = 0))"
  "py_get (receipt_fields g p m k @ r) ''complete'' = PBool (k = 0)"
  "py_get (receipt_fields g p m k @ r) ''schema'' = PStr receipt_schema"
  "py_get (receipt_fields g p m k @ r) ''sink'' = PStr ''bot_memory''"
  "py_get (receipt_fields g p m k @ r) ''contentFree'' = PBool True"
  "py_get (receipt_fields g p m k @ [(''receiptDigest'', v)]) ''receiptDigest'' = v"
  "filter (\<lambda>p. fst p \<noteq> ''receiptDigest'') (receipt_fields g p m k) = receipt_fields g p m k"
  by (simp_all add: receipt_fields_def py_get_def)

lemma receipt_keys_exact: "exact_keys (receipt_fields g p m k @ [(''receiptDigest'', v)]) receipt_keys"
  by (simp add: exact_keys_def receipt_fields_def receipt_keys_def)

lemma settled_public_simps [simp]:
  "p_schema (settled_public w a c rt) = PStr position_schema" "p_root (settled_public w a c rt) = PStr rt"
  "p_sequence (settled_public w a c rt) = PInt (int (full_length c))"
  by (simp_all add: settled_public_def Let_def)

lemma settled_digest: "hashes_ok (lf w) \<Longrightarrow> \<exists>h. p_digest (settled_public w a c rt) = PStr h \<and> hex_run 64 h"
  by (simp add: settled_public_def Let_def)

lemma hash_text_hex: "hex_run 64 h \<Longrightarrow> valid_hash (PStr h) = h \<and> h \<noteq> []"
  by (auto simp: valid_hash_def hex_run_def)

lemma receipt_checks:
  assumes "hashes_ok (lf w)" "hex_run 64 rt" "0 \<le> g" "0 \<le> m" "0 \<le> k" "b \<longrightarrow> k = 0"
  shows "check_receipt (lf w) (PDict (purge_receipt w a c rt g m k)) (Some (PInt g)) b = Inr (purge_receipt w a c rt g m k)"
proof -
  obtain h where h: "p_digest (settled_public w a c rt) = PStr h" "hex_run 64 h" using settled_digest [OF assms(1)] by blast
  let ?f = "receipt_fields g (settled_public w a c rt) m k"
  have x: "hex_run 64 (receipt_digest (lf w) ?f)" using assms(1) by (simp add: receipt_digest_def)
  show ?thesis
    using assms(3-6) hash_text_hex [OF x] hash_text_hex [OF h(2)] hash_text_hex [OF assms(2)]
    by (simp add: check_receipt_def purge_receipt_def Let_def receipt_keys_exact receipt_get purge_counter_def valid_sequence_def
        as_int_def as_text_def h(1))
qed

lemma root_hex: "hashes_ok (lf w) \<Longrightarrow> root_digest w = Inr rt \<Longrightarrow> hex_run 64 rt"
  by (auto simp: root_digest_def split: sum.splits)

lemma receipt_outcome:
  assumes "nears (lf w) a c' s" "steady w a" "healthy w" "root_digest w = Inr rt" "0 \<le> g" "0 \<le> m" "0 \<le> k" "b \<longrightarrow> k = 0"
    and "c' = c \<or> full_length c' \<noteq> full_length c"
  shows "\<exists>t. validate_purge_receipt w 2 (PDict (purge_receipt w a c rt g m k)) (Some (PInt g)) b s =
    ((if c' = c then Inr (purge_receipt w a c rt g m k) else Inl Integrity), t) \<and> settled (lf w) a c' t"
proof -
  let ?d = "purge_receipt w a c rt g m k"
  let ?work = "\<lambda>p. demand (py_get ?d ''journalGeneration'' = p_sequence p \<and> py_get ?d ''rootDigest'' = p_root p \<and>
                  py_get ?d ''positionDigest'' = p_digest p)"
  have h: "hashes_ok (lf w)" using assms(2) by (simp add: steady_def)
  have chk: "check_receipt (lf w) (PDict ?d) (Some (PInt g)) b = Inr ?d"
    by (rule receipt_checks [OF h root_hex [OF h assms(4)] assms(5-8)])
  have "?work (settled_public w a c' rt) = (if c' = c then ret () else throw Integrity)"
    using assms(9) by (auto simp: purge_receipt_def Let_def receipt_get settled_public_def demand_def)
  from guarded_work [where work = ?work, OF assms(1-4) this] obtain t
    where t: "with_read_guard w 2 None True True ?work s = ((if c' = c then Inr () else Inl Integrity), t)" "settled (lf w) a c' t"
    by blast
  then show ?thesis
    by (auto simp: validate_purge_receipt_def chk bind_ret seq_ops_def bind_def [of "with_read_guard w 2 None True True ?work"] ret_def)
qed

text \<open>
  C37. A purge receipt says that memory was purged at a position of the ledger, and it is good for that
  position only. A receipt that is built validates as long as no event is appended (a receipt
  with pending notes where a complete one is not required), and after the next
  deletion is recorded the same receipt is refused.
\<close>

theorem receipt_follows_ledger:
  assumes "nears (lf w) a c s" "steady w a" "healthy w" "root_digest w = Inr rt" "0 \<le> g" "0 \<le> m" "0 \<le> k"
    and "canonicalize (lf w) v = Inr d"
  shows "\<exists>r t u. build_purge_receipt w 2 (PInt g) (PInt m) (PInt k) s = (Inr r, t) \<and>
    validate_purge_receipt w 2 (PDict r) (Some (PInt g)) (k = 0) t = (Inr r, u) \<and>
    (\<forall>ev x. append_tombstone w v u = (Inr ev, x) \<longrightarrow>
       fst (validate_purge_receipt w 2 (PDict r) (Some (PInt g)) (k = 0) x) = Inl Integrity)"
proof -
  let ?r = "purge_receipt w a c rt g m k"
  obtain t where t: "build_purge_receipt w 2 (PInt g) (PInt m) (PInt k) s = (Inr ?r, t)" "settled (lf w) a c t"
    using purge_receipt_built [OF assms(1-7)] by blast
  obtain u where u: "validate_purge_receipt w 2 (PDict ?r) (Some (PInt g)) (k = 0) t = (Inr ?r, u)" "settled (lf w) a c u"
    using receipt_outcome [OF settled_nears [OF t(2)] assms(2-7), of "k = 0" c] by auto
  have "fst (validate_purge_receipt w 2 (PDict ?r) (Some (PInt g)) (k = 0) x) = Inl Integrity"
    if ev: "append_tombstone w v u = (Inr ev, x)" for ev x
  proof -
    obtain c' where c': "extends_by (lf w) d c c'" "settled (lf w) a c' x"
      using append_outcome [OF settled_nears [OF u(2)] assms(2) refl assms(8)] ev by auto
    then have ne: "full_length c' \<noteq> full_length c" by (auto simp: extends_by_def)
    then have "c' \<noteq> c" by blast
    with receipt_outcome [OF settled_nears [OF c'(2)] assms(2-7), of "k = 0" c] ne show ?thesis by auto
  qed
  with t u show ?thesis by blast
qed

lemma receipt_follows_ledger_witness:
  "\<exists>r t u. build_purge_receipt sample_env 2 (PInt 1) (PInt 3) (PInt 0) sample_ledger = (Inr r, t) \<and>
    validate_purge_receipt sample_env 2 (PDict r) (Some (PInt 1)) True t = (Inr r, u) \<and>
    (\<forall>ev x. append_tombstone sample_env sample_tombstone u = (Inr ev, x) \<longrightarrow>
       fst (validate_purge_receipt sample_env 2 (PDict r) (Some (PInt 1)) True x) = Inl Integrity)"
proof -
  obtain c where c: "nears sample_fns sample_auth c sample_ledger" by (rule sample_chain)
  obtain r where r: "root_digest sample_env = Inr r" using sample_root by blast
  from receipt_follows_ledger [of sample_env sample_auth c sample_ledger r 1 3 0 sample_tombstone sample_fields]
  show ?thesis using c r by (simp add: sample_inputs)
qed

end
