(* ===== verification/Deletion_Guard.thy ===== *)
theory Deletion_Guard
  imports Deletion_Tombstone
begin

text \<open>
  \<open>evelyn_core/memory_deletion_journal.py\<close>: \<open>_writer_guard\<close> and \<open>_reader_guard\<close>, the leases every
  operation of the ledger runs under. An owner is a thread with its task. A guard first enters
  its owner in a register of the process (\<open>_writer_owners\<close>, \<open>_reader_owners\<close>, for one root), then
  takes the lock of the lease file, which other processes take too; a failure of the second undoes
  the first. A guard inside a guard of the same owner only runs its body. Guards of one owner are
  left in the order of \<open>with\<close> blocks; owners interleave freely, also between the two stages.

  The operating system's lock (\<open>flock\<close>, \<open>LockFileEx\<close>) is the list \<open>file_locks\<close> of its holders
  (\<open>None\<close> for a holder in another process): an exclusive lock is granted when nobody holds one, a
  shared lock when nobody holds an exclusive one, and closing the handle gives the lock back.
\<close>

datatype owner = Owner (thread_of: int) (task_of: int)

datatype lease_mode = Shared | Exclusive

datatype frame = Frame (f_mode: lease_mode) (f_nested: bool) (f_locked: bool)

record leases =
  writer_owner :: "owner option"
  reader_owners :: "owner set"
  file_locks :: "(owner option \<times> lease_mode) list"
  frames :: "owner \<Rightarrow> frame list"

definition no_leases :: leases where
  "no_leases = \<lparr>writer_owner = None, reader_owners = {}, file_locks = [], frames = (\<lambda>_. [])\<rparr>"

definition grants :: "(owner option \<times> lease_mode) list \<Rightarrow> lease_mode \<Rightarrow> bool" where
  "grants ls m = (case m of Exclusive \<Rightarrow> ls = [] | Shared \<Rightarrow> \<not> list_ex (\<lambda>x. snd x = Exclusive) ls)"

definition push :: "owner \<Rightarrow> frame \<Rightarrow> leases \<Rightarrow> leases" where
  "push o' f s = s\<lparr>frames := (frames s)(o' := f # frames s o')\<rparr>"

definition pop :: "owner \<Rightarrow> leases \<Rightarrow> leases" where
  "pop o' s = s\<lparr>frames := (frames s)(o' := tl (frames s o'))\<rparr>"

section \<open>Entering and leaving\<close>

definition enter_writer :: "owner \<Rightarrow> leases \<Rightarrow> (ledger_error + bool) \<times> leases" where
  "enter_writer o' s =
     (if writer_owner s = Some o' then (Inr True, push o' (Frame Exclusive True True) s)
      else if writer_owner s \<noteq> None \<or> reader_owners s \<noteq> {} then (Inl Busy, s)
      else (Inr False, push o' (Frame Exclusive False False) (s\<lparr>writer_owner := Some o'\<rparr>)))"

definition enter_reader :: "owner \<Rightarrow> leases \<Rightarrow> (ledger_error + bool) \<times> leases" where
  "enter_reader o' s =
     (if writer_owner s = Some o' \<or> o' \<in> reader_owners s then (Inr True, push o' (Frame Shared True True) s)
      else if writer_owner s \<noteq> None then (Inl Busy, s)
      else (Inr False, push o' (Frame Shared False False) (s\<lparr>reader_owners := insert o' (reader_owners s)\<rparr>)))"

text \<open>The \<open>finally\<close> of a guard that entered its owner.\<close>

definition sign_out :: "owner \<Rightarrow> lease_mode \<Rightarrow> leases \<Rightarrow> leases" where
  "sign_out o' m s =
     (case m of
        Exclusive \<Rightarrow> if writer_owner s = Some o' then s\<lparr>writer_owner := None\<rparr> else s
      | Shared \<Rightarrow> s\<lparr>reader_owners := reader_owners s - {o'}\<rparr>)"

text \<open>The second stage: making the directory, opening the file (\<open>usable\<close>), taking the lock.\<close>

definition take_file_lock :: "owner \<Rightarrow> bool \<Rightarrow> leases \<Rightarrow> (ledger_error + unit) \<times> leases" where
  "take_file_lock o' usable s =
     (case frames s o' of
        Frame m False False # r \<Rightarrow>
          if \<not> usable then (Inl Integrity, sign_out o' m (pop o' s))
          else if \<not> grants (file_locks s) m then (Inl Busy, sign_out o' m (pop o' s))
          else (Inr (), push o' (Frame m False True) (pop o' (s\<lparr>file_locks := (Some o', m) # file_locks s\<rparr>)))
      | _ \<Rightarrow> (Inr (), s))"

definition leave :: "owner \<Rightarrow> leases \<Rightarrow> leases" where
  "leave o' s =
     (case frames s o' of
        Frame m True l # r \<Rightarrow> pop o' s
      | Frame m False True # r \<Rightarrow> sign_out o' m (pop o' (s\<lparr>file_locks := remove1 (Some o', m) (file_locks s)\<rparr>))
      | _ \<Rightarrow> s)"

text \<open>An owner whose body runs can enter another guard or leave; one that waits can only go on.\<close>

definition at_work :: "leases \<Rightarrow> owner \<Rightarrow> bool" where
  "at_work s o' \<longleftrightarrow> (case frames s o' of [] \<Rightarrow> True | f # _ \<Rightarrow> f_locked f)"

datatype lease_op =
  Enter_Writer owner | Enter_Reader owner | Take_Lock owner bool | Leave owner
| Other_Locks lease_mode | Other_Unlocks lease_mode

definition lease_do :: "leases \<Rightarrow> lease_op \<Rightarrow> leases" where
  "lease_do s x =
     (case x of
        Enter_Writer p \<Rightarrow> if at_work s p then snd (enter_writer p s) else s
      | Enter_Reader p \<Rightarrow> if at_work s p then snd (enter_reader p s) else s
      | Take_Lock p usable \<Rightarrow> snd (take_file_lock p usable s)
      | Leave p \<Rightarrow> leave p s
      | Other_Locks m \<Rightarrow> if grants (file_locks s) m then s\<lparr>file_locks := (None, m) # file_locks s\<rparr> else s
      | Other_Unlocks m \<Rightarrow> s\<lparr>file_locks := remove1 (None, m) (file_locks s)\<rparr>)"

section \<open>The invariant\<close>

text \<open>What the guards of one owner say about the registers and the file lock.\<close>

definition owner_ok :: "leases \<Rightarrow> owner \<Rightarrow> bool" where
  "owner_ok s p \<longleftrightarrow>
     (if frames s p = [] then writer_owner s \<noteq> Some p \<and> p \<notin> reader_owners s \<and> (\<forall>m. count_list (file_locks s) (Some p, m) = 0)
      else
        (let b = last (frames s p) in
         \<not> f_nested b \<and> (\<forall>f\<in>set (butlast (frames s p)). f_nested f \<and> f_locked f) \<and>
         (butlast (frames s p) \<noteq> [] \<longrightarrow> f_locked b) \<and>
         (writer_owner s = Some p \<longleftrightarrow> f_mode b = Exclusive) \<and> (p \<in> reader_owners s \<longleftrightarrow> f_mode b = Shared) \<and>
         (\<forall>m. count_list (file_locks s) (Some p, m) = (if f_locked b \<and> m = f_mode b then 1 else 0)) \<and>
         (f_mode b = Shared \<longrightarrow> (\<forall>f\<in>set (frames s p). f_mode f = Shared))))"

definition leases_ok :: "leases \<Rightarrow> bool" where
  "leases_ok s \<longleftrightarrow>
     (\<forall>p. owner_ok s p) \<and> (writer_owner s \<noteq> None \<longrightarrow> reader_owners s = {}) \<and>
     (list_ex (\<lambda>x. snd x = Exclusive) (file_locks s) \<longrightarrow> length (file_locks s) = 1)"

lemma no_leases_ok: "leases_ok no_leases"
  by (simp add: leases_ok_def owner_ok_def no_leases_def)

lemma owner_ok_cong:
  assumes "frames s' q = frames s q" "writer_owner s' = Some q \<longleftrightarrow> writer_owner s = Some q" "q \<in> reader_owners s' \<longleftrightarrow> q \<in> reader_owners s"
    and "\<And>m. count_list (file_locks s') (Some q, m) = count_list (file_locks s) (Some q, m)"
  shows "owner_ok s' q = owner_ok s q"
  unfolding owner_ok_def Let_def assms ..

lemma count_remove1: "count_list (remove1 x xs) y = (if x = y then count_list xs y - 1 else count_list xs y)"
  by (induction xs) (auto simp: count_list_0_iff)

lemma exclusive_alone: "leases_ok s \<Longrightarrow> list_ex (\<lambda>x. snd x = Exclusive) (remove1 y (file_locks s)) \<longrightarrow> length (remove1 y (file_locks s)) = 1"
proof
  assume s: "leases_ok s" and "list_ex (\<lambda>x. snd x = Exclusive) (remove1 y (file_locks s))"
  then obtain z where z: "z \<in> set (remove1 y (file_locks s))" "snd z = Exclusive" by (auto simp: list_ex_iff)
  then have "z \<in> set (file_locks s)" by (meson notin_set_remove1)
  with s z(2) have "length (file_locks s) = 1" by (auto simp: leases_ok_def list_ex_iff)
  then show "length (remove1 y (file_locks s)) = 1" using z(1) by (auto simp: length_Suc_conv split: if_splits)
qed

lemma frames_cases:
  assumes "owner_ok s p"
  obtains "frames s p = []"
  | b where "frames s p = [b]" "\<not> f_nested b"
  | f r where "frames s p = f # r" "r \<noteq> []" "f_nested f" "f_locked f" "f_locked (last r)"
proof (cases "frames s p")
  case (Cons f r)
  with assms that show thesis by (cases "r = []") (auto simp: owner_ok_def Let_def)
qed (rule that)

lemma pushed_ok:
  assumes "owner_ok s p" "frames s p \<noteq> []" "at_work s p" "m = Shared \<or> f_mode (last (frames s p)) = Exclusive"
  shows "owner_ok (push p (Frame m True True) s) p"
proof -
  obtain f r where f: "frames s p = f # r" using assms(2) by (cases "frames s p") auto
  then have "f_locked f" using assms(3) by (simp add: at_work_def)
  with assms(1,4) f show ?thesis by (cases "r = []") (auto simp: owner_ok_def Let_def push_def)
qed

text \<open>A step of owner \<open>p\<close> that leaves what the state says of the other owners.\<close>

definition others_kept :: "owner \<Rightarrow> leases \<Rightarrow> leases \<Rightarrow> bool" where
  "others_kept p s s' \<longleftrightarrow>
     (\<forall>q. q \<noteq> p \<longrightarrow> frames s' q = frames s q \<and> (writer_owner s' = Some q \<longleftrightarrow> writer_owner s = Some q) \<and>
        (q \<in> reader_owners s' \<longleftrightarrow> q \<in> reader_owners s) \<and>
        (\<forall>m. count_list (file_locks s') (Some q, m) = count_list (file_locks s) (Some q, m)))"

lemma leases_ok_step:
  assumes "leases_ok s" "owner_ok s' p" "others_kept p s s'" "writer_owner s' \<noteq> None \<longrightarrow> reader_owners s' = {}"
    and "list_ex (\<lambda>x. snd x = Exclusive) (file_locks s') \<longrightarrow> length (file_locks s') = 1"
  shows "leases_ok s'"
proof -
  have "owner_ok s' q" for q
  proof (cases "q = p")
    case False
    then have "owner_ok s' q = owner_ok s q" using assms(3) by (intro owner_ok_cong) (simp_all add: others_kept_def)
    then show ?thesis using assms(1) by (simp add: leases_ok_def)
  qed (use assms(2) in simp)
  with assms(4,5) show ?thesis by (simp add: leases_ok_def)
qed

lemma leases_okD:
  assumes "leases_ok s"
  shows "owner_ok s p" "writer_owner s \<noteq> None \<longrightarrow> reader_owners s = {}"
    "list_ex (\<lambda>x. snd x = Exclusive) (file_locks s) \<longrightarrow> length (file_locks s) = 1"
  using assms by (simp_all add: leases_ok_def)

lemma idle_owner: "owner_ok s p \<Longrightarrow> writer_owner s \<noteq> Some p \<Longrightarrow> p \<notin> reader_owners s \<Longrightarrow> frames s p = []"
  using lease_mode.exhaust by (auto simp: owner_ok_def Let_def split: if_splits)

lemma enter_writer_ok: "leases_ok s \<Longrightarrow> at_work s p \<Longrightarrow> leases_ok (snd (enter_writer p s))"
proof -
  assume s: "leases_ok s" and w: "at_work s p"
  note p = leases_okD(1) [OF s, of p]
  consider "writer_owner s = Some p" | "writer_owner s \<noteq> Some p" "writer_owner s \<noteq> None \<or> reader_owners s \<noteq> {}"
    | "writer_owner s = None" "reader_owners s = {}" by auto
  then show ?thesis
  proof cases
    case 1
    then have "frames s p \<noteq> []" "f_mode (last (frames s p)) = Exclusive" using p by (auto simp: owner_ok_def Let_def split: if_splits)
    then have "owner_ok (push p (Frame Exclusive True True) s) p" using pushed_ok [OF p _ w] by blast
    with 1 leases_okD(2,3) [OF s] show ?thesis
      by (intro leases_ok_step [OF s, of _ p]) (simp_all add: enter_writer_def push_def others_kept_def)
  next
    case 3
    with p idle_owner [OF p] have "owner_ok (snd (enter_writer p s)) p" by (simp add: enter_writer_def owner_ok_def push_def)
    with 3 leases_okD(2,3) [OF s] show ?thesis
      by (intro leases_ok_step [OF s, of _ p]) (simp_all add: enter_writer_def push_def others_kept_def)
  qed (use s in \<open>auto simp: enter_writer_def\<close>)
qed

lemma enter_reader_ok: "leases_ok s \<Longrightarrow> at_work s p \<Longrightarrow> leases_ok (snd (enter_reader p s))"
proof -
  assume s: "leases_ok s" and w: "at_work s p"
  note p = leases_okD(1) [OF s, of p]
  consider "writer_owner s = Some p \<or> p \<in> reader_owners s" | "writer_owner s \<noteq> Some p" "p \<notin> reader_owners s" "writer_owner s \<noteq> None"
    | "writer_owner s = None" "p \<notin> reader_owners s" by auto
  then show ?thesis
  proof cases
    case 1
    then have "frames s p \<noteq> []" using p by (auto simp: owner_ok_def)
    then have "owner_ok (push p (Frame Shared True True) s) p" using pushed_ok [OF p _ w] by blast
    with 1 leases_okD(2,3) [OF s] show ?thesis
      by (intro leases_ok_step [OF s, of _ p]) (auto simp: enter_reader_def push_def others_kept_def)
  next
    case 3
    with p idle_owner [OF p] have "owner_ok (snd (enter_reader p s)) p" by (simp add: enter_reader_def owner_ok_def push_def)
    with 3 leases_okD(2,3) [OF s] show ?thesis
      by (intro leases_ok_step [OF s, of _ p]) (simp_all add: enter_reader_def push_def others_kept_def)
  qed (use s in \<open>auto simp: enter_reader_def\<close>)
qed

lemma sign_out_frames [simp]: "frames (sign_out p m s) = frames s" "file_locks (sign_out p m s) = file_locks s"
  by (cases m; simp add: sign_out_def)+

lemma signed_out_ok:
  assumes s: "leases_ok s" and f: "frames s p = [Frame m False l]"
    and ls: "ls = remove1 (Some p, m) (file_locks s)"
  shows "leases_ok (sign_out p m (pop p (s\<lparr>file_locks := ls\<rparr>)))"
proof -
  let ?s = "sign_out p m (pop p (s\<lparr>file_locks := ls\<rparr>))"
  have p: "writer_owner s = Some p \<longleftrightarrow> m = Exclusive" "p \<in> reader_owners s \<longleftrightarrow> m = Shared"
      "\<And>m'. count_list (file_locks s) (Some p, m') = (if l \<and> m' = m then 1 else 0)"
    using leases_okD(1) [OF s, of p] f by (simp_all add: owner_ok_def Let_def)
  have "owner_ok ?s p" using f p by (cases m) (auto simp: owner_ok_def sign_out_def pop_def ls count_remove1)
  moreover have "others_kept p s ?s" using p by (cases m) (auto simp: others_kept_def sign_out_def pop_def ls count_remove1)
  moreover have "writer_owner ?s \<noteq> None \<longrightarrow> reader_owners ?s = {}"
    using p leases_okD(2) [OF s] by (cases m) (auto simp: sign_out_def pop_def)
  ultimately show ?thesis
    using exclusive_alone [OF s] by (intro leases_ok_step [OF s, of ?s p]) (simp_all add: pop_def ls)
qed

lemma take_file_lock_ok: "leases_ok s \<Longrightarrow> leases_ok (snd (take_file_lock p usable s))"
proof -
  assume s: "leases_ok s"
  note p = leases_okD(1) [OF s, of p]
  show ?thesis
  proof (cases "\<exists>m r. frames s p = Frame m False False # r")
    case False
    then show ?thesis using s by (auto simp: take_file_lock_def split: list.split frame.split bool.split)
  next
    case True
    then obtain m r where f: "frames s p = Frame m False False # r" by blast
    then have f: "frames s p = [Frame m False False]" using p by (elim frames_cases) auto
    then have none: "count_list (file_locks s) (Some p, m') = 0" for m' using p by (simp add: owner_ok_def Let_def)
    then have same: "remove1 (Some p, m) (file_locks s) = file_locks s" by (simp add: remove1_idem count_list_0_iff)
    have out: "leases_ok (sign_out p m (pop p s))" using signed_out_ok [OF s f same [symmetric]] by simp
    let ?s = "push p (Frame m False True) (pop p (s\<lparr>file_locks := (Some p, m) # file_locks s\<rparr>))"
    have "leases_ok ?s" if "grants (file_locks s) m"
    proof (rule leases_ok_step [OF s, of ?s p])
      show "owner_ok ?s p" using f p none by (auto simp: owner_ok_def Let_def push_def pop_def)
      show "others_kept p s ?s" by (simp add: others_kept_def push_def pop_def)
    qed (use that leases_okD(2,3) [OF s] in \<open>cases m; simp add: push_def pop_def grants_def list_ex_iff\<close>)+
    with out f show ?thesis by (simp add: take_file_lock_def)
  qed
qed

lemma leave_ok: "leases_ok s \<Longrightarrow> leases_ok (leave p s)"
proof -
  assume s: "leases_ok s"
  note p = leases_okD(1) [OF s, of p]
  from p show ?thesis
  proof (cases rule: frames_cases)
    case 1
    then show ?thesis using s by (simp add: leave_def)
  next
    case (2 b)
    then show ?thesis using s signed_out_ok [OF s _ refl, of p "f_mode b" "f_locked b"]
      by (cases b) (auto simp: leave_def split: bool.split)
  next
    case (3 f r)
    then have "owner_ok (pop p s) p" using p by (auto simp: owner_ok_def Let_def pop_def)
    moreover have "leave p s = pop p s" using 3 by (cases f) (simp add: leave_def)
    ultimately show ?thesis using leases_okD(2,3) [OF s]
      by (intro leases_ok_step [OF s, of _ p]) (simp_all add: others_kept_def pop_def)
  qed
qed

lemma foreign_ok: "leases_ok s \<Longrightarrow> leases_ok (lease_do s (Other_Locks m))" "leases_ok s \<Longrightarrow> leases_ok (lease_do s (Other_Unlocks m))"
proof -
  assume s: "leases_ok s"
  have keep: "others_kept q s (s\<lparr>file_locks := ls\<rparr>) \<and> owner_ok (s\<lparr>file_locks := ls\<rparr>) q"
    if "\<And>q m. count_list ls (Some q, m) = count_list (file_locks s) (Some q, m)" for ls q
    using that leases_okD(1) [OF s, of q] owner_ok_cong [of "s\<lparr>file_locks := ls\<rparr>" q s] by (simp add: others_kept_def)
  show "leases_ok (lease_do s (Other_Locks m))"
    using keep [of "(None, m) # file_locks s"] s leases_okD(2,3) [OF s]
    by (cases m) (auto simp: lease_do_def grants_def list_ex_iff intro!: leases_ok_step [OF s])
  show "leases_ok (lease_do s (Other_Unlocks m))"
    using keep [of "remove1 (None, m) (file_locks s)"] leases_okD(2) [OF s] exclusive_alone [OF s]
    by (auto simp: lease_do_def count_remove1 intro!: leases_ok_step [OF s])
qed

interpretation leases: op_machine lease_do leases_ok
proof
  fix s x assume s: "leases_ok s"
  then show "leases_ok (lease_do s x)"
    using foreign_ok [OF s] enter_writer_ok [OF s] enter_reader_ok [OF s] take_file_lock_ok [OF s] leave_ok [OF s]
    by (cases x) (auto simp: lease_do_def)
qed

definition running :: "leases \<Rightarrow> owner \<Rightarrow> bool" where
  "running s p \<longleftrightarrow> frames s p \<noteq> [] \<and> at_work s p"

definition leased :: "leases \<Rightarrow> lease_op list \<Rightarrow> leases" where
  "leased s xs = foldl lease_do s xs"

lemma running_locked:
  assumes "leases_ok s" "running s p"
  shows "(Some p, f_mode (last (frames s p))) \<in> set (file_locks s)"
proof -
  note p = leases_okD(1) [OF assms(1), of p]
  have "f_locked (last (frames s p))" "frames s p \<noteq> []"
    using p assms(2) by (elim frames_cases; auto simp: running_def at_work_def)+
  then have "count_list (file_locks s) (Some p, f_mode (last (frames s p))) = 1" using p by (simp add: owner_ok_def Let_def)
  then show ?thesis by (metis count_list_0_iff zero_neq_one)
qed

lemma writer_alone:
  assumes "leases_ok s" "running s p" "f \<in> set (frames s p)" "f_mode f = Exclusive"
  shows "file_locks s = [(Some p, Exclusive)]"
proof -
  note p = leases_okD(1) [OF assms(1), of p]
  have "f_mode (last (frames s p)) = Exclusive"
  proof (rule ccontr)
    assume "f_mode (last (frames s p)) \<noteq> Exclusive"
    then have "f_mode (last (frames s p)) = Shared" by (cases "f_mode (last (frames s p))") simp_all
    moreover have "frames s p \<noteq> []" using assms(3) by auto
    ultimately have "\<forall>f\<in>set (frames s p). f_mode f = Shared" using p unfolding owner_ok_def Let_def by simp
    with assms(3,4) show False by auto
  qed
  then have "(Some p, Exclusive) \<in> set (file_locks s)" using running_locked [OF assms(1,2)] by simp
  moreover from this have "length (file_locks s) = 1" using leases_okD(3) [OF assms(1)] by (force simp: list_ex_iff)
  ultimately show ?thesis by (auto simp: length_Suc_conv)
qed

text \<open>
  C38. A deletion is recorded alone. From the state without leases, whatever sequence of guards,
  waits and failures the threads and tasks of this process and other processes go through: while an owner runs
  under the writer's guard, no other owner runs a body under any guard, and no other
  process holds the lease file in any mode.
\<close>

theorem writer_excludes_everyone:
  assumes "running (leased no_leases xs) p" "f \<in> set (frames (leased no_leases xs) p)" "f_mode f = Exclusive"
  shows "(q \<noteq> p \<longrightarrow> \<not> running (leased no_leases xs) q) \<and> (None, m) \<notin> set (file_locks (leased no_leases xs))"
proof -
  let ?s = "leased no_leases xs"
  have ok: "leases_ok ?s" unfolding leased_def by (rule leases.inv_run [OF no_leases_ok])
  have alone: "file_locks ?s = [(Some p, Exclusive)]" by (rule writer_alone [OF ok assms])
  moreover have "q \<noteq> p \<longrightarrow> \<not> running ?s q" using running_locked [OF ok, of q] alone by auto
  ultimately show ?thesis by simp
qed

lemma writer_excludes_everyone_witness:
  "\<not> running (leased no_leases [Enter_Reader (Owner 1 7), Take_Lock (Owner 1 7) True, Leave (Owner 1 7),
      Enter_Writer (Owner 1 8), Take_Lock (Owner 1 8) True, Enter_Reader (Owner 1 8), Enter_Reader (Owner 2 0)]) (Owner 2 0)"
  using writer_excludes_everyone [of "[Enter_Reader (Owner 1 7), Take_Lock (Owner 1 7) True, Leave (Owner 1 7),
      Enter_Writer (Owner 1 8), Take_Lock (Owner 1 8) True, Enter_Reader (Owner 1 8), Enter_Reader (Owner 2 0)]"
      "Owner 1 8" "Frame Exclusive False True" "Owner 2 0" Shared]
  by (simp add: leased_def lease_do_def no_leases_def at_work_def enter_reader_def enter_writer_def push_def pop_def
      take_file_lock_def grants_def leave_def sign_out_def running_def)

text \<open>
  No lease leaks. When no guard of this process is open or waiting, both registers are empty and
  this process holds no lock, whatever failed on the way; so the next guard does not find the
  ledger busy, unless another process holds the file.
\<close>

theorem leases_are_returned:
  assumes "\<forall>p. frames (leased no_leases xs) p = []"
  shows "writer_owner (leased no_leases xs) = None \<and> reader_owners (leased no_leases xs) = {} \<and>
    (\<forall>x\<in>set (file_locks (leased no_leases xs)). fst x = None) \<and> fst (enter_writer q (leased no_leases xs)) = Inr False"
proof -
  let ?s = "leased no_leases xs"
  have ok: "leases_ok ?s" unfolding leased_def by (rule leases.inv_run [OF no_leases_ok])
  have fr: "frames ?s p = []" for p using assms by blast
  have "owner_ok ?s p" for p by (rule leases_okD(1) [OF ok])
  then have p: "writer_owner ?s \<noteq> Some p \<and> p \<notin> reader_owners ?s \<and> (\<forall>m. count_list (file_locks ?s) (Some p, m) = 0)" for p
    using fr unfolding owner_ok_def by metis
  then have n: "(Some p, m) \<notin> set (file_locks ?s)" for p m using count_list_0_iff by metis
  have "writer_owner ?s = None" using p by (meson not_Some_eq)
  moreover have "reader_owners ?s = {}" using p by blast
  moreover have "fst x = None" if "x \<in> set (file_locks ?s)" for x
  proof (rule ccontr)
    assume "fst x \<noteq> None"
    then obtain p where "x = (Some p, snd x)" by (cases x) auto
    with n [of p "snd x"] that show False by metis
  qed
  ultimately show ?thesis unfolding enter_writer_def by simp
qed

lemma leases_are_returned_witness:
  "fst (enter_writer (Owner 1 7) (leased no_leases [Enter_Writer (Owner 1 7), Enter_Reader (Owner 2 0), Take_Lock (Owner 1 7) False])) = Inr False"
  using leases_are_returned [of "[Enter_Writer (Owner 1 7), Enter_Reader (Owner 2 0), Take_Lock (Owner 1 7) False]" "Owner 1 7"]
  by (simp add: leased_def lease_do_def no_leases_def at_work_def enter_reader_def enter_writer_def push_def pop_def
      take_file_lock_def grants_def sign_out_def)

end
