(* ===== verification/Spec2Isabelle.thy ===== *)
theory Spec2Isabelle
  imports Turn_Lifecycle Session_State Room_State Voice_Lease Autonomy_Auth World_Lease Task_Approval
    Admission_Lane Speech_Gate Ingress_Runs Barge_In Playback_Manager Deletion_Purge Deletion_Guard
begin

text \<open>
  Evelyn is a voice and text assistant (Python, asyncio) that listens in Discord rooms or on a
  local microphone, answers through a local language model, and may act on her own: in a
  Minecraft world, on her notifications, on files of the workspace. The code below is in
  \<open>evelyn_core/runtime/evelyn_core/\<close>. This development models its deciding core, the stateful
  components that say who may speak, which turn is current, who owns the microphone, who is
  served next, which words may be spoken, which message is answered once, which memory was deleted for good,
  and which action is authorized. The components around it (HTTP handlers, Discord
  commands, the control page, wiring) call them.

  \<^bold>\<open>How the parts interact.\<close> A text message is first claimed in a durable journal, so that it is
  answered once even over a restart (\<open>conversation_ingress_recovery.py\<close>); the journal follows the answer to its
  delivery, with the reference to the memory that was used (\<open>conversation_memory_receipt.py\<close>). A message
  or an utterance opens a turn: its scope is registered for
  the room (\<open>turn_lifecycle.py\<close>) and its text enters the session's history
  (\<open>session_memory_state.py\<close>). In a voice room the speaker owns the room while the exchange lasts
  (\<open>room_session_state.py\<close>, \<open>room_speaker_activity.py\<close>, rebuilt from the session store after a
  restart). Which process hears the microphone is decided by the voice lease
  (\<open>voice_input_lease.py\<close>). Requests to the main model pass the admission lane
  (\<open>main_inference_contract.py\<close>). The answer of the model streams through the chunker, which cuts it into
  pieces to speak, and the commit gate, which lets a piece out only while the turn is current
  (\<open>tts_playback.py\<close>); the same file keeps what is playing, and audio of the user may cut it off
  (\<open>local_bridge_barge_in.py\<close>, \<open>voice_barge_in.py\<close>). A completion is durable when the conversation store says so
  (\<open>continuity_commit_contract.py\<close>). Actions of her own need a grant
  (\<open>autonomy_authorization.py\<close>, \<open>autonomy_outcome_evidence.py\<close>), in Minecraft also the proof of a
  world lease (\<open>minecraft_world_lease_contract.py\<close>), and an edit of the workspace needs the user's
  confirmation of its preview (\<open>task_approval_runtime.py\<close>). What the user has her forget is recorded in a
  ledger of deletions (\<open>memory_deletion_journal.py\<close>), which every reader of memory consults, so that a
  deleted note does not come back from a backup.

  \<^bold>\<open>The theories.\<close>

  \<^item> \<open>Py_Prelude\<close>: Python strings, splitting, numbers as text, dictionaries, programs with errors
    and state (\<open>prog\<close>), and three interfaces for components driven by operations: \<open>op_machine\<close> (an
    invariant), \<open>latched_machine\<close> (a flag never reset), \<open>frozen_machine\<close> (a view that no longer
    changes). Each component that keeps an invariant interprets one of them on its own steps.
  \<^item> \<open>Py_Value\<close>: untyped JSON values, their comparisons and conversions with the exceptions Python
    raises, for the components that check foreign dictionaries.
  \<^item> \<open>Turn_Lifecycle\<close>: \<open>TurnScope\<close> and \<open>TurnScopeRegistry\<close> as the records \<open>turn_scope\<close> and \<open>registry\<close>; one
    operation per method. Cancelled turns are final, registrations nest, replacing and prefix
    cancellation do exactly what they say, and every reachable registry is well formed.
  \<^item> \<open>Session_State\<close>: \<open>SessionStateStore\<close>; beginning, completing and trimming of histories.
    Histories stay well formed and bounded, completions happen once and only for the current turn.
  \<^item> \<open>Room_State\<close>: owners and speaker statistics of rooms. Ownership is active exactly for the
    recorded owner before the lease end, the active speaker has the greatest score, a restored
    owner is backed by unambiguous sessions, and session keys parse back exactly.
  \<^item> \<open>Voice_Lease\<close>: \<open>VoiceInputLeaseManager\<close> with its file, whose writes may fail before or after
    taking effect. A lease is exclusive, a retirement claim works once, a failed write is final,
    a restart restores the owner, and every reachable manager agrees with its file.
  \<^item> \<open>Autonomy_Auth\<close>: \<open>AutonomyAuthorizationManager\<close> and the evidence of outcomes. An action is
    allowed exactly under a live grant that lists it, revocation is effective, an unwritable audit
    log drops every grant, a verified outcome has its evidence, and every reachable manager is well
    formed, also when a deletion request erases grants and rows of the log.
  \<^item> \<open>World_Lease\<close>: the readers of lease files, \<open>validate_world_lease_request\<close> and
    \<open>require_durable_continuity_receipt\<close> on untyped values. An accepted request is proved by the
    token of a current lease, the proof that is built is accepted, a receipt is backed by a
    consistent status.
  \<^item> \<open>Task_Approval\<close>: \<open>TaskApprovalManager\<close> with the waiting coroutine cut at its suspension. A
    waiter is told \<open>approved\<close> only after a confirmed claim with the live one-time token and a host
    result that checks; at most one approval is alive, and what is claimed is claimed in its bounded time.
  \<^item> \<open>Admission_Lane\<close>: \<open>MainInferenceLane\<close>, its tickets and the foreground reservation, as functions
    and as the step relation \<open>lane_step\<close>. Admission is exclusive, follows priority with aging,
    does not stall on a free lane, and a reservation is redeemed once.
  \<^item> \<open>U_Text\<close>: \<open>clean_text\<close> on lists of Unicode code points, for the two theories of speech.
  \<^item> \<open>Speech_Chunker\<close>: \<open>SpeechChunker\<close>. Chunking ends and loses no text under any limit of chunks, and where a text
    is cut is specified apart from the code: the best permitted cut, whose conditions and value are written out.
  \<^item> \<open>Speech_Gate\<close>: \<open>SpeechCommitGate\<close>. What was delivered grows along the committed prefix, only
    while delivery is permitted, and a closed gate stays silent.
  \<^item> \<open>Playback_Manager\<close>: \<open>TtsPlaybackManager\<close> and the registry of playbacks, with coroutines cut at their
    suspensions. The end of a playback that was replaced is harmless, and a cancelled turn leaves no
    playback.
  \<^item> \<open>Barge_In\<close>: the owner of the local playback, the decision whether audio interrupts, and the joining of an
    interrupting utterance with the one before. An ownership is cancelled at most once, an old interruption
    matches nothing, an utterance is joined once.
  \<^item> \<open>Memory_Receipt\<close>: \<open>conversation_memory_receipt.py\<close>. References are well formed, and merging them is a
    function of the set of the arguments.
  \<^item> \<open>Ingress_Entry\<close>, \<open>Ingress_Journal\<close>, \<open>Ingress_Ops\<close>: \<open>ConversationIngressRecoveryJournal\<close>; the entry and its
    strict check, the state with its two files, writing and loading, and one definition per
    public method. \<open>Ingress_Disk\<close>, \<open>Ingress_Load\<close> and \<open>Ingress_Sim\<close> hold the proofs: what a write and a load
    establish, and the simulation of every operation by the step relation \<open>journal_step\<close> of an abstract
    journal, whose steps carry the label of the operation that makes them. \<open>Ingress_Recovery\<close>,
    \<open>Ingress_Purge\<close> and \<open>Ingress_Runs\<close> state the properties: a message is processed at
    most once, a restart restores the entries, a rollback is refused, a purge removes exactly its lineage, and over
    all calls, purges included, each is one step of its label, entries move forward and agree with the disk.

  \<^item> \<open>Py_Json\<close>: \<open>json.dumps\<close> in canonical form and the strict \<open>json.loads\<close> on UTF-8 bytes, and that the second
    inverts the first.
  \<^item> \<open>Deletion_Tombstone\<close>, \<open>Deletion_Chain\<close>, \<open>Deletion_Ledger\<close>, \<open>Deletion_Receipt\<close>, \<open>Deletion_Guard\<close>:
    \<open>memory_deletion_journal.py\<close>; the strict checks of deletion events, the reading of the hash-chained
    journal, the ledger of three files (journal, head, anchor) with snapshot, repair and append, the
    positions and purge receipts, and the leases of readers and writers. \<open>Deletion_Event\<close>, \<open>Deletion_Evidence\<close>,
    \<open>Deletion_Sound\<close>, \<open>Deletion_Writes\<close> and \<open>Deletion_Start\<close> hold the proofs, \<open>Deletion_Sample\<close> a concrete
    ledger. \<open>Deletion_Recovery\<close>, \<open>Deletion_Purge\<close> and \<open>Deletion_Guard\<close> state the properties: an append
    to a started ledger is atomic under faults, no event is ever lost (a line torn in the middle makes the ledger
    refuse every read, but stands behind the untouched lines before it), an authentic anchor pins the past, a receipt is good for
    one position, a writer is alone.

  \<^bold>\<open>How the code is read.\<close> A class is a record of its fields and each method a function of the
  same name from the state to a result and the next state; an exception is \<open>Inl\<close>, with the state
  it leaves behind. A method under a lock is one step; a coroutine is cut where it suspends, and the
  pieces may interleave in any order. What the outside world answers (clocks, random tokens,
  digests, whether a read or a write raises, functions of modules that are not modelled) is a parameter or a
  record of parameters, read by a counter when it may answer differently each time. Strings have
  code points below 256, but those of the speech path (\<open>U_Text\<close>), which are lists of code points, and those
  of the deletion ledger, which are their UTF-8 bytes; integers are unbounded, as Python's; clock readings and durations are
  reals, without rounding. Two definitions take fuel: the parser of JSON the length of its input, which is
  always enough, and \<open>validated\<close> the number of rounds in which a reader of the ledger repairs it, where two are
  shown to be enough. All other loops run over finite collections
  and are structural recursions or list functions, but for three of the speech path (\<open>push_loop\<close>, \<open>u_count\<close>,
  \<open>drop_tail_marks\<close>), which shorten a text and end by a measure.

  \<^bold>\<open>Where the code does not do what it means to.\<close> A padded source in the voice owner file makes
  every later observation raise \<open>KeyError\<close>; an expiry beyond the range of floats escapes the check
  of a lease status as \<open>OverflowError\<close>; a preview that expires at \<open>NaN\<close> passes; a history limit of
  zero never trims; a caller that gives up can remove an equal ticket of another caller, who is then
  never served. Each is a theorem of the theory of its component. The words among the soft breaks of the chunker never
  match a single character. A stream that registers its playback after a cancel leaves a guild active with
  nothing playing (\<open>late_task_leaves_ghost\<close>); an utterance merged without a turn id is merged again; a voice
  probability that is NaN counts as certain. A purge of the journal that cannot verify its own write puts the deleted rows
  back in memory, and the next write back on disk (\<open>failed_purge_check_restores_rows\<close>); a purge of a failed
  journal loads its targets again and stores them; a clock failure between a change and its write leaves
  the change in memory alone; and a rejected path leaves a fresh journal ready, not in the error state a comment promises.
  A line of the deletion ledger that was torn by a crash makes the ledger refuse every later read and append,
  with nothing to repair it; a list for the reason of a deletion raises \<open>TypeError\<close>, a note identity with a
  lone surrogate \<open>UnicodeEncodeError\<close>, a huge time in an anchor \<open>OverflowError\<close>, none of them the error of the module.

  \<^bold>\<open>Not modelled.\<close> Coroutine wrappers (\<open>await_continuity_commit_without_early_unlock\<close>), display texts and keyword tests, the HTTP client of the
  voice lease, the identity of prompts and the process lock of the lane; and the rest of the
  program: services, model and audio back ends, databases, the user interfaces, vendored code.
  Of the journal: \<open>last_code\<close> is kept, the constant fields of receipts and records and the artifact
  process are not.
  Of playback, the audio itself (sources, queues of prepared sentences, Discord's client) is outside.
  Of the deletion ledger: the calls that lock a file, the artifact process, the state of the files for caches
  (\<open>memory_deletion_journal_state\<close>), and time stamps whose digits are not ASCII.
  Parts that would be next: time budgets (\<open>turn_budget.py\<close>), failures and goals of the autonomy
  loop (\<open>autonomy.py\<close>, \<open>autonomy_failure_contract.py\<close>), the owner lock and provider of the world lease,
  capture consent and voice admission.
\<close>

end
